(* ===== verification/Prelude.thy ===== *)
theory Prelude
  imports Main "HOL-Library.Word" "HOL-Library.Code_Target_Nat"
begin

text \<open>
  Shared vocabulary of the development.

  Python \<open>str\<close> values are lists of code points (\<open>ucs\<close>), Python \<open>bytes\<close> values are
  lists of 8-bit words (\<open>bytes\<close>).  The functions of the Python standard library that the
  modelled modules use on them (\<open>str.find\<close>, \<open>str.startswith\<close>, slices, the scanning loop
  \<open>while index < len(text) and p(text[index]): index += 1\<close>) are defined here once, with the
  lemmas that every scanner proof needs.  Fallible code returns a sum, and \<open>bindE\<close> is the
  sequencing of two fallible calls.
\<close>

type_synonym ucs = "nat list"
type_synonym byte = "8 word"
type_synonym bytes = "8 word list"

named_theorems progress \<open>the end position of a scanner lies after its start\<close>
named_theorems bounded \<open>the end position of a scanner lies within the text\<close>

section \<open>ASCII literals\<close>

definition asc :: "string \<Rightarrow> ucs" where
  "asc s = map of_char s"

definition basc :: "string \<Rightarrow> bytes" where
  "basc s = map of_char s"

abbreviation ch_tab :: nat where "ch_tab \<equiv> 9"
abbreviation ch_lf :: nat where "ch_lf \<equiv> 10"
abbreviation ch_ff :: nat where "ch_ff \<equiv> 12"
abbreviation ch_cr :: nat where "ch_cr \<equiv> 13"
abbreviation ch_space :: nat where "ch_space \<equiv> 32"
abbreviation ch_dquote :: nat where "ch_dquote \<equiv> 34"
abbreviation ch_hash :: nat where "ch_hash \<equiv> 35"
abbreviation ch_percent :: nat where "ch_percent \<equiv> 37"
abbreviation ch_quote :: nat where "ch_quote \<equiv> 39"
abbreviation ch_lparen :: nat where "ch_lparen \<equiv> 40"
abbreviation ch_rparen :: nat where "ch_rparen \<equiv> 41"
abbreviation ch_star :: nat where "ch_star \<equiv> 42"
abbreviation ch_comma :: nat where "ch_comma \<equiv> 44"
abbreviation ch_dot :: nat where "ch_dot \<equiv> 46"
abbreviation ch_semi :: nat where "ch_semi \<equiv> 59"
abbreviation ch_lbrack :: nat where "ch_lbrack \<equiv> 91"
abbreviation ch_backslash :: nat where "ch_backslash \<equiv> 92"
abbreviation ch_rbrack :: nat where "ch_rbrack \<equiv> 93"
abbreviation ch_underscore :: nat where "ch_underscore \<equiv> 95"
abbreviation ch_backquote :: nat where "ch_backquote \<equiv> 96"
abbreviation ch_lbrace :: nat where "ch_lbrace \<equiv> 123"
abbreviation ch_pipe :: nat where "ch_pipe \<equiv> 124"
abbreviation ch_rbrace :: nat where "ch_rbrace \<equiv> 125"

section \<open>Fallible calls\<close>

definition bindE :: "('e + 'a) \<Rightarrow> ('a \<Rightarrow> 'e + 'b) \<Rightarrow> 'e + 'b" where
  "bindE m f = (case m of Inl e \<Rightarrow> Inl e | Inr x \<Rightarrow> f x)"

lemma bindE_simps [simp]:
  "bindE (Inl e) f = Inl e"
  "bindE (Inr x) f = f x"
  by (simp_all add: bindE_def)

lemma bindE_eq_Inr: "bindE m f = Inr y \<longleftrightarrow> (\<exists>x. m = Inr x \<and> f x = Inr y)"
  by (cases m) simp_all

lemma bindE_eq_Inl: "bindE m f = Inl e \<longleftrightarrow> m = Inl e \<or> (\<exists>x. m = Inr x \<and> f x = Inl e)"
  by (cases m) auto

lemma bindE_cong [fundef_cong]:
  "m = m' \<Longrightarrow> (\<And>x. m' = Inr x \<Longrightarrow> f x = g x) \<Longrightarrow> bindE m f = bindE m' g"
  by (cases m') auto

section \<open>Slices, prefixes and searching\<close>

definition slice :: "'a list \<Rightarrow> nat \<Rightarrow> nat \<Rightarrow> 'a list" where
  "slice xs i j = take (j - i) (drop i xs)"

lemma slice_length [simp]: "length (slice xs i j) = min (j - i) (length xs - i)"
  by (simp add: slice_def min.commute)

lemma slice_self [simp]: "slice xs i i = []"
  by (simp add: slice_def)

lemma slice_full [simp]: "slice xs 0 (length xs) = xs"
  by (simp add: slice_def)

lemma slice_append:
  assumes "i \<le> j" and "j \<le> k"
  shows "slice xs i j @ slice xs j k = slice xs i k"
proof -
  have "drop j xs = drop (j - i) (drop i xs)" and "k - i = (j - i) + (k - j)"
    using assms by simp_all
  then show ?thesis by (simp only: slice_def take_add)
qed

text \<open>\<open>text.startswith(prefix, index)\<close>\<close>

definition startswith_at :: "'a list \<Rightarrow> 'a list \<Rightarrow> nat \<Rightarrow> bool" where
  "startswith_at xs pre i = (take (length pre) (drop i xs) = pre)"

lemma startswith_at_length:
  assumes "startswith_at xs pre i" and "pre \<noteq> []"
  shows "i + length pre \<le> length xs"
proof -
  from assms(1) have "length (take (length pre) (drop i xs)) = length pre"
    by (simp only: startswith_at_def)
  then have "length pre \<le> length xs - i" by simp
  moreover have "0 < length pre" using assms(2) by simp
  ultimately show ?thesis by linarith
qed

text \<open>\<open>text.find(sub, start)\<close>; \<open>None\<close> stands for Python's \<open>-1\<close>.\<close>

function find_from :: "'a list \<Rightarrow> 'a list \<Rightarrow> nat \<Rightarrow> nat option" where
  "find_from xs sub i =
     (if i + length sub \<le> length xs
      then if startswith_at xs sub i then Some i else find_from xs sub (Suc i)
      else None)"
  by pat_completeness auto
termination
  by (relation "measure (\<lambda>(xs, sub, i). Suc (length xs) - i)") auto

declare find_from.simps [simp del]

lemma find_from_Some:
  "find_from xs sub i = Some j \<Longrightarrow> i \<le> j \<and> j + length sub \<le> length xs \<and> startswith_at xs sub j"
proof (induction xs sub i rule: find_from.induct)
  case (1 xs sub i)
  show ?case
    using "1.prems" "1.IH" by (subst (asm) find_from.simps) (auto split: if_splits)
qed

lemma find_from_least:
  "find_from xs sub i = Some j \<Longrightarrow> i \<le> k \<Longrightarrow> k < j \<Longrightarrow> \<not> startswith_at xs sub k"
proof (induction xs sub i rule: find_from.induct)
  case (1 xs sub i)
  show ?case
  proof (cases "i = k")
    case True
    with "1.prems" show ?thesis by (subst (asm) find_from.simps) (auto split: if_splits)
  next
    case False
    with "1.prems" "1.IH" show ?thesis
      by (subst (asm) find_from.simps) (auto split: if_splits)
  qed
qed

section \<open>Scanning loops\<close>

text \<open>
  Induction for a loop whose index only moves forward while it is below a bound: the hypothesis
  covers every later index, with whatever accumulator the iteration produced.
\<close>

lemma loop_induct [case_names step]:
  fixes n :: nat
  assumes "\<And>i acc. (\<And>i' acc'. i < n \<Longrightarrow> i < i' \<Longrightarrow> P i' acc') \<Longrightarrow> P i acc"
  shows "P i acc"
proof (induction "n - i" arbitrary: i acc rule: less_induct)
  case less
  show ?case by (rule assms, rule less) simp
qed

lemma index_induct [case_names step]:
  fixes n :: nat
  assumes "\<And>i. (\<And>i'. i < n \<Longrightarrow> i < i' \<Longrightarrow> P i') \<Longrightarrow> P i"
  shows "P i"
  by (rule loop_induct [where n = n and P = "\<lambda>i _. P i"]) (rule assms)

function skip_while :: "('a \<Rightarrow> bool) \<Rightarrow> 'a list \<Rightarrow> nat \<Rightarrow> nat" where
  "skip_while p xs i = (if i < length xs \<and> p (xs ! i) then skip_while p xs (Suc i) else i)"
  by pat_completeness auto
termination
  by (relation "measure (\<lambda>(p, xs, i). length xs - i)") auto

declare skip_while.simps [simp del]

lemma skip_while_ge: "i \<le> skip_while p xs i"
proof (induction p xs i rule: skip_while.induct)
  case (1 p xs i)
  then show ?case by (subst skip_while.simps) (auto dest: Suc_leD)
qed

lemma skip_while_le: "i \<le> length xs \<Longrightarrow> skip_while p xs i \<le> length xs"
proof (induction p xs i rule: skip_while.induct)
  case (1 p xs i)
  then show ?case by (subst skip_while.simps) auto
qed

lemma skip_while_all: "i \<le> k \<Longrightarrow> k < skip_while p xs i \<Longrightarrow> p (xs ! k)"
proof (induction p xs i rule: skip_while.induct)
  case (1 p xs i)
  show ?case
  proof (cases "i < length xs \<and> p (xs ! i)")
    case True
    then have "k < skip_while p xs (Suc i)"
      using "1.prems" by (simp add: skip_while.simps [of p xs i])
    then show ?thesis
      using "1.IH" True "1.prems" by (cases "i = k") auto
  next
    case False
    then show ?thesis using "1.prems" by (auto simp: skip_while.simps [of p xs i])
  qed
qed

lemma skip_while_stop:
  "skip_while p xs i < length xs \<Longrightarrow> \<not> p (xs ! skip_while p xs i)"
proof (induction p xs i rule: skip_while.induct)
  case (1 p xs i)
  then show ?case by (metis skip_while.simps)
qed

text \<open>The same loop with the extra guard \<open>index < limit\<close>.\<close>

function skip_upto :: "('a \<Rightarrow> bool) \<Rightarrow> 'a list \<Rightarrow> nat \<Rightarrow> nat \<Rightarrow> nat" where
  "skip_upto p xs lim i =
     (if i < length xs \<and> i < lim \<and> p (xs ! i) then skip_upto p xs lim (Suc i) else i)"
  by pat_completeness auto
termination
  by (relation "measure (\<lambda>(p, xs, lim, i). length xs - i)") auto

declare skip_upto.simps [simp del]

lemma skip_upto_ge: "i \<le> skip_upto p xs lim i"
proof (induction p xs lim i rule: skip_upto.induct)
  case (1 p xs lim i)
  then show ?case by (subst skip_upto.simps) (auto dest: Suc_leD)
qed

lemma skip_upto_le: "i \<le> length xs \<Longrightarrow> skip_upto p xs lim i \<le> length xs"
proof (induction p xs lim i rule: skip_upto.induct)
  case (1 p xs lim i)
  then show ?case by (subst skip_upto.simps) auto
qed

lemma skip_upto_lim: "i \<le> lim \<Longrightarrow> skip_upto p xs lim i \<le> lim"
proof (induction p xs lim i rule: skip_upto.induct)
  case (1 p xs lim i)
  then show ?case by (subst skip_upto.simps) auto
qed

end
