(* ===== verification/Utf8.thy ===== *)
theory Utf8
  imports Prelude
begin

text \<open>
  Python's strict UTF-8 codec, as \<open>bytes.decode("utf-8", errors="strict")\<close> and
  \<open>str.encode("utf-8")\<close> are used by \<open>proofs/loader_scan.py\<close> and
  \<open>fork_child_ocaml.py\<close>.  A decoding failure carries the half-open byte range that
  Python reports as \<open>exc.start\<close> and \<open>exc.end\<close>.
\<close>

section \<open>Encoding\<close>

definition scalar :: "nat \<Rightarrow> bool" where
  "scalar c \<longleftrightarrow> c < 0xD800 \<or> (0xE000 \<le> c \<and> c \<le> 0x10FFFF)"

definition utf8_units :: "nat \<Rightarrow> nat list" where
  "utf8_units c =
     (if c < 0x80 then [c]
      else if c < 0x800 then [0xC0 + c div 64, 0x80 + c mod 64]
      else if c < 0x10000 then [0xE0 + c div 4096, 0x80 + c div 64 mod 64, 0x80 + c mod 64]
      else [0xF0 + c div 262144, 0x80 + c div 4096 mod 64, 0x80 + c div 64 mod 64, 0x80 + c mod 64])"

definition utf8_char :: "nat \<Rightarrow> bytes" where
  "utf8_char c = map of_nat (utf8_units c)"

definition utf8_encode :: "ucs \<Rightarrow> bytes" where
  "utf8_encode s = concat (map utf8_char s)"

lemma utf8_encode_simps [simp]:
  "utf8_encode [] = []"
  "utf8_encode (c # s) = utf8_char c @ utf8_encode s"
  "utf8_encode (s @ t) = utf8_encode s @ utf8_encode t"
  by (simp_all add: utf8_encode_def)

lemma utf8_char_nonempty [simp]: "utf8_char c \<noteq> []"
  by (simp add: utf8_char_def utf8_units_def)

lemma utf8_units_nonempty [simp]: "utf8_units c \<noteq> []"
  by (simp add: utf8_units_def)

lemma utf8_char_ascii: "c < 128 \<Longrightarrow> utf8_char c = [of_nat c]"
  by (simp add: utf8_char_def utf8_units_def)

section \<open>Decoding\<close>

definition continuation :: "nat \<Rightarrow> bool" where
  "continuation b \<longleftrightarrow> 0x80 \<le> b \<and> b < 0xC0"

text \<open>
  \<open>utf8_multi p c bs\<close> decodes the multi-byte sequence whose first byte is \<open>c\<close>, at
  position \<open>p\<close>, followed by \<open>bs\<close>.  It returns the code point and the sequence's length.
\<close>

definition utf8_multi :: "nat \<Rightarrow> nat \<Rightarrow> nat list \<Rightarrow> (nat \<times> nat) + (nat \<times> nat)" where
  "utf8_multi p c bs =
     (if c < 0xC2 then Inl (p, p + 1)
      else if c < 0xE0 then
        (case bs of
           b1 # _ \<Rightarrow> if continuation b1 then Inr (c mod 32 * 64 + b1 mod 64, 2) else Inl (p, p + 1)
         | [] \<Rightarrow> Inl (p, p + 1))
      else if c < 0xF0 then
        (case bs of
           [] \<Rightarrow> Inl (p, p + 1)
         | b1 # bs1 \<Rightarrow>
             if \<not> continuation b1 \<or> (c = 0xE0 \<and> b1 < 0xA0) \<or> (c = 0xED \<and> 0xA0 \<le> b1)
             then Inl (p, p + 1)
             else (case bs1 of
                     [] \<Rightarrow> Inl (p, p + 2)
                   | b2 # _ \<Rightarrow>
                       if continuation b2
                       then Inr (c mod 16 * 4096 + b1 mod 64 * 64 + b2 mod 64, 3)
                       else Inl (p, p + 2)))
      else if c < 0xF5 then
        (case bs of
           [] \<Rightarrow> Inl (p, p + 1)
         | b1 # bs1 \<Rightarrow>
             if \<not> continuation b1 \<or> (c = 0xF0 \<and> b1 < 0x90) \<or> (c = 0xF4 \<and> 0x90 \<le> b1)
             then Inl (p, p + 1)
             else (case bs1 of
                     [] \<Rightarrow> Inl (p, p + 2)
                   | b2 # bs2 \<Rightarrow>
                       if \<not> continuation b2 then Inl (p, p + 2)
                       else (case bs2 of
                               [] \<Rightarrow> Inl (p, p + 3)
                             | b3 # _ \<Rightarrow>
                                 if continuation b3
                                 then Inr (c mod 8 * 262144 + b1 mod 64 * 4096
                                           + b2 mod 64 * 64 + b3 mod 64, 4)
                                 else Inl (p, p + 3))))
      else Inl (p, p + 1))"

function utf8_decode_from :: "nat \<Rightarrow> nat list \<Rightarrow> (nat \<times> nat) + ucs" where
  "utf8_decode_from p [] = Inr []"
| "utf8_decode_from p (c # bs) =
     (if c < 0x80 then map_sum id (Cons c) (utf8_decode_from (p + 1) bs)
      else case utf8_multi p c bs of
             Inl e \<Rightarrow> Inl e
           | Inr (u, n) \<Rightarrow> map_sum id (Cons u) (utf8_decode_from (p + n) (drop (n - 1) bs)))"
  by pat_completeness auto
termination
  by (relation "measure (\<lambda>(p, bs). length bs)") auto

definition utf8_decode :: "bytes \<Rightarrow> (nat \<times> nat) + ucs" where
  "utf8_decode bs = utf8_decode_from 0 (map unat bs)"

section \<open>Round trips\<close>

lemma unat_of_nat_byte: "n < 256 \<Longrightarrow> unat (of_nat n :: byte) = n"
  by (simp add: unat_of_nat take_bit_eq_mod)

lemma of_nat_unat_byte: "of_nat (unat (b :: byte)) = b"
  by simp

lemma map_unat_of_nat:
  "\<forall>n \<in> set ns. n < 256 \<Longrightarrow> map unat (map (of_nat :: nat \<Rightarrow> byte) ns) = ns"
  by (induction ns) (simp_all add: unat_of_nat_byte)

lemma scalar_bound: "scalar c \<Longrightarrow> c \<le> 0x10FFFF"
  by (auto simp: scalar_def)

lemma utf8_units_byte: "c \<le> 0x10FFFF \<Longrightarrow> n \<in> set (utf8_units c) \<Longrightarrow> n < 256"
  by (auto simp: utf8_units_def split: if_splits)

lemma map_unat_utf8_char: "scalar c \<Longrightarrow> map unat (utf8_char c) = utf8_units c"
  unfolding utf8_char_def by (rule map_unat_of_nat) (blast dest: scalar_bound utf8_units_byte)

text \<open>The code point written in base 64, with its digits named.\<close>

lemma digits2:
  fixes c :: nat
  assumes "c < 0x800"
  obtains x y where "c = 64 * x + y" "y < 64" "x < 32" "c div 64 = x" "c mod 64 = y"
  using assms by (intro that [of "c div 64" "c mod 64"]) auto

lemma digits3:
  fixes c :: nat
  assumes "c < 0x10000"
  obtains x y z where "c = 4096 * x + 64 * y + z" "y < 64" "z < 64" "x < 16"
    "c div 4096 = x" "c div 64 mod 64 = y" "c mod 64 = z"
proof -
  obtain q z where q: "c = 64 * q + z" "z < 64"
    by (metis mod_less_divisor mult_div_mod_eq zero_less_numeral)
  obtain x y where x: "q = 64 * x + y" "y < 64"
    by (metis mod_less_divisor mult_div_mod_eq zero_less_numeral)
  have "c div 64 = q" "c mod 64 = z" using q by simp_all
  moreover have "q mod 64 = y" using x by simp
  moreover have "c div 4096 = x" using q x by simp
  ultimately show ?thesis
    using q x assms by (intro that [of x y z]) simp_all
qed

lemma digits4:
  fixes c :: nat
  assumes "c \<le> 0x10FFFF"
  obtains w x y z where "c = 262144 * w + 4096 * x + 64 * y + z" "x < 64" "y < 64" "z < 64"
    "w < 5" "c div 262144 = w" "c div 4096 mod 64 = x" "c div 64 mod 64 = y" "c mod 64 = z"
proof -
  obtain q z where q: "c = 64 * q + z" "z < 64"
    by (metis mod_less_divisor mult_div_mod_eq zero_less_numeral)
  obtain r y where r: "q = 64 * r + y" "y < 64"
    by (metis mod_less_divisor mult_div_mod_eq zero_less_numeral)
  obtain w x where w: "r = 64 * w + x" "x < 64"
    by (metis mod_less_divisor mult_div_mod_eq zero_less_numeral)
  have "c div 4096 = r" "c div 262144 = w" using q r w by simp_all
  moreover have "c div 64 = q" "c mod 64 = z" using q by simp_all
  moreover have "q mod 64 = y" using r by simp
  moreover have "r mod 64 = x" using w by simp
  moreover have "c = 262144 * w + 4096 * x + 64 * y + z" using q r w by simp
  moreover have "w < 5" using assms q r w by linarith
  ultimately show ?thesis
    using q(2) r(2) w(2) by (intro that [of w x y z]) (simp_all only:)
qed

lemma digit_mod: "z < 64 \<Longrightarrow> (64 * a + z) mod 64 = (z::nat)"
  by simp

lemma mod_offset [simp]:
  "(y::nat) < 32 \<Longrightarrow> (192 + y) mod 32 = y"
  "x < 16 \<Longrightarrow> (224 + x) mod 16 = (x::nat)"
  "w < 8 \<Longrightarrow> (240 + w) mod 8 = (w::nat)"
  "z < 64 \<Longrightarrow> (128 + z) mod 64 = (z::nat)"
  using mod_mult_self3 [of 6 32 y] mod_mult_self3 [of 14 16 x]
    mod_mult_self3 [of 30 8 w] mod_mult_self3 [of 2 64 z] by simp_all

lemma utf8_multi_units:
  assumes "scalar c" and "0x80 \<le> c"
  shows "\<exists>u us. utf8_units c = u # us \<and> 0x80 \<le> u
           \<and> utf8_multi p u (us @ bs) = Inr (c, length (utf8_units c))"
proof -
  consider "c < 0x800" | "0x800 \<le> c" "c < 0x10000" | "0x10000 \<le> c"
    using assms by linarith
  then show ?thesis
  proof cases
    case 1
    from digits2 [OF this] obtain x y where d: "c = 64 * x + y" "y < 64" "x < 32"
      "c div 64 = x" "c mod 64 = y" .
    then have "utf8_units c = [192 + x, 128 + y]" and "2 \<le> x"
      using 1 assms(2) by (simp_all add: utf8_units_def)
    then show ?thesis
      using d by (simp add: utf8_multi_def continuation_def)
  next
    case 2
    from digits3 [OF 2(2)] obtain x y z where d: "c = 4096 * x + 64 * y + z" "y < 64" "z < 64"
      "x < 16" "c div 4096 = x" "c div 64 mod 64 = y" "c mod 64 = z" .
    have "utf8_units c = [224 + x, 128 + y, 128 + z]"
      using 2 d by (simp add: utf8_units_def)
    moreover have "\<not> (x = 0 \<and> y < 32)" and "\<not> (x = 13 \<and> 32 \<le> y)"
      using 2 d(1-4) assms(1) unfolding scalar_def by auto
    ultimately show ?thesis
      using d by (auto simp: utf8_multi_def continuation_def)
  next
    case 3
    from digits4 [OF scalar_bound [OF assms(1)]] obtain w x y z where
      d: "c = 262144 * w + 4096 * x + 64 * y + z" "x < 64" "y < 64" "z < 64" "w < 5"
      "c div 262144 = w" "c div 4096 mod 64 = x" "c div 64 mod 64 = y" "c mod 64 = z" .
    have "utf8_units c = [240 + w, 128 + x, 128 + y, 128 + z]"
      using 3 d by (simp add: utf8_units_def)
    moreover have "\<not> (w = 0 \<and> x < 16)" and "\<not> (w = 4 \<and> 16 \<le> x)"
      using 3 d(1-5) scalar_bound [OF assms(1)] by auto
    ultimately show ?thesis
      using d by (auto simp: utf8_multi_def continuation_def)
  qed
qed

lemma length_utf8_char [simp]: "length (utf8_char c) = length (utf8_units c)"
  by (simp add: utf8_char_def)

lemma utf8_decode_char:
  assumes "scalar c"
  shows "utf8_decode_from p (map unat (utf8_char c) @ bs)
           = map_sum id (Cons c) (utf8_decode_from (p + length (utf8_char c)) bs)"
proof (cases "c < 0x80")
  case True
  then show ?thesis
    using map_unat_utf8_char [OF assms] by (simp add: utf8_units_def)
next
  case False
  then obtain u us where "utf8_units c = u # us" "0x80 \<le> u"
    "utf8_multi p u (us @ bs) = Inr (c, length (utf8_units c))"
    using utf8_multi_units [OF assms, of p bs] by auto
  then show ?thesis
    using map_unat_utf8_char [OF assms] by simp
qed

lemma utf8_decode_from_encode:
  "list_all scalar s \<Longrightarrow> utf8_decode_from p (map unat (utf8_encode s)) = Inr s"
  by (induction s arbitrary: p) (simp_all add: utf8_decode_char)

lemma utf8_decode_encode: "list_all scalar s \<Longrightarrow> utf8_decode (utf8_encode s) = Inr s"
  by (simp add: utf8_decode_def utf8_decode_from_encode)

text \<open>
  Conversely, what a strict decode accepts is the encoding of its result, and the result holds
  scalar values only: two byte strings with the same decoding are equal.
\<close>

lemma continuationE:
  assumes "continuation b"
  obtains y where "b = 128 + y" "y < 64"
  using assms by (intro that [of "b - 128"]) (auto simp: continuation_def)

lemma utf8_multi_sound:
  assumes "utf8_multi p c bs = Inr (u, n)" and "0x80 \<le> c"
  shows "scalar u \<and> 0 < n \<and> n - 1 \<le> length bs \<and> utf8_units u = c # take (n - 1) bs"
proof -
  consider "0xC2 \<le> c" "c < 0xE0" | "0xE0 \<le> c" "c < 0xF0" | "0xF0 \<le> c" "c < 0xF5"
    using assms(1) by (auto simp: utf8_multi_def not_less split: if_splits)
  then show ?thesis
  proof cases
    case 1
    then obtain b1 bs1 where bs: "bs = b1 # bs1" "continuation b1" "n = 2"
      "u = c mod 32 * 64 + b1 mod 64"
      using assms(1) by (auto simp: utf8_multi_def split: if_splits list.splits)
    obtain y where y: "b1 = 128 + y" "y < 64" using bs(2) by (rule continuationE)
    obtain x where x: "c = 192 + x" "2 \<le> x" "x < 32"
      using 1 by (intro that [of "c - 192"]) auto
    show ?thesis using bs x y by (auto simp: scalar_def utf8_units_def)
  next
    case 2
    then obtain b1 b2 bs2 where bs: "bs = b1 # b2 # bs2" "continuation b1" "continuation b2"
      "n = 3" "u = c mod 16 * 4096 + b1 mod 64 * 64 + b2 mod 64"
      "\<not> (c = 0xE0 \<and> b1 < 0xA0)" "\<not> (c = 0xED \<and> 0xA0 \<le> b1)"
      using assms(1) by (auto simp: utf8_multi_def split: if_splits list.splits)
    obtain y where y: "b1 = 128 + y" "y < 64" using bs(2) by (rule continuationE)
    obtain z where z: "b2 = 128 + z" "z < 64" using bs(3) by (rule continuationE)
    obtain x where x: "c = 224 + x" "x < 16"
      using 2 by (intro that [of "c - 224"]) auto
    have u: "u = 64 * (64 * x + y) + z" using bs x y z by simp
    have "u mod 64 = z" unfolding u by (rule digit_mod [OF z(2)])
    moreover have "u div 64 = 64 * x + y" "(64 * x + y) mod 64 = y" "u div 4096 = x"
      using u y z by simp_all
    moreover have "0x800 \<le> u" "u < 0x10000" using u bs(6) x y z by auto
    moreover have "x < 13 \<or> x = 13 \<and> y < 32 \<or> 14 \<le> x" using bs(7) x y by auto
    then have "scalar u" using u x y z by (auto simp: scalar_def)
    ultimately show ?thesis using bs x y z by (simp add: utf8_units_def)
  next
    case 3
    then obtain b1 b2 b3 bs3 where bs: "bs = b1 # b2 # b3 # bs3" "continuation b1"
      "continuation b2" "continuation b3" "n = 4"
      "u = c mod 8 * 262144 + b1 mod 64 * 4096 + b2 mod 64 * 64 + b3 mod 64"
      "\<not> (c = 0xF0 \<and> b1 < 0x90)" "\<not> (c = 0xF4 \<and> 0x90 \<le> b1)"
      using assms(1) by (auto simp: utf8_multi_def split: if_splits list.splits)
    obtain x where x: "b1 = 128 + x" "x < 64" using bs(2) by (rule continuationE)
    obtain y where y: "b2 = 128 + y" "y < 64" using bs(3) by (rule continuationE)
    obtain z where z: "b3 = 128 + z" "z < 64" using bs(4) by (rule continuationE)
    obtain w where w: "c = 240 + w" "w < 5"
      using 3 by (intro that [of "c - 240"]) auto
    have u: "u = 64 * (64 * (64 * w + x) + y) + z" using bs x y z w by simp
    have r: "u mod 64 = z" unfolding u by (rule digit_mod [OF z(2)])
    have r2: "u div 64 mod 64 = y"
    proof -
      have "u div 64 = 64 * (64 * w + x) + y" using u z(2) by simp
      then show ?thesis by (simp only: digit_mod [OF y(2)])
    qed
    have r3: "u div 4096 mod 64 = x"
    proof -
      have "u div 4096 = 64 * w + x" using u y(2) z(2) by simp
      then show ?thesis by (simp only: digit_mod [OF x(2)])
    qed
    have r4: "u div 262144 = w" using u x(2) y(2) z(2) by simp
    have "w = 0 \<Longrightarrow> 16 \<le> x" "w = 4 \<Longrightarrow> x < 16" using bs(7,8) x w by auto
    then have "w = 0 \<and> 16 \<le> x \<or> 1 \<le> w \<and> w \<le> 3 \<or> w = 4 \<and> x < 16" using w(2) by linarith
    then have range: "0x10000 \<le> u \<and> u \<le> 0x10FFFF"
      using u x(2) y(2) z(2) w(2) by (elim disjE conjE) auto
    then have "utf8_units u = [240 + w, 128 + x, 128 + y, 128 + z]"
      by (simp add: utf8_units_def r r2 r3 r4)
    then show ?thesis using range bs(1,5) x(1) y(1) z(1) w(1) by (simp add: scalar_def)
  qed
qed

lemma utf8_decode_from_sound:
  "utf8_decode_from p bs = Inr s \<Longrightarrow> list_all scalar s \<and> concat (map utf8_units s) = bs"
proof (induction p bs arbitrary: s rule: utf8_decode_from.induct)
  case (1 p)
  then show ?case by simp
next
  case (2 p c bs)
  show ?case
  proof (cases "c < 0x80")
    case True
    with "2.prems" obtain t where t: "utf8_decode_from (p + 1) bs = Inr t" "s = c # t"
      by (cases "utf8_decode_from (p + 1) bs") auto
    with "2.IH"(1) [OF True t(1)] True show ?thesis
      by (simp add: scalar_def utf8_units_def)
  next
    case False
    with "2.prems" obtain u n where m: "utf8_multi p c bs = Inr (u, n)"
      by (auto split: sum.splits)
    with False "2.prems" obtain t where
      t: "utf8_decode_from (p + n) (drop (n - 1) bs) = Inr t" "s = u # t"
      by (cases "utf8_decode_from (p + n) (drop (n - 1) bs)") auto
    from utf8_multi_sound [OF m] False
    have "scalar u" "utf8_units u = c # take (n - 1) bs" by simp_all
    with "2.IH"(2) [OF False m refl t(1)] t(2) show ?thesis by simp
  qed
qed

lemma utf8_decode_sound:
  assumes "utf8_decode bs = Inr s"
  shows "list_all scalar s \<and> utf8_encode s = bs"
proof -
  have *: "list_all scalar s" "concat (map utf8_units s) = map unat bs"
    using utf8_decode_from_sound [OF assms [unfolded utf8_decode_def]] by simp_all
  have "utf8_encode s = map of_nat (concat (map utf8_units s))"
    by (simp add: utf8_encode_def utf8_char_def [abs_def] map_concat o_def)
  also have "\<dots> = bs" by (simp add: *(2) o_def)
  finally show ?thesis using *(1) by simp
qed

end
