(* ===== verification/Lexer_Types.thy ===== *)
theory Lexer_Types
  imports Utf8
begin

text \<open>
  Data of the loader scanner, \<open>hol_workbench/proofs/loader_scan.py\<close> lines 1 to 245: byte spans,
  string literals, tokens, lexical failures, and the lexer object with its character-to-byte
  offset table and its line table.  What the scanner takes from the Unicode database and from
  \<open>hashlib\<close> is the record \<open>pyenv\<close>, an argument of every definition that uses it.
\<close>

section \<open>The Unicode database and the digest\<close>

text \<open>
  \<open>py_isupper c\<close> is \<open>chr(c).isupper()\<close>, \<open>py_category c\<close> is \<open>unicodedata.category(chr(c))\<close>, \<open>py_isdigit c\<close> is \<open>chr(c).isdigit()\<close>
  and \<open>py_sha256 bs\<close> is \<open>hashlib.sha256(bs).hexdigest()\<close>.
\<close>

record pyenv =
  py_category :: "nat \<Rightarrow> string"
  py_isdigit :: "nat \<Rightarrow> bool"
  py_isupper :: "nat \<Rightarrow> bool"
  py_sha256 :: "bytes \<Rightarrow> string"

section \<open>Bounds\<close>

definition MAX_SOURCE_BYTES :: nat where "MAX_SOURCE_BYTES = 64 * 1024 * 1024"
definition MAX_TOKENS :: nat where "MAX_TOKENS = 2000000"
definition MAX_NESTING :: nat where "MAX_NESTING = 4096"
definition MAX_QUOTED_DELIMITER_CHARS :: nat where "MAX_QUOTED_DELIMITER_CHARS = 4096"

section \<open>Spans, literals and tokens\<close>

record byte_span =
  sp_start :: nat
  sp_end :: nat

definition bytes_from :: "byte_span \<Rightarrow> bytes \<Rightarrow> bytes" where
  "bytes_from sp source = slice source (sp_start sp) (sp_end sp)"

record string_literal =
  lit_span :: byte_span
  value_bytes :: bytes
  raw_sha256 :: string
  quoted :: bool

definition utf8_text :: "string_literal \<Rightarrow> ucs option" where
  "utf8_text lit = (case utf8_decode (value_bytes lit) of Inl _ \<Rightarrow> None | Inr s \<Rightarrow> Some s)"

datatype tkind =
    K_STRING | K_OPAQUE | K_CHAR | K_TYPEVAR | K_HOL | K_SEMISEMI | K_SEMI | K_COMMA
  | K_LPAREN | K_RPAREN | K_LBRACK | K_RBRACK | K_LBRACE | K_RBRACE
  | K_LOADER | K_RAW_IDENT | K_IDENT | K_OP | K_ATOM

record token =
  tok_kind :: tkind
  tok_value :: ucs
  tok_span :: byte_span
  tok_literal :: "string_literal option"

definition mk_token :: "tkind \<Rightarrow> ucs \<Rightarrow> byte_span \<Rightarrow> token" where
  "mk_token k v sp = \<lparr>tok_kind = k, tok_value = v, tok_span = sp, tok_literal = None\<rparr>"

fun open_to_close :: "tkind \<Rightarrow> tkind option" where
  "open_to_close K_LPAREN = Some K_RPAREN"
| "open_to_close K_LBRACK = Some K_RBRACK"
| "open_to_close K_LBRACE = Some K_RBRACE"
| "open_to_close _ = None"

definition is_close :: "tkind \<Rightarrow> bool" where
  "is_close k \<longleftrightarrow> k \<in> {K_RPAREN, K_RBRACK, K_RBRACE}"

section \<open>Lexical failures\<close>

text \<open>
  A failure's reason is the message of the source; the three messages built by an f-string keep
  their argument beside the template.
\<close>

datatype reason = Msg string | MsgChar string nat | MsgKind string tkind

record lex_failure =
  fail_kind :: string
  fail_reason :: reason
  fail_start :: nat
  fail_end :: nat

definition lexical_failure :: "string \<Rightarrow> reason \<Rightarrow> nat \<Rightarrow> nat \<Rightarrow> lex_failure" where
  "lexical_failure k r s e = \<lparr>fail_kind = k, fail_reason = r, fail_start = s, fail_end = e\<rparr>"

section \<open>Characters\<close>

definition identifier_start :: "pyenv \<Rightarrow> nat \<Rightarrow> bool" where
  "identifier_start E c \<longleftrightarrow>
     (if c = ch_underscore then True else take 1 (py_category E c) = ''L'')"

definition identifier_continue :: "pyenv \<Rightarrow> nat \<Rightarrow> bool" where
  "identifier_continue E c \<longleftrightarrow>
     (if c \<in> {ch_underscore, ch_quote} \<or> py_isdigit E c then True
      else take 1 (py_category E c) \<in> {''L'', ''M''})"

definition is_blank :: "nat \<Rightarrow> bool" where
  "is_blank c \<longleftrightarrow> c \<in> {ch_space, ch_tab, ch_cr, ch_lf, ch_ff}"

definition is_space_or_tab :: "nat \<Rightarrow> bool" where
  "is_space_or_tab c \<longleftrightarrow> c \<in> {ch_space, ch_tab}"

definition ascii_digit :: "nat \<Rightarrow> bool" where
  "ascii_digit c \<longleftrightarrow> 48 \<le> c \<and> c \<le> 57"

definition ascii_alnum :: "nat \<Rightarrow> bool" where
  "ascii_alnum c \<longleftrightarrow> ascii_digit c \<or> (65 \<le> c \<and> c \<le> 90) \<or> (97 \<le> c \<and> c \<le> 122)"

definition is_hex :: "nat \<Rightarrow> bool" where
  "is_hex c \<longleftrightarrow> ascii_digit c \<or> (65 \<le> c \<and> c \<le> 70) \<or> (97 \<le> c \<and> c \<le> 102)"

definition is_lower_or_underscore :: "nat \<Rightarrow> bool" where
  "is_lower_or_underscore c \<longleftrightarrow> (97 \<le> c \<and> c \<le> 122) \<or> c = ch_underscore"

definition is_operator_char :: "nat \<Rightarrow> bool" where
  "is_operator_char c \<longleftrightarrow> c \<in> set (asc ''!$%&*+-./:<=>?@^|~#'')"

definition digit_value :: "nat \<Rightarrow> nat" where
  "digit_value c = (if c \<le> 57 then c - 48 else if c \<le> 70 then c - 55 else c - 87)"

definition digits_value :: "nat \<Rightarrow> ucs \<Rightarrow> nat" where
  "digits_value base ds = foldl (\<lambda>n d. n * base + digit_value d) 0 ds"

section \<open>The lexer object\<close>

record lexer =
  lx_source :: bytes
  lx_text :: ucs
  lx_offsets :: "nat list"
  lx_line_starts :: "nat list"

fun offsets_from :: "nat \<Rightarrow> ucs \<Rightarrow> nat list" where
  "offsets_from n [] = [n]"
| "offsets_from n (c # cs) = n # offsets_from (n + length (utf8_char c)) cs"

abbreviation byte_cr :: byte where "byte_cr \<equiv> 0x0D"
abbreviation byte_lf :: byte where "byte_lf \<equiv> 0x0A"

function line_starts_from :: "bytes \<Rightarrow> nat \<Rightarrow> nat list" where
  "line_starts_from source i =
     (if i < length source
      then if source ! i = byte_cr
           then (let j = (if i + 1 < length source \<and> source ! (i + 1) = byte_lf then i + 1 else i)
                 in (j + 1) # line_starts_from source (j + 1))
           else if source ! i = byte_lf
           then (i + 1) # line_starts_from source (i + 1)
           else line_starts_from source (i + 1)
      else [])"
  by pat_completeness auto
termination
  by (relation "measure (\<lambda>(source, i). length source - i)") (auto simp: Let_def)

declare line_starts_from.simps [simp del]

definition mk_lexer :: "bytes \<Rightarrow> ucs \<Rightarrow> lexer" where
  "mk_lexer source text =
     \<lparr>lx_source = source, lx_text = text, lx_offsets = offsets_from 0 text,
      lx_line_starts = 0 # line_starts_from source 0\<rparr>"

definition span :: "lexer \<Rightarrow> nat \<Rightarrow> nat \<Rightarrow> byte_span" where
  "span L i j = \<lparr>sp_start = lx_offsets L ! i, sp_end = lx_offsets L ! j\<rparr>"

text \<open>\<open>bisect.bisect_right(xs, x)\<close> on a sorted list.\<close>

definition bisect_right :: "nat list \<Rightarrow> nat \<Rightarrow> nat" where
  "bisect_right xs x = length (takeWhile (\<lambda>y. y \<le> x) xs)"

definition line_for_byte :: "lexer \<Rightarrow> nat \<Rightarrow> nat" where
  "line_for_byte L offset = bisect_right (lx_line_starts L) offset"

definition mk_literal :: "pyenv \<Rightarrow> lexer \<Rightarrow> nat \<Rightarrow> nat \<Rightarrow> bytes \<Rightarrow> bool \<Rightarrow> string_literal" where
  "mk_literal E L i j v q =
     (let sp = span L i j
      in \<lparr>lit_span = sp, value_bytes = v,
          raw_sha256 = py_sha256 E (bytes_from sp (lx_source L)), quoted = q\<rparr>)"

text \<open>
  The reference line counter, \<open>_line_number_for_offset\<close>, which walks the source up to the
  offset and is used before a lexer exists.
\<close>

function count_lines :: "bytes \<Rightarrow> nat \<Rightarrow> nat \<Rightarrow> nat \<Rightarrow> nat" where
  "count_lines source stop i line =
     (if i < stop
      then if source ! i = byte_cr
           then (let j = (if i + 1 < stop \<and> source ! (i + 1) = byte_lf then i + 1 else i)
                 in count_lines source stop (j + 1) (line + 1))
           else if source ! i = byte_lf
           then count_lines source stop (i + 1) (line + 1)
           else count_lines source stop (i + 1) line
      else line)"
  by pat_completeness auto
termination
  by (relation "measure (\<lambda>(source, stop, i, line). stop - i)") (auto simp: Let_def)

declare count_lines.simps [simp del]

definition line_number_for_offset :: "bytes \<Rightarrow> nat \<Rightarrow> nat" where
  "line_number_for_offset source offset = count_lines source (min offset (length source)) 0 1"

section \<open>The offset table\<close>

lemma length_offsets_from [simp]: "length (offsets_from n cs) = length cs + 1"
  by (induction cs arbitrary: n) simp_all

lemma offsets_from_nth:
  "i \<le> length cs \<Longrightarrow> offsets_from n cs ! i = n + length (utf8_encode (take i cs))"
proof (induction cs arbitrary: n i)
  case Nil
  then show ?case by simp
next
  case (Cons c cs)
  then show ?case by (cases i) simp_all
qed

lemma lexer_sel [simp]:
  "lx_source (mk_lexer source text) = source"
  "lx_text (mk_lexer source text) = text"
  "lx_offsets (mk_lexer source text) = offsets_from 0 text"
  by (simp_all add: mk_lexer_def)

lemma utf8_encode_take_mono:
  assumes "i < j" and "j \<le> length cs"
  shows "length (utf8_encode (take i cs)) < length (utf8_encode (take j cs))"
proof -
  have "take j cs = take i cs @ take (j - i) (drop i cs)"
    using assms by (metis less_imp_le le_add_diff_inverse take_add)
  moreover have "take (j - i) (drop i cs) \<noteq> []" using assms by simp
  then obtain c ds where "take (j - i) (drop i cs) = c # ds"
    by (cases "take (j - i) (drop i cs)") auto
  ultimately show ?thesis by simp
qed

lemma offsets_strict_mono:
  "i < j \<Longrightarrow> j \<le> length cs \<Longrightarrow> offsets_from n cs ! i < offsets_from n cs ! j"
  by (simp add: offsets_from_nth utf8_encode_take_mono)

lemma offsets_mono:
  "i \<le> j \<Longrightarrow> j \<le> length cs \<Longrightarrow> offsets_from n cs ! i \<le> offsets_from n cs ! j"
  using offsets_strict_mono [of i j cs n] by (cases "i = j") auto

text \<open>The byte span of the characters \<open>i\<close> to \<open>j\<close> holds exactly their encoding.\<close>

lemma bytes_from_span:
  assumes "i \<le> j" and "j \<le> length cs"
  shows "bytes_from (span (mk_lexer (utf8_encode cs) cs) i j) (utf8_encode cs)
           = utf8_encode (slice cs i j)"
proof -
  have "cs = take i cs @ slice cs i j @ drop j cs"
    using assms slice_append [of i j "length cs" cs] slice_append [of 0 i "length cs" cs]
    by (simp add: slice_def)
  then have e: "utf8_encode cs
      = utf8_encode (take i cs) @ utf8_encode (slice cs i j) @ utf8_encode (drop j cs)"
    by (metis utf8_encode_simps(3))
  have "take j cs = take i cs @ slice cs i j"
    using assms by (metis slice_append slice_def zero_le diff_zero drop_0)
  then have "length (utf8_encode (take j cs))
      = length (utf8_encode (take i cs)) + length (utf8_encode (slice cs i j))"
    by simp
  then show ?thesis
    using assms by (simp add: bytes_from_def span_def offsets_from_nth slice_def [of "utf8_encode cs"])
       (simp add: e)
qed

end
