(* ===== verification/Lexer_Literals.thy ===== *)
theory Lexer_Literals
  imports Lexer_Types
begin

text \<open>
  The literal scanners of \<open>_Lexer\<close> in \<open>hol_workbench/proofs/loader_scan.py\<close>: string escapes,
  ordinary and quoted strings, quoted extensions and character literals.  Every scanner takes the
  lexer and a start index into its text and returns a failure, or a result with the index at
  which scanning continues; \<open>progress\<close> and \<open>bounded\<close> collect that this index moves forward
  and stays inside the text.
\<close>

section \<open>Escapes\<close>

definition named_escape :: "nat \<Rightarrow> byte option" where
  "named_escape c =
     (if c = ch_backslash then Some 0x5C
      else if c = ch_dquote then Some 0x22
      else if c = ch_quote then Some 0x27
      else if c = 110 then Some 0x0A
      else if c = 116 then Some 0x09
      else if c = 98 then Some 0x08
      else if c = 114 then Some 0x0D
      else if c = ch_space then Some 0x20
      else None)"

definition escape_carriage_return :: "ucs \<Rightarrow> nat \<Rightarrow> bytes \<times> nat" where
  "escape_carriage_return t i =
     (let newline_end = skip_while (\<lambda>c. c = ch_cr) t i
      in if newline_end < length t \<and> t ! newline_end = ch_lf
         then ([], skip_while is_space_or_tab t (newline_end + 1))
         else ([0x5C, 0x0D], i + 1))"

definition escape_decimal :: "ucs \<Rightarrow> nat \<Rightarrow> nat \<Rightarrow> lex_failure + (bytes \<times> nat)" where
  "escape_decimal t slash i =
     (let digits = slice t i (i + 3)
      in if length digits \<noteq> 3 \<or> \<not> list_all ascii_digit digits
         then Inl (lexical_failure ''invalid_escape''
                (Msg ''decimal OCaml string escape must contain exactly three digits'')
                slash (min (length t) (i + 3)))
         else let v = digits_value 10 digits
              in if 255 < v
                 then Inl (lexical_failure ''invalid_escape''
                        (Msg ''decimal OCaml string escape exceeds one byte'') slash (i + 3))
                 else Inr ([of_nat v], i + 3))"

definition escape_hex :: "ucs \<Rightarrow> nat \<Rightarrow> bytes \<times> nat" where
  "escape_hex t i =
     (let digits = slice t (i + 1) (i + 3)
      in if length digits = 2 \<and> list_all is_hex digits
         then ([of_nat (digits_value 16 digits)], i + 3)
         else ([0x5C, 0x78], i + 1))"

definition escape_octal :: "ucs \<Rightarrow> nat \<Rightarrow> nat \<Rightarrow> lex_failure + (bytes \<times> nat)" where
  "escape_octal t slash i =
     (let digits = slice t (i + 1) (i + 4)
      in if length digits \<noteq> 3 \<or> \<not> (48 \<le> digits ! 0 \<and> digits ! 0 \<le> 51)
            \<or> \<not> list_all (\<lambda>c. 48 \<le> c \<and> c \<le> 55) (drop 1 digits)
         then Inl (lexical_failure ''invalid_escape''
                (Msg (''octal OCaml string escape must be in the range '' @ [CHR 0x5C] @ ''o000 through ''
                  @ [CHR 0x5C] @ ''o377''))
                slash (min (length t) (i + 4)))
         else Inr ([of_nat (digits_value 8 digits)], i + 4))"

definition escape_unicode :: "ucs \<Rightarrow> nat \<Rightarrow> nat \<Rightarrow> lex_failure + (bytes \<times> nat)" where
  "escape_unicode t slash i =
     (if i + 1 \<ge> length t \<or> t ! (i + 1) \<noteq> ch_lbrace
      then Inl (lexical_failure ''invalid_escape''
             (Msg ''Unicode OCaml string escape requires braces'') slash (min (length t) (i + 2)))
      else case find_from t [ch_rbrace] (i + 2) of
        None \<Rightarrow> Inl (lexical_failure ''invalid_escape''
             (Msg ''unterminated Unicode OCaml string escape'') slash (length t))
      | Some close \<Rightarrow>
          let digits = slice t (i + 2) close
          in if \<not> (1 \<le> length digits \<and> length digits \<le> 6) \<or> \<not> list_all is_hex digits
             then Inl (lexical_failure ''invalid_escape''
                    (Msg ''Unicode OCaml string escape requires one through six hex digits'')
                    slash (close + 1))
             else let sc = digits_value 16 digits
                  in if 0x10FFFF < sc \<or> (0xD800 \<le> sc \<and> sc \<le> 0xDFFF)
                     then Inl (lexical_failure ''invalid_escape''
                            (Msg ''Unicode OCaml string escape is not a scalar value'')
                            slash (close + 1))
                     else Inr (utf8_char sc, close + 1))"

definition decode_escape :: "lexer \<Rightarrow> nat \<Rightarrow> lex_failure + (bytes \<times> nat)" where
  "decode_escape L slash =
     (let t = lx_text L; i = slash + 1
      in if i \<ge> length t
         then Inl (lexical_failure ''unterminated_string''
                (Msg ''trailing backslash in string literal'') slash i)
         else let c = t ! i
              in case named_escape c of
                   Some v \<Rightarrow> Inr ([v], i + 1)
                 | None \<Rightarrow>
                     if c = ch_lf then Inr ([], skip_while is_space_or_tab t (i + 1))
                     else if c = ch_cr then Inr (escape_carriage_return t i)
                     else if ascii_digit c then escape_decimal t slash i
                     else if c = 120 then Inr (escape_hex t i)
                     else if c = 111 then escape_octal t slash i
                     else if c = 117 then escape_unicode t slash i
                     else Inr (0x5C # utf8_char c, i + 1))"

lemma escape_carriage_return_progress:
  "escape_carriage_return t i = (v, j) \<Longrightarrow> i < j"
  using skip_while_ge [of i "\<lambda>c. c = ch_cr" t]
    skip_while_ge [of "skip_while (\<lambda>c. c = ch_cr) t i + 1" is_space_or_tab t]
  by (auto simp: escape_carriage_return_def Let_def split: if_splits)

lemma escape_carriage_return_bounded:
  "escape_carriage_return t i = (v, j) \<Longrightarrow> i < length t \<Longrightarrow> j \<le> length t"
  using skip_while_le [of "skip_while (\<lambda>c. c = ch_cr) t i + 1" t is_space_or_tab]
  by (auto simp: escape_carriage_return_def Let_def split: if_splits)

lemma decode_escape_progress [progress]:
  assumes "decode_escape L slash = Inr (v, j)"
  shows "slash < j"
  using assms skip_while_ge [of "slash + 2" is_space_or_tab "lx_text L"]
  by (auto simp: decode_escape_def Let_def escape_decimal_def escape_hex_def escape_octal_def
        escape_unicode_def
      dest: escape_carriage_return_progress find_from_Some split: if_splits option.splits)

lemma decode_escape_bounded [bounded]:
  assumes "decode_escape L slash = Inr (v, j)"
  shows "j \<le> length (lx_text L)"
  using assms skip_while_le [of "slash + 2" "lx_text L" is_space_or_tab]
  by (auto simp: decode_escape_def Let_def escape_decimal_def escape_hex_def escape_octal_def
        escape_unicode_def
      dest: escape_carriage_return_bounded find_from_Some split: if_splits option.splits)

section \<open>Ordinary strings\<close>

function ordinary_loop :: "lexer \<Rightarrow> nat \<Rightarrow> nat \<Rightarrow> bytes \<Rightarrow> lex_failure + (bytes \<times> nat)" where
  "ordinary_loop L start i acc =
     (let t = lx_text L
      in if i < length t
         then let c = t ! i
              in if c = ch_dquote then Inr (acc, i + 1)
                 else if c = ch_backslash
                 then bindE (decode_escape L i) (\<lambda>(v, j). ordinary_loop L start j (acc @ v))
                 else if c = ch_cr
                 then if i + 1 < length t \<and> t ! (i + 1) = ch_lf
                      then ordinary_loop L start (i + 2) (acc @ [0x0A])
                      else ordinary_loop L start (i + 1) (acc @ [0x0D])
                 else if c = ch_lf then ordinary_loop L start (i + 1) (acc @ [0x0A])
                 else ordinary_loop L start (i + 1) (acc @ utf8_char c)
         else Inl (lexical_failure ''unterminated_string''
                (Msg ''unterminated ordinary OCaml string literal'') start (length t)))"
  by pat_completeness auto
termination
  by (relation "measure (\<lambda>(L, start, i, acc). length (lx_text L) - i)")
     (auto dest: progress bounded)

declare ordinary_loop.simps [simp del]

definition ordinary_string :: "pyenv \<Rightarrow> lexer \<Rightarrow> nat \<Rightarrow> lex_failure + (string_literal \<times> nat)" where
  "ordinary_string E L start =
     bindE (ordinary_loop L start (start + 1) [])
       (\<lambda>(v, j). Inr (mk_literal E L start j v False, j))"

lemma ordinary_loop_bounds:
  "ordinary_loop L start i acc = Inr (v, j) \<Longrightarrow> i < j \<and> j \<le> length (lx_text L)"
proof (induction i acc rule: loop_induct [where n = "length (lx_text L)"])
  case (step i acc)
  have IH: "ordinary_loop L start i' acc' = Inr (v, j) \<Longrightarrow> i < length (lx_text L) \<Longrightarrow> i < i'
      \<Longrightarrow> i < j \<and> j \<le> length (lx_text L)" for i' acc'
    using step.IH [of i' acc'] by simp
  from step.prems show ?case
    by (subst (asm) ordinary_loop.simps)
       (auto simp: Let_def bindE_eq_Inr split: if_splits dest: IH progress)
qed

lemma ordinary_string_progress [progress]:
  "ordinary_string E L start = Inr (lit, j) \<Longrightarrow> start < j"
  by (auto simp: ordinary_string_def bindE_eq_Inr dest: ordinary_loop_bounds)

lemma ordinary_string_bounded [bounded]:
  "ordinary_string E L start = Inr (lit, j) \<Longrightarrow> j \<le> length (lx_text L)"
  by (auto simp: ordinary_string_def bindE_eq_Inr dest: ordinary_loop_bounds)

section \<open>Quoted strings\<close>

definition quoted_opener :: "lexer \<Rightarrow> nat \<Rightarrow> lex_failure + (ucs \<times> nat) option" where
  "quoted_opener L start =
     (let t = lx_text L;
          i = skip_upto is_lower_or_underscore t (start + 1 + MAX_QUOTED_DELIMITER_CHARS) (start + 1)
      in if i - start - 1 = MAX_QUOTED_DELIMITER_CHARS \<and> i < length t \<and> is_lower_or_underscore (t ! i)
         then Inl (lexical_failure ''quoted_delimiter_limit''
                (Msg ''OCaml quoted-string delimiter exceeds the lexical bound'') start i)
         else if i < length t \<and> t ! i = ch_pipe
         then Inr (Some (slice t (start + 1) i, i + 1))
         else Inr None)"

definition looks_like_invalid_quoted_opener :: "pyenv \<Rightarrow> lexer \<Rightarrow> nat \<Rightarrow> bool" where
  "looks_like_invalid_quoted_opener E L start =
     (let t = lx_text L;
          stop = min (length t) (start + MAX_QUOTED_DELIMITER_CHARS + 2)
      in case find_from (take stop t) [ch_pipe] (start + 1) of
           None \<Rightarrow> False
         | Some pipe \<Rightarrow>
             let candidate = slice t (start + 1) pipe
             in if candidate = []
                   \<or> list_ex (\<lambda>c. c \<in> set ([ch_cr, ch_lf, ch_dquote, ch_quote, ch_backquote]
                                          @ asc ''{}()[];:='')) candidate
                then False
                else identifier_start E (candidate ! 0) \<or> ascii_digit (candidate ! 0))"

definition quoted_terminator :: "ucs \<Rightarrow> ucs" where
  "quoted_terminator delimiter = [ch_pipe] @ delimiter @ [ch_rbrace]"

function quoted_value :: "ucs \<Rightarrow> nat \<Rightarrow> nat \<Rightarrow> bytes" where
  "quoted_value t close i =
     (if i < close
      then let c = t ! i
           in if c = ch_cr
              then if i + 1 < close \<and> t ! (i + 1) = ch_lf
                   then 0x0A # quoted_value t close (i + 2)
                   else 0x0D # quoted_value t close (i + 1)
              else if c = ch_lf then 0x0A # quoted_value t close (i + 1)
              else utf8_char c @ quoted_value t close (i + 1)
      else [])"
  by pat_completeness auto
termination
  by (relation "measure (\<lambda>(t, close, i). close - i)") auto

declare quoted_value.simps [simp del]

definition quoted_string :: "pyenv \<Rightarrow> lexer \<Rightarrow> nat \<Rightarrow> ucs \<Rightarrow> nat
    \<Rightarrow> lex_failure + (string_literal \<times> nat)" where
  "quoted_string E L start delimiter content_start =
     (let t = lx_text L; terminator = quoted_terminator delimiter
      in case find_from t terminator content_start of
           None \<Rightarrow> Inl (lexical_failure ''unterminated_quoted_string''
                (Msg ''unterminated quoted OCaml string literal'') start (length t))
         | Some close \<Rightarrow>
             let v = quoted_value t close content_start;
                 j = close + length terminator
             in Inr (mk_literal E L start j v True, j))"

lemma quoted_opener_progress:
  "quoted_opener L start = Inr (Some (d, cs)) \<Longrightarrow> start + 1 < cs \<and> cs \<le> length (lx_text L)"
  using skip_upto_ge [of "start + 1" is_lower_or_underscore "lx_text L"
      "start + 1 + MAX_QUOTED_DELIMITER_CHARS"]
  by (auto simp: quoted_opener_def Let_def split: if_splits)

lemma quoted_string_progress:
  "quoted_string E L start d cs = Inr (lit, j) \<Longrightarrow> cs < j \<and> j \<le> length (lx_text L)"
  by (auto simp: quoted_string_def quoted_terminator_def Let_def dest!: find_from_Some
      split: option.splits)

text \<open>A quoted string that a \<open>{\<close> at \<open>start\<close> opens ends past \<open>start\<close>.\<close>

lemma quoted_string_after_opener:
  "quoted_opener L start = Inr (Some (d, cs)) \<Longrightarrow> quoted_string E L s d cs = Inr (lit, j)
     \<Longrightarrow> start < j \<and> j \<le> length (lx_text L)"
  by (auto dest!: quoted_opener_progress quoted_string_progress)

section \<open>Quoted extensions\<close>

function extension_identifier :: "pyenv \<Rightarrow> lexer \<Rightarrow> nat \<Rightarrow> nat \<Rightarrow> lex_failure + nat" where
  "extension_identifier E L start i =
     (let t = lx_text L
      in if i < length t
         then if identifier_continue E (t ! i) then extension_identifier E L start (i + 1)
              else if t ! i = ch_dot
              then if i + 1 \<ge> length t \<or> \<not> identifier_start E (t ! (i + 1))
                   then Inl (lexical_failure ''malformed_quoted_extension''
                          (Msg ''quoted OCaml extension has an incomplete dotted identifier'')
                          start (min (length t) (i + 2)))
                   else extension_identifier E L start (i + 1)
              else Inr i
         else Inr i)"
  by pat_completeness auto
termination
  by (relation "measure (\<lambda>(E, L, start, i). length (lx_text L) - i)") auto

declare extension_identifier.simps [simp del]

definition extension_body :: "lexer \<Rightarrow> nat \<Rightarrow> nat \<Rightarrow> lex_failure + nat" where
  "extension_body L start i =
     (let t = lx_text L;
          delimiter_start = skip_while is_blank t i;
          j = skip_upto is_lower_or_underscore t
                (delimiter_start + MAX_QUOTED_DELIMITER_CHARS) delimiter_start
      in if j - delimiter_start = MAX_QUOTED_DELIMITER_CHARS \<and> j < length t
            \<and> is_lower_or_underscore (t ! j)
         then Inl (lexical_failure ''quoted_delimiter_limit''
                (Msg ''OCaml quoted-extension delimiter exceeds the lexical bound'') start j)
         else if j \<ge> length t \<or> t ! j \<noteq> ch_pipe
         then Inl (lexical_failure ''malformed_quoted_extension''
                (Msg ''quoted OCaml extension requires a valid raw-string delimiter'')
                start (min (length t) (j + 1)))
         else let terminator = quoted_terminator (slice t delimiter_start j)
              in case find_from t terminator (j + 1) of
                   None \<Rightarrow> Inl (lexical_failure ''unterminated_quoted_extension''
                        (Msg ''unterminated quoted OCaml extension'') start (length t))
                 | Some close \<Rightarrow> Inr (close + length terminator))"

definition quoted_extension_end :: "pyenv \<Rightarrow> lexer \<Rightarrow> nat \<Rightarrow> lex_failure + nat" where
  "quoted_extension_end E L start =
     (let t = lx_text L;
          i = start + (if startswith_at t [ch_lbrace, ch_percent, ch_percent] start then 3 else 2)
      in if i \<ge> length t \<or> \<not> identifier_start E (t ! i)
         then Inl (lexical_failure ''malformed_quoted_extension''
                (Msg ''quoted OCaml extension requires an extension identifier'')
                start (min (length t) (i + 1)))
         else bindE (extension_identifier E L start i) (extension_body L start))"

lemma extension_identifier_ge: "extension_identifier E L start i = Inr j \<Longrightarrow> i \<le> j"
proof (induction E L start i rule: extension_identifier.induct)
  case (1 E L start i)
  from "1.prems" "1.IH" show ?case
    by (auto simp: extension_identifier.simps [of E L start i] Let_def split: if_splits)
qed

lemma extension_body_bounds:
  "extension_body L start i = Inr j \<Longrightarrow> i < j \<and> j \<le> length (lx_text L)"
  using skip_while_ge [of i is_blank "lx_text L"]
    skip_upto_ge [of "skip_while is_blank (lx_text L) i" is_lower_or_underscore "lx_text L"
      "skip_while is_blank (lx_text L) i + MAX_QUOTED_DELIMITER_CHARS"]
  by (auto simp: extension_body_def Let_def quoted_terminator_def dest!: find_from_Some
      split: if_splits option.splits)

lemma quoted_extension_end_progress [progress]: "quoted_extension_end E L start = Inr j \<Longrightarrow> start < j"
  by (auto simp: quoted_extension_end_def Let_def bindE_eq_Inr split: if_splits
      dest!: extension_identifier_ge extension_body_bounds)

lemma quoted_extension_end_bounded [bounded]:
  "quoted_extension_end E L start = Inr j \<Longrightarrow> j \<le> length (lx_text L)"
  by (auto simp: quoted_extension_end_def Let_def bindE_eq_Inr split: if_splits
      dest!: extension_body_bounds)

section \<open>Character literals and type variables\<close>

definition char_or_typevar :: "pyenv \<Rightarrow> lexer \<Rightarrow> nat \<Rightarrow> lex_failure + (token \<times> nat)" where
  "char_or_typevar E L start =
     (let t = lx_text L; n = length t
      in if start + 1 \<ge> n
         then Inl (lexical_failure ''malformed_character'' (Msg ''dangling apostrophe'') start n)
         else let c = t ! (start + 1)
      in if c = ch_backslash
         then if start + 2 < n \<and> t ! (start + 2) = 117
              then Inl (lexical_failure ''malformed_character''
                     (Msg ''Unicode escapes are not supported in OCaml character literals'')
                     start (min n (start + 4)))
              else bindE (decode_escape L (start + 1)) (\<lambda>(decoded, close).
                     if close \<ge> n \<or> t ! close \<noteq> ch_quote \<or> length decoded \<noteq> 1
                     then Inl (lexical_failure ''malformed_character''
                            (Msg ''malformed OCaml character literal'') start (min n (close + 1)))
                     else Inr (mk_token K_CHAR [] (span L start (close + 1)), close + 1))
         else if c \<noteq> ch_quote \<and> start + 2 < n \<and> t ! (start + 2) = ch_quote
         then if length (utf8_char c) \<noteq> 1
              then Inl (lexical_failure ''malformed_character''
                     (Msg ''direct OCaml character literal is not one byte'') start (start + 3))
              else Inr (mk_token K_CHAR [] (span L start (start + 3)), start + 3)
         else if identifier_start E c
         then let j = skip_while (identifier_continue E) t (start + 2)
              in Inr (mk_token K_TYPEVAR (slice t start j) (span L start j), j)
         else Inl (lexical_failure ''malformed_character''
                (Msg ''malformed OCaml character literal or type variable'')
                start (min n (start + 2))))"

lemma char_or_typevar_spec:
  assumes "char_or_typevar E L start = Inr (tk, j)"
  shows "start < j \<and> j \<le> length (lx_text L) \<and> tok_span tk = span L start j
           \<and> tok_kind tk \<in> {K_CHAR, K_TYPEVAR} \<and> tok_literal tk = None"
  using assms skip_while_ge [of "start + 2" "identifier_continue E" "lx_text L"]
    skip_while_le [of "start + 2" "lx_text L" "identifier_continue E"]
  by (auto simp: char_or_typevar_def Let_def mk_token_def bindE_eq_Inr split: if_splits
      dest: progress)

end
