(* ===== verification/Lexer.thy ===== *)
theory Lexer
  imports Lexer_Literals
begin

text \<open>
  Comments, line directives and the tokenizer of \<open>_Lexer\<close> in
  \<open>hol_workbench/proofs/loader_scan.py\<close>.  One iteration of the tokenizer's loop is \<open>lex_step\<close>,
  split along the branches of the source; \<open>lex_loop\<close> iterates it and \<open>tokenize\<close> is the method.
\<close>

section \<open>Comments, quotations and line directives\<close>

function comment_string_end :: "lexer \<Rightarrow> nat \<Rightarrow> nat \<Rightarrow> lex_failure + nat" where
  "comment_string_end L start i =
     (let t = lx_text L
      in if i < length t
         then if t ! i = ch_backslash then comment_string_end L start (min (length t) (i + 2))
              else if t ! i = ch_dquote then Inr (i + 1)
              else comment_string_end L start (i + 1)
         else Inl (lexical_failure ''unterminated_comment_string''
                (Msg ''unterminated string literal inside OCaml comment'') start (length t)))"
  by pat_completeness auto
termination
  by (relation "measure (\<lambda>(L, start, i). length (lx_text L) - i)") auto

declare comment_string_end.simps [simp del]

lemma comment_string_end_bounds:
  "comment_string_end L start i = Inr j \<Longrightarrow> i < j \<and> j \<le> length (lx_text L)"
proof (induction i rule: index_induct [where n = "length (lx_text L)"])
  case (step i)
  have IH: "comment_string_end L start i' = Inr j \<Longrightarrow> i < length (lx_text L) \<Longrightarrow> i < i'
      \<Longrightarrow> i < j \<and> j \<le> length (lx_text L)" for i'
    using step.IH [of i'] by simp
  from step.prems show ?case
    by (subst (asm) comment_string_end.simps) (auto simp: Let_def split: if_splits dest: IH)
qed

text \<open>The first character of the string is the quote at the given index.\<close>

definition comment_string :: "lexer \<Rightarrow> nat \<Rightarrow> lex_failure + nat" where
  "comment_string L start = comment_string_end L start (start + 1)"

lemma comment_string_progress [progress]: "comment_string L start = Inr j \<Longrightarrow> start < j"
  by (auto simp: comment_string_def dest: comment_string_end_bounds)

lemma comment_string_bounded [bounded]: "comment_string L start = Inr j \<Longrightarrow> j \<le> length (lx_text L)"
  by (auto simp: comment_string_def dest: comment_string_end_bounds)

text \<open>
  A \<open>{\<close> inside a comment: a quoted extension, a quoted string, or an ordinary character.
\<close>

definition comment_brace :: "pyenv \<Rightarrow> lexer \<Rightarrow> nat \<Rightarrow> lex_failure + nat" where
  "comment_brace E L i =
     (if startswith_at (lx_text L) [ch_lbrace, ch_percent] i
      then quoted_extension_end E L i
      else bindE (quoted_opener L i) (\<lambda>opener. case opener of
             Some (delimiter, content_start) \<Rightarrow>
               bindE (quoted_string E L i delimiter content_start) (\<lambda>(_, j). Inr j)
           | None \<Rightarrow> Inr (i + 1)))"

lemma comment_brace_progress [progress]: "comment_brace E L i = Inr j \<Longrightarrow> i < j"
  by (auto simp: comment_brace_def bindE_eq_Inr split: if_splits option.splits
      dest: progress quoted_string_after_opener)

lemma comment_brace_bounded [bounded]:
  "comment_brace E L i = Inr j \<Longrightarrow> i < length (lx_text L) \<Longrightarrow> j \<le> length (lx_text L)"
  by (auto simp: comment_brace_def bindE_eq_Inr split: if_splits option.splits
      dest: bounded quoted_string_after_opener)

function comment_loop :: "pyenv \<Rightarrow> lexer \<Rightarrow> nat \<Rightarrow> nat \<Rightarrow> nat \<Rightarrow> lex_failure + nat" where
  "comment_loop E L start depth i =
     (let t = lx_text L
      in if i < length t
         then if t ! i = ch_quote
              then if startswith_at t [ch_quote, ch_star, ch_rparen] i
                   then comment_loop E L start depth (i + 3)
                   else comment_loop E L start depth (min (length t) (i + 2))
              else if startswith_at t [ch_lparen, ch_star] i
              then if MAX_NESTING < depth + 1
                   then Inl (lexical_failure ''nesting_limit''
                          (Msg ''nested OCaml comment limit exceeded'') start (i + 2))
                   else comment_loop E L start (depth + 1) (i + 2)
              else if startswith_at t [ch_star, ch_rparen] i
              then if depth - 1 = 0 then Inr (i + 2)
                   else comment_loop E L start (depth - 1) (i + 2)
              else if t ! i = ch_dquote
              then bindE (comment_string L i) (comment_loop E L start depth)
              else if t ! i = ch_lbrace
              then bindE (comment_brace E L i) (comment_loop E L start depth)
              else comment_loop E L start depth (i + 1)
         else Inl (lexical_failure ''unterminated_comment''
                (Msg ''unterminated nested OCaml comment'') start (length t)))"
  by pat_completeness auto
termination
  by (relation "measure (\<lambda>(E, L, start, depth, i). length (lx_text L) - i)")
     (auto dest: progress)

declare comment_loop.simps [simp del]

definition comment :: "pyenv \<Rightarrow> lexer \<Rightarrow> nat \<Rightarrow> lex_failure + nat" where
  "comment E L start = comment_loop E L start 1 (start + 2)"

lemma comment_loop_bounds:
  "comment_loop E L start depth i = Inr j \<Longrightarrow> i < j \<and> j \<le> length (lx_text L)"
proof (induction i depth rule: loop_induct [where n = "length (lx_text L)"])
  case (step i depth)
  have IH: "comment_loop E L start depth' i' = Inr j \<Longrightarrow> i < length (lx_text L) \<Longrightarrow> i < i'
      \<Longrightarrow> i < j \<and> j \<le> length (lx_text L)" for i' depth'
    using step.IH [of i' depth'] by simp
  from step.prems show ?case
    by (subst (asm) comment_loop.simps)
       (auto simp: Let_def bindE_eq_Inr split: if_splits
         dest: IH progress startswith_at_length)
qed

lemma comment_progress [progress]: "comment E L start = Inr j \<Longrightarrow> start < j"
  by (auto simp: comment_def dest: comment_loop_bounds)

lemma comment_bounded [bounded]: "comment E L start = Inr j \<Longrightarrow> j \<le> length (lx_text L)"
  by (auto simp: comment_def dest: comment_loop_bounds)

definition hol_backquote :: "lexer \<Rightarrow> nat \<Rightarrow> lex_failure + nat" where
  "hol_backquote L start =
     (case find_from (lx_text L) [ch_backquote] (start + 1) of
        None \<Rightarrow> Inl (lexical_failure ''unterminated_hol_backquote''
             (Msg ''unterminated HOL backquote'') start (length (lx_text L)))
      | Some close \<Rightarrow> Inr (close + 1))"

lemma hol_backquote_progress [progress]: "hol_backquote L start = Inr j \<Longrightarrow> start < j"
  by (auto simp: hol_backquote_def split: option.splits dest: find_from_Some)

lemma hol_backquote_bounded [bounded]: "hol_backquote L start = Inr j \<Longrightarrow> j \<le> length (lx_text L)"
  by (auto simp: hol_backquote_def split: option.splits dest: find_from_Some)

definition is_line_break :: "nat \<Rightarrow> bool" where
  "is_line_break c \<longleftrightarrow> c \<in> {ch_cr, ch_lf}"

definition line_directive_tail :: "ucs \<Rightarrow> nat \<Rightarrow> nat" where
  "line_directive_tail t i =
     (let line_end = skip_while (\<lambda>c. \<not> is_line_break c) t (i + 1)
      in if line_end \<ge> length t then length t
         else if t ! line_end = ch_cr \<and> line_end + 1 < length t \<and> t ! (line_end + 1) = ch_lf
         then line_end + 2
         else line_end + 1)"

definition line_directive_end :: "lexer \<Rightarrow> nat \<Rightarrow> lex_failure + nat option" where
  "line_directive_end L start =
     (let t = lx_text L; n = length t
      in if start \<noteq> 0 \<and> \<not> is_line_break (t ! (start - 1)) then Inr None
         else let digit_start = skip_while is_space_or_tab t (start + 1);
                  digit_end = skip_while ascii_digit t digit_start
      in if digit_end = digit_start then Inr None
         else let name_start = skip_while is_space_or_tab t digit_end
      in if name_start \<ge> n \<or> t ! name_start \<noteq> ch_dquote
         then Inl (lexical_failure ''malformed_line_directive''
                (Msg ''OCaml line directive requires a quoted source name'') start
                (min n (name_start + 1)))
         else let name_end = skip_while (\<lambda>c. c \<noteq> ch_dquote \<and> \<not> is_line_break c) t (name_start + 1)
      in if name_end \<ge> n \<or> t ! name_end \<noteq> ch_dquote
         then Inl (lexical_failure ''malformed_line_directive''
                (Msg ''OCaml line directive source name is unterminated'') start
                (min n (name_end + 1)))
         else Inr (Some (line_directive_tail t name_end)))"

lemma line_directive_tail_bounds:
  "i < length t \<Longrightarrow> i < line_directive_tail t i \<and> line_directive_tail t i \<le> length t"
  using skip_while_ge [of "i + 1" "\<lambda>c. \<not> is_line_break c" t]
  by (auto simp: line_directive_tail_def Let_def)

lemma line_directive_bounds:
  assumes "line_directive_end L start = Inr (Some j)"
  shows "start < j \<and> j \<le> length (lx_text L)"
proof -
  define t where "t = lx_text L"
  define a where "a = skip_while is_space_or_tab t (start + 1)"
  define b where "b = skip_while ascii_digit t a"
  define c where "c = skip_while is_space_or_tab t b"
  define d where "d = skip_while (\<lambda>c. c \<noteq> ch_dquote \<and> \<not> is_line_break c) t (c + 1)"
  have "start + 1 \<le> a" "a \<le> b" "b \<le> c" "c + 1 \<le> d"
    by (simp_all only: a_def b_def c_def d_def skip_while_ge)
  moreover have "d < length t" and "j = line_directive_tail t d"
    using assms unfolding line_directive_end_def Let_def
      t_def [symmetric] a_def [symmetric] b_def [symmetric] c_def [symmetric] d_def [symmetric]
    by (auto split: if_splits)
  ultimately show ?thesis
    using line_directive_tail_bounds [of d t] by (simp add: t_def)
qed

section \<open>One iteration of the tokenizer\<close>

text \<open>
  An iteration returns the next index, the stack of expected closers (its top first), and the
  token it appends, with the value of the source's variable \<open>index\<close> at the append.
\<close>

type_synonym delim_stack = "(tkind \<times> nat) list"

record lex_result =
  st_index :: nat
  st_delims :: delim_stack
  st_token :: "(token \<times> nat) option"

definition skip_to :: "delim_stack \<Rightarrow> nat \<Rightarrow> lex_result" where
  "skip_to ds j = \<lparr>st_index = j, st_delims = ds, st_token = None\<rparr>"

definition emit :: "delim_stack \<Rightarrow> nat \<Rightarrow> token \<Rightarrow> nat \<Rightarrow> lex_result" where
  "emit ds j tk at = \<lparr>st_index = j, st_delims = ds, st_token = Some (tk, at)\<rparr>"

definition delimiter_kind :: "nat \<Rightarrow> tkind option" where
  "delimiter_kind c =
     (if c = ch_lparen then Some K_LPAREN
      else if c = ch_rparen then Some K_RPAREN
      else if c = ch_lbrack then Some K_LBRACK
      else if c = ch_rbrack then Some K_RBRACK
      else if c = ch_lbrace then Some K_LBRACE
      else if c = ch_rbrace then Some K_RBRACE
      else None)"

definition lex_delimiter :: "lexer \<Rightarrow> delim_stack \<Rightarrow> nat \<Rightarrow> tkind \<Rightarrow> lex_failure + lex_result" where
  "lex_delimiter L ds i k =
     (let tk = mk_token k [lx_text L ! i] (span L i (i + 1))
      in case open_to_close k of
           Some closer \<Rightarrow>
             let ds' = (closer, i) # ds
             in if MAX_NESTING < length ds'
                then Inl (lexical_failure ''nesting_limit''
                       (Msg ''OCaml delimiter nesting limit exceeded'') i (i + 1))
                else Inr (emit ds' (i + 1) tk i)
         | None \<Rightarrow>
             (case ds of
                [] \<Rightarrow> Inl (lexical_failure ''mismatched_delimiter''
                     (MsgChar ''mismatched OCaml delimiter {char}'' (lx_text L ! i)) i (i + 1))
              | (expected, _) # ds' \<Rightarrow>
                  if expected \<noteq> k
                  then Inl (lexical_failure ''mismatched_delimiter''
                         (MsgChar ''mismatched OCaml delimiter {char}'' (lx_text L ! i)) i (i + 1))
                  else Inr (emit ds' (i + 1) tk i)))"

definition SOURCE_LOADERS :: "ucs list" where
  "SOURCE_LOADERS = map asc [''needs'', ''loadt'', ''loads'', ''load'', ''#use'']"

definition ARTIFACT_LOADERS :: "ucs list" where
  "ARTIFACT_LOADERS = map asc [''define_from_elf'', ''define_assert_from_elf'']"

definition SUPPORTED_LOADERS :: "ucs list" where
  "SUPPORTED_LOADERS = SOURCE_LOADERS @ ARTIFACT_LOADERS"

definition lex_raw_identifier :: "pyenv \<Rightarrow> lexer \<Rightarrow> delim_stack \<Rightarrow> nat \<Rightarrow> lex_failure + lex_result"
where
  "lex_raw_identifier E L ds raw_start =
     (let t = lx_text L; n = length t; i = raw_start + 1
      in if i \<ge> n \<or> t ! i \<noteq> ch_hash
         then Inl (lexical_failure ''malformed_raw_identifier''
                (Msg (''HOL raw identifiers require a '' @ [CHR 0x5C] @ ''# prefix'')) raw_start (min n (i + 1)))
         else if i + 1 \<ge> n \<or> \<not> identifier_start E (t ! (i + 1))
         then Inl (lexical_failure ''illegal_character''
                (Msg ''backslash outside an OCaml literal must introduce a raw identifier'')
                raw_start (min n (i + 2)))
         else let j = skip_while (identifier_continue E) t (i + 2);
                  v = slice t (i + 1) j;
                  k = (if v \<in> set SUPPORTED_LOADERS then K_LOADER else K_RAW_IDENT)
              in Inr (emit ds j (mk_token k v (span L raw_start j)) (i + 1)))"

definition lex_identifier :: "pyenv \<Rightarrow> lexer \<Rightarrow> delim_stack \<Rightarrow> nat \<Rightarrow> lex_result" where
  "lex_identifier E L ds i =
     (let t = lx_text L;
          j = skip_while (identifier_continue E) t (i + 1);
          v = slice t i j;
          k = (if v \<in> set SUPPORTED_LOADERS then K_LOADER else K_IDENT)
      in emit ds j (mk_token k v (span L i j)) i)"

definition unicode_operator :: "nat \<Rightarrow> ucs option" where
  "unicode_operator c =
     (if c = 0x2192 then Some (asc ''->'')
      else if c = 0x2264 then Some (asc ''<='')
      else if c = 0x2265 then Some (asc ''>='')
      else None)"

definition lex_word :: "pyenv \<Rightarrow> lexer \<Rightarrow> delim_stack \<Rightarrow> nat \<Rightarrow> lex_failure + lex_result" where
  "lex_word E L ds i =
     (let t = lx_text L; c = t ! i
      in if c = ch_backslash then lex_raw_identifier E L ds i
         else if identifier_start E c then Inr (lex_identifier E L ds i)
         else case unicode_operator c of
           Some v \<Rightarrow> Inr (emit ds (i + 1) (mk_token K_OP v (span L i (i + 1))) i)
         | None \<Rightarrow>
             if is_operator_char c
             then let j = skip_while is_operator_char t (i + 1)
                  in Inr (emit ds j (mk_token K_OP (slice t i j) (span L i j)) i)
             else if ascii_digit c
             then let j = skip_while ascii_alnum t (i + 1)
                  in Inr (emit ds j (mk_token K_ATOM (slice t i j) (span L i j)) i)
             else if c < 0x20 \<or> c = 0x7F
             then Inl (lexical_failure ''illegal_character''
                    (Msg ''illegal control character in OCaml source'') i (i + 1))
             else Inl (lexical_failure ''illegal_character''
                    (MsgChar ''illegal character {char!r} in OCaml source'' c) i (i + 1)))"

definition lex_use :: "pyenv \<Rightarrow> lexer \<Rightarrow> nat \<Rightarrow> bool" where
  "lex_use E L i \<longleftrightarrow>
     startswith_at (lx_text L) (asc ''#use'') i
       \<and> (i + 4 = length (lx_text L) \<or> \<not> identifier_continue E (lx_text L ! (i + 4)))"

definition lex_plain :: "pyenv \<Rightarrow> lexer \<Rightarrow> delim_stack \<Rightarrow> nat \<Rightarrow> lex_failure + lex_result" where
  "lex_plain E L ds i =
     (let t = lx_text L; c = t ! i
      in if c = ch_quote
         then bindE (char_or_typevar E L i) (\<lambda>(tk, j). Inr (emit ds j tk j))
         else if c = ch_backquote
         then bindE (hol_backquote L i)
                (\<lambda>j. Inr (emit ds j (mk_token K_HOL [] (span L i j)) i))
         else if startswith_at t [ch_semi, ch_semi] i
         then if ds \<noteq> []
              then Inl (lexical_failure ''phrase_boundary_inside_delimiter''
                     (Msg ''OCaml phrase boundary occurs inside an open delimiter'') i (i + 2))
              else Inr (emit ds (i + 2)
                     (mk_token K_SEMISEMI [ch_semi, ch_semi] (span L i (i + 2))) i)
         else if c = ch_semi
         then Inr (emit ds (i + 1) (mk_token K_SEMI [ch_semi] (span L i (i + 1))) i)
         else if c = ch_comma
         then Inr (emit ds (i + 1) (mk_token K_COMMA [ch_comma] (span L i (i + 1))) i)
         else case delimiter_kind c of
           Some k \<Rightarrow> lex_delimiter L ds i k
         | None \<Rightarrow>
             if lex_use E L i
             then Inr (emit ds (i + 4) (mk_token K_LOADER (asc ''#use'') (span L i (i + 4))) i)
             else lex_word E L ds i)"

definition string_token :: "string_literal \<Rightarrow> token" where
  "string_token lit =
     \<lparr>tok_kind = K_STRING, tok_value = [], tok_span = lit_span lit, tok_literal = Some lit\<rparr>"

definition lex_brace :: "pyenv \<Rightarrow> lexer \<Rightarrow> delim_stack \<Rightarrow> nat \<Rightarrow> lex_failure + lex_result" where
  "lex_brace E L ds i =
     (let t = lx_text L
      in if startswith_at t [ch_lbrace, ch_percent] i
         then bindE (quoted_extension_end E L i)
                (\<lambda>j. Inr (emit ds j (mk_token K_OPAQUE [] (span L i j)) i))
         else bindE (quoted_opener L i) (\<lambda>opener. case opener of
                Some (delimiter, content_start) \<Rightarrow>
                  bindE (quoted_string E L i delimiter content_start)
                    (\<lambda>(lit, j). Inr (emit ds j (string_token lit) i))
              | None \<Rightarrow>
                  if looks_like_invalid_quoted_opener E L i
                  then Inl (lexical_failure ''invalid_quoted_delimiter''
                    (Msg ''OCaml quoted-string delimiters contain only lowercase ASCII letters and underscores'')
                    i (min (length t) (case find_from t [ch_pipe] (i + 1) of
                                         Some p \<Rightarrow> p + 1 | None \<Rightarrow> 0)))
                  else lex_plain E L ds i))"

definition lex_token :: "pyenv \<Rightarrow> lexer \<Rightarrow> delim_stack \<Rightarrow> nat \<Rightarrow> lex_failure + lex_result" where
  "lex_token E L ds i =
     (let t = lx_text L; c = t ! i
      in if startswith_at t [ch_lparen, ch_star] i
         then bindE (comment E L i) (\<lambda>j. Inr (skip_to ds j))
         else if c = ch_dquote
         then bindE (ordinary_string E L i) (\<lambda>(lit, j). Inr (emit ds j (string_token lit) i))
         else if c = ch_lbrace then lex_brace E L ds i
         else lex_plain E L ds i)"

definition lex_step :: "pyenv \<Rightarrow> lexer \<Rightarrow> delim_stack \<Rightarrow> nat \<Rightarrow> lex_failure + lex_result" where
  "lex_step E L ds i =
     (let c = lx_text L ! i
      in if is_blank c then Inr (skip_to ds (i + 1))
         else if c = ch_hash
         then bindE (line_directive_end L i) (\<lambda>directive. case directive of
                Some j \<Rightarrow> Inr (skip_to ds j)
              | None \<Rightarrow> lex_token E L ds i)
         else lex_token E L ds i)"

subsection \<open>What an iteration does\<close>

text \<open>
  \<open>delim_step\<close> is the abstract effect of a token on the stack of expected closers.
\<close>

definition delim_step :: "tkind \<Rightarrow> tkind list \<Rightarrow> tkind list option" where
  "delim_step k ks =
     (case open_to_close k of
        Some closer \<Rightarrow> Some (closer # ks)
      | None \<Rightarrow>
          if is_close k
          then (case ks of [] \<Rightarrow> None | e # ks' \<Rightarrow> if e = k then Some ks' else None)
          else if k = K_SEMISEMI \<and> ks \<noteq> [] then None
          else Some ks)"

text \<open>
  The literal of a string token is the one its own bytes decode to; no other token has one.
\<close>

definition token_ok :: "pyenv \<Rightarrow> lexer \<Rightarrow> token \<Rightarrow> bool" where
  "token_ok E L tk \<longleftrightarrow>
     (case tok_literal tk of
        None \<Rightarrow> tok_kind tk \<noteq> K_STRING
      | Some lit \<Rightarrow> tok_kind tk = K_STRING \<and> lit_span lit = tok_span tk
          \<and> raw_sha256 lit = py_sha256 E (bytes_from (tok_span tk) (lx_source L)))
     \<and> (tok_kind tk = K_LOADER \<longrightarrow> tok_value tk \<in> set SUPPORTED_LOADERS)
     \<and> (tok_kind tk \<in> {K_IDENT, K_RAW_IDENT} \<longrightarrow>
          tok_value tk \<noteq> [] \<and> tok_value tk \<notin> set SUPPORTED_LOADERS)"

definition step_ok :: "pyenv \<Rightarrow> lexer \<Rightarrow> delim_stack \<Rightarrow> nat \<Rightarrow> lex_result \<Rightarrow> bool" where
  "step_ok E L ds i r \<longleftrightarrow>
     i < st_index r \<and> st_index r \<le> length (lx_text L)
       \<and> (case st_token r of
            None \<Rightarrow> st_delims r = ds
          | Some (tk, at) \<Rightarrow>
              tok_span tk = span L i (st_index r) \<and> token_ok E L tk
                \<and> delim_step (tok_kind tk) (map fst ds) = Some (map fst (st_delims r)))
       \<and> (length ds \<le> MAX_NESTING \<longrightarrow> length (st_delims r) \<le> MAX_NESTING)"

named_theorems lex_ok \<open>the branches of the tokenizer's loop body\<close>

lemma step_ok_skip [intro]: "i < j \<Longrightarrow> j \<le> length (lx_text L) \<Longrightarrow> step_ok E L ds i (skip_to ds j)"
  by (simp add: step_ok_def skip_to_def)

lemma step_ok_emit:
  "i < j \<Longrightarrow> j \<le> length (lx_text L) \<Longrightarrow> tok_span tk = span L i j \<Longrightarrow> token_ok E L tk
     \<Longrightarrow> delim_step (tok_kind tk) (map fst ds) = Some (map fst ds') \<Longrightarrow>
     (length ds \<le> MAX_NESTING \<Longrightarrow> length ds' \<le> MAX_NESTING) \<Longrightarrow> step_ok E L ds i (emit ds' j tk at)"
  by (simp add: step_ok_def emit_def)

definition neutral_kind :: "tkind \<Rightarrow> bool" where
  "neutral_kind k \<longleftrightarrow> k \<notin> {K_LPAREN, K_RPAREN, K_LBRACK, K_RBRACK, K_LBRACE, K_RBRACE, K_SEMISEMI}"

lemma delim_step_neutral [simp]: "neutral_kind k \<Longrightarrow> delim_step k ks = Some ks"
  by (cases k) (simp_all add: neutral_kind_def delim_step_def is_close_def)

lemma step_ok_neutral:
  "i < j \<Longrightarrow> j \<le> length (lx_text L) \<Longrightarrow> neutral_kind k
     \<Longrightarrow> token_ok E L (mk_token k v (span L i j)) \<Longrightarrow>
     step_ok E L ds i (emit ds j (mk_token k v (span L i j)) at)"
  by (rule step_ok_emit) (simp_all add: mk_token_def)

lemma step_ok_string:
  assumes "lit = mk_literal E L i j v q" "i < j" "j \<le> length (lx_text L)"
  shows "step_ok E L ds i (emit ds j (string_token lit) at)"
  by (rule step_ok_emit)
     (use assms in \<open>simp_all add: string_token_def mk_literal_def Let_def token_ok_def
        delim_step_def is_close_def\<close>)

lemma lex_delimiter_ok [lex_ok]:
  assumes "lex_delimiter L ds i k = Inr r" and "i < length (lx_text L)"
    and "delimiter_kind (lx_text L ! i) = Some k"
  shows "step_ok E L ds i r"
proof -
  have k: "k \<in> {K_LPAREN, K_RPAREN, K_LBRACK, K_RBRACK, K_LBRACE, K_RBRACE}"
    using assms(3) by (auto simp: delimiter_kind_def split: if_splits)
  show ?thesis
  proof (cases "open_to_close k")
    case (Some closer)
    then have r: "r = emit ((closer, i) # ds) (i + 1) (mk_token k [lx_text L ! i] (span L i (i + 1))) i"
      and "\<not> MAX_NESTING < length ((closer, i) # ds)"
      using assms(1) by (auto simp: lex_delimiter_def Let_def split: if_splits)
    then show ?thesis
      unfolding r using assms(2) k Some
      by (intro step_ok_emit) (auto simp: mk_token_def token_ok_def delim_step_def)
  next
    case None
    then obtain p ds' where ds: "ds = (k, p) # ds'"
      and r: "r = emit ds' (i + 1) (mk_token k [lx_text L ! i] (span L i (i + 1))) i"
      using assms(1) by (auto simp: lex_delimiter_def Let_def split: if_splits list.splits)
    have "is_close k" using k None by (auto simp: is_close_def)
    then show ?thesis
      unfolding r using assms(2) k None ds
      by (intro step_ok_emit) (auto simp: mk_token_def token_ok_def delim_step_def is_close_def)
  qed
qed

lemma slice_ne: "i < j \<Longrightarrow> j \<le> length t \<Longrightarrow> slice t i j \<noteq> []"
  by (simp add: slice_def)

lemma lex_raw_identifier_ok [lex_ok]:
  assumes "lex_raw_identifier E L ds i = Inr r"
  shows "step_ok E L ds i r"
proof -
  define j where "j = skip_while (identifier_continue E) (lx_text L) (i + 3)"
  define v where "v = slice (lx_text L) (i + 2) j"
  define k where "k = (if v \<in> set SUPPORTED_LOADERS then K_LOADER else K_RAW_IDENT)"
  have r: "r = emit ds j (mk_token k v (span L i j)) (i + 2)" and n: "i + 2 < length (lx_text L)"
    using assms by (auto simp: lex_raw_identifier_def Let_def j_def v_def k_def eval_nat_numeral
        split: if_splits)
  have "i + 3 \<le> j" "j \<le> length (lx_text L)"
    unfolding j_def using n by (auto intro: skip_while_ge skip_while_le)
  moreover from this have "v \<noteq> []" unfolding v_def by (intro slice_ne) auto
  ultimately show ?thesis
    unfolding r by (intro step_ok_neutral) (auto simp: neutral_kind_def k_def token_ok_def mk_token_def)
qed

lemma lex_identifier_ok [lex_ok]:
  assumes "i < length (lx_text L)"
  shows "step_ok E L ds i (lex_identifier E L ds i)"
proof -
  define j where "j = skip_while (identifier_continue E) (lx_text L) (i + 1)"
  have "i + 1 \<le> j" "j \<le> length (lx_text L)"
    unfolding j_def using assms by (auto intro: skip_while_ge skip_while_le)
  moreover from this have "slice (lx_text L) i j \<noteq> []" by (intro slice_ne) auto
  ultimately show ?thesis
    by (auto simp: lex_identifier_def Let_def j_def [symmetric] neutral_kind_def token_ok_def
        mk_token_def simp del: One_nat_def intro!: step_ok_emit)
qed

lemma lex_word_ok [lex_ok]:
  assumes "lex_word E L ds i = Inr r" and "i < length (lx_text L)"
  shows "step_ok E L ds i r"
proof -
  have op: "i < skip_while p (lx_text L) (i + 1)" "skip_while p (lx_text L) (i + 1) \<le> length (lx_text L)"
    for p
    using skip_while_ge [of "i + 1" p "lx_text L"] skip_while_le [of "i + 1" "lx_text L" p] assms(2)
    by auto
  show ?thesis
    using assms op [of is_operator_char] op [of ascii_alnum]
    by (auto simp: lex_word_def Let_def neutral_kind_def token_ok_def mk_token_def
        split: if_splits option.splits intro: lex_ok intro!: step_ok_emit)
qed

lemma lex_plain_ok [lex_ok]:
  assumes "lex_plain E L ds i = Inr r" and "i < length (lx_text L)"
  shows "step_ok E L ds i r"
proof -
  have semi: "startswith_at (lx_text L) [ch_semi, ch_semi] i \<Longrightarrow> i + 2 \<le> length (lx_text L)"
    using startswith_at_length [of "lx_text L" "[ch_semi, ch_semi]" i] by simp
  have use: "lex_use E L i \<Longrightarrow> i + 4 \<le> length (lx_text L)"
    using startswith_at_length [of "lx_text L" "asc ''#use''" i] by (simp add: lex_use_def asc_def)
  have use_in: "asc ''#use'' \<in> set SUPPORTED_LOADERS"
    by (simp add: SUPPORTED_LOADERS_def SOURCE_LOADERS_def)
  show ?thesis
    using assms semi use use_in
    by (auto simp: lex_plain_def Let_def bindE_eq_Inr neutral_kind_def token_ok_def mk_token_def
          delim_step_def is_close_def
        split: if_splits option.splits
        intro: lex_ok intro!: step_ok_emit dest: progress bounded char_or_typevar_spec)
qed

end
