(* ===== verification/Tokenizer.thy ===== *)
theory Tokenizer
  imports Lexer
begin

text \<open>
  The loop of \<open>_Lexer.tokenize\<close> (\<open>hol_workbench/proofs/loader_scan.py\<close>), its termination and
  its invariant: tokens are disjoint, ordered and non-empty byte ranges, delimiters nest, and
  no bound of the scanner is exceeded by a token list it returns.
\<close>

lemma step_ok_quoted [lex_ok]:
  assumes "quoted_opener L i = Inr (Some (d, cs))" and "quoted_string E L i d cs = Inr (lit, j)"
  shows "step_ok E L ds i (emit ds j (string_token lit) at)"
proof -
  obtain v where "lit = mk_literal E L i j v True"
    using assms(2) by (auto simp: quoted_string_def Let_def split: option.splits)
  then show ?thesis
    using quoted_string_after_opener [OF assms] by (auto intro: step_ok_string)
qed

lemma step_ok_ordinary [lex_ok]:
  assumes "ordinary_string E L i = Inr (lit, j)"
  shows "step_ok E L ds i (emit ds j (string_token lit) at)"
proof -
  obtain v where "lit = mk_literal E L i j v False"
    using assms by (auto simp: ordinary_string_def bindE_eq_Inr)
  then show ?thesis using assms by (auto intro: step_ok_string progress bounded)
qed

lemma step_ok_opaque [lex_ok]:
  "quoted_extension_end E L i = Inr j
     \<Longrightarrow> step_ok E L ds i (emit ds j (mk_token K_OPAQUE [] (span L i j)) at)"
  by (auto simp: neutral_kind_def token_ok_def mk_token_def intro!: step_ok_emit
      dest: progress bounded)

lemma step_ok_comment [lex_ok]: "comment E L i = Inr j \<Longrightarrow> step_ok E L ds i (skip_to ds j)"
  by (auto dest: progress bounded)

lemma step_ok_directive [lex_ok]:
  "line_directive_end L i = Inr (Some j) \<Longrightarrow> step_ok E L ds i (skip_to ds j)"
  by (blast dest: line_directive_bounds)

lemma lex_brace_ok [lex_ok]:
  assumes "lex_brace E L ds i = Inr r" and "i < length (lx_text L)"
  shows "step_ok E L ds i r"
  using assms by (auto simp: lex_brace_def Let_def bindE_eq_Inr intro: lex_ok
      split: if_split_asm option.split_asm)

lemma lex_token_ok [lex_ok]:
  assumes "lex_token E L ds i = Inr r" and "i < length (lx_text L)"
  shows "step_ok E L ds i r"
  using assms by (auto simp: lex_token_def Let_def bindE_eq_Inr intro: lex_ok split: if_split_asm)

lemma lex_step_ok:
  assumes "lex_step E L ds i = Inr r" and "i < length (lx_text L)"
  shows "step_ok E L ds i r"
  using assms by (auto simp: lex_step_def Let_def bindE_eq_Inr intro: lex_ok
      split: if_split_asm option.split_asm)

section \<open>The loop\<close>

function lex_loop :: "pyenv \<Rightarrow> lexer \<Rightarrow> nat \<Rightarrow> delim_stack \<Rightarrow> token list \<Rightarrow> lex_failure + token list"
where
  "lex_loop E L i ds toks =
     (let n = length (lx_text L)
      in if i < n
         then bindE (lex_step E L ds i) (\<lambda>r.
                case st_token r of
                  None \<Rightarrow> lex_loop E L (st_index r) (st_delims r) toks
                | Some (tk, at) \<Rightarrow>
                    if MAX_TOKENS < length (toks @ [tk])
                    then Inl (lexical_failure ''token_limit''
                           (Msg ''OCaml loader lexical token limit exceeded'') at (min n (at + 1)))
                    else lex_loop E L (st_index r) (st_delims r) (toks @ [tk]))
         else case ds of
                (expected, start) # _ \<Rightarrow>
                  Inl (lexical_failure ''unterminated_delimiter''
                    (MsgKind ''unterminated OCaml delimiter; expected {expected}'' expected) start n)
              | [] \<Rightarrow> Inr toks)"
  by pat_completeness auto
termination
  by (relation "measure (\<lambda>(E, L, i, ds, toks). length (lx_text L) - i)")
     (auto dest!: lex_step_ok simp: step_ok_def)

declare lex_loop.simps [simp del]

definition tokenize :: "pyenv \<Rightarrow> lexer \<Rightarrow> lex_failure + token list" where
  "tokenize E L = lex_loop E L 0 [] []"

section \<open>The invariant of the loop\<close>

definition token_at :: "lexer \<Rightarrow> token \<Rightarrow> nat \<Rightarrow> nat \<Rightarrow> bool" where
  "token_at L tk a b \<longleftrightarrow> a < b \<and> b \<le> length (lx_text L) \<and> tok_span tk = span L a b"

fun tokens_between :: "lexer \<Rightarrow> nat \<Rightarrow> token list \<Rightarrow> nat \<Rightarrow> bool" where
  "tokens_between L lo [] hi = (lo \<le> hi)"
| "tokens_between L lo (tk # tks) hi =
     (\<exists>a b. lo \<le> a \<and> token_at L tk a b \<and> tokens_between L b tks hi)"

lemma tokens_between_weaken: "tokens_between L lo tks hi \<Longrightarrow> hi \<le> hi' \<Longrightarrow> tokens_between L lo tks hi'"
  by (induction tks arbitrary: lo) auto

lemma tokens_between_snoc:
  "tokens_between L lo tks i \<Longrightarrow> token_at L tk i j \<Longrightarrow> tokens_between L lo (tks @ [tk]) j"
  by (induction tks arbitrary: lo) auto

fun delim_run :: "tkind list \<Rightarrow> tkind list \<Rightarrow> tkind list option" where
  "delim_run [] ks = Some ks"
| "delim_run (k # kinds) ks = (case delim_step k ks of None \<Rightarrow> None | Some ks' \<Rightarrow> delim_run kinds ks')"

lemma delim_run_append:
  "delim_run (xs @ ys) ks = (case delim_run xs ks of None \<Rightarrow> None | Some ks' \<Rightarrow> delim_run ys ks')"
  by (induction xs arbitrary: ks) (auto split: option.splits)

definition lex_inv :: "pyenv \<Rightarrow> lexer \<Rightarrow> nat \<Rightarrow> delim_stack \<Rightarrow> token list \<Rightarrow> bool" where
  "lex_inv E L i ds toks \<longleftrightarrow>
     list_all (token_ok E L) toks \<and> tokens_between L 0 toks i
       \<and> delim_run (map tok_kind toks) [] = Some (map fst ds)
       \<and> length toks \<le> MAX_TOKENS \<and> length ds \<le> MAX_NESTING"

lemma lex_inv_skip:
  "lex_inv E L i ds toks \<Longrightarrow> step_ok E L ds i r \<Longrightarrow> st_token r = None
     \<Longrightarrow> lex_inv E L (st_index r) (st_delims r) toks"
  by (auto simp: lex_inv_def step_ok_def intro: tokens_between_weaken)

lemma lex_inv_emit:
  assumes "lex_inv E L i ds toks" and "step_ok E L ds i r" and "st_token r = Some (tk, at)"
    and "\<not> MAX_TOKENS < length (toks @ [tk])"
  shows "lex_inv E L (st_index r) (st_delims r) (toks @ [tk])"
proof -
  have "token_at L tk i (st_index r)"
    using assms(2,3) by (simp add: step_ok_def token_at_def)
  then show ?thesis
    using assms by (auto simp: lex_inv_def step_ok_def delim_run_append intro: tokens_between_snoc)
qed

lemma lex_loop_inv:
  "lex_loop E L i ds toks = Inr res \<Longrightarrow> lex_inv E L i ds toks
     \<Longrightarrow> \<exists>j. lex_inv E L j [] res"
proof (induction E L i ds toks rule: lex_loop.induct)
  case (1 E L i ds toks)
  show ?case
  proof (cases "i < length (lx_text L)")
    case True
    with "1.prems"(1) obtain r where r: "lex_step E L ds i = Inr r"
      by (auto simp: lex_loop.simps [of E L i ds toks] Let_def bindE_eq_Inr)
    note ok = lex_step_ok [OF r True]
    show ?thesis
    proof (cases "st_token r")
      case None
      with "1.prems"(1) True r have "lex_loop E L (st_index r) (st_delims r) toks = Inr res"
        by (simp add: lex_loop.simps [of E L i ds toks] Let_def)
      from "1.IH"(1) [OF refl True r None this lex_inv_skip [OF "1.prems"(2) ok None]]
      show ?thesis .
    next
      case (Some p)
      then obtain tk at where p: "st_token r = Some (tk, at)" by (cases p) auto
      with "1.prems"(1) True r have small: "\<not> MAX_TOKENS < length (toks @ [tk])"
        and rest: "lex_loop E L (st_index r) (st_delims r) (toks @ [tk]) = Inr res"
        by (auto simp: lex_loop.simps [of E L i ds toks] Let_def split: if_splits)
      from "1.IH"(2) [OF refl True r p refl small rest lex_inv_emit [OF "1.prems"(2) ok p small]]
      show ?thesis .
    qed
  next
    case False
    with "1.prems" have "ds = [] \<and> res = toks"
      by (auto simp: lex_loop.simps [of E L i ds toks] Let_def split: list.splits)
    with "1.prems"(2) show ?thesis by auto
  qed
qed

lemma tokenize_inv: "tokenize E L = Inr toks \<Longrightarrow> \<exists>j. lex_inv E L j [] toks"
  unfolding tokenize_def by (drule lex_loop_inv) (simp_all add: lex_inv_def)

lemmas tokenizeD = tokenize_inv [unfolded lex_inv_def]

subsection \<open>Byte ranges\<close>

lemma tokens_between_sorted:
  assumes "tokens_between L lo toks hi" and "lx_offsets L = offsets_from 0 (lx_text L)"
  shows "sorted_wrt (\<lambda>a b. sp_end (tok_span a) \<le> sp_start (tok_span b)) toks
    \<and> (\<forall>tk \<in> set toks. lx_offsets L ! lo \<le> sp_start (tok_span tk)
          \<and> sp_start (tok_span tk) < sp_end (tok_span tk)
          \<and> sp_end (tok_span tk) \<le> lx_offsets L ! length (lx_text L))"
  using assms(1)
proof (induction toks arbitrary: lo)
  case Nil
  then show ?case by simp
next
  case (Cons tk tks)
  then obtain a b where ab: "lo \<le> a" "a < b" "b \<le> length (lx_text L)" "tok_span tk = span L a b"
    and rest: "tokens_between L b tks hi"
    by (auto simp: token_at_def)
  have "lx_offsets L ! lo \<le> lx_offsets L ! a" "lx_offsets L ! a < lx_offsets L ! b"
    "lx_offsets L ! b \<le> lx_offsets L ! length (lx_text L)"
    using ab assms(2) by (simp_all add: offsets_mono offsets_strict_mono)
  with Cons.IH [OF rest] ab(4) show ?case
    by (auto simp: span_def)
qed

end
