(* ===== verification/Loader_Calls.thy ===== *)
theory Loader_Calls
  imports Tokenizer
begin

text \<open>
  Classification of loader calls, \<open>_direct_binding\<close> to \<open>_classify_tokens\<close> of
  \<open>hol_workbench/proofs/loader_scan.py\<close>.  A supported loader name is classified as a literal
  call or as a dynamic occurrence; a same-file binding or an unresolved use taints every later
  use of the name.
\<close>

section \<open>Occurrences\<close>

datatype loader_family = F_source | F_artifact
datatype loader_outcome = O_literal | O_dynamic

record loader_occurrence =
  occ_loader :: ucs
  occ_family :: loader_family
  occ_outcome :: loader_outcome
  occ_reason :: "string option"
  occ_loader_span :: byte_span
  occ_call_span :: byte_span
  occ_source_line :: nat
  occ_path_literal :: "string_literal option"
  occ_name_literal :: "string_literal option"

definition occ_path :: "loader_occurrence \<Rightarrow> ucs option" where
  "occ_path occ = (case occ_path_literal occ of Some lit \<Rightarrow> utf8_text lit | None \<Rightarrow> None)"

definition occ_name :: "loader_occurrence \<Rightarrow> ucs option" where
  "occ_name occ = (case occ_name_literal occ of Some lit \<Rightarrow> utf8_text lit | None \<Rightarrow> None)"

section \<open>Contexts of a loader name\<close>

definition is_word :: "token \<Rightarrow> tkind \<Rightarrow> string list \<Rightarrow> bool" where
  "is_word tk k ws \<longleftrightarrow> tok_kind tk = k \<and> tok_value tk \<in> set (map asc ws)"

definition direct_binding :: "token list \<Rightarrow> nat \<Rightarrow> bool" where
  "direct_binding ts i =
     (if i = 0 then False
      else let previous = ts ! (i - 1)
           in if is_word previous K_IDENT [''and'', ''let''] then True
              else i \<ge> 2 \<and> is_word previous K_IDENT [''rec'']
                   \<and> is_word (ts ! (i - 2)) K_IDENT [''and'', ''let''])"

definition qualified_or_hash_prefixed :: "token list \<Rightarrow> nat \<Rightarrow> bool" where
  "qualified_or_hash_prefixed ts i =
     (if i = 0 then False
      else let previous = ts ! (i - 1)
           in if is_word previous K_OP [''.'', ''#''] then True
              else i \<ge> 2 \<and> tok_kind previous = K_LPAREN \<and> is_word (ts ! (i - 2)) K_OP [''.''])"

definition call_predecessor_operators :: "string list" where
  "call_predecessor_operators = [''='', ''->'', ''|'', '':='', ''<-'', ''&&'', ''||'']"

definition control_predecessors :: "string list" where
  "control_predecessors =
     [''begin'', ''do'', ''else'', ''if'', ''in'', ''initializer'', ''match'', ''object'',
      ''struct'', ''then'', ''try'', ''when'', ''while'', ''with'']"

definition boundary_identifiers :: "string list" where
  "boundary_identifiers =
     [''and'', ''as'', ''do'', ''done'', ''downto'', ''else'', ''end'', ''exception'', ''in'',
      ''then'', ''to'', ''when'', ''with'']"

definition incomplete_atomic_identifiers :: "string list" where
  "incomplete_atomic_identifiers =
     [''_'', ''and'', ''as'', ''assert'', ''begin'', ''class'', ''constraint'', ''do'', ''done'',
      ''downto'', ''else'', ''end'', ''exception'', ''external'', ''for'', ''fun'', ''function'',
      ''functor'', ''if'', ''in'', ''include'', ''inherit'', ''initializer'', ''lazy'', ''let'',
      ''match'', ''method'', ''module'', ''mutable'', ''new'', ''nonrec'', ''object'', ''of'',
      ''open'', ''or'', ''private'', ''rec'', ''sig'', ''struct'', ''then'', ''to'', ''try'',
      ''type'', ''val'', ''virtual'', ''when'', ''while'', ''with'']"

definition call_position :: "token list \<Rightarrow> nat \<Rightarrow> ucs \<Rightarrow> bool" where
  "call_position ts i loader =
     (if i = 0 then True
      else let previous = ts ! (i - 1)
           in if loader = asc ''#use'' then tok_kind previous = K_SEMISEMI
              else if tok_kind previous \<in> {K_SEMISEMI, K_SEMI, K_COMMA, K_LPAREN, K_LBRACK, K_LBRACE}
              then True
              else if is_word previous K_OP call_predecessor_operators then True
              else is_word previous K_IDENT control_predecessors)"

section \<open>Arguments\<close>

text \<open>\<open>opens\<close> closing parentheses are expected from \<open>i\<close> on.\<close>

fun close_parens :: "token list \<Rightarrow> nat \<Rightarrow> nat \<Rightarrow> nat \<Rightarrow> (nat \<times> nat) option" where
  "close_parens ts 0 i end_byte = Some (i, end_byte)"
| "close_parens ts (Suc opens) i end_byte =
     (if i \<ge> length ts \<or> tok_kind (ts ! i) \<noteq> K_RPAREN then None
      else close_parens ts opens (i + 1) (sp_end (tok_span (ts ! i))))"

definition exact_string_argument :: "token list \<Rightarrow> nat \<Rightarrow> (string_literal \<times> nat \<times> nat) option" where
  "exact_string_argument ts start =
     (let i = skip_while (\<lambda>tk. tok_kind tk = K_LPAREN) ts start;
          opens = i - start
      in if i \<ge> length ts then None
         else case (tok_kind (ts ! i), tok_literal (ts ! i)) of
           (K_STRING, Some lit) \<Rightarrow>
             (case close_parens ts opens (i + 1) (sp_end (lit_span lit)) of
                None \<Rightarrow> None
              | Some (j, end_byte) \<Rightarrow> Some (lit, j, end_byte))
         | _ \<Rightarrow> None)"

definition call_boundary :: "token list \<Rightarrow> nat \<Rightarrow> bool" where
  "call_boundary ts i =
     (if i \<ge> length ts then True
      else let tk = ts ! i
           in if tok_kind tk \<in> {K_SEMISEMI, K_SEMI, K_COMMA} \<or> is_close (tok_kind tk) then True
              else if is_word tk K_IDENT boundary_identifiers then True
              else is_word tk K_OP [''|''])"

definition starts_expression :: "token list \<Rightarrow> nat \<Rightarrow> bool" where
  "starts_expression ts i =
     (if i \<ge> length ts then False
      else let tk = ts ! i
           in if is_word tk K_IDENT boundary_identifiers then False
              else tok_kind tk \<in>
                {K_ATOM, K_CHAR, K_HOL, K_IDENT, K_LBRACE, K_LBRACK, K_LOADER, K_OPAQUE, K_LPAREN,
                 K_RAW_IDENT, K_STRING, K_TYPEVAR})"

function dotted_end :: "token list \<Rightarrow> nat \<Rightarrow> nat" where
  "dotted_end ts i =
     (if i + 1 < length ts \<and> is_word (ts ! i) K_OP [''.'']
         \<and> tok_kind (ts ! (i + 1)) \<in> {K_IDENT, K_LOADER, K_RAW_IDENT}
      then dotted_end ts (i + 2) else i)"
  by pat_completeness auto
termination
  by (relation "measure (\<lambda>(ts, i). length ts - i)") auto

declare dotted_end.simps [simp del]

function matching_end :: "token list \<Rightarrow> tkind list \<Rightarrow> nat \<Rightarrow> nat option" where
  "matching_end ts expected i =
     (if i < length ts \<and> expected \<noteq> []
      then let k = tok_kind (ts ! i)
           in case open_to_close k of
                Some closer \<Rightarrow> matching_end ts (closer # expected) (i + 1)
              | None \<Rightarrow>
                  if is_close k
                  then if k \<noteq> hd expected then None else matching_end ts (tl expected) (i + 1)
                  else matching_end ts expected (i + 1)
      else if expected = [] then Some i else None)"
  by pat_completeness auto
termination
  by (relation "measure (\<lambda>(ts, expected, i). length ts - i)") auto

declare matching_end.simps [simp del]

definition single_expression_end :: "token list \<Rightarrow> nat \<Rightarrow> nat option" where
  "single_expression_end ts start =
     (if \<not> starts_expression ts start then None
      else let tk = ts ! start
      in if tok_kind tk = K_TYPEVAR \<or> is_word tk K_IDENT incomplete_atomic_identifiers then None
         else case open_to_close (tok_kind tk) of
                None \<Rightarrow> Some (dotted_end ts (start + 1))
              | Some closer \<Rightarrow> matching_end ts [closer] (start + 1))"

section \<open>Dynamic occurrences\<close>

definition dynamic :: "lexer \<Rightarrow> token \<Rightarrow> loader_family \<Rightarrow> string \<Rightarrow> nat option
    \<Rightarrow> string_literal option \<Rightarrow> string_literal option \<Rightarrow> loader_occurrence" where
  "dynamic L tk family rsn stop path_lit name_lit =
     (let call_end = (case stop of None \<Rightarrow> sp_end (tok_span tk)
                                 | Some e \<Rightarrow> max (sp_end (tok_span tk)) e)
      in \<lparr>occ_loader = tok_value tk, occ_family = family, occ_outcome = O_dynamic,
          occ_reason = Some rsn, occ_loader_span = tok_span tk,
          occ_call_span = \<lparr>sp_start = sp_start (tok_span tk), sp_end = call_end\<rparr>,
          occ_source_line = line_for_byte L (sp_start (tok_span tk)),
          occ_path_literal = path_lit, occ_name_literal = name_lit\<rparr>)"

text \<open>\<open>_UNCAPTURED_EXECUTION_MEMBERS\<close> and its companions.\<close>

definition uncaptured_members :: "ucs \<Rightarrow> ucs list option" where
  "uncaptured_members m = map_of
     (map (\<lambda>(k, vs). (asc k, map asc vs))
       [(''Hol_loader'', [''file_loader'', ''use_file'', ''load_on_path'']),
        (''Toploop'', [''use_file'', ''use_silently'', ''use_output'', ''use_module'']),
        (''Topdirs'', [''dir_use'', ''dir_mod_use'', ''dir_load'', ''dir_load_rec'', ''dir_cd'',
                      ''dir_directory'', ''dir_remove_directory'']),
        (''Dynlink'', [''loadfile'', ''loadfile_private'']),
        (''Sys'', [''chdir'']),
        (''Unix'', [''chdir'', ''fchdir''])]) m"

definition uncaptured_global :: "ucs list" where
  "uncaptured_global = map asc [''file_loader'', ''use_file'', ''load_on_path'']"

definition uncaptured_directives :: "ucs list" where
  "uncaptured_directives =
     map asc [''mod_use'', ''load_rec'', ''cd'', ''directory'', ''remove_directory'']"

text \<open>
  \<open>member.value[0].isupper()\<close>; Python raises an \<open>IndexError\<close> on the empty string, but an
  identifier token of the lexer is never empty (\<open>identifier_token_nonempty\<close>), so that case does not arise.
\<close>

definition starts_upper :: "pyenv \<Rightarrow> ucs \<Rightarrow> bool" where
  "starts_upper E v = (case v of [] \<Rightarrow> False | c # _ \<Rightarrow> py_isupper E c)"

definition qualified_member :: "pyenv \<Rightarrow> token list \<Rightarrow> nat \<Rightarrow> token option" where
  "qualified_member E ts i =
     (if i + 2 < length ts \<and> tok_value (ts ! (i + 1)) = asc ''.''
         \<and> tok_kind (ts ! (i + 2)) \<in> {K_IDENT, K_RAW_IDENT}
         \<and> \<not> starts_upper E (tok_value (ts ! (i + 2)))
      then Some (ts ! (i + 2)) else None)"

definition uncaptured_occurrence :: "pyenv \<Rightarrow> lexer \<Rightarrow> token list \<Rightarrow> nat \<Rightarrow> loader_occurrence option"
where
  "uncaptured_occurrence E L ts i =
     (let tk = ts ! i
      in if tok_kind tk \<notin> {K_IDENT, K_RAW_IDENT} then None
         else case uncaptured_members (tok_value tk) of
           Some members \<Rightarrow>
             (case qualified_member E ts i of
                Some member \<Rightarrow>
                  if tok_value member \<notin> set members then None
                  else let reference = mk_token K_IDENT (tok_value tk @ asc ''.'' @ tok_value member)
                             \<lparr>sp_start = sp_start (tok_span tk), sp_end = sp_end (tok_span member)\<rparr>;
                           rsn = (if tok_value member \<in> set (map asc [''chdir'', ''fchdir'', ''dir_cd''])
                                  then ''source_changes_working_directory''
                                  else ''uncaptured_file_execution'')
                       in Some (dynamic L reference F_source rsn None None None)
              | None \<Rightarrow> Some (dynamic L tk F_source ''uncaptured_execution_module_reference''
                                None None None))
         | None \<Rightarrow>
             if tok_value tk \<in> set uncaptured_directives \<and> i > 0
                \<and> tok_value (ts ! (i - 1)) = asc ''#''
             then let reference = mk_token K_IDENT (asc ''#'' @ tok_value tk)
                        \<lparr>sp_start = sp_start (tok_span (ts ! (i - 1))), sp_end = sp_end (tok_span tk)\<rparr>;
                      rsn = (if tok_value tk = asc ''cd'' then ''source_changes_working_directory''
                             else ''uncaptured_file_execution'')
                  in Some (dynamic L reference F_source rsn None None None)
             else if tok_value tk \<in> set uncaptured_global
             then Some (dynamic L tk F_source ''uncaptured_file_execution'' None None None)
             else None)"

definition uncaptured_execution_occurrences :: "pyenv \<Rightarrow> lexer \<Rightarrow> token list \<Rightarrow> loader_occurrence list"
where
  "uncaptured_execution_occurrences E L ts =
     List.map_filter (uncaptured_occurrence E L ts) [0..<length ts]"

section \<open>Local opens\<close>

text \<open>
  \<open>None\<close> is the \<open>IndexError\<close> of popping an empty stack, which the lexer's delimiter check
  rules out (\<open>locally_opened_total\<close>).
\<close>

fun locally_opened_from :: "token option \<Rightarrow> nat \<Rightarrow> token list \<Rightarrow> bool list \<Rightarrow> nat \<Rightarrow> nat list
    \<Rightarrow> nat list option" where
  "locally_opened_from prev i [] stack local_opens idxs = Some idxs"
| "locally_opened_from prev i (tk # tks) stack local_opens idxs =
     (if open_to_close (tok_kind tk) \<noteq> None
      then let opened = (tok_kind tk = K_LPAREN
                 \<and> (case prev of None \<Rightarrow> False | Some p \<Rightarrow> tok_value p = asc ''.''))
           in locally_opened_from (Some tk) (i + 1) tks (opened # stack)
                (local_opens + of_bool opened) idxs
      else if is_close (tok_kind tk)
      then (case stack of
              [] \<Rightarrow> None
            | opened # stack' \<Rightarrow>
                locally_opened_from (Some tk) (i + 1) tks stack' (local_opens - of_bool opened) idxs)
      else locally_opened_from (Some tk) (i + 1) tks stack local_opens
             (if tok_kind tk = K_LOADER \<and> local_opens \<noteq> 0 then idxs @ [i] else idxs))"

definition locally_opened_loaders :: "token list \<Rightarrow> nat list option" where
  "locally_opened_loaders ts = locally_opened_from None 0 ts [] 0 []"

section \<open>Classification\<close>

definition supported_path :: "string_literal \<Rightarrow> bool" where
  "supported_path lit \<longleftrightarrow> utf8_text lit \<noteq> None \<and> 0 \<notin> set (value_bytes lit)"

definition literal_occurrence :: "lexer \<Rightarrow> token \<Rightarrow> loader_family \<Rightarrow> nat \<Rightarrow> string_literal
    \<Rightarrow> string_literal option \<Rightarrow> loader_occurrence" where
  "literal_occurrence L tk family call_end path_lit name_lit =
     \<lparr>occ_loader = tok_value tk, occ_family = family, occ_outcome = O_literal, occ_reason = None,
      occ_loader_span = tok_span tk,
      occ_call_span = \<lparr>sp_start = sp_start (tok_span tk), sp_end = call_end\<rparr>,
      occ_source_line = line_for_byte L (sp_start (tok_span tk)),
      occ_path_literal = Some path_lit, occ_name_literal = name_lit\<rparr>"

text \<open>
  One iteration returns the occurrence it appends, if any, and whether it taints the loader.
\<close>

definition classify_source_call :: "lexer \<Rightarrow> token list \<Rightarrow> nat \<Rightarrow> loader_occurrence \<times> bool" where
  "classify_source_call L ts i =
     (let tk = ts ! i
      in case exact_string_argument ts (i + 1) of
           None \<Rightarrow> (dynamic L tk F_source ''argument_is_not_an_exact_string_literal'' None None None, True)
         | Some (path_lit, after_path, call_end) \<Rightarrow>
             if \<not> supported_path path_lit
             then (dynamic L tk F_source ''path_literal_is_not_a_supported_filesystem_string''
                     (Some call_end) (Some path_lit) None, True)
             else if \<not> call_boundary ts after_path
             then (dynamic L tk F_source ''extra_expression_after_path_literal''
                     (Some call_end) (Some path_lit) None, True)
             else (literal_occurrence L tk F_source call_end path_lit None, False))"

definition artifact_completion :: "token list \<Rightarrow> ucs \<Rightarrow> nat \<Rightarrow> nat \<Rightarrow> bool \<times> string \<times> nat" where
  "artifact_completion ts loader after_path call_end =
     (if loader = asc ''define_from_elf''
      then (call_boundary ts after_path, ''extra_expression_after_path_literal'', call_end)
      else case single_expression_end ts after_path of
             None \<Rightarrow> (False, ''missing_instruction_expression_after_path_literal'', call_end)
           | Some expression_end \<Rightarrow>
               (call_boundary ts expression_end,
                ''extra_expression_after_instruction_expression'',
                sp_end (tok_span (ts ! (expression_end - 1)))))"

definition classify_artifact_call :: "lexer \<Rightarrow> token list \<Rightarrow> nat \<Rightarrow> loader_occurrence" where
  "classify_artifact_call L ts i =
     (let tk = ts ! i
      in case exact_string_argument ts (i + 1) of
           None \<Rightarrow> dynamic L tk F_artifact ''name_is_not_an_exact_string_literal'' None None None
         | Some (name_lit, after_name, name_end) \<Rightarrow>
      (case exact_string_argument ts after_name of
           None \<Rightarrow> dynamic L tk F_artifact ''path_is_not_an_exact_string_literal''
                    (Some name_end) None (Some name_lit)
         | Some (path_lit, after_path, call_end) \<Rightarrow>
             if \<not> supported_path name_lit \<or> \<not> supported_path path_lit
             then dynamic L tk F_artifact
                    ''name_or_path_literal_is_not_a_supported_filesystem_string''
                    (Some call_end) (Some path_lit) (Some name_lit)
             else case artifact_completion ts (tok_value tk) after_path call_end of
               (complete, rsn, complete_end) \<Rightarrow>
                 if \<not> complete
                 then dynamic L tk F_artifact rsn (Some complete_end) (Some path_lit) (Some name_lit)
                 else literal_occurrence L tk F_artifact complete_end path_lit (Some name_lit)))"

definition loader_family_of :: "ucs \<Rightarrow> loader_family" where
  "loader_family_of loader = (if loader \<in> set SOURCE_LOADERS then F_source else F_artifact)"

definition classify_loader :: "lexer \<Rightarrow> token list \<Rightarrow> nat list \<Rightarrow> ucs set \<Rightarrow> nat
    \<Rightarrow> loader_occurrence option \<times> bool" where
  "classify_loader L ts opened tainted i =
     (let tk = ts ! i; loader = tok_value tk; family = loader_family_of loader
      in if direct_binding ts i
         then (if family = F_source
               then (Some (dynamic L tk family ''binding_position'' None None None), True)
               else (None, True))
         else if qualified_or_hash_prefixed ts i \<or> i \<in> set opened
         then (Some (dynamic L tk family ''qualified_loader_reference'' None None None), False)
         else if loader \<in> tainted
         then (Some (dynamic L tk family ''shadowed_loader_binding'' None None None), False)
         else if \<not> call_position ts i loader
         then (Some (dynamic L tk family ''not_in_call_position'' None None None), True)
         else if family = F_source
         then (case classify_source_call L ts i of (occ, taint) \<Rightarrow> (Some occ, taint))
         else (Some (classify_artifact_call L ts i), False))"

fun classify_loop :: "lexer \<Rightarrow> token list \<Rightarrow> nat list \<Rightarrow> nat list \<Rightarrow> ucs set
    \<Rightarrow> loader_occurrence list \<Rightarrow> loader_occurrence list" where
  "classify_loop L ts opened [] tainted occs = occs"
| "classify_loop L ts opened (i # is) tainted occs =
     (if tok_kind (ts ! i) \<noteq> K_LOADER then classify_loop L ts opened is tainted occs
      else case classify_loader L ts opened tainted i of
        (occ, taint) \<Rightarrow>
          classify_loop L ts opened is
            (if taint then insert (tok_value (ts ! i)) tainted else tainted)
            (case occ of None \<Rightarrow> occs | Some x \<Rightarrow> occs @ [x]))"

definition classify_tokens :: "pyenv \<Rightarrow> lexer \<Rightarrow> token list \<Rightarrow> loader_occurrence list option" where
  "classify_tokens E L ts =
     (case locally_opened_loaders ts of
        None \<Rightarrow> None
      | Some opened \<Rightarrow>
          Some (sort_key (\<lambda>occ. sp_start (occ_loader_span occ))
            (classify_loop L ts opened [0..<length ts] {}
               (uncaptured_execution_occurrences E L ts))))"

end
