(* ===== verification/Loader_Scan.thy ===== *)
theory Loader_Scan
  imports Loader_Calls
begin

text \<open>
  The public functions of \<open>hol_workbench/proofs/loader_scan.py\<close>: \<open>scan_ocaml_loaders\<close>,
  \<open>scan_claim_binding_starts\<close>, \<open>source_may_change_cwd\<close> and \<open>scan_prove_bindings\<close>.
\<close>

section \<open>The scan\<close>

record loader_scan_refusal =
  ref_kind :: string
  ref_reason :: reason
  ref_span :: byte_span
  ref_source_line :: nat

datatype scan_status = S_ok | S_refused

record loader_scan_result =
  scan_status :: scan_status
  scan_sha256 :: string
  scan_size_bytes :: nat
  scan_occurrences :: "loader_occurrence list"
  scan_refusal :: "loader_scan_refusal option"

definition literal_occurrences :: "loader_scan_result \<Rightarrow> loader_occurrence list" where
  "literal_occurrences r = filter (\<lambda>occ. occ_outcome occ = O_literal) (scan_occurrences r)"

definition dynamic_occurrences :: "loader_scan_result \<Rightarrow> loader_occurrence list" where
  "dynamic_occurrences r = filter (\<lambda>occ. occ_outcome occ = O_dynamic) (scan_occurrences r)"

definition refused :: "pyenv \<Rightarrow> bytes \<Rightarrow> string \<Rightarrow> reason \<Rightarrow> byte_span \<Rightarrow> nat \<Rightarrow> loader_scan_result" where
  "refused E source k rsn sp line =
     \<lparr>scan_status = S_refused, scan_sha256 = py_sha256 E source, scan_size_bytes = length source,
      scan_occurrences = [],
      scan_refusal = Some \<lparr>ref_kind = k, ref_reason = rsn, ref_span = sp, ref_source_line = line\<rparr>\<rparr>"

text \<open>
  A lexical failure's indices are clipped to the text before the offset table is read.
\<close>

definition refuse_failure :: "pyenv \<Rightarrow> lexer \<Rightarrow> lex_failure \<Rightarrow> loader_scan_result" where
  "refuse_failure E L f =
     (let n = length (lx_text L);
          start = lx_offsets L ! min (fail_start f) n;
          stop = lx_offsets L ! min (max (fail_end f) (fail_start f)) n
      in refused E (lx_source L) (fail_kind f) (fail_reason f) \<lparr>sp_start = start, sp_end = stop\<rparr>
           (line_for_byte L start))"

text \<open>\<open>None\<close> stands for an \<open>IndexError\<close> of the classifier; \<open>scan_total\<close> excludes it.\<close>

definition scan_ocaml_loaders :: "pyenv \<Rightarrow> bytes \<Rightarrow> loader_scan_result option" where
  "scan_ocaml_loaders E source =
     (if MAX_SOURCE_BYTES < length source
      then Some (refused E source ''source_size_limit''
             (Msg ''source exceeds the 67108864-byte loader scan bound'')
             \<lparr>sp_start = 0, sp_end = length source\<rparr> 1)
      else case utf8_decode source of
        Inl (start, stop) \<Rightarrow>
          Some (refused E source ''invalid_utf8'' (Msg ''source is not strict UTF-8'')
            \<lparr>sp_start = start, sp_end = stop\<rparr> (line_number_for_offset source start))
      | Inr tx \<Rightarrow>
          let L = mk_lexer source tx
          in case tokenize E L of
               Inl f \<Rightarrow> Some (refuse_failure E L f)
             | Inr toks \<Rightarrow>
                 map_option (\<lambda>occs.
                   \<lparr>scan_status = S_ok, scan_sha256 = py_sha256 E source,
                    scan_size_bytes = length source, scan_occurrences = occs,
                    scan_refusal = None\<rparr>) (classify_tokens E L toks))"

text \<open>
  The tokens that the phrase scanners recompute after a successful scan
  (\<open>_Lexer(source, source.decode("utf-8")).tokenize()\<close>).
\<close>

definition source_tokens :: "pyenv \<Rightarrow> bytes \<Rightarrow> (lexer \<times> token list) option" where
  "source_tokens E source =
     (case utf8_decode source of
        Inl _ \<Rightarrow> None
      | Inr tx \<Rightarrow>
          let L = mk_lexer source tx
          in case tokenize E L of Inl _ \<Rightarrow> None | Inr toks \<Rightarrow> Some (L, toks))"

section \<open>Top-level phrases\<close>

definition block_opener :: "token \<Rightarrow> bool" where
  "block_opener tk \<longleftrightarrow> is_word tk K_IDENT [''begin'', ''struct'', ''sig'', ''object'']"

definition block_end :: "token \<Rightarrow> bool" where
  "block_end tk \<longleftrightarrow> is_word tk K_IDENT [''end'']"

text \<open>
  \<open>_top_level_phrases\<close>: the loop carries the finished phrases, the current one, the number of
  open blocks (the source keeps their names and reads only whether any is left) and the number of
  open delimiters.  The outer \<open>None\<close> is the \<open>IndexError\<close> of the delimiter pop, the inner
  one is the source's \<open>return None\<close>.
\<close>

fun phrases_from :: "token list \<Rightarrow> token list list \<Rightarrow> token list \<Rightarrow> nat \<Rightarrow> nat
    \<Rightarrow> token list list option option" where
  "phrases_from [] phrases phrase blocks delims =
     Some (if blocks \<noteq> 0 then None else Some phrases)"
| "phrases_from (tk # tks) phrases phrase blocks delims =
     (if block_end tk \<and> blocks = 0 then Some None
      else let blocks' = (if block_opener tk then blocks + 1
                          else if block_end tk then blocks - 1 else blocks)
      in if is_close (tok_kind tk) \<and> delims = 0 then None
      else let delims' = (if open_to_close (tok_kind tk) \<noteq> None then delims + 1
                          else if is_close (tok_kind tk) then delims - 1 else delims);
               phrase' = phrase @ [tk]
      in if tok_kind tk = K_SEMISEMI \<and> blocks' = 0 \<and> delims' = 0
         then phrases_from tks (phrases @ [phrase']) [] blocks' delims'
         else phrases_from tks phrases phrase' blocks' delims')"

definition top_level_phrases :: "token list \<Rightarrow> token list list option option" where
  "top_level_phrases toks = phrases_from toks [] [] 0 0"

section \<open>Claim binding starts\<close>

text \<open>
  The scan of a phrase's right-hand side: an outer \<open>let\<close>, \<open>in\<close> or \<open>and\<close> makes it
  ineligible.  Depth and block counters are Python integers.
\<close>

fun standalone_rhs :: "token list \<Rightarrow> int \<Rightarrow> int \<Rightarrow> bool" where
  "standalone_rhs [] depth blocks = True"
| "standalone_rhs (tk # tks) depth blocks =
     (if open_to_close (tok_kind tk) \<noteq> None then standalone_rhs tks (depth + 1) blocks
      else if is_close (tok_kind tk) then standalone_rhs tks (depth - 1) blocks
      else if tok_kind tk = K_IDENT
      then if block_opener tk then standalone_rhs tks depth (blocks + 1)
           else if block_end tk then standalone_rhs tks depth (blocks - 1)
           else if depth = 0 \<and> blocks = 0 \<and> is_word tk K_IDENT [''let'', ''in'', ''and''] then False
           else standalone_rhs tks depth blocks
      else standalone_rhs tks depth blocks)"

definition claim_phrase :: "token list \<Rightarrow> bool" where
  "claim_phrase phrase \<longleftrightarrow>
     \<not> (length phrase < 5
        \<or> \<not> (is_word (phrase ! 0) K_IDENT [''let''] \<and> tok_kind (phrase ! 1) = K_IDENT
             \<and> tok_value (phrase ! 2) = asc ''=''))
     \<and> standalone_rhs (drop 3 phrase) 0 0"

datatype scan_error = Scan_index_error | Scan_assertion | Claim_inventory_refused reason
  | Claim_inventory_blocks

definition scan_claim_binding_starts :: "pyenv \<Rightarrow> bytes \<Rightarrow> scan_error + nat list" where
  "scan_claim_binding_starts E source =
     (case scan_ocaml_loaders E source of
        None \<Rightarrow> Inl Scan_index_error
      | Some checked \<Rightarrow>
          if scan_status checked \<noteq> S_ok
          then (case scan_refusal checked of
                  None \<Rightarrow> Inl Scan_assertion
                | Some r \<Rightarrow> Inl (Claim_inventory_refused (ref_reason r)))
          else case source_tokens E source of
                 None \<Rightarrow> Inl Scan_assertion
               | Some (L, toks) \<Rightarrow>
            (case top_level_phrases toks of
               None \<Rightarrow> Inl Scan_index_error
             | Some None \<Rightarrow> Inl Claim_inventory_blocks
             | Some (Some phrases) \<Rightarrow>
                 Inr (map (\<lambda>phrase. sp_start (tok_span (phrase ! 0))) (filter claim_phrase phrases))))"

section \<open>Directory changes\<close>

text \<open>\<open>word in source\<close> for byte strings.\<close>

definition bytes_contain :: "bytes \<Rightarrow> bytes \<Rightarrow> bool" where
  "bytes_contain source w \<longleftrightarrow> find_from source w 0 \<noteq> None"

definition source_may_change_cwd :: "pyenv \<Rightarrow> bytes \<Rightarrow> bool option" where
  "source_may_change_cwd E source =
     (if \<not> list_ex (bytes_contain source) [basc ''chdir'', basc ''external''] then Some False
      else case scan_ocaml_loaders E source of
             None \<Rightarrow> None
           | Some checked \<Rightarrow>
               if scan_status checked \<noteq> S_ok then Some True
               else map_option (\<lambda>(L, toks).
                      list_ex (\<lambda>tk. is_word tk K_IDENT [''chdir'', ''fchdir'', ''external'']) toks)
                      (source_tokens E source))"

section \<open>Prove bindings\<close>

record prove_binding =
  pb_name :: ucs
  pb_binding_span :: byte_span
  pb_statement_span :: byte_span
  pb_tactic_span :: byte_span
  pb_source_line :: nat

record prove_binding_scan_result =
  pbs_status :: scan_status
  pbs_sha256 :: string
  pbs_bindings :: "prove_binding list"
  pbs_refusal :: "loader_scan_refusal option"

text \<open>
  The binding-pattern identifiers of every \<open>let\<close> or \<open>and\<close> header, one copy of a name per
  header (the source collects each header's names in a set and counts them in a dictionary).
\<close>

fun header_names :: "token list \<Rightarrow> ucs list option \<Rightarrow> ucs list" where
  "header_names [] cur = []"
| "header_names (tk # tks) cur =
     (if is_word tk K_IDENT [''let'', ''and''] then header_names tks (Some [])
      else case cur of
        None \<Rightarrow> header_names tks None
      | Some names \<Rightarrow>
          if tok_value tk = asc ''='' \<or> tok_kind tk = K_SEMISEMI then names @ header_names tks None
          else if tok_kind tk = K_IDENT
          then header_names tks (Some (List.insert (tok_value tk) names))
          else header_names tks cur)"

definition name_count :: "token list \<Rightarrow> ucs \<Rightarrow> nat" where
  "name_count toks name = count_list (header_names toks None) name"

text \<open>The position at which the delimiter opened at \<open>pos\<close> closes.\<close>

fun closing_position :: "token list \<Rightarrow> nat \<Rightarrow> int \<Rightarrow> nat option" where
  "closing_position [] pos depth = None"
| "closing_position (tk # tks) pos depth =
     (if open_to_close (tok_kind tk) \<noteq> None then closing_position tks (pos + 1) (depth + 1)
      else if is_close (tok_kind tk)
      then if depth - 1 = 0 then Some pos else closing_position tks (pos + 1) (depth - 1)
      else closing_position tks (pos + 1) depth)"

fun outer_comma :: "token list \<Rightarrow> int \<Rightarrow> bool" where
  "outer_comma [] depth = False"
| "outer_comma (tk # tks) depth =
     (if open_to_close (tok_kind tk) \<noteq> None then outer_comma tks (depth + 1)
      else if is_close (tok_kind tk) then outer_comma tks (depth - 1)
      else if tok_kind tk = K_COMMA \<and> depth = 0 then True
      else outer_comma tks depth)"

definition prove_index :: "token list \<Rightarrow> nat" where
  "prove_index cur = (if tok_value (cur ! 3) = asc ''time'' then 4 else 3)"

definition prove_header :: "token list \<Rightarrow> token list \<Rightarrow> bool" where
  "prove_header toks cur \<longleftrightarrow>
     10 \<le> length cur
       \<and> is_word (cur ! 0) K_IDENT [''let''] \<and> tok_kind (cur ! 1) = K_IDENT
       \<and> tok_value (cur ! 2) = asc ''=''
       \<and> name_count toks (tok_value (cur ! 1)) = 1
       \<and> is_word (cur ! prove_index cur) K_IDENT [''prove'']
       \<and> tok_kind (cur ! (prove_index cur + 1)) = K_LPAREN
       \<and> tok_kind (cur ! (prove_index cur + 2)) = K_HOL
       \<and> tok_kind (cur ! (prove_index cur + 3)) = K_COMMA"

definition prove_candidate :: "lexer \<Rightarrow> token list \<Rightarrow> token list \<Rightarrow> prove_binding option" where
  "prove_candidate L toks cur =
     (if \<not> prove_header toks cur then None
      else let i = prove_index cur + 1
      in case closing_position (drop i cur) i 0 of
           None \<Rightarrow> None
         | Some close \<Rightarrow>
             if close \<noteq> length cur - 2 \<or> tok_kind (cur ! close) \<noteq> K_RPAREN then None
             else let tactic_tokens = slice cur (i + 3) close
                  in if tactic_tokens = [] \<or> outer_comma tactic_tokens 0 then None
                     else Some
                       \<lparr>pb_name = tok_value (cur ! 1),
                        pb_binding_span = \<lparr>sp_start = sp_start (tok_span (cur ! 0)),
                                           sp_end = sp_end (tok_span (last cur))\<rparr>,
                        pb_statement_span = tok_span (cur ! (i + 1)),
                        pb_tactic_span = \<lparr>sp_start = sp_end (tok_span (cur ! (i + 2))),
                                          sp_end = sp_start (tok_span (cur ! close))\<rparr>,
                        pb_source_line = line_for_byte L (sp_start (tok_span (cur ! 0)))\<rparr>)"

definition scan_prove_bindings :: "pyenv \<Rightarrow> bytes \<Rightarrow> prove_binding_scan_result option" where
  "scan_prove_bindings E source =
     (case scan_ocaml_loaders E source of
        None \<Rightarrow> None
      | Some checked \<Rightarrow>
          let result = (\<lambda>st bs r. \<lparr>pbs_status = st, pbs_sha256 = scan_sha256 checked,
                                   pbs_bindings = bs, pbs_refusal = r\<rparr>)
          in if scan_status checked \<noteq> S_ok then Some (result S_refused [] (scan_refusal checked))
             else case source_tokens E source of
                    None \<Rightarrow> None
                  | Some (L, toks) \<Rightarrow>
               (case top_level_phrases toks of
                  None \<Rightarrow> None
                | Some None \<Rightarrow> Some (result S_ok [] None)
                | Some (Some phrases) \<Rightarrow>
                    Some (result S_ok (List.map_filter (prove_candidate L toks) phrases) None)))"

end
