(* ===== verification/Loader_Properties.thy ===== *)
theory Loader_Properties
  imports Loader_Scan
begin

text \<open>
  Properties of the loader scan (\<open>hol_workbench/proofs/loader_scan.py\<close>): it never raises, it
  refuses atomically, its tokens are ordered and nested, no loader name escapes classification,
  and a literal occurrence is what the source text says it is.
\<close>

section \<open>A sample source\<close>

text \<open>
  The properties with hypotheses are applied to a small source: the ASCII part of the Unicode
  database and an injective stand-in for the digest.
\<close>

definition ascii_env :: pyenv where
  "ascii_env =
     \<lparr>py_category = (\<lambda>c. if 65 \<le> c \<and> c \<le> 90 then ''Lu'' else if 97 \<le> c \<and> c \<le> 122 then ''Ll'' else ''Po''),
      py_isdigit = ascii_digit, py_isupper = (\<lambda>c. 65 \<le> c \<and> c \<le> 90),
      py_sha256 = map (\<lambda>b. char_of (unat b))\<rparr>"

definition sample_source :: bytes where
  "sample_source = basc ''needs \"a.ml\";; use_file;;''"

definition sample_result :: loader_scan_result where
  "sample_result = the (scan_ocaml_loaders ascii_env sample_source)"

definition sample_lexer :: lexer where
  "sample_lexer = fst (the (source_tokens ascii_env sample_source))"

definition sample_tokens :: "token list" where
  "sample_tokens = snd (the (source_tokens ascii_env sample_source))"

lemma sample_eval:
  "case scan_ocaml_loaders ascii_env sample_source of
     None \<Rightarrow> False
   | Some r \<Rightarrow> scan_status r = S_ok
       \<and> (case scan_occurrences r of [] \<Rightarrow> False | occ # _ \<Rightarrow> occ_outcome occ = O_literal)"
  by code_simp

lemma sample_tokens_eval:
  "case source_tokens ascii_env sample_source of
     None \<Rightarrow> False
   | Some (L, toks) \<Rightarrow>
       map tok_kind toks = [K_LOADER, K_STRING, K_SEMISEMI, K_IDENT, K_SEMISEMI]
       \<and> map tok_value toks = map asc [''needs'', [], '';;'', ''use_file'', '';;'']"
  by code_simp

lemma sample_scan: "scan_ocaml_loaders ascii_env sample_source = Some sample_result"
  using sample_eval by (auto simp: sample_result_def split: option.splits)

lemma sample_lexed: "source_tokens ascii_env sample_source = Some (sample_lexer, sample_tokens)"
  using sample_tokens_eval
  by (auto simp: sample_lexer_def sample_tokens_def split: option.splits prod.splits)

lemma sample_ok: "scan_status sample_result = S_ok"
  using sample_eval by (simp add: sample_scan)

lemma sample_first:
  "scan_occurrences sample_result ! 0 \<in> set (scan_occurrences sample_result)"
  "occ_outcome (scan_occurrences sample_result ! 0) = O_literal"
  using sample_eval by (auto simp: sample_scan split: list.splits)

lemma sample_kinds: "map tok_kind sample_tokens = [K_LOADER, K_STRING, K_SEMISEMI, K_IDENT, K_SEMISEMI]"
  using sample_tokens_eval by (simp add: sample_lexed)

lemma sample_values: "map tok_value sample_tokens = map asc [''needs'', [], '';;'', ''use_file'', '';;'']"
  using sample_tokens_eval by (simp add: sample_lexed del: list.map)

lemma sample_nth:
  assumes "i < 5"
  shows "i < length sample_tokens"
    "tok_kind (sample_tokens ! i) = [K_LOADER, K_STRING, K_SEMISEMI, K_IDENT, K_SEMISEMI] ! i"
    "tok_value (sample_tokens ! i) = asc ([''needs'', [], '';;'', ''use_file'', '';;''] ! i)"
proof -
  have "length sample_tokens = 5"
    using arg_cong [OF sample_kinds, of length] by simp
  then show "i < length sample_tokens"
    "tok_kind (sample_tokens ! i) = [K_LOADER, K_STRING, K_SEMISEMI, K_IDENT, K_SEMISEMI] ! i"
    "tok_value (sample_tokens ! i) = asc ([''needs'', [], '';;'', ''use_file'', '';;''] ! i)"
    using assms arg_cong [OF sample_kinds, of "\<lambda>xs. xs ! i"]
      arg_cong [OF sample_values, of "\<lambda>xs. xs ! i"]
    by (simp_all del: list.map add: nth_map)
qed

lemmas sample_facts = sample_scan sample_ok sample_lexed sample_nth

section \<open>No exception escapes\<close>

lemma delim_step_cases:
  assumes "delim_step k ks = Some ks'"
  shows "(open_to_close k \<noteq> None \<and> length ks' = Suc (length ks)) \<or>
         (open_to_close k = None \<and> is_close k \<and> ks \<noteq> [] \<and> length ks = Suc (length ks')) \<or>
         (open_to_close k = None \<and> \<not> is_close k \<and> ks' = ks)"
  using assms by (auto simp: delim_step_def split: option.splits if_splits list.splits)

lemma open_not_close: "open_to_close k = Some c \<Longrightarrow> \<not> is_close k"
  by (cases k) (simp_all add: is_close_def)

lemma locally_opened_from_total:
  "delim_run (map tok_kind ts) ks = Some ks' \<Longrightarrow> length stack = length ks
     \<Longrightarrow> locally_opened_from prev i ts stack n idxs = None \<Longrightarrow> False"
proof (induction ts arbitrary: ks stack prev i n idxs)
  case Nil
  then show ?case by simp
next
  case (Cons tk ts)
  then obtain ks1 where s: "delim_step (tok_kind tk) ks = Some ks1"
    and run: "delim_run (map tok_kind ts) ks1 = Some ks'"
    by (auto split: option.splits)
  note IH = Cons.IH [OF run]
  from delim_step_cases [OF s] Cons.prems(2,3) show ?case
    by (auto simp: Let_def open_not_close split: list.splits if_splits dest: IH [rotated])
qed

lemma phrases_from_total:
  "delim_run (map tok_kind ts) ks = Some ks' \<Longrightarrow> delims = length ks
     \<Longrightarrow> phrases_from ts phrases phrase blocks delims = None \<Longrightarrow> False"
proof (induction ts arbitrary: ks phrases phrase blocks delims)
  case Nil
  then show ?case by simp
next
  case (Cons tk ts)
  then obtain ks1 where s: "delim_step (tok_kind tk) ks = Some ks1"
    and run: "delim_run (map tok_kind ts) ks1 = Some ks'"
    by (auto split: option.splits)
  note IH = Cons.IH [OF run]
  from delim_step_cases [OF s] Cons.prems(2,3) show ?case
    by (auto simp: Let_def open_not_close split: if_splits dest: IH [rotated])
qed

lemma classify_tokens_total:
  assumes "tokenize E L = Inr toks"
  shows "classify_tokens E L' toks \<noteq> None"
proof -
  have run: "delim_run (map tok_kind toks) [] = Some []" using tokenizeD [OF assms] by auto
  have "locally_opened_loaders toks \<noteq> None"
    using locally_opened_from_total [OF run, of "[]" None 0 0 "[]"]
    by (auto simp: locally_opened_loaders_def)
  then show ?thesis by (cases "locally_opened_loaders toks") (simp_all add: classify_tokens_def)
qed

lemma top_level_phrases_total:
  assumes "tokenize E L = Inr toks"
  shows "top_level_phrases toks \<noteq> None"
proof -
  have run: "delim_run (map tok_kind toks) [] = Some []" using tokenizeD [OF assms] by auto
  show ?thesis
    using phrases_from_total [OF run, of 0 "[]" "[]" 0] by (auto simp: top_level_phrases_def)
qed

lemma scan_ocaml_loaders_cases:
  obtains (oversize) "MAX_SOURCE_BYTES < length source"
      "scan_ocaml_loaders E source = Some (refused E source ''source_size_limit''
         (Msg ''source exceeds the 67108864-byte loader scan bound'')
         \<lparr>sp_start = 0, sp_end = length source\<rparr> 1)"
  | (undecodable) a b where "utf8_decode source = Inl (a, b)"
      "scan_ocaml_loaders E source = Some (refused E source ''invalid_utf8''
         (Msg ''source is not strict UTF-8'') \<lparr>sp_start = a, sp_end = b\<rparr>
         (line_number_for_offset source a))"
  | (lexical) tx f where "utf8_decode source = Inr tx" "tokenize E (mk_lexer source tx) = Inl f"
      "scan_ocaml_loaders E source = Some (refuse_failure E (mk_lexer source tx) f)"
  | (scanned) tx toks occs where "utf8_decode source = Inr tx"
      "tokenize E (mk_lexer source tx) = Inr toks"
      "classify_tokens E (mk_lexer source tx) toks = Some occs"
      "scan_ocaml_loaders E source = Some \<lparr>scan_status = S_ok, scan_sha256 = py_sha256 E source,
         scan_size_bytes = length source, scan_occurrences = occs, scan_refusal = None\<rparr>"
proof (cases "MAX_SOURCE_BYTES < length source")
  case True
  then show ?thesis by (intro oversize) (simp_all add: scan_ocaml_loaders_def)
next
  case small: False
  show ?thesis
  proof (cases "utf8_decode source")
    case (Inl p)
    then show ?thesis
      using small by (cases p) (auto intro!: undecodable simp: scan_ocaml_loaders_def)
  next
    case (Inr tx)
    show ?thesis
    proof (cases "tokenize E (mk_lexer source tx)")
      case (Inl f)
      with \<open>utf8_decode source = Inr tx\<close> small show ?thesis
        by (intro lexical) (simp_all add: scan_ocaml_loaders_def)
    next
      case toks: (Inr toks)
      from classify_tokens_total [OF toks] obtain occs where
        "classify_tokens E (mk_lexer source tx) toks = Some occs" by blast
      with Inr toks small show ?thesis
        by (intro scanned) (simp_all add: scan_ocaml_loaders_def)
    qed
  qed
qed

lemma refused_sel [simp]:
  "scan_status (refused E source k rsn sp line) = S_refused"
  "scan_occurrences (refused E source k rsn sp line) = []"
  "scan_refusal (refused E source k rsn sp line)
     = Some \<lparr>ref_kind = k, ref_reason = rsn, ref_span = sp, ref_source_line = line\<rparr>"
  "scan_sha256 (refused E source k rsn sp line) = py_sha256 E source"
  "scan_size_bytes (refused E source k rsn sp line) = length source"
  by (simp_all add: refused_def)

lemma refuse_failure_sel [simp]:
  "scan_status (refuse_failure E L f) = S_refused"
  "scan_occurrences (refuse_failure E L f) = []"
  "scan_sha256 (refuse_failure E L f) = py_sha256 E (lx_source L)"
  "scan_size_bytes (refuse_failure E L f) = length (lx_source L)"
  by (simp_all add: refuse_failure_def Let_def)

lemma scan_ok_tokens:
  assumes "scan_ocaml_loaders E source = Some r" and "scan_status r = S_ok"
  obtains tx toks opened where "utf8_decode source = Inr tx"
    "tokenize E (mk_lexer source tx) = Inr toks"
    "source_tokens E source = Some (mk_lexer source tx, toks)"
    "locally_opened_loaders toks = Some opened"
    "scan_occurrences r = sort_key (\<lambda>occ. sp_start (occ_loader_span occ))
       (classify_loop (mk_lexer source tx) toks opened [0..<length toks] {}
          (uncaptured_execution_occurrences E (mk_lexer source tx) toks))"
proof (cases rule: scan_ocaml_loaders_cases [where E = E and source = source])
  case (scanned tx toks occs)
  then show ?thesis
    using that assms by (auto simp: source_tokens_def classify_tokens_def split: option.splits)
qed (use assms in simp_all)

text \<open>Whatever bytes they are given, no stack pop and no internal assertion of the scanner and its
  three derived scanners can fail, because a token list that the lexer accepted has matching
  delimiters. (\<open>scan_claim_binding_starts\<close> still raises a \<open>ValueError\<close> of its own, on a refused source
  and on unbalanced blocks.)\<close>

theorem loader_scanners_never_raise:
  "scan_ocaml_loaders E source \<noteq> None
   \<and> scan_claim_binding_starts E source \<notin> {Inl Scan_index_error, Inl Scan_assertion}
   \<and> source_may_change_cwd E source \<noteq> None
   \<and> scan_prove_bindings E source \<noteq> None"
proof (cases rule: scan_ocaml_loaders_cases [where E = E and source = source])
  case (scanned tx toks occs)
  then have "source_tokens E source = Some (mk_lexer source tx, toks)"
    by (simp add: source_tokens_def)
  moreover obtain ph where "top_level_phrases toks = Some ph"
    using top_level_phrases_total [OF scanned(2)] by blast
  ultimately show ?thesis
    using scanned by (auto simp: scan_claim_binding_starts_def source_may_change_cwd_def
        scan_prove_bindings_def Let_def split: option.splits)
qed (auto simp: scan_claim_binding_starts_def source_may_change_cwd_def scan_prove_bindings_def
       refuse_failure_def Let_def)

text \<open>A scan is atomic: a refusal carries no occurrence at all, and a successful scan carries no
  refusal and lists its occurrences in source order; both are bound to the digest and the size of
  exactly the bytes scanned.\<close>

theorem scan_is_atomic:
  assumes "scan_ocaml_loaders E source = Some r"
  shows "scan_sha256 r = py_sha256 E source \<and> scan_size_bytes r = length source
    \<and> (case scan_status r of
         S_refused \<Rightarrow> scan_occurrences r = [] \<and> scan_refusal r \<noteq> None
       | S_ok \<Rightarrow> scan_refusal r = None \<and>
           sorted (map (\<lambda>occ. sp_start (occ_loader_span occ)) (scan_occurrences r)))"
proof (cases rule: scan_ocaml_loaders_cases [where E = E and source = source])
  case (scanned tx toks occs)
  then show ?thesis
    using assms by (auto simp: classify_tokens_def split: option.splits)
qed (use assms in \<open>auto simp: refuse_failure_def Let_def\<close>)

lemma scan_is_atomic_witness:
  "scan_sha256 sample_result = py_sha256 ascii_env sample_source
    \<and> scan_refusal sample_result = None
    \<and> sorted (map (\<lambda>occ. sp_start (occ_loader_span occ)) (scan_occurrences sample_result))"
  using scan_is_atomic [OF sample_facts(1)] by (simp add: sample_facts)

section \<open>Tokens\<close>

lemma source_tokens_ordered:
  assumes "source_tokens E source = Some (L, toks)"
  shows "sorted_wrt (\<lambda>a b. sp_end (tok_span a) \<le> sp_start (tok_span b)) toks
    \<and> (\<forall>tk \<in> set toks. sp_start (tok_span tk) < sp_end (tok_span tk)
          \<and> sp_end (tok_span tk) \<le> length source)
    \<and> delim_run (map tok_kind toks) [] = Some [] \<and> length toks \<le> MAX_TOKENS"
proof -
  obtain tx where d: "utf8_decode source = Inr tx" and L: "L = mk_lexer source tx"
    and t: "tokenize E L = Inr toks"
    using assms by (auto simp: source_tokens_def Let_def split: sum.splits)
  from tokenizeD [OF t] obtain j where inv: "tokens_between L 0 toks j"
    "delim_run (map tok_kind toks) [] = Some []" "length toks \<le> MAX_TOKENS" by auto
  have "offsets_from 0 tx ! length tx = length source"
    using utf8_decode_sound [OF d] by (simp add: offsets_from_nth)
  with tokens_between_sorted [OF inv(1)] inv(2,3) show ?thesis by (simp add: L)
qed

text \<open>C2: the tokens of an accepted source are non-empty byte ranges inside the source, in increasing
  order and without overlap; their delimiters nest and are all closed, a phrase terminator never
  lies inside a delimiter, and there are at most \<open>MAX_TOKENS\<close> of them.\<close>

theorem tokens_ordered_and_nested:
  assumes "source_tokens E source = Some (L, toks)"
  shows "sorted_wrt (\<lambda>a b. sp_end (tok_span a) \<le> sp_start (tok_span b)) toks
    \<and> (\<forall>tk \<in> set toks. sp_start (tok_span tk) < sp_end (tok_span tk)
          \<and> sp_end (tok_span tk) \<le> length source)
    \<and> delim_run (map tok_kind toks) [] = Some [] \<and> length toks \<le> MAX_TOKENS"
  using assms by (rule source_tokens_ordered)

lemma tokens_ordered_and_nested_witness:
  "sorted_wrt (\<lambda>a b. sp_end (tok_span a) \<le> sp_start (tok_span b)) sample_tokens
    \<and> delim_run (map tok_kind sample_tokens) [] = Some []"
  using tokens_ordered_and_nested [OF sample_facts(3)] by simp

section \<open>No loader escapes\<close>

lemma dynamic_sel [simp]:
  "occ_loader (dynamic L tk fam rsn e p n) = tok_value tk"
  "occ_loader_span (dynamic L tk fam rsn e p n) = tok_span tk"
  "occ_outcome (dynamic L tk fam rsn e p n) = O_dynamic"
  "occ_family (dynamic L tk fam rsn e p n) = fam"
  by (simp_all add: dynamic_def Let_def)

lemma literal_occurrence_sel [simp]:
  "occ_loader (literal_occurrence L tk fam e p n) = tok_value tk"
  "occ_loader_span (literal_occurrence L tk fam e p n) = tok_span tk"
  "occ_outcome (literal_occurrence L tk fam e p n) = O_literal"
  "occ_family (literal_occurrence L tk fam e p n) = fam"
  "occ_path_literal (literal_occurrence L tk fam e p n) = Some p"
  by (simp_all add: literal_occurrence_def)

lemma classify_source_call_span:
  "classify_source_call L ts i = (occ, taint)
     \<Longrightarrow> occ_loader_span occ = tok_span (ts ! i) \<and> occ_loader occ = tok_value (ts ! i)
       \<and> occ_family occ = F_source"
  by (auto simp: classify_source_call_def Let_def split: option.splits if_splits)

lemma classify_artifact_call_span:
  "occ_loader_span (classify_artifact_call L ts i) = tok_span (ts ! i)
     \<and> occ_loader (classify_artifact_call L ts i) = tok_value (ts ! i)
     \<and> occ_family (classify_artifact_call L ts i) = F_artifact"
  by (auto simp: classify_artifact_call_def Let_def split: option.splits if_splits prod.splits)

definition occurrence_of :: "token \<Rightarrow> loader_occurrence \<Rightarrow> bool" where
  "occurrence_of tk occ \<longleftrightarrow> occ_loader_span occ = tok_span tk \<and> occ_loader occ = tok_value tk
     \<and> occ_family occ = loader_family_of (tok_value tk)"

lemma classify_loader_some:
  assumes "\<not> (loader_family_of (tok_value (ts ! i)) = F_artifact \<and> direct_binding ts i)"
  shows "\<exists>occ taint. classify_loader L ts opened tainted i = (Some occ, taint)
           \<and> occurrence_of (ts ! i) occ"
  using assms classify_artifact_call_span [of L ts i]
  by (auto simp: classify_loader_def Let_def occurrence_of_def loader_family_of_def
      dest: classify_source_call_span split: prod.splits if_splits)

lemma classify_loop_mono: "set occs \<subseteq> set (classify_loop L ts opened is tainted occs)"
proof (induction "is" arbitrary: tainted occs)
  case Nil
  then show ?case by simp
next
  case (Cons k ks)
  obtain oc taint where c: "classify_loader L ts opened tainted k = (oc, taint)" by fastforce
  show ?case
    using Cons.IH [of occs] Cons.IH [of "case oc of None \<Rightarrow> occs | Some x \<Rightarrow> occs @ [x]"]
    by (cases oc) (auto simp: c)
qed

lemma classify_loop_covers:
  "i \<in> set is \<Longrightarrow> tok_kind (ts ! i) = K_LOADER
     \<Longrightarrow> \<not> (loader_family_of (tok_value (ts ! i)) = F_artifact \<and> direct_binding ts i)
     \<Longrightarrow> \<exists>occ \<in> set (classify_loop L ts opened is tainted occs). occurrence_of (ts ! i) occ"
proof (induction "is" arbitrary: tainted occs)
  case Nil
  then show ?case by simp
next
  case (Cons k ks)
  show ?case
  proof (cases "i = k")
    case True
    from classify_loader_some [OF Cons.prems(3)] obtain occ taint where
      c: "classify_loader L ts opened tainted i = (Some occ, taint)" "occurrence_of (ts ! i) occ"
      by blast
    have "occ \<in> set (classify_loop L ts opened (k # ks) tainted occs)"
      using c(1) True Cons.prems(2) classify_loop_mono [of "occs @ [occ]"] by fastforce
    with c(2) show ?thesis by blast
  next
    case False
    with Cons.prems have "i \<in> set ks" by simp
    from Cons.IH [OF this Cons.prems(2,3)] show ?thesis
      by (cases "classify_loader L ts opened tainted k") simp
  qed
qed

text \<open>C1: no loader name escapes the dependency identity: in an accepted source every token that is a
  supported loader name has an occurrence with its span, name and family in the result, with one
  exception, the binding of an artifact helper (\<open>let define_from_elf ...\<close>).\<close>

theorem every_loader_token_is_classified:
  assumes "scan_ocaml_loaders E source = Some r" and "scan_status r = S_ok"
    and "source_tokens E source = Some (L, toks)"
    and "i < length toks" and "tok_kind (toks ! i) = K_LOADER"
    and "loader_family_of (tok_value (toks ! i)) = F_source \<or> \<not> direct_binding toks i"
  shows "\<exists>occ \<in> set (scan_occurrences r). occ_loader_span occ = tok_span (toks ! i)
    \<and> occ_loader occ = tok_value (toks ! i)
    \<and> occ_family occ = loader_family_of (tok_value (toks ! i))"
proof -
  from scan_ok_tokens [OF assms(1,2)] assms(3) obtain opened where
    "scan_occurrences r = sort_key (\<lambda>occ. sp_start (occ_loader_span occ))
       (classify_loop L toks opened [0..<length toks] {} (uncaptured_execution_occurrences E L toks))"
    by (metis (no_types, lifting) option.inject prod.inject)
  moreover have "\<exists>occ \<in> set (classify_loop L toks opened [0..<length toks] {}
      (uncaptured_execution_occurrences E L toks)). occurrence_of (toks ! i) occ"
    using assms(4-6) by (intro classify_loop_covers) auto
  ultimately show ?thesis by (auto simp: occurrence_of_def)
qed

lemma every_loader_token_is_classified_witness:
  "\<exists>occ \<in> set (scan_occurrences sample_result).
     occ_loader occ = asc ''needs'' \<and> occ_family occ = F_source"
proof -
  have "loader_family_of (asc ''needs'') = F_source" by code_simp
  then show ?thesis
    using every_loader_token_is_classified [OF sample_facts(1-3), of 0] sample_nth(1) [of 0]
    by (auto simp: sample_nth)
qed

section \<open>Literal occurrences\<close>

lemma close_parens_bounds: "close_parens ts opens i e = Some (j, e') \<Longrightarrow> i \<le> j"
  by (induction ts opens i e rule: close_parens.induct) (auto split: if_splits)

lemma exact_string_argument_sound:
  assumes "exact_string_argument ts start = Some (lit, j, e)"
  shows "\<exists>k. start \<le> k \<and> k < j \<and> k < length ts \<and> tok_kind (ts ! k) = K_STRING
           \<and> tok_literal (ts ! k) = Some lit"
  using assms skip_while_ge [of start "\<lambda>tk. tok_kind tk = K_LPAREN" ts]
  by (auto simp: exact_string_argument_def Let_def dest!: close_parens_bounds
      split: if_split_asm option.split_asm tkind.split_asm
      intro!: exI [of _ "skip_while (\<lambda>tk. tok_kind tk = K_LPAREN) ts start"])

definition literal_of :: "token list \<Rightarrow> nat \<Rightarrow> loader_occurrence \<Rightarrow> bool" where
  "literal_of ts i occ \<longleftrightarrow>
     (\<exists>k lit p. i < k \<and> k < length ts \<and> tok_literal (ts ! k) = Some lit
        \<and> occ_path_literal occ = Some lit \<and> occ_path occ = Some p
        \<and> utf8_encode p = value_bytes lit \<and> 0 \<notin> set (value_bytes lit))"

lemma literal_ofI:
  assumes "i < k" "k < length ts" "tok_literal (ts ! k) = Some lit" "supported_path lit"
    and "occ_path_literal occ = Some lit"
  shows "literal_of ts i occ"
proof -
  from assms(4) obtain p where p: "utf8_text lit = Some p" "0 \<notin> set (value_bytes lit)"
    by (auto simp: supported_path_def)
  then have "utf8_encode p = value_bytes lit"
    by (auto simp: utf8_text_def dest: utf8_decode_sound split: sum.splits)
  with p assms show ?thesis unfolding literal_of_def occ_path_def by auto
qed

lemma classify_source_call_literal:
  assumes "classify_source_call L ts i = (occ, taint)" and "occ_outcome occ = O_literal"
  shows "literal_of ts i occ"
proof -
  from assms obtain lit j e where x: "exact_string_argument ts (i + 1) = Some (lit, j, e)"
    and s: "supported_path lit" and o: "occ_path_literal occ = Some lit"
    by (auto simp: classify_source_call_def Let_def split: option.split_asm if_split_asm)
  from exact_string_argument_sound [OF x] obtain k where
    "i + 1 \<le> k" "k < length ts" "tok_literal (ts ! k) = Some lit" by blast
  with s o show ?thesis by (intro literal_ofI [of i k]) simp_all
qed

lemma classify_artifact_call_literal:
  assumes "occ_outcome (classify_artifact_call L ts i) = O_literal"
  shows "literal_of ts i (classify_artifact_call L ts i)"
proof -
  from assms obtain nl an ne lit j e
    where x: "exact_string_argument ts (i + 1) = Some (nl, an, ne)"
      "exact_string_argument ts an = Some (lit, j, e)"
    and s: "supported_path lit"
    and o: "occ_path_literal (classify_artifact_call L ts i) = Some lit"
    by (auto simp: classify_artifact_call_def Let_def split: option.splits if_splits prod.splits)
  from exact_string_argument_sound [OF x(1)] exact_string_argument_sound [OF x(2)]
  obtain k' k where "i + 1 \<le> k'" "k' < an" "an \<le> k" "k < length ts"
    "tok_literal (ts ! k) = Some lit" by blast
  with s o show ?thesis by (intro literal_ofI [of i k]) simp_all
qed

definition tainted_by :: "token list \<Rightarrow> nat \<Rightarrow> ucs set \<Rightarrow> bool" where
  "tainted_by ts i tainted \<longleftrightarrow>
     (\<forall>j < i. tok_kind (ts ! j) = K_LOADER \<and> direct_binding ts j \<longrightarrow> tok_value (ts ! j) \<in> tainted)"

definition unshadowed_call :: "token list \<Rightarrow> loader_occurrence \<Rightarrow> bool" where
  "unshadowed_call ts occ \<longleftrightarrow>
     (\<exists>i < length ts. tok_kind (ts ! i) = K_LOADER \<and> occurrence_of (ts ! i) occ
        \<and> \<not> qualified_or_hash_prefixed ts i \<and> call_position ts i (tok_value (ts ! i))
        \<and> (\<forall>j \<le> i. tok_kind (ts ! j) = K_LOADER \<and> tok_value (ts ! j) = tok_value (ts ! i)
              \<longrightarrow> \<not> direct_binding ts j)
        \<and> literal_of ts i occ)"

lemma classify_loader_sound:
  assumes c: "classify_loader L ts opened tainted i = (Some occ, taint)"
    and lit: "occ_outcome occ = O_literal" and k: "tok_kind (ts ! i) = K_LOADER"
    and i: "i < length ts" and t: "tainted_by ts i tainted"
  shows "unshadowed_call ts occ"
proof -
  from c lit have n: "\<not> direct_binding ts i" "\<not> qualified_or_hash_prefixed ts i"
    "call_position ts i (tok_value (ts ! i))" "tok_value (ts ! i) \<notin> tainted"
    by (auto simp: classify_loader_def Let_def split: if_split_asm prod.splits)
  from c lit n have l: "literal_of ts i occ"
    using classify_artifact_call_literal [of L ts i]
    by (auto simp: classify_loader_def Let_def split: if_split_asm prod.splits
        dest: classify_source_call_literal)
  have "occurrence_of (ts ! i) occ" using classify_loader_some [of ts i L opened tainted] n(1) c by auto
  moreover have "\<forall>j \<le> i. tok_kind (ts ! j) = K_LOADER \<and> tok_value (ts ! j) = tok_value (ts ! i)
      \<longrightarrow> \<not> direct_binding ts j"
    using t n(1,4) by (metis le_neq_implies_less tainted_by_def)
  ultimately show ?thesis
    using n l k i unfolding unshadowed_call_def by blast
qed

lemma classify_loader_taints:
  "classify_loader L ts opened tainted i = (oc, taint) \<Longrightarrow> direct_binding ts i \<Longrightarrow> taint"
  by (auto simp: classify_loader_def Let_def split: if_split_asm)

lemma tainted_by_Suc:
  "tainted_by ts i tainted \<Longrightarrow> (tok_kind (ts ! i) = K_LOADER \<Longrightarrow> direct_binding ts i
     \<Longrightarrow> tok_value (ts ! i) \<in> tainted') \<Longrightarrow> tainted \<subseteq> tainted' \<Longrightarrow> tainted_by ts (Suc i) tainted'"
  unfolding tainted_by_def by (auto simp: less_Suc_eq)

lemma classify_loop_sound:
  "m \<le> length ts \<Longrightarrow> tainted_by ts m tainted
     \<Longrightarrow> \<forall>occ \<in> set occs. occ_outcome occ = O_literal \<longrightarrow> unshadowed_call ts occ
     \<Longrightarrow> occ \<in> set (classify_loop L ts opened [m..<length ts] tainted occs)
     \<Longrightarrow> occ_outcome occ = O_literal \<Longrightarrow> unshadowed_call ts occ"
proof (induction "length ts - m" arbitrary: m tainted occs)
  case 0
  then show ?case by simp
next
  case (Suc d)
  then have m: "m < length ts" and u: "[m..<length ts] = m # [Suc m..<length ts]"
    by (simp_all add: upt_conv_Cons)
  have d: "d = length ts - Suc m" using Suc.hyps(2) by simp
  have le: "Suc m \<le> length ts" using m by simp
  show ?case
  proof (cases "tok_kind (ts ! m) = K_LOADER")
    case False
    have "tainted_by ts (Suc m) tainted" by (rule tainted_by_Suc [OF Suc.prems(2)]) (simp_all add: False)
    from Suc.hyps(1) [OF d le this Suc.prems(3)] Suc.prems(4,5) u False show ?thesis by simp
  next
    case True
    obtain oc taint where c: "classify_loader L ts opened tainted m = (oc, taint)" by fastforce
    let ?t = "if taint then insert (tok_value (ts ! m)) tainted else tainted"
    let ?o = "case oc of None \<Rightarrow> occs | Some x \<Rightarrow> occs @ [x]"
    have t: "tainted_by ts (Suc m) ?t"
      by (rule tainted_by_Suc [OF Suc.prems(2)]) (auto dest: classify_loader_taints [OF c])
    have o: "\<forall>occ \<in> set ?o. occ_outcome occ = O_literal \<longrightarrow> unshadowed_call ts occ"
      using Suc.prems(3) classify_loader_sound [OF _ _ True m Suc.prems(2)] c
      by (auto split: option.split)
    from Suc.hyps(1) [OF d le t o] Suc.prems(4,5) u True c show ?thesis by simp
  qed
qed

lemma uncaptured_occurrence_outcome:
  "uncaptured_occurrence E L ts i = Some occ \<Longrightarrow> occ_outcome occ = O_dynamic"
  unfolding uncaptured_occurrence_def Let_def
  by (auto split: option.split_asm if_split_asm)

lemma uncaptured_outcome:
  "occ \<in> set (uncaptured_execution_occurrences E L ts) \<Longrightarrow> occ_outcome occ = O_dynamic"
  by (auto simp: uncaptured_execution_occurrences_def List.map_filter_def
      intro: uncaptured_occurrence_outcome)

lemma token_literal_digest:
  assumes "tokenize E (mk_lexer source tx) = Inr toks" "tk \<in> set toks" "tok_literal tk = Some lit"
  shows "raw_sha256 lit = py_sha256 E (bytes_from (lit_span lit) source)"
  using tokenize_inv [OF assms(1)] assms(2,3)
  by (auto simp: lex_inv_def list_all_iff token_ok_def)

text \<open>C3: a literal occurrence is what the source says: it stands at an unqualified loader token in
  call position, no earlier token of the file rebinds that loader, and its path is the value of a
  later string literal of the same file, free of NUL, decoding exactly to the reported path, with the
  digest of exactly the literal's source bytes.\<close>

theorem literal_occurrence_sound:
  assumes "scan_ocaml_loaders E source = Some r" and "occ \<in> set (scan_occurrences r)"
    and "occ_outcome occ = O_literal"
  shows "\<exists>L toks i k lit p. source_tokens E source = Some (L, toks) \<and> i < k \<and> k < length toks
    \<and> tok_kind (toks ! i) = K_LOADER \<and> occ_loader occ = tok_value (toks ! i)
    \<and> occ_loader_span occ = tok_span (toks ! i)
    \<and> \<not> qualified_or_hash_prefixed toks i \<and> call_position toks i (tok_value (toks ! i))
    \<and> (\<forall>j \<le> i. tok_kind (toks ! j) = K_LOADER \<and> tok_value (toks ! j) = tok_value (toks ! i)
          \<longrightarrow> \<not> direct_binding toks j)
    \<and> tok_literal (toks ! k) = Some lit \<and> occ_path_literal occ = Some lit
    \<and> occ_path occ = Some p \<and> utf8_encode p = value_bytes lit \<and> 0 \<notin> set (value_bytes lit)
    \<and> raw_sha256 lit = py_sha256 E (bytes_from (lit_span lit) source)"
proof -
  have "scan_status r = S_ok"
    using assms by (cases rule: scan_ocaml_loaders_cases [where E = E and source = source]) auto
  from scan_ok_tokens [OF assms(1) this] obtain tx toks opened where
    st: "source_tokens E source = Some (mk_lexer source tx, toks)"
    and tk: "tokenize E (mk_lexer source tx) = Inr toks"
    and occs: "scan_occurrences r = sort_key (\<lambda>occ. sp_start (occ_loader_span occ))
       (classify_loop (mk_lexer source tx) toks opened [0..<length toks] {}
          (uncaptured_execution_occurrences E (mk_lexer source tx) toks))" by metis
  have "unshadowed_call toks occ"
  proof (rule classify_loop_sound [where m = 0 and tainted = "{}"])
    show "occ \<in> set (classify_loop (mk_lexer source tx) toks opened [0..<length toks] {}
          (uncaptured_execution_occurrences E (mk_lexer source tx) toks))"
      using assms(2) occs by simp
  qed (use assms(3) in \<open>auto simp: tainted_by_def dest: uncaptured_outcome\<close>)
  then obtain i k lit p where i: "tok_kind (toks ! i) = K_LOADER" "occurrence_of (toks ! i) occ"
    "\<not> qualified_or_hash_prefixed toks i" "call_position toks i (tok_value (toks ! i))"
    "\<forall>j \<le> i. tok_kind (toks ! j) = K_LOADER \<and> tok_value (toks ! j) = tok_value (toks ! i)
          \<longrightarrow> \<not> direct_binding toks j"
    and k: "i < k" "k < length toks" "tok_literal (toks ! k) = Some lit"
      "occ_path_literal occ = Some lit" "occ_path occ = Some p"
      "utf8_encode p = value_bytes lit" "0 \<notin> set (value_bytes lit)"
    unfolding unshadowed_call_def literal_of_def by blast
  have "raw_sha256 lit = py_sha256 E (bytes_from (lit_span lit) source)"
    using token_literal_digest [OF tk _ k(3)] k(2) by simp
  with st i k show ?thesis unfolding occurrence_of_def by blast
qed

lemma literal_occurrence_sound_witness:
  "\<exists>lit p. occ_path_literal (scan_occurrences sample_result ! 0) = Some lit
     \<and> utf8_encode p = value_bytes lit \<and> 0 \<notin> set (value_bytes lit)"
  using literal_occurrence_sound [OF sample_scan sample_first] by blast

section \<open>Uncaptured execution\<close>

lemma uncaptured_in_scan:
  assumes "scan_ocaml_loaders E source = Some r" "scan_status r = S_ok"
    and "source_tokens E source = Some (L, toks)" "i < length toks"
    and "uncaptured_occurrence E L toks i = Some occ"
  shows "occ \<in> set (scan_occurrences r)"
proof -
  from scan_ok_tokens [OF assms(1,2)] assms(3) obtain opened where
    "scan_occurrences r = sort_key (\<lambda>occ. sp_start (occ_loader_span occ))
       (classify_loop L toks opened [0..<length toks] {} (uncaptured_execution_occurrences E L toks))"
    by (metis (no_types, lifting) option.inject prod.inject)
  moreover have "occ \<in> set (uncaptured_execution_occurrences E L toks)"
    using assms(4,5) unfolding uncaptured_execution_occurrences_def List.map_filter_def
    by (auto simp: image_iff intro!: bexI [of _ i])
  ultimately show ?thesis
    using classify_loop_mono [of "uncaptured_execution_occurrences E L toks" L toks opened] by auto
qed

text \<open>The values of the toplevel that execute a file or change the directory files are loaded
  from, written out as pairs of a module and its value.\<close>

definition file_executors :: "(string \<times> string) list" where
  "file_executors =
     [(''Hol_loader'', ''file_loader''), (''Hol_loader'', ''use_file''), (''Hol_loader'', ''load_on_path''),
      (''Toploop'', ''use_file''), (''Toploop'', ''use_silently''), (''Toploop'', ''use_output''),
      (''Toploop'', ''use_module''), (''Topdirs'', ''dir_use''), (''Topdirs'', ''dir_mod_use''),
      (''Topdirs'', ''dir_load''), (''Topdirs'', ''dir_load_rec''), (''Topdirs'', ''dir_cd''),
      (''Topdirs'', ''dir_directory''), (''Topdirs'', ''dir_remove_directory''),
      (''Dynlink'', ''loadfile''), (''Dynlink'', ''loadfile_private''), (''Sys'', ''chdir''),
      (''Unix'', ''chdir''), (''Unix'', ''fchdir'')]"

definition executor_module :: "ucs \<Rightarrow> bool" where
  "executor_module m \<longleftrightarrow> (\<exists>(md, f) \<in> set file_executors. m = asc md)"

text \<open>The module named at token \<open>i\<close> is only used for one of its other values: a dot and an
  identifier follow that is no module name and no file executor of the module
  (\<open>Sys.getcwd\<close>, \<open>Toploop.execute_phrase\<close>).\<close>

definition harmless_use :: "pyenv \<Rightarrow> token list \<Rightarrow> nat \<Rightarrow> bool" where
  "harmless_use E toks i \<longleftrightarrow>
     i + 2 < length toks \<and> tok_value (toks ! (i + 1)) = asc ''.''
     \<and> tok_kind (toks ! (i + 2)) \<in> {K_IDENT, K_RAW_IDENT}
     \<and> \<not> py_isupper E (hd (tok_value (toks ! (i + 2))))
     \<and> \<not> (\<exists>(md, f) \<in> set file_executors.
            tok_value (toks ! i) = asc md \<and> tok_value (toks ! (i + 2)) = asc f)"

lemma asc_inj: "asc s = asc t \<longleftrightarrow> s = t"
  by (simp add: asc_def list_eq_iff_nth_eq) (metis nth_map of_char_eq_iff)

lemma uncaptured_members_spec:
  "(uncaptured_members m = None \<longleftrightarrow> \<not> executor_module m)
   \<and> (uncaptured_members m = Some ms
        \<longrightarrow> (\<forall>v. v \<in> set ms \<longleftrightarrow> (\<exists>(md, f) \<in> set file_executors. m = asc md \<and> v = asc f)))"
  by (auto simp: uncaptured_members_def executor_module_def file_executors_def asc_inj
      split: if_split_asm)

lemma file_loader_names:
  "v \<in> asc ` {''file_loader'', ''use_file'', ''load_on_path''}
     \<Longrightarrow> uncaptured_members v = None \<and> v \<in> set uncaptured_global \<and> v \<notin> set uncaptured_directives"
  by (auto simp: uncaptured_members_def uncaptured_global_def uncaptured_directives_def asc_inj)

lemma directive_names:
  "v \<in> asc ` {''mod_use'', ''load_rec'', ''cd'', ''directory'', ''remove_directory''}
     \<Longrightarrow> uncaptured_members v = None \<and> v \<in> set uncaptured_directives"
  by (auto simp: uncaptured_members_def uncaptured_directives_def asc_inj)

lemma identifier_token_nonempty:
  assumes "source_tokens E source = Some (L, toks)" and "tk \<in> set toks"
    and "tok_kind tk \<in> {K_IDENT, K_RAW_IDENT}"
  shows "tok_value tk \<noteq> []"
proof -
  have "tokenize E L = Inr toks"
    using assms(1) by (auto simp: source_tokens_def Let_def split: sum.splits)
  from tokenize_inv [OF this] assms(2,3) show ?thesis
    by (auto simp: lex_inv_def list_all_iff token_ok_def)
qed

lemma qualified_member_spec:
  assumes "source_tokens E source = Some (L, toks)"
    and "uncaptured_members (tok_value (toks ! i)) = Some ms"
  shows "(\<exists>mb. qualified_member E toks i = Some mb \<and> tok_value mb \<notin> set ms)
           \<longleftrightarrow> harmless_use E toks i"
proof -
  have "starts_upper E (tok_value (toks ! (i + 2))) = py_isupper E (hd (tok_value (toks ! (i + 2))))"
    if "i + 2 < length toks" "tok_kind (toks ! (i + 2)) \<in> {K_IDENT, K_RAW_IDENT}"
    using identifier_token_nonempty [OF assms(1) _ that(2)] that(1)
    by (auto simp: starts_upper_def neq_Nil_conv)
  then show ?thesis
    using uncaptured_members_spec [of "tok_value (toks ! i)" ms] assms(2)
    by (auto simp: qualified_member_def harmless_use_def)
qed

lemma uncaptured_occurrence_start:
  assumes "source_tokens E source = Some (L, toks)"
    and "uncaptured_occurrence E L toks i = Some occ"
  shows "sp_start (occ_loader_span occ) = sp_start (tok_span (toks ! i))
           \<and> tok_kind (toks ! i) \<in> {K_IDENT, K_RAW_IDENT}
           \<and> \<not> (executor_module (tok_value (toks ! i)) \<and> harmless_use E toks i)
         \<or> i > 0 \<and> tok_value (toks ! (i - 1)) = asc ''#''
           \<and> sp_start (occ_loader_span occ) = sp_start (tok_span (toks ! (i - 1)))"
  using assms(2) uncaptured_members_spec [of "tok_value (toks ! i)"]
    qualified_member_spec [OF assms(1), of i]
  by (auto simp: uncaptured_occurrence_def Let_def mk_token_def split: option.splits if_splits)

lemma classify_loader_origin:
  "classify_loader L ts opened tainted i = (Some occ, taint) \<Longrightarrow> occurrence_of (ts ! i) occ"
  using classify_artifact_call_span [of L ts i]
  by (auto simp: classify_loader_def Let_def occurrence_of_def
      dest: classify_source_call_span split: prod.splits if_splits)
    (metis loader_family.exhaust)

lemma classify_loop_origin:
  "occ \<in> set (classify_loop L ts opened is tainted occs)
     \<Longrightarrow> occ \<in> set occs \<or> (\<exists>i \<in> set is. tok_kind (ts ! i) = K_LOADER \<and> occurrence_of (ts ! i) occ)"
proof (induction "is" arbitrary: tainted occs)
  case Nil
  then show ?case by simp
next
  case (Cons k ks)
  obtain oc taint where c: "classify_loader L ts opened tainted k = (oc, taint)" by fastforce
  show ?case
  proof (cases "tok_kind (ts ! k) = K_LOADER")
    case False
    then show ?thesis using Cons by auto
  next
    case True
    have "occ \<in> set (case oc of None \<Rightarrow> occs | Some x \<Rightarrow> occs @ [x])
        \<or> (\<exists>i \<in> set ks. tok_kind (ts ! i) = K_LOADER \<and> occurrence_of (ts ! i) occ)"
      using Cons.prems True c by (intro Cons.IH) (simp split: if_splits)
    then show ?thesis
      using True classify_loader_origin [OF c [THEN trans]] c
      by (cases oc) (auto dest: classify_loader_origin)
  qed
qed

lemma token_starts_distinct:
  assumes "source_tokens E source = Some (L, toks)" "i < length toks" "j < length toks"
    and "sp_start (tok_span (toks ! i)) = sp_start (tok_span (toks ! j))"
  shows "i = j"
proof -
  have "sp_start (tok_span (toks ! a)) < sp_start (tok_span (toks ! b))"
    if "a < b" "b < length toks" for a b
    using source_tokens_ordered [OF assms(1)] that
    by (meson dual_order.strict_trans nth_mem order_less_le_trans sorted_wrt_nth_less)
  with assms(2-4) show ?thesis by (metis nat_neq_iff)
qed

lemma harmless_use_not_reported:
  assumes "scan_ocaml_loaders E source = Some r" "scan_status r = S_ok"
    and st: "source_tokens E source = Some (L, toks)" and i: "i < length toks"
    and k: "tok_kind (toks ! i) \<in> {K_IDENT, K_RAW_IDENT}"
    and h: "executor_module (tok_value (toks ! i))" "harmless_use E toks i"
    and occ: "occ \<in> set (scan_occurrences r)"
  shows "sp_start (occ_loader_span occ) \<noteq> sp_start (tok_span (toks ! i))"
proof
  assume eq: "sp_start (occ_loader_span occ) = sp_start (tok_span (toks ! i))"
  note same = token_starts_distinct [OF st i]
  from scan_ok_tokens [OF assms(1,2)] st obtain opened where
    "scan_occurrences r = sort_key (\<lambda>occ. sp_start (occ_loader_span occ))
       (classify_loop L toks opened [0..<length toks] {} (uncaptured_execution_occurrences E L toks))"
    by (metis (no_types, lifting) option.inject prod.inject)
  with occ consider
      (unc) "occ \<in> set (uncaptured_execution_occurrences E L toks)"
    | (ldr) j where "j < length toks" "tok_kind (toks ! j) = K_LOADER" "occurrence_of (toks ! j) occ"
    using classify_loop_origin [of occ L toks opened] by fastforce
  then show False
  proof cases
    case ldr
    then show ?thesis using same [of j] eq k by (auto simp: occurrence_of_def)
  next
    case unc
    then obtain j where j: "j < length toks" "uncaptured_occurrence E L toks j = Some occ"
      by (auto simp: uncaptured_execution_occurrences_def List.map_filter_def)
    have "tok_value (toks ! i) \<noteq> asc ''#''"
      using h(1) by (auto simp: executor_module_def file_executors_def asc_inj)
    with uncaptured_occurrence_start [OF st j(2)] same [of j] same [of "j - 1"] eq h j(1)
    show ?thesis by auto
  qed
qed

text \<open>C4: nothing executes a file past the package: in an accepted source, an identifier token that is
  the name of one of HOL's own file loaders, or the name of a module with a file executor, is reported
  as a dynamic occurrence that starts at that token, unless the module is only used for another of
  its values. Such a harmless use (\<open>Sys.getcwd\<close>) is not reported. A directive that executes a file
  or changes the directory is reported from its \<open>#\<close> on.\<close>

theorem uncaptured_execution_reported:
  assumes "scan_ocaml_loaders E source = Some r" and "scan_status r = S_ok"
    and "source_tokens E source = Some (L, toks)" and "i < length toks"
    and "tok_kind (toks ! i) \<in> {K_IDENT, K_RAW_IDENT}"
  shows
    "(tok_value (toks ! i) \<in> asc ` {''file_loader'', ''use_file'', ''load_on_path''}
        \<or> executor_module (tok_value (toks ! i)) \<and> \<not> harmless_use E toks i
      \<longrightarrow> (\<exists>occ \<in> set (scan_occurrences r). occ_outcome occ = O_dynamic \<and> occ_family occ = F_source
            \<and> sp_start (occ_loader_span occ) = sp_start (tok_span (toks ! i))))
     \<and> (executor_module (tok_value (toks ! i)) \<and> harmless_use E toks i
      \<longrightarrow> (\<forall>occ \<in> set (scan_occurrences r).
            sp_start (occ_loader_span occ) \<noteq> sp_start (tok_span (toks ! i))))
     \<and> (i > 0 \<and> tok_value (toks ! (i - 1)) = asc ''#''
        \<and> tok_value (toks ! i) \<in> asc ` {''mod_use'', ''load_rec'', ''cd'', ''directory'', ''remove_directory''}
      \<longrightarrow> (\<exists>occ \<in> set (scan_occurrences r). occ_outcome occ = O_dynamic \<and> occ_family occ = F_source
            \<and> sp_start (occ_loader_span occ) = sp_start (tok_span (toks ! (i - 1)))))"
    (is "(?named \<longrightarrow> ?reported i) \<and> _ \<and> (?directive \<longrightarrow> ?reported (i - 1))")
proof (intro conjI impI)
  have "\<exists>occ. uncaptured_occurrence E L toks i = Some occ \<and> occ_outcome occ = O_dynamic
      \<and> occ_family occ = F_source
      \<and> sp_start (occ_loader_span occ) = sp_start (tok_span (toks ! i))" if ?named
    using that
  proof
    assume "executor_module (tok_value (toks ! i)) \<and> \<not> harmless_use E toks i"
    then show ?thesis
      using assms(5) uncaptured_members_spec [of "tok_value (toks ! i)"]
        qualified_member_spec [OF assms(3), of i]
      by (auto simp: uncaptured_occurrence_def Let_def mk_token_def split: option.splits)
  qed (use assms(5) file_loader_names [of "tok_value (toks ! i)"] in
        \<open>auto simp: uncaptured_occurrence_def Let_def\<close>)
  with uncaptured_in_scan [OF assms(1-4)] show "?reported i" if ?named using that by blast
  have "\<exists>occ. uncaptured_occurrence E L toks i = Some occ \<and> occ_outcome occ = O_dynamic
      \<and> occ_family occ = F_source
      \<and> sp_start (occ_loader_span occ) = sp_start (tok_span (toks ! (i - 1)))" if ?directive
    using assms(5) that directive_names [of "tok_value (toks ! i)"]
    by (auto simp: uncaptured_occurrence_def Let_def mk_token_def)
  with uncaptured_in_scan [OF assms(1-4)] show "?reported (i - 1)" if ?directive using that by blast
qed (use harmless_use_not_reported [OF assms] in blast)

lemma uncaptured_execution_reported_witness:
  "\<exists>occ \<in> set (scan_occurrences sample_result). occ_outcome occ = O_dynamic
     \<and> sp_start (occ_loader_span occ) = sp_start (tok_span (sample_tokens ! 3))"
  using uncaptured_execution_reported [OF sample_facts(1-3), of 3] by (auto simp: sample_nth)

end
