(* ===== verification/Loader_Phrases.thy ===== *)
theory Loader_Phrases
  imports Loader_Properties
begin

text \<open>
  Line numbers and prove bindings of \<open>hol_workbench/proofs/loader_scan.py\<close>: the two line counters
  agree, and \<open>scan_prove_bindings\<close> returns disjoint, ordered bindings with distinct names whose
  statement and tactic spans lie inside the binding.
\<close>

section \<open>Line numbers\<close>

lemma line_starts_from_sorted:
  "sorted (line_starts_from source i) \<and> (\<forall>x \<in> set (line_starts_from source i). i < x)"
proof (induction source i rule: line_starts_from.induct)
  case (1 source i)
  show ?case
  proof (cases "i < length source")
    case False
    then show ?thesis by (simp add: line_starts_from.simps [of source i])
  next
    case True
    let ?j = "if i + 1 < length source \<and> source ! (i + 1) = byte_lf then i + 1 else i"
    consider "source ! i = byte_cr" | "source ! i \<noteq> byte_cr" "source ! i = byte_lf"
      | "source ! i \<noteq> byte_cr" "source ! i \<noteq> byte_lf" by blast
    then show ?thesis
    proof cases
      case 1
      with "1.IH"(1) [OF True 1 refl] True show ?thesis
        by (subst (1 2) line_starts_from.simps) (force simp: Let_def)
    next
      case 2
      with "1.IH"(2) [OF True 2] True show ?thesis
        by (subst (1 2) line_starts_from.simps) force
    next
      case 3
      with "1.IH"(3) [OF True 3] True show ?thesis
        by (subst (1 2) line_starts_from.simps) force
    qed
  qed
qed

definition splits_crlf :: "bytes \<Rightarrow> nat \<Rightarrow> bool" where
  "splits_crlf source k \<longleftrightarrow>
     0 < k \<and> k < length source \<and> source ! (k - 1) = byte_cr \<and> source ! k = byte_lf"

lemma count_lines_starts:
  assumes "\<not> splits_crlf source stop" and "stop \<le> length source"
  shows "i \<le> stop \<Longrightarrow> count_lines source stop i line
           = line + length (filter (\<lambda>p. p \<le> stop) (line_starts_from source i))"
proof (induction "stop - i" arbitrary: i line rule: less_induct)
  case less
  show ?case
  proof (cases "i < stop")
    case False
    have "filter (\<lambda>p. p \<le> stop) (line_starts_from source i) = []"
      using line_starts_from_sorted [of source i] False less.prems by (auto simp: filter_empty_conv)
    then show ?thesis using False by (simp add: count_lines.simps)
  next
    case True
    define j where "j = (if i + 1 < stop \<and> source ! (i + 1) = byte_lf then i + 1 else i)"
    have j: "source ! i = byte_cr \<Longrightarrow>
        (if i + 1 < length source \<and> source ! (i + 1) = byte_lf then i + 1 else i) = j"
      using assms True by (cases "i + 1 = stop") (auto simp: j_def splits_crlf_def)
    have jb: "j < stop" "i \<le> j" using True by (auto simp: j_def)
    have n: "i < length source" using True assms(2) by simp
    show ?thesis
    proof (cases "source ! i = byte_cr")
      case cr: True
      have "count_lines source stop i line = count_lines source stop (j + 1) (line + 1)"
        using True cr by (subst count_lines.simps) (simp add: Let_def j_def)
      moreover have "line_starts_from source i = (j + 1) # line_starts_from source (j + 1)"
        using n cr j [OF cr] by (subst line_starts_from.simps) (simp add: Let_def)
      ultimately show ?thesis using less.hyps [of "j + 1" "line + 1"] jb by simp
    next
      case ncr: False
      show ?thesis
        using True ncr n less.hyps [of "i + 1"]
        by (subst count_lines.simps, subst line_starts_from.simps) simp
    qed
  qed
qed

lemma sorted_takeWhile_filter:
  "sorted xs \<Longrightarrow> takeWhile (\<lambda>y. y \<le> (k :: nat)) xs = filter (\<lambda>y. y \<le> k) xs"
  by (induction xs) (auto simp: filter_empty_conv eq_commute [of "[]"])

text \<open>The line table of the lexer and the counter used before a lexer exists give the same line
  for every offset that does not split a CR-LF pair, which no refused or reported offset does.\<close>

theorem line_lookup_agrees:
  assumes "offset \<le> length source" and "\<not> splits_crlf source offset"
  shows "line_for_byte (mk_lexer source tx) offset = line_number_for_offset source offset"
  using assms line_starts_from_sorted [of source 0] count_lines_starts [OF assms(2,1), of 0 1]
  by (simp add: line_for_byte_def bisect_right_def mk_lexer_def line_number_for_offset_def
      sorted_takeWhile_filter)

lemma line_lookup_agrees_witness:
  "line_for_byte (mk_lexer [0x61, 0x0D, 0x0A, 0x62] []) 3 = 2"
proof -
  have "\<not> splits_crlf [0x61, 0x0D, 0x0A, 0x62] 3" by code_simp
  moreover have "line_number_for_offset [0x61, 0x0D, 0x0A, 0x62] 3 = 2" by code_simp
  ultimately show ?thesis
    using line_lookup_agrees [of 3 "[0x61, 0x0D, 0x0A, 0x62]" "[]"] by simp
qed

section \<open>Prove bindings\<close>

lemma phrases_from_split:
  "phrases_from ts phrases phrase b d = Some (Some ps)
     \<Longrightarrow> \<exists>rest. concat phrases @ phrase @ ts = concat ps @ rest"
proof (induction ts arbitrary: phrases phrase b d)
  case Nil
  then show ?case by (auto split: if_splits)
next
  case (Cons tk ts)
  have IH: "phrases_from ts ps' p' b' d' = Some (Some ps)
      \<Longrightarrow> concat ps' @ p' @ ts = concat phrases @ phrase @ tk # ts
      \<Longrightarrow> \<exists>rest. concat phrases @ phrase @ tk # ts = concat ps @ rest" for ps' p' b' d'
    using Cons.IH [of ps' p' b' d'] by metis
  from Cons.prems show ?case by (auto simp: Let_def split: if_split_asm dest!: IH)
qed

lemma sorted_wrt_concat:
  "sorted_wrt R (concat ps) \<Longrightarrow> sorted_wrt (\<lambda>p q. \<forall>a \<in> set p. \<forall>b \<in> set q. R a b) ps
     \<and> (\<forall>p \<in> set ps. sorted_wrt R p)"
  by (induction ps) (auto simp: sorted_wrt_append)

lemma sorted_wrt_map_filter:
  "sorted_wrt P xs \<Longrightarrow> (\<And>x y a b. x \<in> set xs \<Longrightarrow> y \<in> set xs \<Longrightarrow> P x y \<Longrightarrow> f x = Some a
     \<Longrightarrow> f y = Some b \<Longrightarrow> Q a b) \<Longrightarrow> sorted_wrt Q (List.map_filter f xs)"
proof (induction xs)
  case Nil
  then show ?case by (simp add: List.map_filter_def)
next
  case (Cons x xs)
  then have "sorted_wrt Q (List.map_filter f xs)" by auto
  moreover have "Q a b" if "f x = Some a" "b \<in> set (List.map_filter f xs)" for a b
  proof -
    from that(2) obtain y where "y \<in> set xs" "f y = Some b" by (auto simp: List.map_filter_def)
    with that(1) Cons.prems(1) show ?thesis by (intro Cons.prems(2) [of x y]) simp_all
  qed
  ultimately show ?case by (cases "f x") (simp_all add: List.map_filter_def)
qed

subsection \<open>Header names\<close>

definition binds_name :: "ucs \<Rightarrow> token list \<Rightarrow> bool" where
  "binds_name nm p \<longleftrightarrow>
     3 \<le> length p \<and> is_word (p ! 0) K_IDENT [''let''] \<and> tok_kind (p ! 1) = K_IDENT
       \<and> tok_value (p ! 1) = nm \<and> tok_value (p ! 2) = asc ''=''"

definition plain_name :: "ucs \<Rightarrow> bool" where
  "plain_name nm \<longleftrightarrow> nm \<notin> {asc ''let'', asc ''and'', asc ''=''}"

lemma header_names_plain:
  "nm \<in> set (header_names ts cur) \<Longrightarrow> (\<And>names. cur = Some names \<Longrightarrow> \<forall>x \<in> set names. plain_name x)
     \<Longrightarrow> plain_name nm"
  by (induction ts cur rule: header_names.induct)
     (auto simp: is_word_def plain_name_def split: if_split_asm option.split_asm)

lemma header_names_append:
  "\<exists>pre cur'. \<forall>ys. header_names (xs @ ys) cur = pre @ header_names ys cur'"
proof (induction xs cur rule: header_names.induct)
  case (1 cur)
  show ?case by (intro exI [of _ "[]"] exI [of _ cur]) simp
next
  case (2 tk tks cur)
  show ?case
  proof (cases "is_word tk K_IDENT [''let'', ''and'']")
    case True
    with 2 show ?thesis by simp
  next
    case nlet: False
    show ?thesis
    proof (cases cur)
      case None
      with nlet 2 show ?thesis by simp
    next
      case (Some names)
      show ?thesis
      proof (cases "tok_value tk = asc ''='' \<or> tok_kind tk = K_SEMISEMI")
        case True
        from "2.IH"(3) [OF nlet Some True] obtain pre cur' where
          "\<forall>ys. header_names (tks @ ys) None = pre @ header_names ys cur'" by blast
        with nlet Some True show ?thesis
          by (intro exI [of _ "names @ pre"] exI [of _ cur']) simp
      next
        case False
        with "2.IH"(4,5) nlet Some show ?thesis by (cases "tok_kind tk = K_IDENT") simp_all
      qed
    qed
  qed
qed

lemma header_names_phrase:
  assumes "binds_name nm p" and "plain_name nm"
  shows "\<exists>pre cur'. \<forall>ys. header_names (p @ ys) cur = nm # pre @ header_names ys cur'"
proof -
  from assms(1) obtain a b c q where p: "p = a # b # c # q"
    by (auto simp: binds_name_def numeral_eq_Suc Suc_le_length_iff)
  have lets: "is_word a K_IDENT [''let'', ''and'']" "\<not> is_word b K_IDENT [''let'', ''and'']"
    "tok_kind b = K_IDENT" "tok_value b = nm" "tok_value c = asc ''=''"
    using assms p by (auto simp: binds_name_def is_word_def plain_name_def)
  have "\<not> is_word c K_IDENT [''let'', ''and'']"
    using lets by (auto simp: is_word_def asc_def)
  with lets assms(2) have "header_names (p @ ys) cur = nm # header_names (q @ ys) None" for ys
    by (simp add: p plain_name_def)
  with header_names_append [of q None] show ?thesis by auto
qed

lemma name_count_phrases:
  assumes "plain_name nm"
  shows "length (filter (binds_name nm) ps) \<le> count_list (header_names (concat ps @ rest) cur) nm"
proof (induction ps arbitrary: cur)
  case Nil
  then show ?case by simp
next
  case (Cons p ps)
  show ?case
  proof (cases "binds_name nm p")
    case True
    from header_names_phrase [OF True assms] obtain pre cur' where
      "header_names (p @ concat ps @ rest) cur = nm # pre @ header_names (concat ps @ rest) cur'"
      by blast
    with True Cons.IH [of cur'] show ?thesis by simp
  next
    case False
    from header_names_append [of p cur] obtain pre cur' where
      "header_names (p @ concat ps @ rest) cur = pre @ header_names (concat ps @ rest) cur'" by blast
    with False Cons.IH [of cur'] show ?thesis by simp
  qed
qed

lemma sorted_wrt_at_most_one:
  "length (filter P xs) \<le> 1 \<Longrightarrow> sorted_wrt (\<lambda>x y. \<not> (P x \<and> P y)) xs"
  by (induction xs) (auto simp: filter_empty_conv split: if_split_asm)

lemma unique_names_phrases:
  assumes "toks = concat ps @ rest"
  shows "sorted_wrt (\<lambda>p q. \<not> (binds_name nm p \<and> binds_name nm q \<and> name_count toks nm = 1)) ps"
proof (cases "name_count toks nm = 1")
  case True
  then have "nm \<in> set (header_names toks None)"
    by (metis count_notin name_count_def zero_neq_one)
  then have "plain_name nm" by (auto dest: header_names_plain)
  from name_count_phrases [OF this, of ps rest None] True assms
  have "length (filter (binds_name nm) ps) \<le> 1" by (simp add: name_count_def)
  from sorted_wrt_at_most_one [OF this] show ?thesis by (rule sorted_wrt_mono_rel [rotated]) auto
qed simp

subsection \<open>Candidates\<close>

lemma prove_candidateD:
  assumes "prove_candidate L toks p = Some pb"
  shows "binds_name (pb_name pb) p \<and> name_count toks (pb_name pb) = 1
    \<and> pb_binding_span pb = \<lparr>sp_start = sp_start (tok_span (p ! 0)), sp_end = sp_end (tok_span (last p))\<rparr>
    \<and> (\<exists>i c. i + 3 < c \<and> c + 2 = length p
          \<and> tok_kind (p ! (i + 1)) = K_HOL \<and> pb_statement_span pb = tok_span (p ! (i + 1))
          \<and> pb_tactic_span pb = \<lparr>sp_start = sp_end (tok_span (p ! (i + 2))),
                                sp_end = sp_start (tok_span (p ! c))\<rparr>)"
proof -
  let ?i = "prove_index p + 1"
  from assms have h: "prove_header toks p" by (auto simp: prove_candidate_def split: if_split_asm)
  with assms obtain c where c: "c = length p - 2" "slice p (?i + 3) c \<noteq> []"
    and pb: "pb = \<lparr>pb_name = tok_value (p ! 1),
       pb_binding_span = \<lparr>sp_start = sp_start (tok_span (p ! 0)), sp_end = sp_end (tok_span (last p))\<rparr>,
       pb_statement_span = tok_span (p ! (?i + 1)),
       pb_tactic_span = \<lparr>sp_start = sp_end (tok_span (p ! (?i + 2))), sp_end = sp_start (tok_span (p ! c))\<rparr>,
       pb_source_line = line_for_byte L (sp_start (tok_span (p ! 0)))\<rparr>"
    by (auto simp: prove_candidate_def Let_def split: if_split_asm option.split_asm)
  from h have n: "10 \<le> length p" by (simp add: prove_header_def)
  have b: "?i + 3 < c" "c + 2 = length p" using c n by (auto simp: slice_def)
  have k: "tok_kind (p ! (?i + 1)) = K_HOL" using h by (simp add: prove_header_def)
  have "binds_name (pb_name pb) p" "name_count toks (pb_name pb) = 1"
    using h n by (auto simp: pb prove_header_def binds_name_def is_word_def)
  moreover have "\<exists>i c. i + 3 < c \<and> c + 2 = length p
          \<and> tok_kind (p ! (i + 1)) = K_HOL \<and> pb_statement_span pb = tok_span (p ! (i + 1))
          \<and> pb_tactic_span pb = \<lparr>sp_start = sp_end (tok_span (p ! (i + 2))),
                                sp_end = sp_start (tok_span (p ! c))\<rparr>"
    by (rule exI [of _ ?i], rule exI [of _ c]) (use b k in \<open>simp add: pb\<close>)
  ultimately show ?thesis by (simp add: pb)
qed

definition spans_nested :: "nat \<Rightarrow> prove_binding \<Rightarrow> bool" where
  "spans_nested n pb \<longleftrightarrow>
     sp_start (pb_binding_span pb) < sp_start (pb_statement_span pb)
       \<and> sp_start (pb_statement_span pb) < sp_end (pb_statement_span pb)
       \<and> sp_end (pb_statement_span pb) < sp_start (pb_tactic_span pb)
       \<and> sp_start (pb_tactic_span pb) < sp_end (pb_tactic_span pb)
       \<and> sp_end (pb_tactic_span pb) < sp_end (pb_binding_span pb)
       \<and> sp_end (pb_binding_span pb) \<le> n"

definition ordered_tokens :: "nat \<Rightarrow> token list \<Rightarrow> bool" where
  "ordered_tokens n toks \<longleftrightarrow>
     sorted_wrt (\<lambda>a b. sp_end (tok_span a) \<le> sp_start (tok_span b)) toks
       \<and> (\<forall>tk \<in> set toks. sp_start (tok_span tk) < sp_end (tok_span tk) \<and> sp_end (tok_span tk) \<le> n)"

lemma ordered_tokens_nth:
  assumes "ordered_tokens n p"
  shows "i < j \<Longrightarrow> j < length p \<Longrightarrow> sp_end (tok_span (p ! i)) \<le> sp_start (tok_span (p ! j))"
    and "i < length p \<Longrightarrow> sp_start (tok_span (p ! i)) < sp_end (tok_span (p ! i))"
    and "i < length p \<Longrightarrow> sp_end (tok_span (p ! i)) \<le> n"
  using assms by (auto simp: ordered_tokens_def sorted_wrt_iff_nth_less)

lemma prove_candidate_nested:
  assumes "prove_candidate L toks p = Some pb" and o: "ordered_tokens n p"
  shows "spans_nested n pb"
proof -
  from prove_candidateD [OF assms(1)] obtain i c where ic: "i + 3 < c" "c + 2 = length p"
    "pb_statement_span pb = tok_span (p ! (i + 1))"
    "pb_tactic_span pb = \<lparr>sp_start = sp_end (tok_span (p ! (i + 2))), sp_end = sp_start (tok_span (p ! c))\<rparr>"
    and b: "pb_binding_span pb = \<lparr>sp_start = sp_start (tok_span (p ! 0)), sp_end = sp_end (tok_span (last p))\<rparr>"
    by auto
  have last: "last p = p ! (c + 1)" using ic(2) by (cases p rule: rev_cases) (auto simp: nth_append)
  have s: "sp_end (tok_span (p ! j)) \<le> sp_start (tok_span (p ! k))" if "j < k" "k < c + 2" for j k
    using ordered_tokens_nth(1) [OF o that(1)] that ic(2) by simp
  have t: "sp_start (tok_span (p ! k)) < sp_end (tok_span (p ! k))" if "k < c + 2" for k
    using ordered_tokens_nth(2) [OF o] that ic(2) by simp
  have "sp_end (tok_span (p ! (c + 1))) \<le> n" using ordered_tokens_nth(3) [OF o] ic(2) by simp
  then show ?thesis
    using ic(1) s [of 0 "i + 1"] s [of "i + 1" "i + 2"] s [of "i + 2" "i + 3"] s [of "i + 3" c]
      s [of c "c + 1"] t [of 0] t [of "i + 1"] t [of "i + 2"] t [of "i + 3"] t [of c] t [of "c + 1"]
    unfolding spans_nested_def ic(3,4) b last by simp
qed

lemma prove_candidates_ordered:
  assumes "toks = concat ps @ rest" and "ordered_tokens n toks"
  shows "sorted_wrt (\<lambda>a b. sp_end (pb_binding_span a) \<le> sp_start (pb_binding_span b)
             \<and> pb_name a \<noteq> pb_name b) (List.map_filter (prove_candidate L toks) ps)"
proof (rule sorted_wrt_map_filter)
  let ?R = "\<lambda>a b. sp_end (tok_span a) \<le> sp_start (tok_span b)"
  let ?U = "\<lambda>p q. \<forall>nm. \<not> (binds_name nm p \<and> binds_name nm q \<and> name_count toks nm = 1)"
  have "sorted_wrt ?R (concat ps)"
    using assms by (simp add: ordered_tokens_def sorted_wrt_append)
  then have "sorted_wrt (\<lambda>p q. \<forall>a \<in> set p. \<forall>b \<in> set q. ?R a b) ps"
    using sorted_wrt_concat by blast
  moreover have "sorted_wrt ?U ps"
    using unique_names_phrases [OF assms(1)] by (auto simp: sorted_wrt_iff_nth_less)
  ultimately show "sorted_wrt (\<lambda>p q. (\<forall>a \<in> set p. \<forall>b \<in> set q. ?R a b) \<and> ?U p q) ps"
    by (simp add: sorted_wrt_iff_nth_less)
next
  fix p q a b
  assume r: "(\<forall>a \<in> set p. \<forall>b \<in> set q. sp_end (tok_span a) \<le> sp_start (tok_span b)) \<and>
      (\<forall>nm. \<not> (binds_name nm p \<and> binds_name nm q \<and> name_count toks nm = 1))"
    and ab: "prove_candidate L toks p = Some a" "prove_candidate L toks q = Some b"
  note A = prove_candidateD [OF ab(1)] and B = prove_candidateD [OF ab(2)]
  have "p \<noteq> []" "q \<noteq> []" using A B by (auto simp: binds_name_def)
  then have "last p \<in> set p" "q ! 0 \<in> set q" by simp_all
  with r A B show "sp_end (pb_binding_span a) \<le> sp_start (pb_binding_span b) \<and> pb_name a \<noteq> pb_name b"
    by auto
qed

lemma prove_candidates_nested:
  assumes "toks = concat ps @ rest" and "ordered_tokens n toks"
    and "pb \<in> set (List.map_filter (prove_candidate L toks) ps)"
  shows "spans_nested n pb"
proof -
  from assms(3) obtain p where p: "p \<in> set ps" "prove_candidate L toks p = Some pb"
    by (auto simp: List.map_filter_def)
  have "sorted_wrt (\<lambda>a b. sp_end (tok_span a) \<le> sp_start (tok_span b)) (concat ps)"
    using assms by (simp add: ordered_tokens_def sorted_wrt_append)
  with p(1) have "sorted_wrt (\<lambda>a b. sp_end (tok_span a) \<le> sp_start (tok_span b)) p"
    using sorted_wrt_concat by blast
  then have "ordered_tokens n p"
    using assms(1,2) p(1) by (auto simp: ordered_tokens_def)
  from prove_candidate_nested [OF p(2) this] show ?thesis .
qed

lemma sorted_wrt_distinct_map: "sorted_wrt (\<lambda>a b. f a \<noteq> f b) xs \<Longrightarrow> distinct (map f xs)"
  by (induction xs) auto

text \<open>The prove bindings of a source have pairwise distinct names, lie one after the other, and
  each holds its statement and, after it, its tactic: all three are byte ranges of the source.\<close>

theorem prove_bindings_distinct_and_nested:
  assumes "scan_prove_bindings E source = Some res"
  shows "distinct (map pb_name (pbs_bindings res))
    \<and> sorted_wrt (\<lambda>a b. sp_end (pb_binding_span a) \<le> sp_start (pb_binding_span b)) (pbs_bindings res)
    \<and> (\<forall>pb \<in> set (pbs_bindings res). spans_nested (length source) pb)"
proof (cases "pbs_bindings res = []")
  case False
  with assms obtain L toks ps where t: "source_tokens E source = Some (L, toks)"
    and ps: "top_level_phrases toks = Some (Some ps)"
    and b: "pbs_bindings res = List.map_filter (prove_candidate L toks) ps"
    by (auto simp: scan_prove_bindings_def Let_def split: option.split_asm if_split_asm)
  from ps obtain rest where r: "toks = concat ps @ rest"
    unfolding top_level_phrases_def by (auto dest: phrases_from_split)
  have o: "ordered_tokens (length source) toks"
    using source_tokens_ordered [OF t] by (simp add: ordered_tokens_def)
  note s = prove_candidates_ordered [OF r o, of L, folded b]
  have "distinct (map pb_name (pbs_bindings res))"
    by (rule sorted_wrt_distinct_map, rule sorted_wrt_mono_rel [OF _ s]) simp
  moreover have "sorted_wrt (\<lambda>a b. sp_end (pb_binding_span a) \<le> sp_start (pb_binding_span b))
      (pbs_bindings res)"
    by (rule sorted_wrt_mono_rel [OF _ s]) simp
  ultimately show ?thesis using prove_candidates_nested [OF r o, of _ L] b by simp
qed simp

definition sample_prove_source :: bytes where
  "sample_prove_source = basc ''let A = prove(`p`, ARITH_TAC THEN B);;''"

lemma prove_bindings_distinct_and_nested_witness:
  "\<exists>res. scan_prove_bindings ascii_env sample_prove_source = Some res
     \<and> length (pbs_bindings res) = 1
     \<and> (\<forall>pb \<in> set (pbs_bindings res). spans_nested (length sample_prove_source) pb)"
proof -
  have e: "case scan_prove_bindings ascii_env sample_prove_source of
      None \<Rightarrow> False | Some res \<Rightarrow> length (pbs_bindings res) = 1"
    by code_simp
  then obtain res where r: "scan_prove_bindings ascii_env sample_prove_source = Some res"
    by (auto split: option.splits)
  with e prove_bindings_distinct_and_nested [OF r] show ?thesis by simp
qed

end
