(* ===== verification/Ocaml_Literal.thy ===== *)
theory Ocaml_Literal
  imports Tokenizer
begin

text \<open>
  \<open>ocaml_string_literal\<close> of \<open>hol_workbench/fork_child_ocaml.py\<close>, the encoder of every path and
  token that the workbench writes into OCaml phrases, and its round trip with the string lexer of
  the loader scan.
\<close>

text \<open>\<open>f"{byte:03d}"\<close>\<close>

definition dec3 :: "nat \<Rightarrow> ucs" where
  "dec3 n = [48 + n div 100, 48 + n div 10 mod 10, 48 + n mod 10]"

definition ocaml_escape_byte :: "byte \<Rightarrow> ucs" where
  "ocaml_escape_byte b =
     (if b = 0x22 then [ch_backslash, ch_dquote]
      else if b = 0x5C then [ch_backslash, ch_backslash]
      else if 0x20 \<le> b \<and> b \<le> 0x7E then [unat b]
      else ch_backslash # dec3 (unat b))"

definition ocaml_string_literal :: "ucs \<Rightarrow> ucs" where
  "ocaml_string_literal v = [ch_dquote] @ concat (map ocaml_escape_byte (utf8_encode v)) @ [ch_dquote]"

section \<open>Decoding one byte\<close>

lemma drop_ConsD:
  assumes "drop i t = x # ys"
  shows "i < length t" "t ! i = x" "drop (i + 1) t = ys"
proof -
  show l: "i < length t" using assms by (cases "i < length t") auto
  with assms have "t ! i # drop (Suc i) t = x # ys" by (simp add: Cons_nth_drop_Suc)
  then show "t ! i = x" "drop (i + 1) t = ys" by simp_all
qed

lemma byte_less_256: "unat (b :: byte) < 256"
  using unsigned_less [of b] by simp

lemma dec3_value:
  assumes "n < 256"
  shows "list_all ascii_digit (dec3 n)" "length (dec3 n) = 3" "digits_value 10 (dec3 n) = n"
proof -
  have "n div 100 < 10" "n div 10 mod 10 < 10" "n mod 10 < 10" using assms by auto
  moreover have "100 * (n div 100) + 10 * (n div 10 mod 10) + n mod 10 = n"
  proof -
    have "n div 100 = n div 10 div 10" by (simp add: div_mult2_eq [symmetric])
    then show ?thesis
      using div_mult_mod_eq [of n 10] div_mult_mod_eq [of "n div 10" 10] by linarith
  qed
  ultimately show "list_all ascii_digit (dec3 n)" "length (dec3 n) = 3" "digits_value 10 (dec3 n) = n"
    by (auto simp: dec3_def ascii_digit_def digits_value_def digit_value_def)
qed

lemma decode_escape_byte:
  assumes "drop i (lx_text L) = ocaml_escape_byte b @ ys" and "\<not> (0x20 \<le> b \<and> b \<le> 0x7E) \<or> b = 0x22 \<or> b = 0x5C"
  shows "lx_text L ! i = ch_backslash \<and> i < length (lx_text L)
    \<and> decode_escape L i = Inr ([b], i + length (ocaml_escape_byte b))"
proof (cases "b = 0x22 \<or> b = 0x5C")
  case True
  then obtain c where e: "ocaml_escape_byte b = [ch_backslash, c]" "named_escape c = Some b"
    by (auto simp: ocaml_escape_byte_def named_escape_def)
  from assms(1) e have d: "drop i (lx_text L) = ch_backslash # c # ys" by simp
  note d1 = drop_ConsD [OF d] and d2 = drop_ConsD [OF drop_ConsD(3) [OF d]]
  from d1 d2 e show ?thesis by (simp add: decode_escape_def Let_def)
next
  case False
  then have e: "ocaml_escape_byte b = ch_backslash # dec3 (unat b)"
    using assms(2) by (auto simp: ocaml_escape_byte_def)
  have n: "unat b < 256" by (rule byte_less_256)
  from assms(1) e have d: "drop i (lx_text L) = ch_backslash # dec3 (unat b) @ ys" by simp
  note d1 = drop_ConsD [OF d]
  from d1(3) obtain c cs where dc: "drop (i + 1) (lx_text L) = c # cs" "dec3 (unat b) = c # take 2 cs"
    by (simp add: dec3_def)
  note d2 = drop_ConsD [OF dc(1)]
  have dig: "ascii_digit c" using dec3_value(1) [OF n] dc(2) by simp
  then have nm: "named_escape c = None" "c \<noteq> ch_lf" "c \<noteq> ch_cr"
    by (auto simp: ascii_digit_def named_escape_def)
  have sl: "slice (lx_text L) (i + 1) (i + 1 + 3) = dec3 (unat b)"
    using d1(3) dec3_value(2) [OF n] by (simp add: slice_def)
  have "escape_decimal (lx_text L) i (i + 1) = Inr ([b], i + 4)"
    unfolding escape_decimal_def sl using dec3_value [OF n] n by (simp add: Let_def)
  with d1 d2 nm dig e show ?thesis by (simp add: decode_escape_def Let_def dec3_def)
qed

lemma ordinary_loop_byte:
  assumes "drop i (lx_text L) = ocaml_escape_byte b @ ys"
  shows "ordinary_loop L start i acc = ordinary_loop L start (i + length (ocaml_escape_byte b)) (acc @ [b])"
proof (cases "(0x20 \<le> b \<and> b \<le> 0x7E) \<and> b \<noteq> 0x22 \<and> b \<noteq> 0x5C")
  case True
  then have e: "ocaml_escape_byte b = [unat b]" by (simp add: ocaml_escape_byte_def)
  with assms have d: "drop i (lx_text L) = unat b # ys" by simp
  have r: "32 \<le> unat b" "unat b \<le> 126"
    using True by (simp_all add: word_le_nat_alt)
  have "unat b \<noteq> unat (0x22 :: byte)" "unat b \<noteq> unat (0x5C :: byte)"
    using True by (simp_all only: word_unat_eq_iff [symmetric] not_False_eq_True)
  with r have "unat b \<noteq> 34" "unat b \<noteq> 92" "unat b \<noteq> 13" "unat b \<noteq> 10"
    "utf8_char (unat b) = [b]"
    by (simp_all add: utf8_char_ascii)
  with drop_ConsD(1,2) [OF d] e show ?thesis
    by (subst ordinary_loop.simps) (simp add: Let_def)
next
  case False
  with decode_escape_byte [OF assms] show ?thesis
    by (subst ordinary_loop.simps) (simp add: Let_def)
qed

lemma ordinary_loop_bytes:
  "drop i (lx_text L) = concat (map ocaml_escape_byte bs) @ ch_dquote # ys
     \<Longrightarrow> ordinary_loop L start i acc
           = Inr (acc @ bs, i + length (concat (map ocaml_escape_byte bs)) + 1)"
proof (induction bs arbitrary: i acc)
  case Nil
  then have d: "drop i (lx_text L) = ch_dquote # ys" by simp
  from drop_ConsD [OF d] show ?case by (subst ordinary_loop.simps) (simp add: Let_def)
next
  case (Cons b bs)
  let ?n = "length (ocaml_escape_byte b)"
  from Cons.prems have d: "drop i (lx_text L)
      = ocaml_escape_byte b @ concat (map ocaml_escape_byte bs) @ ch_dquote # ys" by simp
  have "drop (i + ?n) (lx_text L) = drop ?n (drop i (lx_text L))" by (simp add: add.commute)
  with d have "drop (i + ?n) (lx_text L) = concat (map ocaml_escape_byte bs) @ ch_dquote # ys" by simp
  from Cons.IH [OF this, of "acc @ [b]"] ordinary_loop_byte [OF d, of start acc]
  show ?case by (simp add: add.assoc)
qed

text \<open>C16: an encoded string read back by the loader scan's lexer, wherever it stands in a source, is a
  string literal that ends exactly where the encoding ends, whose value is exactly the encoded bytes
  and whose decoded text is the original string.\<close>

theorem ocaml_literal_round_trip:
  assumes "list_all scalar v"
  shows "\<exists>lit. ordinary_string E (mk_lexer source (before @ ocaml_string_literal v @ after)) (length before)
       = Inr (lit, length before + length (ocaml_string_literal v))
     \<and> value_bytes lit = utf8_encode v \<and> \<not> quoted lit \<and> utf8_text lit = Some v"
proof -
  let ?L = "mk_lexer source (before @ ocaml_string_literal v @ after)"
  have "drop (length before + 1) (lx_text ?L)
      = concat (map ocaml_escape_byte (utf8_encode v)) @ ch_dquote # after"
    by (simp add: ocaml_string_literal_def)
  from ordinary_loop_bytes [OF this, of "length before" "[]"] show ?thesis
    using utf8_decode_encode [OF assms]
    by (auto simp: ordinary_string_def ocaml_string_literal_def mk_literal_def Let_def utf8_text_def)
qed

definition quote_env :: pyenv where
  "quote_env = \<lparr>py_category = (\<lambda>_. ''Cn''), py_isdigit = (\<lambda>_. False), py_isupper = (\<lambda>_. False),
     py_sha256 = (\<lambda>_. ''digest'')\<rparr>"

lemma ocaml_literal_round_trip_witness:
  "\<exists>lit. ordinary_string quote_env (mk_lexer [] (asc ''load '' @ ocaml_string_literal [0x61, 0x22, 0xE9]))
       (length (asc ''load '')) = Inr (lit, 5 + 13)
     \<and> utf8_text lit = Some [0x61, 0x22, 0xE9]"
proof -
  have "list_all scalar [0x61, 0x22, 0xE9]" "length (ocaml_string_literal [0x61, 0x22, 0xE9]) = 13"
    "length (asc ''load '') = 5"
    by code_simp+
  with ocaml_literal_round_trip [of "[0x61, 0x22, 0xE9]" quote_env "[]" "asc ''load ''" "[]"]
  show ?thesis by auto
qed

end
