(* ===== verification/Json.thy ===== *)
theory Json
  imports Prelude "HOL-Library.AList"
begin

text \<open>
  The decoded JSON documents that the workbench keeps on disk and passes between its parts, with the
  Python operations used on them: \<open>d.get(k)\<close>, \<open>d[k] = v\<close>, \<open>x or []\<close>, iteration, truth
  values and \<open>==\<close>.  Numbers are integers.  An object is the list of its items in insertion order.
\<close>

datatype json = J_null | J_bool bool | J_int int | J_str string | J_list "json list"
  | J_obj "(string \<times> json) list"

type_synonym dict = "(string \<times> json) list"

section \<open>Objects\<close>

definition dget :: "dict \<Rightarrow> string \<Rightarrow> json" where
  "dget d k = (case map_of d k of None \<Rightarrow> J_null | Some v \<Rightarrow> v)"

definition dset :: "dict \<Rightarrow> string \<Rightarrow> json \<Rightarrow> dict" where
  "dset d k v = AList.update k v d"

lemma map_of_dset [simp]: "map_of (dset d k v) k' = (if k = k' then Some v else map_of d k')"
  by (auto simp: dset_def update_conv' )

lemma dget_dset [simp]: "dget (dset d k v) k' = (if k = k' then v else dget d k')"
  by (simp add: dget_def)

lemma dget_Cons: "dget ((k, v) # d) k' = (if k = k' then v else dget d k')"
  by (simp add: dget_def)

lemma dget_Nil [simp]: "dget [] k = J_null"
  by (simp add: dget_def)

text \<open>Python's update of a dictionary by a literal one.\<close>

definition dupdate :: "dict \<Rightarrow> dict \<Rightarrow> dict" where
  "dupdate d e = fold (\<lambda>(k, v) acc. dset acc k v) e d"

section \<open>Values\<close>

definition truthy :: "json \<Rightarrow> bool" where
  "truthy v = (case v of
     J_null \<Rightarrow> False | J_bool b \<Rightarrow> b | J_int n \<Rightarrow> n \<noteq> 0 | J_str s \<Rightarrow> s \<noteq> []
   | J_list xs \<Rightarrow> xs \<noteq> [] | J_obj d \<Rightarrow> d \<noteq> [])"

lemma truthy_simps [simp]:
  "\<not> truthy J_null" "truthy (J_bool b) = b" "truthy (J_int n) = (n \<noteq> 0)"
  "truthy (J_str s) = (s \<noteq> [])" "truthy (J_list xs) = (xs \<noteq> [])" "truthy (J_obj d) = (d \<noteq> [])"
  by (simp_all add: truthy_def)

definition or_else :: "json \<Rightarrow> json \<Rightarrow> json" where
  "or_else v w = (if truthy v then v else w)"

text \<open>A value of a Python \<open>str | None\<close>.\<close>

definition of_opt :: "string option \<Rightarrow> json" where
  "of_opt s = (case s of None \<Rightarrow> J_null | Some t \<Rightarrow> J_str t)"

text \<open>Iteration; \<open>None\<close> is the \<open>TypeError\<close> of iterating over a number.\<close>

definition py_iter :: "json \<Rightarrow> json list option" where
  "py_iter v = (case v of
     J_list xs \<Rightarrow> Some xs
   | J_str s \<Rightarrow> Some (map (\<lambda>c. J_str [c]) s)
   | J_obj d \<Rightarrow> Some (map (\<lambda>(k, _). J_str k) d)
   | _ \<Rightarrow> None)"

text \<open>\<open>for row in d.get(k) or []\<close>\<close>

definition get_rows :: "dict \<Rightarrow> string \<Rightarrow> json list option" where
  "get_rows d k = py_iter (or_else (dget d k) (J_list []))"

text \<open>
  The loops over the rows change the dictionaries among them in place.  Rows read from a JSON text
  are distinct objects, so a changed row is a changed list element; a value that is not a list
  holds no dictionary.
\<close>

definition put_rows :: "dict \<Rightarrow> string \<Rightarrow> json list \<Rightarrow> dict" where
  "put_rows d k rows = (case dget d k of J_list _ \<Rightarrow> dset d k (J_list rows) | _ \<Rightarrow> d)"

definition dicts :: "json list \<Rightarrow> dict list" where
  "dicts rows = List.map_filter (\<lambda>r. case r of J_obj d \<Rightarrow> Some d | _ \<Rightarrow> None) rows"

lemma dicts_simps [simp]:
  "dicts [] = []" "dicts (J_obj d # rows) = d # dicts rows"
  "dicts (J_null # rows) = dicts rows" "dicts (J_bool b # rows) = dicts rows"
  "dicts (J_int n # rows) = dicts rows" "dicts (J_str s # rows) = dicts rows"
  "dicts (J_list xs # rows) = dicts rows"
  by (simp_all add: dicts_def List.map_filter_def)

lemma dicts_append [simp]: "dicts (xs @ ys) = dicts xs @ dicts ys"
  by (simp add: dicts_def List.map_filter_def)

lemma set_dicts: "d \<in> set (dicts rows) \<longleftrightarrow> J_obj d \<in> set rows"
  by (auto simp: dicts_def List.map_filter_def split: json.splits intro: rev_image_eqI)

lemma dicts_str [simp]: "dicts (map (\<lambda>c. J_str (f c)) xs) = []"
  by (induction xs) simp_all

lemma dicts_keys [simp]: "dicts (map (\<lambda>(k, _). J_str k) d) = []"
  by (induction d) auto

text \<open>The dictionaries among the rows of a document.\<close>

definition row_dicts :: "dict \<Rightarrow> string \<Rightarrow> dict list" where
  "row_dicts d k = (case get_rows d k of None \<Rightarrow> [] | Some rows \<Rightarrow> dicts rows)"

lemma get_rows_list: "dget d k = J_list xs \<Longrightarrow> get_rows d k = Some xs"
  by (auto simp: get_rows_def or_else_def py_iter_def)

lemma get_rows_no_list:
  "get_rows d k = Some rows \<Longrightarrow> (\<And>xs. dget d k \<noteq> J_list xs) \<Longrightarrow> dicts rows = []"
  by (auto simp: get_rows_def or_else_def py_iter_def split: if_splits json.splits)

lemma row_dicts_put:
  assumes "get_rows d k = Some rows" and "dicts rows = [] \<Longrightarrow> dicts rows' = []"
  shows "row_dicts (put_rows d k rows') k = dicts rows'"
proof (cases "\<exists>xs. dget d k = J_list xs")
  case True
  then obtain xs where xs: "dget d k = J_list xs" by blast
  have "get_rows (dset d k (J_list rows')) k = Some rows'" by (rule get_rows_list) simp
  with xs show ?thesis by (simp add: row_dicts_def put_rows_def)
next
  case False
  then have "dicts rows = []" by (intro get_rows_no_list [OF assms(1)]) auto
  moreover have "put_rows d k rows' = d" using False by (auto simp: put_rows_def split: json.split)
  ultimately show ?thesis using assms by (simp add: row_dicts_def)
qed

lemma dget_put_rows [simp]: "k \<noteq> k' \<Longrightarrow> dget (put_rows d k rows) k' = dget d k'"
  by (simp add: put_rows_def split: json.split)

lemma get_rows_cong: "dget d k = dget e k \<Longrightarrow> get_rows d k = get_rows e k"
  by (simp add: get_rows_def)

lemma row_dicts_cong: "dget d k = dget e k \<Longrightarrow> row_dicts d k = row_dicts e k"
  by (simp add: row_dicts_def get_rows_def)

lemma row_dicts_dset [simp]: "k \<noteq> k' \<Longrightarrow> row_dicts (dset d k v) k' = row_dicts d k'"
  by (rule row_dicts_cong) simp

lemma get_rows_dset [simp]: "k \<noteq> k' \<Longrightarrow> get_rows (dset d k v) k' = get_rows d k'"
  by (rule get_rows_cong) simp

lemma get_rows_put_other [simp]: "k \<noteq> k' \<Longrightarrow> get_rows (put_rows d k rows) k' = get_rows d k'"
  by (rule get_rows_cong) simp

section \<open>Equality\<close>

text \<open>
  \<open>==\<close>: a truth value equals the corresponding number, and the order of an object's items does not
  matter.
\<close>

function json_eq :: "json \<Rightarrow> json \<Rightarrow> bool" where
  "json_eq v w = (case v of
     J_null \<Rightarrow> w = J_null
   | J_bool b \<Rightarrow> w = J_bool b \<or> w = J_int (of_bool b)
   | J_int n \<Rightarrow> w = J_int n \<or> (\<exists>b \<in> {True, False}. w = J_bool b \<and> n = of_bool b)
   | J_str s \<Rightarrow> w = J_str s
   | J_list xs \<Rightarrow> (case w of
       J_list ys \<Rightarrow> length xs = length ys \<and> (\<forall>p \<in> set (zip xs ys). json_eq (fst p) (snd p))
     | _ \<Rightarrow> False)
   | J_obj d \<Rightarrow> (case w of
       J_obj e \<Rightarrow> length d = length e
         \<and> (\<forall>p \<in> set d. case map_of e (fst p) of None \<Rightarrow> False | Some u \<Rightarrow> json_eq (snd p) u)
     | _ \<Rightarrow> False))"
  by pat_completeness auto

lemma size_json_list: "x \<in> set xs \<Longrightarrow> size (x :: json) < size (J_list xs)"
  by (induction xs) auto

lemma size_json_obj: "(k, v) \<in> set d \<Longrightarrow> size (v :: json) < size (J_obj d)"
  by (induction d) auto

termination json_eq
  by (relation "measure (\<lambda>(v, w). size v)")
     (auto dest!: set_zip_leftD size_json_list size_json_obj)

declare json_eq.simps [simp del]

lemma json_eq_str [simp]: "json_eq v (J_str s) = (v = J_str s)"
  by (cases v) (auto simp: json_eq.simps)

section \<open>Strings and paths\<close>

text \<open>
  \<open>rt_repr\<close> is \<open>repr\<close> of a value that is not a string and \<open>rt_resolve\<close> is
  \<open>str(Path(p).resolve())\<close>, which consults the file system for symbolic links.
\<close>

record pyrt =
  rt_repr :: "json \<Rightarrow> string"
  rt_resolve :: "string \<Rightarrow> string"

definition py_str :: "pyrt \<Rightarrow> json \<Rightarrow> string" where
  "py_str R v = (case v of J_str s \<Rightarrow> s | _ \<Rightarrow> rt_repr R v)"

definition is_absolute :: "string \<Rightarrow> bool" where
  "is_absolute p \<longleftrightarrow> take 1 p = ''/''"

end
