(* ===== verification/Pool_Basis.thy ===== *)
theory Pool_Basis
  imports Json
begin

text \<open>
  Warm-pool metadata, its basis readiness (\<open>hol_workbench/pools/basis.py\<close>), its status counts
  (\<open>hol_workbench/pools/status.py\<close>) and the capacity of the broker behind it
  (\<open>hol_workbench/criu_shelf_capacity.py\<close>).  A pool document is a JSON object; a seat is one of
  the objects among its \<open>sessions\<close>.
\<close>

section \<open>Failures\<close>

text \<open>
  The exceptions of the pool operations.  A refused checkout carries the document as its callers
  persist it.
\<close>

datatype pool_error =
    Type_error
  | Value_error string
  | Runtime_error string
  | Checkout_refused string "dict list" dict
  | Lease_id_collision string

definition of_iter :: "'a option \<Rightarrow> pool_error + 'a" where
  "of_iter m = (case m of None \<Rightarrow> Inl Type_error | Some x \<Rightarrow> Inr x)"

lemma of_iter_simps [simp]: "of_iter None = Inl Type_error" "of_iter (Some x) = Inr x"
  by (simp_all add: of_iter_def)

lemma of_iter_eq_Inr [simp]: "of_iter m = Inr x \<longleftrightarrow> m = Some x"
  by (simp add: of_iter_def split: option.split)

lemma of_iter_eq_Inl [simp]: "of_iter m = Inl e \<longleftrightarrow> m = None \<and> e = Type_error"
  by (auto simp: of_iter_def split: option.split)

section \<open>Preloads\<close>

definition required_pool_preloads :: "dict \<Rightarrow> dict list option" where
  "required_pool_preloads pool =
     map_option (\<lambda>rows. filter (\<lambda>d. dget d ''status'' = J_str ''loaded'') (dicts rows))
       (get_rows pool ''preloads'')"

definition preload_loaded :: "dict \<Rightarrow> json \<Rightarrow> bool" where
  "preload_loaded preload entry =
     (case entry of
        J_obj d \<Rightarrow> json_eq (dget d ''path'') (dget preload ''path'')
          \<and> json_eq (dget d ''sha256'') (dget preload ''sha256'')
          \<and> dget d ''status'' = J_str ''loaded''
      | _ \<Rightarrow> False)"

definition missing_row :: "dict \<Rightarrow> json" where
  "missing_row preload =
     J_obj [(''path'', dget preload ''path''), (''sha256'', dget preload ''sha256'')]"

text \<open>The loaded preloads are iterated only when some preload is required.\<close>

definition warm_pool_missing_preloads :: "dict \<Rightarrow> dict \<Rightarrow> json list option" where
  "warm_pool_missing_preloads pool item =
     (case required_pool_preloads pool of
        None \<Rightarrow> None
      | Some [] \<Rightarrow> Some []
      | Some required \<Rightarrow>
          map_option (\<lambda>loaded.
              map missing_row (filter (\<lambda>p. \<not> list_ex (preload_loaded p) loaded) required))
            (get_rows item ''loaded_preloads''))"

text \<open>Membership in a set raises a \<open>TypeError\<close> for a list or an object.\<close>

definition hashable :: "json \<Rightarrow> bool" where
  "hashable v = (case v of J_list _ \<Rightarrow> False | J_obj _ \<Rightarrow> False | _ \<Rightarrow> True)"

definition annotate_item :: "json list \<Rightarrow> dict \<Rightarrow> (dict \<times> bool) option" where
  "annotate_item missing item =
     (let ready = (missing = []);
          changed1 = (\<not> json_eq (dget item ''basis_ready'') (J_bool ready));
          item1 = (if changed1 then dset item ''basis_ready'' (J_bool ready) else item);
          changed2 = (\<not> json_eq (dget item1 ''basis_missing_preloads'') (J_list missing));
          item2 = (if changed2 then dset item1 ''basis_missing_preloads'' (J_list missing) else item1)
      in if missing = [] then Some (item2, changed1 \<or> changed2)
         else if \<not> hashable (dget item2 ''status'') then None
         else if dget item2 ''status'' \<in> {J_str ''idle'', J_str ''dirty''}
         then Some (dset (dset item2 ''status'' (J_str ''basis_missing'')) ''lease'' J_null, True)
         else Some (item2, changed1 \<or> changed2))"

fun annotate_rows :: "dict \<Rightarrow> json list \<Rightarrow> (json list \<times> bool) option" where
  "annotate_rows pool [] = Some ([], False)"
| "annotate_rows pool (J_obj item # rows) =
     (case warm_pool_missing_preloads pool item of
        None \<Rightarrow> None
      | Some missing \<Rightarrow>
          (case annotate_item missing item of
             None \<Rightarrow> None
           | Some (item', c) \<Rightarrow>
               map_option (\<lambda>(rows', changed). (J_obj item' # rows', c \<or> changed))
                 (annotate_rows pool rows)))"
| "annotate_rows pool (row # rows) =
     map_option (\<lambda>(rows', changed). (row # rows', changed)) (annotate_rows pool rows)"

definition annotate_warm_pool_basis_state :: "dict \<Rightarrow> (dict \<times> bool) option" where
  "annotate_warm_pool_basis_state pool =
     (case get_rows pool ''sessions'' of
        None \<Rightarrow> None
      | Some rows \<Rightarrow>
          map_option (\<lambda>(rows', changed). (put_rows pool ''sessions'' rows', changed))
            (annotate_rows pool rows))"

section \<open>Status counts\<close>

text \<open>The counts are a dictionary from status to number; \<open>n\<close> is its insertion or increment.\<close>

definition count_status :: "pyrt \<Rightarrow> (string \<times> nat) list \<Rightarrow> dict \<Rightarrow> (string \<times> nat) list" where
  "count_status R counts session =
     (let st = py_str R (or_else (dget session ''status'') (J_str ''unknown''));
          n = (case map_of counts st of None \<Rightarrow> 0 | Some n \<Rightarrow> n)
      in AList.update st (n + 1) counts)"

definition pool_session_counts :: "pyrt \<Rightarrow> json list \<Rightarrow> (string \<times> nat) list" where
  "pool_session_counts R rows = foldl (count_status R) [] (dicts rows)"

definition pool_status_summary :: "pyrt \<Rightarrow> dict \<Rightarrow> (string \<times> nat) list option" where
  "pool_status_summary R pool = map_option (pool_session_counts R) (get_rows pool ''sessions'')"

record seat_summary =
  total_seats :: nat
  usable_seats :: nat
  poisoned_seats :: nat
  leased_seats :: nat
  dirty_seats :: nat

definition count_of :: "(string \<times> nat) list \<Rightarrow> string \<Rightarrow> nat" where
  "count_of counts k = (case map_of counts k of None \<Rightarrow> 0 | Some n \<Rightarrow> n)"

definition pool_seat_summary_from_counts :: "(string \<times> nat) list \<Rightarrow> seat_summary" where
  "pool_seat_summary_from_counts counts =
     \<lparr>total_seats = sum_list (map snd counts),
      usable_seats = count_of counts ''idle'' + count_of counts ''dirty'',
      poisoned_seats = sum_list (map (count_of counts) [''poisoned'', ''failed'', ''preload_failed'', ''blocked'']),
      leased_seats = count_of counts ''busy'' + count_of counts ''leased'',
      dirty_seats = count_of counts ''dirty''\<rparr>"

section \<open>Broker capacity\<close>

definition mechanical_basis_broker_v3 :: string where
  "mechanical_basis_broker_v3 = ''mechanical_basis_broker_v3''"

definition physical_control_session :: "pyrt \<Rightarrow> dict \<Rightarrow> pool_error + string" where
  "physical_control_session R session =
     (case or_else (dget session ''control_session_dir'') (dget session ''session_dir'') of
        J_str p \<Rightarrow>
          if is_absolute p then Inr (rt_resolve R p)
          else Inl (Runtime_error ''mechanical broker session has no absolute control identity'')
      | _ \<Rightarrow> Inl (Runtime_error ''mechanical broker session has no absolute control identity''))"

text \<open>\<open>REVIEWED_BROKER_VARIANTS\<close>, restricted to the one field that capacity reads.\<close>

definition reviewed_broker_variants :: "(string \<times> json) list" where
  "reviewed_broker_variants =
     [(''28e427ad0ab22e001f3a4b852c2f7661dd23ea22760f69451f7c002303032ce6'', J_int 1),
      (''0aaf71d37b37ebc76f7b1d9ca12c64ca1000e25d3d4f674761a05c6c711d8b8d'', J_null),
      (''4e6281597b0f7fe538190dc100bfebfd6fdf16e150e7fdcf724f6b633ddc6cb7'', J_null)]"

definition broker_pool_attempt_limit :: "pyrt \<Rightarrow> dict \<Rightarrow> pool_error + nat option" where
  "broker_pool_attempt_limit R pool =
     (if dget pool ''execution_topology'' \<noteq> J_str mechanical_basis_broker_v3 then Inr None
      else case map_of reviewed_broker_variants
                  (py_str R (or_else (dget pool ''broker_runtime_sha256'') (J_str ''''))) of
             None \<Rightarrow> Inr None
           | Some J_null \<Rightarrow> Inr None
           | Some (J_int n) \<Rightarrow>
               if n \<le> 0 then Inl (Runtime_error ''reviewed broker has an invalid attempt capacity limit'')
               else Inr (Some (nat n))
           | Some _ \<Rightarrow> Inl (Runtime_error ''reviewed broker has an invalid attempt capacity limit''))"

fun control_sessions :: "pyrt \<Rightarrow> dict list \<Rightarrow> pool_error + string list" where
  "control_sessions R [] = Inr []"
| "control_sessions R (s # ss) =
     bindE (physical_control_session R s) (\<lambda>c.
       bindE (control_sessions R ss) (\<lambda>cs. Inr (List.insert c cs)))"

definition physical_broker_capacity :: "pyrt \<Rightarrow> dict \<Rightarrow> pool_error + nat option" where
  "physical_broker_capacity R pool =
     (if dget pool ''execution_topology'' \<noteq> J_str mechanical_basis_broker_v3 then Inr None
      else bindE (of_iter (get_rows pool ''sessions'')) (\<lambda>rows.
           bindE (control_sessions R (dicts rows)) (\<lambda>controls.
           bindE (broker_pool_attempt_limit R pool) (\<lambda>limit.
             Inr (Some (case limit of None \<Rightarrow> length controls
                                    | Some n \<Rightarrow> min (length controls) n))))))"

end
