(* ===== verification/Pool_Leases.thy ===== *)
theory Pool_Leases
  imports Pool_Basis
begin

text \<open>
  Seat checkout, release, reclamation and quarantine, \<open>hol_workbench/pools/leases.py\<close>.  Every
  operation takes the decoded pool document and returns the changed document beside its result; a
  raised exception is the left summand, and the document its callers then keep is the stored one.
\<close>

section \<open>Leases\<close>

record lease_owner =
  lo_agent :: "string option"
  lo_lease_id :: string
  lo_leased_utc :: string
  lo_owner_kind :: string
  lo_owner_pid :: "int option"
  lo_context_run :: "string option"
  lo_command :: "string option"

definition lease_owner_metadata :: "lease_owner \<Rightarrow> dict" where
  "lease_owner_metadata o' =
     (let lease = [(''lease_id'', J_str (lo_lease_id o')), (''agent'', of_opt (lo_agent o')),
                   (''leased_utc'', J_str (lo_leased_utc o')), (''owner_kind'', J_str (lo_owner_kind o'))];
          lease = (case lo_owner_pid o' of None \<Rightarrow> lease | Some p \<Rightarrow> dset lease ''owner_pid'' (J_int p));
          lease = (if truthy (of_opt (lo_context_run o'))
                   then dset lease ''owner_context_run'' (of_opt (lo_context_run o')) else lease)
      in if truthy (of_opt (lo_command o')) then dset lease ''owner_command'' (of_opt (lo_command o'))
         else lease)"

section \<open>Stale leases\<close>

definition stale_row :: "(int \<Rightarrow> bool) \<Rightarrow> dict \<Rightarrow> dict option" where
  "stale_row owner_alive item =
     (if dget item ''status'' \<noteq> J_str ''busy'' then None
      else case dget item ''lease'' of
        J_obj lease \<Rightarrow>
          (case dget lease ''owner_pid'' of
             J_int pid \<Rightarrow>
               if owner_alive pid then None
               else Some [(''session_dir'', dget item ''session_dir''), (''owner_pid'', J_int pid),
                          (''lease_id'', dget lease ''lease_id''),
                          (''leased_utc'', dget lease ''leased_utc''),
                          (''owner_command'', dget lease ''owner_command'')]
           | _ \<Rightarrow> None)
      | _ \<Rightarrow> None)"

definition stale_pool_leases :: "(int \<Rightarrow> bool) \<Rightarrow> dict \<Rightarrow> dict list option" where
  "stale_pool_leases owner_alive pool =
     map_option (\<lambda>rows. List.map_filter (stale_row owner_alive) (dicts rows)) (get_rows pool ''sessions'')"

text \<open>An attribute of the wrong type fails like a wrong argument.\<close>

definition lease_field :: "dict \<Rightarrow> string \<Rightarrow> json" where
  "lease_field item k = (case dget item ''lease'' of J_obj l \<Rightarrow> dget l k | _ \<Rightarrow> J_null)"

definition reclaimed_item :: "pyrt \<Rightarrow> string \<Rightarrow> dict \<Rightarrow> dict" where
  "reclaimed_item R released_utc item =
     (let rsn = ''stale lease reclaimed: owner pid '' @ py_str R (lease_field item ''owner_pid'')
            @ '' is not running (leased '' @ py_str R (lease_field item ''leased_utc'') @ '', ''
            @ py_str R (or_else (lease_field item ''owner_command'') (J_str ''unknown command'')) @ '')''
      in dset (dset (dset (dset item ''status'' (J_str ''idle'')) ''lease'' J_null)
           ''released_utc'' (J_str released_utc)) ''release_reason'' (J_str rsn))"

definition in_stale :: "json list \<Rightarrow> json \<Rightarrow> bool" where
  "in_stale stale_dirs v \<longleftrightarrow> list_ex (\<lambda>s. json_eq s v) stale_dirs"

definition reclaims :: "json list \<Rightarrow> dict \<Rightarrow> bool" where
  "reclaims stale_dirs item \<longleftrightarrow>
     in_stale stale_dirs (dget item ''session_dir'') \<and> dget item ''status'' = J_str ''busy''"

text \<open>Reading the lease of a reclaimed seat fails when the lease is neither empty nor an object.\<close>

definition reclaim_fails :: "json list \<Rightarrow> dict \<Rightarrow> bool" where
  "reclaim_fails stale_dirs item \<longleftrightarrow>
     \<not> hashable (dget item ''session_dir'')
       \<or> (reclaims stale_dirs item
           \<and> (case or_else (dget item ''lease'') (J_obj []) of J_obj _ \<Rightarrow> False | _ \<Rightarrow> True))"

definition reclaim_row :: "pyrt \<Rightarrow> string \<Rightarrow> json list \<Rightarrow> dict \<Rightarrow> dict" where
  "reclaim_row R released_utc stale_dirs item =
     (if reclaims stale_dirs item then reclaimed_item R released_utc item else item)"

definition map_dicts :: "(dict \<Rightarrow> dict) \<Rightarrow> json list \<Rightarrow> json list" where
  "map_dicts f rows = map (\<lambda>r. case r of J_obj d \<Rightarrow> J_obj (f d) | _ \<Rightarrow> r) rows"

definition last_20 :: "json list \<Rightarrow> json list" where
  "last_20 xs = drop (length xs - 20) xs"

definition reclaim_history :: "string \<Rightarrow> dict list \<Rightarrow> dict \<Rightarrow> dict option" where
  "reclaim_history released_utc reclaimed pool =
     map_option (\<lambda>rows.
         let history = map J_obj (dicts rows)
               @ map (\<lambda>row. J_obj (dset row ''reclaimed_utc'' (J_str released_utc))) reclaimed
         in dset pool ''reclaimed_leases'' (J_list (last_20 history)))
       (get_rows pool ''reclaimed_leases'')"

definition reclaim_stale_leases :: "pyrt \<Rightarrow> (int \<Rightarrow> bool) \<Rightarrow> string \<Rightarrow> dict \<Rightarrow> (dict list \<times> dict) option" where
  "reclaim_stale_leases R owner_alive released_utc pool =
     (case stale_pool_leases owner_alive pool of
        None \<Rightarrow> None
      | Some reclaimed \<Rightarrow>
          let stale_dirs = map (\<lambda>row. dget row ''session_dir'') reclaimed
          in (case get_rows pool ''sessions'' of
                None \<Rightarrow> None
              | Some rows \<Rightarrow>
                  if \<not> list_all hashable stale_dirs
                     \<or> list_ex (reclaim_fails stale_dirs) (dicts rows)
                  then None
                  else let pool' = put_rows pool ''sessions''
                                     (map_dicts (reclaim_row R released_utc stale_dirs) rows)
                       in if reclaimed = [] then Some (reclaimed, pool')
                          else map_option (Pair reclaimed) (reclaim_history released_utc reclaimed pool')))"

section \<open>Checkout\<close>

definition seat_active :: "dict \<Rightarrow> bool" where
  "seat_active item \<longleftrightarrow> dget item ''status'' = J_str ''busy'' \<or> truthy (dget item ''lease'')"

definition take_seat :: "dict \<Rightarrow> dict \<Rightarrow> dict" where
  "take_seat lease item = dset (dset item ''status'' (J_str ''busy'')) ''lease'' (J_obj lease)"

definition basis_missing_seat :: "json list \<Rightarrow> dict \<Rightarrow> dict" where
  "basis_missing_seat missing item =
     dset (dset (dset (dset item ''status'' (J_str ''basis_missing'')) ''basis_ready'' (J_bool False))
       ''basis_missing_preloads'' (J_list missing)) ''lease'' J_null"

definition dead_seat :: "dict \<Rightarrow> dict" where
  "dead_seat item = dset (dset item ''status'' (J_str ''dead'')) ''lease'' J_null"

text \<open>What one visit of the loop does with a seat of the wanted status.\<close>

datatype visit = Skip | Demote dict | Take dict

definition visit_seat :: "pyrt \<Rightarrow> dict \<Rightarrow> (dict \<Rightarrow> bool) \<Rightarrow> dict \<Rightarrow> string list option \<Rightarrow> string \<Rightarrow> dict
    \<Rightarrow> pool_error + visit" where
  "visit_seat R pool session_alive lease occupied wanted item =
     (if dget item ''status'' \<noteq> J_str wanted then Inr Skip
      else bindE (case occupied of
                    None \<Rightarrow> Inr False
                  | Some cs \<Rightarrow> bindE (physical_control_session R item) (\<lambda>c. Inr (c \<in> set cs)))
        (\<lambda>taken. if taken then Inr Skip
           else bindE (of_iter (warm_pool_missing_preloads pool item)) (\<lambda>missing.
             if missing \<noteq> [] then Inr (Demote (basis_missing_seat missing item))
             else if \<not> session_alive item then Inr (Demote (dead_seat item))
             else Inr (Take (take_seat lease item)))))"

fun scan_seats :: "(dict \<Rightarrow> pool_error + visit) \<Rightarrow> json list \<Rightarrow> pool_error + (json list \<times> dict option)"
where
  "scan_seats visit [] = Inr ([], None)"
| "scan_seats visit (J_obj item # rows) =
     bindE (visit item) (\<lambda>v. case v of
       Skip \<Rightarrow> bindE (scan_seats visit rows) (\<lambda>(rows', sel). Inr (J_obj item # rows', sel))
     | Demote item' \<Rightarrow> bindE (scan_seats visit rows) (\<lambda>(rows', sel). Inr (J_obj item' # rows', sel))
     | Take item' \<Rightarrow> Inr (J_obj item' # rows, Some item'))"
| "scan_seats visit (row # rows) =
     bindE (scan_seats visit rows) (\<lambda>(rows', sel). Inr (row # rows', sel))"

fun scan_statuses :: "(string \<Rightarrow> dict \<Rightarrow> pool_error + visit) \<Rightarrow> string list \<Rightarrow> json list
    \<Rightarrow> pool_error + (json list \<times> dict option)" where
  "scan_statuses visit [] rows = Inr (rows, None)"
| "scan_statuses visit (wanted # ws) rows =
     bindE (scan_seats (visit wanted) rows) (\<lambda>(rows', sel).
       case sel of Some item \<Rightarrow> Inr (rows', Some item) | None \<Rightarrow> scan_statuses visit ws rows')"

definition preferred_statuses :: "bool \<Rightarrow> string list" where
  "preferred_statuses allow_dirty = ''idle'' # (if allow_dirty then [''dirty''] else [])"

definition occupied_controls :: "pyrt \<Rightarrow> nat option \<Rightarrow> dict list \<Rightarrow> pool_error + string list option" where
  "occupied_controls R capacity items =
     (case capacity of
        None \<Rightarrow> Inr None
      | Some _ \<Rightarrow> bindE (control_sessions R (filter seat_active items)) (\<lambda>cs. Inr (Some cs)))"

definition pool_status :: "pyrt \<Rightarrow> dict \<Rightarrow> string" where
  "pool_status R pool = py_str R (or_else (dget pool ''status'') (J_str ''unknown''))"

definition select_seat :: "pyrt \<Rightarrow> (dict \<Rightarrow> bool) \<Rightarrow> dict \<Rightarrow> bool \<Rightarrow> dict
    \<Rightarrow> pool_error + (json list \<times> dict option)" where
  "select_seat R session_alive lease allow_dirty pool =
     bindE (of_iter (get_rows pool ''sessions'')) (\<lambda>rows.
     bindE (broker_pool_attempt_limit R pool) (\<lambda>limit.
       if (case limit of None \<Rightarrow> False | Some n \<Rightarrow> n \<le> length (filter seat_active (dicts rows)))
       then Inl (Checkout_refused
              ''no idle warm pool worker available: broker attempt capacity is occupied'' [] pool)
       else bindE (physical_broker_capacity R pool) (\<lambda>capacity.
            bindE (occupied_controls R capacity (dicts rows)) (\<lambda>occupied.
              scan_statuses (visit_seat R pool session_alive lease occupied)
                (preferred_statuses allow_dirty) rows))))"

definition checkout_warm_pool_seat :: "pyrt \<Rightarrow> (int \<Rightarrow> bool) \<Rightarrow> (dict \<Rightarrow> bool) \<Rightarrow> dict \<Rightarrow> bool
    \<Rightarrow> string option \<Rightarrow> dict \<Rightarrow> pool_error + (dict \<times> dict)" where
  "checkout_warm_pool_seat R owner_alive session_alive lease allow_dirty released_utc pool =
     (if pool_status R pool \<noteq> ''ready''
      then Inl (Checkout_refused (''warm pool lifecycle status '' @ pool_status R pool
                  @ '' is not ready for checkout'') [] pool)
      else bindE (of_iter (reclaim_stale_leases R owner_alive
                    (case released_utc of None \<Rightarrow> '''' | Some u \<Rightarrow> u) pool)) (\<lambda>(_, pool1).
           bindE (of_iter (annotate_warm_pool_basis_state pool1)) (\<lambda>(pool2, _).
           bindE (select_seat R session_alive lease allow_dirty pool2) (\<lambda>(rows, sel).
             let pool3 = put_rows pool2 ''sessions'' rows
             in case sel of
                  Some item \<Rightarrow> Inr (item, pool3)
                | None \<Rightarrow>
                    bindE (of_iter (required_pool_preloads pool3)) (\<lambda>required.
                      if required \<noteq> []
                      then Inl (Checkout_refused ''no basis-ready warm pool worker available'' required pool3)
                      else Inl (Checkout_refused ''no idle warm pool worker available'' [] pool3))))))"

section \<open>Release\<close>

text \<open>\<open>str(Path(item.get("session_dir", "")).resolve())\<close>\<close>

definition seat_path :: "pyrt \<Rightarrow> dict \<Rightarrow> pool_error + string" where
  "seat_path R item =
     (case map_of item ''session_dir'' of
        None \<Rightarrow> Inr (rt_resolve R '''')
      | Some (J_str p) \<Rightarrow> Inr (rt_resolve R p)
      | Some _ \<Rightarrow> Inl Type_error)"

definition is_fork_basis :: "dict \<Rightarrow> bool" where
  "is_fork_basis pool \<longleftrightarrow> dget pool ''engine'' = J_str ''fork_basis''"

definition set_reason :: "string option \<Rightarrow> dict \<Rightarrow> dict" where
  "set_reason rsn item =
     (if truthy (of_opt rsn) then dset item ''release_reason'' (of_opt rsn) else item)"

definition free_seat :: "string \<Rightarrow> string \<Rightarrow> dict \<Rightarrow> dict" where
  "free_seat status utc item =
     dset (dset (dset item ''status'' (J_str status)) ''lease'' J_null) ''released_utc'' (J_str utc)"

definition release_item :: "pyrt \<Rightarrow> dict \<Rightarrow> string \<Rightarrow> string \<Rightarrow> string option \<Rightarrow> dict \<Rightarrow> dict" where
  "release_item R pool status utc rsn item =
     (if pool_status R pool \<noteq> ''ready''
      then if is_fork_basis pool \<and> pool_status R pool = ''poisoned''
           then dset (free_seat ''poisoned'' utc item) ''release_reason''
                  (J_str (if truthy (of_opt rsn) then the rsn
                          else py_str R (or_else (dget pool ''poison_reason'')
                                 (J_str ''fork-basis pool generation is quarantined''))))
           else dset item ''release_reason''
                  (J_str (''eval release deferred because pool lifecycle status '' @ pool_status R pool
                          @ '' owns seat state''))
      else if is_fork_basis pool \<and> status = ''dirty''
      then set_reason (Some ''fork basis child exited; basis remains clean'') (free_seat ''idle'' utc item)
      else set_reason rsn (free_seat status utc item))"

fun release_rows :: "pyrt \<Rightarrow> string \<Rightarrow> (dict \<Rightarrow> dict) \<Rightarrow> json list \<Rightarrow> pool_error + (dict \<times> json list)" where
  "release_rows R session_text f [] =
     Inl (Runtime_error ''session is not part of this warm pool'')"
| "release_rows R session_text f (J_obj item # rows) =
     bindE (seat_path R item) (\<lambda>p.
       if p \<noteq> session_text
       then bindE (release_rows R session_text f rows) (\<lambda>(x, rows'). Inr (x, J_obj item # rows'))
       else Inr (f item, J_obj (f item) # rows))"
| "release_rows R session_text f (row # rows) =
     bindE (release_rows R session_text f rows) (\<lambda>(x, rows'). Inr (x, row # rows'))"

definition release_warm_pool_seat :: "pyrt \<Rightarrow> string \<Rightarrow> string \<Rightarrow> string \<Rightarrow> string option \<Rightarrow> dict
    \<Rightarrow> pool_error + (dict \<times> dict)" where
  "release_warm_pool_seat R session status released_utc rsn pool =
     bindE (of_iter (get_rows pool ''sessions'')) (\<lambda>rows.
     bindE (release_rows R (rt_resolve R session) (release_item R pool status released_utc rsn) rows)
       (\<lambda>(item, rows'). Inr (item, put_rows pool ''sessions'' rows')))"

section \<open>Quarantine\<close>

definition poisoned_pool :: "string \<Rightarrow> string \<Rightarrow> dict \<Rightarrow> dict" where
  "poisoned_pool rsn utc pool =
     dset (dset (dset pool ''status'' (J_str ''poisoned'')) ''poison_reason'' (J_str rsn))
       ''quarantined_utc'' (J_str utc)"

definition quarantine_item :: "string \<Rightarrow> string \<Rightarrow> bool \<Rightarrow> dict \<Rightarrow> dict" where
  "quarantine_item rsn utc is_released item =
     (let item = dset (dset item ''pool_generation_quarantined'' (J_bool True))
                   ''pool_generation_poison_reason'' (J_str rsn)
      in if dget item ''status'' = J_str ''busy'' \<and> truthy (dget item ''lease'') \<and> \<not> is_released
         then dset item ''release_after_lease_status'' (J_str ''poisoned'')
         else dset (free_seat ''poisoned'' utc item) ''release_reason'' (J_str rsn))"

text \<open>The last matching row is the one returned.\<close>

fun quarantine_rows :: "(dict \<Rightarrow> pool_error + bool) \<Rightarrow> (bool \<Rightarrow> dict \<Rightarrow> dict) \<Rightarrow> json list
    \<Rightarrow> dict option \<Rightarrow> pool_error + (json list \<times> dict option)" where
  "quarantine_rows p f [] released = Inr ([], released)"
| "quarantine_rows p f (J_obj item # rows) released =
     bindE (p item) (\<lambda>hit.
       bindE (quarantine_rows p f rows (if hit then Some (f hit item) else released))
         (\<lambda>(rows', rel). Inr (J_obj (f hit item) # rows', rel)))"
| "quarantine_rows p f (row # rows) released =
     bindE (quarantine_rows p f rows released) (\<lambda>(rows', rel). Inr (row # rows', rel))"

definition quarantine_pool :: "(dict \<Rightarrow> pool_error + bool) \<Rightarrow> string \<Rightarrow> string \<Rightarrow> string \<Rightarrow> dict
    \<Rightarrow> pool_error + (dict \<times> dict)" where
  "quarantine_pool p not_found rsn utc pool =
     (if \<not> is_fork_basis pool
      then Inl (Runtime_error ''pool-generation quarantine requires a fork-basis pool'')
      else let pool1 = poisoned_pool rsn utc pool
      in bindE (of_iter (get_rows pool1 ''sessions'')) (\<lambda>rows.
         bindE (quarantine_rows p (quarantine_item rsn utc) rows None) (\<lambda>(rows', released).
           case released of
             None \<Rightarrow> Inl (Runtime_error not_found)
           | Some item \<Rightarrow> Inr (item, put_rows pool1 ''sessions'' rows'))))"

definition quarantine_fork_basis_pool :: "pyrt \<Rightarrow> string \<Rightarrow> string \<Rightarrow> string \<Rightarrow> dict
    \<Rightarrow> pool_error + (dict \<times> dict)" where
  "quarantine_fork_basis_pool R session rsn utc pool =
     quarantine_pool (\<lambda>item. bindE (seat_path R item) (\<lambda>p. Inr (p = rt_resolve R session)))
       ''session is not part of this warm pool'' rsn utc pool"

end
