(* ===== verification/Pool_Seats.thy ===== *)
theory Pool_Seats
  imports Pool_Leases
begin

text \<open>
  The seat transitions on the stored pool document, \<open>hol_workbench/pools/seat_lifecycle.py\<close>, and
  the lease helpers of \<open>hol_workbench/hot_profile_session.py\<close>.  The state of the component is the
  document in \<open>pool.json\<close>; an operation returns its result with the document stored afterwards,
  which is the old one unless the code reaches \<open>_persist\<close>.
\<close>

type_synonym 'a seat_result = "(pool_error + 'a) \<times> dict"

section \<open>Locked transitions\<close>

definition persist :: "string \<Rightarrow> dict \<Rightarrow> dict" where
  "persist utc pool = dset pool ''updated_utc'' (J_str utc)"

definition persisting :: "string \<Rightarrow> dict \<Rightarrow> pool_error + ('a \<times> dict) \<Rightarrow> 'a seat_result" where
  "persisting utc pool res =
     (case res of Inl e \<Rightarrow> (Inl e, pool) | Inr (x, pool') \<Rightarrow> (Inr x, persist utc pool'))"

text \<open>
  The environment of an operation: the two clocks readings, the random token, the process id and
  environment of the caller, and the liveness of processes and sessions when it looks.
\<close>

record seat_env =
  se_utc :: string
  se_token :: string
  se_pid :: int
  se_context_run :: "string option"
  se_owner_alive :: "int \<Rightarrow> bool"
  se_session_alive :: "dict \<Rightarrow> bool"

definition holds_lease :: "string \<Rightarrow> dict \<Rightarrow> bool" where
  "holds_lease lease_id item \<longleftrightarrow>
     (case dget item ''lease'' of J_obj l \<Rightarrow> dget l ''lease_id'' = J_str lease_id | _ \<Rightarrow> False)"

definition selected_lease_id :: "seat_env \<Rightarrow> string option \<Rightarrow> string" where
  "selected_lease_id V lease_id = (case lease_id of None \<Rightarrow> se_token V | Some i \<Rightarrow> i)"

definition new_lease :: "seat_env \<Rightarrow> string option \<Rightarrow> string \<Rightarrow> string option \<Rightarrow> string \<Rightarrow> dict" where
  "new_lease V agent owner_kind owner_command lease_id =
     lease_owner_metadata
       \<lparr>lo_agent = agent, lo_lease_id = lease_id, lo_leased_utc = se_utc V, lo_owner_kind = owner_kind,
        lo_owner_pid = Some (se_pid V), lo_context_run = se_context_run V, lo_command = owner_command\<rparr>"

definition checkout_pool_seat_locked :: "pyrt \<Rightarrow> seat_env \<Rightarrow> string option \<Rightarrow> string option \<Rightarrow> bool
    \<Rightarrow> string \<Rightarrow> string option \<Rightarrow> dict \<Rightarrow> dict seat_result" where
  "checkout_pool_seat_locked R V agent lease_id allow_dirty owner_kind owner_command pool =
     (if lease_id = Some [] then (Inl (Value_error ''warm pool lease id must be nonempty''), pool)
      else let sel = selected_lease_id V lease_id
      in case get_rows pool ''sessions'' of
           None \<Rightarrow> (Inl Type_error, pool)
         | Some rows \<Rightarrow>
             if list_ex (holds_lease sel) (dicts rows) then (Inl (Lease_id_collision sel), pool)
             else case checkout_warm_pool_seat R (se_owner_alive V) (se_session_alive V)
                         (new_lease V agent owner_kind owner_command sel) allow_dirty
                         (Some (se_utc V)) pool of
                    Inl (Checkout_refused msg required pool') \<Rightarrow>
                      (Inl (Checkout_refused msg required pool'), persist (se_utc V) pool')
                  | Inl e \<Rightarrow> (Inl e, pool)
                  | Inr (item, pool') \<Rightarrow> (Inr item, persist (se_utc V) pool'))"

definition release_pool_seat_locked :: "pyrt \<Rightarrow> seat_env \<Rightarrow> string \<Rightarrow> string \<Rightarrow> string option \<Rightarrow> dict
    \<Rightarrow> dict seat_result" where
  "release_pool_seat_locked R V session status rsn pool =
     persisting (se_utc V) pool (release_warm_pool_seat R session status (se_utc V) rsn pool)"

definition quarantine_fork_basis_locked :: "pyrt \<Rightarrow> seat_env \<Rightarrow> string \<Rightarrow> string \<Rightarrow> dict
    \<Rightarrow> dict seat_result" where
  "quarantine_fork_basis_locked R V session rsn pool =
     persisting (se_utc V) pool (quarantine_fork_basis_pool R session rsn (se_utc V) pool)"

definition quarantine_fork_basis_lease_locked :: "pyrt \<Rightarrow> seat_env \<Rightarrow> string \<Rightarrow> string \<Rightarrow> dict
    \<Rightarrow> dict seat_result" where
  "quarantine_fork_basis_lease_locked R V lease_id rsn pool =
     persisting (se_utc V) pool
       (quarantine_pool (\<lambda>item. Inr (holds_lease lease_id item))
          ''lease is not part of this warm pool'' rsn (se_utc V) pool)"

definition finalize_fork_pool_seat_locked :: "pyrt \<Rightarrow> seat_env \<Rightarrow> string \<Rightarrow> bool \<Rightarrow> string \<Rightarrow> dict
    \<Rightarrow> dict seat_result" where
  "finalize_fork_pool_seat_locked R V session reusable rsn pool =
     (if reusable then release_pool_seat_locked R V session ''idle'' (Some rsn) pool
      else quarantine_fork_basis_locked R V session rsn pool)"

section \<open>Leases of a hot profile session\<close>

definition lease_matches :: "string \<Rightarrow> json list \<Rightarrow> (nat \<times> dict) list" where
  "lease_matches lease_id rows =
     List.map_filter (\<lambda>(i, r). case r of
         J_obj d \<Rightarrow> if holds_lease lease_id d then Some (i, d) else None
       | _ \<Rightarrow> None) (enumerate 0 rows)"

definition nonempty_str :: "json \<Rightarrow> string option" where
  "nonempty_str v = (case v of J_str s \<Rightarrow> if s = [] then None else Some s | _ \<Rightarrow> None)"

definition ambiguous_reason :: "string \<Rightarrow> string" where
  "ambiguous_reason lease_id = ''warm pool lease ownership is ambiguous or malformed: '' @ lease_id"

definition quarantine_ambiguous_lease :: "pyrt \<Rightarrow> seat_env \<Rightarrow> string \<Rightarrow> (nat \<times> dict) list \<Rightarrow> dict
    \<Rightarrow> unit seat_result" where
  "quarantine_ambiguous_lease R V lease_id matches pool =
     (if matches = [] then (Inl (Runtime_error (ambiguous_reason lease_id)), pool)
      else case quarantine_fork_basis_lease_locked R V lease_id (ambiguous_reason lease_id) pool of
             (Inl e, pool') \<Rightarrow> (Inl e, pool')
           | (Inr _, pool') \<Rightarrow> (Inr (), pool'))"

text \<open>Quarantine, then raise \<open>e\<close>; a failed quarantine raises its own error.\<close>

definition quarantine_then :: "pyrt \<Rightarrow> seat_env \<Rightarrow> string \<Rightarrow> (nat \<times> dict) list \<Rightarrow> pool_error \<Rightarrow> dict
    \<Rightarrow> 'a seat_result" where
  "quarantine_then R V lease_id matches e pool =
     (case quarantine_ambiguous_lease R V lease_id matches pool of
        (Inl e', pool') \<Rightarrow> (Inl e', pool')
      | (Inr _, pool') \<Rightarrow> (Inl e, pool'))"

definition session_for_lease :: "pyrt \<Rightarrow> seat_env \<Rightarrow> string \<Rightarrow> dict \<Rightarrow> string option seat_result" where
  "session_for_lease R V lease_id pool =
     (case get_rows pool ''sessions'' of
        None \<Rightarrow> (Inl Type_error, pool)
      | Some rows \<Rightarrow>
          let matches = lease_matches lease_id rows
          in case (length matches = 1,
                   if matches = [] then None else nonempty_str (dget (snd (hd matches)) ''session_dir'')) of
               (True, Some dir) \<Rightarrow> (Inr (Some dir), pool)
             | _ \<Rightarrow>
                 if matches = [] then (Inr None, pool)
                 else quarantine_then R V lease_id matches (Runtime_error (ambiguous_reason lease_id)) pool)"

definition same_session :: "pyrt \<Rightarrow> string \<Rightarrow> json list \<Rightarrow> nat list" where
  "same_session R session rows =
     List.map_filter (\<lambda>(i, r). case r of
         J_obj d \<Rightarrow>
           (case nonempty_str (dget d ''session_dir'') of
              Some p \<Rightarrow> if rt_resolve R p = rt_resolve R session then Some i else None
            | None \<Rightarrow> None)
       | _ \<Rightarrow> None) (enumerate 0 rows)"

definition finalize_lease :: "pyrt \<Rightarrow> seat_env \<Rightarrow> string \<Rightarrow> bool \<Rightarrow> string \<Rightarrow> dict \<Rightarrow> dict seat_result" where
  "finalize_lease R V lease_id reusable rsn pool =
     (case get_rows pool ''sessions'' of
        None \<Rightarrow> (Inl Type_error, pool)
      | Some rows \<Rightarrow>
          let matches = lease_matches lease_id rows
          in if matches = []
             then (Inl (Runtime_error (''warm pool lease no longer owns a session: '' @ lease_id)), pool)
             else case (length matches = 1, nonempty_str (dget (snd (hd matches)) ''session_dir'')) of
               (True, Some session) \<Rightarrow>
                 if same_session R session rows \<noteq> [fst (hd matches)]
                 then quarantine_then R V lease_id matches
                        (Runtime_error (''warm pool session ownership is ambiguous for lease: '' @ lease_id))
                        pool
                 else finalize_fork_pool_seat_locked R V session reusable rsn pool
             | _ \<Rightarrow> quarantine_then R V lease_id matches (Runtime_error (ambiguous_reason lease_id)) pool)"

definition broker_response_proves_reusable :: "json \<Rightarrow> bool" where
  "broker_response_proves_reusable response =
     (case response of
        J_obj r \<Rightarrow> dget r ''seat_reusable'' = J_bool True \<and> dget r ''child_quiescent'' = J_bool True
          \<and> dget r ''cleanup_verified'' = J_bool True
      | _ \<Rightarrow> False)"

end
