(* ===== verification/Pool_Invariants.thy ===== *)
theory Pool_Invariants
  imports Pool_Seats
begin

text \<open>
  What the seat transitions of \<open>Pool_Seats\<close> do to the seats of a pool.  Every operation but a
  checkout only lets leases go (\<open>keeps\<close>); a checkout takes exactly one free seat on top of that
  (\<open>takes\<close>).  The invariants of a pool follow from these two facts by rule induction over the
  steps of \<open>pool_step\<close>.
\<close>

section \<open>Letting go\<close>

abbreviation busy :: "dict \<Rightarrow> bool" where
  "busy d \<equiv> dget d ''status'' = J_str ''busy''"

abbreviation seats :: "dict \<Rightarrow> dict list" where
  "seats pool \<equiv> row_dicts pool ''sessions''"

text \<open>A seat keeps its identity, and it keeps its lease and its occupation or loses them.\<close>

definition keeps :: "dict \<Rightarrow> dict \<Rightarrow> bool" where
  "keeps d d' \<longleftrightarrow>
     dget d' ''session_dir'' = dget d ''session_dir''
       \<and> dget d' ''control_session_dir'' = dget d ''control_session_dir''
       \<and> dget d' ''lease'' \<in> {J_null, dget d ''lease''}
       \<and> (busy d' \<longrightarrow> busy d \<and> dget d' ''lease'' = dget d ''lease'')"

lemma keeps_refl [simp]: "keeps d d"
  by (simp add: keeps_def)

lemma keeps_trans: "keeps d e \<Longrightarrow> keeps e f \<Longrightarrow> keeps d f"
  by (auto simp: keeps_def)

lemma keeps_all_refl [simp]: "list_all2 keeps ds ds"
  by (simp add: list_all2_refl)

lemma keeps_all_trans: "list_all2 keeps xs ys \<Longrightarrow> list_all2 keeps ys zs \<Longrightarrow> list_all2 keeps xs zs"
  by (simp add: list_all2_conv_all_nth) (metis keeps_trans)

named_theorems letting_go \<open>the changes of a seat that only let go\<close>

lemma annotate_item_keeps: "annotate_item missing d = Some (d', c) \<Longrightarrow> keeps d d'"
  by (auto simp: annotate_item_def Let_def keeps_def split: if_split_asm)

lemma reclaimed_item_keeps [letting_go]: "keeps d (reclaimed_item R utc d)"
  by (simp add: reclaimed_item_def keeps_def)

lemma reclaim_row_keeps [letting_go]: "keeps d (reclaim_row R utc dirs d)"
  by (simp add: reclaim_row_def letting_go)

lemma basis_missing_keeps [letting_go]: "keeps d (basis_missing_seat missing d)"
  by (simp add: basis_missing_seat_def keeps_def)

lemma dead_keeps [letting_go]: "keeps d (dead_seat d)"
  by (simp add: dead_seat_def keeps_def)

lemma free_seat_keeps: "status \<noteq> ''busy'' \<Longrightarrow> keeps d (free_seat status utc d)"
  by (simp add: free_seat_def keeps_def)

lemma dset_keeps:
  "keeps d e \<Longrightarrow> k \<notin> {''session_dir'', ''control_session_dir'', ''lease'', ''status''}
     \<Longrightarrow> keeps d (dset e k v)"
  by (simp add: keeps_def)

lemma release_item_keeps:
  "status \<noteq> ''busy'' \<Longrightarrow> keeps d (release_item R pool status utc rsn d)"
  by (auto simp: release_item_def set_reason_def intro!: dset_keeps free_seat_keeps)

lemma quarantine_item_keeps [letting_go]: "keeps d (quarantine_item rsn utc hit d)"
  by (auto simp: quarantine_item_def Let_def free_seat_def keeps_def)

section \<open>The loops over the rows\<close>

lemma map_dicts_dicts [simp]: "dicts (map_dicts f rows) = map f (dicts rows)"
proof (induction rows)
  case (Cons r rows)
  then show ?case by (cases r) (simp_all add: map_dicts_def)
qed (simp add: map_dicts_def)

lemma annotate_rows_keeps: "annotate_rows pool rows = Some (rows', c) \<Longrightarrow> list_all2 keeps (dicts rows) (dicts rows')"
proof (induction pool rows arbitrary: rows' c rule: annotate_rows.induct)
  case (2 pool item rows)
  then obtain missing item1 c0 where a: "warm_pool_missing_preloads pool item = Some missing"
    "annotate_item missing item = Some (item1, c0)" by (auto split: option.split_asm)
  from "2.prems" a obtain rows1 c1 where r: "annotate_rows pool rows = Some (rows1, c1)"
    "rows' = J_obj item1 # rows1" by (cases "annotate_rows pool rows") auto
  from "2.IH" [OF a refl r(1)] r(2) annotate_item_keeps [OF a(2)] show ?case by simp
qed auto

text \<open>The seats before the statuses loop and the one it takes, with what the visit found.\<close>

definition takes :: "dict list \<Rightarrow> dict list \<Rightarrow> (dict \<Rightarrow> dict \<Rightarrow> bool) \<Rightarrow> dict \<Rightarrow> bool" where
  "takes ds ds' took item \<longleftrightarrow>
     (\<exists>xs d ys. took d item \<and> list_all2 keeps ds (xs @ d # ys) \<and> ds' = xs @ item # ys)"

lemma takes_after: "list_all2 keeps ds es \<Longrightarrow> takes es fs took item \<Longrightarrow> takes ds fs took item"
  unfolding takes_def by (blast intro: keeps_all_trans)

lemma takes_mono: "takes ds es took item \<Longrightarrow> (\<And>d. took d item \<Longrightarrow> took' d item) \<Longrightarrow> takes ds es took' item"
  unfolding takes_def by blast

lemma takes_here: "took d item \<Longrightarrow> takes (d # ds) (item # ds) took item"
  unfolding takes_def by (rule exI [of _ "[]"]) auto

lemma takes_Cons:
  assumes "takes ds ds' took item" and "keeps d d'"
  shows "takes (d # ds) (d' # ds') took item"
proof -
  from assms(1) obtain xs e ys where "took e item" "list_all2 keeps ds (xs @ e # ys)"
    "ds' = xs @ item # ys" unfolding takes_def by blast
  with assms(2) show ?thesis
    unfolding takes_def by (intro exI [of _ "d' # xs"] exI [of _ e] exI [of _ ys]) simp
qed

lemma scan_seats_spec:
  assumes "scan_seats visit rows = Inr (rows', sel)"
    and "\<And>d v. visit d = Inr v \<Longrightarrow> case v of Demote d' \<Rightarrow> keeps d d' | _ \<Rightarrow> True"
  shows "case sel of
      None \<Rightarrow> list_all2 keeps (dicts rows) (dicts rows')
    | Some item \<Rightarrow> takes (dicts rows) (dicts rows') (\<lambda>d x. visit d = Inr (Take x)) item"
  using assms
proof (induction visit rows arbitrary: rows' sel rule: scan_seats.induct)
  case (2 visit item rows)
  from "2.prems"(1) obtain v where v: "visit item = Inr v" by (auto simp: bindE_eq_Inr)
  show ?case
  proof (cases v)
    case (Take item')
    with "2.prems"(1) v show ?thesis by (auto intro: takes_here)
  next
    case Skip
    with "2.prems"(1) v obtain rows1 where r: "scan_seats visit rows = Inr (rows1, sel)"
      "rows' = J_obj item # rows1" by (auto simp: bindE_eq_Inr)
    from "2.IH"(1) [OF v Skip r(1) "2.prems"(2)] r show ?thesis
      by (auto split: option.splits intro: takes_Cons)
  next
    case (Demote d')
    with "2.prems"(2) v have k: "keeps item d'" by force
    from Demote "2.prems"(1) v obtain rows1 where r: "scan_seats visit rows = Inr (rows1, sel)"
      "rows' = J_obj d' # rows1" by (auto simp: bindE_eq_Inr)
    from "2.IH"(2) [OF v Demote r(1) "2.prems"(2)] r k show ?thesis
      by (auto split: option.splits intro: takes_Cons)
  qed
qed (auto simp: bindE_eq_Inr split: option.splits)

lemma scan_statuses_spec:
  assumes "scan_statuses visit ws rows = Inr (rows', sel)"
    and "\<And>w d v. visit w d = Inr v \<Longrightarrow> case v of Demote d' \<Rightarrow> keeps d d' | _ \<Rightarrow> True"
  shows "case sel of
      None \<Rightarrow> list_all2 keeps (dicts rows) (dicts rows')
    | Some item \<Rightarrow> takes (dicts rows) (dicts rows') (\<lambda>d x. \<exists>w \<in> set ws. visit w d = Inr (Take x)) item"
  using assms
proof (induction visit ws rows arbitrary: rows' sel rule: scan_statuses.induct)
  case (1 visit rows)
  then show ?case by simp
next
  case (2 visit w ws rows)
  then obtain rows1 sel1 where s: "scan_seats (visit w) rows = Inr (rows1, sel1)"
    by (auto simp: bindE_eq_Inr)
  have spec: "case sel1 of
      None \<Rightarrow> list_all2 keeps (dicts rows) (dicts rows1)
    | Some item \<Rightarrow> takes (dicts rows) (dicts rows1) (\<lambda>d x. visit w d = Inr (Take x)) item"
    by (rule scan_seats_spec [OF s "2.prems"(2)])
  show ?case
  proof (cases sel1)
    case (Some item)
    with "2.prems"(1) s spec show ?thesis by (auto elim: takes_mono)
  next
    case None
    with "2.prems"(1) s have rest: "scan_statuses visit ws rows1 = Inr (rows', sel)" by simp
    from None spec have k: "list_all2 keeps (dicts rows) (dicts rows1)" by simp
    note IH = "2.IH" [OF s refl None rest "2.prems"(2)]
    show ?thesis
    proof (cases sel)
      case None
      with IH k show ?thesis by (auto intro: keeps_all_trans)
    next
      case (Some x)
      with IH have
        "takes (dicts rows1) (dicts rows') (\<lambda>d x. \<exists>w \<in> set ws. visit w d = Inr (Take x)) x" by simp
      from takes_mono [OF takes_after [OF k this]] Some show ?thesis by simp
    qed
  qed
qed

lemma visit_seat_cases:
  assumes "visit_seat R pool alive lease occupied w item = Inr v"
  shows "case v of
      Skip \<Rightarrow> True
    | Demote d' \<Rightarrow> keeps item d'
    | Take d' \<Rightarrow> d' = take_seat lease item \<and> dget item ''status'' = J_str w
        \<and> warm_pool_missing_preloads pool item = Some [] \<and> alive item
        \<and> (case occupied of None \<Rightarrow> True
            | Some cs \<Rightarrow> \<exists>c. physical_control_session R item = Inr c \<and> c \<notin> set cs)"
  using assms
  by (auto simp: visit_seat_def bindE_eq_Inr letting_go split: if_split_asm option.splits)

section \<open>The operations\<close>

text \<open>The fields of a pool that decide its topology and its capacity do not change.\<close>

definition same_frame :: "dict \<Rightarrow> dict \<Rightarrow> bool" where
  "same_frame pool pool' \<longleftrightarrow>
     (\<forall>k \<in> {''execution_topology'', ''broker_runtime_sha256'', ''engine'', ''preloads''}. dget pool' k = dget pool k)"

lemma same_frame_refl [simp]: "same_frame pool pool"
  by (simp add: same_frame_def)

lemma same_frame_trans: "same_frame p q \<Longrightarrow> same_frame q r \<Longrightarrow> same_frame p r"
  by (simp add: same_frame_def)

lemma same_frame_put [simp]: "same_frame pool (put_rows pool ''sessions'' rows)"
  by (simp add: same_frame_def)

definition evolves :: "dict \<Rightarrow> dict \<Rightarrow> bool" where
  "evolves pool pool' \<longleftrightarrow>
     same_frame pool pool' \<and> list_all2 keeps (seats pool) (seats pool')
       \<and> dget pool' ''status'' \<in> {dget pool ''status'', J_str ''poisoned''}"

lemma evolves_refl [simp]: "evolves pool pool"
  by (simp add: evolves_def)

lemma evolves_trans: "evolves p q \<Longrightarrow> evolves q r \<Longrightarrow> evolves p r"
  by (auto simp: evolves_def intro: same_frame_trans keeps_all_trans)

lemma evolves_dset:
  "k \<notin> {''execution_topology'', ''broker_runtime_sha256'', ''engine'', ''preloads'', ''sessions''}
     \<Longrightarrow> k = ''status'' \<longrightarrow> v = J_str ''poisoned'' \<Longrightarrow> evolves pool (dset pool k v)"
  by (auto simp: evolves_def same_frame_def)

lemma evolves_put:
  assumes "get_rows pool ''sessions'' = Some rows" and "list_all2 keeps (dicts rows) (dicts rows')"
  shows "evolves pool (put_rows pool ''sessions'' rows')"
proof -
  have "seats (put_rows pool ''sessions'' rows') = dicts rows'"
    using assms(2) by (intro row_dicts_put [OF assms(1)]) auto
  then show ?thesis using assms by (simp add: evolves_def row_dicts_def)
qed

lemma reclaim_evolves:
  assumes "reclaim_stale_leases R alive utc pool = Some (rec, pool')"
  shows "evolves pool pool'"
proof -
  from assms obtain rows dirs where rows: "get_rows pool ''sessions'' = Some rows"
    and p: "pool' = put_rows pool ''sessions'' (map_dicts (reclaim_row R utc dirs) rows) \<or>
      (\<exists>v. pool' = dset (put_rows pool ''sessions'' (map_dicts (reclaim_row R utc dirs) rows))
                ''reclaimed_leases'' v)"
    unfolding reclaim_stale_leases_def
    by (auto simp: Let_def reclaim_history_def split: option.split_asm if_split_asm)
  have "list_all2 keeps (dicts rows) (dicts (map_dicts (reclaim_row R utc dirs) rows))"
    by (simp add: list_all2_map2 list_all2_same letting_go)
  note e = evolves_put [OF rows this]
  from p e show ?thesis by (auto intro: evolves_trans [OF e] evolves_dset)
qed

lemma annotate_evolves:
  assumes "annotate_warm_pool_basis_state pool = Some (pool', c)"
  shows "evolves pool pool'"
  using assms
  by (auto simp: annotate_warm_pool_basis_state_def split: option.split_asm
      intro: evolves_put annotate_rows_keeps)

lemma release_rows_keeps:
  "release_rows R t f rows = Inr (x, rows') \<Longrightarrow> (\<And>d. keeps d (f d))
     \<Longrightarrow> list_all2 keeps (dicts rows) (dicts rows')"
proof (induction R t f rows arbitrary: x rows' rule: release_rows.induct)
  case (2 R t f item rows)
  then show ?case by (auto simp: bindE_eq_Inr split: if_split_asm)
qed (auto simp: bindE_eq_Inr)

lemma release_evolves:
  assumes "release_warm_pool_seat R session status utc rsn pool = Inr (x, pool')" and "status \<noteq> ''busy''"
  shows "evolves pool pool'"
  using assms
  by (auto simp: release_warm_pool_seat_def bindE_eq_Inr intro!: evolves_put release_rows_keeps
      release_item_keeps)

lemma quarantine_rows_keeps:
  "quarantine_rows p f rows rel = Inr (rows', rel') \<Longrightarrow> (\<And>b d. keeps d (f b d))
     \<Longrightarrow> list_all2 keeps (dicts rows) (dicts rows')"
  by (induction p f rows rel arbitrary: rows' rel' rule: quarantine_rows.induct)
     (auto simp: bindE_eq_Inr)

lemma quarantine_evolves:
  assumes "quarantine_pool p msg rsn utc pool = Inr (x, pool')"
  shows "evolves pool pool' \<and> dget pool' ''status'' = J_str ''poisoned''"
proof -
  have e: "evolves pool (poisoned_pool rsn utc pool)"
    unfolding poisoned_pool_def
    by (intro evolves_trans [OF evolves_dset evolves_trans [OF evolves_dset evolves_dset]]) simp_all
  from assms obtain rows rows' rel where
    "get_rows (poisoned_pool rsn utc pool) ''sessions'' = Some rows"
    "quarantine_rows p (quarantine_item rsn utc) rows None = Inr (rows', rel)"
    "pool' = put_rows (poisoned_pool rsn utc pool) ''sessions'' rows'"
    by (auto simp: quarantine_pool_def Let_def bindE_eq_Inr split: if_split_asm option.split_asm)
  moreover from this have "list_all2 keeps (dicts rows) (dicts rows')"
    by (auto intro: quarantine_rows_keeps letting_go)
  ultimately have "evolves (poisoned_pool rsn utc pool) pool'" by (auto intro: evolves_put)
  with \<open>pool' = _\<close> show ?thesis
    using evolves_trans [OF e] by (simp add: poisoned_pool_def)
qed

subsection \<open>Checkout\<close>

lemma control_sessions_spec:
  "control_sessions R ds = Inr cs \<Longrightarrow> d \<in> set ds
     \<Longrightarrow> \<exists>c \<in> set cs. physical_control_session R d = Inr c"
  by (induction R ds arbitrary: cs rule: control_sessions.induct) (auto simp: bindE_eq_Inr)

definition v3_pool :: "dict \<Rightarrow> bool" where
  "v3_pool pool \<longleftrightarrow> dget pool ''execution_topology'' = J_str mechanical_basis_broker_v3"

definition took_seat :: "pyrt \<Rightarrow> (dict \<Rightarrow> bool) \<Rightarrow> dict \<Rightarrow> bool \<Rightarrow> dict \<Rightarrow> dict \<Rightarrow> dict \<Rightarrow> bool" where
  "took_seat R alive lease allow_dirty pool d item \<longleftrightarrow>
     item = take_seat lease d \<and> dget d ''status'' \<in> J_str ` set (preferred_statuses allow_dirty)
       \<and> warm_pool_missing_preloads pool d = Some [] \<and> alive d
       \<and> (v3_pool pool \<longrightarrow>
            (\<exists>c. physical_control_session R d = Inr c
               \<and> (\<forall>a \<in> set (seats pool). seat_active a \<longrightarrow> physical_control_session R a \<noteq> Inr c)))"

lemma physical_capacity_v3: "physical_broker_capacity R pool = Inr cap \<Longrightarrow> (cap \<noteq> None) = v3_pool pool"
  by (auto simp: physical_broker_capacity_def v3_pool_def bindE_eq_Inr split: if_split_asm)

lemma occupied_spec:
  assumes "physical_broker_capacity R pool = Inr cap" "occupied_controls R cap (seats pool) = Inr occ"
  shows "(occ \<noteq> None) = v3_pool pool
    \<and> (\<forall>cs. occ = Some cs \<longrightarrow> (\<forall>a \<in> set (seats pool). seat_active a \<longrightarrow>
          (\<exists>c \<in> set cs. physical_control_session R a = Inr c)))"
  using assms(2) physical_capacity_v3 [OF assms(1)]
  by (auto simp: occupied_controls_def bindE_eq_Inr split: option.split_asm dest: control_sessions_spec)

lemma select_seat_spec:
  assumes "select_seat R alive lease allow_dirty pool = Inr (rows', sel)"
  obtains rows where "get_rows pool ''sessions'' = Some rows"
    and "case sel of
          None \<Rightarrow> list_all2 keeps (dicts rows) (dicts rows')
        | Some item \<Rightarrow> takes (dicts rows) (dicts rows') (took_seat R alive lease allow_dirty pool) item"
    and "\<forall>n. broker_pool_attempt_limit R pool = Inr (Some n) \<longrightarrow> length (filter seat_active (seats pool)) < n"
proof -
  from assms obtain rows limit cap occ where rows: "get_rows pool ''sessions'' = Some rows"
    and limit: "broker_pool_attempt_limit R pool = Inr limit"
      "\<not> (case limit of None \<Rightarrow> False | Some n \<Rightarrow> n \<le> length (filter seat_active (dicts rows)))"
    and cap: "physical_broker_capacity R pool = Inr cap"
    and occ: "occupied_controls R cap (dicts rows) = Inr occ"
    and scan: "scan_statuses (visit_seat R pool alive lease occ) (preferred_statuses allow_dirty) rows
                 = Inr (rows', sel)"
    unfolding select_seat_def by (auto simp: bindE_eq_Inr split: if_split_asm)
  have s: "seats pool = dicts rows" using rows by (simp add: row_dicts_def)
  note o = occupied_spec [OF cap occ [folded s]]
  have t: "took_seat R alive lease allow_dirty pool d x"
    if "\<exists>w \<in> set (preferred_statuses allow_dirty). visit_seat R pool alive lease occ w d = Inr (Take x)" for d x
    using that o by (auto simp: took_seat_def dest!: visit_seat_cases split: option.splits) fastforce+
  have "case sel of
      None \<Rightarrow> list_all2 keeps (dicts rows) (dicts rows')
    | Some item \<Rightarrow> takes (dicts rows) (dicts rows')
        (\<lambda>d x. \<exists>w \<in> set (preferred_statuses allow_dirty). visit_seat R pool alive lease occ w d = Inr (Take x)) item"
    by (rule scan_statuses_spec [OF scan]) (auto dest: visit_seat_cases split: visit.splits)
  then have "case sel of
          None \<Rightarrow> list_all2 keeps (dicts rows) (dicts rows')
        | Some item \<Rightarrow> takes (dicts rows) (dicts rows') (took_seat R alive lease allow_dirty pool) item"
    by (cases sel) (auto intro: takes_mono t)
  with rows limit s show ?thesis by (intro that) auto
qed

lemma select_seat_taken:
  assumes "select_seat R alive lease allow_dirty pool = Inr (rows', Some item)"
  shows "\<exists>rows. get_rows pool ''sessions'' = Some rows
    \<and> takes (dicts rows) (dicts rows') (took_seat R alive lease allow_dirty pool) item
    \<and> (\<forall>n. broker_pool_attempt_limit R pool = Inr (Some n) \<longrightarrow> length (filter seat_active (seats pool)) < n)"
  by (rule select_seat_spec [OF assms]) simp

lemma select_seat_none:
  assumes "select_seat R alive lease allow_dirty pool = Inr (rows', None)"
  shows "\<exists>rows. get_rows pool ''sessions'' = Some rows \<and> list_all2 keeps (dicts rows) (dicts rows')"
  by (rule select_seat_spec [OF assms]) simp

text \<open>Only the pool's own gate refuses; the errors of the loops are of other kinds.\<close>

definition plain_error :: "pool_error \<Rightarrow> bool" where
  "plain_error e \<longleftrightarrow> (case e of Checkout_refused _ _ _ \<Rightarrow> False | _ \<Rightarrow> True)"

lemma plain_error_simps [simp]:
  "plain_error Type_error" "plain_error (Runtime_error m)" "\<not> plain_error (Checkout_refused m r p)"
  by (simp_all add: plain_error_def)

named_theorems plain \<open>errors that are not refusals\<close>

lemma pcs_plain [plain]: "physical_control_session R d = Inl e \<Longrightarrow> plain_error e"
  by (auto simp: physical_control_session_def split: json.split_asm if_split_asm)

lemma control_sessions_plain [plain]: "control_sessions R ds = Inl e \<Longrightarrow> plain_error e"
  by (induction R ds rule: control_sessions.induct) (auto simp: bindE_eq_Inl plain)

lemma limit_plain [plain]: "broker_pool_attempt_limit R pool = Inl e \<Longrightarrow> plain_error e"
  by (auto simp: broker_pool_attempt_limit_def split: if_split_asm option.split_asm json.split_asm)

lemma capacity_plain [plain]: "physical_broker_capacity R pool = Inl e \<Longrightarrow> plain_error e"
  by (auto simp: physical_broker_capacity_def bindE_eq_Inl split: if_split_asm dest: plain)

lemma occupied_plain [plain]: "occupied_controls R cap ds = Inl e \<Longrightarrow> plain_error e"
  by (auto simp: occupied_controls_def bindE_eq_Inl split: option.split_asm dest: plain)

lemma visit_plain [plain]: "visit_seat R pool alive lease occ w d = Inl e \<Longrightarrow> plain_error e"
  by (auto simp: visit_seat_def bindE_eq_Inl split: if_split_asm option.split_asm dest: plain)

lemma scan_seats_plain:
  "scan_seats visit rows = Inl e \<Longrightarrow> (\<And>d e. visit d = Inl e \<Longrightarrow> plain_error e) \<Longrightarrow> plain_error e"
proof (induction visit rows rule: scan_seats.induct)
  case (2 visit item rows)
  show ?case
  proof (cases "visit item")
    case (Inl e')
    with "2.prems" show ?thesis by auto
  next
    case (Inr v)
    with "2.prems" "2.IH" show ?thesis by (cases v) (auto simp: bindE_eq_Inl)
  qed
qed (auto simp: bindE_eq_Inl)

lemma scan_statuses_plain:
  "scan_statuses visit ws rows = Inl e \<Longrightarrow> (\<And>w d e. visit w d = Inl e \<Longrightarrow> plain_error e) \<Longrightarrow> plain_error e"
proof (induction visit ws rows rule: scan_statuses.induct)
  case (2 visit w ws rows)
  show ?case
  proof (cases "scan_seats (visit w) rows")
    case (Inl e')
    with "2.prems" show ?thesis using scan_seats_plain [OF Inl] by auto
  next
    case (Inr p)
    then obtain rows1 sel1 where s: "scan_seats (visit w) rows = Inr (rows1, sel1)" by (cases p) simp
    with "2.prems"(1) have "sel1 = None" "scan_statuses visit ws rows1 = Inl e"
      by (auto split: option.split_asm)
    from "2.IH" [OF s refl this "2.prems"(2)] show ?thesis .
  qed
qed simp

lemma select_seat_refused:
  "select_seat R alive lease allow_dirty pool = Inl e \<Longrightarrow> plain_error e
     \<or> (\<exists>m. e = Checkout_refused m [] pool)"
  by (auto simp: select_seat_def bindE_eq_Inl split: if_split_asm
      dest: plain dest!: scan_statuses_plain [OF _ visit_plain])

lemma same_frame_limit: "same_frame p q \<Longrightarrow> broker_pool_attempt_limit R q = broker_pool_attempt_limit R p"
  by (simp add: same_frame_def broker_pool_attempt_limit_def)

lemma same_frame_v3: "same_frame p q \<Longrightarrow> v3_pool q = v3_pool p"
  by (simp add: same_frame_def v3_pool_def)

lemma checkout_spec:
  assumes "checkout_warm_pool_seat R oa alive lease allow_dirty utc pool = Inr (item, pool')"
  obtains pool2 where "pool_status R pool = ''ready''" "evolves pool pool2" "same_frame pool2 pool'"
    "dget pool' ''status'' = dget pool2 ''status''"
    "takes (seats pool2) (seats pool') (took_seat R alive lease allow_dirty pool2) item"
    "\<forall>n. broker_pool_attempt_limit R pool = Inr (Some n) \<longrightarrow> length (filter seat_active (seats pool2)) < n"
proof -
  from assms obtain rec pool1 pool2 c rows' where r: "pool_status R pool = ''ready''"
    "reclaim_stale_leases R oa (case utc of None \<Rightarrow> '''' | Some u \<Rightarrow> u) pool = Some (rec, pool1)"
    "annotate_warm_pool_basis_state pool1 = Some (pool2, c)"
    and sel: "select_seat R alive lease allow_dirty pool2 = Inr (rows', Some item)"
    and p: "pool' = put_rows pool2 ''sessions'' rows'"
    by (auto simp: checkout_warm_pool_seat_def bindE_eq_Inr Let_def split: if_split_asm option.split_asm)
  have e: "evolves pool pool2" using evolves_trans [OF reclaim_evolves [OF r(2)] annotate_evolves [OF r(3)]] .
  from select_seat_taken [OF sel] obtain rows where rows: "get_rows pool2 ''sessions'' = Some rows"
    and t: "takes (dicts rows) (dicts rows') (took_seat R alive lease allow_dirty pool2) item"
    and l: "\<forall>n. broker_pool_attempt_limit R pool2 = Inr (Some n) \<longrightarrow> length (filter seat_active (seats pool2)) < n"
    by blast
  have "dicts rows = [] \<Longrightarrow> False" using t by (auto simp: takes_def)
  then have "seats pool' = dicts rows'" unfolding p using row_dicts_put [OF rows] by blast
  moreover have "seats pool2 = dicts rows" using rows by (simp add: row_dicts_def)
  moreover have "broker_pool_attempt_limit R pool2 = broker_pool_attempt_limit R pool"
    using e by (auto simp: evolves_def same_frame_limit)
  ultimately show ?thesis using that [OF r(1) e] t l p by simp
qed

lemma checkout_refused_evolves:
  assumes "checkout_warm_pool_seat R oa alive lease allow_dirty utc pool = Inl (Checkout_refused msg req pool')"
  shows "evolves pool pool'"
proof (cases "pool_status R pool = ''ready''")
  case False
  with assms show ?thesis by (simp add: checkout_warm_pool_seat_def)
next
  case True
  from assms True obtain rec pool1 pool2 c where
    r: "reclaim_stale_leases R oa (case utc of None \<Rightarrow> '''' | Some u \<Rightarrow> u) pool = Some (rec, pool1)"
      "annotate_warm_pool_basis_state pool1 = Some (pool2, c)"
    by (auto simp: checkout_warm_pool_seat_def bindE_eq_Inl split: if_split_asm)
  have e: "evolves pool pool2" using evolves_trans [OF reclaim_evolves [OF r(1)] annotate_evolves [OF r(2)]] .
  show ?thesis
  proof (cases "select_seat R alive lease allow_dirty pool2")
    case (Inl e')
    with assms True r have "e' = Checkout_refused msg req pool'"
      by (simp add: checkout_warm_pool_seat_def)
    with Inl have "pool' = pool2" by (auto dest!: select_seat_refused)
    with e show ?thesis by simp
  next
    case (Inr p)
    then obtain rows' sel where sel: "select_seat R alive lease allow_dirty pool2 = Inr (rows', sel)"
      by (cases p) simp
    with assms True r have n: "sel = None" "pool' = put_rows pool2 ''sessions'' rows'"
      by (auto simp: checkout_warm_pool_seat_def bindE_eq_Inl Let_def split: option.split_asm if_split_asm)
    from select_seat_none [OF sel [unfolded n(1)]] obtain rows where
      "get_rows pool2 ''sessions'' = Some rows" "list_all2 keeps (dicts rows) (dicts rows')"
      by blast
    from evolves_trans [OF e evolves_put [OF this]] n(2) show ?thesis by simp
  qed
qed

end
