(* ===== verification/Pool_Machine.thy ===== *)
theory Pool_Machine
  imports Pool_Invariants
begin

text \<open>
  The stored pool document as a state machine: \<open>pool_step\<close> is one locked transition by any client,
  \<open>pool_run\<close> any sequence of them, in any order.  A seat is released to any status but \<open>busy\<close>, which no
  client of the code asks for.  The invariants are proved by rule induction.
\<close>

section \<open>The transitions on the stored document\<close>

lemma persist_evolves: "evolves pool pool' \<Longrightarrow> evolves pool (persist utc pool')"
  unfolding persist_def by (erule evolves_trans) (rule evolves_dset, simp_all)

lemma release_locked_evolves:
  "release_pool_seat_locked R V session status rsn pool = (res, pool') \<Longrightarrow> status \<noteq> ''busy''
     \<Longrightarrow> evolves pool pool'"
  by (auto simp: release_pool_seat_locked_def persisting_def split: sum.split_asm prod.split_asm
      intro: persist_evolves release_evolves)

lemma quarantine_locked_evolves:
  "persisting utc pool (quarantine_pool p msg rsn utc' pool) = (res, pool') \<Longrightarrow> evolves pool pool'"
  by (auto simp: persisting_def split: sum.split_asm prod.split_asm
      intro: persist_evolves dest: quarantine_evolves)

lemma quarantine_session_evolves:
  "quarantine_fork_basis_locked R V session rsn pool = (res, pool') \<Longrightarrow> evolves pool pool'"
  unfolding quarantine_fork_basis_locked_def quarantine_fork_basis_pool_def
  by (rule quarantine_locked_evolves)

lemma quarantine_lease_evolves:
  "quarantine_fork_basis_lease_locked R V lease_id rsn pool = (res, pool') \<Longrightarrow> evolves pool pool'"
  unfolding quarantine_fork_basis_lease_locked_def by (rule quarantine_locked_evolves)

lemma finalize_seat_evolves:
  "finalize_fork_pool_seat_locked R V session reusable rsn pool = (res, pool') \<Longrightarrow> evolves pool pool'"
  by (auto simp: finalize_fork_pool_seat_locked_def split: if_split_asm
      dest: release_locked_evolves quarantine_session_evolves)

lemma quarantine_then_evolves:
  "quarantine_then R V lease_id matches e pool = (res, pool') \<Longrightarrow> evolves pool pool'"
  by (auto simp: quarantine_then_def quarantine_ambiguous_lease_def
      split: prod.split_asm sum.split_asm if_split_asm dest: quarantine_lease_evolves)

lemma session_for_lease_evolves:
  "session_for_lease R V lease_id pool = (res, pool') \<Longrightarrow> evolves pool pool'"
  by (auto simp: session_for_lease_def Let_def split: option.split_asm bool.split_asm if_split_asm
      dest: quarantine_then_evolves)

lemma finalize_lease_evolves:
  "finalize_lease R V lease_id reusable rsn pool = (res, pool') \<Longrightarrow> evolves pool pool'"
  by (auto simp: finalize_lease_def Let_def split: option.split_asm bool.split_asm if_split_asm
      dest: quarantine_then_evolves finalize_seat_evolves)

lemma checkout_locked_cases:
  assumes "checkout_pool_seat_locked R V agent lease_id allow_dirty kind cmd pool = (res, pool')"
  obtains (refused) e where "res = Inl e" "evolves pool pool'"
  | (taken) item pool1 where "res = Inr item" "pool' = persist (se_utc V) pool1"
      "\<not> list_ex (holds_lease (selected_lease_id V lease_id)) (seats pool)"
      "checkout_warm_pool_seat R (se_owner_alive V) (se_session_alive V)
         (new_lease V agent kind cmd (selected_lease_id V lease_id)) allow_dirty (Some (se_utc V)) pool
           = Inr (item, pool1)"
proof (cases "fst (checkout_pool_seat_locked R V agent lease_id allow_dirty kind cmd pool)")
  case (Inl e)
  have "evolves pool pool'"
    using assms Inl
    by (auto simp: checkout_pool_seat_locked_def Let_def
        split: if_split_asm option.split_asm sum.split_asm pool_error.split_asm prod.split_asm
        intro: persist_evolves dest: checkout_refused_evolves)
  with Inl assms show ?thesis by (intro refused) simp_all
next
  case (Inr item)
  with assms obtain pool1 where "res = Inr item" "pool' = persist (se_utc V) pool1"
      "\<not> list_ex (holds_lease (selected_lease_id V lease_id)) (seats pool)"
      "checkout_warm_pool_seat R (se_owner_alive V) (se_session_alive V)
         (new_lease V agent kind cmd (selected_lease_id V lease_id)) allow_dirty (Some (se_utc V)) pool
           = Inr (item, pool1)"
    by (auto simp: checkout_pool_seat_locked_def Let_def row_dicts_def
        split: if_split_asm option.split_asm sum.split_asm pool_error.split_asm prod.split_asm)
  then show ?thesis by (rule taken)
qed

inductive pool_step :: "pyrt \<Rightarrow> dict \<Rightarrow> dict \<Rightarrow> bool" for R where
  checkout: "checkout_pool_seat_locked R V agent lease_id allow_dirty kind cmd pool = (res, pool')
     \<Longrightarrow> pool_step R pool pool'"
| release: "release_pool_seat_locked R V session status rsn pool = (res, pool')
     \<Longrightarrow> status \<noteq> ''busy'' \<Longrightarrow> pool_step R pool pool'"
| quarantine: "quarantine_fork_basis_locked R V session rsn pool = (res, pool') \<Longrightarrow> pool_step R pool pool'"
| quarantine_lease: "quarantine_fork_basis_lease_locked R V lease_id rsn pool = (res, pool')
     \<Longrightarrow> pool_step R pool pool'"
| finalize_seat: "finalize_fork_pool_seat_locked R V session reusable rsn pool = (res, pool')
     \<Longrightarrow> pool_step R pool pool'"
| session_for: "session_for_lease R V lease_id pool = (res', pool') \<Longrightarrow> pool_step R pool pool'"
| finalize: "finalize_lease R V lease_id reusable rsn pool = (res, pool') \<Longrightarrow> pool_step R pool pool'"

abbreviation pool_run :: "pyrt \<Rightarrow> dict \<Rightarrow> dict \<Rightarrow> bool" where
  "pool_run R \<equiv> (pool_step R)\<^sup>*\<^sup>*"

section \<open>Invariants of the seats\<close>

definition pairwise :: "('a \<Rightarrow> 'a \<Rightarrow> bool) \<Rightarrow> 'a list \<Rightarrow> bool" where
  "pairwise P xs \<longleftrightarrow> sorted_wrt P xs"

definition share_no_lease :: "dict \<Rightarrow> dict \<Rightarrow> bool" where
  "share_no_lease d e \<longleftrightarrow> (\<forall>i. \<not> (holds_lease i d \<and> holds_lease i e))"

definition share_no_control :: "pyrt \<Rightarrow> dict \<Rightarrow> dict \<Rightarrow> bool" where
  "share_no_control R d e \<longleftrightarrow>
     \<not> (seat_active d \<and> seat_active e \<and> physical_control_session R d = physical_control_session R e)"

definition leased :: "dict \<Rightarrow> bool" where
  "leased d \<longleftrightarrow> (\<exists>i. holds_lease i d)"

definition seat_inv :: "pyrt \<Rightarrow> dict \<Rightarrow> dict list \<Rightarrow> bool" where
  "seat_inv R pool ds \<longleftrightarrow>
     pairwise share_no_lease ds
       \<and> (v3_pool pool \<longrightarrow> pairwise (share_no_control R) ds)
       \<and> (\<forall>n. broker_pool_attempt_limit R pool = Inr (Some n) \<longrightarrow> length (filter seat_active ds) \<le> n)
       \<and> (\<forall>d \<in> set ds. busy d \<longrightarrow> leased d)"

lemma pairwise_keeps:
  assumes "pairwise P xs" and "list_all2 keeps xs ys"
    and "\<And>d d' e e'. keeps d d' \<Longrightarrow> keeps e e' \<Longrightarrow> P d e \<Longrightarrow> P d' e'"
  shows "pairwise P ys"
  unfolding pairwise_def sorted_wrt_iff_nth_less
proof (intro allI impI)
  fix i j assume ij: "i < j" "j < length ys"
  then have "keeps (xs ! i) (ys ! i)" "keeps (xs ! j) (ys ! j)" "P (xs ! i) (xs ! j)"
    using assms(1,2) by (simp_all add: pairwise_def sorted_wrt_iff_nth_less list_all2_conv_all_nth)
  then show "P (ys ! i) (ys ! j)" by (rule assms(3))
qed

lemma keeps_origin: "list_all2 keeps xs ys \<Longrightarrow> y \<in> set ys \<Longrightarrow> \<exists>x \<in> set xs. keeps x y"
  by (induction rule: list_all2_induct) auto

lemma keeps_holds: "keeps d d' \<Longrightarrow> holds_lease i d' \<Longrightarrow> holds_lease i d"
  by (auto simp: keeps_def holds_lease_def)

lemma keeps_active: "keeps d d' \<Longrightarrow> seat_active d' \<Longrightarrow> seat_active d"
  by (auto simp: keeps_def seat_active_def)

lemma keeps_control: "keeps d d' \<Longrightarrow> physical_control_session R d' = physical_control_session R d"
  by (simp add: keeps_def physical_control_session_def)

lemma keeps_busy: "keeps d d' \<Longrightarrow> busy d' \<Longrightarrow> busy d \<and> (leased d \<longrightarrow> leased d')"
  by (auto simp: keeps_def leased_def holds_lease_def)

lemma keeps_active_count:
  "list_all2 keeps xs ys \<Longrightarrow> length (filter seat_active ys) \<le> length (filter seat_active xs)"
  by (induction rule: list_all2_induct) (auto dest: keeps_active)

lemma seat_inv_keeps:
  assumes "seat_inv R pool xs" and k: "list_all2 keeps xs ys"
  shows "seat_inv R pool ys"
proof -
  have "pairwise share_no_lease ys"
    using assms(1) unfolding seat_inv_def
    by (elim conjE pairwise_keeps [OF _ k]) (auto simp: share_no_lease_def dest: keeps_holds)
  moreover have "pairwise (share_no_control R) ys" if "v3_pool pool"
    using assms(1) that unfolding seat_inv_def
    by (auto elim!: pairwise_keeps [OF _ k] simp: share_no_control_def keeps_control dest: keeps_active)
  moreover have "\<forall>d \<in> set ys. busy d \<longrightarrow> leased d"
    using assms(1) keeps_origin [OF k] keeps_busy unfolding seat_inv_def by blast
  ultimately show ?thesis
    using assms(1) keeps_active_count [OF k] unfolding seat_inv_def by (meson order.trans)
qed

lemma same_frame_inv: "same_frame p q \<Longrightarrow> seat_inv R q ds = seat_inv R p ds"
  by (simp add: seat_inv_def same_frame_limit same_frame_v3)

lemma evolves_inv: "evolves p q \<Longrightarrow> seat_inv R p (seats p) \<Longrightarrow> seat_inv R q (seats q)"
  by (auto simp: evolves_def same_frame_inv intro: seat_inv_keeps)

subsection \<open>Checkout\<close>

lemma new_lease_id: "dget (new_lease V agent kind cmd i) ''lease_id'' = J_str i"
  by (simp add: new_lease_def lease_owner_metadata_def Let_def dget_Cons split: option.split)

lemma take_seat_sel [simp]:
  "holds_lease i (take_seat lease d) \<longleftrightarrow> dget lease ''lease_id'' = J_str i"
  "busy (take_seat lease d)" "seat_active (take_seat lease d)"
  "physical_control_session R (take_seat lease d) = physical_control_session R d"
  by (simp_all add: take_seat_def holds_lease_def seat_active_def physical_control_session_def)

lemma pairwise_replace:
  "pairwise P (xs @ d # ys) \<Longrightarrow> (\<And>a. a \<in> set xs \<Longrightarrow> P a x) \<Longrightarrow> (\<And>b. b \<in> set ys \<Longrightarrow> P x b)
     \<Longrightarrow> pairwise P (xs @ x # ys)"
  by (auto simp: pairwise_def sorted_wrt_append)

lemma takes_inv:
  assumes inv: "seat_inv R pool2 (seats pool2)"
    and t: "takes (seats pool2) ds (took_seat R alive lease allow_dirty pool2) item"
    and fresh: "\<forall>d \<in> set (seats pool2). \<not> holds_lease i d" and i: "dget lease ''lease_id'' = J_str i"
    and limit: "\<forall>n. broker_pool_attempt_limit R pool2 = Inr (Some n)
      \<longrightarrow> length (filter seat_active (seats pool2)) < n"
  shows "seat_inv R pool2 ds"
proof -
  from t obtain xs d ys where item: "item = take_seat lease d"
    and k: "list_all2 keeps (seats pool2) (xs @ d # ys)" and ds: "ds = xs @ item # ys"
    and ctl: "v3_pool pool2 \<Longrightarrow> \<exists>c. physical_control_session R d = Inr c
      \<and> (\<forall>a \<in> set (seats pool2). seat_active a \<longrightarrow> physical_control_session R a \<noteq> Inr c)"
    unfolding takes_def took_seat_def by blast
  note inv1 = seat_inv_keeps [OF inv k]
  have orig: "\<exists>a' \<in> set (seats pool2). keeps a' a" if "a \<in> set (xs @ d # ys)" for a
    using keeps_origin [OF k that] .
  have nolease: "\<not> holds_lease i a" if "a \<in> set xs \<union> set ys" for a
    using orig [of a] that fresh keeps_holds by auto
  have "pairwise share_no_lease ds"
    unfolding ds by (rule pairwise_replace [of _ _ d])
      (use inv1 nolease i item in \<open>auto simp: seat_inv_def share_no_lease_def\<close>)
  moreover have "pairwise (share_no_control R) ds" if v: "v3_pool pool2"
  proof -
    from ctl [OF v] obtain c where c: "physical_control_session R d = Inr c"
      "\<forall>a \<in> set (seats pool2). seat_active a \<longrightarrow> physical_control_session R a \<noteq> Inr c" by blast
    have away: "physical_control_session R a \<noteq> Inr c" if "a \<in> set xs \<union> set ys" "seat_active a" for a
    proof -
      from that(1) orig [of a] obtain a' where a': "a' \<in> set (seats pool2)" "keeps a' a" by auto
      from keeps_active [OF a'(2) that(2)] c(2) a'(1) have "physical_control_session R a' \<noteq> Inr c" by blast
      then show ?thesis by (simp add: keeps_control [OF a'(2)])
    qed
    have na: "share_no_control R a item" "share_no_control R item a" if "a \<in> set xs \<union> set ys" for a
      using away [OF that] c(1) by (auto simp: share_no_control_def item)
    have "pairwise (share_no_control R) (xs @ d # ys)" using inv1 v by (simp add: seat_inv_def)
    then show ?thesis unfolding ds by (rule pairwise_replace) (simp_all add: na)
  qed
  moreover have "length (filter seat_active ds) \<le> Suc (length (filter seat_active (seats pool2)))"
    using keeps_active_count [OF k] by (auto simp: ds item split: if_split_asm)
  moreover have "\<forall>x \<in> set ds. busy x \<longrightarrow> leased x"
    using inv1 i by (auto simp: ds item seat_inv_def leased_def)
  ultimately show ?thesis
    using limit unfolding seat_inv_def by (meson Suc_leI order.trans)
qed

lemma checkout_inv:
  assumes "checkout_pool_seat_locked R V agent lease_id allow_dirty kind cmd pool = (res, pool')"
    and inv: "seat_inv R pool (seats pool)"
  shows "seat_inv R pool' (seats pool')"
  using assms(1)
proof (cases rule: checkout_locked_cases)
  case (refused e)
  then show ?thesis using inv by (auto intro: evolves_inv)
next
  case (taken item pool1)
  from taken(4) obtain pool2 where e: "evolves pool pool2" and f: "same_frame pool2 pool1"
    and t: "takes (seats pool2) (seats pool1) (took_seat R (se_session_alive V)
      (new_lease V agent kind cmd (selected_lease_id V lease_id)) allow_dirty pool2) item"
    and l: "\<forall>n. broker_pool_attempt_limit R pool = Inr (Some n) \<longrightarrow> length (filter seat_active (seats pool2)) < n"
    by (rule checkout_spec) blast
  have k: "list_all2 keeps (seats pool) (seats pool2)" and ff: "same_frame pool pool2"
    using e by (simp_all add: evolves_def)
  have nf: "\<forall>d \<in> set (seats pool2). \<not> holds_lease (selected_lease_id V lease_id) d"
  proof
    fix d assume "d \<in> set (seats pool2)"
    from keeps_origin [OF k this] taken(3) show "\<not> holds_lease (selected_lease_id V lease_id) d"
      using keeps_holds by (auto simp: list_ex_iff)
  qed
  have "seat_inv R pool2 (seats pool1)"
    by (rule takes_inv [OF evolves_inv [OF e inv] t nf new_lease_id])
       (use l in \<open>simp add: same_frame_limit [OF ff]\<close>)
  moreover have "same_frame pool1 pool'" "seats pool' = seats pool1"
    by (simp_all add: taken(2) persist_def same_frame_def)
  ultimately show ?thesis by (simp add: same_frame_inv [OF f] same_frame_inv)
qed

lemma pool_step_inv: "pool_step R p q \<Longrightarrow> seat_inv R p (seats p) \<Longrightarrow> seat_inv R q (seats q)"
  by (induction rule: pool_step.induct)
     (auto intro: checkout_inv evolves_inv dest: release_locked_evolves quarantine_session_evolves
       quarantine_lease_evolves finalize_seat_evolves session_for_lease_evolves finalize_lease_evolves)

lemma pool_run_inv: "pool_run R p q \<Longrightarrow> seat_inv R p (seats p) \<Longrightarrow> seat_inv R q (seats q)"
  by (induction rule: rtranclp_induct) (auto intro: pool_step_inv)

subsection \<open>Quarantine\<close>

lemma checkout_locked_status:
  assumes "checkout_pool_seat_locked R V agent lease_id allow_dirty kind cmd pool = (res, pool')"
  shows "dget pool' ''status'' \<in> {dget pool ''status'', J_str ''poisoned''}"
  using assms
proof (cases rule: checkout_locked_cases)
  case (taken item pool1)
  from taken(4) show ?thesis
    by (rule checkout_spec) (auto simp: taken(2) persist_def evolves_def)
qed (simp add: evolves_def)

lemma pool_step_status: "pool_step R p q \<Longrightarrow> dget q ''status'' \<in> {dget p ''status'', J_str ''poisoned''}"
proof (induction rule: pool_step.induct)
  case (checkout V agent lease_id allow_dirty kind cmd pool res pool')
  then show ?case by (rule checkout_locked_status)
qed (auto dest!: release_locked_evolves quarantine_session_evolves quarantine_lease_evolves
       finalize_seat_evolves session_for_lease_evolves finalize_lease_evolves simp: evolves_def)

lemma pool_run_poisoned:
  "pool_run R p q \<Longrightarrow> dget p ''status'' = J_str ''poisoned'' \<Longrightarrow> dget q ''status'' = J_str ''poisoned''"
  by (induction rule: rtranclp_induct) (use pool_step_status in fastforce)+

lemma checkout_needs_ready:
  assumes "pool_status R pool \<noteq> ''ready''"
  shows "\<exists>e. fst (checkout_pool_seat_locked R V agent lease_id allow_dirty kind cmd pool) = Inl e"
  using assms
  by (auto simp: checkout_pool_seat_locked_def checkout_warm_pool_seat_def Let_def split: option.split)

section \<open>Properties\<close>

text \<open>
  A sample pool: a v3 fork-basis pool whose broker admits one attempt at a time, with two seats on
  two control sessions.
\<close>

definition plain_rt :: pyrt where
  "plain_rt = \<lparr>rt_repr = (\<lambda>_. ''?''), rt_resolve = id\<rparr>"

definition sample_seat :: "string \<Rightarrow> json" where
  "sample_seat dir = J_obj [(''session_dir'', J_str dir), (''status'', J_str ''idle''), (''lease'', J_null)]"

definition sample_pool :: dict where
  "sample_pool =
     [(''status'', J_str ''ready''), (''engine'', J_str ''fork_basis''),
      (''execution_topology'', J_str mechanical_basis_broker_v3),
      (''broker_runtime_sha256'',
        J_str ''28e427ad0ab22e001f3a4b852c2f7661dd23ea22760f69451f7c002303032ce6''),
      (''sessions'', J_list [sample_seat ''/a'', sample_seat ''/b''])]"

definition sample_env :: seat_env where
  "sample_env = \<lparr>se_utc = ''t'', se_token = ''tok'', se_pid = 7, se_context_run = None,
     se_owner_alive = (\<lambda>_. True), se_session_alive = (\<lambda>_. True)\<rparr>"

definition sample_checkout :: "dict seat_result" where
  "sample_checkout = checkout_pool_seat_locked plain_rt sample_env None (Some ''L'') False ''k'' None sample_pool"

lemma sample_fresh: "\<forall>d \<in> set (seats sample_pool). \<not> seat_active d"
  by code_simp

lemma sample_run: "pool_run plain_rt sample_pool (snd sample_checkout)"
proof (rule r_into_rtranclp)
  show "pool_step plain_rt sample_pool (snd sample_checkout)"
    by (rule pool_step.checkout [where V = sample_env and agent = None and lease_id = "Some ''L''"
          and allow_dirty = False and kind = "''k''" and cmd = None and res = "fst sample_checkout"])
       (simp add: sample_checkout_def)
qed

lemma fresh_inv: "\<forall>d \<in> set ds. \<not> seat_active d \<Longrightarrow> seat_inv R pool ds"
proof -
  assume a: "\<forall>d \<in> set ds. \<not> seat_active d"
  then have "\<not> holds_lease i d" if "d \<in> set ds" for i d
  proof -
    have "\<not> truthy (dget d ''lease'')" using a that by (simp add: seat_active_def)
    then show ?thesis by (cases "dget d ''lease''") (simp_all add: holds_lease_def)
  qed
  with a have "pairwise share_no_lease ds" "pairwise (share_no_control R) ds"
    by (auto simp: pairwise_def sorted_wrt_iff_nth_less share_no_lease_def share_no_control_def)
  moreover have "filter seat_active ds = []" using a by (simp add: filter_empty_conv)
  ultimately show ?thesis using a by (auto simp: seat_inv_def seat_active_def)
qed

text \<open>C11: seats are exclusive.  Whatever sequence of checkouts, releases, quarantines and
  finalizations runs on a freshly built pool, no two seats hold the same lease, a busy seat always
  holds one, no two active seats of a v3 pool share a physical control session, and a broker with an
  attempt limit never has more active seats than that.\<close>

theorem seats_stay_exclusive:
  assumes "pool_run R p q" and "\<forall>d \<in> set (seats p). \<not> seat_active d"
  shows "(\<forall>i j k. i < j \<and> j < length (seats q) \<longrightarrow>
            \<not> (holds_lease k (seats q ! i) \<and> holds_lease k (seats q ! j)))
    \<and> (\<forall>d \<in> set (seats q). busy d \<longrightarrow> (\<exists>k. holds_lease k d))
    \<and> (dget q ''execution_topology'' = J_str mechanical_basis_broker_v3 \<longrightarrow>
         (\<forall>i j. i < j \<and> j < length (seats q) \<and> seat_active (seats q ! i) \<and> seat_active (seats q ! j) \<longrightarrow>
            physical_control_session R (seats q ! i) \<noteq> physical_control_session R (seats q ! j)))
    \<and> (\<forall>n. broker_pool_attempt_limit R q = Inr (Some n) \<longrightarrow> length (filter seat_active (seats q)) \<le> n)"
  using pool_run_inv [OF assms(1) fresh_inv [OF assms(2)]]
  by (auto simp: seat_inv_def pairwise_def sorted_wrt_iff_nth_less share_no_lease_def
      share_no_control_def leased_def v3_pool_def)

lemma seats_stay_exclusive_witness:
  "length (filter seat_active (seats (snd sample_checkout))) \<le> 1"
proof -
  have "broker_pool_attempt_limit plain_rt (snd sample_checkout) = Inr (Some 1)" by code_simp
  with seats_stay_exclusive [OF sample_run sample_fresh] show ?thesis by blast
qed

text \<open>C15: a quarantine is permanent: once a pool is poisoned it stays poisoned through every later
  transition, and every checkout from it fails.\<close>

theorem quarantine_is_permanent:
  assumes "dget p ''status'' = J_str ''poisoned''" and "pool_run R p q"
  shows "dget q ''status'' = J_str ''poisoned''
    \<and> (\<exists>e. fst (checkout_pool_seat_locked R V agent lease_id allow_dirty kind cmd q) = Inl e)"
proof -
  have "dget q ''status'' = J_str ''poisoned''" by (rule pool_run_poisoned [OF assms(2,1)])
  then show ?thesis using checkout_needs_ready by (auto simp: pool_status_def or_else_def py_str_def)
qed

lemma quarantine_is_permanent_witness:
  "\<exists>e. fst (checkout_pool_seat_locked plain_rt sample_env None None True ''k'' None
         (dset sample_pool ''status'' (J_str ''poisoned''))) = Inl e"
  using quarantine_is_permanent [of "dset sample_pool ''status'' (J_str ''poisoned'')" plain_rt
      "dset sample_pool ''status'' (J_str ''poisoned'')"] by simp

end
