(* ===== verification/Pool_Contract.thy ===== *)
theory Pool_Contract
  imports Pool_Machine
begin

text \<open>
  What the seat operations promise to their callers: a checkout takes one eligible seat or none is
  available, a finalization frees exactly the seat of its lease, and a reclaimed lease is stale.  The
  promises are gathered in the locale \<open>lease_service\<close>, in which the exclusivity of client sessions
  is proved, and which the pool model interprets.
\<close>

section \<open>Checkout\<close>

lemma missing_preloads_frame:
  "same_frame p q \<Longrightarrow> warm_pool_missing_preloads q d = warm_pool_missing_preloads p d"
  by (simp add: warm_pool_missing_preloads_def required_pool_preloads_def get_rows_def same_frame_def)

text \<open>C14: a successful checkout comes from a ready pool and occupies exactly one seat: a seat that was
  idle (or dirty, when asked for), whose session is alive and has every required preload, now busy
  under a lease with the requested id, which no seat held before; every other seat only lets go.\<close>

theorem checkout_takes_one_ready_seat:
  assumes "checkout_pool_seat_locked R V agent lease_id allow_dirty kind cmd pool = (Inr item, pool')"
  shows "pool_status R pool = ''ready''
    \<and> (\<forall>d \<in> set (seats pool). \<not> holds_lease (selected_lease_id V lease_id) d)
    \<and> (\<exists>xs d ys. seats pool' = xs @ item # ys \<and> list_all2 keeps (seats pool) (xs @ d # ys)
         \<and> item = take_seat (new_lease V agent kind cmd (selected_lease_id V lease_id)) d
         \<and> dget d ''status'' \<in> J_str ` set (preferred_statuses allow_dirty)
         \<and> warm_pool_missing_preloads pool d = Some [] \<and> se_session_alive V d)"
  using assms
proof (cases rule: checkout_locked_cases)
  case (taken item' pool1)
  from taken(4) obtain pool2 where r: "pool_status R pool = ''ready''" and e: "evolves pool pool2"
    and t: "takes (seats pool2) (seats pool1) (took_seat R (se_session_alive V)
      (new_lease V agent kind cmd (selected_lease_id V lease_id)) allow_dirty pool2) item'"
    by (rule checkout_spec) blast
  from t obtain xs d ys where s: "seats pool1 = xs @ item' # ys" "list_all2 keeps (seats pool2) (xs @ d # ys)"
    "took_seat R (se_session_alive V) (new_lease V agent kind cmd (selected_lease_id V lease_id))
       allow_dirty pool2 d item'" unfolding takes_def by blast
  have "list_all2 keeps (seats pool) (xs @ d # ys)"
    using e s(2) by (auto simp: evolves_def intro: keeps_all_trans)
  moreover have "warm_pool_missing_preloads pool d = Some []"
    using s(3) e by (simp add: took_seat_def evolves_def missing_preloads_frame [of pool pool2 d])
  moreover have "seats pool' = xs @ item # ys" using taken(1,2) s(1) by (simp add: persist_def)
  ultimately show ?thesis
    using r taken(1,3) s(3) by (auto simp: took_seat_def list_ex_iff)
qed simp

lemma checkout_takes_one_ready_seat_witness:
  "\<exists>d. holds_lease ''L'' d \<and> d \<in> set (seats (snd sample_checkout))"
proof -
  have "case sample_checkout of (Inl _, _) \<Rightarrow> False | (Inr _, _) \<Rightarrow> True" by code_simp
  then obtain item pool' where c: "sample_checkout = (Inr item, pool')"
    by (cases sample_checkout) (auto split: sum.splits)
  have s: "snd sample_checkout = pool'" by (metis c snd_conv)
  from checkout_takes_one_ready_seat [OF c [unfolded sample_checkout_def]] show ?thesis
    unfolding s by (intro exI [of _ item]) (auto simp: selected_lease_id_def new_lease_id)
qed

subsection \<open>Refusals\<close>

lemma scan_seats_refused:
  "scan_seats visit rows = Inr (rows', None) \<Longrightarrow> x \<in> set (dicts rows')
     \<Longrightarrow> visit x = Inr Skip \<or> (\<exists>d. visit d = Inr (Demote x))"
proof (induction visit rows arbitrary: rows' rule: scan_seats.induct)
  case (2 visit item rows)
  from "2.prems" obtain v where v: "visit item = Inr v" by (auto simp: bindE_eq_Inr)
  with "2" show ?case by (cases v) (auto simp: bindE_eq_Inr split: prod.splits)
qed (auto simp: bindE_eq_Inr split: prod.splits)

definition blocked_seat :: "pyrt \<Rightarrow> string list option \<Rightarrow> dict \<Rightarrow> bool" where
  "blocked_seat R occupied d \<longleftrightarrow>
     (\<exists>cs c. occupied = Some cs \<and> physical_control_session R d = Inr c \<and> c \<in> set cs)"

lemma visit_refused:
  assumes "visit_seat R pool alive lease occ w x = Inr Skip
      \<or> (\<exists>d. visit_seat R pool alive lease occ w d = Inr (Demote x))"
  shows "dget x ''status'' \<noteq> J_str w \<or> w \<notin> {''idle'', ''dirty''} \<or> blocked_seat R occ x"
  using assms
  by (auto simp: visit_seat_def bindE_eq_Inr blocked_seat_def basis_missing_seat_def dead_seat_def
      split: if_split_asm option.split_asm)

lemma scan_seats_old:
  assumes "\<And>d x. visit d = Inr (Demote x) \<Longrightarrow> \<not> Q x"
  shows "scan_seats visit rows = Inr (rows', None) \<Longrightarrow> x \<in> set (dicts rows') \<Longrightarrow> Q x
     \<Longrightarrow> x \<in> set (dicts rows)"
proof (induction rows arbitrary: rows')
  case (Cons r rows)
  show ?case
  proof (cases r)
    case (J_obj item)
    with Cons.prems obtain v where v: "visit item = Inr v" by (auto simp: bindE_eq_Inr)
    with J_obj Cons assms show ?thesis by (cases v) (auto simp: bindE_eq_Inr)
  qed (use Cons in \<open>auto simp: bindE_eq_Inr\<close>)
qed simp

lemma demoted_status:
  "visit_seat R pool alive lease occ w d = Inr (Demote x)
     \<Longrightarrow> dget x ''status'' \<notin> {J_str ''idle'', J_str ''dirty''}"
  by (auto simp: visit_seat_def bindE_eq_Inr basis_missing_seat_def dead_seat_def
      split: if_split_asm option.split_asm)

lemma scan_seats_other:
  assumes "scan_seats (visit_seat R pool alive lease occ w) rows = Inr (rows', None)"
    and "x \<in> set (dicts rows')" and "dget x ''status'' \<in> {J_str ''idle'', J_str ''dirty''}"
  shows "x \<in> set (dicts rows)"
proof (rule scan_seats_old [OF _ assms(1,2), where Q = "\<lambda>x. dget x ''status'' \<in> {J_str ''idle'', J_str ''dirty''}"])
  show "\<not> dget x ''status'' \<in> {J_str ''idle'', J_str ''dirty''}"
    if "visit_seat R pool alive lease occ w d = Inr (Demote x)" for d x
    using demoted_status [OF that] .
qed (rule assms(3))

lemma scan_statuses_refused:
  assumes "scan_statuses (visit_seat R pool alive lease occ) (preferred_statuses allow_dirty) rows
      = Inr (rows', None)"
    and "x \<in> set (dicts rows')" and "dget x ''status'' = J_str w" and "w \<in> set (preferred_statuses allow_dirty)"
  shows "blocked_seat R occ x"
proof -
  obtain rows1 where 1: "scan_seats (visit_seat R pool alive lease occ ''idle'') rows = Inr (rows1, None)"
    and 2: "if allow_dirty then scan_seats (visit_seat R pool alive lease occ ''dirty'') rows1 = Inr (rows', None)
        else rows' = rows1"
    using assms(1)
    by (auto simp: preferred_statuses_def bindE_eq_Inr split: option.split_asm if_split_asm)
  have w: "w = ''idle'' \<or> (allow_dirty \<and> w = ''dirty'')"
    using assms(4) by (auto simp: preferred_statuses_def split: if_split_asm)
  show ?thesis
  proof (cases "w = ''dirty''")
    case True
    with w 2 have "scan_seats (visit_seat R pool alive lease occ ''dirty'') rows1 = Inr (rows', None)" by simp
    from visit_refused [OF scan_seats_refused [OF this assms(2)]] assms(3) True show ?thesis by simp
  next
    case False
    with w have wi: "w = ''idle''" by simp
    have "x \<in> set (dicts rows1)"
      using 2 assms(2,3) wi scan_seats_other [where w = "''dirty''" and rows = rows1]
      by (cases allow_dirty) auto
    from visit_refused [OF scan_seats_refused [OF 1 this]] assms(3) wi show ?thesis by simp
  qed
qed

lemma scan_seats_keeps_blocked:
  "scan_seats (visit_seat R pool alive lease occ w) rows = Inr (rows', sel) \<Longrightarrow> a \<in> set (dicts rows)
     \<Longrightarrow> blocked_seat R occ a \<Longrightarrow> a \<in> set (dicts rows')"
proof (induction "visit_seat R pool alive lease occ w" rows arbitrary: rows' sel rule: scan_seats.induct)
  case (2 item rows)
  from "2.prems" obtain v where v: "visit_seat R pool alive lease occ w item = Inr v"
    by (auto simp: bindE_eq_Inr)
  have skip: "a = item \<Longrightarrow> v = Skip"
    using v "2.prems"(3) by (auto simp: visit_seat_def blocked_seat_def split: if_split_asm)
  show ?case
  proof (cases v)
    case Skip
    with v "2" show ?thesis by (auto simp: bindE_eq_Inr split: prod.splits)
  next
    case (Demote d)
    with v "2" skip show ?thesis by (auto simp: bindE_eq_Inr split: prod.splits)
  next
    case (Take d)
    with v "2.prems" skip show ?thesis by auto
  qed
qed (auto simp: bindE_eq_Inr split: prod.splits)

lemma scan_statuses_keeps_blocked:
  "scan_statuses (visit_seat R pool alive lease occ) ws rows = Inr (rows', sel) \<Longrightarrow> a \<in> set (dicts rows)
     \<Longrightarrow> blocked_seat R occ a \<Longrightarrow> a \<in> set (dicts rows')"
proof (induction ws arbitrary: rows)
  case (Cons w ws)
  from Cons.prems(1) obtain rows1 sel1 where
    s: "scan_seats (visit_seat R pool alive lease occ w) rows = Inr (rows1, sel1)"
    by (auto simp: bindE_eq_Inr)
  note a1 = scan_seats_keeps_blocked [OF s Cons.prems(2,3)]
  show ?case
  proof (cases sel1)
    case (Some x)
    with Cons.prems(1) s a1 show ?thesis by simp
  next
    case None
    with Cons.prems(1) s have "scan_statuses (visit_seat R pool alive lease occ) ws rows1 = Inr (rows', sel)"
      by simp
    from Cons.IH [OF this a1 Cons.prems(3)] show ?thesis .
  qed
qed simp

lemma control_sessions_origin:
  "control_sessions R ds = Inr cs \<Longrightarrow> c \<in> set cs \<Longrightarrow> \<exists>d \<in> set ds. physical_control_session R d = Inr c"
proof (induction R ds arbitrary: cs rule: control_sessions.induct)
  case (2 R s ss)
  then obtain x xs where x: "physical_control_session R s = Inr x" "control_sessions R ss = Inr xs"
    "cs = List.insert x xs" by (auto simp: bindE_eq_Inr)
  show ?case
  proof (cases "c = x")
    case False
    with "2.prems" x "2.IH" [OF x(1,2)] show ?thesis by auto
  qed (use x in simp)
qed simp

lemma select_seat_refusal:
  assumes "select_seat R alive lease allow_dirty pool = Inr (rows', None)"
    and "d \<in> set (dicts rows')" and "dget d ''status'' \<in> J_str ` set (preferred_statuses allow_dirty)"
  shows "v3_pool pool \<and> (\<exists>a \<in> set (dicts rows'). seat_active a
    \<and> physical_control_session R a = physical_control_session R d)"
proof -
  from assms(1) obtain rows cap occ where rows: "get_rows pool ''sessions'' = Some rows"
    and cap: "physical_broker_capacity R pool = Inr cap"
    and occ: "occupied_controls R cap (dicts rows) = Inr occ"
    and scan: "scan_statuses (visit_seat R pool alive lease occ) (preferred_statuses allow_dirty) rows
                 = Inr (rows', None)"
    unfolding select_seat_def by (auto simp: bindE_eq_Inr split: if_split_asm)
  from assms(3) obtain w where "dget d ''status'' = J_str w" "w \<in> set (preferred_statuses allow_dirty)"
    by blast
  from scan_statuses_refused [OF scan assms(2) this] obtain cs c where
    c: "occ = Some cs" "physical_control_session R d = Inr c" "c \<in> set cs"
    by (auto simp: blocked_seat_def)
  from occ c(1) have cs: "cap \<noteq> None" "control_sessions R (filter seat_active (dicts rows)) = Inr cs"
    by (auto simp: occupied_controls_def bindE_eq_Inr split: option.split_asm)
  from control_sessions_origin [OF cs(2) c(3)] obtain a where
    a: "a \<in> set (dicts rows)" "seat_active a" "physical_control_session R a = Inr c" by auto
  then have "blocked_seat R occ a" using c by (simp add: blocked_seat_def)
  from scan_statuses_keeps_blocked [OF scan a(1) this] a(2,3) c(2) physical_capacity_v3 [OF cap] cs(1)
  show ?thesis by auto
qed

text \<open>A checkout that looked at the seats and found none leaves a document in which no seat of a
  wanted status is available: the pool is a v3 pool and each such seat is blocked by an active seat on
  the same control session.\<close>

theorem checkout_refused_only_when_none:
  assumes "checkout_pool_seat_locked R V agent lease_id allow_dirty kind cmd pool
      = (Inl (Checkout_refused msg required pool1), pool')"
    and "msg \<in> {''no basis-ready warm pool worker available'', ''no idle warm pool worker available''}"
    and "d \<in> set (seats pool')" and "dget d ''status'' \<in> J_str ` set (preferred_statuses allow_dirty)"
  shows "v3_pool pool' \<and> (\<exists>a \<in> set (seats pool'). seat_active a
    \<and> physical_control_session R a = physical_control_session R d)"
proof -
  let ?lease = "new_lease V agent kind cmd (selected_lease_id V lease_id)"
  have c: "checkout_warm_pool_seat R (se_owner_alive V) (se_session_alive V) ?lease allow_dirty
      (Some (se_utc V)) pool = Inl (Checkout_refused msg required pool1)"
    and p': "pool' = persist (se_utc V) pool1"
    using assms(1)
    by (auto simp: checkout_pool_seat_locked_def Let_def
        split: if_split_asm option.split_asm sum.split_asm pool_error.split_asm prod.split_asm)
  have ready: "pool_status R pool = ''ready''"
  proof (rule ccontr)
    assume "pool_status R pool \<noteq> ''ready''"
    with c have "msg = ''warm pool lifecycle status '' @ pool_status R pool @ '' is not ready for checkout''"
      by (auto simp: checkout_warm_pool_seat_def)
    with assms(2) show False by auto
  qed
  with c obtain rec poola poolb cc where
      "reclaim_stale_leases R (se_owner_alive V) (se_utc V) pool = Some (rec, poola)"
      "annotate_warm_pool_basis_state poola = Some (poolb, cc)"
    and c2: "bindE (select_seat R (se_session_alive V) ?lease allow_dirty poolb) (\<lambda>(rows, sel).
             let pool3 = put_rows poolb ''sessions'' rows
             in case sel of
                  Some item \<Rightarrow> Inr (item, pool3)
                | None \<Rightarrow>
                    bindE (of_iter (required_pool_preloads pool3)) (\<lambda>required.
                      if required \<noteq> []
                      then Inl (Checkout_refused ''no basis-ready warm pool worker available'' required pool3)
                      else Inl (Checkout_refused ''no idle warm pool worker available'' [] pool3)))
       = Inl (Checkout_refused msg required pool1)"
    by (auto simp: checkout_warm_pool_seat_def bindE_eq_Inl [of "of_iter m" for m])
  show ?thesis
  proof (cases "select_seat R (se_session_alive V) ?lease allow_dirty poolb")
    case (Inl e)
    with c2 have "e = Checkout_refused msg required pool1" by simp
    with Inl assms(2) show ?thesis
      by (auto simp: select_seat_def bindE_eq_Inl split: if_split_asm
          dest: plain dest!: scan_statuses_plain [OF _ visit_plain])
  next
    case (Inr p)
    then obtain rows' sel where s: "select_seat R (se_session_alive V) ?lease allow_dirty poolb = Inr (rows', sel)"
      by (cases p) simp
    with c2 have n: "sel = None" "pool1 = put_rows poolb ''sessions'' rows'"
      by (auto simp: bindE_eq_Inl Let_def split: option.split_asm if_split_asm)
    from select_seat_none [OF s [unfolded n(1)]] obtain rows where
      g: "get_rows poolb ''sessions'' = Some rows" "list_all2 keeps (dicts rows) (dicts rows')" by blast
    have "seats pool1 = dicts rows'" unfolding n(2) using g(2) by (intro row_dicts_put [OF g(1)]) auto
    then have sp: "seats pool' = dicts rows'" by (simp add: p' persist_def)
    have "v3_pool pool' = v3_pool poolb" by (simp add: p' n(2) persist_def v3_pool_def)
    with select_seat_refusal [OF s [unfolded n(1)]] assms(3,4) sp show ?thesis by simp
  qed
qed

definition shared_seat :: "string \<Rightarrow> json" where
  "shared_seat dir =
     J_obj [(''session_dir'', J_str dir), (''control_session_dir'', J_str ''/a''),
            (''status'', J_str ''idle''), (''lease'', J_null)]"

definition shared_pool :: dict where
  "shared_pool =
     [(''status'', J_str ''ready''), (''execution_topology'', J_str mechanical_basis_broker_v3),
      (''sessions'', J_list [shared_seat ''/a'', shared_seat ''/b''])]"

definition shared_refusal :: "dict seat_result" where
  "shared_refusal =
     checkout_pool_seat_locked plain_rt sample_env None (Some ''M'') False ''k'' None
       (snd (checkout_pool_seat_locked plain_rt sample_env None (Some ''L'') False ''k'' None shared_pool))"

lemma checkout_refused_only_when_none_witness:
  "\<exists>a \<in> set (seats (snd shared_refusal)). seat_active a
     \<and> physical_control_session plain_rt a = Inr ''/a''"
proof -
  obtain res q where sr: "shared_refusal = (res, q)" by (rule prod.exhaust)
  have "case shared_refusal of
      (Inl (Checkout_refused msg _ _), q) \<Rightarrow> msg = ''no idle warm pool worker available''
        \<and> length (seats q) = 2 \<and> dget (seats q ! 1) ''status'' = J_str ''idle''
        \<and> physical_control_session plain_rt (seats q ! 1) = Inr ''/a''
    | _ \<Rightarrow> False"
    by code_simp
  then obtain req p where c: "shared_refusal
      = (Inl (Checkout_refused ''no idle warm pool worker available'' req p), q)"
    and d: "length (seats q) = 2" "dget (seats q ! 1) ''status'' = J_str ''idle''"
      "physical_control_session plain_rt (seats q ! 1) = Inr ''/a''"
    unfolding sr by (simp split: sum.split_asm pool_error.split_asm)
  have d1: "seats q ! 1 \<in> set (seats q)" using d(1) by simp
  have "snd shared_refusal = q" by (metis c snd_conv)
  with checkout_refused_only_when_none [OF c [unfolded shared_refusal_def] _ d1] d(2,3) show ?thesis
    by (auto simp: preferred_statuses_def)
qed

end
