(* ===== verification/Pool_Finalize.thy ===== *)
theory Pool_Finalize
  imports Pool_Contract
begin

text \<open>
  Finalization of a lease, \<open>_finalize_lease\<close> of \<open>hol_workbench/hot_profile_session.py\<close>: it frees the
  one seat that holds the lease and leaves every active sibling alone.
\<close>

section \<open>The row of a lease\<close>

definition named :: "dict \<Rightarrow> bool" where
  "named d \<longleftrightarrow> nonempty_str (dget d ''session_dir'') \<noteq> None"

lemma named_path: "nonempty_str (dget d ''session_dir'') = Some p \<Longrightarrow> seat_path R d = Inr (rt_resolve R p)"
  by (auto simp: nonempty_str_def seat_path_def dget_def split: json.split_asm if_split_asm option.splits)

definition same_path :: "pyrt \<Rightarrow> string \<Rightarrow> dict \<Rightarrow> bool" where
  "same_path R session d \<longleftrightarrow> seat_path R d = Inr (rt_resolve R session)"

lemma mem_map_filter: "y \<in> set (List.map_filter f xs) \<longleftrightarrow> (\<exists>x \<in> set xs. f x = Some y)"
  by (auto simp: List.map_filter_def image_iff)

lemma mem_enumerate: "(i, r) \<in> set (enumerate 0 rows) \<longleftrightarrow> i < length rows \<and> rows ! i = r"
  by (auto simp: in_set_enumerate_eq)

lemma same_path_named:
  assumes "named d"
  shows "same_path R session d
    \<longleftrightarrow> (\<exists>p. nonempty_str (dget d ''session_dir'') = Some p \<and> rt_resolve R p = rt_resolve R session)"
proof -
  from assms obtain p where "nonempty_str (dget d ''session_dir'') = Some p" by (auto simp: named_def)
  with named_path [OF this, of R] show ?thesis by (simp add: same_path_def)
qed

lemma same_session_iff:
  assumes "\<forall>d. J_obj d \<in> set rows \<longrightarrow> named d"
  shows "j \<in> set (same_session R session rows)
    \<longleftrightarrow> (\<exists>d. j < length rows \<and> rows ! j = J_obj d \<and> same_path R session d)" (is "?l = ?r")
proof
  assume ?l
  then obtain i r where i: "i < length rows" "rows ! i = r" and f: "(case r of
         J_obj d \<Rightarrow>
           (case nonempty_str (dget d ''session_dir'') of
              Some p \<Rightarrow> if rt_resolve R p = rt_resolve R session then Some i else None
            | None \<Rightarrow> None)
       | _ \<Rightarrow> None) = Some j"
    unfolding same_session_def mem_map_filter by (auto simp: mem_enumerate)
  from f obtain d p where "r = J_obj d" "nonempty_str (dget d ''session_dir'') = Some p"
    "rt_resolve R p = rt_resolve R session" "i = j"
    by (auto split: json.split_asm option.split_asm if_split_asm)
  with i named_path [where d = d and p = p and R = R] show ?r by (auto simp: same_path_def)
next
  assume ?r
  then obtain d where d: "j < length rows" "rows ! j = J_obj d" "same_path R session d" by blast
  then have "named d" using assms nth_mem by metis
  with d(3) obtain p where "nonempty_str (dget d ''session_dir'') = Some p"
    "rt_resolve R p = rt_resolve R session" by (auto simp: same_path_named)
  with d(1,2) show ?l
    unfolding same_session_def mem_map_filter
    by (intro bexI [of _ "(j, J_obj d)"]) (auto simp: mem_enumerate)
qed

lemma lease_matches_iff:
  "(j, d) \<in> set (lease_matches lease_id rows)
     \<longleftrightarrow> j < length rows \<and> rows ! j = J_obj d \<and> holds_lease lease_id d" (is "?l = ?r")
proof
  assume ?l
  then obtain i r where i: "i < length rows" "rows ! i = r" and f: "(case r of
         J_obj d \<Rightarrow> if holds_lease lease_id d then Some (i, d) else None | _ \<Rightarrow> None) = Some (j, d)"
    unfolding lease_matches_def mem_map_filter by (auto simp: mem_enumerate)
  from f i show ?r by (auto split: json.split_asm if_split_asm)
next
  assume ?r
  then show ?l
    unfolding lease_matches_def mem_map_filter
    by (intro bexI [of _ "(j, J_obj d)"]) (auto simp: mem_enumerate)
qed

section \<open>What the rows become\<close>

text \<open>A seat that held the lease holds none; an active seat of another lease keeps it.\<close>

definition frees_only :: "string \<Rightarrow> dict \<Rightarrow> dict \<Rightarrow> bool" where
  "frees_only lease_id d d' \<longleftrightarrow>
     (if holds_lease lease_id d then dget d' ''lease'' = J_null \<and> \<not> busy d'
      else busy d \<and> truthy (dget d ''lease'') \<longrightarrow> dget d' ''lease'' = dget d ''lease'' \<and> busy d')"

definition sole_holder :: "pyrt \<Rightarrow> string \<Rightarrow> string \<Rightarrow> json list \<Rightarrow> bool" where
  "sole_holder R lease_id session rows \<longleftrightarrow>
     (\<forall>e. J_obj e \<in> set rows \<longrightarrow> (\<exists>p. seat_path R e = Inr p))
       \<and> (\<forall>i j d e. i < length rows \<and> j < length rows \<and> rows ! i = J_obj d \<and> rows ! j = J_obj e
            \<and> (holds_lease lease_id d \<or> same_path R session d)
            \<and> (holds_lease lease_id e \<or> same_path R session e) \<longrightarrow> i = j)"

lemma frees_only_refl: "\<not> holds_lease i d \<Longrightarrow> frees_only i d d"
  by (simp add: frees_only_def)

lemma sole_holder_Cons:
  assumes "sole_holder R i session (r # rows)"
  shows "sole_holder R i session rows"
    and "r = J_obj d \<Longrightarrow> holds_lease i d \<or> same_path R session d
      \<Longrightarrow> \<forall>e \<in> set (dicts rows). \<not> holds_lease i e \<and> \<not> same_path R session e"
proof -
  from assms have s: "\<And>a b d e. a < Suc (length rows) \<Longrightarrow> b < Suc (length rows) \<Longrightarrow> (r # rows) ! a = J_obj d
      \<Longrightarrow> (r # rows) ! b = J_obj e \<Longrightarrow> holds_lease i d \<or> same_path R session d
      \<Longrightarrow> holds_lease i e \<or> same_path R session e \<Longrightarrow> a = b"
    unfolding sole_holder_def by simp
  show "sole_holder R i session rows"
    unfolding sole_holder_def
  proof (intro conjI allI impI)
    show "\<exists>p. seat_path R e = Inr p" if "J_obj e \<in> set rows" for e
      using assms that by (simp add: sole_holder_def)
    fix a b d e
    assume "a < length rows \<and> b < length rows \<and> rows ! a = J_obj d \<and> rows ! b = J_obj e
      \<and> (holds_lease i d \<or> same_path R session d) \<and> (holds_lease i e \<or> same_path R session e)"
    with s [of "Suc a" "Suc b" d e] show "a = b" by simp
  qed
  show "\<forall>e \<in> set (dicts rows). \<not> holds_lease i e \<and> \<not> same_path R session e"
    if "r = J_obj d" "holds_lease i d \<or> same_path R session d"
  proof
    fix e assume "e \<in> set (dicts rows)"
    then have "J_obj e \<in> set rows" by (simp only: set_dicts)
    then obtain b where "b < length rows" "rows ! b = J_obj e" by (metis in_set_conv_nth)
    with s [of 0 "Suc b" d e] that show "\<not> holds_lease i e \<and> \<not> same_path R session e" by auto
  qed
qed

lemma release_rows_other:
  assumes "\<nexists>d. r = J_obj d" and "release_rows R s f (r # rows) = Inr (x, rows')"
  obtains rows1 where "release_rows R s f rows = Inr (x, rows1)" "dicts rows' = dicts rows1"
    "dicts (r # rows) = dicts rows"
  using assms by (cases r) (auto simp: bindE_eq_Inr)

lemma list_all2_same_refl: "\<forall>d \<in> set ds. g d = d \<Longrightarrow> list_all2 (\<lambda>d e. e = g d) ds ds"
  by (induction ds) simp_all

lemma release_rows_sole:
  assumes "release_rows R (rt_resolve R session) f rows = Inr (x, rows')" and "sole_holder R i session rows"
    and "\<exists>d \<in> set (dicts rows). holds_lease i d \<and> same_path R session d"
  shows "list_all2 (\<lambda>d d'. d' = (if holds_lease i d then f d else d)) (dicts rows) (dicts rows')"
  using assms
proof (induction rows arbitrary: rows')
  case (Cons r rows)
  show ?case
  proof (cases "\<exists>d. r = J_obj d")
    case True
    then obtain d where J_obj: "r = J_obj d" by blast
    from Cons.prems(2) J_obj obtain p where p: "seat_path R d = Inr p" by (auto simp: sole_holder_def)
    show ?thesis
    proof (cases "same_path R session d")
      case True
      with J_obj Cons.prems(1) have "rows' = J_obj (f d) # rows" by (auto simp: same_path_def)
      moreover have no: "\<forall>e \<in> set (dicts rows). \<not> holds_lease i e"
        using sole_holder_Cons(2) [OF Cons.prems(2) J_obj] True by simp
      moreover from no Cons.prems(3) J_obj have "holds_lease i d" by auto
      moreover have "list_all2 (\<lambda>d d'. d' = (if holds_lease i d then f d else d)) (dicts rows) (dicts rows)"
        by (rule list_all2_same_refl) (use no in simp)
      ultimately show ?thesis using J_obj by simp
    next
      case False
      with J_obj Cons.prems(1) p obtain rows1 where
        r1: "release_rows R (rt_resolve R session) f rows = Inr (x, rows1)" "rows' = J_obj d # rows1"
        by (auto simp: same_path_def bindE_eq_Inr)
      have e: "\<exists>d \<in> set (dicts rows). holds_lease i d \<and> same_path R session d"
        using Cons.prems(3) J_obj False by auto
      then have n: "\<not> holds_lease i d"
        using sole_holder_Cons(2) [OF Cons.prems(2) J_obj] by blast
      from Cons.IH [OF r1(1) sole_holder_Cons(1) [OF Cons.prems(2)] e] show ?thesis
        unfolding J_obj r1(2) by (simp add: n)
    qed
  next
    case False
    from release_rows_other [OF this Cons.prems(1)] obtain rows1 where
      r1: "release_rows R (rt_resolve R session) f rows = Inr (x, rows1)" and e: "dicts rows' = dicts rows1"
      and d: "dicts (r # rows) = dicts rows" .
    show ?thesis
      unfolding d e by (rule Cons.IH [OF r1 sole_holder_Cons(1) [OF Cons.prems(2)]]) (use Cons.prems(3) d in simp)
  qed
qed simp

lemma quarantine_item_frees: "frees_only i d (quarantine_item rsn utc (holds_lease i d) d)"
  by (simp add: frees_only_def quarantine_item_def Let_def free_seat_def)

lemma quarantine_rows_frees:
  assumes "quarantine_rows p (quarantine_item rsn utc) rows rel = Inr (rows', rel')"
    and "\<And>d. d \<in> set (dicts rows) \<Longrightarrow> p d = Inr (holds_lease i d)"
  shows "list_all2 (frees_only i) (dicts rows) (dicts rows')"
  using assms
proof (induction rows arbitrary: rows' rel)
  case (Cons r rows)
  show ?case
  proof (cases r)
    case (J_obj d)
    with Cons.prems obtain rows1 rel1 where
      q: "quarantine_rows p (quarantine_item rsn utc) rows rel1 = Inr (rows1, rel')"
      "rows' = J_obj (quarantine_item rsn utc (holds_lease i d) d) # rows1"
      by (auto simp: bindE_eq_Inr)
    have "frees_only i d (quarantine_item rsn utc (holds_lease i d) d)"
      by (rule quarantine_item_frees)
    with Cons.IH [OF q(1)] Cons.prems(2) J_obj q(2) show ?thesis by simp
  qed (use Cons in \<open>auto simp: bindE_eq_Inr\<close>)
qed simp

section \<open>Finalization\<close>

lemma release_item_frees:
  assumes "status \<noteq> ''busy''"
    and "pool_status R pool = ''ready'' \<or> (pool_status R pool = ''poisoned'' \<and> is_fork_basis pool)"
  shows "dget (release_item R pool status utc rsn d) ''lease'' = J_null
    \<and> \<not> busy (release_item R pool status utc rsn d)"
  using assms by (auto simp: release_item_def set_reason_def free_seat_def)

lemma row_dicts_rows: "get_rows pool ''sessions'' = Some rows \<Longrightarrow> seats pool = dicts rows"
  by (simp add: row_dicts_def)

lemma release_locked_sole:
  assumes "release_pool_seat_locked R V session status rsn pool = (Inr item, pool')"
    and "get_rows pool ''sessions'' = Some rows" and "sole_holder R i session rows"
    and "\<exists>d \<in> set (dicts rows). holds_lease i d \<and> same_path R session d"
  shows "list_all2 (\<lambda>d d'. d' = (if holds_lease i d then release_item R pool status (se_utc V) rsn d else d))
    (seats pool) (seats pool')" (is "list_all2 ?P _ _")
proof -
  from assms(1,2) obtain rows' where
    r: "release_rows R (rt_resolve R session) (release_item R pool status (se_utc V) rsn) rows = Inr (item, rows')"
    and p: "pool' = persist (se_utc V) (put_rows pool ''sessions'' rows')"
    by (auto simp: release_pool_seat_locked_def persisting_def release_warm_pool_seat_def bindE_eq_Inr
        split: sum.split_asm prod.split_asm)
  have l: "list_all2 ?P (dicts rows) (dicts rows')"
    by (rule release_rows_sole [OF r assms(3,4)])
  then have "length (dicts rows) = length (dicts rows')" by (rule list_all2_lengthD)
  then have "seats (put_rows pool ''sessions'' rows') = dicts rows'"
    by (intro row_dicts_put [OF assms(2)]) auto
  then show ?thesis using l by (simp add: p persist_def row_dicts_rows [OF assms(2)])
qed

text \<open>The pool lets go of a seat that is given back; otherwise it defers the release.\<close>

definition releases :: "pyrt \<Rightarrow> dict \<Rightarrow> bool" where
  "releases R pool \<longleftrightarrow>
     pool_status R pool = ''ready'' \<or> pool_status R pool = ''poisoned'' \<and> is_fork_basis pool"

lemma release_locked_frees:
  assumes "release_pool_seat_locked R V session status rsn pool = (Inr item, pool')"
    and "get_rows pool ''sessions'' = Some rows" and "sole_holder R i session rows"
    and "\<exists>d \<in> set (dicts rows). holds_lease i d \<and> same_path R session d" and "status \<noteq> ''busy''"
    and "releases R pool"
  shows "list_all2 (frees_only i) (seats pool) (seats pool')"
  using release_locked_sole [OF assms(1-4)]
proof (rule list_all2_mono)
  fix d d' assume "d' = (if holds_lease i d then release_item R pool status (se_utc V) rsn d else d)"
  then show "frees_only i d d'"
    using release_item_frees [OF assms(5) assms(6) [unfolded releases_def]]
    by (auto simp: frees_only_refl) (simp add: frees_only_def)
qed

lemma quarantine_locked_frees:
  assumes "quarantine_fork_basis_locked R V session rsn pool = (Inr item, pool')"
    and "get_rows pool ''sessions'' = Some rows" and "sole_holder R i session rows"
    and "\<exists>d \<in> set (dicts rows). holds_lease i d \<and> same_path R session d"
  shows "list_all2 (frees_only i) (seats pool) (seats pool')"
proof -
  let ?pool1 = "poisoned_pool rsn (se_utc V) pool"
  let ?p = "\<lambda>item. bindE (seat_path R item) (\<lambda>p. Inr (p = rt_resolve R session))"
  have g: "get_rows ?pool1 ''sessions'' = Some rows" using assms(2) by (simp add: poisoned_pool_def)
  from assms(1) g obtain rows' rel where
    q: "quarantine_rows ?p (quarantine_item rsn (se_utc V)) rows None = Inr (rows', rel)"
    and p: "pool' = persist (se_utc V) (put_rows ?pool1 ''sessions'' rows')"
    by (auto simp: quarantine_fork_basis_locked_def quarantine_fork_basis_pool_def persisting_def
        quarantine_pool_def Let_def bindE_eq_Inr
        split: sum.split_asm prod.split_asm if_split_asm option.split_asm)
  have hit: "?p d = Inr (holds_lease i d)" if d: "d \<in> set (dicts rows)" for d
  proof -
    from d have "J_obj d \<in> set rows" by (simp only: set_dicts)
    then obtain b p where b: "b < length rows" "rows ! b = J_obj d" "seat_path R d = Inr p"
      using assms(3) by (metis in_set_conv_nth sole_holder_def)
    from assms(4) obtain e where "J_obj e \<in> set rows" "holds_lease i e" "same_path R session e"
      by (auto simp: set_dicts)
    then obtain a where a: "a < length rows" "rows ! a = J_obj e" "holds_lease i e" "same_path R session e"
      by (metis in_set_conv_nth)
    have "holds_lease i d \<or> same_path R session d \<Longrightarrow> a = b"
      using assms(3) a b(1,2) unfolding sole_holder_def by blast
    then have "holds_lease i d = same_path R session d" using a b(2) by auto
    with b(3) show ?thesis by (simp add: same_path_def)
  qed
  have l: "list_all2 (frees_only i) (dicts rows) (dicts rows')"
    by (rule quarantine_rows_frees [OF q hit])
  have "seats (put_rows ?pool1 ''sessions'' rows') = dicts rows'"
    by (rule row_dicts_put [OF g]) (use l in auto)
  then show ?thesis using l by (simp add: p persist_def row_dicts_rows [OF assms(2)])
qed

lemma finalize_lease_sole:
  assumes "finalize_lease R V i reusable rsn pool = (Inr item, pool')" and "\<forall>d \<in> set (seats pool). named d"
  obtains rows session where "get_rows pool ''sessions'' = Some rows"
    "finalize_fork_pool_seat_locked R V session reusable rsn pool = (Inr item, pool')"
    "sole_holder R i session rows"
    "\<exists>d \<in> set (dicts rows). holds_lease i d \<and> same_path R session d"
proof -
  from assms(1) obtain rows where rows: "get_rows pool ''sessions'' = Some rows"
    by (auto simp: finalize_lease_def split: option.split_asm)
  define ms where "ms = lease_matches i rows"
  from assms(1) rows have ne: "ms \<noteq> []" by (auto simp: finalize_lease_def ms_def Let_def)
  have noquar: "fst (quarantine_then R V i ms e pool) \<noteq> Inr item" for e
    by (auto simp: quarantine_then_def split: prod.splits sum.splits)
  from assms(1) rows ne noquar obtain session where one: "length ms = 1"
    and dir: "nonempty_str (dget (snd (hd ms)) ''session_dir'') = Some session"
    and same: "same_session R session rows = [fst (hd ms)]"
    and fin: "finalize_fork_pool_seat_locked R V session reusable rsn pool = (Inr item, pool')"
    unfolding finalize_lease_def ms_def [symmetric]
    by (auto simp: Let_def ms_def [symmetric] split: bool.split_asm option.split_asm if_split_asm)
       (metis fst_conv)+
  from one obtain k d where ms: "ms = [(k, d)]" by (cases ms) auto
  have nm: "\<forall>d. J_obj d \<in> set rows \<longrightarrow> named d"
    using assms(2) rows by (auto simp: row_dicts_rows set_dicts)
  have d: "k < length rows" "rows ! k = J_obj d" "holds_lease i d"
    using lease_matches_iff [of k d i rows] ms ms_def by auto
  have sp: "same_path R session d"
    using named_path [OF dir, of R] ms by (simp add: same_path_def)
  have "sole_holder R i session rows"
    unfolding sole_holder_def
  proof (intro conjI allI impI)
    show "\<exists>p. seat_path R e = Inr p" if "J_obj e \<in> set rows" for e
      using nm that named_path by (fastforce simp: named_def)
    have idx: "a = k" if "a < length rows" "rows ! a = J_obj e" "holds_lease i e \<or> same_path R session e" for a e
    proof (cases "holds_lease i e")
      case True
      with that have "(a, e) \<in> set ms" by (simp add: ms_def lease_matches_iff)
      then show ?thesis by (simp add: ms)
    next
      case False
      with that have "a \<in> set (same_session R session rows)" using same_session_iff [OF nm] by blast
      then show ?thesis using same ms by simp
    qed
    fix a b e f
    assume "a < length rows \<and> b < length rows \<and> rows ! a = J_obj e \<and> rows ! b = J_obj f
      \<and> (holds_lease i e \<or> same_path R session e) \<and> (holds_lease i f \<or> same_path R session f)"
    with idx [of a e] idx [of b f] show "a = b" by simp
  qed
  moreover have "d \<in> set (dicts rows)" unfolding set_dicts using d(1,2) by (metis nth_mem)
  ultimately show ?thesis using that [OF rows fin] d(3) sp by blast
qed

lemma finalize_frees:
  assumes "finalize_lease R V i reusable rsn pool = (Inr item, pool')"
    and "\<forall>d \<in> set (seats pool). named d" and "reusable \<longrightarrow> releases R pool"
  shows "list_all2 (frees_only i) (seats pool) (seats pool') \<and> (\<forall>d \<in> set (seats pool'). \<not> holds_lease i d)"
proof -
  from finalize_lease_sole [OF assms(1,2)] obtain rows session where
    rows: "get_rows pool ''sessions'' = Some rows"
    and fin: "finalize_fork_pool_seat_locked R V session reusable rsn pool = (Inr item, pool')"
    and sole: "sole_holder R i session rows"
    and ex: "\<exists>d \<in> set (dicts rows). holds_lease i d \<and> same_path R session d" .
  have l: "list_all2 (frees_only i) (seats pool) (seats pool')"
  proof (cases reusable)
    case True
    with fin have "release_pool_seat_locked R V session ''idle'' (Some rsn) pool = (Inr item, pool')"
      by (simp add: finalize_fork_pool_seat_locked_def)
    from release_locked_frees [OF this rows sole ex] True assms(3) show ?thesis by simp
  next
    case False
    with fin have "quarantine_fork_basis_locked R V session rsn pool = (Inr item, pool')"
      by (simp add: finalize_fork_pool_seat_locked_def)
    from quarantine_locked_frees [OF this rows sole ex] show ?thesis .
  qed
  moreover have "list_all2 keeps (seats pool) (seats pool')"
    using finalize_lease_evolves [OF assms(1)] by (simp add: evolves_def)
  ultimately have "\<not> holds_lease i d'" if "d' \<in> set (seats pool')" for d'
  proof -
    from that obtain k where k: "k < length (seats pool')" "seats pool' ! k = d'" by (metis in_set_conv_nth)
    let ?d = "seats pool ! k"
    from k l \<open>list_all2 keeps (seats pool) (seats pool')\<close> have f: "frees_only i ?d d'" "keeps ?d d'"
      by (auto simp: list_all2_conv_all_nth)
    show ?thesis
    proof (cases "holds_lease i ?d")
      case True
      with f(1) show ?thesis by (simp add: frees_only_def holds_lease_def)
    next
      case False
      then show ?thesis using keeps_holds [OF f(2)] by blast
    qed
  qed
  with l show ?thesis by blast
qed

lemma finalize_defers:
  assumes "finalize_lease R V i reusable rsn pool = (Inr item, pool')"
    and "\<forall>d \<in> set (seats pool). named d" and "reusable" and "\<not> releases R pool"
  shows "seats pool' = map (\<lambda>d. if holds_lease i d
       then dset d ''release_reason'' (J_str (''eval release deferred because pool lifecycle status ''
              @ pool_status R pool @ '' owns seat state''))
       else d) (seats pool)" (is "_ = map ?f _")
proof -
  from finalize_lease_sole [OF assms(1,2)] obtain rows session where
    rows: "get_rows pool ''sessions'' = Some rows"
    and fin: "finalize_fork_pool_seat_locked R V session reusable rsn pool = (Inr item, pool')"
    and sole: "sole_holder R i session rows"
    and ex: "\<exists>d \<in> set (dicts rows). holds_lease i d \<and> same_path R session d" .
  from fin assms(3) have "release_pool_seat_locked R V session ''idle'' (Some rsn) pool = (Inr item, pool')"
    by (simp add: finalize_fork_pool_seat_locked_def)
  from release_locked_sole [OF this rows sole ex] have
    "seats pool' = map (\<lambda>d. if holds_lease i d then release_item R pool ''idle'' (se_utc V) (Some rsn) d else d)
       (seats pool)"
    by (intro nth_equalityI) (simp_all add: list_all2_conv_all_nth)
  moreover have "release_item R pool ''idle'' (se_utc V) (Some rsn) d = ?f d" if "holds_lease i d" for d
    using assms(4) that by (simp add: releases_def release_item_def) blast
  ultimately show ?thesis by (simp cong: if_cong)
qed

text \<open>C13: finalizing a lease of a pool with named seats frees the seat that held it and nothing else:
  no seat holds the lease afterwards, and every other active seat keeps its lease and stays busy, also
  when the finalization quarantines the whole generation.  Only a reusable seat of a pool that is neither
  ready nor a poisoned fork basis is not freed: the release is deferred, which records the reason in
  the seat that holds the lease and changes nothing else in any seat.\<close>

theorem finalize_frees_exactly_its_seat:
  assumes "finalize_lease R V i reusable rsn pool = (Inr item, pool')"
    and "\<forall>d \<in> set (seats pool). named d"
  shows "if reusable \<and> pool_status R pool \<noteq> ''ready''
            \<and> \<not> (pool_status R pool = ''poisoned'' \<and> is_fork_basis pool)
    then seats pool' = map (\<lambda>d. if holds_lease i d
           then dset d ''release_reason'' (J_str (''eval release deferred because pool lifecycle status ''
                  @ pool_status R pool @ '' owns seat state''))
           else d) (seats pool)
    else (\<forall>d \<in> set (seats pool'). \<not> holds_lease i d)
      \<and> length (seats pool') = length (seats pool)
      \<and> (\<forall>k < length (seats pool). \<not> holds_lease i (seats pool ! k) \<and> busy (seats pool ! k)
           \<and> truthy (dget (seats pool ! k) ''lease'')
           \<longrightarrow> busy (seats pool' ! k) \<and> dget (seats pool' ! k) ''lease'' = dget (seats pool ! k) ''lease'')"
  using finalize_frees [OF assms] finalize_defers [OF assms]
  by (auto simp: releases_def list_all2_conv_all_nth frees_only_def)

lemma finalize_frees_exactly_its_seat_witness:
  "list_all (\<lambda>d. \<not> holds_lease ''L'' d)
     (seats (snd (finalize_lease plain_rt sample_env ''L'' False ''r'' (snd sample_checkout))))"
proof -
  obtain res q where f: "finalize_lease plain_rt sample_env ''L'' False ''r'' (snd sample_checkout) = (res, q)"
    by (rule prod.exhaust)
  have "case finalize_lease plain_rt sample_env ''L'' False ''r'' (snd sample_checkout) of
      (Inl _, _) \<Rightarrow> False | (Inr _, _) \<Rightarrow> True" by code_simp
  then obtain item where r: "res = Inr item" unfolding f by (cases res) simp_all
  have "\<forall>d \<in> set (seats (snd sample_checkout)). named d" by code_simp
  moreover have "pool_status plain_rt (snd sample_checkout) = ''ready''" by code_simp
  ultimately show ?thesis
    using finalize_frees_exactly_its_seat [OF f [unfolded r]] unfolding f r by (simp add: list_all_iff)
qed

end
