(* ===== verification/Pool_Reclaim.thy ===== *)
theory Pool_Reclaim
  imports Pool_Finalize
begin

text \<open>
  Reclamation of the leases of dead clients, \<open>reclaim_stale_leases\<close> of
  \<open>hol_workbench/pools/leases.py\<close>.  Stale rows are found by their owner and freed by their session
  directory, so what is freed is exactly what is stale when the directories of the rows differ.
\<close>

lemma stale_row_busy: "stale_row alive d = Some r \<Longrightarrow> dget d ''status'' = J_str ''busy''"
  by (auto simp: stale_row_def split: if_split_asm)

lemma stale_row_dir: "stale_row alive d = Some r \<Longrightarrow> dget r ''session_dir'' = dget d ''session_dir''"
  by (auto simp: stale_row_def dget_Cons split: if_split_asm json.split_asm)

lemma stale_row_lease: "stale_row alive d = Some r \<Longrightarrow> \<exists>l. dget d ''lease'' = J_obj l"
  by (auto simp: stale_row_def split: if_split_asm json.split_asm)

definition stale_dirs_of :: "(int \<Rightarrow> bool) \<Rightarrow> dict list \<Rightarrow> json list" where
  "stale_dirs_of alive ds = map (\<lambda>r. dget r ''session_dir'') (List.map_filter (stale_row alive) ds)"

lemma mem_stale_dirs:
  "v \<in> set (stale_dirs_of alive ds) \<longleftrightarrow> (\<exists>d \<in> set ds. stale_row alive d \<noteq> None \<and> dget d ''session_dir'' = v)"
proof
  assume "v \<in> set (stale_dirs_of alive ds)"
  then obtain r where r: "r \<in> set (List.map_filter (stale_row alive) ds)" "v = dget r ''session_dir''"
    by (auto simp: stale_dirs_of_def)
  then obtain d where "d \<in> set ds" "stale_row alive d = Some r" by (auto simp: mem_map_filter)
  with r(2) show "\<exists>d \<in> set ds. stale_row alive d \<noteq> None \<and> dget d ''session_dir'' = v"
    using stale_row_dir by (intro bexI [of _ d]) auto
next
  assume "\<exists>d \<in> set ds. stale_row alive d \<noteq> None \<and> dget d ''session_dir'' = v"
  then obtain d r where "d \<in> set ds" "stale_row alive d = Some r" "v = dget r ''session_dir''"
    using stale_row_dir by fastforce
  then show "v \<in> set (stale_dirs_of alive ds)"
    by (auto simp: stale_dirs_of_def mem_map_filter intro!: image_eqI)
qed

lemma named_str: "named d \<Longrightarrow> \<exists>s. dget d ''session_dir'' = J_str s"
  by (auto simp: named_def nonempty_str_def split: json.split_asm)

lemma reclaims_iff_stale:
  assumes "\<forall>d \<in> set ds. named d" and "distinct (map (\<lambda>d. dget d ''session_dir'') ds)" and "d \<in> set ds"
  shows "reclaims (stale_dirs_of alive ds) d \<longleftrightarrow> stale_row alive d \<noteq> None"
proof -
  from assms(1,3) obtain s where s: "dget d ''session_dir'' = J_str s" using named_str by blast
  have "reclaims (stale_dirs_of alive ds) d
      \<longleftrightarrow> J_str s \<in> set (stale_dirs_of alive ds) \<and> dget d ''status'' = J_str ''busy''"
    by (auto simp: reclaims_def in_stale_def list_ex_iff s)
  moreover have "J_str s \<in> set (stale_dirs_of alive ds) \<longleftrightarrow> stale_row alive d \<noteq> None"
    unfolding mem_stale_dirs
    using assms(2,3) s by (metis (mono_tags, lifting) distinct_map inj_on_eq_iff)
  ultimately show ?thesis using stale_row_busy by blast
qed

lemma dicts_map_dicts [simp]: "dicts (map_dicts f rows) = map f (dicts rows)"
  by (induction rows) (auto simp: map_dicts_def split: json.split)

lemma reclaim_rows_spec:
  fixes alive :: "int \<Rightarrow> bool"
  assumes rows: "get_rows pool ''sessions'' = Some rows" and named: "\<forall>d \<in> set (dicts rows). named d"
    and dist: "distinct (map (\<lambda>d. dget d ''session_dir'') (dicts rows))"
  defines "dirs \<equiv> stale_dirs_of alive (dicts rows)"
  shows "list_all hashable dirs" and "\<not> list_ex (reclaim_fails dirs) (dicts rows)"
    and "map (reclaim_row R utc dirs) (dicts rows)
      = map (\<lambda>d. if stale_row alive d = None then d else reclaimed_item R utc d) (dicts rows)"
proof -
  have r: "reclaims dirs d \<longleftrightarrow> stale_row alive d \<noteq> None" if "d \<in> set (dicts rows)" for d
    unfolding dirs_def by (rule reclaims_iff_stale [OF named dist that])
  have h: "hashable (dget d ''session_dir'')" if "d \<in> set (dicts rows)" for d
    using named that named_str by (fastforce simp: hashable_def)
  then show "list_all hashable dirs" by (auto simp: list_all_iff dirs_def mem_stale_dirs)
  have "\<not> reclaim_fails dirs d" if d: "d \<in> set (dicts rows)" for d
  proof
    assume "reclaim_fails dirs d"
    then have bad: "stale_row alive d \<noteq> None"
      "(case or_else (dget d ''lease'') (J_obj []) of J_obj _ \<Rightarrow> False | _ \<Rightarrow> True)"
      using h [OF d] r [OF d] by (auto simp: reclaim_fails_def)
    then obtain l where "dget d ''lease'' = J_obj l" using stale_row_lease by blast
    with bad(2) show False by (simp add: or_else_def split: if_split_asm)
  qed
  then show "\<not> list_ex (reclaim_fails dirs) (dicts rows)" by (auto simp: list_ex_iff)
  show "map (reclaim_row R utc dirs) (dicts rows)
      = map (\<lambda>d. if stale_row alive d = None then d else reclaimed_item R utc d) (dicts rows)"
    using r by (auto simp: reclaim_row_def)
qed

text \<open>Reclamation frees the seats of dead clients and no others.  On a pool whose rows name
  different session directories it always succeeds, reports exactly the busy seats whose recorded owner
  process does not exist, makes those idle without a lease, and leaves every other seat untouched.\<close>

theorem reclaim_frees_only_dead_owners:
  assumes "get_rows pool ''sessions'' = Some rows" and "get_rows pool ''reclaimed_leases'' = Some old"
    and "\<forall>d \<in> set (seats pool). named d" and "distinct (map (\<lambda>d. dget d ''session_dir'') (seats pool))"
  shows "\<exists>pool'. reclaim_stale_leases R alive utc pool
      = Some (List.map_filter (stale_row alive) (seats pool), pool')
    \<and> seats pool'
      = map (\<lambda>d. if stale_row alive d = None then d else reclaimed_item R utc d) (seats pool)"
proof -
  define dirs where "dirs = stale_dirs_of alive (dicts rows)"
  have s: "seats pool = dicts rows" by (rule row_dicts_rows [OF assms(1)])
  note spec = reclaim_rows_spec [OF assms(1) assms(3,4) [unfolded s], where alive = alive, folded dirs_def]
  let ?p = "put_rows pool ''sessions'' (map_dicts (reclaim_row R utc dirs) rows)"
  have p: "seats ?p = map (reclaim_row R utc dirs) (dicts rows)"
    by (subst row_dicts_put [OF assms(1)]) simp_all
  have old: "get_rows ?p ''reclaimed_leases'' = Some old"
    using assms(2) by (simp add: get_rows_def)
  show ?thesis
    using spec p old assms(1)
    by (simp add: reclaim_stale_leases_def stale_pool_leases_def Let_def stale_dirs_of_def [symmetric]
        dirs_def [symmetric] reclaim_history_def s)
qed

definition busy_seat :: "string \<Rightarrow> int \<Rightarrow> json" where
  "busy_seat dir pid =
     J_obj [(''session_dir'', J_str dir), (''status'', J_str ''busy''),
            (''lease'', J_obj [(''lease_id'', J_str dir), (''owner_pid'', J_int pid)])]"

definition two_owner_pool :: dict where
  "two_owner_pool =
     [(''status'', J_str ''ready''), (''sessions'', J_list [busy_seat ''/a'' 1, busy_seat ''/b'' 2])]"

lemma reclaim_frees_only_dead_owners_witness:
  "case reclaim_stale_leases plain_rt (\<lambda>pid. pid = 1) ''t'' two_owner_pool of
     None \<Rightarrow> False
   | Some (rec, pool') \<Rightarrow> length rec = 1 \<and> map busy (seats pool') = [True, False]"
proof -
  have "get_rows two_owner_pool ''sessions'' = Some [busy_seat ''/a'' 1, busy_seat ''/b'' 2]"
    and "get_rows two_owner_pool ''reclaimed_leases'' = Some []" by code_simp+
  moreover have "list_all named (seats two_owner_pool)
      \<and> distinct (map (\<lambda>d. dget d ''session_dir'') (seats two_owner_pool))" by code_simp
  then have "\<forall>d \<in> set (seats two_owner_pool). named d"
    "distinct (map (\<lambda>d. dget d ''session_dir'') (seats two_owner_pool))" by (simp_all add: list_all_iff)
  ultimately obtain pool' where r: "reclaim_stale_leases plain_rt (\<lambda>pid. pid = 1) ''t'' two_owner_pool
      = Some (List.map_filter (stale_row (\<lambda>pid. pid = 1)) (seats two_owner_pool), pool')"
    and s: "seats pool' = map (\<lambda>d. if stale_row (\<lambda>pid. pid = 1) d = None then d
      else reclaimed_item plain_rt ''t'' d) (seats two_owner_pool)"
    using reclaim_frees_only_dead_owners by blast
  have "length (List.map_filter (stale_row (\<lambda>pid. pid = 1)) (seats two_owner_pool)) = 1
    \<and> map busy (map (\<lambda>d. if stale_row (\<lambda>pid. pid = 1) d = None then d
      else reclaimed_item plain_rt ''t'' d) (seats two_owner_pool)) = [True, False]"
    by code_simp
  with r s show ?thesis by simp
qed

text \<open>
  Why the directories must differ: of two busy rows that name the same directory, the one whose owner
  is alive is freed together with the one whose owner is dead.
\<close>

lemma live_owner_loses_shared_directory:
  "case reclaim_stale_leases plain_rt (\<lambda>pid. pid = 1) ''t''
          [(''status'', J_str ''ready''), (''sessions'', J_list [busy_seat ''/a'' 1, busy_seat ''/a'' 2])] of
     None \<Rightarrow> False
   | Some (rec, pool') \<Rightarrow> length rec = 1 \<and> map busy (seats pool') = [False, False]"
  by code_simp

end
