(* ===== verification/Pool_Service.thy ===== *)
theory Pool_Service
  imports Pool_Finalize
begin

text \<open>
  The interface through which hot profile sessions use a pool: a checkout under a lease id, and the
  finalization of that lease.  The locale states the laws a client needs; the accounting of its
  checkouts and finalizations is proved in it once, and the stored pool document interprets it.
\<close>

section \<open>The interface\<close>

datatype ('a, 'b, 'i) lease_call = Acquire 'a 'i | Finish 'b 'i

fun run_calls :: "('a \<Rightarrow> 'i \<Rightarrow> 's \<Rightarrow> bool \<times> 's) \<Rightarrow> ('b \<Rightarrow> 'i \<Rightarrow> 's \<Rightarrow> bool \<times> 's)
    \<Rightarrow> ('a, 'b, 'i) lease_call list \<Rightarrow> 's \<Rightarrow> bool list \<times> 's" where
  "run_calls acquire finish [] s = ([], s)"
| "run_calls acquire finish (c # cs) s =
     (let (ok, s1) = (case c of Acquire a i \<Rightarrow> acquire a i s | Finish b i \<Rightarrow> finish b i s);
          (oks, s2) = run_calls acquire finish cs s1
      in (ok # oks, s2))"

fun granted :: "'i \<Rightarrow> ('a, 'b, 'i) lease_call list \<Rightarrow> bool list \<Rightarrow> nat" where
  "granted i (Acquire a j # cs) (ok # oks) = (if ok \<and> j = i then 1 else 0) + granted i cs oks"
| "granted i (Finish b j # cs) (ok # oks) = granted i cs oks"
| "granted i _ _ = 0"

fun closed :: "'i \<Rightarrow> ('a, 'b, 'i) lease_call list \<Rightarrow> bool list \<Rightarrow> nat" where
  "closed i (Acquire a j # cs) (ok # oks) = closed i cs oks"
| "closed i (Finish b j # cs) (ok # oks) = (if ok \<and> j = i then 1 else 0) + closed i cs oks"
| "closed i _ _ = 0"

locale lease_service =
  fixes inv :: "'s \<Rightarrow> bool"
    and holds :: "'i \<Rightarrow> 's \<Rightarrow> bool"
    and acquire :: "'a \<Rightarrow> 'i \<Rightarrow> 's \<Rightarrow> bool \<times> 's"
    and finish :: "'b \<Rightarrow> 'i \<Rightarrow> 's \<Rightarrow> bool \<times> 's"
  assumes acquire_inv: "inv s \<Longrightarrow> acquire a i s = (ok, s') \<Longrightarrow> inv s'"
    and acquire_fresh: "inv s \<Longrightarrow> acquire a i s = (True, s') \<Longrightarrow> \<not> holds i s"
    and acquire_keeps: "inv s \<Longrightarrow> acquire a i s = (ok, s') \<Longrightarrow> holds j s' \<Longrightarrow> holds j s \<or> ok \<and> j = i"
    and finish_inv: "inv s \<Longrightarrow> finish b i s = (ok, s') \<Longrightarrow> inv s'"
    and finish_held: "inv s \<Longrightarrow> finish b i s = (True, s') \<Longrightarrow> holds i s \<and> \<not> holds i s'"
    and finish_keeps: "inv s \<Longrightarrow> finish b i s = (ok, s') \<Longrightarrow> holds j s' \<Longrightarrow> holds j s"
begin

definition owed :: "'i \<Rightarrow> 's \<Rightarrow> nat" where
  "owed i s = (if holds i s then 1 else 0)"

lemma acquire_owed:
  assumes "inv s" and "acquire a j s = (ok, s')"
  shows "owed i s' \<le> owed i s + (if ok \<and> j = i then 1 else 0)"
  using acquire_keeps [OF assms, of i] acquire_fresh [OF assms(1), of a j s'] assms(2)
  by (auto simp: owed_def)

lemma finish_owed:
  assumes "inv s" and "finish b j s = (ok, s')"
  shows "owed i s' + (if ok \<and> j = i then 1 else 0) \<le> owed i s"
  using finish_keeps [OF assms, of i] finish_held [OF assms(1), of b j s'] assms(2)
  by (auto simp: owed_def)

lemma run_balance:
  assumes "inv s" and "run_calls acquire finish cs s = (oks, s')"
  shows "inv s' \<and> closed i cs oks + owed i s' \<le> owed i s + granted i cs oks"
  using assms
proof (induction cs arbitrary: s oks)
  case (Cons c cs)
  obtain ok s1 where step: "(case c of Acquire a i \<Rightarrow> acquire a i s | Finish b i \<Rightarrow> finish b i s) = (ok, s1)"
    by (rule prod.exhaust)
  with Cons.prems(2) obtain oks1 where r: "run_calls acquire finish cs s1 = (oks1, s')" "oks = ok # oks1"
    by (auto split: prod.split_asm)
  have i: "inv s1"
    using step Cons.prems(1) by (auto split: lease_call.split_asm intro: acquire_inv finish_inv)
  note ih = Cons.IH [OF i r(1)]
  show ?case
  proof (cases c)
    case (Acquire a j)
    with step have "acquire a j s = (ok, s1)" by simp
    from acquire_owed [OF Cons.prems(1) this, of i] ih show ?thesis by (simp add: Acquire r(2))
  next
    case (Finish b j)
    with step have "finish b j s = (ok, s1)" by simp
    from finish_owed [OF Cons.prems(1) this, of i] ih show ?thesis by (simp add: Finish r(2))
  qed
qed simp

lemma never_closed_twice:
  assumes "inv s" and "\<not> holds i s" and "run_calls acquire finish cs s = (oks, s')"
  shows "closed i cs oks \<le> granted i cs oks"
    and "holds i s' \<Longrightarrow> closed i cs oks < granted i cs oks"
  using run_balance [OF assms(1,3), of i] assms(2) by (auto simp: owed_def)

end

section \<open>The pool model provides it\<close>

record checkout_args =
  ca_env :: seat_env
  ca_agent :: "string option"
  ca_allow_dirty :: bool
  ca_kind :: string
  ca_command :: "string option"

record finalize_args =
  fa_env :: seat_env
  fa_reusable :: bool
  fa_reason :: string

definition client_acquire :: "pyrt \<Rightarrow> checkout_args \<Rightarrow> string \<Rightarrow> dict \<Rightarrow> bool \<times> dict" where
  "client_acquire R a i pool =
     (let (res, pool') = checkout_pool_seat_locked R (ca_env a) (ca_agent a) (Some i) (ca_allow_dirty a)
                           (ca_kind a) (ca_command a) pool
      in (\<not> isl res, pool'))"

definition client_finish :: "pyrt \<Rightarrow> finalize_args \<Rightarrow> string \<Rightarrow> dict \<Rightarrow> bool \<times> dict" where
  "client_finish R a i pool =
     (let (res, pool') = finalize_lease R (fa_env a) i (fa_reusable a) (fa_reason a) pool
      in (\<not> isl res, pool'))"

definition pool_holds :: "string \<Rightarrow> dict \<Rightarrow> bool" where
  "pool_holds i pool \<longleftrightarrow> list_ex (holds_lease i) (seats pool)"

definition service_inv :: "dict \<Rightarrow> bool" where
  "service_inv pool \<longleftrightarrow>
     is_fork_basis pool \<and> dget pool ''status'' \<in> {J_str ''ready'', J_str ''poisoned''}
       \<and> (\<forall>d \<in> set (seats pool). named d)"

lemma named_keeps: "keeps d d' \<Longrightarrow> named d' = named d"
  by (simp add: keeps_def named_def)

lemma named_keeps_all: "list_all2 keeps xs ys \<Longrightarrow> \<forall>d \<in> set xs. named d \<Longrightarrow> y \<in> set ys \<Longrightarrow> named y"
  by (drule (1) keeps_origin) (auto simp: named_keeps)

lemma service_inv_evolves:
  assumes e: "evolves p q" and inv: "service_inv p"
  shows "service_inv q"
proof -
  have k: "list_all2 keeps (seats p) (seats q)" using e by (simp add: evolves_def)
  have "named y" if "y \<in> set (seats q)" for y
    by (rule named_keeps_all [OF k _ that]) (use inv in \<open>simp add: service_inv_def\<close>)
  moreover have "dget q ''status'' \<in> {dget p ''status'', J_str ''poisoned''}" and "is_fork_basis q = is_fork_basis p"
    using e by (simp_all add: evolves_def same_frame_def is_fork_basis_def)
  ultimately show ?thesis using inv by (auto simp: service_inv_def)
qed

lemma holds_keeps_all: "list_all2 keeps xs ys \<Longrightarrow> y \<in> set ys \<Longrightarrow> holds_lease i y \<Longrightarrow> list_ex (holds_lease i) xs"
  by (drule (1) keeps_origin) (auto simp: list_ex_iff dest: keeps_holds)

lemma pool_holds_evolves:
  assumes "evolves p q" and "pool_holds i q"
  shows "pool_holds i p"
proof -
  from assms(2) obtain y where "y \<in> set (seats q)" "holds_lease i y" by (auto simp: pool_holds_def list_ex_iff)
  with assms(1) show ?thesis unfolding pool_holds_def evolves_def by (blast intro: holds_keeps_all)
qed

lemma checkout_taken_seats:
  assumes "checkout_pool_seat_locked R V agent (Some i) allow_dirty kind cmd pool = (Inr item, pool')"
  obtains xs d ys pool1 pool2 where "pool' = persist (se_utc V) pool1" "\<not> pool_holds i pool" "evolves pool pool2"
    "same_frame pool2 pool1" "dget pool1 ''status'' = dget pool2 ''status''" "seats pool' = xs @ item # ys"
    "item = take_seat (new_lease V agent kind cmd i) d" "list_all2 keeps (seats pool2) (xs @ d # ys)"
proof -
  from assms obtain pool1 where p: "pool' = persist (se_utc V) pool1" and no: "\<not> pool_holds i pool"
    and c: "checkout_warm_pool_seat R (se_owner_alive V) (se_session_alive V)
         (new_lease V agent kind cmd i) allow_dirty (Some (se_utc V)) pool = Inr (item, pool1)"
    by (cases rule: checkout_locked_cases) (auto simp: selected_lease_id_def pool_holds_def)
  from c obtain pool2 where e: "evolves pool pool2" and f: "same_frame pool2 pool1"
    and st: "dget pool1 ''status'' = dget pool2 ''status''"
    and t: "takes (seats pool2) (seats pool1) (took_seat R (se_session_alive V)
      (new_lease V agent kind cmd i) allow_dirty pool2) item"
    by (rule checkout_spec) blast
  from t obtain xs d ys where item: "item = take_seat (new_lease V agent kind cmd i) d"
    and k: "list_all2 keeps (seats pool2) (xs @ d # ys)" and ds: "seats pool1 = xs @ item # ys"
    unfolding takes_def took_seat_def by blast
  have "seats pool' = xs @ item # ys" by (simp add: p persist_def ds)
  from that [OF p no e f st this item k] show thesis .
qed

lemma checkout_taken_service:
  assumes "checkout_pool_seat_locked R V agent (Some i) allow_dirty kind cmd pool = (Inr item, pool')"
    and "service_inv pool"
  shows "service_inv pool'" and "\<not> pool_holds i pool" and "pool_holds j pool' \<Longrightarrow> pool_holds j pool \<or> j = i"
proof -
  from assms(1) obtain xs d ys pool1 pool2 where p: "pool' = persist (se_utc V) pool1" and no: "\<not> pool_holds i pool"
    and e: "evolves pool pool2" and f: "same_frame pool2 pool1"
    and st: "dget pool1 ''status'' = dget pool2 ''status''" and s: "seats pool' = xs @ item # ys"
    and item: "item = take_seat (new_lease V agent kind cmd i) d" and k: "list_all2 keeps (seats pool2) (xs @ d # ys)"
    by (rule checkout_taken_seats)
  have inv2: "service_inv pool2" by (rule service_inv_evolves [OF e assms(2)])
  have "named x" if "x \<in> set (xs @ d # ys)" for x
    by (rule named_keeps_all [OF k _ that]) (use inv2 in \<open>simp add: service_inv_def\<close>)
  moreover have "named item = named d" by (simp add: item take_seat_def named_def)
  ultimately show "service_inv pool'"
    using inv2 f st unfolding service_inv_def s by (auto simp: p persist_def same_frame_def is_fork_basis_def)
  show "\<not> pool_holds i pool" by (rule no)
  show "pool_holds j pool \<or> j = i" if "pool_holds j pool'"
  proof -
    from that obtain x where x: "x \<in> set (xs @ item # ys)" "holds_lease j x"
      unfolding pool_holds_def s list_ex_iff by blast
    show ?thesis
    proof (cases "x = item")
      case True
      with x(2) item have "j = i" by (simp add: new_lease_id)
      then show ?thesis ..
    next
      case False
      with x(1) have "x \<in> set (xs @ d # ys)" by auto
      from holds_keeps_all [OF k this x(2)] have "pool_holds j pool2" by (simp add: pool_holds_def)
      then show ?thesis using pool_holds_evolves [OF e] by blast
    qed
  qed
qed

lemma finalize_taken_service:
  assumes "finalize_lease R V i reusable rsn pool = (Inr item, pool')" and "service_inv pool"
  shows "pool_holds i pool \<and> \<not> pool_holds i pool'"
proof -
  from assms(2) have nm: "\<forall>d \<in> set (seats pool). named d" by (simp add: service_inv_def)
  from assms(2) have st: "reusable \<longrightarrow> releases R pool"
    by (auto simp: releases_def service_inv_def pool_status_def or_else_def py_str_def)
  from finalize_lease_sole [OF assms(1) nm] obtain rows where
    "get_rows pool ''sessions'' = Some rows" "\<exists>d \<in> set (dicts rows). holds_lease i d" by blast
  then have "pool_holds i pool" by (auto simp: pool_holds_def list_ex_iff row_dicts_rows)
  with finalize_frees [OF assms(1) nm st] show ?thesis by (auto simp: pool_holds_def list_ex_iff)
qed

text \<open>A stored checkout is found again by its lease id.\<close>

lemma lease_matches_dicts: "map snd (lease_matches i rows) = filter (holds_lease i) (dicts rows)"
proof -
  have "map snd (List.map_filter (\<lambda>(j, r). case r of
         J_obj d \<Rightarrow> if holds_lease i d then Some (j, d) else None | _ \<Rightarrow> None) (enumerate n rows))
       = filter (holds_lease i) (dicts rows)" for n
  proof (induction rows arbitrary: n)
    case (Cons r rows)
    then show ?case by (cases r) (simp_all add: List.map_filter_def)
  qed (simp add: List.map_filter_def)
  then show ?thesis by (simp add: lease_matches_def)
qed

lemma stored_checkout_found:
  assumes "checkout_pool_seat_locked R V agent (Some i) allow_dirty kind cmd pool = (Inr item, pool')"
    and "service_inv pool"
  shows "\<exists>dir. map_of item ''session_dir'' = Some (J_str dir) \<and> session_for_lease R V' i pool' = (Inr (Some dir), pool')"
proof -
  from assms(1) obtain xs d ys pool1 pool2 where no: "\<not> pool_holds i pool" and e: "evolves pool pool2"
    and s: "seats pool' = xs @ item # ys" and item: "item = take_seat (new_lease V agent kind cmd i) d"
    and k: "list_all2 keeps (seats pool2) (xs @ d # ys)"
    by (rule checkout_taken_seats)
  have other: "\<not> holds_lease i x" if "x \<in> set (xs @ ys)" for x
  proof
    assume "holds_lease i x"
    with that have "pool_holds i pool2" by (auto simp: pool_holds_def intro: holds_keeps_all [OF k])
    with no pool_holds_evolves [OF e] show False by blast
  qed
  from s obtain rows where rows: "get_rows pool' ''sessions'' = Some rows" "dicts rows = xs @ item # ys"
    by (cases "get_rows pool' ''sessions''") (auto simp: row_dicts_def)
  have "holds_lease i item" by (simp add: item new_lease_id)
  with other have "filter (holds_lease i) (dicts rows) = [item]"
    unfolding rows by (simp add: filter_empty_conv [symmetric])
  then have m: "map snd (lease_matches i rows) = [item]" by (simp add: lease_matches_dicts)
  from checkout_taken_service(1) [OF assms] have "named item" by (simp add: service_inv_def s)
  then obtain dir where dir: "nonempty_str (dget item ''session_dir'') = Some dir" by (auto simp: named_def)
  then have "dget item ''session_dir'' = J_str dir" by (auto simp: nonempty_str_def split: json.split_asm if_split_asm)
  then have "map_of item ''session_dir'' = Some (J_str dir)" by (auto simp: dget_def split: option.split_asm)
  moreover from m obtain k where "lease_matches i rows = [(k, item)]"
    by (cases "lease_matches i rows") (auto simp: map_eq_Cons_conv)
  ultimately show ?thesis using rows(1) dir by (simp add: session_for_lease_def)
qed

lemma client_acquire_cases:
  assumes "client_acquire R a i pool = (ok, pool')"
  obtains (refused) e where "\<not> ok" "evolves pool pool'"
  | (granted) item where "ok" "checkout_pool_seat_locked R (ca_env a) (ca_agent a) (Some i)
      (ca_allow_dirty a) (ca_kind a) (ca_command a) pool = (Inr item, pool')"
proof -
  obtain res q where c: "checkout_pool_seat_locked R (ca_env a) (ca_agent a) (Some i)
      (ca_allow_dirty a) (ca_kind a) (ca_command a) pool = (res, q)" by (rule prod.exhaust)
  with assms have q: "q = pool'" "ok = (\<not> isl res)" by (auto simp: client_acquire_def)
  from c show ?thesis
    by (cases rule: checkout_locked_cases) (use c q in \<open>auto intro: refused granted\<close>)
qed

lemma client_finish_evolves: "client_finish R a i pool = (ok, pool') \<Longrightarrow> evolves pool pool'"
  by (auto simp: client_finish_def split: prod.split_asm intro: finalize_lease_evolves)

interpretation pool_seats: lease_service service_inv pool_holds "client_acquire R" "client_finish R" for R
proof unfold_locales
  fix a i j s ok s'
  assume s: "service_inv s" and c: "client_acquire R a i s = (ok, s')"
  from c show "service_inv s'"
    by (cases rule: client_acquire_cases) (auto intro: service_inv_evolves s checkout_taken_service(1))
  from c show "pool_holds j s \<or> ok \<and> j = i" if "pool_holds j s'"
    by (cases rule: client_acquire_cases)
       (use that s in \<open>auto dest: pool_holds_evolves checkout_taken_service(3)\<close>)
next
  fix a i s s'
  assume "service_inv s" and "client_acquire R a i s = (True, s')"
  then show "\<not> pool_holds i s"
    by (auto elim!: client_acquire_cases dest: checkout_taken_service(2))
next
  fix b i j s ok s'
  assume s: "service_inv s" and c: "client_finish R b i s = (ok, s')"
  show "service_inv s'" by (rule service_inv_evolves [OF client_finish_evolves [OF c] s])
  show "pool_holds j s" if "pool_holds j s'" by (rule pool_holds_evolves [OF client_finish_evolves [OF c] that])
next
  fix b i s s'
  assume s: "service_inv s" and c: "client_finish R b i s = (True, s')"
  from c obtain item where "finalize_lease R (fa_env b) i (fa_reusable b) (fa_reason b) s = (Inr item, s')"
    by (auto simp: client_finish_def isl_def split: prod.split_asm sum.split_asm) (metis sum.exhaust_sel sum.disc(1))
  from finalize_taken_service [OF this s] show "pool_holds i s \<and> \<not> pool_holds i s'" .
qed

text \<open>C12: no lease is finalized twice.  In any sequence of checkouts and finalizations by any number
  of clients, starting from a fork-basis pool of named seats in which no seat is taken, every lease id is
  finalized at most as often as it was checked out, and strictly less often while a seat still holds it.\<close>

theorem leases_close_at_most_once:
  assumes "is_fork_basis pool" and "dget pool ''status'' = J_str ''ready''"
    and "\<forall>d \<in> set (seats pool). named d \<and> \<not> seat_active d"
    and "run_calls (client_acquire R) (client_finish R) cs pool = (oks, pool')"
  shows "closed i cs oks \<le> granted i cs oks
    \<and> (list_ex (holds_lease i) (seats pool') \<longrightarrow> closed i cs oks < granted i cs oks)"
proof -
  have inv: "service_inv pool" using assms(1,2,3) by (simp add: service_inv_def)
  have "\<not> pool_holds i pool"
    using assms(3) by (auto simp: pool_holds_def list_ex_iff seat_active_def holds_lease_def split: json.split_asm)
  from pool_seats.never_closed_twice [OF inv this assms(4)] show ?thesis
    by (simp add: pool_holds_def)
qed

definition sample_calls :: "(checkout_args, finalize_args, string) lease_call list" where
  "sample_calls =
     [Acquire \<lparr>ca_env = sample_env, ca_agent = None, ca_allow_dirty = False, ca_kind = ''k'',
        ca_command = None\<rparr> ''L'',
      Finish \<lparr>fa_env = sample_env, fa_reusable = True, fa_reason = ''r''\<rparr> ''L'',
      Finish \<lparr>fa_env = sample_env, fa_reusable = True, fa_reason = ''r''\<rparr> ''L'']"

lemma leases_close_at_most_once_witness:
  "closed ''L'' sample_calls
     (fst (run_calls (client_acquire plain_rt) (client_finish plain_rt) sample_calls sample_pool)) = 1"
proof -
  obtain oks q where r: "run_calls (client_acquire plain_rt) (client_finish plain_rt) sample_calls sample_pool
      = (oks, q)" by (rule prod.exhaust)
  have "is_fork_basis sample_pool \<and> dget sample_pool ''status'' = J_str ''ready''
      \<and> list_all (\<lambda>d. named d \<and> \<not> seat_active d) (seats sample_pool)" by code_simp
  then have p: "is_fork_basis sample_pool" "dget sample_pool ''status'' = J_str ''ready''"
    "\<forall>d \<in> set (seats sample_pool). named d \<and> \<not> seat_active d" by (simp_all add: list_all_iff)
  have "granted ''L'' sample_calls
      (fst (run_calls (client_acquire plain_rt) (client_finish plain_rt) sample_calls sample_pool)) = 1
    \<and> closed ''L'' sample_calls
      (fst (run_calls (client_acquire plain_rt) (client_finish plain_rt) sample_calls sample_pool)) \<ge> 1"
    by code_simp
  with leases_close_at_most_once [OF p r, of "''L''"] r show ?thesis by simp
qed

end
