(* ===== verification/Source_Mask.thy ===== *)
theory Source_Mask
  imports Lexer_Types
begin

text \<open>
  The text primitives of \<open>hol_workbench/proofs/source.py\<close>: HOL terms in backquotes, the ends of OCaml
  character and quoted-string literals, and the two masking passes after which the theorem search
  looks at nothing but code.
\<close>

section \<open>Lines\<close>

text \<open>
  \<open>str.isspace\<close> on one character, which is also \<open>\s\<close> of \<open>re\<close> and what \<open>strip\<close> removes, and the line
  boundaries of \<open>str.splitlines\<close>.
\<close>

definition py_space :: "nat \<Rightarrow> bool" where
  "py_space c \<longleftrightarrow> (9 \<le> c \<and> c \<le> 13) \<or> (28 \<le> c \<and> c \<le> 32) \<or> (0x2000 \<le> c \<and> c \<le> 0x200A)
     \<or> c \<in> {0x85, 0xA0, 0x1680, 0x2028, 0x2029, 0x202F, 0x205F, 0x3000}"

definition line_end :: "nat \<Rightarrow> bool" where
  "line_end c \<longleftrightarrow> (10 \<le> c \<and> c \<le> 13) \<or> (28 \<le> c \<and> c \<le> 30) \<or> c \<in> {0x85, 0x2028, 0x2029}"

function splitlines :: "ucs \<Rightarrow> ucs list" where
  "splitlines text =
     (if text = [] then []
      else let line = takeWhile (Not \<circ> line_end) text;
               rest = dropWhile (Not \<circ> line_end) text
           in line # (case rest of
                        [] \<Rightarrow> []
                      | c # rest' \<Rightarrow>
                          splitlines (if c = ch_cr \<and> take 1 rest' = [ch_lf] then tl rest' else rest')))"
  by pat_completeness auto
termination
proof (relation "measure length")
  fix xs l r c r'
  assume a: "r = dropWhile (Not \<circ> line_end) xs" "r = c # r'"
  have "length r \<le> length xs" unfolding a(1) by (rule length_dropWhile_le)
  then show "(if c = ch_cr \<and> take 1 r' = [ch_lf] then tl r' else r', xs) \<in> measure length"
    using a(2) by auto
qed simp

declare splitlines.simps [simp del]

definition join_lines :: "ucs list \<Rightarrow> ucs" where
  "join_lines lines = (case lines of [] \<Rightarrow> [] | l # ls \<Rightarrow> l @ concat (map (\<lambda>x. ch_lf # x) ls))"

definition lstrip :: "ucs \<Rightarrow> ucs" where
  "lstrip = dropWhile py_space"

definition rstrip :: "ucs \<Rightarrow> ucs" where
  "rstrip xs = rev (dropWhile py_space (rev xs))"

definition strip :: "ucs \<Rightarrow> ucs" where
  "strip = rstrip \<circ> lstrip"

definition truncated_mark :: ucs where
  "truncated_mark = ch_lf # asc ''... [truncated]''"

definition truncate_text :: "nat \<Rightarrow> nat \<Rightarrow> ucs \<Rightarrow> ucs" where
  "truncate_text max_chars max_lines text =
     (let lines = splitlines text;
          cut_lines = max_lines < length lines;
          out = join_lines (if cut_lines then take max_lines lines else lines);
          cut_chars = max_chars < length out;
          out = (if cut_chars then rstrip (take max_chars out) else out)
      in if cut_lines \<or> cut_chars then out @ truncated_mark else out)"

section \<open>Literals\<close>

definition read_hol_backquote :: "ucs \<Rightarrow> nat \<Rightarrow> (ucs \<times> nat) option" where
  "read_hol_backquote text start =
     (if length text \<le> start \<or> text ! start \<noteq> ch_backquote then None
      else case find_from text [ch_backquote] (start + 1) of
             None \<Rightarrow> None
           | Some e \<Rightarrow> Some (slice text (start + 1) e, e + 1))"

definition hex_digit :: "nat \<Rightarrow> bool" where
  "hex_digit c \<longleftrightarrow> ascii_digit c \<or> (97 \<le> c \<and> c \<le> 102) \<or> (65 \<le> c \<and> c \<le> 70)"

text \<open>Where the escape whose backslash is at \<open>index - 1\<close> ends; \<open>start\<close> is the opening quote.\<close>

definition char_escape_end :: "pyenv \<Rightarrow> ucs \<Rightarrow> nat \<Rightarrow> nat \<Rightarrow> nat option" where
  "char_escape_end E text start index =
     (if length text \<le> index then None
      else if py_isdigit E (text ! index)
           then Some (skip_upto (py_isdigit E) text (start + 5) (index + 1))
      else if text ! index \<in> {120, 111}
           then (let e = skip_upto hex_digit text (index + 4) (index + 1)
                 in if e = index + 1 then None else Some e)
      else if text ! index = 117 \<and> index + 1 < length text \<and> text ! (index + 1) = ch_lbrace
           then map_option Suc (find_from text [ch_rbrace] (index + 2))
      else Some (index + 1))"

definition ocaml_char_literal_end :: "pyenv \<Rightarrow> ucs \<Rightarrow> nat \<Rightarrow> nat option" where
  "ocaml_char_literal_end E text start =
     (if length text \<le> start + 2 \<or> text ! start \<noteq> ch_quote then None
      else if text ! (start + 1) \<in> {ch_lf, ch_cr, ch_quote} then None
      else case (if text ! (start + 1) = ch_backslash then char_escape_end E text start (start + 2)
                 else Some (start + 2)) of
             None \<Rightarrow> None
           | Some index \<Rightarrow>
               if index < length text \<and> text ! index = ch_quote then Some (index + 1) else None)"

text \<open>\<open>re.fullmatch(r"[a-z_][A-Za-z0-9_']*", delimiter)\<close>\<close>

definition delimiter_name :: "ucs \<Rightarrow> bool" where
  "delimiter_name d \<longleftrightarrow>
     (case d of [] \<Rightarrow> False
      | c # cs \<Rightarrow> (97 \<le> c \<and> c \<le> 122 \<or> c = ch_underscore)
          \<and> list_all (\<lambda>c. ascii_alnum c \<or> c = ch_underscore \<or> c = ch_quote) cs)"

definition ocaml_quoted_string_end :: "ucs \<Rightarrow> nat \<Rightarrow> nat option" where
  "ocaml_quoted_string_end text start =
     (if length text \<le> start \<or> text ! start \<noteq> ch_lbrace then None
      else case find_from text [ch_pipe] (start + 1) of
             None \<Rightarrow> None
           | Some pipe \<Rightarrow>
               let delimiter = slice text (start + 1) pipe
               in if delimiter \<noteq> [] \<and> \<not> delimiter_name delimiter then None
                  else map_option (\<lambda>close. close + length delimiter + 2)
                         (find_from text (ch_pipe # delimiter @ [ch_rbrace]) (pipe + 1)))"

section \<open>Masking\<close>

definition blanked :: "nat \<Rightarrow> nat" where
  "blanked c = (if c = ch_lf then c else ch_space)"

definition mask_range :: "ucs \<Rightarrow> nat \<Rightarrow> nat \<Rightarrow> ucs" where
  "mask_range chars s e = take s chars @ map blanked (slice chars s e) @ drop (max s e) chars"

lemma backquote_end:
  "read_hol_backquote text i = Some (t, e) \<Longrightarrow> i + 1 < e \<and> e \<le> length text"
  by (auto simp: read_hol_backquote_def dest!: find_from_Some split: if_split_asm option.split_asm)

lemma char_literal_end:
  assumes "ocaml_char_literal_end E text i = Some e"
  shows "i < e \<and> e \<le> length text"
proof -
  have "char_escape_end E text i (i + 2) = Some x \<Longrightarrow> i < x" for x
    using skip_upto_ge [of "i + 3" "py_isdigit E" "text" "i + 5"]
      skip_upto_ge [of "i + 3" hex_digit "text" "i + 6"]
    by (auto simp: char_escape_end_def Let_def numeral_eq_Suc dest!: find_from_Some split: if_split_asm)
  with assms show ?thesis
    by (auto simp: ocaml_char_literal_end_def split: if_split_asm option.split_asm)
qed

lemma quoted_string_end:
  assumes "ocaml_quoted_string_end text i = Some e"
  shows "i < e \<and> e \<le> length text"
proof -
  from assms obtain p c where p: "find_from text [ch_pipe] (i + 1) = Some p"
    and c: "find_from text (ch_pipe # slice text (i + 1) p @ [ch_rbrace]) (p + 1) = Some c"
    and e: "e = c + length (slice text (i + 1) p) + 2"
    unfolding ocaml_quoted_string_end_def by (auto simp: Let_def split: if_split_asm option.split_asm)
  from find_from_Some [OF p] find_from_Some [OF c] e show ?thesis by simp
qed

function mask_loop :: "pyenv \<Rightarrow> ucs \<Rightarrow> nat \<Rightarrow> nat \<Rightarrow> bool \<Rightarrow> ucs \<Rightarrow> ucs" where
  "mask_loop E text i depth in_string chars =
     (if i < length text then
        if 0 < depth then
          if startswith_at text [ch_lparen, ch_star] i
          then mask_loop E text (i + 2) (depth + 1) in_string (chars[i := ch_space, i + 1 := ch_space])
          else if startswith_at text [ch_star, ch_rparen] i
          then mask_loop E text (i + 2) (depth - 1) in_string (chars[i := ch_space, i + 1 := ch_space])
          else mask_loop E text (i + 1) depth in_string (mask_range chars i (i + 1))
        else if in_string then
          if text ! i = ch_backslash \<and> i + 1 < length text
          then mask_loop E text (i + 2) depth True (mask_range chars i (i + 2))
          else mask_loop E text (i + 1) depth (text ! i \<noteq> ch_dquote) (mask_range chars i (i + 1))
        else if startswith_at text [ch_lparen, ch_star] i
        then mask_loop E text (i + 2) 1 in_string (chars[i := ch_space, i + 1 := ch_space])
        else case (if text ! i = ch_quote then ocaml_char_literal_end E text i else None) of
          Some e \<Rightarrow> mask_loop E text e depth in_string (mask_range chars i e)
        | None \<Rightarrow>
        (case (if text ! i = ch_lbrace then ocaml_quoted_string_end text i else None) of
          Some e \<Rightarrow> mask_loop E text e depth in_string (mask_range chars i e)
        | None \<Rightarrow>
          if text ! i = ch_dquote
          then mask_loop E text (i + 1) depth True (chars[i := ch_space])
          else case (if text ! i = ch_backquote then read_hol_backquote text i else None) of
            Some (_, e) \<Rightarrow> mask_loop E text e depth in_string chars
          | None \<Rightarrow> mask_loop E text (i + 1) depth in_string chars)
      else chars)"
  by pat_completeness auto
termination
  by (relation "measure (\<lambda>(E, text, i, depth, in_string, chars). length text - i)")
     (auto dest: backquote_end char_literal_end quoted_string_end split: if_split_asm)

declare mask_loop.simps [simp del]

definition mask_ocaml_comments_and_strings :: "pyenv \<Rightarrow> ucs \<Rightarrow> ucs" where
  "mask_ocaml_comments_and_strings E text = mask_loop E text 0 0 False text"

function backquote_loop :: "ucs \<Rightarrow> nat \<Rightarrow> ucs \<Rightarrow> ucs" where
  "backquote_loop text index chars =
     (if index < length text then
        case read_hol_backquote text index of
          None \<Rightarrow> backquote_loop text (index + 1) chars
        | Some (_, e) \<Rightarrow> backquote_loop text e (mask_range chars (index + 1) (e - 1))
      else chars)"
  by pat_completeness auto
termination
  by (relation "measure (\<lambda>(text, index, chars). length text - index)") (auto dest: backquote_end)

declare backquote_loop.simps [simp del]

definition mask_hol_backquote_interiors :: "ucs \<Rightarrow> ucs" where
  "mask_hol_backquote_interiors text = backquote_loop text 0 text"

end
