(* ===== verification/Source_Mask_Props.thy ===== *)
theory Source_Mask_Props
  imports Source_Mask
begin

text \<open>
  What the masking passes of \<open>hol_workbench/proofs/source.py\<close> guarantee to the theorem search: every
  position keeps its line, and no string or comment opener is left to match on.
\<close>

section \<open>Positions\<close>

lemma blanked_simps [simp]:
  "blanked ch_lf = ch_lf" "blanked c \<noteq> ch_dquote" "blanked c \<noteq> ch_backquote" "blanked c \<noteq> ch_lparen"
  "blanked c \<noteq> ch_star" "blanked (blanked c) = blanked c" "blanked c = ch_lf \<longleftrightarrow> c = ch_lf"
  by (simp_all add: blanked_def)

lemma mask_range_length [simp]: "s \<le> e \<Longrightarrow> e \<le> length chars \<Longrightarrow> length (mask_range chars s e) = length chars"
  by (simp add: mask_range_def)

lemma mask_range_nth:
  assumes "s \<le> e" and "e \<le> length chars" and "k < length chars"
  shows "mask_range chars s e ! k = (if s \<le> k \<and> k < e then blanked (chars ! k) else chars ! k)"
  using assms by (auto simp: mask_range_def nth_append slice_def min_def)

definition agrees_from :: "ucs \<Rightarrow> ucs \<Rightarrow> nat \<Rightarrow> bool" where
  "agrees_from xs chars i \<longleftrightarrow> length chars = length xs \<and> (\<forall>k. i \<le> k \<and> k < length xs \<longrightarrow> chars ! k = xs ! k)"

lemma agrees_refl [simp]: "agrees_from xs xs i"
  by (simp add: agrees_from_def)

lemma agrees_later: "agrees_from xs chars i \<Longrightarrow> i \<le> j \<Longrightarrow> agrees_from xs chars j"
  by (simp add: agrees_from_def)

lemma agrees_mask:
  "agrees_from xs chars i \<Longrightarrow> s \<le> e \<Longrightarrow> e \<le> j \<Longrightarrow> i \<le> j \<Longrightarrow> e \<le> length xs
     \<Longrightarrow> agrees_from xs (mask_range chars s e) j"
  by (simp add: agrees_from_def mask_range_nth)

text \<open>Every character is kept or blanked, and up to \<open>i\<close> nothing changes.\<close>

definition kept_or_blank :: "nat \<Rightarrow> ucs \<Rightarrow> ucs \<Rightarrow> bool" where
  "kept_or_blank i chars r \<longleftrightarrow> length r = length chars
     \<and> (\<forall>k < length chars. (k < i \<longrightarrow> r ! k = chars ! k) \<and> (r ! k = chars ! k \<or> r ! k = blanked (chars ! k)))"

lemma kept_refl [simp]: "kept_or_blank i chars chars"
  by (simp add: kept_or_blank_def)

lemma kept_mask:
  assumes "kept_or_blank j (mask_range chars s e) r" and "i \<le> s" and "s \<le> e" and "e \<le> length chars" and "i \<le> j"
  shows "kept_or_blank i chars r"
  using assms by (auto simp: kept_or_blank_def mask_range_nth split: if_splits)

lemma kept_later: "kept_or_blank j chars r \<Longrightarrow> i \<le> j \<Longrightarrow> kept_or_blank i chars r"
  by (auto simp: kept_or_blank_def)

section \<open>One iteration of the masking loop\<close>

lemma update_two_mask:
  assumes "agrees_from xs chars i" and "startswith_at xs [a, b] i" and "a \<noteq> ch_lf" and "b \<noteq> ch_lf"
  shows "chars[i := ch_space, i + 1 := ch_space] = mask_range chars i (i + 2)" and "i + 2 \<le> length xs"
proof -
  show l: "i + 2 \<le> length xs" using startswith_at_length [OF assms(2)] by simp
  have "drop i xs = xs ! i # xs ! (i + 1) # drop (i + 2) xs"
    using l by (metis Cons_nth_drop_Suc Suc_eq_plus1 add_2_eq_Suc' Suc_le_lessD add_Suc_right le_SucI less_SucI not_less_eq_eq order.strict_iff_not)
  with assms(2) have "xs ! i = a" "xs ! (i + 1) = b" by (simp_all add: startswith_at_def)
  with assms(1,3,4) l show "chars[i := ch_space, i + 1 := ch_space] = mask_range chars i (i + 2)"
    by (intro nth_equalityI) (auto simp: mask_range_nth agrees_from_def nth_list_update blanked_def)
qed

lemma update_one_mask:
  assumes "agrees_from xs chars i" and "i < length xs" and "xs ! i \<noteq> ch_lf"
  shows "chars[i := ch_space] = mask_range chars i (i + 1)"
  using assms by (intro nth_equalityI) (auto simp: mask_range_nth agrees_from_def nth_list_update blanked_def)

lemma mask_loop_cases:
  assumes "agrees_from xs chars i" and "i < length xs"
  obtains (blank) j depth' s' where "i < j" "j \<le> length xs"
      "mask_loop E xs i depth s chars = mask_loop E xs j depth' s' (mask_range chars i j)"
  | (quotation) t j where "read_hol_backquote xs i = Some (t, j)"
      "mask_loop E xs i depth s chars = mask_loop E xs j depth s chars"
  | (keep) "xs ! i \<noteq> ch_dquote" "\<not> startswith_at xs [ch_lparen, ch_star] i"
      "xs ! i = ch_backquote \<Longrightarrow> read_hol_backquote xs i = None"
      "mask_loop E xs i depth s chars = mask_loop E xs (i + 1) depth s chars"
proof -
  note two = update_two_mask [OF assms(1)]
  note step = mask_loop.simps [of E xs i]
  consider "0 < depth" | "depth = 0" "s" | "depth = 0" "\<not> s" by blast
  then show ?thesis
  proof cases
    case 1
    then show ?thesis
      using assms(2) two [of ch_lparen ch_star] two [of ch_star ch_rparen]
      by (cases "startswith_at xs [ch_lparen, ch_star] i"; cases "startswith_at xs [ch_star, ch_rparen] i")
         (auto simp: step intro: blank [of "i + 2"] blank [of "i + 1"])
  next
    case 2
    show ?thesis
    proof (cases "xs ! i = ch_backslash \<and> i + 1 < length xs")
      case True
      then show ?thesis using 2 assms(2) by (intro blank [of "i + 2" depth True]) (simp_all add: step)
    next
      case False
      then show ?thesis
        using 2 assms(2) by (intro blank [of "i + 1" depth "xs ! i \<noteq> ch_dquote"]) (auto simp: step)
    qed
  next
    case 3
    show ?thesis
    proof (cases "startswith_at xs [ch_lparen, ch_star] i")
      case True
      then show ?thesis using 3 assms(2) two [of ch_lparen ch_star] by (intro blank [of "i + 2"]) (auto simp: step)
    next
      case opn: False
      show ?thesis
      proof (cases "if xs ! i = ch_quote then ocaml_char_literal_end E xs i else None")
        case (Some e)
        then show ?thesis using 3 assms(2) opn char_literal_end [of E xs i e]
          by (intro blank [of e]) (auto simp: step split: if_split_asm)
      next
        case lit: None
        show ?thesis
        proof (cases "if xs ! i = ch_lbrace then ocaml_quoted_string_end xs i else None")
          case (Some e)
          then show ?thesis using 3 assms(2) opn lit quoted_string_end [of xs i e]
            by (intro blank [of e]) (auto simp: step split: if_split_asm)
        next
          case quo: None
          show ?thesis
          proof (cases "xs ! i = ch_dquote")
            case True
            then show ?thesis using 3 assms opn lit quo update_one_mask [OF assms]
              by (intro blank [of "i + 1"]) (auto simp: step)
          next
            case False
            show ?thesis
            proof (cases "if xs ! i = ch_backquote then read_hol_backquote xs i else None")
              case (Some te)
              then show ?thesis using 3 assms(2) opn lit quo False
                by (cases te) (intro quotation [of "fst te" "snd te"], auto simp: step split: if_split_asm)
            next
              case None
              then show ?thesis using 3 assms(2) opn lit quo False
                by (intro keep) (auto simp: step split: if_split_asm)
            qed
          qed
        qed
      qed
    qed
  qed
qed

lemma mask_loop_kept: "agrees_from xs chars i \<Longrightarrow> kept_or_blank i chars (mask_loop E xs i depth s chars)"
proof (induction i arbitrary: depth s chars rule: index_induct [where n = "length xs"])
  case (step i)
  show ?case
  proof (cases "i < length xs")
    case True
    from step.prems True show ?thesis
    proof (cases rule: mask_loop_cases [where E = E and depth = depth and s = s])
      case (blank j depth' s')
      have "agrees_from xs (mask_range chars i j) j"
        by (rule agrees_mask [OF step.prems]) (use blank(1,2) in auto)
      then have "kept_or_blank j (mask_range chars i j) (mask_loop E xs j depth' s' (mask_range chars i j))"
        by (rule step.IH [OF True blank(1)])
      moreover have "length chars = length xs" using step.prems by (simp add: agrees_from_def)
      ultimately show ?thesis
        unfolding blank(3) by (rule_tac kept_mask [of j chars i j]) (use blank(1,2) in auto)
    next
      case (quotation t j)
      then have "i < j" using backquote_end by fastforce
      then show ?thesis
        unfolding quotation(2)
        by (intro kept_later [OF step.IH [OF True _ agrees_later [OF step.prems]]]) auto
    next
      case keep
      show ?thesis
        unfolding keep(4)
        by (intro kept_later [OF step.IH [OF True _ agrees_later [OF step.prems]]]) auto
    qed
  qed (simp add: mask_loop.simps)
qed

section \<open>What is left after the first pass\<close>

lemma find_char_None: "find_from xs [c] i = None \<longleftrightarrow> (\<forall>k. i \<le> k \<and> k < length xs \<longrightarrow> xs ! k \<noteq> c)"
proof (induction i rule: index_induct [where n = "length xs"])
  case (step i)
  have hd: "startswith_at xs [c] i \<longleftrightarrow> xs ! i = c" if "i < length xs"
    using that by (simp add: startswith_at_def take_Suc_conv_app_nth hd_drop_conv_nth [symmetric] take_Suc)
  show ?case
  proof (cases "i < length xs")
    case True
    have "(\<forall>k. i \<le> k \<and> k < length xs \<longrightarrow> xs ! k \<noteq> c)
        \<longleftrightarrow> xs ! i \<noteq> c \<and> (\<forall>k. Suc i \<le> k \<and> k < length xs \<longrightarrow> xs ! k \<noteq> c)"
      using True by (metis Suc_leD Suc_leI le_neq_implies_less order_refl)
    with True hd step.IH [OF True lessI] show ?thesis by (subst find_from.simps) (simp add: Suc_le_eq)
  qed (auto simp: find_from.simps)
qed

lemma startswith_two:
  "startswith_at xs [a, b] i \<longleftrightarrow> i + 1 < length xs \<and> xs ! i = a \<and> xs ! (i + 1) = b"
proof (cases "i + 1 < length xs")
  case True
  then have "drop i xs = xs ! i # xs ! (i + 1) # drop (i + 2) xs"
    by (metis Cons_nth_drop_Suc Suc_eq_plus1 Suc_lessD add_2_eq_Suc')
  with True show ?thesis by (simp add: startswith_at_def)
next
  case False
  then show ?thesis using startswith_at_length [of xs "[a, b]" i] by auto
qed

lemma backquote_Some:
  "read_hol_backquote xs i = Some (t, e) \<longleftrightarrow>
     i < length xs \<and> xs ! i = ch_backquote \<and> i + 1 < e \<and> e \<le> length xs \<and> xs ! (e - 1) = ch_backquote
       \<and> (\<forall>k. i < k \<and> k < e - 1 \<longrightarrow> xs ! k \<noteq> ch_backquote) \<and> t = slice xs (i + 1) (e - 1)" (is "?l = ?r")
proof
  assume ?l
  then obtain p where i: "i < length xs" "xs ! i = ch_backquote"
    and p: "find_from xs [ch_backquote] (i + 1) = Some p" and e: "e = p + 1" "t = slice xs (i + 1) p"
    by (auto simp: read_hol_backquote_def split: if_split_asm option.split_asm)
  have at: "startswith_at xs [ch_backquote] k \<longleftrightarrow> xs ! k = ch_backquote" if "k < length xs" for k
    using that by (simp add: startswith_at_def take_Suc hd_drop_conv_nth)
  from find_from_Some [OF p] find_from_least [OF p] i e at show ?r by fastforce
next
  assume r: ?r
  then have "\<not> (\<forall>k. i + 1 \<le> k \<and> k < length xs \<longrightarrow> xs ! k \<noteq> ch_backquote)"
    by (auto intro!: exI [of _ "e - 1"])
  then have "find_from xs [ch_backquote] (i + 1) \<noteq> None" unfolding find_char_None .
  then obtain p where p: "find_from xs [ch_backquote] (i + 1) = Some p" by blast
  have at: "startswith_at xs [ch_backquote] k \<longleftrightarrow> xs ! k = ch_backquote" if "k < length xs" for k
    using that by (simp add: startswith_at_def take_Suc hd_drop_conv_nth)
  have "p < length xs" "xs ! p = ch_backquote" "i + 1 \<le> p" using find_from_Some [OF p] at by auto
  moreover have "i + 1 \<le> e - 1" using r by linarith
  then have "\<not> e - 1 < p" using find_from_least [OF p, of "e - 1"] r at by auto
  ultimately have "p = e - 1" using r by (metis Suc_eq_plus1 Suc_le_eq linorder_neqE_nat)
  with p r show ?l by (simp add: read_hol_backquote_def)
qed

text \<open>\<open>cleared xs i\<close>: from \<open>i\<close> on, quotes and comment openers occur inside HOL terms only.\<close>

inductive cleared :: "ucs \<Rightarrow> nat \<Rightarrow> bool" for xs where
  stop: "length xs \<le> i \<Longrightarrow> cleared xs i"
| char: "i < length xs \<Longrightarrow> xs ! i \<noteq> ch_dquote \<Longrightarrow> \<not> startswith_at xs [ch_lparen, ch_star] i
    \<Longrightarrow> read_hol_backquote xs i = None \<Longrightarrow> cleared xs (i + 1) \<Longrightarrow> cleared xs i"
| quotation: "read_hol_backquote xs i = Some (t, e) \<Longrightarrow> cleared xs e \<Longrightarrow> cleared xs i"

lemma cleared_blank:
  assumes "i \<le> j" and "j \<le> length xs" and "\<forall>k. i \<le> k \<and> k < j \<longrightarrow> xs ! k = blanked (xs ! k)" and "cleared xs j"
  shows "cleared xs i"
  using assms(1,3)
proof (induction rule: inc_induct)
  case base
  show ?case by (rule assms(4))
next
  case (step n)
  then have b: "xs ! n = blanked (xs ! n)" and c: "cleared xs (n + 1)" by simp_all
  have "blanked (xs ! n) = ch_lf \<or> blanked (xs ! n) = ch_space" by (simp add: blanked_def)
  then have "xs ! n = ch_lf \<or> xs ! n = ch_space" unfolding b [symmetric] .
  then have "xs ! n \<noteq> ch_dquote" "xs ! n \<noteq> ch_backquote" "xs ! n \<noteq> ch_lparen" by auto
  with c step.hyps assms(2) show ?case
    by (rule_tac cleared.char) (simp_all add: startswith_two read_hol_backquote_def)
qed

lemma mask_loop_cleared:
  "agrees_from xs chars i \<Longrightarrow> cleared (mask_loop E xs i depth s chars) i"
proof (induction i arbitrary: depth s chars rule: index_induct [where n = "length xs"])
  case (step i)
  define r where "r = mask_loop E xs i depth s chars"
  have kept: "kept_or_blank i chars r" unfolding r_def by (rule mask_loop_kept [OF step.prems])
  then have len: "length r = length xs" using step.prems by (simp add: kept_or_blank_def agrees_from_def)
  have cl: "cleared r i"
  proof (cases "i < length xs")
    case True
    from step.prems True show ?thesis
    proof (cases rule: mask_loop_cases [where E = E and depth = depth and s = s])
      case (blank j depth' s')
      have a: "agrees_from xs (mask_range chars i j) j"
        by (rule agrees_mask [OF step.prems]) (use blank(1,2) in auto)
      have r: "r = mask_loop E xs j depth' s' (mask_range chars i j)" by (simp add: r_def blank(3))
      have "r ! k = blanked (r ! k)" if "i \<le> k" "k < j" for k
        using mask_loop_kept [OF a, of E depth' s'] that blank(1,2) step.prems
        by (simp add: kept_or_blank_def r mask_range_nth agrees_from_def)
      moreover have "cleared r j" unfolding r by (rule step.IH [OF True blank(1) a])
      ultimately show ?thesis using blank(1,2) len by (intro cleared_blank [of i j]) auto
    next
      case (quotation t j)
      then have j: "i < j" using backquote_end by fastforce
      have a: "agrees_from xs chars j" using agrees_later [OF step.prems] j by simp
      have r: "r = mask_loop E xs j depth s chars" by (simp add: r_def quotation(2))
      have same: "r ! k = xs ! k" if "i \<le> k" "k < j" "k < length xs" for k
        using mask_loop_kept [OF a, of E depth s] that step.prems by (simp add: kept_or_blank_def r agrees_from_def)
      have "read_hol_backquote r i = Some (slice r (i + 1) (j - 1), j)"
        using quotation(1) len j unfolding backquote_Some by (auto simp: same)
      moreover have "cleared r j" unfolding r by (rule step.IH [OF True j a])
      ultimately show ?thesis by (rule cleared.quotation)
    next
      case keep
      have a: "agrees_from xs chars (i + 1)" using agrees_later [OF step.prems] by simp
      have r: "r = mask_loop E xs (i + 1) depth s chars" by (simp add: r_def keep(4))
      note k = mask_loop_kept [OF a, of E depth s, folded r]
      have ri: "r ! i = xs ! i" using k True step.prems by (simp add: kept_or_blank_def agrees_from_def)
      have orig: "r ! k = xs ! k \<or> r ! k = blanked (xs ! k)" if "i < k" "k < length xs" for k
        using k that step.prems by (auto simp: kept_or_blank_def agrees_from_def)
      have "\<not> startswith_at r [ch_lparen, ch_star] i"
        using keep(2) orig [of "i + 1"] ri len by (auto simp: startswith_two)
      moreover have "read_hol_backquote r i = None"
      proof (cases "xs ! i = ch_backquote")
        case bq: True
        have "find_from xs [ch_backquote] (i + 1) = None"
          using keep(3) [OF bq] bq True by (simp add: read_hol_backquote_def split: option.split_asm)
        then have "find_from r [ch_backquote] (i + 1) = None"
          unfolding find_char_None using orig len by (metis Suc_eq_plus1 Suc_le_eq blanked_simps(3))
        then show ?thesis by (simp add: read_hol_backquote_def)
      qed (simp add: read_hol_backquote_def ri)
      moreover have "cleared r (i + 1)" unfolding r by (rule step.IH [OF True _ a]) simp
      ultimately show ?thesis using True keep(1) ri len by (rule_tac cleared.char) simp_all
    qed
  qed (simp add: len cleared.stop)
  then show ?case by (simp add: r_def)
qed

section \<open>What is left after the second pass\<close>

definition bare_from :: "ucs \<Rightarrow> nat \<Rightarrow> bool" where
  "bare_from r i \<longleftrightarrow>
     (\<forall>k. i \<le> k \<and> k < length r \<longrightarrow> r ! k \<noteq> ch_dquote \<and> \<not> startswith_at r [ch_lparen, ch_star] k)"

lemma bare_from_step:
  assumes "bare_from r (i + 1)" and "r ! i \<noteq> ch_dquote" and "\<not> startswith_at r [ch_lparen, ch_star] i"
  shows "bare_from r i"
  using assms unfolding bare_from_def by (metis Suc_eq_plus1 Suc_leI le_neq_implies_less)

lemma backquote_loop_clears:
  "cleared xs i \<Longrightarrow> agrees_from xs chars i
     \<Longrightarrow> kept_or_blank i chars (backquote_loop xs i chars) \<and> bare_from (backquote_loop xs i chars) i"
proof (induction i arbitrary: chars rule: cleared.induct)
  case (stop i)
  then have "backquote_loop xs i chars = chars" by (simp add: backquote_loop.simps)
  then show ?case using stop by (simp add: bare_from_def agrees_from_def)
next
  case (char i)
  have a: "agrees_from xs chars (i + 1)" using agrees_later [OF char.prems] by simp
  define r where "r = backquote_loop xs (i + 1) chars"
  have e: "backquote_loop xs i chars = r"
    using char.hyps(1,4) by (simp add: r_def backquote_loop.simps [of xs i])
  have k: "kept_or_blank (i + 1) chars r" and b: "bare_from r (i + 1)"
    using char.IH [OF a] by (simp_all add: r_def)
  have len: "length chars = length xs" using char.prems by (simp add: agrees_from_def)
  have ri: "r ! i = xs ! i" using k char.hyps(1) char.prems len by (simp add: kept_or_blank_def agrees_from_def)
  have "r ! k = xs ! k \<or> r ! k = blanked (xs ! k)" if "i < k" "k < length xs" for k
    using k that char.prems by (auto simp: kept_or_blank_def agrees_from_def)
  from this [of "i + 1"] have "\<not> startswith_at r [ch_lparen, ch_star] i"
    using char.hyps(3) ri k len by (auto simp: startswith_two kept_or_blank_def)
  then have "bare_from r i" by (intro bare_from_step [OF b]) (simp add: ri char.hyps(2))
  then show ?case unfolding e using k by (auto intro: kept_later)
next
  case (quotation i t e)
  from quotation.hyps(1) have q: "i < length xs" "xs ! i = ch_backquote" "i + 1 < e" "e \<le> length xs"
    "xs ! (e - 1) = ch_backquote" by (simp_all add: backquote_Some)
  define chars' where "chars' = mask_range chars (i + 1) (e - 1)"
  have a: "agrees_from xs chars' e"
    unfolding chars'_def by (rule agrees_mask [OF quotation.prems]) (use q in auto)
  define r where "r = backquote_loop xs e chars'"
  have r: "backquote_loop xs i chars = r"
    using quotation.hyps(1) q(1) by (simp add: r_def chars'_def backquote_loop.simps [of xs i])
  have k: "kept_or_blank e chars' r" and b: "bare_from r e" using quotation.IH [OF a] by (simp_all add: r_def)
  have len: "length chars = length xs" using quotation.prems by (simp add: agrees_from_def)
  have "r ! m = ch_backquote \<or> r ! m = blanked (xs ! m)" if "i \<le> m" "m < e" for m
  proof -
    have "r ! m = chars' ! m" using k that q(4) len q(3) by (simp add: kept_or_blank_def chars'_def)
    moreover have "chars ! m = xs ! m" using quotation.prems that q(4) by (simp add: agrees_from_def)
    moreover have "m = i \<or> m = e - 1 \<or> (i + 1 \<le> m \<and> m < e - 1)" using that by linarith
    ultimately show ?thesis using q len that by (auto simp: chars'_def mask_range_nth)
  qed
  then have inside: "r ! m \<noteq> ch_dquote \<and> r ! m \<noteq> ch_lparen" if "i \<le> m" "m < e" for m
    using that by fastforce
  have "bare_from r i"
    unfolding bare_from_def
  proof (intro allI impI)
    fix m assume m: "i \<le> m \<and> m < length r"
    show "r ! m \<noteq> ch_dquote \<and> \<not> startswith_at r [ch_lparen, ch_star] m"
    proof (cases "m < e")
      case True
      with inside [of m] m show ?thesis by (simp add: startswith_two)
    next
      case False
      with b m show ?thesis by (simp add: bare_from_def)
    qed
  qed
  moreover have "kept_or_blank i chars r"
    by (rule kept_mask [OF k [unfolded chars'_def]]) (use q len in auto)
  ultimately show ?case by (simp add: r)
qed

section \<open>Properties\<close>

abbreviation search_text :: "pyenv \<Rightarrow> ucs \<Rightarrow> ucs" where
  "search_text E xs \<equiv> mask_hol_backquote_interiors (mask_ocaml_comments_and_strings E xs)"

lemma mask_kept: "kept_or_blank 0 xs (mask_ocaml_comments_and_strings E xs)"
  unfolding mask_ocaml_comments_and_strings_def by (rule mask_loop_kept) simp

lemma mask_cleared: "cleared (mask_ocaml_comments_and_strings E xs) 0"
  unfolding mask_ocaml_comments_and_strings_def by (rule mask_loop_cleared) simp

lemma search_clears:
  "kept_or_blank 0 (mask_ocaml_comments_and_strings E xs) (search_text E xs) \<and> bare_from (search_text E xs) 0"
  unfolding mask_hol_backquote_interiors_def by (rule backquote_loop_clears [OF mask_cleared]) simp

lemma search_kept: "kept_or_blank 0 xs (search_text E xs)"
  using mask_kept [of xs E] search_clears [of E xs] by (auto simp: kept_or_blank_def) (metis blanked_simps(6))+

text \<open>Masking keeps every position.  Both masked texts have the length of the source, every
  character is either the source's or a blank in its place, and the line breaks are exactly the source's,
  so offsets and line numbers found in a masked text are those of the source.\<close>

theorem masking_keeps_positions:
  "length (mask_ocaml_comments_and_strings E xs) = length xs
   \<and> length (search_text E xs) = length xs
   \<and> (\<forall>k. k < length xs \<longrightarrow> mask_ocaml_comments_and_strings E xs ! k \<in> {xs ! k, blanked (xs ! k)}
        \<and> search_text E xs ! k \<in> {xs ! k, blanked (xs ! k)}
        \<and> (search_text E xs ! k = ch_lf \<longleftrightarrow> xs ! k = ch_lf))"
  using mask_kept [of xs E] search_kept [of xs E] by (auto simp: kept_or_blank_def)

lemma masking_keeps_positions_witness:
  "search_text \<lparr>py_category = (\<lambda>_. ''Cn''), py_isdigit = ascii_digit, py_isupper = (\<lambda>_. False),
      py_sha256 = (\<lambda>_. ''digest'')\<rparr> [ch_dquote, ch_lf, ch_dquote] ! 1 = ch_lf"
  by (rule masking_keeps_positions [THEN conjunct2, THEN conjunct2, THEN spec, THEN mp, THEN conjunct2,
        THEN conjunct2, THEN iffD2]) simp_all

text \<open>The theorem search sees code only: after both passes the text contains no string quote and no
  comment opener at any position, whatever the source, also when its comments, strings or HOL terms are
  unterminated.\<close>

theorem search_text_is_bare:
  "\<not> (\<exists>k. k < length xs \<and> (search_text E xs ! k = ch_dquote
      \<or> startswith_at (search_text E xs) [ch_lparen, ch_star] k))"
  using search_clears [of E xs] search_kept [of xs E] by (auto simp: bare_from_def kept_or_blank_def)

end
