(* ===== verification/Theorem_Scan.thy ===== *)
theory Theorem_Scan
  imports Source_Mask_Props Loader_Scan
begin

text \<open>
  Extraction of named theorem statements, \<open>hol_workbench/proofs/theorem_scan.py\<close>, with the two regular
  expressions it searches for from \<open>hol_workbench/proofs/source.py\<close>.  The expressions are deterministic:
  no alternative or repetition that fails can succeed with a shorter match, so each is one pass.
\<close>

section \<open>Statements\<close>

fun collapse_lines :: "ucs list \<Rightarrow> ucs list \<Rightarrow> bool \<Rightarrow> ucs list" where
  "collapse_lines [] collapsed blank = collapsed"
| "collapse_lines (line # lines) collapsed blank =
     (if line = []
      then collapse_lines lines (if \<not> blank \<and> collapsed \<noteq> [] then collapsed @ [[]] else collapsed) True
      else collapse_lines lines (collapsed @ [line]) False)"

definition normalize_hol_statement :: "ucs \<Rightarrow> ucs" where
  "normalize_hol_statement statement =
     (let lines = map strip (splitlines (strip statement))
      in strip (join_lines (collapse_lines lines [] False)))"

definition statement_preview :: "ucs \<Rightarrow> ucs" where
  "statement_preview = truncate_text 1600 28"

section \<open>The searches\<close>

text \<open>\<open>py_isalnum\<close> is \<open>str.isalnum\<close> on one character, which the word boundary of \<open>re\<close> reads.\<close>

record scanenv = pyenv +
  py_isalnum :: "nat \<Rightarrow> bool"

definition word_char :: "scanenv \<Rightarrow> nat \<Rightarrow> bool" where
  "word_char E c \<longleftrightarrow> py_isalnum E c \<or> c = ch_underscore"

definition ascii_letter :: "nat \<Rightarrow> bool" where
  "ascii_letter c \<longleftrightarrow> (65 \<le> c \<and> c \<le> 90) \<or> (97 \<le> c \<and> c \<le> 122)"

definition name_char :: "nat \<Rightarrow> bool" where
  "name_char c \<longleftrightarrow> ascii_alnum c \<or> c = ch_underscore \<or> c = ch_quote"

record theorem_match =
  tm_start :: nat
  tm_name :: ucs
  tm_rule :: "ucs option"
  tm_end :: nat

text \<open>\<open>\blet\s+(name)\s*=\s*(?:time\s+)?\<close>: the name and the position after it.\<close>

definition match_let :: "scanenv \<Rightarrow> ucs \<Rightarrow> nat \<Rightarrow> (ucs \<times> nat) option" where
  "match_let E xs i =
     (if \<not> startswith_at xs (asc ''let'') i \<or> (0 < i \<and> word_char E (xs ! (i - 1))) then None
      else let j = skip_while py_space xs (i + 3)
      in if j = i + 3 \<or> length xs \<le> j \<or> \<not> ascii_letter (xs ! j) then None
         else let k = skip_while name_char xs (j + 1);
                  l = skip_while py_space xs k
         in if length xs \<le> l \<or> xs ! l \<noteq> 61 then None
            else let m = skip_while py_space xs (l + 1);
                     t = skip_while py_space xs (m + 4)
                 in Some (slice xs j k,
                          if startswith_at xs (asc ''time'') m \<and> m + 4 < t then t else m))"

definition DIRECT_THEOREM_RULES :: "ucs list" where
  "DIRECT_THEOREM_RULES =
     map asc [''ARITH_RULE'', ''INT_ARITH'', ''TAUT'', ''REAL_ARITH'', ''REAL_RING'', ''RING_RULE'']"

definition match_theorem :: "scanenv \<Rightarrow> ucs \<Rightarrow> nat \<Rightarrow> theorem_match option" where
  "match_theorem E xs i =
     (case match_let E xs i of
        None \<Rightarrow> None
      | Some (name, p) \<Rightarrow>
          if \<not> startswith_at xs (asc ''prove'') p then None
          else let n = skip_while py_space xs (p + 5)
               in if n < length xs \<and> xs ! n = ch_lparen
                  then Some \<lparr>tm_start = i, tm_name = name, tm_rule = None, tm_end = n + 1\<rparr>
                  else None)"

definition match_direct :: "scanenv \<Rightarrow> ucs \<Rightarrow> nat \<Rightarrow> theorem_match option" where
  "match_direct E xs i =
     (case match_let E xs i of
        None \<Rightarrow> None
      | Some (name, p) \<Rightarrow>
          (case find (\<lambda>r. startswith_at xs r p) DIRECT_THEOREM_RULES of
             None \<Rightarrow> None
           | Some r \<Rightarrow>
               let n = skip_while py_space xs (p + length r)
               in if n < length xs \<and> xs ! n = ch_backquote
                  then Some \<lparr>tm_start = i, tm_name = name, tm_rule = Some r, tm_end = n + 1\<rparr>
                  else None))"

text \<open>\<open>pattern.finditer\<close>; a match that did not advance would end the search, and none does.\<close>

function finditer :: "(nat \<Rightarrow> theorem_match option) \<Rightarrow> nat \<Rightarrow> nat \<Rightarrow> theorem_match list" where
  "finditer m n i =
     (if i < n then
        case m i of
          None \<Rightarrow> finditer m n (i + 1)
        | Some t \<Rightarrow> t # (if i < tm_end t then finditer m n (tm_end t) else [])
      else [])"
  by pat_completeness auto
termination
  by (relation "measure (\<lambda>(m, n, i). n - i)") auto

declare finditer.simps [simp del]

section \<open>The argument of a proof\<close>

fun argument_end :: "ucs \<Rightarrow> nat \<Rightarrow> nat \<Rightarrow> nat" where
  "argument_end [] depth e = e"
| "argument_end (c # cs) depth e =
     (if c \<in> {ch_lparen, ch_lbrack, ch_lbrace} then argument_end cs (depth + 1) (e + 1)
      else if c \<in> {ch_rparen, ch_rbrack, ch_rbrace}
      then (if depth = 0 then e else argument_end cs (depth - 1) (e + 1))
      else if c = ch_comma \<and> depth = 0 then e
      else argument_end cs depth (e + 1))"

definition read_first_prove_argument_preview :: "ucs \<Rightarrow> ucs \<Rightarrow> nat \<Rightarrow> ucs" where
  "read_first_prove_argument_preview xs masked start =
     truncate_text 400 8 (strip (slice xs start (argument_end (drop start masked) 0 start)))"

section \<open>Claims\<close>

record hol_claim =
  cl_name :: ucs
  cl_statement :: "ucs option"
  cl_quote :: "ucs option"
  cl_quote_sha256 :: "string option"
  cl_preview :: "ucs option"
  cl_extractable :: bool
  cl_statement_source :: string
  cl_constructor :: ucs
  cl_argument_preview :: "ucs option"
  cl_source_line :: nat
  cl_statement_line :: "nat option"
  cl_statement_end_line :: "nat option"
  cl_truncated :: "bool option"

text \<open>\<open>text.count("\n", 0, position) + 1\<close>\<close>

definition line_at :: "ucs \<Rightarrow> nat \<Rightarrow> nat" where
  "line_at xs p = length (filter (\<lambda>c. c = ch_lf) (take p xs)) + 1"

definition nonliteral_claim :: "ucs \<Rightarrow> ucs \<Rightarrow> theorem_match \<Rightarrow> nat \<Rightarrow> hol_claim" where
  "nonliteral_claim xs masked t qpos =
     \<lparr>cl_name = tm_name t, cl_statement = None, cl_quote = None, cl_quote_sha256 = None, cl_preview = None,
      cl_extractable = False, cl_statement_source = ''nonliteral_prove_argument'',
      cl_constructor = asc ''prove'',
      cl_argument_preview = Some (read_first_prove_argument_preview xs masked qpos),
      cl_source_line = line_at xs (tm_start t), cl_statement_line = None, cl_statement_end_line = None,
      cl_truncated = None\<rparr>"

definition literal_claim :: "scanenv \<Rightarrow> ucs \<Rightarrow> theorem_match \<Rightarrow> nat \<Rightarrow> ucs \<Rightarrow> nat \<Rightarrow> hol_claim" where
  "literal_claim E xs t qpos statement e =
     (let quote' = slice xs qpos e;
          normalized = normalize_hol_statement statement
      in \<lparr>cl_name = tm_name t, cl_statement = Some normalized, cl_quote = Some quote',
          cl_quote_sha256 = Some (py_sha256 E (utf8_encode quote')),
          cl_preview = Some (statement_preview normalized), cl_extractable = True,
          cl_statement_source =
            (if tm_rule t = None then ''literal_backquote'' else ''direct_rule_backquote''),
          cl_constructor = (case tm_rule t of None \<Rightarrow> asc ''prove'' | Some r \<Rightarrow> r),
          cl_argument_preview = None, cl_source_line = line_at xs (tm_start t),
          cl_statement_line = Some (line_at xs qpos), cl_statement_end_line = Some (line_at xs e),
          cl_truncated = Some (statement_preview normalized \<noteq> normalized)\<rparr>)"

definition claim_of_match :: "scanenv \<Rightarrow> ucs \<Rightarrow> ucs \<Rightarrow> ucs \<Rightarrow> theorem_match \<Rightarrow> hol_claim option" where
  "claim_of_match E xs masked search t =
     (let qpos = skip_while py_space search (if tm_rule t = None then tm_end t else tm_end t - 1)
      in if length search \<le> qpos \<or> search ! qpos \<noteq> ch_backquote
         then Some (nonliteral_claim xs masked t qpos)
         else map_option (\<lambda>(statement, e). literal_claim E xs t qpos statement e)
                (read_hol_backquote xs qpos))"

fun claims_loop :: "scanenv \<Rightarrow> ucs \<Rightarrow> ucs \<Rightarrow> ucs \<Rightarrow> nat list \<Rightarrow> theorem_match list \<Rightarrow> nat \<Rightarrow> nat
    \<Rightarrow> hol_claim list" where
  "claims_loop E xs masked search starts [] byte_offset character_offset = []"
| "claims_loop E xs masked search starts (t # ts) byte_offset character_offset =
     (let byte_offset = byte_offset + length (utf8_encode (slice xs character_offset (tm_start t)));
          claims = claims_loop E xs masked search starts ts byte_offset (tm_start t)
      in if byte_offset \<notin> set starts then claims
         else case claim_of_match E xs masked search t of None \<Rightarrow> claims | Some c \<Rightarrow> c # claims)"

definition theorem_matches :: "scanenv \<Rightarrow> ucs \<Rightarrow> theorem_match list" where
  "theorem_matches E search =
     sort_key tm_start (finditer (match_theorem E search) (length search) 0
                        @ finditer (match_direct E search) (length search) 0)"

datatype extract_error = Unicode_encode_error | Unicode_decode_error | Inventory_error scan_error

definition extract_hol_theorems_text :: "scanenv \<Rightarrow> ucs \<Rightarrow> extract_error + hol_claim list" where
  "extract_hol_theorems_text E xs =
     (if \<not> list_all scalar xs then Inl Unicode_encode_error
      else case scan_claim_binding_starts (pyenv.truncate E) (utf8_encode xs) of
             Inl e \<Rightarrow> Inl (Inventory_error e)
           | Inr starts \<Rightarrow>
               let masked = mask_ocaml_comments_and_strings (pyenv.truncate E) xs;
                   search = mask_hol_backquote_interiors masked
               in Inr (claims_loop E xs masked search starts (theorem_matches E search) 0 0))"

definition extract_hol_theorems_bytes :: "scanenv \<Rightarrow> bytes \<Rightarrow> extract_error + hol_claim list" where
  "extract_hol_theorems_bytes E source_bytes =
     (case utf8_decode source_bytes of
        Inl e \<Rightarrow> Inl Unicode_decode_error
      | Inr xs \<Rightarrow> extract_hol_theorems_text E xs)"

end
