(* ===== verification/Theorem_Scan_Props.thy ===== *)
theory Theorem_Scan_Props
  imports Theorem_Scan
begin

text \<open>
  What the extracted claims of \<open>hol_workbench/proofs/theorem_scan.py\<close> are tied to: a top-level
  binding of the loader scan, a position of code in the source, and the exact quotation there.
\<close>

section \<open>Matches\<close>

lemma finditer_sound: "t \<in> set (finditer m n i) \<Longrightarrow> \<exists>k. i \<le> k \<and> k < n \<and> m k = Some t"
proof (induction m n i rule: finditer.induct)
  case (1 m n i)
  show ?case
  proof (cases "i < n")
    case True
    with "1.prems" "1.IH" show ?thesis
      by (subst (asm) finditer.simps)
         (auto split: option.split_asm if_split_asm dest: Suc_leD intro: less_imp_le order.trans)
  qed (use "1.prems" in \<open>simp add: finditer.simps\<close>)
qed

definition good_match :: "nat \<Rightarrow> nat \<Rightarrow> theorem_match \<Rightarrow> bool" where
  "good_match n k t \<longleftrightarrow> tm_start t = k \<and> k + 4 < tm_end t \<and> tm_end t \<le> n"

lemma match_let_progress:
  assumes "match_let E xs i = Some (name, p)"
  shows "i + 4 < p"
proof -
  define j where "j = skip_while py_space xs (i + 3)"
  define k where "k = skip_while name_char xs (j + 1)"
  define l where "l = skip_while py_space xs k"
  define m where "m = skip_while py_space xs (l + 1)"
  from assms have "p = m \<or> m + 4 < p"
    unfolding match_let_def Let_def j_def [symmetric] k_def [symmetric] l_def [symmetric] m_def [symmetric]
    by (simp split: if_split_asm)
  moreover have "i + 3 \<le> j" "j + 1 \<le> k" "k \<le> l" "l + 1 \<le> m"
    unfolding j_def k_def l_def m_def by (rule skip_while_ge)+
  ultimately show ?thesis by linarith
qed

lemma match_theorem_good:
  assumes "match_theorem E xs i = Some t"
  shows "good_match (length xs) i t"
proof -
  from assms obtain name p where p: "match_let E xs i = Some (name, p)"
    and t: "tm_start t = i" "tm_end t = skip_while py_space xs (p + 5) + 1"
      "skip_while py_space xs (p + 5) < length xs"
    by (auto simp: match_theorem_def Let_def split: option.split_asm prod.split_asm if_split_asm)
  from match_let_progress [OF p] skip_while_ge [of "p + 5" py_space xs] t show ?thesis
    by (simp add: good_match_def)
qed

lemma match_direct_good:
  assumes "match_direct E xs i = Some t"
  shows "good_match (length xs) i t"
proof -
  from assms obtain name p r where p: "match_let E xs i = Some (name, p)"
    and r: "find (\<lambda>r. startswith_at xs r p) DIRECT_THEOREM_RULES = Some r"
    by (auto simp: match_direct_def split: option.split_asm)
  with assms have t: "tm_start t = i" "tm_end t = skip_while py_space xs (p + length r) + 1"
    "skip_while py_space xs (p + length r) < length xs"
    by (auto simp: match_direct_def Let_def split: if_split_asm)
  from match_let_progress [OF p] skip_while_ge [of "p + length r" py_space xs] t show ?thesis
    by (simp add: good_match_def)
qed

lemma theorem_matches_good:
  "t \<in> set (theorem_matches E search) \<Longrightarrow> good_match (length search) (tm_start t) t"
  by (auto simp: theorem_matches_def good_match_def dest!: finditer_sound
      dest!: match_theorem_good match_direct_good)

lemma theorem_matches_sorted: "sorted (map tm_start (theorem_matches E search))"
  by (simp add: theorem_matches_def)

section \<open>Claims\<close>

text \<open>The running byte offset is the length of the encoding of everything before the match.\<close>

lemma claims_loop_origin:
  assumes "c \<in> set (claims_loop E xs masked search starts ts b co)"
    and "b = length (utf8_encode (take co xs))" and "co \<le> length xs"
    and "sorted (co # map tm_start ts)" and "\<forall>t \<in> set ts. tm_start t \<le> length xs"
  shows "\<exists>t \<in> set ts. length (utf8_encode (take (tm_start t) xs)) \<in> set starts
    \<and> claim_of_match E xs masked search t = Some c"
  using assms
proof (induction E xs masked search starts ts b co rule: claims_loop.induct)
  case (2 E xs masked search starts t ts b co)
  let ?b = "b + length (utf8_encode (slice xs co (tm_start t)))"
  have le: "co \<le> tm_start t" "tm_start t \<le> length xs" using "2.prems"(4,5) by simp_all
  have "take (tm_start t) xs = take co xs @ slice xs co (tm_start t)"
    using le by (simp add: slice_def take_add [symmetric])
  then have b: "?b = length (utf8_encode (take (tm_start t) xs))" using "2.prems"(2) by simp
  show ?case
  proof (cases "c \<in> set (claims_loop E xs masked search starts ts ?b (tm_start t))")
    case True
    from "2.IH" [OF refl True b le(2)] "2.prems"(4,5) show ?thesis by auto
  next
    case False
    with "2.prems"(1) have "?b \<in> set starts" "claim_of_match E xs masked search t = Some c"
      by (auto simp: Let_def split: if_split_asm option.split_asm)
    with b show ?thesis by auto
  qed
qed simp

lemma line_at_mono: "p \<le> q \<Longrightarrow> line_at xs p \<le> line_at xs q"
proof -
  assume "p \<le> q"
  then have "take q xs = take p xs @ slice xs p q" by (simp add: slice_def take_add [symmetric])
  then show ?thesis by (simp add: line_at_def)
qed

lemma claim_lines_sorted:
  assumes "sorted (map tm_start ts)"
  shows "sorted (map cl_source_line (claims_loop E xs masked search starts ts b co))
    \<and> (\<forall>c \<in> set (claims_loop E xs masked search starts ts b co).
         \<exists>t \<in> set ts. cl_source_line c = line_at xs (tm_start t))"
  using assms
proof (induction E xs masked search starts ts b co rule: claims_loop.induct)
  case (2 E xs masked search starts t ts b co)
  let ?cs = "claims_loop E xs masked search starts ts
    (b + length (utf8_encode (slice xs co (tm_start t)))) (tm_start t)"
  have ih: "sorted (map cl_source_line ?cs)"
      "\<forall>c \<in> set ?cs. \<exists>t \<in> set ts. cl_source_line c = line_at xs (tm_start t)"
    using "2.IH" "2.prems" by simp_all
  have first: "cl_source_line c = line_at xs (tm_start t)" if "claim_of_match E xs masked search t = Some c" for c
    using that by (auto simp: claim_of_match_def Let_def nonliteral_claim_def literal_claim_def split: if_split_asm)
  have "line_at xs (tm_start t) \<le> cl_source_line c" if "c \<in> set ?cs" for c
    using ih(2) that "2.prems" line_at_mono by fastforce
  with ih first show ?case by (auto simp: Let_def split: option.split)
qed simp

section \<open>Properties\<close>

text \<open>C39: every extracted statement is anchored in the source.  It belongs to a match whose start, counted
  in bytes of the encoded source, is the start of a top-level binding reported by the loader scan; its
  recorded quotation is exactly the source text from one HOL quote to the next, that position is code (the
  quote is still there after comments, strings and terms are masked), the statement is the normalized
  inside of the quotation, and the recorded lines are those of the quotation.\<close>

theorem extracted_claims_are_anchored:
  assumes "extract_hol_theorems_text E xs = Inr claims" and "c \<in> set claims" and "cl_statement c = Some st"
  shows "\<exists>starts i q e. scan_claim_binding_starts (pyenv.truncate E) (utf8_encode xs) = Inr starts
    \<and> length (utf8_encode (take i xs)) \<in> set starts \<and> i < q \<and> q + 1 < e \<and> e \<le> length xs
    \<and> search_text (pyenv.truncate E) xs ! q = ch_backquote
    \<and> xs ! q = ch_backquote \<and> xs ! (e - 1) = ch_backquote
    \<and> (\<forall>k. q < k \<and> k < e - 1 \<longrightarrow> xs ! k \<noteq> ch_backquote)
    \<and> cl_quote c = Some (slice xs q e) \<and> st = normalize_hol_statement (slice xs (q + 1) (e - 1))
    \<and> cl_source_line c = line_at xs i \<and> cl_statement_line c = Some (line_at xs q)
    \<and> cl_statement_end_line c = Some (line_at xs e)"
proof -
  let ?E = "pyenv.truncate E"
  let ?search = "search_text ?E xs"
  from assms(1) obtain starts where s: "scan_claim_binding_starts ?E (utf8_encode xs) = Inr starts"
    and claims: "claims = claims_loop E xs (mask_ocaml_comments_and_strings ?E xs) ?search starts
      (theorem_matches E ?search) 0 0"
    by (auto simp: extract_hol_theorems_text_def Let_def split: if_split_asm sum.split_asm)
  have len: "length ?search = length xs" using search_kept [of xs ?E] by (simp add: kept_or_blank_def)
  have good: "good_match (length xs) (tm_start t) t" if "t \<in> set (theorem_matches E ?search)" for t
    using theorem_matches_good [OF that] len by simp
  then have "\<forall>t \<in> set (theorem_matches E ?search). tm_start t \<le> length xs" unfolding good_match_def by fastforce
  with claims_loop_origin [OF assms(2) [unfolded claims] _ _ _ this] theorem_matches_sorted [of E ?search]
  obtain t where t: "t \<in> set (theorem_matches E ?search)"
    "length (utf8_encode (take (tm_start t) xs)) \<in> set starts"
    and c: "claim_of_match E xs (mask_ocaml_comments_and_strings ?E xs) ?search t = Some c" by auto
  define q where "q = skip_while py_space ?search (if tm_rule t = None then tm_end t else tm_end t - 1)"
  from c assms(3) obtain body e where r: "read_hol_backquote xs q = Some (body, e)"
    and c': "c = literal_claim E xs t q body e" and bq: "?search ! q = ch_backquote"
    unfolding claim_of_match_def Let_def q_def [symmetric]
    by (auto simp: nonliteral_claim_def split: if_split_asm)
  have "tm_start t < q"
    using skip_while_ge [of "if tm_rule t = None then tm_end t else tm_end t - 1" py_space ?search]
      good [OF t(1)] by (auto simp: q_def good_match_def split: if_split_asm)
  with s t(2) r bq show ?thesis
    using assms(3) unfolding backquote_Some
    by (intro exI [of _ starts] exI [of _ "tm_start t"] exI [of _ q] exI [of _ e])
       (auto simp: c' literal_claim_def Let_def)
qed

text \<open>The claims come in source order.\<close>

lemma claims_in_source_order:
  assumes "extract_hol_theorems_text E xs = Inr claims"
  shows "sorted (map cl_source_line claims)"
proof -
  from assms obtain starts where "claims = claims_loop E xs
      (mask_ocaml_comments_and_strings (pyenv.truncate E) xs) (search_text (pyenv.truncate E) xs) starts
      (theorem_matches E (search_text (pyenv.truncate E) xs)) 0 0"
    by (auto simp: extract_hol_theorems_text_def Let_def split: if_split_asm sum.split_asm)
  with claim_lines_sorted [OF theorem_matches_sorted] show ?thesis by blast
qed

definition letters_env :: scanenv where
  "letters_env =
     \<lparr>py_category = (\<lambda>c. if ascii_letter c then ''Ll'' else ''Po''), py_isdigit = ascii_digit,
      py_isupper = (\<lambda>c. 65 \<le> c \<and> c \<le> 90), py_sha256 = (\<lambda>_. ''digest''), py_isalnum = ascii_alnum\<rparr>"

definition one_theorem :: ucs where
  "one_theorem = asc ''let A=TAUT`b`;;''"

definition one_claim :: hol_claim where
  "one_claim = (case extract_hol_theorems_text letters_env one_theorem of Inr [c] \<Rightarrow> c)"

lemma one_theorem_claims:
  "extract_hol_theorems_text letters_env one_theorem = Inr [one_claim]" "cl_statement one_claim = Some [98]"
proof -
  have "case extract_hol_theorems_text letters_env one_theorem of
      Inr [c] \<Rightarrow> cl_statement c = Some [98] | _ \<Rightarrow> False" by code_simp
  then show "extract_hol_theorems_text letters_env one_theorem = Inr [one_claim]" "cl_statement one_claim = Some [98]"
    by (auto simp: one_claim_def split: sum.splits list.splits)
qed

lemma extracted_claims_are_anchored_witness:
  "\<exists>q e. q + 1 < e \<and> one_theorem ! q = ch_backquote \<and> cl_quote one_claim = Some (slice one_theorem q e)"
  using extracted_claims_are_anchored [OF one_theorem_claims(1) _ one_theorem_claims(2)] by auto

end
