(* ===== verification/Statement_Normal.thy ===== *)
theory Statement_Normal
  imports Theorem_Scan
begin

text \<open>
  \<open>normalize_hol_statement\<close> of \<open>hol_workbench/proofs/theorem_scan.py\<close> computes a normal form: lines
  without surrounding blanks, no blank line at either end and never two in a row.
\<close>

section \<open>Stripping\<close>

definition stripped :: "ucs \<Rightarrow> bool" where
  "stripped xs \<longleftrightarrow> xs = [] \<or> (\<not> py_space (hd xs) \<and> \<not> py_space (last xs))"

lemma lstrip_fix: "xs = [] \<or> \<not> py_space (hd xs) \<Longrightarrow> lstrip xs = xs"
  by (cases xs) (auto simp: lstrip_def)

lemma rstrip_fix: "xs = [] \<or> \<not> py_space (last xs) \<Longrightarrow> rstrip xs = xs"
  by (cases xs rule: rev_cases) (auto simp: rstrip_def)

lemma strip_fix: "stripped xs \<Longrightarrow> strip xs = xs"
  by (auto simp: stripped_def strip_def lstrip_fix rstrip_fix)

lemma rstrip_split: "\<exists>ys. xs = rstrip xs @ ys \<and> list_all py_space ys"
proof -
  have "xs = rev (takeWhile py_space (rev xs) @ dropWhile py_space (rev xs))" by simp
  then have "xs = rstrip xs @ rev (takeWhile py_space (rev xs))" unfolding rstrip_def rev_append .
  moreover have "list_all py_space (rev (takeWhile py_space (rev xs)))"
    by (auto simp: list_all_iff dest: set_takeWhileD)
  ultimately show ?thesis by blast
qed

lemma stripped_strip: "stripped (strip xs)"
proof (cases "strip xs = []")
  case False
  obtain ys where s: "lstrip xs = strip xs @ ys" using rstrip_split [of "lstrip xs"] by (auto simp: strip_def)
  with False have "lstrip xs \<noteq> []" "hd (lstrip xs) = hd (strip xs)" by auto
  then have "\<not> py_space (hd (strip xs))" using hd_dropWhile [of py_space xs] by (simp add: lstrip_def)
  moreover have "\<not> py_space (last (strip xs))"
    using False hd_dropWhile [of py_space "rev (lstrip xs)"] by (simp add: strip_def rstrip_def last_rev)
  ultimately show ?thesis by (simp add: stripped_def)
qed (simp add: stripped_def)

lemma set_strip: "set (strip xs) \<subseteq> set xs"
proof
  fix c assume "c \<in> set (strip xs)"
  then have "c \<in> set (dropWhile py_space (rev (lstrip xs)))" by (simp add: strip_def rstrip_def)
  then have "c \<in> set (rev (lstrip xs))" by (rule set_dropWhileD)
  then have "c \<in> set (dropWhile py_space xs)" by (simp add: lstrip_def)
  then show "c \<in> set xs" by (rule set_dropWhileD)
qed

section \<open>Splitting and joining\<close>

definition one_line :: "ucs \<Rightarrow> bool" where
  "one_line xs \<longleftrightarrow> (\<forall>c \<in> set xs. \<not> line_end c)"

lemma splitlines_one_line: "l \<in> set (splitlines xs) \<Longrightarrow> one_line l"
proof (induction xs rule: splitlines.induct)
  case (1 xs)
  show ?case
  proof (cases "l = takeWhile (Not \<circ> line_end) xs")
    case True
    then show ?thesis by (auto simp: one_line_def dest: set_takeWhileD)
  next
    case False
    with "1.prems" "1.IH" show ?thesis
      by (subst (asm) splitlines.simps) (auto simp: Let_def split: if_split_asm list.split_asm)
  qed
qed

lemma splitlines_single:
  assumes "xs \<noteq> []" and "one_line xs"
  shows "splitlines xs = [xs]"
proof -
  have "takeWhile (Not \<circ> line_end) xs = xs" "dropWhile (Not \<circ> line_end) xs = []"
    using assms(2) by (simp_all add: one_line_def takeWhile_eq_all_conv dropWhile_eq_Nil_conv)
  note f = this
  show ?thesis using assms(1) by (subst splitlines.simps) (simp add: Let_def f)
qed

lemma line_end_space: "line_end c \<Longrightarrow> py_space c"
  by (auto simp: line_end_def py_space_def)

lemma splitlines_last:
  "xs \<noteq> [] \<Longrightarrow> \<not> py_space (last xs) \<Longrightarrow> splitlines xs \<noteq> [] \<and> last (splitlines xs) \<noteq> []
     \<and> last (last (splitlines xs)) = last xs"
proof (induction xs rule: splitlines.induct)
  case (1 xs)
  let ?l = "takeWhile (Not \<circ> line_end) xs" and ?r = "dropWhile (Not \<circ> line_end) xs"
  have split: "xs = ?l @ ?r" by simp
  show ?case
  proof (cases ?r)
    case Nil
    then have "one_line xs" by (simp add: one_line_def dropWhile_eq_Nil_conv)
    with "1.prems"(1) show ?thesis by (simp add: splitlines_single)
  next
    case (Cons c r)
    then have "line_end c" using hd_dropWhile [of "Not \<circ> line_end" xs] by simp
    define r' where "r' = (if c = ch_cr \<and> take 1 r = [ch_lf] then tl r else r)"
    have l: "last xs = last (c # r)" using split Cons by (metis last_appendR list.distinct(1))
    have "r \<noteq> []" using l "1.prems"(2) line_end_space [OF \<open>line_end c\<close>] by auto
    have "r' \<noteq> [] \<and> last r' = last xs"
    proof (cases "c = ch_cr \<and> take 1 r = [ch_lf]")
      case True
      then obtain s where "r = ch_lf # s" using \<open>r \<noteq> []\<close> by (cases r) auto
      moreover have "py_space ch_lf" by (simp add: py_space_def)
      ultimately show ?thesis using l "1.prems"(2) True by (auto simp: r'_def split: if_split_asm)
    qed (use l \<open>r \<noteq> []\<close> in \<open>auto simp: r'_def\<close>)
    moreover have "splitlines xs = ?l # splitlines r'"
      using "1.prems"(1) Cons by (subst splitlines.simps) (simp add: Let_def r'_def)
    ultimately show ?thesis
      using "1.IH" [OF "1.prems"(1) refl refl Cons] "1.prems"(2) by (simp add: r'_def)
  qed
qed

lemma join_Cons: "ls \<noteq> [] \<Longrightarrow> join_lines (l # ls) = l @ ch_lf # join_lines ls"
  by (cases ls) (simp_all add: join_lines_def)

lemma join_one: "join_lines [l] = l"
  by (simp add: join_lines_def)

lemma splitlines_join:
  "list_all one_line ls \<Longrightarrow> ls = [] \<or> last ls \<noteq> [] \<Longrightarrow> splitlines (join_lines ls) = ls"
proof (induction ls)
  case Nil
  then show ?case by (simp add: join_lines_def splitlines.simps)
next
  case (Cons l ls)
  have l: "\<forall>c \<in> set l. (Not \<circ> line_end) c" using Cons.prems(1) by (simp add: one_line_def)
  show ?case
  proof (cases "ls = []")
    case True
    with Cons.prems show ?thesis by (simp add: join_one splitlines_single)
  next
    case False
    have e: "line_end ch_lf" by (simp add: line_end_def)
    have "takeWhile (Not \<circ> line_end) (l @ ch_lf # join_lines ls) = l"
      "dropWhile (Not \<circ> line_end) (l @ ch_lf # join_lines ls) = ch_lf # join_lines ls"
      using l e by (simp_all add: takeWhile_append2 dropWhile_append2)
    then have "splitlines (l @ ch_lf # join_lines ls) = l # splitlines (join_lines ls)"
      by (subst splitlines.simps) (simp add: Let_def)
    with Cons False show ?thesis by (simp add: join_Cons)
  qed
qed

section \<open>The normal form\<close>

fun no_double_blank :: "ucs list \<Rightarrow> bool" where
  "no_double_blank (x # y # ls) \<longleftrightarrow> \<not> (x = [] \<and> y = []) \<and> no_double_blank (y # ls)"
| "no_double_blank _ \<longleftrightarrow> True"

definition normal_lines :: "ucs list \<Rightarrow> bool" where
  "normal_lines ls \<longleftrightarrow> list_all (\<lambda>l. one_line l \<and> stripped l) ls \<and> no_double_blank ls
     \<and> (ls \<noteq> [] \<longrightarrow> hd ls \<noteq> [] \<and> last ls \<noteq> [])"

lemma no_double_blank_snoc:
  "no_double_blank (ls @ [x]) \<longleftrightarrow> no_double_blank ls \<and> (ls = [] \<or> \<not> (last ls = [] \<and> x = []))"
  by (induction ls rule: no_double_blank.induct) auto

definition collapse_inv :: "ucs list \<Rightarrow> bool \<Rightarrow> bool" where
  "collapse_inv collapsed blank \<longleftrightarrow> list_all (\<lambda>l. one_line l \<and> stripped l) collapsed
     \<and> no_double_blank collapsed \<and> (collapsed \<noteq> [] \<longrightarrow> hd collapsed \<noteq> [] \<and> blank = (last collapsed = []))"

lemma collapse_lines_inv:
  "collapse_inv collapsed blank \<Longrightarrow> list_all (\<lambda>l. one_line l \<and> stripped l) lines
     \<Longrightarrow> \<exists>b. collapse_inv (collapse_lines lines collapsed blank) b
        \<and> (lines \<noteq> [] \<and> last lines \<noteq> [] \<longrightarrow> collapse_lines lines collapsed blank \<noteq> []
             \<and> last (collapse_lines lines collapsed blank) = last lines)"
proof (induction lines collapsed blank rule: collapse_lines.induct)
  case (2 line lines collapsed blank)
  let ?c = "if line = [] then if \<not> blank \<and> collapsed \<noteq> [] then collapsed @ [[]] else collapsed
            else collapsed @ [line]"
  have "collapse_inv ?c (line = [])"
    using "2.prems" by (cases "collapsed = []") (auto simp: collapse_inv_def no_double_blank_snoc one_line_def stripped_def)
  with "2.IH" "2.prems"(2) show ?case
    by (cases "line = []"; cases "lines = []") (auto simp: list_all_iff)
qed auto

lemma no_double_blank_prefix: "no_double_blank (xs @ ys) \<Longrightarrow> no_double_blank xs"
  by (induction xs rule: no_double_blank.induct) auto

lemma collapse_lines_id:
  "no_double_blank (collapsed @ lines) \<Longrightarrow> collapsed @ lines = [] \<or> hd (collapsed @ lines) \<noteq> []
     \<Longrightarrow> collapsed = [] \<or> blank = (last collapsed = [])
     \<Longrightarrow> collapsed = [] \<longrightarrow> \<not> blank \<Longrightarrow> collapse_lines lines collapsed blank = collapsed @ lines"
proof (induction lines collapsed blank rule: collapse_lines.induct)
  case (2 line lines collapsed blank)
  have nd: "no_double_blank (collapsed @ [line])"
    by (rule no_double_blank_prefix [of _ lines]) (use "2.prems"(1) in simp)
  show ?case
  proof (cases "line = []")
    case True
    with "2.prems"(2) have c: "collapsed \<noteq> []" by auto
    with nd True "2.prems"(3) have b: "\<not> blank" by (simp add: no_double_blank_snoc)
    from b c have e: "(if \<not> blank \<and> collapsed \<noteq> [] then collapsed @ [[]] else collapsed) = collapsed @ [[]]"
      by simp
    have h: "hd collapsed \<noteq> []" using "2.prems"(2) c by simp
    have "collapse_lines lines (collapsed @ [[]]) True = (collapsed @ [[]]) @ lines"
      by (rule "2.IH"(1) [OF True, unfolded e]) (use "2.prems"(1) True c h in simp_all)
    then show ?thesis using b c True by simp
  next
    case False
    have "collapse_lines lines (collapsed @ [line]) False = (collapsed @ [line]) @ lines"
      by (rule "2.IH"(2) [OF False]) (use "2.prems"(1,2) False in \<open>simp_all\<close>)
    then show ?thesis using False by simp
  qed
qed simp

lemma join_last:
  "ls \<noteq> [] \<Longrightarrow> last ls \<noteq> [] \<Longrightarrow> join_lines ls \<noteq> [] \<and> last (join_lines ls) = last (last ls)"
  by (induction ls rule: induct_list012) (simp_all add: join_one join_Cons)

lemma join_ends:
  "normal_lines ls \<Longrightarrow> stripped (join_lines ls)"
proof (cases "ls = []")
  case False
  assume n: "normal_lines ls"
  with False have h: "hd ls \<noteq> []" "last ls \<noteq> []" "stripped (hd ls)" "stripped (last ls)"
    by (auto simp: normal_lines_def list_all_iff)
  have "join_lines ls \<noteq> [] \<and> hd (join_lines ls) = hd (hd ls)"
    using False h(1) by (cases ls) (auto simp: join_lines_def)
  moreover have "last (join_lines ls) = last (last ls)" using join_last False h(2) by blast
  ultimately show ?thesis using False h by (simp add: stripped_def)
qed (simp add: join_lines_def stripped_def)

lemma normalize_of_normal:
  assumes "normal_lines ls"
  shows "normalize_hol_statement (join_lines ls) = join_lines ls"
proof -
  have s: "strip (join_lines ls) = join_lines ls" by (rule strip_fix [OF join_ends [OF assms]])
  have "splitlines (join_lines ls) = ls"
    by (rule splitlines_join) (use assms in \<open>auto simp: normal_lines_def list_all_iff\<close>)
  moreover have "map strip ls = ls"
    using assms by (intro map_idI strip_fix) (simp add: normal_lines_def list_all_iff)
  moreover have "collapse_lines ls [] False = ls"
    using collapse_lines_id [of "[]" ls False] assms by (cases "ls = []") (simp_all add: normal_lines_def)
  ultimately show ?thesis by (simp add: normalize_hol_statement_def Let_def s)
qed

lemma normalize_normal: "\<exists>ls. normal_lines ls \<and> normalize_hol_statement xs = join_lines ls"
proof -
  define lines where "lines = map strip (splitlines (strip xs))"
  have all: "list_all (\<lambda>l. one_line l \<and> stripped l) lines"
    using splitlines_one_line set_strip by (fastforce simp: lines_def list_all_iff one_line_def stripped_strip)
  have last: "last lines \<noteq> []" if "lines \<noteq> []"
  proof -
    from that have "splitlines (strip xs) \<noteq> []" by (simp add: lines_def)
    then have ne: "strip xs \<noteq> []" by (auto simp: splitlines.simps)
    with stripped_strip [of xs] have sp: "\<not> py_space (last (strip xs))" by (simp add: stripped_def)
    from splitlines_last [OF ne sp] sp have l: "last (splitlines (strip xs)) \<noteq> []"
      "\<not> py_space (last (last (splitlines (strip xs))))" by simp_all
    then have "\<not> list_all py_space (last (splitlines (strip xs)))" by (auto simp: list_all_iff)
    moreover have "strip ys = [] \<Longrightarrow> list_all py_space ys" for ys
      by (auto simp: strip_def rstrip_def lstrip_def dropWhile_eq_Nil_conv list_all_iff dest: set_dropWhileD)
         (metis dropWhile_eq_Nil_conv hd_dropWhile hd_in_set)
    ultimately show ?thesis using that by (auto simp: lines_def last_map)
  qed
  let ?ls = "collapse_lines lines [] False"
  obtain b where "collapse_inv ?ls b" "lines \<noteq> [] \<Longrightarrow> ?ls \<noteq> [] \<and> last ?ls = last lines"
    using collapse_lines_inv [of "[]" False lines] all last by (auto simp: collapse_inv_def)
  then have n: "normal_lines ?ls"
    using last by (cases "lines = []") (auto simp: normal_lines_def collapse_inv_def)
  have "normalize_hol_statement xs = join_lines ?ls"
    using strip_fix [OF join_ends [OF n]] by (simp add: normalize_hol_statement_def Let_def lines_def)
  with n show ?thesis by blast
qed

text \<open>Normalization is idempotent and yields a normal form: a normalized statement consists of
  lines without surrounding blanks, neither starts nor ends with a blank line, never has two blank lines in
  a row, and normalizing it again changes nothing.\<close>

theorem normalize_is_idempotent:
  "normalize_hol_statement (normalize_hol_statement xs) = normalize_hol_statement xs
    \<and> normal_lines (splitlines (normalize_hol_statement xs))"
proof -
  obtain ls where ls: "normal_lines ls" "normalize_hol_statement xs = join_lines ls"
    using normalize_normal by blast
  have "splitlines (join_lines ls) = ls"
    by (rule splitlines_join) (use ls(1) in \<open>auto simp: normal_lines_def list_all_iff\<close>)
  with ls show ?thesis by (simp add: normalize_of_normal)
qed

end
