(* ===== verification/Source_Needs.thy ===== *)
theory Source_Needs
  imports Source_Mask Loader_Scan "HOL-Library.AList"
begin

text \<open>
  Source dependencies, \<open>hol_workbench/proofs/source.py\<close>: the literal \<open>needs\<close> of a file, their load
  profiles, the bounded traversal of local dependencies, and the line ranges of claims.  The file system
  and \<open>pathlib\<close> are the record \<open>pathenv\<close>.
\<close>

section \<open>Profiles\<close>

record need_profile =
  np_profile :: string
  np_severity :: string
  np_expected_load :: string
  np_message :: string
  np_suggested_output_profile :: "string option"

text \<open>
  The shapes of the rules: \<open>(?:^|/)name$\<close> for one of several names, and the one rule that also accepts
  a directory anywhere.
\<close>

datatype need_pattern = P_file "string list" | P_dir string "string list"

definition at_component :: "ucs \<Rightarrow> ucs \<Rightarrow> nat \<Rightarrow> bool" where
  "at_component path s i \<longleftrightarrow> startswith_at path s i \<and> (i = 0 \<or> path ! (i - 1) = 47)"

definition ends_with_component :: "ucs \<Rightarrow> ucs \<Rightarrow> bool" where
  "ends_with_component path s \<longleftrightarrow> length s \<le> length path \<and> at_component path s (length path - length s)"

definition pattern_search :: "need_pattern \<Rightarrow> ucs \<Rightarrow> bool" where
  "pattern_search p path =
     (case p of
        P_file names \<Rightarrow> list_ex (\<lambda>s. ends_with_component path (asc s)) names
      | P_dir dir names \<Rightarrow>
          list_ex (at_component path (asc dir)) [0..<length path]
            \<or> list_ex (\<lambda>s. ends_with_component path (asc s)) names)"

definition NEED_PROFILE_RULES :: "(need_pattern \<times> need_profile) list" where
  "NEED_PROFILE_RULES =
     [(P_file [''Multivariate/flyspeck.ml''],
         \<lparr>np_profile = ''flyspeck-geom'', np_severity = ''warning'', np_expected_load = ''huge'',
          np_message =
            ''full Flyspeck geometry is a separate huge load; warm flyspeck-geom '' @
            ''deliberately, usually with --pool-size 1, and do not use it for '' @
            ''ordinary realanalysis/tether calculus'',
          np_suggested_output_profile = None\<rparr>),
      (P_file [''Multivariate/realanalysis.ml''],
         \<lparr>np_profile = ''heavy'', np_severity = ''warning'', np_expected_load = ''very_heavy'',
          np_message =
            ''full Multivariate realanalysis is a heavy calculus load; warm the '' @
            ''shared heavy profile or an exact source base before repeated '' @
            ''theorem/tactic edits'',
          np_suggested_output_profile = None\<rparr>),
      (P_dir ''Multivariate/'' [''Tutorial/Vectors.ml''],
         \<lparr>np_profile = ''heavy'', np_severity = ''warning'', np_expected_load = ''heavy'',
          np_message =
            ''multivariate library load can be expensive; reuse the shared heavy '' @
            ''profile instead of opening another narrow heavy pool'',
          np_suggested_output_profile = None\<rparr>),
      (P_file [''Examples/solovay.ml''],
         \<lparr>np_profile = ''diagnostic-noisy'', np_severity = ''warning'', np_expected_load = ''noisy'',
          np_message =
            ''this support file is known to print failure-looking diagnostics; treat '' @
            ''them as setup diagnostics unless target probes are missing'',
          np_suggested_output_profile = None\<rparr>),
      (P_file [''Library/ringtheory.ml''],
         \<lparr>np_profile = ''light'', np_severity = ''warning'', np_expected_load = ''heavy'',
          np_message =
            ''ringtheory is useful automation setup; reuse the shared light profile '' @
            ''instead of cold-loading it repeatedly'',
          np_suggested_output_profile = Some ''ringtheory''\<rparr>),
      (P_file [''Library/analysis.ml'', ''Library/transc.ml'', ''Library/realanalysis.ml'',
        ''Library/card.ml'', ''Library/wo.ml'', ''Library/sets.ml'', ''Library/topology.ml''],
         \<lparr>np_profile = ''heavy'', np_severity = ''notice'', np_expected_load = ''medium'',
          np_message =
            ''this library can be a meaningful part of startup time; warm dev is '' @
            ''usually friendlier than repeated cold replay'',
          np_suggested_output_profile = None\<rparr>)]"

definition ordinary_profile :: need_profile where
  "ordinary_profile =
     \<lparr>np_profile = ''ordinary'', np_severity = ''info'', np_expected_load = ''unknown'',
      np_message = ''ordinary source dependency; not profiled by this static readiness check'',
      np_suggested_output_profile = None\<rparr>"

definition classify_need_path :: "ucs \<Rightarrow> need_profile" where
  "classify_need_path path =
     (case find (\<lambda>(p, _). pattern_search p (strip path)) NEED_PROFILE_RULES of
        Some (_, profile) \<Rightarrow> profile
      | None \<Rightarrow> ordinary_profile)"

section \<open>Needs of one file\<close>

record hol_need =
  nd_path :: ucs
  nd_source_line :: nat
  nd_profile :: need_profile

definition extract_hol_needs :: "loader_scan_result \<Rightarrow> hol_need list" where
  "extract_hol_needs scan =
     List.map_filter (\<lambda>item.
         if occ_loader item \<noteq> asc ''needs'' then None
         else map_option (\<lambda>path. \<lparr>nd_path = path, nd_source_line = occ_source_line item,
                                  nd_profile = classify_need_path path\<rparr>) (occ_path item))
       (literal_occurrences scan)"

section \<open>Paths\<close>

text \<open>
  \<open>pe_expanduser\<close>, \<open>pe_parent\<close>, \<open>pe_join\<close> and \<open>pe_relative\<close> are \<open>Path.expanduser\<close>, \<open>Path.parent\<close>, the
  operator \<open>/\<close> and success of \<open>Path.relative_to\<close>; \<open>pe_resolve\<close> is \<open>Path.resolve\<close>, \<open>None\<close> for an
  \<open>OSError\<close>; \<open>pe_is_file\<close> is \<open>Path.is_file\<close>, and \<open>pe_read\<close> is \<open>Path.read_bytes\<close>.
\<close>

record pathenv =
  pe_expanduser :: "ucs \<Rightarrow> ucs"
  pe_parent :: "ucs \<Rightarrow> ucs"
  pe_join :: "ucs \<Rightarrow> ucs \<Rightarrow> ucs"
  pe_relative :: "ucs \<Rightarrow> ucs \<Rightarrow> bool"
  pe_resolve :: "ucs \<Rightarrow> ucs option"
  pe_is_file :: "ucs \<Rightarrow> bool"
  pe_read :: "ucs \<Rightarrow> bytes option"

definition absolute_path :: "ucs \<Rightarrow> bool" where
  "absolute_path p \<longleftrightarrow> take 1 p = [47]"

definition resolve_local_need_path :: "pathenv \<Rightarrow> ucs \<Rightarrow> ucs \<Rightarrow> ucs option" where
  "resolve_local_need_path P source need_path =
     (let raw = pe_expanduser P need_path;
          candidate = (if absolute_path raw then raw else pe_join P (pe_parent P source) raw)
      in case pe_resolve P candidate of
           None \<Rightarrow> None
         | Some resolved \<Rightarrow> if pe_is_file P resolved then Some resolved else None)"

definition path_is_within :: "pathenv \<Rightarrow> ucs \<Rightarrow> ucs \<Rightarrow> bool" where
  "path_is_within P path root =
     (case (pe_resolve P path, pe_resolve P root) of
        (Some p, Some r) \<Rightarrow> pe_relative P p r
      | _ \<Rightarrow> False)"

section \<open>The traversal\<close>

definition TRANSITIVE_NEEDS_MAX_DEPTH :: nat where "TRANSITIVE_NEEDS_MAX_DEPTH = 5"
definition TRANSITIVE_NEEDS_MAX_FILES :: nat where "TRANSITIVE_NEEDS_MAX_FILES = 40"

record transitive_need =
  tn_need :: hol_need
  tn_source :: ucs
  tn_via :: "ucs list"
  tn_depth :: nat

text \<open>\<open>ws_scanned\<close> lists the files read; the code keeps their number only.\<close>

record walk_state =
  ws_transitive :: "transitive_need list"
  ws_visited :: "ucs list"
  ws_seen :: "(ucs \<times> ucs \<times> nat) list"
  ws_stack :: "(ucs \<times> ucs list \<times> nat) list"
  ws_scanned :: "ucs list"

text \<open>The stack's top is the head of the list.\<close>

definition start_needs :: "pathenv \<Rightarrow> ucs \<Rightarrow> hol_need list \<Rightarrow> (ucs \<times> ucs list \<times> nat) list" where
  "start_needs P source direct =
     rev (List.map_filter (\<lambda>need.
         case resolve_local_need_path P source (nd_path need) of
           None \<Rightarrow> None
         | Some resolved \<Rightarrow>
             if resolved = source then None
             else Some (resolved, [if nd_path need = [] then resolved else nd_path need], 1))
       direct)"

definition allowed_roots :: "pathenv \<Rightarrow> ucs \<Rightarrow> hol_need list \<Rightarrow> ucs list" where
  "allowed_roots P source direct =
     pe_parent P source # map (\<lambda>(resolved, _, _). pe_parent P resolved) (start_needs P source direct)"

definition walk_child :: "pathenv \<Rightarrow> ucs list \<Rightarrow> nat \<Rightarrow> ucs \<Rightarrow> ucs list \<Rightarrow> nat \<Rightarrow> hol_need \<Rightarrow> walk_state
    \<Rightarrow> walk_state" where
  "walk_child P roots max_depth current via depth child st =
     (let key = (nd_path child, current, nd_source_line child)
      in if key \<in> set (ws_seen st) then st
         else let st = st\<lparr>ws_seen := key # ws_seen st,
                          ws_transitive := ws_transitive st
                            @ [\<lparr>tn_need = child, tn_source = current, tn_via = via, tn_depth = depth\<rparr>]\<rparr>
              in case resolve_local_need_path P current (nd_path child) of
                   None \<Rightarrow> st
                 | Some resolved \<Rightarrow>
                     if list_ex (path_is_within P resolved) roots
                          \<and> resolved \<notin> set (ws_visited st) \<and> depth < max_depth
                     then st\<lparr>ws_stack := (resolved, via @ [nd_path child], depth + 1) # ws_stack st\<rparr>
                     else st)"

text \<open>The needs of a file that is read; \<open>None\<close> when reading it fails with an \<open>OSError\<close>. (The scan itself
  always returns, \<open>scan_ocaml_loaders_cases\<close>; of a refused source it lists no occurrence.)\<close>

definition file_needs :: "pyenv \<Rightarrow> pathenv \<Rightarrow> ucs \<Rightarrow> hol_need list option" where
  "file_needs E P path =
     (case pe_read P path of
        None \<Rightarrow> None
      | Some source \<Rightarrow> map_option extract_hol_needs (scan_ocaml_loaders E source))"

definition walk_file :: "pyenv \<Rightarrow> pathenv \<Rightarrow> ucs list \<Rightarrow> nat \<Rightarrow> ucs \<Rightarrow> ucs list \<Rightarrow> nat \<Rightarrow> walk_state
    \<Rightarrow> walk_state" where
  "walk_file E P roots max_depth current via depth st =
     (let st = st\<lparr>ws_visited := current # ws_visited st, ws_scanned := ws_scanned st @ [current]\<rparr>
      in case file_needs E P current of
           None \<Rightarrow> st
         | Some children \<Rightarrow> foldl (\<lambda>st child. walk_child P roots max_depth current via depth child st) st children)"

lemma walk_child_scanned [simp]:
  "ws_scanned (walk_child P roots max_depth current via depth child st) = ws_scanned st"
  by (simp add: walk_child_def Let_def split: option.split)

lemma walk_children_scanned [simp]:
  "ws_scanned (foldl (\<lambda>st child. walk_child P roots max_depth current via depth child st) st children)
     = ws_scanned st"
  by (induction children arbitrary: st) simp_all

lemma walk_file_scanned [simp]:
  "ws_scanned (walk_file E P roots max_depth current via depth st) = ws_scanned st @ [current]"
  by (simp add: walk_file_def Let_def split: option.split)

function walk :: "pyenv \<Rightarrow> pathenv \<Rightarrow> ucs list \<Rightarrow> nat \<Rightarrow> nat \<Rightarrow> walk_state \<Rightarrow> walk_state" where
  "walk E P roots max_depth max_files st =
     (case ws_stack st of
        [] \<Rightarrow> st
      | (current, via, depth) # stack \<Rightarrow>
          if max_files \<le> length (ws_scanned st) then st
          else let st = st\<lparr>ws_stack := stack\<rparr>
          in if current \<in> set (ws_visited st) \<or> max_depth < depth
             then walk E P roots max_depth max_files st
             else walk E P roots max_depth max_files (walk_file E P roots max_depth current via depth st))"
  by pat_completeness auto
termination
  by (relation "measures [\<lambda>(E, P, roots, max_depth, max_files, st). max_files - length (ws_scanned st),
                          \<lambda>(E, P, roots, max_depth, max_files, st). length (ws_stack st)]") auto

declare walk.simps [simp del]

definition walk_start :: "pathenv \<Rightarrow> ucs \<Rightarrow> hol_need list \<Rightarrow> walk_state" where
  "walk_start P source direct =
     \<lparr>ws_transitive = [], ws_visited = [source], ws_seen = [], ws_stack = start_needs P source direct,
      ws_scanned = []\<rparr>"

definition transitive_walk :: "pyenv \<Rightarrow> pathenv \<Rightarrow> ucs \<Rightarrow> hol_need list \<Rightarrow> nat \<Rightarrow> nat \<Rightarrow> walk_state" where
  "transitive_walk E P source direct max_depth max_files =
     walk E P (allowed_roots P source direct) max_depth max_files (walk_start P source direct)"

definition extract_transitive_hol_needs :: "pyenv \<Rightarrow> pathenv \<Rightarrow> ucs \<Rightarrow> hol_need list
    \<Rightarrow> transitive_need list" where
  "extract_transitive_hol_needs E P source direct =
     ws_transitive (transitive_walk E P source direct TRANSITIVE_NEEDS_MAX_DEPTH TRANSITIVE_NEEDS_MAX_FILES)"

section \<open>Line ranges of claims\<close>

record target_claim =
  tc_name :: ucs
  tc_source_line :: int

definition target_ranges :: "target_claim list \<Rightarrow> int \<Rightarrow> (ucs \<times> int) list" where
  "target_ranges ordered total_lines =
     map (\<lambda>i. let start = tc_source_line (ordered ! i);
                  next_start = (if i + 1 < length ordered then tc_source_line (ordered ! (i + 1)) else 0);
                  e = (if start < next_start then next_start - 1 else total_lines)
              in (tc_name (ordered ! i), max start e))
       [0..<length ordered]"

definition claim_target_end_lines :: "target_claim list \<Rightarrow> int \<Rightarrow> (ucs \<times> int) list" where
  "claim_target_end_lines claims total_lines =
     (let ordered = sort_key tc_source_line (filter (\<lambda>c. tc_name c \<noteq> [] \<and> tc_source_line c \<noteq> 0) claims)
      in foldl (\<lambda>ends (name, e). AList.update name e ends) [] (target_ranges ordered total_lines))"

end
