(* ===== verification/Source_Needs_Props.thy ===== *)
theory Source_Needs_Props
  imports Source_Needs
begin

text \<open>
  The traversal of \<open>extract_transitive_hol_needs\<close> (\<open>hol_workbench/proofs/source.py\<close>) stays within its
  bounds and its roots, and claim ranges do not overlap.
\<close>

section \<open>The walk\<close>

definition need_key :: "transitive_need \<Rightarrow> ucs \<times> ucs \<times> nat" where
  "need_key t = (nd_path (tn_need t), tn_source t, nd_source_line (tn_need t))"

text \<open>A file the walk may read: an explicit first-hop dependency, or one inside an allowed root.\<close>

definition authorized :: "pathenv \<Rightarrow> ucs \<Rightarrow> hol_need list \<Rightarrow> ucs \<Rightarrow> bool" where
  "authorized P source direct f \<longleftrightarrow>
     f \<in> fst ` set (start_needs P source direct)
       \<or> list_ex (path_is_within P f) (allowed_roots P source direct)"

definition walk_inv :: "pathenv \<Rightarrow> ucs \<Rightarrow> hol_need list \<Rightarrow> nat \<Rightarrow> walk_state \<Rightarrow> bool" where
  "walk_inv P source direct max_depth st \<longleftrightarrow>
     distinct (ws_scanned st) \<and> set (ws_visited st) = insert source (set (ws_scanned st))
       \<and> source \<notin> set (ws_scanned st)
       \<and> (\<forall>f \<in> set (ws_scanned st). authorized P source direct f)
       \<and> (\<forall>(f, via, d) \<in> set (ws_stack st). authorized P source direct f \<and> d = length via \<and> 0 < d)
       \<and> distinct (map need_key (ws_transitive st)) \<and> set (ws_seen st) = need_key ` set (ws_transitive st)
       \<and> (\<forall>t \<in> set (ws_transitive st). tn_source t \<in> set (ws_scanned st)
            \<and> tn_depth t = length (tn_via t) \<and> 0 < tn_depth t \<and> tn_depth t \<le> max_depth)"

lemma walk_child_inv:
  assumes "walk_inv P source direct max_depth st" and "current \<in> set (ws_scanned st)"
    and "depth = length via" and "0 < depth" and "depth \<le> max_depth"
  shows "walk_inv P source direct max_depth
    (walk_child P (allowed_roots P source direct) max_depth current via depth child st)"
proof (cases "(nd_path child, current, nd_source_line child) \<in> set (ws_seen st)")
  case True
  with assms(1) show ?thesis by (simp add: walk_child_def)
next
  case False
  let ?t = "\<lparr>tn_need = child, tn_source = current, tn_via = via, tn_depth = depth\<rparr>"
  let ?st = "st\<lparr>ws_seen := (nd_path child, current, nd_source_line child) # ws_seen st,
    ws_transitive := ws_transitive st @ [?t]\<rparr>"
  have k: "need_key ?t = (nd_path child, current, nd_source_line child)" by (simp add: need_key_def)
  have i: "walk_inv P source direct max_depth ?st"
    using assms False k unfolding walk_inv_def by auto
  show ?thesis
  proof (cases "resolve_local_need_path P current (nd_path child)")
    case None
    with False i show ?thesis by (simp add: walk_child_def Let_def)
  next
    case (Some resolved)
    have "walk_inv P source direct max_depth
        (?st\<lparr>ws_stack := (resolved, via @ [nd_path child], depth + 1) # ws_stack ?st\<rparr>)"
      if "list_ex (path_is_within P resolved) (allowed_roots P source direct)"
      using i that assms(3) unfolding walk_inv_def authorized_def by auto
    with False Some i show ?thesis by (simp add: walk_child_def Let_def)
  qed
qed

lemma walk_children_inv:
  assumes "walk_inv P source direct max_depth st" and "current \<in> set (ws_scanned st)"
    and "depth = length via" and "0 < depth" and "depth \<le> max_depth"
  shows "walk_inv P source direct max_depth (foldl (\<lambda>st child.
    walk_child P (allowed_roots P source direct) max_depth current via depth child st) st children)"
proof -
  have step: "walk_inv P source direct max_depth
      (walk_child P (allowed_roots P source direct) max_depth current via depth child st)"
    if "walk_inv P source direct max_depth st" "current \<in> set (ws_scanned st)" for child st
    by (rule walk_child_inv [OF that assms(3-5)])
  show ?thesis using assms(1,2) by (induction children arbitrary: st) (simp_all add: step)
qed

lemma walk_file_inv:
  assumes "walk_inv P source direct max_depth st" and "current \<notin> set (ws_visited st)"
    and "authorized P source direct current" and "depth = length via" and "0 < depth" and "depth \<le> max_depth"
  shows "walk_inv P source direct max_depth
    (walk_file E P (allowed_roots P source direct) max_depth current via depth st)"
proof -
  let ?st = "st\<lparr>ws_visited := current # ws_visited st, ws_scanned := ws_scanned st @ [current]\<rparr>"
  have "walk_inv P source direct max_depth ?st"
    using assms(1-3) unfolding walk_inv_def by auto
  from walk_children_inv [OF this _ assms(4-6)] this show ?thesis
    by (simp add: walk_file_def Let_def split: option.split)
qed

lemma walk_invariant:
  assumes "walk_inv P source direct max_depth st" and "length (ws_scanned st) \<le> max_files"
  shows "walk_inv P source direct max_depth (walk E P (allowed_roots P source direct) max_depth max_files st)
    \<and> length (ws_scanned (walk E P (allowed_roots P source direct) max_depth max_files st)) \<le> max_files"
  using assms
proof (induction E P "allowed_roots P source direct" max_depth max_files st rule: walk.induct)
  case (1 E P max_depth max_files st)
  show ?case
  proof (cases "ws_stack st = [] \<or> max_files \<le> length (ws_scanned st)")
    case True
    then have "walk E P (allowed_roots P source direct) max_depth max_files st = st"
      by (subst walk.simps) (auto split: list.split)
    then show ?thesis using "1.prems" by simp
  next
    case False
    then obtain current via depth stack where s: "ws_stack st = (current, via, depth) # stack"
      by (metis list.exhaust prod_cases3)
    let ?st = "st\<lparr>ws_stack := stack\<rparr>"
    have i: "walk_inv P source direct max_depth ?st" and a: "authorized P source direct current"
      and d: "depth = length via" "0 < depth"
      using "1.prems"(1) s unfolding walk_inv_def by auto
    note ih = "1.hyps" [OF s refl refl _ refl]
    show ?thesis
    proof (cases "current \<in> set (ws_visited ?st) \<or> max_depth < depth")
      case True
      with False s have "walk E P (allowed_roots P source direct) max_depth max_files st
          = walk E P (allowed_roots P source direct) max_depth max_files ?st"
        by (subst walk.simps) simp
      moreover have "length (ws_scanned ?st) \<le> max_files" using "1.prems"(2) by simp
      ultimately show ?thesis using ih(1) False True i by simp
    next
      case skip: False
      let ?st' = "walk_file E P (allowed_roots P source direct) max_depth current via depth ?st"
      have e: "walk E P (allowed_roots P source direct) max_depth max_files st
          = walk E P (allowed_roots P source direct) max_depth max_files ?st'"
        using False s skip by (subst walk.simps) simp
      have "walk_inv P source direct max_depth ?st'"
        by (rule walk_file_inv [OF i _ a d]) (use skip in auto)
      moreover have "length (ws_scanned ?st') \<le> max_files" using False by simp
      ultimately show ?thesis using ih(2) False skip unfolding e by simp
    qed
  qed
qed

lemma start_needs_inv: "walk_inv P source direct max_depth (walk_start P source direct)"
  by (auto simp: walk_inv_def walk_start_def authorized_def image_iff start_needs_def List.map_filter_def
      split: option.splits if_split_asm)

text \<open>C40: the traversal of dependencies is bounded and confined.  It reads at most \<open>max_files\<close>
  different files, never the entry point again; each is a dependency the entry point names itself or lies
  in the directory of the entry point or of such a dependency; every reported need was found in a file
  that was read, at a depth between one and \<open>max_depth\<close> that is the length of its path, and no need of a
  line is reported twice.\<close>

theorem needs_walk_is_bounded:
  "let st = transitive_walk E P source direct max_depth max_files
   in length (ws_scanned st) \<le> max_files \<and> distinct (ws_scanned st) \<and> source \<notin> set (ws_scanned st)
    \<and> list_all (authorized P source direct) (ws_scanned st)
    \<and> list_all (\<lambda>t. tn_source t \<in> set (ws_scanned st) \<and> tn_depth t = length (tn_via t)
         \<and> 0 < tn_depth t \<and> tn_depth t \<le> max_depth) (ws_transitive st)
    \<and> distinct (map need_key (ws_transitive st))"
  using walk_invariant [OF start_needs_inv [of P source direct max_depth], of max_files E]
  by (auto simp: Let_def transitive_walk_def walk_inv_def walk_start_def list_all_iff)

section \<open>Line ranges\<close>

lemma map_of_updates:
  "map_of (foldl (\<lambda>ends (name, e). AList.update name e ends) al xs) = map_of al ++ map_of (rev xs)"
  by (induction xs arbitrary: al) (auto simp: update_conv' fun_eq_iff map_add_def split: option.split)

lemma updates_Some:
  assumes "distinct (map fst xs)" and "(n, e) \<in> set xs"
  shows "map_of (foldl (\<lambda>ends (name, e). AList.update name e ends) [] xs) n = Some e"
  unfolding map_of_updates using assms by (simp add: rev_map [symmetric])

text \<open>The line ranges of claims do not overlap: for claims with different names on different lines
  of a file, the range of each claim starts at its line, ends within the file, and ends before the line of
  every later claim.\<close>

theorem claim_ranges_do_not_overlap:
  assumes "distinct (map tc_name claims)" and "distinct (map tc_source_line claims)"
    and "\<forall>c \<in> set claims. tc_name c \<noteq> [] \<and> 0 < tc_source_line c \<and> tc_source_line c \<le> last_line"
    and "c \<in> set claims"
  shows "\<exists>e. map_of (claim_target_end_lines claims last_line) (tc_name c) = Some e
    \<and> tc_source_line c \<le> e \<and> e \<le> last_line
    \<and> (\<forall>c' \<in> set claims. tc_source_line c < tc_source_line c' \<longrightarrow> e < tc_source_line c')"
proof -
  define cs where "cs = sort_key tc_source_line claims"
  have "filter (\<lambda>c. tc_name c \<noteq> [] \<and> tc_source_line c \<noteq> 0) claims = claims"
    using assms(3) by (intro filter_True) auto
  then have ends: "claim_target_end_lines claims last_line
      = foldl (\<lambda>ends (name, e). AList.update name e ends) [] (target_ranges cs last_line)"
    by (simp add: claim_target_end_lines_def cs_def)
  have set: "set cs = set claims" by (simp add: cs_def)
  have "distinct (map tc_source_line cs)" "sorted (map tc_source_line cs)"
    using assms(2) by (simp_all add: cs_def distinct_map)
  then have lt: "tc_source_line (cs ! i) < tc_source_line (cs ! j)" if "i < j" "j < length cs" for i j
    using that sorted_wrt_nth_less [of "(<)" "map tc_source_line cs" i j] by (simp add: strict_sorted_iff)
  have names: "map fst (target_ranges cs last_line) = map tc_name cs"
    by (rule nth_equalityI) (simp_all add: target_ranges_def Let_def)
  have "distinct (map tc_name cs)" using assms(1) by (simp add: cs_def distinct_map)
  then have "distinct (map fst (target_ranges cs last_line))" by (simp add: names)
  note get = updates_Some [OF this]
  from assms(4) set obtain i where i: "i < length cs" "cs ! i = c" by (metis in_set_conv_nth)
  define e where "e = (if i + 1 < length cs then tc_source_line (cs ! (i + 1)) - 1 else last_line)"
  have line: "tc_source_line c \<le> last_line" "0 < tc_source_line c" using assms(3,4) by blast+
  have next_line: "tc_source_line c < tc_source_line (cs ! (i + 1))" if "i + 1 < length cs"
    using lt [of i "i + 1"] that i by simp
  have "(tc_name c, e) \<in> set (target_ranges cs last_line)"
    unfolding target_ranges_def set_map image_iff
    by (rule bexI [of _ i]) (use i line next_line in \<open>auto simp: Let_def e_def\<close>)
  from get [OF this] have m: "map_of (claim_target_end_lines claims last_line) (tc_name c) = Some e"
    unfolding ends .
  have later: "e < tc_source_line c'" if "c' \<in> set claims" "tc_source_line c < tc_source_line c'" for c'
  proof -
    from that(1) set obtain j where j: "j < length cs" "cs ! j = c'" by (metis in_set_conv_nth)
    have "i < j" using lt [of j i] that(2) i j by (cases i j rule: linorder_cases) auto
    then have "tc_source_line (cs ! (i + 1)) \<le> tc_source_line c'" "i + 1 < length cs"
      using lt [of "i + 1" j] j by (cases "i + 1 = j"; auto)+
    then show ?thesis by (simp add: e_def)
  qed
  have "tc_source_line c \<le> e" using next_line line by (auto simp: e_def)
  moreover have "e \<le> last_line"
  proof (cases "i + 1 < length cs")
    case True
    then have "cs ! (i + 1) \<in> set claims" using set nth_mem by blast
    with assms(3) True show ?thesis by (auto simp: e_def)
  qed (simp add: e_def)
  ultimately show ?thesis using m later by blast
qed

lemma claim_ranges_do_not_overlap_witness:
  "\<exists>e. map_of (claim_target_end_lines [\<lparr>tc_name = [66], tc_source_line = 5\<rparr>,
      \<lparr>tc_name = [65], tc_source_line = 2\<rparr>] 9) [65] = Some e \<and> e < 5"
  using claim_ranges_do_not_overlap [of "[\<lparr>tc_name = [66], tc_source_line = 5\<rparr>,
      \<lparr>tc_name = [65], tc_source_line = 2\<rparr>]" 9 "\<lparr>tc_name = [65], tc_source_line = 2\<rparr>"] by auto

text \<open>
  Why the lines must differ: of two claims on one line, the first is given the rest of the file, past the
  third claim.
\<close>

lemma claims_on_one_line_overlap:
  "map_of (claim_target_end_lines [\<lparr>tc_name = [65], tc_source_line = 1\<rparr>, \<lparr>tc_name = [66], tc_source_line = 1\<rparr>,
      \<lparr>tc_name = [67], tc_source_line = 4\<rparr>] 9) [65] = Some 9"
  by code_simp

end
