(* ===== verification/Source_Inputs.thy ===== *)
theory Source_Inputs
  imports Source_Needs
begin

text \<open>
  Artifact inputs and source loads of a scanned file, \<open>hol_workbench/proofs/source.py\<close>: what a scan
  result reports as \<open>define_from_elf\<close> inputs and as \<open>#use\<close>, \<open>load\<close>, \<open>loads\<close> and \<open>loadt\<close> entries.
\<close>

section \<open>Artifact inputs\<close>

datatype elf_input =
    Elf_refused nat nat reason string
  | Elf_literal ucs nat nat "ucs option" "ucs option"
  | Elf_unknown ucs nat nat "ucs option" "string option"

text \<open>
  The fields are \<open>loader\<close>, \<open>source_line\<close>, \<open>source_offset\<close>, \<open>name\<close>, and \<open>path\<close> or \<open>reason\<close>; a refused scan
  gives its line, offset, reason and kind.
\<close>

definition complete_path_argument :: "elf_input \<Rightarrow> bool" where
  "complete_path_argument x = (case x of Elf_literal _ _ _ _ _ \<Rightarrow> True | _ \<Rightarrow> False)"

definition elf_input_of :: "loader_occurrence \<Rightarrow> elf_input option" where
  "elf_input_of item =
     (if occ_family item \<noteq> F_artifact then None
      else Some (if occ_outcome item = O_literal
        then Elf_literal (occ_loader item) (occ_source_line item) (sp_start (occ_loader_span item))
               (occ_name item) (occ_path item)
        else Elf_unknown (occ_loader item) (occ_source_line item) (sp_start (occ_loader_span item))
               (occ_name item) (occ_reason item)))"

text \<open>\<open>None\<close>: the assertion that a refused scan has a refusal fails.\<close>

definition define_from_elf_inputs :: "loader_scan_result \<Rightarrow> elf_input list option" where
  "define_from_elf_inputs scan =
     (if scan_status scan = S_refused
      then map_option (\<lambda>r. [Elf_refused (ref_source_line r) (sp_start (ref_span r)) (ref_reason r) (ref_kind r)])
             (scan_refusal scan)
      else Some (List.map_filter elf_input_of (scan_occurrences scan)))"

definition extract_define_from_elf_inputs_text :: "pyenv \<Rightarrow> ucs \<Rightarrow> elf_input list option" where
  "extract_define_from_elf_inputs_text E xs =
     (case scan_ocaml_loaders E (if list_all scalar xs then utf8_encode xs else [0xFF]) of
        None \<Rightarrow> None
      | Some scan \<Rightarrow> define_from_elf_inputs scan)"

definition extract_define_from_elf_paths :: "elf_input list \<Rightarrow> (ucs \<times> ucs option \<times> ucs option \<times> nat) list" where
  "extract_define_from_elf_paths inputs =
     List.map_filter (\<lambda>x. case x of
         Elf_literal loader line offset name path \<Rightarrow> Some (loader, name, path, line)
       | _ \<Rightarrow> None) inputs"

section \<open>Source loads\<close>

datatype load_resolution = R_source_local | R_load_path_or_missing | R_missing_absolute

record source_load =
  sl_loader :: ucs
  sl_path :: ucs
  sl_source_line :: nat
  sl_candidate :: ucs
  sl_resolution :: load_resolution
  sl_resolved_path :: "ucs option"
  sl_sha256 :: "string option"
  sl_severity :: "string option"

definition resolve_local_source_load_path :: "pathenv \<Rightarrow> ucs \<Rightarrow> ucs \<Rightarrow> ucs option" where
  "resolve_local_source_load_path P source load_path =
     (let raw = pe_expanduser P load_path;
          candidate = (if absolute_path raw then raw else pe_join P (pe_parent P source) raw)
      in case pe_resolve P candidate of
           None \<Rightarrow> None
         | Some resolved \<Rightarrow> if pe_is_file P resolved then Some resolved else None)"

text \<open>\<open>hash\<close> is \<open>sha256_file\<close>; \<open>None\<close> when \<open>resolve\<close> of the local candidate raises.\<close>

definition load_entry :: "pathenv \<Rightarrow> (ucs \<Rightarrow> string option) \<Rightarrow> ucs \<Rightarrow> loader_occurrence \<Rightarrow> ucs
    \<Rightarrow> source_load option" where
  "load_entry P hash source item path =
     (let raw = pe_expanduser P path;
          local_candidate = (if absolute_path raw then raw else pe_join P (pe_parent P source) raw)
      in case pe_resolve P local_candidate of
           None \<Rightarrow> None
         | Some candidate \<Rightarrow>
             let entry = \<lparr>sl_loader = occ_loader item, sl_path = path, sl_source_line = occ_source_line item,
                          sl_candidate = candidate, sl_resolution = R_load_path_or_missing,
                          sl_resolved_path = None, sl_sha256 = None, sl_severity = None\<rparr>
             in Some (case resolve_local_source_load_path P source path of
                  Some resolved \<Rightarrow> entry\<lparr>sl_resolution := R_source_local, sl_resolved_path := Some resolved,
                                         sl_sha256 := hash resolved\<rparr>
                | None \<Rightarrow>
                    if absolute_path raw
                    then entry\<lparr>sl_resolution := R_missing_absolute, sl_severity := Some ''warning''\<rparr>
                    else if 47 \<notin> set path \<and> drop (length path - 3) path = asc ''.ml'' \<and> 3 \<le> length path
                    then entry\<lparr>sl_severity := Some ''warning''\<rparr>
                    else entry\<lparr>sl_severity := Some ''info''\<rparr>))"

definition is_source_load :: "loader_occurrence \<Rightarrow> bool" where
  "is_source_load item \<longleftrightarrow>
     occ_loader item \<in> set (map asc [''#use'', ''load'', ''loads'', ''loadt'']) \<and> occ_path item \<noteq> None"

fun load_entries :: "pathenv \<Rightarrow> (ucs \<Rightarrow> string option) \<Rightarrow> ucs \<Rightarrow> loader_occurrence list
    \<Rightarrow> source_load list option" where
  "load_entries P hash source [] = Some []"
| "load_entries P hash source (item # items) =
     (if is_source_load item
      then case load_entry P hash source item (the (occ_path item)) of
             None \<Rightarrow> None
           | Some entry \<Rightarrow> map_option (Cons entry) (load_entries P hash source items)
      else load_entries P hash source items)"

definition extract_hol_source_loads :: "pathenv \<Rightarrow> (ucs \<Rightarrow> string option) \<Rightarrow> ucs \<Rightarrow> loader_scan_result
    \<Rightarrow> source_load list option" where
  "extract_hol_source_loads P hash source scan = load_entries P hash source (literal_occurrences scan)"

section \<open>Properties\<close>

lemma literal_paths: "extract_define_from_elf_paths (List.map_filter elf_input_of items)
  = map (\<lambda>i. (occ_loader i, occ_name i, occ_path i, occ_source_line i))
      (filter (\<lambda>i. occ_family i = F_artifact \<and> occ_outcome i = O_literal) items)"
  by (induction items) (auto simp: extract_define_from_elf_paths_def List.map_filter_def elf_input_of_def)

text \<open>No artifact input is lost.  For a scan that succeeded, the reported inputs are, in source
  order, one per artifact loader occurrence, with a complete path exactly for the literal ones, and the
  extracted paths are exactly those; a refused scan reports one input, which is not complete.\<close>

theorem artifact_inputs_are_complete:
  assumes "define_from_elf_inputs scan = Some inputs"
  shows "(scan_status scan = S_refused \<longrightarrow> length inputs = 1 \<and> \<not> complete_path_argument (inputs ! 0))
    \<and> (scan_status scan = S_ok \<longrightarrow>
         length inputs = length (filter (\<lambda>i. occ_family i = F_artifact) (scan_occurrences scan))
       \<and> map complete_path_argument inputs
           = map (\<lambda>i. occ_outcome i = O_literal) (filter (\<lambda>i. occ_family i = F_artifact) (scan_occurrences scan))
       \<and> extract_define_from_elf_paths inputs
           = map (\<lambda>i. (occ_loader i, occ_name i, occ_path i, occ_source_line i))
               (filter (\<lambda>i. occ_family i = F_artifact \<and> occ_outcome i = O_literal) (scan_occurrences scan)))"
proof -
  have "map complete_path_argument (List.map_filter elf_input_of items)
      = map (\<lambda>i. occ_outcome i = O_literal) (filter (\<lambda>i. occ_family i = F_artifact) items)" for items
    by (induction items) (auto simp: List.map_filter_def elf_input_of_def complete_path_argument_def)
  moreover from this have "length (List.map_filter elf_input_of items)
      = length (filter (\<lambda>i. occ_family i = F_artifact) items)" for items
    by (metis length_map)
  ultimately show ?thesis
    using assms by (auto simp: define_from_elf_inputs_def literal_paths complete_path_argument_def split: if_split_asm)
qed

text \<open>Every source load of a scan is reported, in order, once, with its loader, path and line; a
  load resolved beside the source carries the resolved file and no complaint, and every other one a
  severity, which is a warning when an absolute path does not exist.\<close>

theorem source_loads_are_complete:
  assumes "extract_hol_source_loads P hash source scan = Some loads"
  shows "map (\<lambda>e. (sl_loader e, Some (sl_path e), sl_source_line e)) loads
       = map (\<lambda>i. (occ_loader i, occ_path i, occ_source_line i)) (filter is_source_load (literal_occurrences scan))
    \<and> list_all (\<lambda>e. (sl_severity e = None) = (sl_resolved_path e \<noteq> None)
         \<and> sl_resolved_path e = resolve_local_source_load_path P source (sl_path e)
         \<and> (sl_resolution e = R_missing_absolute
              \<longleftrightarrow> sl_resolved_path e = None \<and> absolute_path (pe_expanduser P (sl_path e)))
         \<and> (sl_resolution e = R_missing_absolute \<longrightarrow> sl_severity e = Some ''warning'')) loads"
proof -
  have "load_entries P hash source items = Some loads
    \<Longrightarrow> map (\<lambda>e. (sl_loader e, Some (sl_path e), sl_source_line e)) loads
       = map (\<lambda>i. (occ_loader i, occ_path i, occ_source_line i)) (filter is_source_load items)
    \<and> list_all (\<lambda>e. (sl_severity e = None) = (sl_resolved_path e \<noteq> None)
         \<and> sl_resolved_path e = resolve_local_source_load_path P source (sl_path e)
         \<and> (sl_resolution e = R_missing_absolute
              \<longleftrightarrow> sl_resolved_path e = None \<and> absolute_path (pe_expanduser P (sl_path e)))
         \<and> (sl_resolution e = R_missing_absolute \<longrightarrow> sl_severity e = Some ''warning'')) loads" for items loads
  proof (induction items arbitrary: loads)
    case (Cons item items)
    show ?case
    proof (cases "is_source_load item")
      case True
      with Cons.prems obtain entry rest where e: "load_entry P hash source item (the (occ_path item)) = Some entry"
        and rest: "load_entries P hash source items = Some rest" "loads = entry # rest"
        by (auto split: option.split_asm)
      from True have "occ_path item = Some (the (occ_path item))" by (simp add: is_source_load_def)
      with Cons.IH [OF rest(1)] True e rest(2) show ?thesis
        by (auto simp: load_entry_def Let_def split: option.split_asm if_split_asm)
    qed (use Cons in simp)
  qed simp
  with assms show ?thesis unfolding extract_hol_source_loads_def by blast
qed

definition sample_artifact :: loader_occurrence where
  "sample_artifact =
     \<lparr>occ_loader = asc ''define_from_elf'', occ_family = F_artifact, occ_outcome = O_dynamic, occ_reason = None,
      occ_loader_span = \<lparr>sp_start = 4, sp_end = 19\<rparr>, occ_call_span = \<lparr>sp_start = 4, sp_end = 19\<rparr>,
      occ_source_line = 1, occ_path_literal = None, occ_name_literal = None\<rparr>"

definition sample_load :: loader_occurrence where
  "sample_load =
     sample_artifact\<lparr>occ_loader := asc ''loadt'', occ_family := F_source, occ_outcome := O_literal,
       occ_path_literal := Some \<lparr>lit_span = \<lparr>sp_start = 20, sp_end = 26\<rparr>, value_bytes = basc ''/a.ml'',
         raw_sha256 = ''digest'', quoted = False\<rparr>\<rparr>"

definition sample_scan :: loader_scan_result where
  "sample_scan =
     \<lparr>scan_status = S_ok, scan_sha256 = ''digest'', scan_size_bytes = 30,
      scan_occurrences = [sample_artifact, sample_load], scan_refusal = None\<rparr>"

lemma artifact_inputs_are_complete_witness:
  "map complete_path_argument (the (define_from_elf_inputs sample_scan)) = [False]"
proof -
  obtain inputs where i: "define_from_elf_inputs sample_scan = Some inputs"
    by (auto simp: define_from_elf_inputs_def sample_scan_def)
  have "scan_status sample_scan = S_ok"
    "map (\<lambda>i. occ_outcome i = O_literal) (filter (\<lambda>i. occ_family i = F_artifact) (scan_occurrences sample_scan))
       = [False]"
    by code_simp+
  with artifact_inputs_are_complete [OF i] i show ?thesis by simp
qed

definition empty_disk :: pathenv where
  "empty_disk = \<lparr>pe_expanduser = id, pe_parent = id, pe_join = (@), pe_relative = (=), pe_resolve = Some,
     pe_is_file = (\<lambda>_. False), pe_read = (\<lambda>_. None)\<rparr>"

lemma source_loads_are_complete_witness:
  "map sl_severity (the (extract_hol_source_loads empty_disk (\<lambda>_. None) [] sample_scan)) = [Some ''warning'']"
proof -
  have "case extract_hol_source_loads empty_disk (\<lambda>_. None) [] sample_scan of
      Some [e] \<Rightarrow> sl_resolution e = R_missing_absolute | _ \<Rightarrow> False" by code_simp
  then obtain e where e: "extract_hol_source_loads empty_disk (\<lambda>_. None) [] sample_scan = Some [e]"
    "sl_resolution e = R_missing_absolute" by (auto split: option.splits list.splits)
  from source_loads_are_complete [OF e(1)] e show ?thesis by simp
qed

end
