(* ===== verification/Process_World.thy ===== *)
theory Process_World
  imports Prelude "HOL-Library.Monad_Syntax"
begin

text \<open>
  What the process code of the workbench observes of the operating system.  A history gives one snapshot
  per observation, signal or sleep, in the order the code makes them; nothing relates one snapshot to the
  next, so every theorem holds against any interleaving with other processes.  The state of a run is the
  number of observations made and the signals sent.
\<close>

datatype proc_signal = SIGTERM | SIGKILL | SIGCONT

text \<open>\<open>os.killpg\<close> succeeds, raises \<open>ProcessLookupError\<close>, or raises another \<open>OSError\<close>.\<close>

datatype kill_result = K_sent | K_no_group | K_error string

text \<open>
  \<open>sn_group\<close> is the verdict of \<open>os.killpg(pgid, 0)\<close>, \<open>sn_identity\<close> of \<open>process_birth_identity\<close>, \<open>sn_ticks\<close> of
  \<open>process_start_ticks\<close>, \<open>sn_alive\<close> of \<open>process_is_alive\<close> (or \<open>Popen.poll() is None\<close>), \<open>sn_getpgid\<close> of
  \<open>os.getpgid\<close>, and \<open>sn_now\<close> the monotonic clock in milliseconds; \<open>sn_own_group\<close> is \<open>os.getpgrp()\<close> and
  \<open>sn_marker\<close> tells whether the marker file that a handshake waits for exists, and \<open>sn_write_error\<close> is the
  exception that a file write of that moment raises.
\<close>

record snapshot =
  sn_group :: "int \<Rightarrow> bool"
  sn_identity :: "int \<Rightarrow> string option"
  sn_ticks :: "int \<Rightarrow> int option"
  sn_alive :: "int \<Rightarrow> bool"
  sn_getpgid :: "int \<Rightarrow> int option"
  sn_kill :: "int \<Rightarrow> proc_signal \<Rightarrow> kill_result"
  sn_now :: int
  sn_own_group :: int
  sn_marker :: bool
  sn_write_error :: "string option"

type_synonym history = "nat \<Rightarrow> snapshot"

text \<open>A signal event: when it was sent, to which group, and which.\<close>

type_synonym signal_event = "nat \<times> int \<times> proc_signal"

record run_state =
  rs_time :: nat
  rs_signals :: "signal_event list"

definition start_run :: run_state where
  "start_run = \<lparr>rs_time = 0, rs_signals = []\<rparr>"

definition tick :: "run_state \<Rightarrow> run_state" where
  "tick s = s\<lparr>rs_time := rs_time s + 1\<rparr>"

definition observe :: "history \<Rightarrow> (snapshot \<Rightarrow> 'a) \<Rightarrow> run_state \<Rightarrow> 'a \<times> run_state" where
  "observe H q s = (q (H (rs_time s)), tick s)"

definition killpg :: "history \<Rightarrow> int \<Rightarrow> proc_signal \<Rightarrow> run_state \<Rightarrow> kill_result \<times> run_state" where
  "killpg H pgid sig s =
     (sn_kill (H (rs_time s)) pgid sig, (tick s)\<lparr>rs_signals := rs_signals s @ [(rs_time s, pgid, sig)]\<rparr>)"

text \<open>The members of a list that are live, each looked up in turn.\<close>

fun observe_live :: "history \<Rightarrow> (snapshot \<Rightarrow> int \<Rightarrow> bool) \<Rightarrow> int list \<Rightarrow> run_state \<Rightarrow> int list \<times> run_state" where
  "observe_live H q [] s = ([], s)"
| "observe_live H q (x # xs) s =
     (let (live, s1) = observe H (\<lambda>n. q n x) s;
          (rest, s2) = observe_live H q xs s1
      in (if live then x # rest else rest, s2))"

section \<open>Runs\<close>

text \<open>A step of a run: time goes on and signals are only added.\<close>

definition later :: "run_state \<Rightarrow> run_state \<Rightarrow> bool" where
  "later s s' \<longleftrightarrow> rs_time s \<le> rs_time s' \<and> (\<exists>new. rs_signals s' = rs_signals s @ new
     \<and> (\<forall>(t, g, sig) \<in> set new. rs_time s \<le> t \<and> t < rs_time s'))"

lemma later_refl [simp]: "later s s"
  by (simp add: later_def)

lemma later_trans: "later s t \<Longrightarrow> later t u \<Longrightarrow> later s u"
  by (fastforce simp: later_def)

lemma later_tick [simp]: "later s (tick s)"
  by (simp add: later_def tick_def)

definition quiet :: "run_state \<Rightarrow> run_state \<Rightarrow> bool" where
  "quiet s s' \<longleftrightarrow> rs_time s \<le> rs_time s' \<and> rs_signals s' = rs_signals s"

lemma quiet_refl [simp]: "quiet s s"
  by (simp add: quiet_def)

lemma quiet_trans: "quiet s t \<Longrightarrow> quiet t u \<Longrightarrow> quiet s u"
  by (simp add: quiet_def)

lemma quiet_tick [simp]: "quiet s (tick s)"
  by (simp add: quiet_def tick_def)

lemma quiet_later: "quiet s s' \<Longrightarrow> later s s'"
  by (simp add: quiet_def later_def)

lemma observe_quiet: "observe H q s = (x, s') \<Longrightarrow> quiet s s' \<and> x = q (H (rs_time s))"
  by (auto simp: observe_def)

lemma observe_live_quiet: "observe_live H q xs s = (live, s') \<Longrightarrow> quiet s s'"
  by (induction xs arbitrary: s live) (auto simp: Let_def split: prod.split_asm dest!: observe_quiet intro: quiet_trans)

text \<open>\<open>seen H s s' P\<close>: some observation between two states satisfies \<open>P\<close>.\<close>

definition seen :: "history \<Rightarrow> run_state \<Rightarrow> run_state \<Rightarrow> (snapshot \<Rightarrow> bool) \<Rightarrow> bool" where
  "seen H s s' P \<longleftrightarrow> (\<exists>t. rs_time s \<le> t \<and> t < rs_time s' \<and> P (H t))"

lemma seen_mono: "seen H s s' P \<Longrightarrow> rs_time r \<le> rs_time s \<Longrightarrow> rs_time s' \<le> rs_time r' \<Longrightarrow> seen H r r' P"
  by (auto simp: seen_def intro: le_less_trans order.trans less_le_trans)

lemma observe_seen: "observe H q s = (x, s') \<Longrightarrow> P x \<Longrightarrow> seen H s s' (\<lambda>n. P (q n))"
  by (auto simp: observe_def seen_def tick_def)

lemma observe_live_none:
  "observe_live H q xs s = ([], s') \<Longrightarrow> x \<in> set xs \<Longrightarrow> seen H s s' (\<lambda>n. \<not> q n x)"
proof (induction xs arbitrary: s)
  case (Cons y ys)
  obtain live s1 where o': "observe H (\<lambda>n. q n y) s = (live, s1)" by (rule prod.exhaust)
  with Cons.prems(1) have r: "\<not> live" "observe_live H q ys s1 = ([], s')"
    by (auto simp: Let_def split: prod.split_asm if_split_asm)
  from observe_quiet [OF o'] observe_live_quiet [OF r(2)] have t: "rs_time s \<le> rs_time s1" "rs_time s1 \<le> rs_time s'"
    by (simp_all add: quiet_def)
  show ?case
  proof (cases "x = y")
    case True
    from observe_seen [OF o', of Not] r(1) have "seen H s s1 (\<lambda>n. \<not> q n x)" by (simp add: True)
    then show ?thesis by (rule seen_mono) (use t in simp_all)
  next
    case False
    with Cons.prems(2) have "x \<in> set ys" by simp
    from Cons.IH [OF r(2) this] show ?thesis by (rule seen_mono) (use t in simp_all)
  qed
qed simp

text \<open>A clock that passes every deadline.\<close>

definition clock_advances :: "history \<Rightarrow> bool" where
  "clock_advances H \<longleftrightarrow> (\<forall>d. \<exists>t0. \<forall>t \<ge> t0. d \<le> sn_now (H t))"

end
