(* ===== verification/Polling.thy ===== *)
theory Polling
  imports Process_World
begin

text \<open>
  The polling loops of the process code: \<open>while True\<close> around one turn that decides, or sleeps and goes on.
  A loop that never decides has no value.
\<close>

partial_function (option) poll :: "(run_state \<Rightarrow> 'a option \<times> run_state) \<Rightarrow> run_state \<Rightarrow> ('a \<times> run_state) option" where
  [code]: "poll turn s =
     (case fst (turn s) of
        Some r \<Rightarrow> Some (r, snd (turn s))
      | None \<Rightarrow> poll turn (tick (snd (turn s))))"

text \<open>A property of whole runs that a deciding turn has and that an undecided turn and a sleep extend.\<close>

lemma poll_rule:
  assumes "poll turn s = Some (r, s')"
    and decide: "\<And>s r s'. turn s = (Some r, s') \<Longrightarrow> P s r s'"
    and extend: "\<And>s s1 r s'. turn s = (None, s1) \<Longrightarrow> P (tick s1) r s' \<Longrightarrow> P s r s'"
  shows "P s r s'"
proof -
  have "P s (fst (r, s')) (snd (r, s'))"
  proof (rule poll.raw_induct [where P = "\<lambda>t s rs. t = turn \<longrightarrow> P s (fst rs) (snd rs)", OF _ assms(1), THEN mp])
    fix loop t s rs
    assume IH: "\<And>t s rs. loop t s = Some rs \<Longrightarrow> t = turn \<longrightarrow> P s (fst rs) (snd rs)"
      and body: "(case fst (t s) of None \<Rightarrow> loop t (tick (snd (t s))) | Some r \<Rightarrow> Some (r, snd (t s))) = Some rs"
    show "t = turn \<longrightarrow> P s (fst rs) (snd rs)"
    proof
      assume "t = turn"
      with body IH show "P s (fst rs) (snd rs)"
        using decide [of s] extend [of s "snd (turn s)"]
        by (cases "turn s"; cases "fst (turn s)") auto
    qed
  qed simp
  then show ?thesis by simp
qed

text \<open>
  A loop returns when the clock advances and an undecided turn read a clock before the deadline.
\<close>

lemma poll_returns:
  assumes "clock_advances H"
    and turn: "\<And>s s1. turn s = (None, s1) \<Longrightarrow> seen H s s1 (\<lambda>n. sn_now n < deadline)"
  shows "\<exists>r s'. poll turn s = Some (r, s')"
proof -
  from assms(1) obtain t0 where t0: "\<And>t. t0 \<le> t \<Longrightarrow> deadline \<le> sn_now (H t)"
    unfolding clock_advances_def by blast
  show ?thesis
  proof (induction "t0 - rs_time s" arbitrary: s rule: less_induct)
    case less
    obtain d s1 where t: "turn s = (d, s1)" by (rule prod.exhaust)
    show ?case
    proof (cases d)
      case None
      with turn t obtain u where "rs_time s \<le> u" "u < rs_time s1" "sn_now (H u) < deadline"
        by (auto simp: seen_def)
      moreover from this t0 [of u] have "u < t0" by (meson not_le)
      ultimately have "t0 - rs_time (tick s1) < t0 - rs_time s" by (simp add: tick_def)
      from less [OF this] None t show ?thesis by (subst poll.simps) simp
    next
      case (Some r)
      with t show ?thesis by (subst poll.simps) simp
    qed
  qed
qed

end
