(* ===== verification/Process_Groups.thy ===== *)
theory Process_Groups
  imports Polling
begin

text \<open>
  Termination of owned process groups, \<open>hol_workbench/process_groups.py\<close>: bounded waiting, signalling
  with birth-identity checks, and the termination report.  Times are milliseconds.
\<close>

section \<open>Waiting\<close>

definition pid_int :: "int option \<Rightarrow> int option" where
  "pid_int v = (case v of Some p \<Rightarrow> if 0 < p then Some p else None | None \<Rightarrow> None)"

definition positive_unique :: "int option list \<Rightarrow> int list" where
  "positive_unique values = sort (remdups (List.map_filter pid_int values))"

record wait_result =
  wr_quiescent :: bool
  wr_elapsed :: int
  wr_live_pids :: "int list"
  wr_live_pgids :: "int list"

text \<open>One pass over the targets, with the clock reading that decides or reports.\<close>

definition wait_pass :: "history \<Rightarrow> int list \<Rightarrow> int list \<Rightarrow> run_state \<Rightarrow> (int list \<times> int list \<times> int) \<times> run_state" where
  "wait_pass H pids pgids s =
     (let (live_pids, s) = observe_live H sn_alive pids s;
          (live_pgids, s) = observe_live H sn_group pgids s;
          (now, s) = observe H sn_now s
      in ((live_pids, live_pgids, now), s))"

definition wait_done :: "int \<Rightarrow> int \<Rightarrow> int list \<times> int list \<times> int \<Rightarrow> wait_result option" where
  "wait_done started deadline p =
     (case p of (live_pids, live_pgids, now) \<Rightarrow>
        if live_pids = [] \<and> live_pgids = []
        then Some \<lparr>wr_quiescent = True, wr_elapsed = now - started, wr_live_pids = [], wr_live_pgids = []\<rparr>
        else if deadline \<le> now
        then Some \<lparr>wr_quiescent = False, wr_elapsed = now - started, wr_live_pids = live_pids,
                   wr_live_pgids = live_pgids\<rparr>
        else None)"

definition wait_turn :: "history \<Rightarrow> int list \<Rightarrow> int list \<Rightarrow> int \<Rightarrow> int \<Rightarrow> run_state
    \<Rightarrow> wait_result option \<times> run_state" where
  "wait_turn H pids pgids started deadline s =
     (let (p, s) = wait_pass H pids pgids s in (wait_done started deadline p, s))"

definition wait_for_quiescence :: "history \<Rightarrow> int option list \<Rightarrow> int option list \<Rightarrow> int \<Rightarrow> run_state
    \<Rightarrow> (wait_result \<times> run_state) option" where
  "wait_for_quiescence H pids pgids timeout s =
     (let (started, s) = observe H sn_now s
      in poll (wait_turn H (positive_unique pids) (positive_unique pgids) started (started + max 0 timeout)) s)"

section \<open>Signals\<close>

text \<open>The left summand is a raised error.\<close>

definition signal_process_group :: "history \<Rightarrow> int option \<Rightarrow> proc_signal \<Rightarrow> run_state
    \<Rightarrow> (string + bool) \<times> run_state" where
  "signal_process_group H pgid sig s =
     (case pid_int pgid of
        None \<Rightarrow> (Inr False, s)
      | Some v \<Rightarrow>
          let (own, s) = observe H sn_own_group s
          in if v = own then (Inl ''RuntimeError: refusing to signal own process group'', s)
             else let (res, s) = killpg H v sig s
                  in (case res of K_sent \<Rightarrow> Inr True | K_no_group \<Rightarrow> Inr False | K_error e \<Rightarrow> Inl e, s))"

section \<open>Termination\<close>

record term_request =
  tq_identity_pid :: "int option"
  tq_expected_identity :: "string option"
  tq_expected_ticks :: "int option"
  tq_require_identity :: bool
  tq_group_continuity :: bool
  tq_term_grace :: int
  tq_kill_grace :: int

record term_result =
  tr_pgid :: "int option"
  tr_status :: string
  tr_term_sent :: bool
  tr_kill_sent :: bool
  tr_live_pgids :: "int list"
  tr_identity_mode :: "string option"
  tr_error :: "string option"

definition identity_at :: "term_request \<Rightarrow> snapshot \<Rightarrow> string option" where
  "identity_at q n = (case pid_int (tq_identity_pid q) of None \<Rightarrow> None | Some p \<Rightarrow> sn_identity n p)"

definition ticks_at :: "term_request \<Rightarrow> snapshot \<Rightarrow> int option" where
  "ticks_at q n = (case pid_int (tq_identity_pid q) of None \<Rightarrow> None | Some p \<Rightarrow> sn_ticks n p)"

definition identity_mismatch :: "term_request \<Rightarrow> int option \<Rightarrow> string option \<Rightarrow> bool" where
  "identity_mismatch q ticks ident \<longleftrightarrow>
     (case tq_expected_identity q of
        Some e \<Rightarrow> ident \<noteq> None \<and> ident \<noteq> Some e
      | None \<Rightarrow> pid_int (tq_expected_ticks q) \<noteq> None \<and> ticks \<noteq> None \<and> ticks \<noteq> pid_int (tq_expected_ticks q))"

definition identity_unavailable :: "term_request \<Rightarrow> int option \<Rightarrow> string option \<Rightarrow> bool" where
  "identity_unavailable q ticks ident \<longleftrightarrow>
     (case tq_expected_identity q of
        Some e \<Rightarrow> ident = None
      | None \<Rightarrow> pid_int (tq_expected_ticks q) = None \<or> ticks = None)"

definition identity_failed :: "int \<Rightarrow> bool \<Rightarrow> term_result" where
  "identity_failed v mismatch =
     \<lparr>tr_pgid = Some v, tr_status = (if mismatch then ''identity_mismatch'' else ''identity_unavailable''),
      tr_term_sent = False, tr_kill_sent = False, tr_live_pgids = [v], tr_identity_mode = None,
      tr_error = None\<rparr>"

definition identity_failure :: "history \<Rightarrow> term_request \<Rightarrow> int \<Rightarrow> string \<Rightarrow> run_state
    \<Rightarrow> (term_result option \<times> string) \<times> run_state" where
  "identity_failure H q v mode s =
     (if \<not> tq_require_identity q then ((None, mode), s)
      else let ((ticks, ident), s) = observe H (\<lambda>n.
               if tq_expected_identity q = None then (ticks_at q n, None) else (None, identity_at q n)) s;
               mismatch = identity_mismatch q ticks ident;
               unavailable = identity_unavailable q ticks ident;
               (continuity, s) =
                 (if unavailable \<and> tq_group_continuity q \<and> pid_int (tq_identity_pid q) = Some v
                  then observe H (\<lambda>n. sn_group n v) s else (False, s))
           in if continuity then ((None, ''dead_leader_live_group''), s)
              else if mismatch \<or> unavailable then ((Some (identity_failed v mismatch), mode), s)
              else ((None, ''live_leader''), s))"

definition already_quiescent :: "int option \<Rightarrow> term_result" where
  "already_quiescent v =
     \<lparr>tr_pgid = v, tr_status = ''already_quiescent'', tr_term_sent = False, tr_kill_sent = False,
      tr_live_pgids = [], tr_identity_mode = None, tr_error = None\<rparr>"

definition signal_failed :: "history \<Rightarrow> int \<Rightarrow> bool \<Rightarrow> string \<Rightarrow> run_state \<Rightarrow> term_result \<times> run_state" where
  "signal_failed H v term_sent e s =
     (let (live, s) = observe H (\<lambda>n. sn_group n v) s
      in (\<lparr>tr_pgid = Some v, tr_status = ''signal_failed'', tr_term_sent = term_sent, tr_kill_sent = False,
           tr_live_pgids = (if live then [v] else []), tr_identity_mode = None, tr_error = Some e\<rparr>, s))"

definition term_report :: "int \<Rightarrow> bool \<Rightarrow> bool \<Rightarrow> string \<Rightarrow> wait_result \<Rightarrow> term_result" where
  "term_report v term_sent kill_sent mode final =
     \<lparr>tr_pgid = Some v, tr_status = (if wr_quiescent final then ''quiescent'' else ''survivors''),
      tr_term_sent = term_sent, tr_kill_sent = kill_sent, tr_live_pgids = wr_live_pgids final,
      tr_identity_mode = Some mode, tr_error = None\<rparr>"

definition kill_group :: "history \<Rightarrow> term_request \<Rightarrow> int \<Rightarrow> bool \<Rightarrow> string \<Rightarrow> run_state
    \<Rightarrow> (term_result \<times> run_state) option" where
  "kill_group H q v term_sent mode s =
     (let ((failure, mode), s) = identity_failure H q v mode s
      in case failure of
           Some f \<Rightarrow> Some (f\<lparr>tr_term_sent := term_sent\<rparr>, s)
         | None \<Rightarrow>
             let (res, s) = signal_process_group H (Some v) SIGKILL s
             in case res of
                  Inl e \<Rightarrow> Some (signal_failed H v term_sent e s)
                | Inr kill_sent \<Rightarrow> do {
                    (final, s) \<leftarrow> wait_for_quiescence H [] [Some v] (tq_kill_grace q) s;
                    Some (term_report v term_sent kill_sent mode final, s)
                  })"

definition terminate_process_group :: "history \<Rightarrow> term_request \<Rightarrow> int option \<Rightarrow> run_state
    \<Rightarrow> (term_result \<times> run_state) option" where
  "terminate_process_group H q pgid s =
     (case pid_int pgid of
        None \<Rightarrow> Some (already_quiescent None, s)
      | Some v \<Rightarrow>
          let (live, s) = observe H (\<lambda>n. sn_group n v) s
          in if \<not> live then Some (already_quiescent (Some v), s)
             else let ((failure, mode), s) = identity_failure H q v ''not_required'' s
             in case failure of
                  Some f \<Rightarrow> Some (f, s)
                | None \<Rightarrow>
                    let (res, s) = signal_process_group H (Some v) SIGTERM s
                    in case res of
                         Inl e \<Rightarrow> Some (signal_failed H v False e s)
                       | Inr term_sent \<Rightarrow> do {
                           (after, s) \<leftarrow> wait_for_quiescence H [] [Some v] (tq_term_grace q) s;
                           if wr_quiescent after then Some (term_report v term_sent False mode after, s)
                           else kill_group H q v term_sent mode s
                         })"

end
