(* ===== verification/Process_Evidence.thy ===== *)
theory Process_Evidence
  imports Process_World
begin

text \<open>
  Signals with evidence.  A run is identified when every signal of it goes to one group and is preceded,
  after the signal before it, by an observation that justifies it.  The locale \<open>terminator\<close> is what the
  callers of a termination routine rely on; its lemmas are about stopping a list of targets in turn.
\<close>

section \<open>Identified runs\<close>

fun identified :: "history \<Rightarrow> (snapshot \<Rightarrow> bool) \<Rightarrow> int \<Rightarrow> nat \<Rightarrow> signal_event list \<Rightarrow> bool" where
  "identified H P v lo [] = True"
| "identified H P v lo ((t, g, sig) # es) =
     (g = v \<and> list_ex (\<lambda>e. P (H e)) [lo..<t] \<and> identified H P v (Suc t) es)"

definition escalates :: "signal_event list \<Rightarrow> bool" where
  "escalates new \<longleftrightarrow> List.map (\<lambda>e. snd (snd e)) new \<in> {[], [SIGTERM], [SIGTERM, SIGKILL]}"

definition identified_run :: "history \<Rightarrow> (snapshot \<Rightarrow> bool) \<Rightarrow> int option \<Rightarrow> run_state \<Rightarrow> run_state \<Rightarrow> bool" where
  "identified_run H P pgrp s s' \<longleftrightarrow>
     (\<exists>new. later s s' \<and> rs_signals s' = rs_signals s @ new \<and> escalates new
        \<and> (case pgrp of None \<Rightarrow> new = [] | Some v \<Rightarrow> identified H P v (rs_time s) new))"

lemma seen_between: "seen H s s1 P \<Longrightarrow> lo \<le> rs_time s \<Longrightarrow> rs_time s1 \<le> t \<Longrightarrow> list_ex (\<lambda>e. P (H e)) [lo..<t]"
  by (auto simp: seen_def list_ex_iff intro!: bexI)

lemma identified_run_quiet: "quiet s s' \<Longrightarrow> identified_run H P pgrp s s'"
  by (auto simp: identified_run_def escalates_def quiet_def later_def split: option.split)

lemma identified_run_term:
  assumes "quiet s s1" and "seen H s s1 P"
    and "rs_signals s' = rs_signals s1 @ [(u, v, SIGTERM)]" and "rs_time s1 \<le> u" and "u < rs_time s'"
  shows "identified_run H P (Some v) s s'"
  using assms seen_between [of H s s1 P "rs_time s" u]
  unfolding identified_run_def escalates_def quiet_def later_def by simp

lemma identified_run_kill:
  assumes "quiet s s1" and "seen H s s1 P"
    and "rs_signals s2 = rs_signals s1 @ [(u, v, SIGTERM)]" and "rs_time s1 \<le> u" and "u < rs_time s2"
    and "quiet s2 s3" and "seen H s2 s3 P"
    and "rs_signals s' = rs_signals s3 @ [(t, v, SIGKILL)]" and "rs_time s3 \<le> t" and "t < rs_time s'"
  shows "identified_run H P (Some v) s s'"
  using assms seen_between [of H s s1 P "rs_time s" u] seen_between [of H s2 s3 P "Suc u" t]
  unfolding identified_run_def escalates_def quiet_def later_def by simp

text \<open>At most one signal, to the given group.\<close>

definition sends :: "run_state \<Rightarrow> int \<Rightarrow> proc_signal \<Rightarrow> run_state \<Rightarrow> bool" where
  "sends s v sig s' \<longleftrightarrow> quiet s s'
     \<or> (\<exists>t. rs_time s \<le> t \<and> t < rs_time s' \<and> rs_signals s' = rs_signals s @ [(t, v, sig)])"

lemma sends_quiet: "sends s v sig s1 \<Longrightarrow> quiet s1 s2 \<Longrightarrow> sends s v sig s2"
  unfolding sends_def quiet_def by (auto intro: less_le_trans)

lemma sends_later: "sends s v sig s' \<Longrightarrow> later s s'"
  by (auto simp: sends_def quiet_def later_def)

lemma killpg_sends: "killpg H g sig s = (k, s') \<Longrightarrow> rs_signals s' = rs_signals s @ [(rs_time s, g, sig)]
    \<and> rs_time s < rs_time s'"
  by (auto simp: killpg_def tick_def)

lemma killpg_later: "killpg H g sig s = (k, s') \<Longrightarrow> later s s'"
  by (auto simp: killpg_def tick_def later_def)

lemma sends_term_run:
  assumes "quiet s s1" and "seen H s s1 P" and "sends s1 v SIGTERM s'"
  shows "identified_run H P (Some v) s s'"
  using assms(3) unfolding sends_def
proof
  assume "quiet s1 s'"
  with assms(1) show ?thesis by (intro identified_run_quiet) (rule quiet_trans)
next
  assume "\<exists>t. rs_time s1 \<le> t \<and> t < rs_time s' \<and> rs_signals s' = rs_signals s1 @ [(t, v, SIGTERM)]"
  with assms(1,2) show ?thesis by (auto intro: identified_run_term)
qed

lemma sends_kill_run:
  assumes "quiet s s1" and "seen H s s1 P"
    and "rs_signals s2 = rs_signals s1 @ [(u, v, SIGTERM)]" and "rs_time s1 \<le> u" and "u < rs_time s2"
    and "quiet s2 s3" and "seen H s2 s3 P" and "sends s3 v SIGKILL s'"
  shows "identified_run H P (Some v) s s'"
  using assms(8) unfolding sends_def
proof
  assume "quiet s3 s'"
  with assms(5,6) have "u < rs_time s'" "rs_signals s' = rs_signals s2" by (auto simp: quiet_def)
  with identified_run_term [OF assms(1,2), of s' u v] assms(3,4) show ?thesis by simp
next
  assume "\<exists>t. rs_time s3 \<le> t \<and> t < rs_time s' \<and> rs_signals s' = rs_signals s3 @ [(t, v, SIGKILL)]"
  with identified_run_kill [OF assms(1-7)] show ?thesis by blast
qed

section \<open>Stopping several targets\<close>

text \<open>The signals of a run over several targets, each justified by one of them.\<close>

definition justified :: "history \<Rightarrow> ('t \<Rightarrow> snapshot \<Rightarrow> bool) \<Rightarrow> ('t \<Rightarrow> int option) \<Rightarrow> 't list \<Rightarrow> nat
    \<Rightarrow> signal_event \<Rightarrow> bool" where
  "justified H P pgrp xs lo ev \<longleftrightarrow>
     (case ev of (t, g, sig) \<Rightarrow> \<exists>x \<in> set xs. pgrp x = Some g \<and> sig \<in> {SIGTERM, SIGKILL}
        \<and> (\<exists>e. lo \<le> e \<and> e < t \<and> P x (H e)))"

definition justified_run :: "history \<Rightarrow> ('t \<Rightarrow> snapshot \<Rightarrow> bool) \<Rightarrow> ('t \<Rightarrow> int option) \<Rightarrow> 't list
    \<Rightarrow> run_state \<Rightarrow> run_state \<Rightarrow> bool" where
  "justified_run H P pgrp xs s s' \<longleftrightarrow>
     (\<exists>new. later s s' \<and> rs_signals s' = rs_signals s @ new
        \<and> (\<forall>ev \<in> set new. justified H P pgrp xs (rs_time s) ev))"

lemma justified_mono:
  assumes "justified H P pgrp xs lo ev" and "set xs \<subseteq> set ys" and "lo' \<le> lo"
  shows "justified H P pgrp ys lo' ev"
proof -
  obtain t g sig where ev: "ev = (t, g, sig)" by (rule prod_cases3)
  from assms(1) obtain x e where "x \<in> set xs" "pgrp x = Some g" "sig \<in> {SIGTERM, SIGKILL}"
    "lo \<le> e" "e < t" "P x (H e)" by (auto simp: justified_def ev)
  with assms(2,3) show ?thesis unfolding justified_def ev by (auto intro: order.trans)
qed

lemma justified_target: "justified H P pgrp xs lo ev \<Longrightarrow> \<exists>x \<in> set xs. pgrp x = Some (fst (snd ev))"
  by (cases ev) (auto simp: justified_def)

lemma justified_run_refl [simp]: "justified_run H P pgrp xs s s"
  by (simp add: justified_run_def)

lemma justified_run_later: "justified_run H P pgrp xs s s' \<Longrightarrow> later s s'"
  by (auto simp: justified_run_def)

lemma justified_run_quiet: "quiet s s' \<Longrightarrow> justified_run H P pgrp xs s s'"
  by (auto simp: justified_run_def quiet_def later_def)

lemma justified_run_trans:
  assumes "justified_run H P pgrp xs s t" and "justified_run H P pgrp ys t u"
  shows "justified_run H P pgrp (xs @ ys) s u"
proof -
  from assms obtain n m where n: "rs_signals t = rs_signals s @ n" "later s t"
    "\<forall>ev \<in> set n. justified H P pgrp xs (rs_time s) ev"
    and m: "rs_signals u = rs_signals t @ m" "later t u"
    "\<forall>ev \<in> set m. justified H P pgrp ys (rs_time t) ev"
    unfolding justified_run_def by blast
  have "rs_time s \<le> rs_time t" using n(2) by (simp add: later_def)
  then have "\<forall>ev \<in> set (n @ m). justified H P pgrp (xs @ ys) (rs_time s) ev"
    using n(3) m(3) by (auto elim!: justified_mono)
  with n m later_trans [OF n(2) m(2)] show ?thesis unfolding justified_run_def by auto
qed

lemma identified_events:
  "identified H P v lo es \<Longrightarrow> (t, g, sig) \<in> set es \<Longrightarrow> g = v \<and> (\<exists>e. lo \<le> e \<and> e < t \<and> P (H e))"
proof (induction es arbitrary: lo)
  case (Cons ev es)
  obtain u h sg where ev: "ev = (u, h, sg)" by (rule prod_cases3)
  show ?case
  proof (cases "(t, g, sig) = ev")
    case True
    with Cons.prems(1) show ?thesis by (auto simp: ev list_ex_iff)
  next
    case False
    with Cons.prems have "identified H P v (Suc u) es" "(t, g, sig) \<in> set es"
      "\<exists>e. lo \<le> e \<and> e < u" by (auto simp: ev list_ex_iff)
    with Cons.IH [of "Suc u"] show ?thesis by (meson Suc_leD le_less_trans less_imp_le order.trans)
  qed
qed simp

lemma identified_justified:
  assumes "identified_run H (P x) (pgrp x) s s'"
  shows "justified_run H P pgrp [x] s s'"
proof -
  from assms obtain new where new: "later s s'" "rs_signals s' = rs_signals s @ new" "escalates new"
    "case pgrp x of None \<Rightarrow> new = [] | Some v \<Rightarrow> identified H (P x) v (rs_time s) new"
    unfolding identified_run_def by blast
  have "justified H P pgrp [x] (rs_time s) (t, g, sig)" if e: "(t, g, sig) \<in> set new" for t g sig
  proof -
    have "pgrp x = Some g \<and> (\<exists>e. rs_time s \<le> e \<and> e < t \<and> P x (H e))"
      using new(4) e identified_events by (fastforce split: option.split_asm)
    moreover have "sig \<in> {SIGTERM, SIGKILL}"
      using new(3) e by (auto simp: escalates_def map_eq_Cons_conv)
    ultimately show ?thesis by (simp add: justified_def)
  qed
  with new(1,2) show ?thesis unfolding justified_run_def by auto
qed

fun stop_each :: "('t \<Rightarrow> run_state \<Rightarrow> ('r \<times> run_state) option) \<Rightarrow> 't list \<Rightarrow> run_state \<Rightarrow> ('r list \<times> run_state) option" where
  "stop_each stop [] s = Some ([], s)"
| "stop_each stop (x # xs) s = do {
     (r, s) \<leftarrow> stop x s;
     (rs, s) \<leftarrow> stop_each stop xs s;
     Some (r # rs, s)
   }"

text \<open>
  A routine that stops a target: what it signals is identified, and a positive report means that the
  target was observed to be gone.
\<close>

locale terminator =
  fixes H :: history
    and stop :: "'t \<Rightarrow> run_state \<Rightarrow> ('r \<times> run_state) option"
    and pgrp :: "'t \<Rightarrow> int option"
    and proof_of :: "'t \<Rightarrow> snapshot \<Rightarrow> bool"
    and verified :: "'r \<Rightarrow> bool"
  assumes stop_identified: "stop x s = Some (r, s') \<Longrightarrow> identified_run H (proof_of x) (pgrp x) s s'"
    and stop_verified: "stop x s = Some (r, s') \<Longrightarrow> verified r \<Longrightarrow> pgrp x = Some v
      \<Longrightarrow> \<exists>s1. later s s1 \<and> quiet s1 s' \<and> seen H s1 s' (\<lambda>n. \<not> sn_group n v)"
    and stop_returns: "clock_advances H \<Longrightarrow> stop x s \<noteq> None"
begin

lemma stop_later: "stop x s = Some (r, s') \<Longrightarrow> later s s'"
  using stop_identified [of x s r s'] by (auto simp: identified_run_def)

lemma stop_each_later: "stop_each stop xs s = Some (rs, s') \<Longrightarrow> later s s'"
proof (induction xs arbitrary: s rs)
  case (Cons x xs)
  then obtain r s1 rs' where "stop x s = Some (r, s1)" "stop_each stop xs s1 = Some (rs', s')"
    by (auto split: bind_split_asm)
  with Cons.IH show ?case using stop_later later_trans by blast
qed simp

lemma stop_each_justified: "stop_each stop xs s = Some (rs, s') \<Longrightarrow> justified_run H proof_of pgrp xs s s'"
proof (induction xs arbitrary: s rs)
  case (Cons x xs)
  then obtain r s1 rs' where "stop x s = Some (r, s1)" "stop_each stop xs s1 = Some (rs', s')"
    by (auto split: bind_split_asm)
  then show ?case
    using Cons.IH justified_run_trans [of H proof_of pgrp "[x]" s s1 xs s']
      identified_justified [of H proof_of x pgrp, OF stop_identified] by simp
qed simp

lemma stop_each_reports:
  assumes "stop_each stop xs s = Some (rs, s')"
  shows "list_all2 (\<lambda>x r. verified r \<longrightarrow> (\<forall>v. pgrp x = Some v \<longrightarrow> seen H s s' (\<lambda>n. \<not> sn_group n v))) xs rs"
  using assms
proof (induction xs arbitrary: s rs)
  case (Cons x xs)
  then obtain r s1 rs' where 1: "stop x s = Some (r, s1)" and 2: "stop_each stop xs s1 = Some (rs', s')"
    and rs: "rs = r # rs'"
    by (auto split: bind_split_asm)
  have t: "rs_time s \<le> rs_time s1" "rs_time s1 \<le> rs_time s'"
    using stop_later [OF 1] stop_each_later [OF 2] by (simp_all add: later_def)
  have "seen H s s' (\<lambda>n. \<not> sn_group n v)" if "verified r" "pgrp x = Some v" for v
  proof -
    from stop_verified [OF 1 that] obtain s0 where s0: "later s s0" "quiet s0 s1"
      "seen H s0 s1 (\<lambda>n. \<not> sn_group n v)" by blast
    then show ?thesis using t by (elim seen_mono) (simp_all add: later_def)
  qed
  moreover have "list_all2 (\<lambda>x r. verified r \<longrightarrow> (\<forall>v. pgrp x = Some v \<longrightarrow> seen H s s' (\<lambda>n. \<not> sn_group n v))) xs rs'"
    using Cons.IH [OF 2] by (rule list_all2_mono) (use t in \<open>auto elim: seen_mono\<close>)
  ultimately show ?case by (simp add: rs)
qed simp

lemma stop_each_returns: "clock_advances H \<Longrightarrow> \<exists>rs s'. stop_each stop xs s = Some (rs, s')"
proof (induction xs arbitrary: s)
  case (Cons x xs)
  from stop_returns [OF Cons.prems, of x s] obtain r s1 where "stop x s = Some (r, s1)" by auto
  with Cons.IH [OF Cons.prems, of s1] show ?case by auto
qed simp

end

end
