(* ===== verification/Process_Groups_Props.thy ===== *)
theory Process_Groups_Props
  imports Process_Groups Process_Evidence
begin

text \<open>
  What the termination of a process group guarantees against any history: which signals it sends and on
  what evidence, what a quiescent report means, and that it returns when the clock advances.
\<close>

section \<open>Waiting\<close>

lemma wait_pass_cases: obtains lp lg now s1 where "wait_pass H pids pgids s = ((lp, lg, now), s1)"
proof -
  obtain p s1 where "wait_pass H pids pgids s = (p, s1)" by (rule prod.exhaust)
  moreover obtain lp lg now where "p = (lp, lg, now)" by (rule prod_cases3)
  ultimately show ?thesis by (intro that) simp
qed

lemma wait_pass_quiet: "wait_pass H pids pgids s = (p, s') \<Longrightarrow> quiet s s' \<and> rs_time s < rs_time s'"
  by (auto simp: wait_pass_def Let_def observe_def tick_def quiet_def split: prod.split_asm
      dest!: observe_live_quiet)

lemma wait_pass_empty:
  assumes "wait_pass H pids pgids s = (([], [], now), s')"
  shows "\<forall>p \<in> set pids. seen H s s' (\<lambda>n. \<not> sn_alive n p)"
    and "\<forall>g \<in> set pgids. seen H s s' (\<lambda>n. \<not> sn_group n g)"
proof -
  from assms obtain s1 s2 where 1: "observe_live H sn_alive pids s = ([], s1)"
    and 2: "observe_live H sn_group pgids s1 = ([], s2)" and 3: "s' = tick s2"
    by (auto simp: wait_pass_def Let_def observe_def split: prod.split_asm)
  have t: "rs_time s \<le> rs_time s1" "rs_time s1 \<le> rs_time s2" "rs_time s2 \<le> rs_time s'"
    using observe_live_quiet [OF 1] observe_live_quiet [OF 2] by (simp_all add: 3 quiet_def tick_def)
  show "\<forall>p \<in> set pids. seen H s s' (\<lambda>n. \<not> sn_alive n p)"
    using observe_live_none [OF 1] t by (blast intro: seen_mono order.trans)
  show "\<forall>g \<in> set pgids. seen H s s' (\<lambda>n. \<not> sn_group n g)"
    using observe_live_none [OF 2] t by (blast intro: seen_mono order.trans)
qed

definition waited :: "history \<Rightarrow> int list \<Rightarrow> int list \<Rightarrow> run_state \<Rightarrow> wait_result \<Rightarrow> run_state \<Rightarrow> bool" where
  "waited H pids pgids s r s' \<longleftrightarrow> quiet s s' \<and> rs_time s < rs_time s'
     \<and> (wr_quiescent r \<longrightarrow> wr_live_pgids r = [] \<and> (\<forall>p \<in> set pids. seen H s s' (\<lambda>n. \<not> sn_alive n p))
          \<and> (\<forall>g \<in> set pgids. seen H s s' (\<lambda>n. \<not> sn_group n g)))"

lemma waited_later:
  assumes "waited H pids pgids s1 r s'" and "quiet s s1"
  shows "waited H pids pgids s r s'"
  using assms unfolding waited_def by (auto simp: quiet_def elim!: seen_mono intro: order.trans)

lemma wait_turn_waited:
  assumes "wait_turn H pids pgids started deadline s = (Some r, s')"
  shows "waited H pids pgids s r s'"
proof -
  obtain lp lg now s1 where w: "wait_pass H pids pgids s = ((lp, lg, now), s1)" by (rule wait_pass_cases)
  with assms wait_pass_quiet [OF w] wait_pass_empty [of H pids pgids s now s1] show ?thesis
    by (auto simp: wait_turn_def waited_def wait_done_def split: if_split_asm)
qed

lemma wait_turn_undecided:
  assumes "wait_turn H pids pgids started deadline s = (None, s1)"
  shows "quiet s s1" and "seen H s s1 (\<lambda>n. sn_now n < deadline)"
proof -
  obtain lp lg now s2 where w: "wait_pass H pids pgids s = ((lp, lg, now), s2)" by (rule wait_pass_cases)
  with assms have d: "s1 = s2" "now < deadline" by (auto simp: wait_turn_def wait_done_def split: if_split_asm)
  show "quiet s s1" using wait_pass_quiet [OF w] by (simp add: d)
  obtain s0 where "now = sn_now (H (rs_time s0))" "quiet s s0" "s2 = tick s0"
    using w by (auto simp: wait_pass_def Let_def observe_def split: prod.split_asm
        dest!: observe_live_quiet intro: quiet_trans)
  with d show "seen H s s1 (\<lambda>n. sn_now n < deadline)" by (auto simp: seen_def quiet_def tick_def)
qed

lemma wait_for_quiescence_waited:
  assumes "wait_for_quiescence H pids pgids timeout s = Some (r, s')"
  shows "waited H (positive_unique pids) (positive_unique pgids) s r s'"
proof -
  define started where "started = sn_now (H (rs_time s))"
  from assms have "poll (wait_turn H (positive_unique pids) (positive_unique pgids) started
      (started + max 0 timeout)) (tick s) = Some (r, s')"
    by (simp add: wait_for_quiescence_def observe_def started_def)
  then have "waited H (positive_unique pids) (positive_unique pgids) (tick s) r s'"
    by (rule poll_rule) (blast intro: wait_turn_waited waited_later quiet_trans quiet_tick wait_turn_undecided(1))+
  then show ?thesis by (rule waited_later) simp
qed

lemma wait_for_quiescence_returns:
  "clock_advances H \<Longrightarrow> \<exists>r s'. wait_for_quiescence H pids pgids timeout s = Some (r, s')"
  by (auto simp: wait_for_quiescence_def observe_def intro: poll_returns wait_turn_undecided(2))

lemma positive_unique_one [simp]: "0 < v \<Longrightarrow> positive_unique [Some v] = [v]" "positive_unique [] = []"
  by (simp_all add: positive_unique_def List.map_filter_def pid_int_def)

section \<open>Identity checks and signals\<close>

text \<open>
  What must be seen before a group is signalled: the recorded birth identity (or the recorded start ticks
  when no identity is recorded), or, where the caller allows it, the group outliving its dead leader; any
  observation does when the caller requires no identity.
\<close>

definition evidence :: "term_request \<Rightarrow> int \<Rightarrow> snapshot \<Rightarrow> bool" where
  "evidence q v n \<longleftrightarrow> \<not> tq_require_identity q
     \<or> (case tq_expected_identity q of
        Some e \<Rightarrow> identity_at q n = Some e
      | None \<Rightarrow> ticks_at q n \<noteq> None \<and> ticks_at q n = pid_int (tq_expected_ticks q))
     \<or> (tq_group_continuity q \<and> pid_int (tq_identity_pid q) = Some v \<and> sn_group n v)"

lemma identity_failure_evidence:
  assumes "identity_failure H q v mode s = ((failure, m), s')"
  shows "quiet s s'" and "failure = None \<Longrightarrow> tq_require_identity q \<Longrightarrow> seen H s s' (evidence q v)"
    and "\<And>f. failure = Some f \<Longrightarrow> \<not> tr_term_sent f \<and> \<not> tr_kill_sent f
           \<and> tr_status f \<in> {''identity_mismatch'', ''identity_unavailable''}"
proof -
  show "quiet s s'"
    using assms by (auto simp: identity_failure_def Let_def observe_def quiet_def tick_def split: if_split_asm)
  show "\<And>f. failure = Some f \<Longrightarrow> \<not> tr_term_sent f \<and> \<not> tr_kill_sent f
      \<and> tr_status f \<in> {''identity_mismatch'', ''identity_unavailable''}"
    using assms by (auto simp: identity_failure_def Let_def observe_def identity_failed_def split: if_split_asm)
  assume n: "failure = None" "tq_require_identity q"
  define n0 where "n0 = H (rs_time s)"
  define ti where "ti = (if tq_expected_identity q = None then (ticks_at q n0, None) else (None, identity_at q n0))"
  show "seen H s s' (evidence q v)"
  proof (cases "identity_unavailable q (fst ti) (snd ti)")
    case True
    with n assms have "tq_group_continuity q \<and> pid_int (tq_identity_pid q) = Some v
        \<and> sn_group (H (Suc (rs_time s))) v \<and> rs_time s' = Suc (Suc (rs_time s))"
      by (auto simp: identity_failure_def Let_def observe_def tick_def ti_def n0_def split: if_split_asm)
    then show ?thesis unfolding seen_def evidence_def by (intro exI [of _ "Suc (rs_time s)"]) simp
  next
    case False
    with n assms have m: "\<not> identity_mismatch q (fst ti) (snd ti)" "rs_time s' = Suc (rs_time s)"
      by (auto simp: identity_failure_def Let_def observe_def tick_def ti_def n0_def split: if_split_asm)
    have "evidence q v n0"
      using False m(1) unfolding evidence_def identity_unavailable_def identity_mismatch_def ti_def
      by (cases "tq_expected_identity q") auto
    with m(2) show ?thesis unfolding seen_def n0_def by (intro exI [of _ "rs_time s"]) simp
  qed
qed

lemma signal_sends: "0 < v \<Longrightarrow> signal_process_group H (Some v) sig s = (res, s') \<Longrightarrow> sends s v sig s'"
  by (auto simp: signal_process_group_def pid_int_def Let_def observe_def killpg_def tick_def sends_def quiet_def
      split: if_split_asm)

lemma signal_failed_quiet: "signal_failed H v b e s = (r, s') \<Longrightarrow> quiet s s'
    \<and> tr_status r = ''signal_failed''"
  by (auto simp: signal_failed_def Let_def observe_def)

lemma signal_accepted: "0 < v \<Longrightarrow> signal_process_group H (Some v) sig s = (Inr b, s')
    \<Longrightarrow> \<exists>t. rs_time s \<le> t \<and> t < rs_time s' \<and> rs_signals s' = rs_signals s @ [(t, v, sig)]"
  by (auto simp: signal_process_group_def pid_int_def Let_def observe_def killpg_def tick_def
      split: if_split_asm)

section \<open>Termination\<close>

lemma kill_group_sends:
  assumes "kill_group H q v b mode s = Some (r, s')" and "0 < v"
  obtains "quiet s s'"
    | s1 where "quiet s s1" "tq_require_identity q \<longrightarrow> seen H s s1 (evidence q v)" "sends s1 v SIGKILL s'"
proof -
  obtain failure m s1 where f: "identity_failure H q v mode s = ((failure, m), s1)"
    by (metis prod.exhaust)
  note ev = identity_failure_evidence [OF f]
  show ?thesis
  proof (cases failure)
    case (Some x)
    with assms(1) f have "s' = s1" by (simp add: kill_group_def)
    with ev(1) show ?thesis using that(1) by simp
  next
    case None
    obtain res s2 where g: "signal_process_group H (Some v) SIGKILL s1 = (res, s2)" by (rule prod.exhaust)
    have "quiet s2 s'"
      using assms(1) f None g
      by (auto simp: kill_group_def split: sum.split_asm bind_split_asm
          dest!: signal_failed_quiet wait_for_quiescence_waited simp: waited_def)
    from sends_quiet [OF signal_sends [OF assms(2) g] this] ev(1) ev(2) [OF None]
    show ?thesis using that(2) by blast
  qed
qed

lemma kill_group_quiescent:
  assumes "kill_group H q v b mode s = Some (r, s')" and "tr_status r = ''quiescent''" and "0 < v"
  shows "\<exists>s1. later s s1 \<and> quiet s1 s' \<and> seen H s1 s' (\<lambda>n. \<not> sn_group n v)"
proof -
  obtain failure m s1 where f: "identity_failure H q v mode s = ((failure, m), s1)"
    by (metis prod.exhaust)
  note ev = identity_failure_evidence [OF f]
  obtain res s2 where g: "signal_process_group H (Some v) SIGKILL s1 = (res, s2)" by (rule prod.exhaust)
  have l: "later s s2"
    using ev(1) sends_later [OF signal_sends [OF assms(3) g]] quiet_later later_trans by blast
  from assms(1,2) f g obtain final where "wait_for_quiescence H [] [Some v] (tq_kill_grace q) s2 = Some (final, s')"
    "wr_quiescent final"
    using ev(3) by (auto simp: kill_group_def term_report_def split: option.split_asm sum.split_asm
        bind_split_asm if_split_asm dest!: signal_failed_quiet)
  from wait_for_quiescence_waited [OF this(1)] this(2) l assms(3) show ?thesis
    by (auto simp: waited_def)
qed

lemma kill_group_status:
  assumes "kill_group H q v b mode s = Some (r, s')"
  shows "tr_status r \<noteq> ''already_quiescent''"
proof -
  obtain failure m s1 where f: "identity_failure H q v mode s = ((failure, m), s1)"
    by (metis prod.exhaust)
  from identity_failure_evidence(3) [OF f] assms f show ?thesis
    by (auto simp: kill_group_def Let_def term_report_def split: option.split_asm prod.split_asm sum.split_asm
        bind_split_asm if_split_asm dest!: signal_failed_quiet)
qed

text \<open>
  The stages of a termination: it ends before any signal, fails on \<open>SIGTERM\<close>, finds the group gone after
  \<open>SIGTERM\<close>, or goes on to \<open>SIGKILL\<close>.
\<close>

lemma terminate_stages:
  assumes t: "terminate_process_group H q pgid s = Some (r, s')"
  obtains (none) "pid_int pgid = None" "s' = s"
    | (gone) v where "pid_int pgid = Some v" "quiet s s'" "seen H s s' (\<lambda>n. \<not> sn_group n v)"
    | (refused) v where "pid_int pgid = Some v" "quiet s s'"
        "tr_status r \<notin> {''quiescent'', ''already_quiescent''}"
    | (failed) v s1 where "pid_int pgid = Some v" "quiet s s1" "sends s1 v SIGTERM s'"
        "seen H s s1 (evidence q v)" "tr_status r = ''signal_failed''"
    | (ended) v s1 u s2 where "pid_int pgid = Some v" "quiet s s1"
        "seen H s s1 (evidence q v)"
        "rs_signals s2 = rs_signals s1 @ [(u, v, SIGTERM)]" "rs_time s1 \<le> u" "u < rs_time s2" "quiet s2 s'"
        "seen H s2 s' (\<lambda>n. \<not> sn_group n v)"
    | (kill) v s1 u s2 s3 b m where "pid_int pgid = Some v" "quiet s s1"
        "seen H s s1 (evidence q v)"
        "rs_signals s2 = rs_signals s1 @ [(u, v, SIGTERM)]" "rs_time s1 \<le> u" "u < rs_time s2" "quiet s2 s3"
        "rs_time s2 < rs_time s3" "kill_group H q v b m s3 = Some (r, s')"
proof (cases "pid_int pgid")
  case None
  with t show ?thesis using none by (simp add: terminate_process_group_def)
next
  case (Some v)
  then have v: "0 < v" by (auto simp: pid_int_def split: option.split_asm if_split_asm)
  obtain live s0 where o0: "observe H (\<lambda>n. sn_group n v) s = (live, s0)" by (rule prod.exhaust)
  show ?thesis
  proof (cases live)
    case False
    with t Some o0 have "s' = s0" by (simp add: terminate_process_group_def)
    with observe_quiet [OF o0] observe_seen [OF o0, of Not] False show ?thesis
      using gone [OF Some] by simp
  next
    case True
    obtain failure m s1 where f: "identity_failure H q v ''not_required'' s0 = ((failure, m), s1)"
      by (metis prod.exhaust)
    note ev = identity_failure_evidence [OF f]
    have q1: "quiet s s1" using observe_quiet [OF o0] ev(1) quiet_trans by blast
    show ?thesis
    proof (cases failure)
      case (Some x)
      with t \<open>pid_int pgid = Some v\<close> o0 True f have "s' = s1" "r = x" by (simp_all add: terminate_process_group_def)
      with q1 ev(3) [OF Some] show ?thesis using refused [OF \<open>pid_int pgid = Some v\<close>] by auto
    next
      case None
      have e: "seen H s s1 (evidence q v)"
      proof (cases "tq_require_identity q")
        case True
        with ev(2) [OF None] observe_quiet [OF o0] show ?thesis by (auto simp: quiet_def elim!: seen_mono)
      next
        case False
        with o0 ev(1) show ?thesis
          unfolding seen_def by (intro exI [of _ "rs_time s"]) (auto simp: observe_def quiet_def tick_def evidence_def)
      qed
      obtain res s2 where g: "signal_process_group H (Some v) SIGTERM s1 = (res, s2)" by (rule prod.exhaust)
      show ?thesis
      proof (cases res)
        case (Inl err)
        with t Some o0 True f None g have "signal_failed H v False err s2 = (r, s')"
          by (simp add: terminate_process_group_def)
        from signal_failed_quiet [OF this] signal_sends [OF v g] e q1 Some show ?thesis
          using failed [OF Some q1] sends_quiet by blast
      next
        case (Inr b)
        from signal_accepted [OF v g [unfolded Inr]] obtain u where u: "rs_time s1 \<le> u" "u < rs_time s2"
          "rs_signals s2 = rs_signals s1 @ [(u, v, SIGTERM)]" by blast
        from t Some o0 True f None g Inr obtain after s3
          where w: "wait_for_quiescence H [] [Some v] (tq_term_grace q) s2 = Some (after, s3)"
            and k: "if wr_quiescent after then (r, s') = (term_report v b False m after, s3)
                    else kill_group H q v b m s3 = Some (r, s')"
          by (auto simp: terminate_process_group_def split: bind_split_asm if_split_asm)
        from wait_for_quiescence_waited [OF w] v have q3: "quiet s2 s3" "rs_time s2 < rs_time s3"
          "wr_quiescent after \<Longrightarrow> seen H s2 s3 (\<lambda>n. \<not> sn_group n v)" by (simp_all add: waited_def)
        show ?thesis
        proof (cases "wr_quiescent after")
          case True
          with k q3 show ?thesis using ended [OF Some q1 e u(3,1,2)] by simp
        next
          case False
          with k q3(1,2) show ?thesis using kill [OF Some q1 e u(3,1,2)] by simp
        qed
      qed
    qed
  qed
qed

abbreviation group_evidence :: "term_request \<Rightarrow> int option \<Rightarrow> snapshot \<Rightarrow> bool" where
  "group_evidence q pgid \<equiv> (case pid_int pgid of None \<Rightarrow> (\<lambda>_. False) | Some v \<Rightarrow> evidence q v)"

lemma termination_identified:
  assumes "terminate_process_group H q pgid s = Some (r, s')"
  shows "identified_run H (group_evidence q pgid) (pid_int pgid) s s'"
  using assms(1)
proof (cases rule: terminate_stages)
  case (failed v s1)
  then show ?thesis using sends_term_run by simp
next
  case (ended v s1 u s2)
  then show ?thesis using identified_run_term [of s s1 H "evidence q v" s' u v] by (simp add: quiet_def)
next
  case (kill v s1 u s2 s3 b m)
  from kill(1) have v: "0 < v" by (auto simp: pid_int_def split: option.split_asm if_split_asm)
  from kill_group_sends [OF kill(9) v] show ?thesis
  proof cases
    case 1
    with kill show ?thesis using identified_run_term [of s s1 H "evidence q v" s' u v] by (simp add: quiet_def)
  next
    case (2 s4)
    have "seen H s2 s4 (evidence q v)"
    proof (cases "tq_require_identity q")
      case True
      with 2(2) kill(7) show ?thesis by (auto simp: quiet_def elim!: seen_mono)
    next
      case False
      with kill(7,8) 2(1) show ?thesis
        unfolding seen_def by (intro exI [of _ "rs_time s2"]) (auto simp: quiet_def evidence_def)
    qed
    with sends_kill_run [OF kill(2,3,4,5,6) quiet_trans [OF kill(7) 2(1)] _ 2(3)] kill(1) show ?thesis by simp
  qed
qed (simp_all add: identified_run_quiet)

lemma quiescent_group_gone:
  assumes "terminate_process_group H q (Some v) s = Some (r, s')" and "0 < v"
    and "tr_status r \<in> {''quiescent'', ''already_quiescent''}"
  shows "\<exists>s1. later s s1 \<and> quiet s1 s' \<and> seen H s1 s' (\<lambda>n. \<not> sn_group n v)"
proof -
  have pid: "pid_int (Some v) = Some v" using assms(2) by (simp add: pid_int_def)
  from assms(1) show ?thesis
  proof (cases rule: terminate_stages)
    case (gone v')
    with pid show ?thesis by (intro exI [of _ s]) simp
  next
    case (ended v' s1 u s2)
    then have "later s s2" by (auto simp: later_def quiet_def)
    with ended pid show ?thesis by auto
  next
    case (kill v' s1 u s2 s3 b m)
    then have "later s s3" by (auto simp: later_def quiet_def)
    moreover have "tr_status r = ''quiescent'' \<or> tr_status r = ''already_quiescent''" using assms(3) by simp
    moreover have "tr_status r \<noteq> ''already_quiescent''"
      using kill_group_status [OF kill(9)] by auto
    ultimately show ?thesis using kill_group_quiescent [OF kill(9)] pid kill(1) assms(2) later_trans
      by (metis option.inject)
  qed (use assms(3) pid in auto)
qed

lemma termination_total:
  assumes "clock_advances H"
  shows "\<exists>r s'. terminate_process_group H q pgid s = Some (r, s')"
proof -
  define W where "W pids pgids d s = the (wait_for_quiescence H pids pgids d s)" for pids pgids d s
  have W: "wait_for_quiescence H pids pgids d s = Some (W pids pgids d s)" for pids pgids d s
    using wait_for_quiescence_returns [OF assms, of pids pgids d s] by (auto simp: W_def)
  define K where "K v b m s = the (kill_group H q v b m s)" for v b m s
  have K: "kill_group H q v b m s = Some (K v b m s)" for v b m s
    unfolding K_def by (simp add: kill_group_def Let_def W split: prod.split option.split sum.split)
  show ?thesis
    by (auto simp: terminate_process_group_def Let_def W K split: prod.split option.split sum.split)
qed

text \<open>
  The termination of a group is a \<open>terminator\<close>: its targets are pairs of a request and a group.
\<close>

interpretation groups: terminator H "\<lambda>x. terminate_process_group H (fst x) (snd x)" "\<lambda>x. pid_int (snd x)"
  "\<lambda>x. group_evidence (fst x) (snd x)" "\<lambda>r. tr_status r \<in> {''quiescent'', ''already_quiescent''}" for H
proof (unfold_locales, goal_cases)
  case (1 x s r s')
  then show ?case by (rule termination_identified)
next
  case (2 x s r s' v)
  then have "snd x = Some v" "0 < v" by (auto simp: pid_int_def split: option.split_asm if_split_asm)
  with 2 show ?case using quiescent_group_gone [of H "fst x" v s r s'] by simp
next
  case (3 x s)
  with termination_total [OF 3] show ?case by simp
qed

text \<open>C28: \<open>terminate_process_group\<close> sends nothing but \<open>SIGTERM\<close> and then \<open>SIGKILL\<close> to the group it was given,
  each at most once, and before each of them, after the signal before it, the code has seen its evidence:
  the recorded birth identity (or start ticks) at the identity PID, or, where the caller allows it, the
  group outliving its leader.  This holds against any history of the operating system, PID reuse included.
\<close>

theorem termination_signals_identified:
  assumes "terminate_process_group H q pgid s = Some (r, s')"
  shows "identified_run H (group_evidence q pgid) (pid_int pgid) s s'"
  using groups.stop_identified [of H "(q, pgid)" s r s', unfolded fst_conv snd_conv, OF assms] .

text \<open>A stubborn leader: it survives \<open>SIGTERM\<close> past the grace period and is gone after \<open>SIGKILL\<close>.\<close>

definition stubborn_group :: history where
  "stubborn_group t = \<lparr>sn_group = (\<lambda>g. g = 42 \<and> t < 11), sn_identity = (\<lambda>p. Some ''linux-proc:7''),
     sn_ticks = (\<lambda>p. Some 7), sn_alive = (\<lambda>p. p = 42 \<and> t < 11), sn_getpgid = (\<lambda>p. Some p),
     sn_kill = (\<lambda>g sig. K_sent), sn_now = int t * 500, sn_own_group = 9, sn_marker = False, sn_write_error = None\<rparr>"

definition owned_request :: term_request where
  "owned_request = \<lparr>tq_identity_pid = Some 42, tq_expected_identity = Some ''linux-proc:7'',
     tq_expected_ticks = Some 7, tq_require_identity = True, tq_group_continuity = False,
     tq_term_grace = 1000, tq_kill_grace = 1000\<rparr>"

lemma stubborn_run: "map_option (\<lambda>rs. (tr_status (fst rs), rs_signals (snd rs)))
    (terminate_process_group stubborn_group owned_request (Some 42) start_run)
      = Some (''quiescent'', [(3, 42, SIGTERM), (9, 42, SIGKILL)])"
  by code_simp

lemma termination_signals_identified_witness:
  "\<exists>r s'. terminate_process_group stubborn_group owned_request (Some 42) start_run = Some (r, s')
     \<and> rs_signals s' = [(3, 42, SIGTERM), (9, 42, SIGKILL)]
     \<and> identified_run stubborn_group (group_evidence owned_request (Some 42)) (pid_int (Some 42)) start_run s'"
  using stubborn_run termination_signals_identified [of stubborn_group owned_request "Some 42" start_run]
  by (auto simp: owned_request_def)

text \<open>A report of quiescence is about the group and not about the signals: whenever the status is
  \<open>quiescent\<close> or \<open>already_quiescent\<close>, the group was observed to be gone, after the last signal the call
  sent.
\<close>

theorem quiescent_reports_are_observed:
  assumes "terminate_process_group H q (Some v) s = Some (r, s')" and "0 < v"
    and "tr_status r \<in> {''quiescent'', ''already_quiescent''}"
  shows "\<exists>s1. later s s1 \<and> quiet s1 s' \<and> seen H s1 s' (\<lambda>n. \<not> sn_group n v)"
  using groups.stop_verified [of H "(q, Some v)" s r s' v] assms by (simp add: pid_int_def)

lemma quiescent_reports_are_observed_witness:
  "\<exists>r s' s1. terminate_process_group stubborn_group owned_request (Some 42) start_run = Some (r, s')
     \<and> later start_run s1 \<and> quiet s1 s' \<and> seen stubborn_group s1 s' (\<lambda>n. \<not> sn_group n 42)"
  using stubborn_run quiescent_reports_are_observed [of stubborn_group owned_request 42 start_run]
  by fastforce

text \<open>C34: \<open>terminate_process_group\<close> returns a report whenever the monotonic clock eventually passes every
  deadline, whatever the group, its identity and the other processes do: the waiting loops end.
\<close>

theorem termination_returns:
  assumes "clock_advances H"
  shows "\<exists>r s'. terminate_process_group H q pgid s = Some (r, s')"
  using groups.stop_returns [OF assms, of "(q, pgid)" s] by auto

lemma termination_returns_witness:
  "clock_advances stubborn_group
     \<and> (\<exists>r s'. terminate_process_group stubborn_group owned_request (Some 42) start_run = Some (r, s'))"
proof -
  have "clock_advances stubborn_group"
    unfolding clock_advances_def
  proof
    fix d
    have "\<forall>t \<ge> nat d. d \<le> sn_now (stubborn_group t)" by (auto simp: stubborn_group_def)
    then show "\<exists>t0. \<forall>t \<ge> t0. d \<le> sn_now (stubborn_group t)" ..
  qed
  with termination_returns [of stubborn_group owned_request "Some 42" start_run] show ?thesis by blast
qed

end
