(* ===== verification/Owned_Processes.thy ===== *)
theory Owned_Processes
  imports Process_Groups_Props
begin

text \<open>
  Owned processes of \<open>hol_workbench/process_groups.py\<close>: an owned process and its termination, and the set
  that owns processes until validated readiness transfers them.  What the operating system and the caller
  decide is an argument: the process that \<open>popen\<close> returns, an exception while its identity is captured, an
  exception while its ownership file is written.  Files are the map of the ownership directory, from PID
  to the transferred flag; closed handles are logged.
\<close>

record proc_identity =
  pi_pid :: int
  pi_pgid :: int
  pi_birth :: "string option"
  pi_ticks :: "int option"

text \<open>Objects are compared by identity (\<open>eq=False\<close>), which \<open>ow_object\<close> stands for.\<close>

record owned =
  ow_object :: nat
  ow_identity :: proc_identity
  ow_handles :: "int list"

record term_receipt =
  rc_status :: string
  rc_pid :: int
  rc_pgid :: int
  rc_term_sent :: bool
  rc_kill_sent :: bool
  rc_verified :: bool
  rc_survivor_pids :: "int list"
  rc_survivor_pgids :: "int list"
  rc_errors :: "string list"
  rc_expected :: "string option"
  rc_actual :: "string option"

abbreviation ow_pid :: "owned \<Rightarrow> int" where "ow_pid p \<equiv> pi_pid (ow_identity p)"
abbreviation ow_pgid :: "owned \<Rightarrow> int" where "ow_pgid p \<equiv> pi_pgid (ow_identity p)"

text \<open>\<open>popen_alive\<close> is \<open>process.poll() is None\<close>.\<close>

definition popen_alive :: "history \<Rightarrow> owned \<Rightarrow> run_state \<Rightarrow> bool \<times> run_state" where
  "popen_alive H p = observe H (\<lambda>n. sn_alive n (ow_pid p))"

definition group_alive :: "history \<Rightarrow> int \<Rightarrow> run_state \<Rightarrow> bool \<times> run_state" where
  "group_alive H g s = (case pid_int (Some g) of None \<Rightarrow> (False, s) | Some v \<Rightarrow> observe H (\<lambda>n. sn_group n v) s)"

definition birth_identity :: "history \<Rightarrow> int \<Rightarrow> run_state \<Rightarrow> string option \<times> run_state" where
  "birth_identity H p s =
     (case pid_int (Some p) of None \<Rightarrow> (None, s) | Some v \<Rightarrow> observe H (\<lambda>n. sn_identity n v) s)"

definition start_ticks :: "history \<Rightarrow> int \<Rightarrow> run_state \<Rightarrow> int option \<times> run_state" where
  "start_ticks H p s =
     (case pid_int (Some p) of None \<Rightarrow> (None, s) | Some v \<Rightarrow> observe H (\<lambda>n. sn_ticks n v) s)"

section \<open>An owned process\<close>

definition require_live :: "history \<Rightarrow> owned \<Rightarrow> run_state \<Rightarrow> (string + unit) \<times> run_state" where
  "require_live H p s =
     (let (live, s) = popen_alive H p s
      in if \<not> live then (Inl ''OwnedProcessReadinessError: exited before readiness transfer'', s)
         else let (actual, s) = birth_identity H (ow_pid p) s
              in if pi_birth (ow_identity p) = None \<or> actual \<noteq> pi_birth (ow_identity p)
                 then (Inl ''OwnedProcessReadinessError: birth identity changed or is unavailable'', s)
                 else (Inr (), s))"

definition receipt :: "history \<Rightarrow> owned \<Rightarrow> string \<Rightarrow> bool \<Rightarrow> bool \<Rightarrow> string option \<Rightarrow> string list \<Rightarrow> run_state
    \<Rightarrow> term_receipt \<times> run_state" where
  "receipt H p status term_sent kill_sent actual errors s =
     (let (process_live, s) = popen_alive H p s;
          (group_live, s) = group_alive H (ow_pgid p) s
      in (\<lparr>rc_status = status, rc_pid = ow_pid p, rc_pgid = ow_pgid p, rc_term_sent = term_sent,
           rc_kill_sent = kill_sent, rc_verified = (\<not> process_live \<and> \<not> group_live),
           rc_survivor_pids = (if process_live then [ow_pid p] else []),
           rc_survivor_pgids = (if group_live then [ow_pgid p] else []), rc_errors = errors,
           rc_expected = pi_birth (ow_identity p), rc_actual = actual\<rparr>, s))"

definition owned_identity_failure :: "history \<Rightarrow> owned \<Rightarrow> bool \<Rightarrow> bool \<Rightarrow> run_state \<Rightarrow> term_receipt option \<times> run_state" where
  "owned_identity_failure H p require_identity term_sent s =
     (let (process_live, s) = popen_alive H p s
      in if \<not> require_identity \<or> \<not> process_live then (None, s)
         else let (actual, s) = birth_identity H (ow_pid p) s
              in if pi_birth (ow_identity p) \<noteq> None \<and> actual = pi_birth (ow_identity p) then (None, s)
                 else let (r, s) = receipt H p (if actual \<noteq> None then ''identity_mismatch'' else ''identity_unavailable'')
                                     term_sent False actual [] s
                      in (Some r, s))"

definition owned_signal :: "history \<Rightarrow> owned \<Rightarrow> proc_signal \<Rightarrow> run_state \<Rightarrow> (bool \<times> string option) \<times> run_state" where
  "owned_signal H p sig s =
     (let (res, s) = signal_process_group H (Some (ow_pgid p)) sig s
      in (case res of Inr sent \<Rightarrow> (sent, None) | Inl e \<Rightarrow> (False, Some e), s))"

text \<open>\<open>process.wait(timeout)\<close> is one step of time.\<close>

definition wait_for_group :: "history \<Rightarrow> owned \<Rightarrow> int \<Rightarrow> run_state \<Rightarrow> (wait_result \<times> run_state) option" where
  "wait_for_group H p timeout s =
     (let (now, s) = observe H sn_now s;
          deadline = now + max 0 timeout;
          (live, s) = popen_alive H p s;
          s = (if live then tick s else s);
          (now, s) = observe H sn_now s;
          (live, s) = popen_alive H p s
      in wait_for_quiescence H (if live then [Some (ow_pid p)] else []) [Some (ow_pgid p)]
           (max 0 (deadline - now)) s)"

definition owned_kill :: "history \<Rightarrow> owned \<Rightarrow> int \<Rightarrow> bool \<Rightarrow> bool \<Rightarrow> string option \<Rightarrow> run_state
    \<Rightarrow> (term_receipt \<times> run_state) option" where
  "owned_kill H p kill_grace require_identity term_sent actual s =
     (let (failure, s) = owned_identity_failure H p require_identity term_sent s
      in case failure of
           Some f \<Rightarrow> Some (f, s)
         | None \<Rightarrow>
             let ((kill_sent, err), s) = owned_signal H p SIGKILL s
             in case err of
                  Some e \<Rightarrow> Some (receipt H p ''signal_failed'' term_sent False actual [e] s)
                | None \<Rightarrow> do {
                    (final, s) \<leftarrow> wait_for_group H p kill_grace s;
                    Some (receipt H p (if wr_quiescent final then ''quiescent'' else ''survivors'')
                            term_sent kill_sent actual [] s)
                  })"

definition owned_terminate :: "history \<Rightarrow> owned \<Rightarrow> int \<Rightarrow> int \<Rightarrow> bool \<Rightarrow> run_state \<Rightarrow> (term_receipt \<times> run_state) option" where
  "owned_terminate H p term_grace kill_grace require_identity s =
     (let (process_live, s) = popen_alive H p s;
          (group_live, s) = group_alive H (ow_pgid p) s
      in if \<not> process_live \<and> \<not> group_live then Some (receipt H p ''already_quiescent'' False False None [] s)
         else let (failure, s) = owned_identity_failure H p require_identity False s
         in case failure of
              Some f \<Rightarrow> Some (f, s)
            | None \<Rightarrow>
                let actual = (if process_live then pi_birth (ow_identity p) else None);
                    ((term_sent, err), s) = owned_signal H p SIGTERM s
                in case err of
                     Some e \<Rightarrow> Some (receipt H p ''signal_failed'' False False actual [e] s)
                   | None \<Rightarrow> do {
                       (after, s) \<leftarrow> wait_for_group H p term_grace s;
                       if wr_quiescent after then Some (receipt H p ''quiescent'' term_sent False actual [] s)
                       else owned_kill H p kill_grace require_identity term_sent actual s
                     })"

section \<open>The set of owned processes\<close>

record owned_set =
  os_owned :: "owned list"
  os_next :: nat
  os_files :: "(int, bool) map"
  os_closed :: "int list"
  os_receipts :: "term_receipt list"

definition empty_set :: owned_set where
  "empty_set = \<lparr>os_owned = [], os_next = 0, os_files = Map.empty, os_closed = [], os_receipts = []\<rparr>"

definition close_handles :: "owned \<Rightarrow> owned_set \<Rightarrow> owned_set" where
  "close_handles p st = st\<lparr>os_closed := os_closed st @ rev (ow_handles p)\<rparr>"

text \<open>An exception while the ownership file is written leaves the file as it was (the write is atomic).\<close>

definition write_ownership :: "string option \<Rightarrow> owned \<Rightarrow> bool \<Rightarrow> owned_set \<Rightarrow> (string + unit) \<times> owned_set" where
  "write_ownership failure p transferred st =
     (case failure of Some e \<Rightarrow> (Inl e, st)
      | None \<Rightarrow> (Inr (), st\<lparr>os_files := (os_files st)(ow_pid p \<mapsto> transferred)\<rparr>))"

text \<open>\<open>unlink\<close> may raise, other than for a missing file.\<close>

definition remove_ownership :: "string option \<Rightarrow> proc_identity \<Rightarrow> owned_set \<Rightarrow> (string + unit) \<times> owned_set" where
  "remove_ownership failure i st =
     (case failure of Some e \<Rightarrow> (Inl e, st)
      | None \<Rightarrow> (Inr (), st\<lparr>os_files := (os_files st)(pi_pid i := None)\<rparr>))"

definition same_object :: "owned \<Rightarrow> owned \<Rightarrow> bool" where
  "same_object p q \<longleftrightarrow> ow_object p = ow_object q"

fun remove_owned :: "owned \<Rightarrow> owned list \<Rightarrow> owned list" where
  "remove_owned p [] = []"
| "remove_owned p (q # qs) = (if same_object p q then qs else q # remove_owned p qs)"

text \<open>
  What a spawn meets: the \<open>start_new_session\<close> argument, \<open>popen\<close>'s PID or exception, the handles of the
  caller and of the process, and the exceptions above.
\<close>

record spawn_env =
  sp_new_session :: "bool option"
  sp_popen :: "string + int"
  sp_handles :: "int list"
  sp_process_handles :: "int list"
  sp_capture_error :: "string option"
  sp_write_error :: "string option"
  sp_term_grace :: int
  sp_kill_grace :: int

definition spawn_registered :: "history \<Rightarrow> spawn_env \<Rightarrow> owned \<Rightarrow> owned_set \<Rightarrow> run_state
    \<Rightarrow> ((string + owned) \<times> owned_set \<times> run_state) option" where
  "spawn_registered H env p st s =
     (let st = st\<lparr>os_owned := os_owned st @ [p]\<rparr>;
          (written, st) = write_ownership (sp_write_error env) p False st
      in case written of
           Inr _ \<Rightarrow> Some (Inr p, st, s)
         | Inl e \<Rightarrow> do {
             (r, s) \<leftarrow> owned_terminate H p (sp_term_grace env) (sp_kill_grace env) True s;
             let st = close_handles p st;
                 st = st\<lparr>os_owned := remove_owned p (os_owned st)\<rparr>
             in Some (Inl (if rc_verified r then e else ''OwnedProcessCleanupError''), st, s)
           })"

definition spawn_captured :: "history \<Rightarrow> spawn_env \<Rightarrow> owned \<Rightarrow> owned_set \<Rightarrow> run_state
    \<Rightarrow> ((string + owned) \<times> owned_set \<times> run_state) option" where
  "spawn_captured H env p st s =
     (if pi_birth (ow_identity p) \<noteq> None then spawn_registered H env p st s
      else let (live, s) = popen_alive H p s;
               (group_live, s) = (if live then (True, s) else group_alive H (ow_pgid p) s)
           in if \<not> group_live then Some (Inr p, st\<lparr>os_owned := os_owned st @ [p]\<rparr>, s)
              else do {
                (r, s) \<leftarrow> owned_terminate H p (sp_term_grace env) (sp_kill_grace env) False s;
                Some (Inl (''OwnedProcessReadinessError: could not capture birth identity; cleanup='' @ rc_status r),
                      close_handles p st, s)
              })"

definition spawn_handles :: "spawn_env \<Rightarrow> int list" where
  "spawn_handles env = sp_handles env @ filter (\<lambda>h. h \<notin> set (sp_handles env)) (sp_process_handles env)"

definition spawn :: "history \<Rightarrow> spawn_env \<Rightarrow> owned_set \<Rightarrow> run_state \<Rightarrow> ((string + owned) \<times> owned_set \<times> run_state) option" where
  "spawn H env st s =
     (if sp_new_session env = Some False
      then Some (Inl ''ValueError: owned processes require a new process-group session'', st, s)
      else case sp_popen env of
        Inl e \<Rightarrow> Some (Inl e, st\<lparr>os_closed := os_closed st @ rev (sp_handles env)\<rparr>, s)
      | Inr pid \<Rightarrow>
          let handles = spawn_handles env;
              st = st\<lparr>os_next := os_next st + 1\<rparr>
          in case sp_capture_error env of
               Some e \<Rightarrow>
                 let p = \<lparr>ow_object = os_next st, ow_identity = \<lparr>pi_pid = pid, pi_pgid = pid, pi_birth = None,
                            pi_ticks = None\<rparr>, ow_handles = handles\<rparr>
                 in do {
                   (r, s) \<leftarrow> owned_terminate H p (sp_term_grace env) (sp_kill_grace env) False s;
                   Some (Inl e, close_handles p st, s)
                 }
             | None \<Rightarrow>
                 let (birth, s) = birth_identity H pid s;
                     (ticks, s) = start_ticks H pid s
                 in spawn_captured H env \<lparr>ow_object = os_next st, ow_identity = \<lparr>pi_pid = pid, pi_pgid = pid,
                      pi_birth = birth, pi_ticks = ticks\<rparr>, ow_handles = handles\<rparr> st s)"

text \<open>The validator raises what it returns.\<close>

definition commit :: "history \<Rightarrow> (owned \<Rightarrow> string option) \<Rightarrow> string option \<Rightarrow> owned \<Rightarrow> owned_set \<Rightarrow> run_state
    \<Rightarrow> (string + owned) \<times> owned_set \<times> run_state" where
  "commit H validator write_error p st s =
     (case require_live H p s of
        (Inl e, s) \<Rightarrow> (Inl e, st, s)
      | (Inr _, s) \<Rightarrow>
          (case validator p of
             Some e \<Rightarrow> (Inl e, st, s)
           | None \<Rightarrow>
               (case write_ownership write_error p True st of
                  (Inl e, st) \<Rightarrow> (Inl e, st, s)
                | (Inr _, st) \<Rightarrow>
                    if \<not> list_ex (same_object p) (os_owned st)
                    then (Inl ''OwnedProcessError: process is not owned by this set'', st, s)
                    else (Inr p, st\<lparr>os_owned := remove_owned p (os_owned st)\<rparr>, s))))"

fun commit_each :: "history \<Rightarrow> (owned \<Rightarrow> string option) \<Rightarrow> (owned \<Rightarrow> string option) \<Rightarrow> owned list \<Rightarrow> owned_set
    \<Rightarrow> run_state \<Rightarrow> (string + unit) \<times> owned_set \<times> run_state" where
  "commit_each H validator write_error [] st s = (Inr (), st, s)"
| "commit_each H validator write_error (p # ps) st s =
     (case require_live H p s of
        (Inl e, s) \<Rightarrow> (Inl e, st, s)
      | (Inr _, s) \<Rightarrow>
          (case validator p of
             Some e \<Rightarrow> (Inl e, st, s)
           | None \<Rightarrow>
               (case write_ownership (write_error p) p True st of
                  (Inl e, st) \<Rightarrow> (Inl e, st, s)
                | (Inr _, st) \<Rightarrow> commit_each H validator write_error ps st s)))"

text \<open>\<open>changed\<close> tells whether another thread changed the set meanwhile.\<close>

definition commit_all :: "history \<Rightarrow> (owned \<Rightarrow> string option) \<Rightarrow> (owned \<Rightarrow> string option) \<Rightarrow> bool \<Rightarrow> owned_set
    \<Rightarrow> run_state \<Rightarrow> (string + owned list) \<times> owned_set \<times> run_state" where
  "commit_all H validator write_error changed st s =
     (let ps = os_owned st
      in case commit_each H validator write_error ps st s of
           (Inl e, st, s) \<Rightarrow> (Inl e, st, s)
         | (Inr _, st, s) \<Rightarrow>
             if changed then (Inl ''OwnedProcessError: owned process set changed during readiness transfer'', st, s)
             else (Inr ps, st\<lparr>os_owned := []\<rparr>, s))"

text \<open>
  What a cleanup meets: an exception out of the termination of a process, before it sent a signal, and an exception out
  of the removal of an ownership file.
\<close>

record cleanup_env =
  ce_terminate :: "owned \<Rightarrow> string option"
  ce_unlink :: "proc_identity \<Rightarrow> string option"

definition cleanup_terminate :: "history \<Rightarrow> cleanup_env \<Rightarrow> int \<Rightarrow> int \<Rightarrow> owned \<Rightarrow> run_state
    \<Rightarrow> (term_receipt \<times> run_state) option" where
  "cleanup_terminate H env term_grace kill_grace p s =
     (case ce_terminate env p of
        None \<Rightarrow> owned_terminate H p term_grace kill_grace True s
      | Some e \<Rightarrow> Some (receipt H p ''cleanup_error'' False False None [e] s))"

text \<open>The exception of a removal leaves the loop.\<close>

fun cleanup_each :: "history \<Rightarrow> cleanup_env \<Rightarrow> int \<Rightarrow> int \<Rightarrow> owned list \<Rightarrow> owned_set \<Rightarrow> run_state
    \<Rightarrow> ((string + term_receipt list) \<times> owned_set \<times> run_state) option" where
  "cleanup_each H env term_grace kill_grace [] st s = Some (Inr [], st, s)"
| "cleanup_each H env term_grace kill_grace (p # ps) st s = do {
     (r, s) \<leftarrow> cleanup_terminate H env term_grace kill_grace p s;
     let st = close_handles p st;
         (removed, st) = (if rc_verified r then remove_ownership (ce_unlink env (ow_identity p)) (ow_identity p) st
                          else (Inr (), st))
     in case removed of
          Inl e \<Rightarrow> Some (Inl e, st, s)
        | Inr _ \<Rightarrow> do {
            (rs, st, s) \<leftarrow> cleanup_each H env term_grace kill_grace ps st s;
            Some (map_sum id ((#) r) rs, st, s)
          }
   }"

definition cleanup :: "history \<Rightarrow> cleanup_env \<Rightarrow> int \<Rightarrow> int \<Rightarrow> owned_set \<Rightarrow> run_state
    \<Rightarrow> ((string + term_receipt list) \<times> owned_set \<times> run_state) option" where
  "cleanup H env term_grace kill_grace st s = do {
     (rs, st, s) \<leftarrow> cleanup_each H env term_grace kill_grace (rev (os_owned st)) (st\<lparr>os_owned := []\<rparr>) s;
     Some (rs, (case rs of Inl _ \<Rightarrow> st | Inr rs \<Rightarrow> st\<lparr>os_receipts := rs\<rparr>), s)
   }"

text \<open>Leaving the \<open>with\<close> block: the error raised, given the exception that was on its way.\<close>

definition exit_set :: "history \<Rightarrow> cleanup_env \<Rightarrow> int \<Rightarrow> int \<Rightarrow> string option \<Rightarrow> owned_set \<Rightarrow> run_state
    \<Rightarrow> (string option \<times> owned_set \<times> run_state) option" where
  "exit_set H env term_grace kill_grace exc st s = do {
     (rs, st, s) \<leftarrow> cleanup H env term_grace kill_grace st s;
     Some (case rs of
             Inl e \<Rightarrow> Some e
           | Inr rs \<Rightarrow> if exc = None \<and> list_ex (\<lambda>r. \<not> rc_verified r) rs then Some ''OwnedProcessCleanupError'' else exc,
           st, s)
   }"

end
