(* ===== verification/Owned_Processes_Props.thy ===== *)
theory Owned_Processes_Props
  imports Owned_Processes
begin

text \<open>
  What the owned-process code guarantees: a termination is a \<open>terminator\<close> (\<open>Process_Evidence\<close>), and the
  set's cleanup is its fold over the owned processes, latest first.
\<close>

section \<open>Observations\<close>

lemma popen_alive_seen: "popen_alive H p s = (b, s') \<Longrightarrow> quiet s s' \<and> rs_time s < rs_time s'
    \<and> seen H s s' (\<lambda>n. sn_alive n (ow_pid p) = b)"
  by (auto simp: popen_alive_def observe_def quiet_def seen_def tick_def)

lemma group_alive_quiet: "group_alive H g s = (b, s') \<Longrightarrow> quiet s s'"
  by (auto simp: group_alive_def split: option.split_asm dest: observe_quiet)

lemma group_alive_gone: "group_alive H g s = (False, s') \<Longrightarrow> pid_int (Some g) = Some v
    \<Longrightarrow> seen H s s' (\<lambda>n. \<not> sn_group n v)"
  by (auto simp: group_alive_def observe_def seen_def tick_def split: option.split_asm)

lemma birth_identity_seen: "birth_identity H p s = (Some i, s') \<Longrightarrow> seen H s s' (\<lambda>n. sn_identity n p = Some i)"
  by (auto simp: birth_identity_def pid_int_def observe_def seen_def tick_def split: if_split_asm)

lemma birth_identity_quiet: "birth_identity H p s = (i, s') \<Longrightarrow> quiet s s'"
  by (auto simp: birth_identity_def split: option.split_asm dest: observe_quiet)

lemma receipt_observed:
  assumes "receipt H p status ts ks actual errs s = (r, s')"
  shows "quiet s s'" and "rc_verified r \<Longrightarrow> pid_int (Some (ow_pgid p)) = Some v \<Longrightarrow> seen H s s' (\<lambda>n. \<not> sn_group n v)"
    and "rc_status r = status" and "rc_pid r = ow_pid p" and "rc_pgid r = ow_pgid p"
proof -
  obtain b s1 where 1: "popen_alive H p s = (b, s1)" by (rule prod.exhaust)
  obtain c s2 where 2: "group_alive H (ow_pgid p) s1 = (c, s2)" by (rule prod.exhaust)
  from assms 1 2 have r: "s' = s2" "rc_verified r = (\<not> b \<and> \<not> c)"
    and "rc_status r = status" "rc_pid r = ow_pid p" "rc_pgid r = ow_pgid p" by (auto simp: receipt_def)
  then show "rc_status r = status" "rc_pid r = ow_pid p" "rc_pgid r = ow_pgid p" by simp_all
  note q = popen_alive_seen [OF 1] group_alive_quiet [OF 2]
  then show "quiet s s'" using r(1) quiet_trans by blast
  show "seen H s s' (\<lambda>n. \<not> sn_group n v)" if "rc_verified r" "pid_int (Some (ow_pgid p)) = Some v"
    using group_alive_gone [of H "ow_pgid p" s1 s2 v] that 2 r q by (auto simp: quiet_def elim!: seen_mono)
qed

section \<open>Evidence\<close>

text \<open>
  Before a group is signalled its leader was seen to have exited, or to carry the birth identity recorded
  when it was spawned; any observation does when the caller requires no identity.
\<close>

definition owned_evidence :: "bool \<Rightarrow> owned \<Rightarrow> snapshot \<Rightarrow> bool" where
  "owned_evidence required p n \<longleftrightarrow> \<not> required \<or> \<not> sn_alive n (ow_pid p)
     \<or> (pi_birth (ow_identity p) \<noteq> None \<and> sn_identity n (ow_pid p) = pi_birth (ow_identity p))"

lemma owned_identity_evidence:
  assumes "owned_identity_failure H p required ts s = (failure, s')"
  shows "quiet s s'" and "failure = None \<Longrightarrow> seen H s s' (owned_evidence required p)"
    and "\<And>r. failure = Some r \<Longrightarrow> rc_verified r \<Longrightarrow> pid_int (Some (ow_pgid p)) = Some v
           \<Longrightarrow> seen H s s' (\<lambda>n. \<not> sn_group n v)"
proof -
  obtain b s1 where 1: "popen_alive H p s = (b, s1)" by (rule prod.exhaust)
  note o1 = popen_alive_seen [OF 1]
  have all: "quiet s s' \<and> (failure = None \<longrightarrow> seen H s s' (owned_evidence required p))
    \<and> (\<forall>r. failure = Some r \<longrightarrow> rc_verified r \<longrightarrow> pid_int (Some (ow_pgid p)) = Some v
           \<longrightarrow> seen H s s' (\<lambda>n. \<not> sn_group n v))"
  proof (cases "\<not> required \<or> \<not> b")
    case True
    with assms 1 have "failure = None" "s' = s1" by (simp_all add: owned_identity_failure_def)
    with o1 True show ?thesis by (auto simp: seen_def owned_evidence_def)
  next
    case False
    obtain i s2 where 2: "birth_identity H (ow_pid p) s1 = (i, s2)" by (rule prod.exhaust)
    note q2 = birth_identity_quiet [OF 2]
    show ?thesis
    proof (cases "pi_birth (ow_identity p) \<noteq> None \<and> i = pi_birth (ow_identity p)")
      case True
      with assms 1 2 False have "failure = None" "s' = s2" by (simp_all add: owned_identity_failure_def)
      moreover obtain x where "i = Some x" using True by auto
      with birth_identity_seen [of H "ow_pid p" s1 x s2] 2 have "seen H s1 s2 (\<lambda>n. sn_identity n (ow_pid p) = i)" by simp
      then have "seen H s s2 (\<lambda>n. sn_identity n (ow_pid p) = i)" using o1 q2 by (auto simp: quiet_def elim!: seen_mono)
      ultimately show ?thesis using True o1 q2 quiet_trans by (auto simp: seen_def owned_evidence_def)
    next
      case id: False
      obtain r s3 where 3: "receipt H p (if i \<noteq> None then ''identity_mismatch'' else ''identity_unavailable'')
          ts False i [] s2 = (r, s3)" by (rule prod.exhaust)
      with assms 1 2 False id have "failure = Some r" "s' = s3" by (auto simp: owned_identity_failure_def)
      moreover have "quiet s s2" using o1 q2 quiet_trans by blast
      ultimately show ?thesis using receipt_observed(1,2) [OF 3] quiet_trans
        by (auto simp: quiet_def elim!: seen_mono)
    qed
  qed
  then show "quiet s s'" and "failure = None \<Longrightarrow> seen H s s' (owned_evidence required p)"
    and "\<And>r. failure = Some r \<Longrightarrow> rc_verified r \<Longrightarrow> pid_int (Some (ow_pgid p)) = Some v
           \<Longrightarrow> seen H s s' (\<lambda>n. \<not> sn_group n v)" by blast+
qed

lemma wait_for_group_quiet:
  assumes "wait_for_group H p timeout s = Some (r, s')"
  shows "quiet s s'"
proof -
  have "quiet s (tick (tick s))" for s by (rule quiet_trans [of _ "tick s"]) simp_all
  with assms show ?thesis
    by (auto simp: wait_for_group_def Let_def popen_alive_def observe_def waited_def
        dest!: wait_for_quiescence_waited split: if_split_asm)
      (auto simp: quiet_def tick_def)
qed

lemma owned_signal_sends:
  assumes "owned_signal H p sig s = ((b, err), s')"
  shows "case pid_int (Some (ow_pgid p)) of None \<Rightarrow> s' = s | Some v \<Rightarrow> sends s v sig s'
     \<and> (err = None \<longrightarrow> (\<exists>t. rs_time s \<le> t \<and> t < rs_time s' \<and> rs_signals s' = rs_signals s @ [(t, v, sig)]))"
proof -
  obtain res s1 where 1: "signal_process_group H (Some (ow_pgid p)) sig s = (res, s1)" by (rule prod.exhaust)
  with assms have s1: "s' = s1" "err = None \<longleftrightarrow> (\<exists>x. res = Inr x)" by (auto simp: owned_signal_def split: sum.split_asm)
  show ?thesis
  proof (cases "0 < ow_pgid p")
    case True
    with 1 s1 signal_sends [OF True 1] signal_accepted [OF True, of H sig s] show ?thesis
      by (auto simp: pid_int_def)
  next
    case False
    with 1 s1 show ?thesis by (simp add: pid_int_def signal_process_group_def)
  qed
qed

section \<open>Termination\<close>

abbreviation ow_group :: "owned \<Rightarrow> int option" where "ow_group p \<equiv> pid_int (Some (ow_pgid p))"

definition sends_to :: "int option \<Rightarrow> run_state \<Rightarrow> proc_signal \<Rightarrow> run_state \<Rightarrow> bool" where
  "sends_to g s sig s' \<longleftrightarrow> (case g of None \<Rightarrow> quiet s s' | Some v \<Rightarrow> sends s v sig s')"

definition truthful :: "history \<Rightarrow> owned \<Rightarrow> run_state \<Rightarrow> term_receipt \<Rightarrow> run_state \<Rightarrow> bool" where
  "truthful H p s r s' \<longleftrightarrow> (\<exists>s1. later s s1 \<and> quiet s1 s'
     \<and> (rc_verified r \<longrightarrow> (\<forall>v. ow_group p = Some v \<longrightarrow> seen H s1 s' (\<lambda>n. \<not> sn_group n v))))"

lemma truthful_later: "later s s1 \<Longrightarrow> truthful H p s1 r s' \<Longrightarrow> truthful H p s r s'"
  unfolding truthful_def by (blast intro: later_trans)

lemma receipt_truthful: "receipt H p status ts ks actual errs s = (r, s') \<Longrightarrow> truthful H p s r s'"
  unfolding truthful_def using receipt_observed(1,2) by (intro exI [of _ s]) simp

lemma identity_truthful: "owned_identity_failure H p required ts s = (Some r, s') \<Longrightarrow> truthful H p s r s'"
  unfolding truthful_def using owned_identity_evidence(1,3) by (intro exI [of _ s]) simp

lemma owned_signal_to: "owned_signal H p sig s = (x, s') \<Longrightarrow> sends_to (ow_group p) s sig s'"
  using owned_signal_sends [of H p sig s "fst x" "snd x" s'] by (auto simp: sends_to_def split: option.split_asm)

lemma sends_to_quiet: "sends_to g s sig s1 \<Longrightarrow> quiet s1 s2 \<Longrightarrow> sends_to g s sig s2"
  by (auto simp: sends_to_def split: option.split_asm intro: sends_quiet quiet_trans)

lemma sends_to_later: "sends_to g s sig s' \<Longrightarrow> later s s'"
  by (auto simp: sends_to_def split: option.split_asm intro: sends_later quiet_later)

lemma owned_kill_run:
  assumes "owned_kill H p kg required ts actual s = Some (r, s')"
  obtains "quiet s s'" "truthful H p s r s'"
    | s1 where "quiet s s1" "seen H s s1 (owned_evidence required p)" "sends_to (ow_group p) s1 SIGKILL s'"
        "truthful H p s r s'"
proof -
  obtain failure s1 where f: "owned_identity_failure H p required ts s = (failure, s1)" by (rule prod.exhaust)
  note ev = owned_identity_evidence [OF f]
  show ?thesis
  proof (cases failure)
    case (Some x)
    with assms f have "r = x" "s' = s1" by (simp_all add: owned_kill_def)
    with ev(1) identity_truthful f Some show ?thesis using that(1) by blast
  next
    case None
    obtain sent err s2 where g: "owned_signal H p SIGKILL s1 = ((sent, err), s2)" by (metis prod.exhaust)
    have "\<exists>s3 st ks errs. quiet s2 s3 \<and> receipt H p st ts ks actual errs s3 = (r, s')"
    proof (cases err)
      case (Some e)
      with assms f None g have "receipt H p ''signal_failed'' ts False actual [e] s2 = (r, s')"
        by (simp add: owned_kill_def)
      then show ?thesis using quiet_refl by blast
    next
      case N: None
      with assms f None g obtain final s3 where "wait_for_group H p kg s2 = Some (final, s3)"
        "receipt H p (if wr_quiescent final then ''quiescent'' else ''survivors'') ts sent actual [] s3 = (r, s')"
        by (auto simp: owned_kill_def split: bind_split_asm)
      with wait_for_group_quiet show ?thesis by blast
    qed
    then obtain s3 st ks errs where r: "quiet s2 s3" "receipt H p st ts ks actual errs s3 = (r, s')" by blast
    note to = owned_signal_to [OF g]
    have "quiet s2 s'" using r(1) receipt_observed(1) [OF r(2)] quiet_trans by blast
    then have "sends_to (ow_group p) s1 SIGKILL s'" by (rule sends_to_quiet [OF to])
    moreover have "later s s3" using ev(1) to r(1) sends_to_later quiet_later later_trans by blast
    ultimately show ?thesis using that(2) ev(1) ev(2) [OF None] receipt_truthful [OF r(2)] truthful_later by blast
  qed
qed

lemma sends_to_term_run:
  "quiet s s1 \<Longrightarrow> seen H s s1 P \<Longrightarrow> sends_to g s1 SIGTERM s' \<Longrightarrow> identified_run H P g s s'"
  by (auto simp: sends_to_def split: option.split_asm
      intro: sends_term_run identified_run_quiet quiet_trans)

lemma terminate_tail:
  assumes q: "quiet s s2" and e: "seen H s s2 (owned_evidence required p)"
    and to: "sends_to (ow_group p) s2 SIGTERM s3" and r: "quiet s3 s4" "receipt H p st ts ks actual errs s4 = (r, s')"
  shows "identified_run H (owned_evidence required p) (ow_group p) s s' \<and> truthful H p s r s'"
proof -
  have "quiet s3 s'" using r(1) receipt_observed(1) [OF r(2)] quiet_trans by blast
  then have "sends_to (ow_group p) s2 SIGTERM s'" by (rule sends_to_quiet [OF to])
  moreover have "later s s4" using q to r(1) sends_to_later quiet_later later_trans by blast
  ultimately show ?thesis
    using sends_to_term_run [OF q e] receipt_truthful [OF r(2)] truthful_later by blast
qed

lemma owned_terminate_run:
  assumes "owned_terminate H p tg kg required s = Some (r, s')"
  shows "identified_run H (owned_evidence required p) (ow_group p) s s' \<and> truthful H p s r s'"
proof -
  obtain b s0 where 1: "popen_alive H p s = (b, s0)" by (rule prod.exhaust)
  obtain c s1 where 2: "group_alive H (ow_pgid p) s0 = (c, s1)" by (rule prod.exhaust)
  have q1: "quiet s s1" using popen_alive_seen [OF 1] group_alive_quiet [OF 2] quiet_trans by blast
  show ?thesis
  proof (cases "\<not> b \<and> \<not> c")
    case True
    with assms 1 2 have r: "receipt H p ''already_quiescent'' False False None [] s1 = (r, s')"
      by (simp add: owned_terminate_def)
    have "quiet s s'" using q1 receipt_observed(1) [OF r] quiet_trans by blast
    then show ?thesis using receipt_truthful [OF r] truthful_later quiet_later [OF q1] identified_run_quiet by blast
  next
    case live: False
    obtain failure s2 where f: "owned_identity_failure H p required False s1 = (failure, s2)" by (rule prod.exhaust)
    note ev = owned_identity_evidence [OF f]
    have q2: "quiet s s2" using q1 ev(1) quiet_trans by blast
    show ?thesis
    proof (cases failure)
      case (Some x)
      with assms 1 2 live f have "r = x" "s' = s2" by (simp_all add: owned_terminate_def)
      with identity_truthful f Some q1 q2 show ?thesis
        using truthful_later [OF quiet_later [OF q1]] identified_run_quiet by blast
    next
      case None
      have e: "seen H s s2 (owned_evidence required p)"
        using ev(2) [OF None] q1 by (auto simp: quiet_def elim!: seen_mono)
      obtain sent err s3 where g: "owned_signal H p SIGTERM s2 = ((sent, err), s3)" by (metis prod.exhaust)
      note to = owned_signal_to [OF g]
      define actual where "actual = (if b then pi_birth (ow_identity p) else None)"
      note tail = terminate_tail [OF q2 e to]
      consider x where "err = Some x" "receipt H p ''signal_failed'' False False actual [x] s3 = (r, s')"
        | after s4 where "wait_for_group H p tg s3 = Some (after, s4)"
            "receipt H p ''quiescent'' sent False actual [] s4 = (r, s')"
        | after s4 where "err = None" "wait_for_group H p tg s3 = Some (after, s4)"
            "owned_kill H p kg required sent actual s4 = Some (r, s')"
        using assms 1 2 live f None g
        by (cases err) (auto simp: owned_terminate_def actual_def Let_def split: bind_split_asm if_split_asm)
      then show ?thesis
      proof cases
        case (1 x)
        from tail [OF quiet_refl this(2)] show ?thesis .
      next
        case (2 after s4)
        from tail [OF wait_for_group_quiet [OF this(1)] this(2)] show ?thesis .
      next
        case (3 after s4)
        note err = 3(1) and w = 3(2) and k = 3(3)
        note q4 = wait_for_group_quiet [OF w]
        have l: "later s s4" using q2 to q4 sends_to_later quiet_later later_trans by blast
        show ?thesis
        proof (cases "ow_group p")
          case N: None
          with to q4 q2 have q: "quiet s s4" by (auto simp: sends_to_def intro: quiet_trans)
          from owned_kill_run [OF k] have "quiet s s' \<and> truthful H p s r s'"
          proof cases
            case 1
            then show ?thesis using quiet_trans [OF q] truthful_later [OF l] by blast
          next
            case (2 s5)
            then have "quiet s5 s'" using N by (simp add: sends_to_def)
            then show ?thesis using 2 quiet_trans [OF q] quiet_trans truthful_later [OF l] by blast
          qed
          then show ?thesis using identified_run_quiet by blast
        next
          case (Some v)
          with owned_signal_sends [OF g] err obtain u where u: "rs_signals s3 = rs_signals s2 @ [(u, v, SIGTERM)]"
            "rs_time s2 \<le> u" "u < rs_time s3" by auto
          from owned_kill_run [OF k] show ?thesis
          proof cases
            case 1
            have "quiet s3 s'" using q4 1(1) quiet_trans by blast
            moreover have "sends s2 v SIGTERM s3" using u by (auto simp: sends_def)
            ultimately have "sends s2 v SIGTERM s'" using sends_quiet by blast
            from sends_term_run [OF q2 e this] truthful_later [OF l 1(2)] Some show ?thesis by simp
          next
            case (2 s5)
            have "seen H s3 s5 (owned_evidence required p)" using 2(2) q4 by (auto simp: quiet_def elim!: seen_mono)
            with sends_kill_run [OF q2 e u quiet_trans [OF q4 2(1)]] 2(3) Some truthful_later [OF l 2(4)]
            show ?thesis by (simp add: sends_to_def)
          qed
        qed
      qed
    qed
  qed
qed

lemma wait_for_group_returns: "clock_advances H \<Longrightarrow> wait_for_group H p d s \<noteq> None"
  using wait_for_quiescence_returns [of H] by (simp add: wait_for_group_def Let_def split: prod.split)

lemma owned_terminate_returns:
  assumes "clock_advances H"
  shows "owned_terminate H p tg kg required s \<noteq> None"
proof -
  define W where "W d s = the (wait_for_group H p d s)" for d s
  have W: "wait_for_group H p d s = Some (W d s)" for d s
    using wait_for_group_returns [OF assms, of p d s] by (auto simp: W_def)
  define K where "K ts actual s = the (owned_kill H p kg required ts actual s)" for ts actual s
  have K: "owned_kill H p kg required ts actual s = Some (K ts actual s)" for ts actual s
    unfolding K_def by (simp add: owned_kill_def Let_def W split: prod.split option.split)
  show ?thesis
    by (auto simp: owned_terminate_def Let_def W K split: prod.split option.split)
qed

interpretation owned_processes: terminator H "\<lambda>p. owned_terminate H p tg kg required" ow_group
  "owned_evidence required" rc_verified for H tg kg required
proof (unfold_locales, goal_cases)
  case (1 p s r s')
  then show ?case using owned_terminate_run by blast
next
  case (2 p s r s' v)
  then show ?case using owned_terminate_run [OF 2(1)] unfolding truthful_def by blast
next
  case (3 p s)
  then show ?case by (rule owned_terminate_returns)
qed

text \<open>The terminator of a cleanup: an exception of a termination is reported in place of its receipt.\<close>

interpretation cleaned_processes: terminator H "cleanup_terminate H env tg kg" ow_group
  "owned_evidence True" rc_verified for H env tg kg
proof (unfold_locales, goal_cases)
  case (1 p s r s')
  then show ?case
    using owned_terminate_run [of H p tg kg True s r s'] receipt_observed(1) [of H p _ _ _ _ _ s r s'] identified_run_quiet
    by (auto simp: cleanup_terminate_def split: option.split_asm)
next
  case (2 p s r s' v)
  then have "truthful H p s r s'"
    using owned_terminate_run [of H p tg kg True s r s'] receipt_truthful [of H p _ _ _ _ _ s r s']
    by (auto simp: cleanup_terminate_def split: option.split_asm)
  with 2 show ?case unfolding truthful_def by blast
next
  case (3 p s)
  then show ?case using owned_terminate_returns by (simp add: cleanup_terminate_def split: option.split)
qed

lemma receipt_pid: "rc_pid (fst (receipt H p status ts ks actual errs s)) = ow_pid p"
  using receipt_observed(4) [of H p status ts ks actual errs s] by (metis prod.collapse)

lemma identity_pid: "owned_identity_failure H p required ts s = (Some r, s') \<Longrightarrow> rc_pid r = ow_pid p"
  by (auto simp: owned_identity_failure_def Let_def split: prod.split_asm if_split_asm dest: receipt_observed(4))

lemma receipt_someD: "Some (receipt H p status ts ks actual errs s) = Some (r, s') \<Longrightarrow> rc_pid r = ow_pid p"
  by (auto dest: receipt_observed(4))

lemma owned_kill_pid: "owned_kill H p kg required ts actual s = Some (r, s') \<Longrightarrow> rc_pid r = ow_pid p"
  by (auto simp: owned_kill_def Let_def split: prod.split_asm option.split_asm bind_split_asm
      dest: identity_pid receipt_observed(4))

lemma owned_terminate_pid: "owned_terminate H p tg kg required s = Some (r, s') \<Longrightarrow> rc_pid r = ow_pid p"
  by (auto simp: owned_terminate_def Let_def split: prod.split_asm option.split_asm bind_split_asm if_split_asm
      dest: identity_pid receipt_observed(4) owned_kill_pid)

section \<open>The set\<close>

text \<open>Cleanup is the fold of the terminator over the owned processes; the rest is bookkeeping.\<close>

definition verified_pids :: "term_receipt list \<Rightarrow> int set" where
  "verified_pids rs = rc_pid ` {r \<in> set rs. rc_verified r}"

lemma cleanup_terminate_pid: "cleanup_terminate H env tg kg p s = Some (r, s') \<Longrightarrow> rc_pid r = ow_pid p"
  by (auto simp: cleanup_terminate_def split: option.split_asm dest: owned_terminate_pid receipt_observed(4))

lemma restrict_UNIV [simp]: "m |` UNIV = m"
  by (simp add: restrict_map_def)

lemma verified_pids_Cons: "verified_pids (r # rs) = (if rc_verified r then {rc_pid r} else {}) \<union> verified_pids rs"
  by (auto simp: verified_pids_def)

text \<open>
  The processes before \<open>rest\<close> were terminated; an exception is that of the removal of the last one's file.
\<close>

definition cleaned :: "cleanup_env \<Rightarrow> owned list \<Rightarrow> owned list \<Rightarrow> term_receipt list \<Rightarrow> (int, bool) map
    \<Rightarrow> string + term_receipt list \<Rightarrow> (int, bool) map \<Rightarrow> bool" where
  "cleaned env stopped rest rs files outcome files' \<longleftrightarrow>
     (case outcome of
        Inr rs' \<Rightarrow> rest = [] \<and> rs' = rs \<and> files' = files |` (- verified_pids rs)
      | Inl e \<Rightarrow> stopped \<noteq> [] \<and> rc_verified (last rs) \<and> ce_unlink env (ow_identity (last stopped)) = Some e
          \<and> files' = files |` (- verified_pids (butlast rs)))"

lemma cleanup_each_stop:
  assumes "cleanup_each H env tg kg ps st s = Some (outcome, st', s')"
  shows "\<exists>stopped rest rs. ps = stopped @ rest \<and> stop_each (cleanup_terminate H env tg kg) stopped s = Some (rs, s')
     \<and> os_owned st' = os_owned st \<and> os_receipts st' = os_receipts st
     \<and> os_closed st' = os_closed st @ concat (List.map (\<lambda>p. rev (ow_handles p)) stopped)
     \<and> List.map rc_pid rs = List.map ow_pid stopped \<and> cleaned env stopped rest rs (os_files st) outcome (os_files st')"
  using assms
proof (induction ps arbitrary: st s outcome)
  case Nil
  then show ?case by (intro exI [of _ "[]"]) (auto simp: cleaned_def verified_pids_def)
next
  case (Cons p ps)
  from Cons.prems obtain r s1 where 1: "cleanup_terminate H env tg kg p s = Some (r, s1)"
    by (auto split: bind_split_asm)
  define st1 where "st1 = close_handles p st"
  define u where "u = ce_unlink env (ow_identity p)"
  note pid = cleanup_terminate_pid [OF 1]
  show ?case
  proof (cases "rc_verified r \<and> u \<noteq> None")
    case True
    then obtain e where e: "u = Some e" by auto
    with Cons.prems 1 True have o: "outcome = Inl e" "st' = st1" "s' = s1"
      by (simp_all add: Let_def remove_ownership_def st1_def u_def)
    show ?thesis
      by (rule exI [of _ "[p]"], rule exI [of _ ps], rule exI [of _ "[r]"])
        (use 1 o e True pid in \<open>simp add: st1_def close_handles_def cleaned_def u_def verified_pids_def\<close>)
  next
    case False
    define st2 where "st2 = (if rc_verified r then st1\<lparr>os_files := (os_files st1)(ow_pid p := None)\<rparr> else st1)"
    have rm: "(if rc_verified r then remove_ownership (ce_unlink env (ow_identity p)) (ow_identity p) (close_handles p st)
        else (Inr (), close_handles p st)) = (Inr (), st2)"
      using False by (auto simp: remove_ownership_def st2_def st1_def u_def)
    from Cons.prems have "cleanup_each H env tg kg ps st2 s1 \<bind> (\<lambda>(rs, st, s). Some (map_sum id ((#) r) rs, st, s))
        = Some (outcome, st', s')"
      by (simp add: Let_def 1 rm)
    then obtain rs0 where 2: "cleanup_each H env tg kg ps st2 s1 = Some (rs0, st', s')"
      and o: "outcome = map_sum id ((#) r) rs0"
      by (auto split: bind_split_asm)
    from Cons.IH [OF 2] obtain stopped rest rs where ih: "ps = stopped @ rest"
      "stop_each (cleanup_terminate H env tg kg) stopped s1 = Some (rs, s')" "os_owned st' = os_owned st2"
      "os_receipts st' = os_receipts st2" "os_closed st' = os_closed st2 @ concat (List.map (\<lambda>p. rev (ow_handles p)) stopped)"
      "List.map rc_pid rs = List.map ow_pid stopped" "cleaned env stopped rest rs (os_files st2) rs0 (os_files st')" by blast
    have files: "os_files st2 |` (- verified_pids xs) = os_files st |` (- verified_pids (r # xs))" for xs
      using pid by (auto simp: st2_def st1_def close_handles_def verified_pids_Cons restrict_map_def fun_eq_iff)
    have "rs \<noteq> []" if "stopped \<noteq> []" using ih(6) that by (metis map_is_Nil_conv)
    then have "cleaned env (p # stopped) rest (r # rs) (os_files st) outcome (os_files st')"
      using ih(7) files o by (cases rs0) (auto simp: cleaned_def)
    then show ?thesis using 1 ih pid
      by (intro exI [of _ "p # stopped"] exI [of _ rest] exI [of _ "r # rs"]) (simp add: st2_def st1_def close_handles_def)
  qed
qed

lemma cleanup_stop:
  assumes "cleanup H env tg kg st s = Some (outcome, st', s')"
  obtains stopped rest rs where "rev (os_owned st) = stopped @ rest"
    "stop_each (cleanup_terminate H env tg kg) stopped s = Some (rs, s')" "os_owned st' = []"
    "os_closed st' = os_closed st @ concat (List.map (\<lambda>p. rev (ow_handles p)) stopped)"
    "List.map rc_pid rs = List.map ow_pid stopped" "cleaned env stopped rest rs (os_files st) outcome (os_files st')"
    "os_receipts st' = (case outcome of Inl _ \<Rightarrow> os_receipts st | Inr rs' \<Rightarrow> rs')"
proof -
  from assms obtain st1 where c: "cleanup_each H env tg kg (rev (os_owned st)) (st\<lparr>os_owned := []\<rparr>) s = Some (outcome, st1, s')"
    and st': "st' = (case outcome of Inl _ \<Rightarrow> st1 | Inr rs \<Rightarrow> st1\<lparr>os_receipts := rs\<rparr>)"
    by (auto simp: cleanup_def split: bind_split_asm)
  from cleanup_each_stop [OF c] obtain stopped rest rs where "rev (os_owned st) = stopped @ rest"
    "stop_each (cleanup_terminate H env tg kg) stopped s = Some (rs, s')" "os_owned st1 = []" "os_receipts st1 = os_receipts st"
    "os_closed st1 = os_closed st @ concat (List.map (\<lambda>p. rev (ow_handles p)) stopped)"
    "List.map rc_pid rs = List.map ow_pid stopped" "cleaned env stopped rest rs (os_files st) outcome (os_files st1)" by auto
  then show thesis by (intro that [of stopped rest rs]) (cases outcome; simp add: st')+
qed

text \<open>C30: \<open>OwnedProcessSet.cleanup\<close> empties the set and terminates the processes it owned, latest first, up to the
  first whose ownership file cannot be removed.  If none raises there, every process is terminated and reported on,
  and the files of those verified are gone; otherwise the exception is that of the last terminated process, whose
  receipt was verified, no receipts are stored, and the processes after it are neither terminated nor are their handles
  closed.  All handles of the terminated processes are closed; a receipt that claims quiescence means that the group was
  observed to be gone; and only groups of terminated processes are signalled, each after its leader was seen to have
  exited or to carry the identity recorded when it was spawned.\<close>

theorem cleanup_stops_every_owned_process:
  assumes "cleanup H env tg kg st s = Some (outcome, st', s')"
  shows "os_owned st' = [] \<and> (\<exists>stopped rest rs. rev (os_owned st) = stopped @ rest
     \<and> List.map rc_pid rs = List.map ow_pid stopped
     \<and> os_closed st' = os_closed st @ concat (List.map (\<lambda>p. rev (ow_handles p)) stopped)
     \<and> list_all2 (\<lambda>p r. rc_verified r \<longrightarrow> (\<forall>v. ow_group p = Some v \<longrightarrow> seen H s s' (\<lambda>n. \<not> sn_group n v))) stopped rs
     \<and> justified_run H (owned_evidence True) ow_group stopped s s'
     \<and> (case outcome of
          Inr rs' \<Rightarrow> rest = [] \<and> rs' = rs \<and> os_receipts st' = rs \<and> os_files st' = os_files st |` (- verified_pids rs)
        | Inl e \<Rightarrow> stopped \<noteq> [] \<and> rc_verified (last rs) \<and> ce_unlink env (ow_identity (last stopped)) = Some e
            \<and> os_receipts st' = os_receipts st \<and> os_files st' = os_files st |` (- verified_pids (butlast rs))))"
proof -
  from assms obtain stopped rest rs where "rev (os_owned st) = stopped @ rest"
    and run: "stop_each (cleanup_terminate H env tg kg) stopped s = Some (rs, s')" and "os_owned st' = []"
    "os_closed st' = os_closed st @ concat (List.map (\<lambda>p. rev (ow_handles p)) stopped)"
    "List.map rc_pid rs = List.map ow_pid stopped" "cleaned env stopped rest rs (os_files st) outcome (os_files st')"
    "os_receipts st' = (case outcome of Inl _ \<Rightarrow> os_receipts st | Inr rs' \<Rightarrow> rs')" by (rule cleanup_stop)
  with cleaned_processes.stop_each_reports [OF run] cleaned_processes.stop_each_justified [OF run] show ?thesis
    by (intro conjI exI [of _ stopped] exI [of _ rest] exI [of _ rs]) (auto simp: cleaned_def split: sum.split)
qed

text \<open>Two children: the first has exited, the second ignores \<open>SIGTERM\<close>.\<close>

definition two_children :: history where
  "two_children t = \<lparr>sn_group = (\<lambda>g. g = 42 \<and> t < 20), sn_identity = (\<lambda>p. Some ''linux-proc:7''),
     sn_ticks = (\<lambda>p. Some 7), sn_alive = (\<lambda>p. p = 42 \<and> t < 20), sn_getpgid = (\<lambda>p. Some p),
     sn_kill = (\<lambda>g sig. K_sent), sn_now = int t * 500, sn_own_group = 9, sn_marker = False, sn_write_error = None\<rparr>"

definition child :: "nat \<Rightarrow> int \<Rightarrow> owned" where
  "child k pid = \<lparr>ow_object = k, ow_identity = \<lparr>pi_pid = pid, pi_pgid = pid, pi_birth = Some ''linux-proc:7'',
     pi_ticks = Some 7\<rparr>, ow_handles = [10 * pid, 10 * pid + 1]\<rparr>"

definition two_owned :: owned_set where
  "two_owned = \<lparr>os_owned = [child 1 41, child 2 42], os_next = 3, os_files = [41 \<mapsto> False, 42 \<mapsto> False],
     os_closed = [], os_receipts = []\<rparr>"

definition no_fault :: cleanup_env where
  "no_fault = \<lparr>ce_terminate = (\<lambda>_. None), ce_unlink = (\<lambda>_. None)\<rparr>"

lemma two_owned_run: "map_option (\<lambda>(rs, st, s). (map_sum id (List.map rc_status) rs, os_closed st, rs_signals s))
    (cleanup two_children no_fault 1000 1000 two_owned start_run)
      = Some (Inr [''quiescent'', ''already_quiescent''], [421, 420, 411, 410], [(5, 42, SIGTERM), (18, 42, SIGKILL)])"
  by code_simp

lemma cleanup_stops_every_owned_process_witness:
  "\<exists>rs st' s'. cleanup two_children no_fault 1000 1000 two_owned start_run = Some (Inr rs, st', s') \<and> os_owned st' = []
     \<and> os_closed st' = [421, 420, 411, 410] \<and> justified_run two_children (owned_evidence True) ow_group [child 2 42, child 1 41] start_run s'"
proof -
  from two_owned_run obtain out st' s' where c: "cleanup two_children no_fault 1000 1000 two_owned start_run = Some (out, st', s')"
    and o: "map_sum id (List.map rc_status) out = Inr [''quiescent'', ''already_quiescent'']"
    and closed: "os_closed st' = [421, 420, 411, 410]"
    by (cases "cleanup two_children no_fault 1000 1000 two_owned start_run") auto
  from o obtain rs where rs: "out = Inr rs" by (cases out) simp_all
  have "rev (os_owned two_owned) = [child 2 42, child 1 41]" by (simp add: two_owned_def)
  with cleanup_stops_every_owned_process [OF c [unfolded rs]]
  have "os_owned st' = [] \<and> justified_run two_children (owned_evidence True) ow_group [child 2 42, child 1 41] start_run s'" by auto
  with c [unfolded rs] closed show ?thesis by blast
qed

text \<open>
  The file of the second child cannot be removed: the first is forgotten, without a signal and with its handles open.
\<close>

definition both_alive :: history where
  "both_alive t = (two_children t)\<lparr>sn_alive := (\<lambda>p. p \<in> {41, 42} \<and> t < 20), sn_group := (\<lambda>g. g \<in> {41, 42} \<and> t < 20)\<rparr>"

theorem failed_unlink_abandons_processes:
  "map_option (\<lambda>(rs, st, s). (map_sum id (List.map rc_status) rs, List.map ow_pid (os_owned st), os_closed st, rs_signals s))
    (cleanup both_alive (no_fault\<lparr>ce_unlink := (\<lambda>i. if pi_pid i = 42 then Some ''PermissionError'' else None)\<rparr>)
       1000 1000 two_owned start_run)
      = Some (Inl ''PermissionError'', [], [421, 420], [(5, 42, SIGTERM), (18, 42, SIGKILL)])"
  by code_simp

section \<open>Ownership\<close>

text \<open>The objects of a set are distinct and older than its counter.\<close>

definition set_inv :: "owned_set \<Rightarrow> bool" where
  "set_inv st \<longleftrightarrow> distinct (List.map ow_object (os_owned st))
     \<and> list_all (\<lambda>p. ow_object p \<le> os_next st) (os_owned st)"

lemma remove_owned_new: "\<not> list_ex (same_object p) xs \<Longrightarrow> remove_owned p (xs @ [p]) = xs"
  by (induction xs) (auto simp: same_object_def)

lemma remove_owned_other: "q \<in> set xs \<Longrightarrow> \<not> same_object p q \<Longrightarrow> q \<in> set (remove_owned p xs)"
  by (induction xs) auto

lemma remove_owned_subset: "set (remove_owned p xs) \<subseteq> set xs"
  by (induction xs) auto

lemma remove_owned_distinct: "distinct (List.map f xs) \<Longrightarrow> distinct (List.map f (remove_owned p xs))"
  by (induction xs) (use remove_owned_subset in auto)

lemma remove_owned_gone: "distinct (List.map ow_object xs) \<Longrightarrow> \<not> list_ex (same_object p) (remove_owned p xs)"
  by (induction xs) (auto simp: same_object_def list_ex_iff)

text \<open>
  What a failed spawn does with the process it started: it runs the termination of the group, without an identity unless
  one was captured, and closes the handles of the caller and of the process.
\<close>

definition spawn_stopped :: "history \<Rightarrow> spawn_env \<Rightarrow> int \<Rightarrow> string \<Rightarrow> owned_set \<Rightarrow> owned_set \<Rightarrow> run_state \<Rightarrow> run_state \<Rightarrow> bool" where
  "spawn_stopped H env pid e st st' s s' \<longleftrightarrow> os_closed st' = os_closed st @ rev (spawn_handles env)
     \<and> (\<exists>p r s0 required. ow_pid p = pid \<and> ow_pgid p = pid \<and> quiet s s0
          \<and> owned_terminate H p (sp_term_grace env) (sp_kill_grace env) required s0 = Some (r, s')
          \<and> (required \<longleftrightarrow> pi_birth (ow_identity p) \<noteq> None)
          \<and> (\<not> required \<longrightarrow> sp_capture_error env = Some e \<or> sp_capture_error env = None
               \<and> e = ''OwnedProcessReadinessError: could not capture birth identity; cleanup='' @ rc_status r)
          \<and> (required \<longrightarrow> sp_capture_error env = None \<and> sp_write_error env \<noteq> None
               \<and> (if rc_verified r then sp_write_error env = Some e else e = ''OwnedProcessCleanupError'')))"

lemma spawn_stoppedI:
  assumes "owned_terminate H p (sp_term_grace env) (sp_kill_grace env) required s0 = Some (r, s')" and "quiet s s0"
    and "ow_pid p = pid" and "ow_pgid p = pid" and "os_closed st' = os_closed st @ rev (spawn_handles env)"
    and "required \<longleftrightarrow> pi_birth (ow_identity p) \<noteq> None"
    and "\<not> required \<Longrightarrow> sp_capture_error env = Some e \<or> sp_capture_error env = None
      \<and> e = ''OwnedProcessReadinessError: could not capture birth identity; cleanup='' @ rc_status r"
    and "required \<Longrightarrow> sp_capture_error env = None \<and> sp_write_error env \<noteq> None
      \<and> (if rc_verified r then sp_write_error env = Some e else e = ''OwnedProcessCleanupError'')"
  shows "spawn_stopped H env pid e st st' s s'"
  unfolding spawn_stopped_def using assms by blast

lemma spawn_stopped_earlier:
  assumes "spawn_stopped H env pid e st1 st' s1 s'" and "quiet s s1" and "os_closed st1 = os_closed st"
  shows "spawn_stopped H env pid e st st' s s'"
proof -
  from assms(1) obtain p r s0 required where t: "owned_terminate H p (sp_term_grace env) (sp_kill_grace env) required s0 = Some (r, s')"
    and q: "quiet s1 s0" and p: "ow_pid p = pid" "ow_pgid p = pid" "os_closed st' = os_closed st1 @ rev (spawn_handles env)"
    and b: "required \<longleftrightarrow> pi_birth (ow_identity p) \<noteq> None"
    and n: "\<not> required \<longrightarrow> sp_capture_error env = Some e \<or> sp_capture_error env = None
        \<and> e = ''OwnedProcessReadinessError: could not capture birth identity; cleanup='' @ rc_status r"
    and y: "required \<longrightarrow> sp_capture_error env = None \<and> sp_write_error env \<noteq> None
        \<and> (if rc_verified r then sp_write_error env = Some e else e = ''OwnedProcessCleanupError'')"
    unfolding spawn_stopped_def by blast
  show ?thesis
    by (rule spawn_stoppedI [OF t quiet_trans [OF assms(2) q] p(1,2) _ b]) (use p(3) n y assms(3) in simp_all)
qed

lemma spawn_captured_error:
  assumes "spawn_captured H env p st s = Some (Inl e, st', s')" and "ow_pid p = pid" and "ow_pgid p = pid"
    and "list_all (\<lambda>q. ow_object q < ow_object p) (os_owned st)" and "ow_handles p = spawn_handles env"
    and "sp_capture_error env = None"
  shows "os_owned st' = os_owned st" and "spawn_stopped H env pid e st st' s s'"
proof -
  have new: "remove_owned p (os_owned st @ [p]) = os_owned st"
    using assms(4) by (intro remove_owned_new) (auto simp: list_ex_iff list_all_iff same_object_def)
  have "os_owned st' = os_owned st \<and> spawn_stopped H env pid e st st' s s'"
  proof (cases "pi_birth (ow_identity p) = None")
    case False
    with assms(1) obtain we r where we: "sp_write_error env = Some we"
      and t: "owned_terminate H p (sp_term_grace env) (sp_kill_grace env) True s = Some (r, s')"
      and e: "e = (if rc_verified r then we else ''OwnedProcessCleanupError'')"
      and st': "st' = (close_handles p (st\<lparr>os_owned := os_owned st @ [p]\<rparr>))\<lparr>os_owned := remove_owned p (os_owned st @ [p])\<rparr>"
      by (auto simp: spawn_captured_def spawn_registered_def write_ownership_def close_handles_def Let_def
          split: option.split_asm bind_split_asm)
    have "spawn_stopped H env pid e st st' s s'"
      by (rule spawn_stoppedI [OF t quiet_refl assms(2,3)]) (use False we e st' assms(5,6) in \<open>auto simp: close_handles_def\<close>)
    then show ?thesis using new st' by simp
  next
    case True
    obtain b s1 where 1: "popen_alive H p s = (b, s1)" by (rule prod.exhaust)
    obtain c s2 where 2: "(if b then (True, s1) else group_alive H (ow_pgid p) s1) = (c, s2)" by (rule prod.exhaust)
    have "quiet s1 s2" using 2 group_alive_quiet by (auto split: if_split_asm)
    with popen_alive_seen [OF 1] have q: "quiet s s2" using quiet_trans by blast
    from assms(1) True 1 2 obtain r where t: "owned_terminate H p (sp_term_grace env) (sp_kill_grace env) False s2 = Some (r, s')"
      and st': "st' = close_handles p st" "e = ''OwnedProcessReadinessError: could not capture birth identity; cleanup='' @ rc_status r"
      by (auto simp: spawn_captured_def Let_def split: bind_split_asm if_split_asm)
    have "spawn_stopped H env pid e st st' s s'"
      by (rule spawn_stoppedI [OF t q assms(2,3)]) (use True st' assms(5,6) in \<open>auto simp: close_handles_def\<close>)
    then show ?thesis using st' by (simp add: close_handles_def)
  qed
  then show "os_owned st' = os_owned st" and "spawn_stopped H env pid e st st' s s'" by simp_all
qed

lemma spawn_captured_ok:
  assumes "spawn_captured H env p st s = Some (Inr q, st', s')"
  shows "q = p \<and> os_owned st' = os_owned st @ [p] \<and> os_next st' = os_next st"
  using assms
  by (auto simp: spawn_captured_def spawn_registered_def write_ownership_def Let_def
      split: option.split_asm bind_split_asm if_split_asm prod.split_asm)

lemma start_ticks_quiet: "start_ticks H p s = (i, s') \<Longrightarrow> quiet s s'"
  by (auto simp: start_ticks_def split: option.split_asm dest: observe_quiet)

lemma spawn_error_stops:
  assumes "spawn H env st s = Some (Inl e, st', s')" and "sp_popen env = Inr pid" and "sp_new_session env \<noteq> Some False"
    and "set_inv st"
  shows "os_owned st' = os_owned st \<and> spawn_stopped H env pid e st st' s s'"
proof (cases "sp_capture_error env")
  case (Some x)
  define p where "p = \<lparr>ow_object = os_next st + 1, ow_identity = \<lparr>pi_pid = pid, pi_pgid = pid, pi_birth = None, pi_ticks = None\<rparr>,
      ow_handles = spawn_handles env\<rparr>"
  from assms(1-3) Some obtain r where t: "owned_terminate H p (sp_term_grace env) (sp_kill_grace env) False s = Some (r, s')"
    and st': "st' = close_handles p (st\<lparr>os_next := os_next st + 1\<rparr>)" "e = x"
    by (auto simp: spawn_def Let_def p_def split: bind_split_asm)
  have "spawn_stopped H env pid e st st' s s'"
    by (rule spawn_stoppedI [OF t quiet_refl]) (simp_all add: p_def st' Some close_handles_def)
  then show ?thesis by (simp add: st' close_handles_def)
next
  case None
  obtain b s1 where 1: "birth_identity H pid s = (b, s1)" by (rule prod.exhaust)
  obtain t s2 where 2: "start_ticks H pid s1 = (t, s2)" by (rule prod.exhaust)
  have q: "quiet s s2" using birth_identity_quiet [OF 1] start_ticks_quiet [OF 2] quiet_trans by blast
  define p where "p = \<lparr>ow_object = os_next st + 1, ow_identity = \<lparr>pi_pid = pid, pi_pgid = pid, pi_birth = b,
      pi_ticks = t\<rparr>, ow_handles = spawn_handles env\<rparr>"
  define st1 where "st1 = st\<lparr>os_next := os_next st + 1\<rparr>"
  from assms(1-3) None 1 2 have c: "spawn_captured H env p st1 s2 = Some (Inl e, st', s')"
    by (simp add: spawn_def p_def st1_def Let_def)
  have "list_all (\<lambda>q. ow_object q < ow_object p) (os_owned st1)"
    using assms(4) by (auto simp: set_inv_def list_all_iff p_def st1_def)
  note e = spawn_captured_error [OF c _ _ this _ None, of pid]
  have "spawn_stopped H env pid e st1 st' s2 s'" by (rule e(2)) (simp_all add: p_def)
  then have "spawn_stopped H env pid e st st' s s'"
    by (rule spawn_stopped_earlier [OF _ q]) (simp add: st1_def)
  with e(1) show ?thesis by (simp add: p_def st1_def)
qed

lemma spawn_ok:
  assumes "spawn H env st s = Some (Inr p, st', s')" and "sp_popen env = Inr pid" and "set_inv st"
  shows "os_owned st' = os_owned st @ [p] \<and> ow_pid p = pid \<and> ow_pgid p = pid \<and> set_inv st'"
proof -
  have new: "sp_new_session env \<noteq> Some False" using assms(1) by (auto simp: spawn_def)
  have none: "sp_capture_error env = None"
    using assms(1,2) new by (auto simp: spawn_def Let_def split: option.split_asm bind_split_asm)
  from assms(1,2) new none obtain b t s2 where c: "spawn_captured H env \<lparr>ow_object = os_next st + 1,
      ow_identity = \<lparr>pi_pid = pid, pi_pgid = pid, pi_birth = b, pi_ticks = t\<rparr>,
      ow_handles = spawn_handles env\<rparr>
      (st\<lparr>os_next := os_next st + 1\<rparr>) s2 = Some (Inr p, st', s')"
    by (auto simp: spawn_def Let_def split: prod.split_asm)
  from spawn_captured_ok [OF c] assms(3) show ?thesis
    by (auto simp: set_inv_def list_all_iff)
qed

text \<open>C31: No spawned process escapes its set.  A spawn that raises before \<open>popen\<close> returned a process has closed the
  caller's handles and changed nothing else.  A spawn that raises after it leaves the set as it was; it has run the
  termination of the new process group, under the captured identity if there is one, which signals that group only and
  whose verified receipt means that the group was observed to be gone; it has closed the handles of the caller and of
  the process; and where the ownership file could not be written, the error tells whether the receipt was verified.
  A spawn that returns a process has appended exactly that process to the set.\<close>

theorem spawned_processes_are_owned_or_stopped:
  assumes "spawn H env st s = Some (outcome, st', s')" and "sp_new_session env \<noteq> Some False" and "set_inv st"
  shows "case sp_popen env of
      Inl x \<Rightarrow> outcome = Inl x \<and> s' = s \<and> st' = st\<lparr>os_closed := os_closed st @ rev (sp_handles env)\<rparr>
    | Inr pid \<Rightarrow>
        (case outcome of
           Inr p \<Rightarrow> os_owned st' = os_owned st @ [p] \<and> ow_pid p = pid \<and> ow_pgid p = pid \<and> set_inv st'
         | Inl e \<Rightarrow> os_owned st' = os_owned st \<and> os_closed st' = os_closed st @ rev (spawn_handles env)
             \<and> (\<exists>p r s0 required. ow_pid p = pid \<and> ow_pgid p = pid \<and> quiet s s0
                  \<and> owned_terminate H p (sp_term_grace env) (sp_kill_grace env) required s0 = Some (r, s')
                  \<and> identified_run H (owned_evidence required p) (ow_group p) s0 s'
                  \<and> (rc_verified r \<longrightarrow> (\<forall>v. ow_group p = Some v \<longrightarrow> seen H s s' (\<lambda>n. \<not> sn_group n v)))
                  \<and> (required \<longleftrightarrow> pi_birth (ow_identity p) \<noteq> None)
                  \<and> (\<not> required \<longrightarrow> sp_capture_error env = Some e \<or> sp_capture_error env = None
                       \<and> e = ''OwnedProcessReadinessError: could not capture birth identity; cleanup='' @ rc_status r)
                  \<and> (required \<longrightarrow> sp_capture_error env = None \<and> sp_write_error env \<noteq> None
                       \<and> (if rc_verified r then sp_write_error env = Some e else e = ''OwnedProcessCleanupError''))))"
proof (cases "sp_popen env")
  case (Inl x)
  with assms show ?thesis by (simp add: spawn_def)
next
  case (Inr pid)
  show ?thesis
  proof (cases outcome)
    case e: (Inl e)
    from spawn_error_stops [OF assms(1) [unfolded e] Inr assms(2,3)]
    obtain p r s0 required where t: "owned_terminate H p (sp_term_grace env) (sp_kill_grace env) required s0 = Some (r, s')"
      and q: "quiet s s0" and rest: "os_owned st' = os_owned st" "os_closed st' = os_closed st @ rev (spawn_handles env)"
      "ow_pid p = pid" "ow_pgid p = pid" "required \<longleftrightarrow> pi_birth (ow_identity p) \<noteq> None"
      "\<not> required \<longrightarrow> sp_capture_error env = Some e \<or> sp_capture_error env = None
        \<and> e = ''OwnedProcessReadinessError: could not capture birth identity; cleanup='' @ rc_status r"
      "required \<longrightarrow> sp_capture_error env = None \<and> sp_write_error env \<noteq> None
        \<and> (if rc_verified r then sp_write_error env = Some e else e = ''OwnedProcessCleanupError'')"
      unfolding spawn_stopped_def by blast
    from owned_terminate_run [OF t] have i: "identified_run H (owned_evidence required p) (ow_group p) s0 s'"
      and tr: "truthful H p s r s'" using truthful_later [OF quiet_later [OF q]] by simp_all
    have "rc_verified r \<longrightarrow> (\<forall>v. ow_group p = Some v \<longrightarrow> seen H s s' (\<lambda>n. \<not> sn_group n v))"
      using tr by (auto simp: truthful_def later_def quiet_def elim!: seen_mono)
    with t q i rest(3-6) have "\<exists>p r s0 required. ow_pid p = pid \<and> ow_pgid p = pid \<and> quiet s s0
                  \<and> owned_terminate H p (sp_term_grace env) (sp_kill_grace env) required s0 = Some (r, s')
                  \<and> identified_run H (owned_evidence required p) (ow_group p) s0 s'
                  \<and> (rc_verified r \<longrightarrow> (\<forall>v. ow_group p = Some v \<longrightarrow> seen H s s' (\<lambda>n. \<not> sn_group n v)))
                  \<and> (required \<longleftrightarrow> pi_birth (ow_identity p) \<noteq> None)
                  \<and> (\<not> required \<longrightarrow> sp_capture_error env = Some e \<or> sp_capture_error env = None
                       \<and> e = ''OwnedProcessReadinessError: could not capture birth identity; cleanup='' @ rc_status r)
                  \<and> (required \<longrightarrow> sp_capture_error env = None \<and> sp_write_error env \<noteq> None
                       \<and> (if rc_verified r then sp_write_error env = Some e else e = ''OwnedProcessCleanupError''))"
      using rest(7) by (intro exI [of _ p] exI [of _ r] exI [of _ s0] exI [of _ required] conjI)
    with rest(1,2) show ?thesis unfolding e Inr sum.case by (intro conjI)
  next
    case r: (Inr p)
    from spawn_ok [OF assms(1) [unfolded r] Inr assms(3)] show ?thesis by (simp add: r Inr)
  qed
qed

definition plain_spawn :: "string option \<Rightarrow> spawn_env" where
  "plain_spawn failure = \<lparr>sp_new_session = None, sp_popen = Inr 42, sp_handles = [1], sp_process_handles = [2],
     sp_capture_error = None, sp_write_error = failure, sp_term_grace = 1000, sp_kill_grace = 1000\<rparr>"

lemma plain_spawn_run: "map_option (\<lambda>(r, st, s). (List.map ow_pid (os_owned st), os_closed st, rs_signals s))
    (spawn two_children (plain_spawn (Some ''OSError'')) empty_set start_run)
      = Some ([], [2, 1], [(7, 42, SIGTERM), (20, 42, SIGKILL)])"
  by code_simp

lemma spawned_processes_are_owned_or_stopped_witness:
  "\<exists>st' s' p r s0. spawn two_children (plain_spawn (Some ''OSError'')) empty_set start_run = Some (Inl ''OSError'', st', s')
     \<and> os_owned st' = [] \<and> os_closed st' = [2, 1] \<and> ow_pgid p = 42
     \<and> owned_terminate two_children p 1000 1000 True s0 = Some (r, s') \<and> rc_verified r"
proof -
  have "map_option (\<lambda>(r, st, s). r) (spawn two_children (plain_spawn (Some ''OSError'')) empty_set start_run) = Some (Inl ''OSError'')"
    "birth_identity two_children 42 start_run = (Some ''linux-proc:7'', tick start_run)"
    by code_simp+
  then obtain st' s' where c: "spawn two_children (plain_spawn (Some ''OSError'')) empty_set start_run = Some (Inl ''OSError'', st', s')"
    by (auto split: prod.splits)
  have h: "sp_popen (plain_spawn (Some ''OSError'')) = Inr 42" "spawn_handles (plain_spawn (Some ''OSError'')) = [1, 2]"
    "os_owned empty_set = []" "os_closed empty_set = []" by (simp_all add: plain_spawn_def spawn_handles_def empty_set_def)
  from spawned_processes_are_owned_or_stopped [OF c] obtain p r s0 required where
    "ow_pgid p = 42" "owned_terminate two_children p 1000 1000 required s0 = Some (r, s')"
    "required" "required \<longrightarrow> (if rc_verified r then True else ''OSError'' = ''OwnedProcessCleanupError'')"
    "os_owned st' = []" "os_closed st' = [2, 1]"
    unfolding h sum.case by (auto simp: plain_spawn_def empty_set_def set_inv_def)
  then show ?thesis using c by (auto split: if_split_asm)
qed

lemma commit_effect:
  assumes "commit H validator we p st s = (outcome, st', s')"
  shows "case outcome of
      Inl e \<Rightarrow> os_owned st' = os_owned st
    | Inr q \<Rightarrow> q = p \<and> os_owned st' = remove_owned p (os_owned st)
        \<and> os_files st' = (os_files st)(ow_pid p \<mapsto> True)
        \<and> seen H s s' (\<lambda>n. sn_alive n (ow_pid p))
        \<and> validator p = None"
  using assms
  by (auto simp: commit_def write_ownership_def require_live_def Let_def popen_alive_def observe_def seen_def tick_def
      split: prod.split_asm sum.split_asm option.split_asm if_split_asm dest!: birth_identity_quiet)
    (auto simp: quiet_def intro!: exI [of _ "rs_time s"])

lemma cleanup_signals_owned:
  assumes "cleanup H env tg kg st s = Some (outcome, st', s')"
  shows "justified_run H (owned_evidence True) ow_group (rev (os_owned st)) s s'"
proof -
  from assms obtain stopped rest rs where split: "rev (os_owned st) = stopped @ rest"
    and "stop_each (cleanup_terminate H env tg kg) stopped s = Some (rs, s')" by (rule cleanup_stop)
  then have "justified_run H (owned_evidence True) ow_group stopped s s'" by (blast intro: cleaned_processes.stop_each_justified)
  moreover have "set stopped \<subseteq> set (rev (os_owned st))" unfolding split by simp
  ultimately show ?thesis unfolding justified_run_def using justified_mono by blast
qed

text \<open>Commitment transfers ownership for good: a committed process was alive and validated, is marked as
  transferred, has left the set, and the set's later cleanup sends no signal to its group (the other owned
  processes being in other groups).
\<close>

theorem committed_processes_are_left_alone:
  assumes "commit H validator we p st s = (Inr q, st1, s1)" and "set_inv st"
    and "distinct (List.map ow_pgid (os_owned st))" and "p \<in> set (os_owned st)"
    and "cleanup H env tg kg st1 s2 = Some (rs, st2, s3)"
  shows "validator p = None \<and> seen H s s1 (\<lambda>n. sn_alive n (ow_pid p)) \<and> os_files st1 (ow_pid p) = Some True
     \<and> \<not> list_ex (same_object p) (os_owned st1)
     \<and> (\<exists>new. rs_signals s3 = rs_signals s2 @ new \<and> ow_pgid p \<notin> (\<lambda>ev. fst (snd ev)) ` set new)"
proof -
  from commit_effect [OF assms(1)] have c: "os_owned st1 = remove_owned p (os_owned st)"
    "os_files st1 (ow_pid p) = Some True" "seen H s s1 (\<lambda>n. sn_alive n (ow_pid p))" "validator p = None" by simp_all
  have gone: "\<not> list_ex (same_object p) (os_owned st1)"
    using assms(2) by (simp add: c(1) set_inv_def remove_owned_gone)
  from cleanup_signals_owned [OF assms(5)] obtain new where new: "rs_signals s3 = rs_signals s2 @ new"
    and just: "\<forall>ev \<in> set new. justified H (owned_evidence True) ow_group (rev (os_owned st1)) (rs_time s2) ev"
    unfolding justified_run_def by blast
  have "ow_pgid p \<noteq> fst (snd ev)" if "ev \<in> set new" for ev
  proof
    assume g: "ow_pgid p = fst (snd ev)"
    from just that obtain x where x: "x \<in> set (os_owned st1)" "ow_group x = Some (fst (snd ev))"
      using justified_target by fastforce
    then have "ow_pgid x = ow_pgid p" by (auto simp: g pid_int_def split: if_split_asm)
    moreover have "x \<in> set (os_owned st)" using x(1) remove_owned_subset by (force simp: c(1))
    ultimately have "x = p" using assms(3,4) by (auto simp: distinct_map inj_on_def)
    with gone x(1) show False by (auto simp: list_ex_iff same_object_def)
  qed
  with c gone new show ?thesis by blast
qed

lemma commit_run: "map_option (\<lambda>(rs, st, s). (map_sum id (List.map rc_pid) rs, rs_signals s))
    (case commit both_alive (\<lambda>_. None) None (child 2 42) two_owned start_run of
       (Inr _, st, s) \<Rightarrow> cleanup both_alive no_fault 1000 1000 st s | (Inl _, _, _) \<Rightarrow> None)
      = Some (Inr [41], [(7, 41, SIGTERM), (20, 41, SIGKILL)])"
  by code_simp

lemma committed_processes_are_left_alone_witness:
  "\<exists>st1 s1 rs st2 s3 new. commit both_alive (\<lambda>_. None) None (child 2 42) two_owned start_run = (Inr (child 2 42), st1, s1)
     \<and> cleanup both_alive no_fault 1000 1000 st1 s1 = Some (rs, st2, s3)
     \<and> rs_signals s3 = rs_signals s1 @ new \<and> 42 \<notin> (\<lambda>ev. fst (snd ev)) ` set new"
proof -
  obtain outcome st1 s1 where c: "commit both_alive (\<lambda>_. None) None (child 2 42) two_owned start_run = (outcome, st1, s1)"
    by (rule prod_cases3)
  with commit_run obtain q rs st2 s3 where q: "outcome = Inr q" and r: "cleanup both_alive no_fault 1000 1000 st1 s1 = Some (rs, st2, s3)"
    by (auto split: sum.split_asm)
  have "q = child 2 42" using commit_effect [OF c] q by simp
  moreover have "set_inv two_owned" "distinct (List.map ow_pgid (os_owned two_owned))" "child 2 42 \<in> set (os_owned two_owned)"
    by (simp_all add: set_inv_def two_owned_def child_def)
  ultimately show ?thesis
    using committed_processes_are_left_alone [OF c [unfolded q] _ _ _ r] c q r by (auto simp: child_def)
qed

end
