(* ===== verification/Child_Registry.thy ===== *)
theory Child_Registry
  imports Process_Groups_Props "HOL-Library.AList"
begin

text \<open>
  The registry of live children that the broker (\<open>ActiveBrokerChildren\<close> of
  \<open>proof_run_fork_broker_children.py\<close>) and the worker (\<open>ActiveForkChildren\<close> of \<open>proof_run_fork_children.py\<close>)
  keep in memory and in a file: a dict from process group to record, and the records last written.
\<close>

record child =
  ch_attempt :: string
  ch_pid :: int
  ch_pgid :: int
  ch_ticks :: "int option"
  ch_identity :: "string option"

record registry =
  rg_children :: "(int \<times> child) list"
  rg_file :: "child list"

definition new_registry :: registry where
  "new_registry = \<lparr>rg_children = [], rg_file = []\<rparr>"

definition registered :: "registry \<Rightarrow> int \<Rightarrow> child option" where
  "registered reg = map_of (rg_children reg)"

definition snapshot :: "registry \<Rightarrow> child list" where
  "snapshot reg = List.map snd (sort_key fst (rg_children reg))"

definition write_registry :: "history \<Rightarrow> registry \<Rightarrow> run_state \<Rightarrow> (string + unit) \<times> registry \<times> run_state" where
  "write_registry H reg s =
     (let (failure, s) = observe H sn_write_error s
      in case failure of Some e \<Rightarrow> (Inl e, reg, s) | None \<Rightarrow> (Inr (), reg\<lparr>rg_file := snapshot reg\<rparr>, s))"

definition add_child :: "history \<Rightarrow> int \<Rightarrow> child \<Rightarrow> registry \<Rightarrow> run_state \<Rightarrow> (string + unit) \<times> registry \<times> run_state" where
  "add_child H k c reg = write_registry H (reg\<lparr>rg_children := AList.update k c (rg_children reg)\<rparr>)"

definition unregister :: "history \<Rightarrow> int \<Rightarrow> registry \<Rightarrow> run_state \<Rightarrow> (string + unit) \<times> registry \<times> run_state" where
  "unregister H k reg = write_registry H (reg\<lparr>rg_children := AList.delete k (rg_children reg)\<rparr>)"

section \<open>Laws\<close>

text \<open>Every record is filed under its own process group, once.\<close>

definition registry_inv :: "registry \<Rightarrow> bool" where
  "registry_inv reg \<longleftrightarrow> distinct (List.map fst (rg_children reg)) \<and> list_all (\<lambda>(k, c). ch_pgid c = k) (rg_children reg)"

lemma new_registry_inv: "registry_inv new_registry"
  by (simp add: registry_inv_def new_registry_def)

lemma write_registry_effect:
  "write_registry H reg s = (r, reg', s')
     \<Longrightarrow> quiet s s' \<and> rg_children reg' = rg_children reg \<and> (r = Inr () \<longrightarrow> rg_file reg' = snapshot reg)"
  by (auto simp: write_registry_def Let_def observe_def split: option.split_asm)

lemma mem_update: "(k', c') \<in> set (AList.update k c xs) \<Longrightarrow> (k', c') = (k, c) \<or> (k', c') \<in> set xs"
  by (induction xs) (auto split: if_split_asm)

lemma mem_delete: "(k', c') \<in> set (AList.delete k xs) \<Longrightarrow> (k', c') \<in> set xs"
  by (auto simp: AList.delete_eq)

lemma add_child_effect:
  assumes "add_child H k c reg s = (r, reg', s')"
  shows "quiet s s'" and "registered reg' = (registered reg)(k \<mapsto> c)"
    and "registry_inv reg \<Longrightarrow> ch_pgid c = k \<Longrightarrow> registry_inv reg'" and "r = Inr () \<Longrightarrow> rg_file reg' = snapshot reg'"
  using write_registry_effect [OF assms [unfolded add_child_def]]
  by (auto simp: registered_def update_conv' registry_inv_def distinct_update list_all_iff snapshot_def
      dest: mem_update)

lemma unregister_effect:
  assumes "unregister H k reg s = (r, reg', s')"
  shows "quiet s s'" and "registered reg' = (registered reg)(k := None)"
    and "registry_inv reg \<Longrightarrow> registry_inv reg'" and "r = Inr () \<Longrightarrow> rg_file reg' = snapshot reg'"
  using write_registry_effect [OF assms [unfolded unregister_def]]
  by (auto simp: registered_def delete_conv' registry_inv_def distinct_delete list_all_iff snapshot_def dest: mem_delete)

lemma mem_snapshot: "registry_inv reg \<Longrightarrow> c \<in> set (snapshot reg) \<longleftrightarrow> registered reg (ch_pgid c) = Some c"
  by (force simp: snapshot_def registered_def registry_inv_def list_all_iff)

section \<open>Custody\<close>

text \<open>
  A run keeps custody when every child registered before it is registered after it, or its process group
  was observed to be gone.
\<close>

definition custody :: "history \<Rightarrow> registry \<Rightarrow> run_state \<Rightarrow> registry \<Rightarrow> run_state \<Rightarrow> bool" where
  "custody H reg s reg' s' \<longleftrightarrow> rs_time s \<le> rs_time s' \<and>
     (\<forall>k c. registered reg k = Some c \<longrightarrow> registered reg' k = Some c \<or> seen H s s' (\<lambda>n. \<not> sn_group n k))"

lemma custody_refl: "rs_time s \<le> rs_time s' \<Longrightarrow> custody H reg s reg s'"
  by (simp add: custody_def)

lemma custody_trans: "custody H r1 s1 r2 s2 \<Longrightarrow> custody H r2 s2 r3 s3 \<Longrightarrow> custody H r1 s1 r3 s3"
  unfolding custody_def by (meson order.trans order.refl seen_mono)

lemma unregister_custody:
  assumes "unregister H k reg s = (r, reg', s')" and "seen H s0 s (\<lambda>n. \<not> sn_group n k)" and "rs_time s0 \<le> rs_time s"
  shows "custody H reg s0 reg' s'"
proof -
  have "rs_time s \<le> rs_time s'" using unregister_effect(1) [OF assms(1)] by (simp add: quiet_def)
  with assms(2,3) show ?thesis
    by (auto simp: custody_def unregister_effect(2) [OF assms(1)] elim!: seen_mono)
qed

lemma add_child_custody:
  assumes "add_child H k c reg s = (r, reg', s')" and "registered reg k = None"
  shows "custody H reg s reg' s'"
  using add_child_effect(1,2) [OF assms(1)] assms(2) by (auto simp: custody_def quiet_def)

end
