(* ===== verification/Broker_Children.thy ===== *)
theory Broker_Children
  imports Child_Registry
begin

text \<open>
  Disposable children of the fork broker, \<open>proof_run_fork_broker_children.py\<close>: registration and the
  ownership handshake, termination by the recorded process group, and the reaping of orphans before the
  next admission.  Times are milliseconds.
\<close>

section \<open>Liveness\<close>

text \<open>The identity is only looked up when one was recorded (the empty string counts as none).\<close>

definition record_is_alive :: "history \<Rightarrow> child \<Rightarrow> run_state \<Rightarrow> bool \<times> run_state" where
  "record_is_alive H c s =
     (case ch_identity c of
        None \<Rightarrow> (False, s)
      | Some e \<Rightarrow> if e = [] then (False, s) else observe H (\<lambda>n. sn_identity n (ch_pid c) = Some e) s)"

definition broker_group_alive :: "history \<Rightarrow> int \<Rightarrow> run_state \<Rightarrow> bool \<times> run_state" where
  "broker_group_alive H g = observe H (\<lambda>n. sn_group n g)"

text \<open>\<open>record_is_alive(record) or process_group_is_alive(pgid)\<close>.\<close>

definition child_is_live :: "history \<Rightarrow> child \<Rightarrow> run_state \<Rightarrow> bool \<times> run_state" where
  "child_is_live H c s =
     (let (live, s) = record_is_alive H c s in if live then (True, s) else broker_group_alive H (ch_pgid c) s)"

section \<open>Registration\<close>

definition broker_register :: "history \<Rightarrow> string \<Rightarrow> int \<Rightarrow> registry \<Rightarrow> run_state
    \<Rightarrow> (string + child) \<times> registry \<times> run_state" where
  "broker_register H attempt pid reg s =
     (let (ticks, s) = observe H (\<lambda>n. sn_ticks n pid) s;
          (ident, s) = observe H (\<lambda>n. sn_identity n pid) s;
          c = \<lparr>ch_attempt = attempt, ch_pid = pid, ch_pgid = pid, ch_ticks = ticks, ch_identity = ident\<rparr>
      in if ident = None \<or> ident = Some [] then (Inl ''RuntimeError: fork child birth identity is unavailable'', reg, s)
         else case add_child H pid c reg s of
                (Inl e, reg, s) \<Rightarrow> (Inl e, reg, s)
              | (Inr _, reg, s) \<Rightarrow> (Inr c, reg, s))"

text \<open>One turn of the ownership wait: an outcome, or none yet.\<close>

definition ownership_turn :: "history \<Rightarrow> child \<Rightarrow> int \<Rightarrow> run_state \<Rightarrow> (string + unit) option \<times> run_state" where
  "ownership_turn H c deadline s =
     (let (live, s) = record_is_alive H c s
      in if \<not> live then (Some (Inl ''RuntimeError: fork child exited before publishing process-group ownership''), s)
         else let (marker, s) = observe H sn_marker s;
                  (pgid, s) = (if marker then observe H (\<lambda>n. sn_getpgid n (ch_pid c)) s else (Some 0, s))
              in if marker \<and> pgid = None then (Some (Inl ''ProcessLookupError''), s)
                 else if marker \<and> pgid = Some (ch_pid c) then (Some (Inr ()), s)
                 else let (now, s) = observe H sn_now s
                      in if deadline \<le> now
                         then (Some (Inl ''RuntimeError: fork child timed out publishing process-group ownership''), s)
                         else (None, s))"

definition wait_for_child_ownership :: "history \<Rightarrow> child \<Rightarrow> int \<Rightarrow> run_state \<Rightarrow> ((string + unit) \<times> run_state) option" where
  "wait_for_child_ownership H c timeout s =
     (let (now, s) = observe H sn_now s in poll (ownership_turn H c (now + timeout)) s)"

section \<open>Termination\<close>

definition quiescence_turn :: "history \<Rightarrow> child \<Rightarrow> int \<Rightarrow> run_state \<Rightarrow> bool option \<times> run_state" where
  "quiescence_turn H c deadline s =
     (let (live, s) = child_is_live H c s
      in if \<not> live then (Some True, s)
         else let (now, s) = observe H sn_now s
              in (if deadline \<le> now then Some False else None, s))"

definition wait_for_child_quiescence :: "history \<Rightarrow> child \<Rightarrow> int \<Rightarrow> run_state \<Rightarrow> (bool \<times> run_state) option" where
  "wait_for_child_quiescence H c timeout s =
     (let (now, s) = observe H sn_now s in poll (quiescence_turn H c (now + timeout)) s)"

record child_cleanup =
  cc_status :: string
  cc_verified :: bool
  cc_term_sent :: bool
  cc_kill_sent :: bool
  cc_leader_live :: bool

definition cleanup_failed :: "bool \<Rightarrow> child_cleanup" where
  "cleanup_failed leader = \<lparr>cc_status = ''signal_failed'', cc_verified = False, cc_term_sent = False,
     cc_kill_sent = False, cc_leader_live = leader\<rparr>"

definition child_settled :: "history \<Rightarrow> child \<Rightarrow> int \<Rightarrow> bool \<Rightarrow> bool \<Rightarrow> bool \<Rightarrow> run_state
    \<Rightarrow> (child_cleanup \<times> run_state) option" where
  "child_settled H c timeout leader term_sent kill_sent s = do {
     (quiescent, s) \<leftarrow> wait_for_child_quiescence H c (max 0 (timeout - 500)) s;
     Some (\<lparr>cc_status = (if \<not> quiescent then ''survivors'' else if \<not> leader then ''orphaned_group_quiescent''
              else ''quiescent''),
            cc_verified = quiescent, cc_term_sent = term_sent, cc_kill_sent = kill_sent,
            cc_leader_live = leader\<rparr>, s)
   }"

definition terminate_child :: "history \<Rightarrow> int \<Rightarrow> child \<Rightarrow> run_state \<Rightarrow> (child_cleanup \<times> run_state) option" where
  "terminate_child H timeout c s =
     (let (leader, s) = record_is_alive H c s;
          (live, s) = (if leader then (True, s) else broker_group_alive H (ch_pgid c) s)
      in if \<not> live
         then Some (\<lparr>cc_status = ''already_quiescent'', cc_verified = True, cc_term_sent = False,
                      cc_kill_sent = False, cc_leader_live = leader\<rparr>, s)
         else let (sent, s) = killpg H (ch_pgid c) SIGTERM s
              in case sent of
                   K_error _ \<Rightarrow> Some (cleanup_failed leader, s)
                 | _ \<Rightarrow> do {
                     (quiescent, s) \<leftarrow> wait_for_child_quiescence H c (min timeout 500) s;
                     if quiescent then child_settled H c timeout leader (sent = K_sent) False s
                     else let (killed, s) = killpg H (ch_pgid c) SIGKILL s
                          in case killed of
                               K_error _ \<Rightarrow> Some (cleanup_failed leader, s)
                             | _ \<Rightarrow> child_settled H c timeout leader (sent = K_sent) (killed = K_sent) s
                   })"

section \<open>Acknowledgement and reaping\<close>

text \<open>The failed handshake: terminate, forget the child only when its group is gone, raise the first error.\<close>

definition abandon_child :: "history \<Rightarrow> string \<Rightarrow> child \<Rightarrow> registry \<Rightarrow> run_state
    \<Rightarrow> ((string + child) \<times> registry \<times> run_state) option" where
  "abandon_child H e c reg s = do {
     (_, s) \<leftarrow> terminate_child H 2000 c s;
     let (live, s) = broker_group_alive H (ch_pid c) s
     in if live then Some (Inl e, reg, s)
        else case unregister H (ch_pid c) reg s of
               (Inl e', reg, s) \<Rightarrow> Some (Inl e', reg, s)
             | (Inr _, reg, s) \<Rightarrow> Some (Inl e, reg, s)
   }"

definition acknowledge_registered_child :: "history \<Rightarrow> string \<Rightarrow> int \<Rightarrow> int \<Rightarrow> registry \<Rightarrow> run_state
    \<Rightarrow> ((string + child) \<times> registry \<times> run_state) option" where
  "acknowledge_registered_child H attempt pid timeout reg s =
     (case broker_register H attempt pid reg s of
        (Inl e, reg, s) \<Rightarrow> Some (Inl e, reg, s)
      | (Inr c, reg, s) \<Rightarrow>
          let (failure, s) = observe H sn_write_error s
          in case failure of
               Some e \<Rightarrow> abandon_child H e c reg s
             | None \<Rightarrow> do {
                 (owned, s) \<leftarrow> wait_for_child_ownership H c timeout s;
                 case owned of Inl e \<Rightarrow> abandon_child H e c reg s | Inr _ \<Rightarrow> Some (Inr c, reg, s)
               })"

record reap_record =
  rr_child :: child
  rr_was_live :: bool
  rr_cleanup :: child_cleanup
  rr_verified :: bool

text \<open>\<open>cleanup.verified_quiescent and not record_is_alive and not process_group_is_alive\<close>.\<close>

definition reap_child :: "history \<Rightarrow> child \<Rightarrow> run_state \<Rightarrow> (reap_record \<times> run_state) option" where
  "reap_child H c s =
     (let (was_live, s) = child_is_live H c s
      in do {
        (cleanup, s) \<leftarrow> terminate_child H 2000 c s;
        let (live, s) = (if cc_verified cleanup then child_is_live H c s else (True, s))
        in Some (\<lparr>rr_child = c, rr_was_live = was_live, rr_cleanup = cleanup, rr_verified = \<not> live\<rparr>, s)
      })"

fun reap_each :: "history \<Rightarrow> child list \<Rightarrow> registry \<Rightarrow> run_state
    \<Rightarrow> ((string + reap_record list) \<times> registry \<times> run_state) option" where
  "reap_each H [] reg s = Some (Inr [], reg, s)"
| "reap_each H (c # cs) reg s = do {
     (r, s) \<leftarrow> reap_child H c s;
     if \<not> rr_verified r then Some (Inl ''RuntimeError: broker could not quiesce prior disposable child'', reg, s)
     else case unregister H (ch_pgid c) reg s of
            (Inl e, reg, s) \<Rightarrow> Some (Inl e, reg, s)
          | (Inr _, reg, s) \<Rightarrow> do {
              (rs, reg, s) \<leftarrow> reap_each H cs reg s;
              Some (case rs of Inl e \<Rightarrow> Inl e | Inr rs \<Rightarrow> Inr (r # rs), reg, s)
            }
   }"

definition reap_orphaned_children :: "history \<Rightarrow> registry \<Rightarrow> run_state
    \<Rightarrow> ((string + reap_record list) \<times> registry \<times> run_state) option" where
  "reap_orphaned_children H reg = reap_each H (snapshot reg) reg"

end
