(* ===== verification/Broker_Children_Props.thy ===== *)
theory Broker_Children_Props
  imports Broker_Children Process_Evidence
begin

text \<open>
  What the broker guarantees about its children: a termination is a \<open>terminator\<close>, and a child leaves the
  registry only after its process group was observed to be gone.
\<close>

section \<open>Observations\<close>

text \<open>What justifies a signal: the recorded leader, or a live group that it left behind.\<close>

definition child_evidence :: "child \<Rightarrow> snapshot \<Rightarrow> bool" where
  "child_evidence c n \<longleftrightarrow> (ch_identity c \<noteq> None \<and> sn_identity n (ch_pid c) = ch_identity c) \<or> sn_group n (ch_pgid c)"

definition gone :: "child \<Rightarrow> snapshot \<Rightarrow> bool" where
  "gone c n \<longleftrightarrow> \<not> sn_group n (ch_pgid c)"

lemma record_is_alive_seen:
  assumes "record_is_alive H c s = (b, s')"
  shows "quiet s s'" and "b \<Longrightarrow> seen H s s' (child_evidence c)"
  using assms
  by (auto simp: record_is_alive_def observe_def quiet_def tick_def seen_def child_evidence_def
      split: option.split_asm if_split_asm)

lemma broker_group_alive_seen:
  assumes "broker_group_alive H g s = (b, s')"
  shows "quiet s s'" and "b \<Longrightarrow> seen H s s' (\<lambda>n. sn_group n g)" and "\<not> b \<Longrightarrow> seen H s s' (\<lambda>n. \<not> sn_group n g)"
  using assms by (auto simp: broker_group_alive_def observe_def quiet_def tick_def seen_def)

lemma child_is_live_seen:
  assumes "child_is_live H c s = (b, s')"
  shows "quiet s s'" and "b \<Longrightarrow> seen H s s' (child_evidence c)" and "\<not> b \<Longrightarrow> seen H s s' (gone c)"
proof -
  obtain a s1 where 1: "record_is_alive H c s = (a, s1)" by (rule prod.exhaust)
  note r = record_is_alive_seen [OF 1]
  have "quiet s s' \<and> (b \<longrightarrow> seen H s s' (child_evidence c)) \<and> (\<not> b \<longrightarrow> seen H s s' (gone c))"
  proof (cases a)
    case True
    with assms 1 r show ?thesis by (simp add: child_is_live_def)
  next
    case False
    with assms 1 have 2: "broker_group_alive H (ch_pgid c) s1 = (b, s')" by (simp add: child_is_live_def)
    note g = broker_group_alive_seen [OF 2]
    have "rs_time s \<le> rs_time s1" using r(1) by (simp add: quiet_def)
    with g(2,3) have "b \<longrightarrow> seen H s s' (child_evidence c)" "\<not> b \<longrightarrow> seen H s s' (gone c)"
      by (auto simp: seen_def child_evidence_def gone_def intro: order.trans)
    with g(1) r(1) quiet_trans show ?thesis by blast
  qed
  then show "quiet s s'" and "b \<Longrightarrow> seen H s s' (child_evidence c)" and "\<not> b \<Longrightarrow> seen H s s' (gone c)" by blast+
qed

section \<open>Waiting\<close>

definition settled :: "history \<Rightarrow> child \<Rightarrow> run_state \<Rightarrow> bool \<Rightarrow> run_state \<Rightarrow> bool" where
  "settled H c s b s' \<longleftrightarrow> quiet s s' \<and> (if b then seen H s s' (gone c) else seen H s s' (child_evidence c))"

lemma settled_later: "quiet s s1 \<Longrightarrow> settled H c s1 b s' \<Longrightarrow> settled H c s b s'"
  by (auto simp: settled_def quiet_def elim!: seen_mono split: if_splits)

lemma quiescence_turn_cases:
  assumes "quiescence_turn H c deadline s = (d, s')"
  shows "case d of Some b \<Rightarrow> settled H c s b s'
      | None \<Rightarrow> quiet s s' \<and> seen H s s' (\<lambda>n. sn_now n < deadline)"
proof -
  obtain b s1 where 1: "child_is_live H c s = (b, s1)" by (rule prod.exhaust)
  note l = child_is_live_seen [OF 1]
  show ?thesis
  proof (cases b)
    case False
    with assms 1 l show ?thesis by (auto simp: quiescence_turn_def settled_def)
  next
    case True
    with assms 1 l(1) l(2) show ?thesis
      by (auto simp: quiescence_turn_def settled_def observe_def quiet_def tick_def split: if_split_asm
          elim!: seen_mono) (auto simp: seen_def)
  qed
qed

lemma wait_for_child_quiescence_settled:
  assumes "wait_for_child_quiescence H c timeout s = Some (b, s')"
  shows "settled H c s b s'"
proof -
  define deadline where "deadline = sn_now (H (rs_time s)) + timeout"
  from assms have "poll (quiescence_turn H c deadline) (tick s) = Some (b, s')"
    by (simp add: wait_for_child_quiescence_def observe_def deadline_def)
  then have "settled H c (tick s) b s'"
  proof (rule poll_rule [where P = "settled H c"])
    fix s r s' assume "quiescence_turn H c deadline s = (Some r, s')"
    then show "settled H c s r s'" using quiescence_turn_cases by fastforce
  next
    fix s s1 r s'
    assume t: "quiescence_turn H c deadline s = (None, s1)" and "settled H c (tick s1) r s'"
    have "quiet s (tick s1)" using quiescence_turn_cases [OF t] quiet_trans quiet_tick by auto
    then show "settled H c s r s'" by (rule settled_later) fact
  qed
  then show ?thesis by (rule settled_later [rotated]) simp
qed

lemma wait_for_child_quiescence_returns:
  assumes "clock_advances H"
  shows "wait_for_child_quiescence H c timeout s \<noteq> None"
proof -
  have "\<exists>r s'. poll (quiescence_turn H c (sn_now (H (rs_time s)) + timeout)) (tick s) = Some (r, s')"
    by (rule poll_returns [OF assms]) (use quiescence_turn_cases in fastforce)
  then show ?thesis by (auto simp: wait_for_child_quiescence_def observe_def)
qed

section \<open>Termination\<close>

lemma child_settled_run:
  assumes "child_settled H c timeout leader ts ks s = Some (r, s')"
  shows "quiet s s'" and "cc_verified r \<Longrightarrow> seen H s s' (gone c)"
  using assms by (auto simp: child_settled_def settled_def split: bind_split_asm if_split_asm
      dest!: wait_for_child_quiescence_settled)

lemma terminate_child_run:
  assumes "terminate_child H timeout c s = Some (r, s')"
  shows "identified_run H (child_evidence c) (Some (ch_pgid c)) s s'"
    and "cc_verified r \<Longrightarrow> \<exists>s1. later s s1 \<and> quiet s1 s' \<and> seen H s1 s' (gone c)"
proof -
  obtain leader s0 where 0: "record_is_alive H c s = (leader, s0)" by (rule prod.exhaust)
  obtain live s1 where 1: "(if leader then (True, s0) else broker_group_alive H (ch_pgid c) s0) = (live, s1)"
    by (rule prod.exhaust)
  from 0 1 have l: "child_is_live H c s = (live, s1)" by (auto simp: child_is_live_def split: if_split_asm)
  note o = child_is_live_seen [OF l]
  have "identified_run H (child_evidence c) (Some (ch_pgid c)) s s'
    \<and> (cc_verified r \<longrightarrow> (\<exists>s1. later s s1 \<and> quiet s1 s' \<and> seen H s1 s' (gone c)))"
  proof (cases live)
    case False
    with assms 0 1 have "s' = s1" by (auto simp: terminate_child_def)
    with o(1) o(3) [OF False] show ?thesis using identified_run_quiet later_refl by blast
  next
    case True
    note e = o(2) [OF True]
    obtain k1 s2 where 2: "killpg H (ch_pgid c) SIGTERM s1 = (k1, s2)" by (rule prod.exhaust)
    note k = killpg_sends [OF 2]
    have l2: "later s s2" using o(1) killpg_later [OF 2] quiet_later later_trans by blast
    show ?thesis
    proof (cases "\<exists>x. k1 = K_error x")
      case True
      with assms 0 1 2 \<open>live\<close> have "s' = s2" "\<not> cc_verified r" by (auto simp: terminate_child_def cleanup_failed_def)
      with identified_run_term [OF o(1) e, of s' "rs_time s1"] k show ?thesis by simp
    next
      case False
      with assms 0 1 2 \<open>live\<close> obtain q s3 where 3: "wait_for_child_quiescence H c (min timeout 500) s2 = Some (q, s3)"
        and rest: "if q then child_settled H c timeout leader (k1 = K_sent) False s3 = Some (r, s')
           else (let (killed, s) = killpg H (ch_pgid c) SIGKILL s3
                 in case killed of K_error _ \<Rightarrow> Some (cleanup_failed leader, s)
                    | _ \<Rightarrow> child_settled H c timeout leader (k1 = K_sent) (killed = K_sent) s) = Some (r, s')"
        by (cases k1) (auto simp: terminate_child_def split: bind_split_asm if_split_asm)
      note w = wait_for_child_quiescence_settled [OF 3, unfolded settled_def]
      show ?thesis
      proof (cases q)
        case True
        with rest have r: "child_settled H c timeout leader (k1 = K_sent) False s3 = Some (r, s')" by simp
        note cs = child_settled_run [OF r]
        have q': "quiet s2 s'" using w cs(1) quiet_trans by blast
        have "later s s3" using l2 w quiet_later later_trans by blast
        moreover have "identified_run H (child_evidence c) (Some (ch_pgid c)) s s'"
          using identified_run_term [OF o(1) e, of s' "rs_time s1"] k q' by (auto simp: quiet_def)
        ultimately show ?thesis using cs by blast
      next
        case F: False
        obtain k2 s4 where 4: "killpg H (ch_pgid c) SIGKILL s3 = (k2, s4)" by (rule prod.exhaust)
        have s': "quiet s4 s' \<and> (cc_verified r \<longrightarrow> seen H s4 s' (gone c))"
          using rest F 4 child_settled_run by (cases k2) (auto simp: cleanup_failed_def)
        have l4: "later s s4" using l2 w killpg_later [OF 4] quiet_later later_trans by blast
        have "sends s3 (ch_pgid c) SIGKILL s4"
          using killpg_sends [OF 4] by (auto simp: sends_def)
        with s' have "sends s3 (ch_pgid c) SIGKILL s'" using sends_quiet by blast
        then have "identified_run H (child_evidence c) (Some (ch_pgid c)) s s'"
          using sends_kill_run [OF o(1) e, of s2 "rs_time s1" "ch_pgid c" s3 s'] k w F by simp
        with l4 s' show ?thesis by blast
      qed
    qed
  qed
  then show "identified_run H (child_evidence c) (Some (ch_pgid c)) s s'"
    and "cc_verified r \<Longrightarrow> \<exists>s1. later s s1 \<and> quiet s1 s' \<and> seen H s1 s' (gone c)" by blast+
qed

lemma terminate_child_returns:
  assumes "clock_advances H"
  shows "terminate_child H timeout c s \<noteq> None"
proof -
  define W where "W d s = the (wait_for_child_quiescence H c d s)" for d s
  have W: "wait_for_child_quiescence H c d s = Some (W d s)" for d s
    using wait_for_child_quiescence_returns [OF assms, of c d s] by (auto simp: W_def)
  show ?thesis
    by (auto simp: terminate_child_def child_settled_def Let_def W split: prod.split kill_result.split)
qed

interpretation broker_children: terminator H "terminate_child H timeout" "\<lambda>c. Some (ch_pgid c)" child_evidence
  cc_verified for H timeout
proof (unfold_locales, goal_cases)
  case (1 c s r s')
  then show ?case by (rule terminate_child_run)
next
  case (2 c s r s' v)
  then show ?case using terminate_child_run(2) [OF 2(1,2)] by (simp add: gone_def [abs_def])
next
  case (3 c s)
  then show ?case by (rule terminate_child_returns)
qed

section \<open>Reaping\<close>

lemma reap_child_verified:
  assumes "reap_child H c s = Some (r, s')"
  shows "later s s'" and "rr_verified r \<Longrightarrow> seen H s s' (gone c)" and "rr_child r = c"
proof -
  obtain was s1 where 1: "child_is_live H c s = (was, s1)" by (rule prod.exhaust)
  from assms 1 obtain cl s2 where 2: "terminate_child H 2000 c s1 = Some (cl, s2)"
    by (auto simp: reap_child_def split: bind_split_asm)
  obtain live s3 where 3: "(if cc_verified cl then child_is_live H c s2 else (True, s2)) = (live, s3)"
    by (rule prod.exhaust)
  from assms 1 2 3 have r: "s' = s3" "rr_verified r = (\<not> live)" "rr_child r = c" by (auto simp: reap_child_def)
  have l: "later s s2" using child_is_live_seen(1) [OF 1] broker_children.stop_later [OF 2] quiet_later later_trans by blast
  have q: "quiet s2 s3" "\<not> live \<Longrightarrow> seen H s2 s3 (gone c)"
    using 3 child_is_live_seen(1,3) by (auto split: if_split_asm)
  show "later s s'" using l q(1) r(1) quiet_later later_trans by blast
  show "seen H s s' (gone c)" if "rr_verified r"
    using q(2) that r(1,2) l by (auto simp: later_def elim!: seen_mono)
  show "rr_child r = c" by (rule r)
qed

lemma reap_each_custody:
  assumes "reap_each H cs reg s = Some (outcome, reg', s')" and "registry_inv reg"
  shows "custody H reg s reg' s' \<and> registry_inv reg'
     \<and> (\<forall>rs. outcome = Inr rs \<longrightarrow> List.map rr_child rs = cs \<and> list_all rr_verified rs
          \<and> registered reg' = registered reg |` (- ch_pgid ` set cs))"
  using assms
proof (induction cs arbitrary: reg s outcome)
  case Nil
  then show ?case by (auto simp: custody_refl)
next
  case (Cons c cs)
  from Cons.prems(1) obtain r s1 where 1: "reap_child H c s = Some (r, s1)" by (auto split: bind_split_asm)
  note r = reap_child_verified [OF 1]
  have t: "rs_time s \<le> rs_time s1" using r(1) by (simp add: later_def)
  show ?case
  proof (cases "rr_verified r")
    case False
    with Cons.prems 1 t show ?thesis by (auto intro: custody_refl)
  next
    case True
    obtain u reg1 s2 where 2: "unregister H (ch_pgid c) reg s1 = (u, reg1, s2)" by (rule prod_cases3)
    note ue = unregister_effect [OF 2]
    have c1: "custody H reg s reg1 s2"
      using unregister_custody [OF 2 _ t] r(2) [OF True] by (simp add: gone_def [abs_def])
    show ?thesis
    proof (cases u)
      case (Inl e)
      with Cons.prems 1 True 2 c1 ue(3) show ?thesis by auto
    next
      case (Inr x)
      with Cons.prems(1) 1 True 2 obtain o3 where 3: "reap_each H cs reg1 s2 = Some (o3, reg', s')"
        and o: "outcome = (case o3 of Inl e \<Rightarrow> Inl e | Inr rs \<Rightarrow> Inr (r # rs))"
        by (auto split: bind_split_asm)
      note IH = Cons.IH [OF 3 ue(3) [OF Cons.prems(2)]]
      have "registered reg1 |` (- ch_pgid ` set cs) = registered reg |` (- ch_pgid ` set (c # cs))"
        by (auto simp: ue(2) restrict_map_def fun_eq_iff)
      with IH o True r(3) custody_trans [OF c1] show ?thesis by (auto split: sum.split_asm)
    qed
  qed
qed

text \<open>Reaping before an admission never loses a child: whether it succeeds or raises (a survivor, a write
  error), a child that has left the registry had its process group observed to be gone; when it succeeds,
  every child was verified and none is left.  This holds for every history, so also when children exit,
  fork or ignore signals while they are reaped.
\<close>

theorem reaping_never_loses_a_child:
  assumes "reap_orphaned_children H reg s = Some (outcome, reg', s')" and "registry_inv reg"
  shows "custody H reg s reg' s'
     \<and> (case outcome of Inl e \<Rightarrow> True
        | Inr rs \<Rightarrow> List.map rr_child rs = snapshot reg \<and> list_all rr_verified rs \<and> registered reg' = Map.empty)"
proof -
  note r = reap_each_custody [OF assms(1) [unfolded reap_orphaned_children_def] assms(2)]
  have "registered reg |` (- ch_pgid ` set (snapshot reg)) = Map.empty"
  proof
    fix k
    show "(registered reg |` (- ch_pgid ` set (snapshot reg))) k = None"
    proof (cases "registered reg k")
      case (Some c)
      then have "(k, c) \<in> set (rg_children reg)" by (simp add: registered_def map_of_SomeD)
      with assms(2) have "ch_pgid c = k" by (auto simp: registry_inv_def list_all_iff)
      with Some have "k \<in> ch_pgid ` set (snapshot reg)" using mem_snapshot [OF assms(2), of c] by force
      then show ?thesis by simp
    qed (simp add: restrict_map_def)
  qed
  with r show ?thesis by (auto split: sum.split)
qed

definition orphan_history :: history where
  "orphan_history t = \<lparr>sn_group = (\<lambda>g. g = 42 \<and> t < 9), sn_identity = (\<lambda>p. None),
     sn_ticks = (\<lambda>p. None), sn_alive = (\<lambda>p. False), sn_getpgid = (\<lambda>p. None),
     sn_kill = (\<lambda>g sig. K_sent), sn_now = int t * 100, sn_own_group = 9, sn_marker = False, sn_write_error = None\<rparr>"

definition orphan_registry :: registry where
  "orphan_registry = \<lparr>rg_children = [(42, \<lparr>ch_attempt = ''a1'', ch_pid = 42, ch_pgid = 42, ch_ticks = Some 7,
     ch_identity = Some ''linux-proc:7''\<rparr>)], rg_file = []\<rparr>"

lemma orphan_run: "map_option (\<lambda>(r, reg, s). (isl r, rg_children reg, rs_signals s))
    (reap_orphaned_children orphan_history orphan_registry start_run) = Some (False, [], [(4, 42, SIGTERM)])"
  by code_simp

lemma reaping_never_loses_a_child_witness:
  "\<exists>r reg' s'. reap_orphaned_children orphan_history orphan_registry start_run = Some (r, reg', s')
     \<and> custody orphan_history orphan_registry start_run reg' s'"
proof -
  from orphan_run obtain r reg' s' where "reap_orphaned_children orphan_history orphan_registry start_run = Some (r, reg', s')"
    by auto
  with reaping_never_loses_a_child [OF this] show ?thesis by (auto simp: registry_inv_def orphan_registry_def)
qed

section \<open>Acknowledgement\<close>

lemma broker_register_effect:
  assumes "broker_register H attempt pid reg s = (outcome, reg', s')"
  shows "quiet s s'" and "\<And>c. outcome = Inr c \<Longrightarrow> ch_pid c = pid \<and> ch_pgid c = pid
           \<and> registered reg' = (registered reg)(pid \<mapsto> c)"
    and "outcome = Inl e \<Longrightarrow> reg' = reg \<or> (\<exists>c. ch_pgid c = pid \<and> registered reg' = (registered reg)(pid \<mapsto> c))"
    and "registry_inv reg \<Longrightarrow> registry_inv reg'"
proof -
  define ticks where "ticks = sn_ticks (H (rs_time s)) pid"
  define ident where "ident = sn_identity (H (rs_time (tick s))) pid"
  define c where "c = \<lparr>ch_attempt = attempt, ch_pid = pid, ch_pgid = pid, ch_ticks = ticks, ch_identity = ident\<rparr>"
  have q: "quiet s (tick (tick s))" using quiet_trans quiet_tick by blast
  have c: "ch_pid c = pid" "ch_pgid c = pid" by (simp_all add: c_def)
  have "quiet s s' \<and> (\<forall>c. outcome = Inr c \<longrightarrow> ch_pid c = pid \<and> ch_pgid c = pid
           \<and> registered reg' = (registered reg)(pid \<mapsto> c))
    \<and> (outcome = Inl e \<longrightarrow> reg' = reg \<or> (\<exists>c. ch_pgid c = pid \<and> registered reg' = (registered reg)(pid \<mapsto> c)))
    \<and> (registry_inv reg \<longrightarrow> registry_inv reg')"
  proof (cases "ident = None \<or> ident = Some []")
    case True
    with assms q show ?thesis by (auto simp: broker_register_def observe_def ident_def ticks_def)
  next
    case False
    obtain r reg1 s1 where a: "add_child H pid c reg (tick (tick s)) = (r, reg1, s1)" by (rule prod_cases3)
    note ae = add_child_effect [OF a]
    have "reg' = reg1" "s' = s1" "\<And>x. outcome = Inr x \<Longrightarrow> x = c"
      using assms a False by (auto simp: broker_register_def observe_def c_def ident_def ticks_def split: sum.split_asm)
    with ae quiet_trans [OF q] c show ?thesis by metis
  qed
  then show "quiet s s'" and "\<And>c. outcome = Inr c \<Longrightarrow> ch_pid c = pid \<and> ch_pgid c = pid
           \<and> registered reg' = (registered reg)(pid \<mapsto> c)"
    and "outcome = Inl e \<Longrightarrow> reg' = reg \<or> (\<exists>c. ch_pgid c = pid \<and> registered reg' = (registered reg)(pid \<mapsto> c))"
    and "registry_inv reg \<Longrightarrow> registry_inv reg'" by blast+
qed

text \<open>What was seen before the handshake completed.\<close>

definition handshaken :: "history \<Rightarrow> child \<Rightarrow> run_state \<Rightarrow> run_state \<Rightarrow> bool" where
  "handshaken H c s s' \<longleftrightarrow> seen H s s' sn_marker \<and> seen H s s' (\<lambda>n. sn_getpgid n (ch_pid c) = Some (ch_pid c))
     \<and> seen H s s' (\<lambda>n. ch_identity c \<noteq> None \<and> sn_identity n (ch_pid c) = ch_identity c)"

lemma handshaken_later: "quiet s s1 \<Longrightarrow> handshaken H c s1 s' \<Longrightarrow> handshaken H c s s'"
  unfolding handshaken_def by (auto simp: quiet_def elim!: seen_mono)

lemma ownership_turn_cases:
  assumes "ownership_turn H c deadline s = (d, s')"
  shows "quiet s s'" and "d = Some (Inr ()) \<Longrightarrow> handshaken H c s s'"
    and "d = None \<Longrightarrow> seen H s s' (\<lambda>n. sn_now n < deadline)"
proof -
  obtain b s1 where 1: "record_is_alive H c s = (b, s1)" by (rule prod.exhaust)
  note r = record_is_alive_seen [OF 1]
  have id: "b \<Longrightarrow> seen H s s1 (\<lambda>n. ch_identity c \<noteq> None \<and> sn_identity n (ch_pid c) = ch_identity c)"
    using 1 by (auto simp: record_is_alive_def observe_def seen_def tick_def split: option.split_asm if_split_asm)
  show "quiet s s'" using assms 1 r(1)
    by (auto simp: ownership_turn_def Let_def observe_def quiet_def tick_def split: if_split_asm)
  show "handshaken H c s s'" if "d = Some (Inr ())"
  proof -
    from assms 1 that have "b" "sn_marker (H (rs_time s1))" "sn_getpgid (H (Suc (rs_time s1))) (ch_pid c) = Some (ch_pid c)"
      and s': "rs_time s' = Suc (Suc (rs_time s1))"
      by (auto simp: ownership_turn_def Let_def observe_def tick_def split: if_split_asm)
    moreover from id [OF \<open>b\<close>] s' have "seen H s s' (\<lambda>n. ch_identity c \<noteq> None \<and> sn_identity n (ch_pid c) = ch_identity c)"
      by (auto elim!: seen_mono)
    moreover have "rs_time s \<le> rs_time s1" using r(1) by (simp add: quiet_def)
    moreover have "seen H s s' sn_marker"
      unfolding seen_def by (intro exI [of _ "rs_time s1"]) (use calculation in simp)
    moreover have "seen H s s' (\<lambda>n. sn_getpgid n (ch_pid c) = Some (ch_pid c))"
      unfolding seen_def by (intro exI [of _ "Suc (rs_time s1)"]) (use calculation in simp)
    ultimately show ?thesis unfolding handshaken_def by blast
  qed
  show "seen H s s' (\<lambda>n. sn_now n < deadline)" if "d = None"
  proof -
    from assms 1 that have "\<exists>t. rs_time s1 \<le> t \<and> t < rs_time s' \<and> sn_now (H t) < deadline"
      by (auto simp: ownership_turn_def Let_def observe_def tick_def not_le split: if_split_asm)
        (meson le_SucI le_refl lessI)+
    with r(1) show ?thesis by (auto simp: seen_def quiet_def intro: order.trans)
  qed
qed

lemma wait_for_child_ownership_effect:
  assumes "wait_for_child_ownership H c timeout s = Some (r, s')"
  shows "quiet s s' \<and> (r = Inr () \<longrightarrow> handshaken H c s s')"
proof -
  define deadline where "deadline = sn_now (H (rs_time s)) + timeout"
  define P where "P s r s' \<longleftrightarrow> quiet s s' \<and> (r = Inr () \<longrightarrow> handshaken H c s s')" for s and r :: "string + unit" and s'
  have extend: "P s1 r s' \<Longrightarrow> quiet s s1 \<Longrightarrow> P s r s'" for s s1 r s'
    unfolding P_def using quiet_trans handshaken_later by blast
  from assms have "poll (ownership_turn H c deadline) (tick s) = Some (r, s')"
    by (simp add: wait_for_child_ownership_def observe_def deadline_def)
  then have "P (tick s) r s'"
  proof (rule poll_rule [where P = P])
    fix s r s' assume "ownership_turn H c deadline s = (Some r, s')"
    then show "P s r s'" unfolding P_def using ownership_turn_cases by blast
  next
    fix s s1 r s'
    assume t: "ownership_turn H c deadline s = (None, s1)" and "P (tick s1) r s'"
    from ownership_turn_cases(1) [OF t] have "quiet s (tick s1)" using quiet_trans quiet_tick by blast
    with \<open>P (tick s1) r s'\<close> show "P s r s'" by (rule extend)
  qed
  then have "P s r s'" by (rule extend) simp
  then show ?thesis by (simp add: P_def)
qed

lemma wait_for_child_ownership_returns:
  assumes "clock_advances H"
  shows "wait_for_child_ownership H c timeout s \<noteq> None"
proof -
  have "\<exists>r s'. poll (ownership_turn H c (sn_now (H (rs_time s)) + timeout)) (tick s) = Some (r, s')"
    by (rule poll_returns [OF assms]) (rule ownership_turn_cases(3), assumption, simp)
  then show ?thesis by (auto simp: wait_for_child_ownership_def observe_def)
qed

lemma abandon_child_effect:
  assumes "abandon_child H e c reg s = Some (outcome, reg', s')" and "registry_inv reg" and "ch_pgid c = ch_pid c"
  shows "registry_inv reg'" and "\<exists>e'. outcome = Inl e'" and "custody H reg s reg' s'"
    and "k \<noteq> ch_pid c \<Longrightarrow> registered reg' k = registered reg k"
proof -
  from assms(1) obtain cl s1 where 1: "terminate_child H 2000 c s = Some (cl, s1)"
    by (auto simp: abandon_child_def split: bind_split_asm)
  note l = broker_children.stop_later [OF 1]
  obtain live s2 where 2: "broker_group_alive H (ch_pid c) s1 = (live, s2)" by (rule prod.exhaust)
  note g = broker_group_alive_seen [OF 2]
  have t: "rs_time s \<le> rs_time s2" using l g(1) by (simp add: later_def quiet_def)
  have "registry_inv reg' \<and> (\<exists>e'. outcome = Inl e') \<and> custody H reg s reg' s'
    \<and> (\<forall>k. k \<noteq> ch_pid c \<longrightarrow> registered reg' k = registered reg k)"
  proof (cases live)
    case True
    with assms 1 2 t show ?thesis by (auto simp: abandon_child_def custody_refl)
  next
    case False
    obtain u reg1 s3 where 3: "unregister H (ch_pid c) reg s2 = (u, reg1, s3)" by (rule prod_cases3)
    have "seen H s s2 (\<lambda>n. \<not> sn_group n (ch_pid c))"
      using g(3) [OF False] l by (auto simp: later_def elim!: seen_mono)
    then have "custody H reg s reg1 s3" using unregister_custody [OF 3 _ t] by blast
    moreover have "reg' = reg1" "s' = s3" "\<exists>e'. outcome = Inl e'"
      using assms(1) 1 2 3 False by (auto simp: abandon_child_def split: sum.split_asm)
    ultimately show ?thesis using unregister_effect(2,3) [OF 3] assms(2) by simp
  qed
  then show "registry_inv reg'" and "\<exists>e'. outcome = Inl e'" and "custody H reg s reg' s'"
    and "k \<noteq> ch_pid c \<Longrightarrow> registered reg' k = registered reg k" by blast+
qed

lemma acknowledge_effect:
  assumes "acknowledge_registered_child H attempt pid timeout reg s = Some (outcome, reg', s')" and "registry_inv reg"
  shows "rs_time s \<le> rs_time s' \<and> registry_inv reg' \<and> registered reg' |` (- {pid}) = registered reg |` (- {pid})
     \<and> (case outcome of
          Inr c \<Rightarrow> ch_pid c = pid \<and> registered reg' pid = Some c \<and> handshaken H c s s'
        | Inl e \<Rightarrow> reg' = reg \<or> (\<exists>c. ch_pgid c = pid \<and> registered reg' pid = Some c)
            \<or> seen H s s' (\<lambda>n. \<not> sn_group n pid))"
proof -
  obtain r reg1 s1 where 1: "broker_register H attempt pid reg s = (r, reg1, s1)" by (rule prod_cases3)
  note re = broker_register_effect [OF 1]
  show ?thesis
  proof (cases r)
    case (Inl e)
    with assms(1) 1 have "outcome = Inl e" "reg' = reg1" "s' = s1" by (auto simp: acknowledge_registered_child_def)
    with re(1) re(3) [OF Inl] re(4) [OF assms(2)] show ?thesis by (auto simp: quiet_def restrict_map_def fun_eq_iff)
  next
    case (Inr c)
    note c = re(2) [OF Inr]
    have inv: "registry_inv reg1" by (rule re(4) [OF assms(2)])
    define s2 where "s2 = tick s1"
    have t: "quiet s s2" using re(1) quiet_trans quiet_tick unfolding s2_def by blast
    have ab: ?thesis if "abandon_child H e c reg1 s3 = Some (outcome, reg', s')" "quiet s s3" for e s3
    proof -
      note a = abandon_child_effect [OF that(1) inv]
      have "custody H reg1 s3 reg' s'" "registered reg1 pid = Some c" using a(3) c by simp_all
      then have "registered reg' pid = Some c \<or> seen H s3 s' (\<lambda>n. \<not> sn_group n pid)" by (simp add: custody_def)
      then have "registered reg' pid = Some c \<or> seen H s s' (\<lambda>n. \<not> sn_group n pid)"
        using seen_mono [of H s3 s' _ s s'] that(2) by (auto simp: quiet_def)
      moreover have "registered reg' k = registered reg k" if "k \<noteq> pid" for k using a(4) [of k] that c by simp
      moreover have "rs_time s \<le> rs_time s'" using a(3) that(2) c by (simp add: custody_def quiet_def)
      ultimately show ?thesis using a(1,2) c by (auto simp: restrict_map_def fun_eq_iff)
    qed
    show ?thesis
    proof (cases "sn_write_error (H (rs_time s1))")
      case (Some e)
      with assms(1) 1 Inr have "abandon_child H e c reg1 s2 = Some (outcome, reg', s')"
        by (simp add: acknowledge_registered_child_def observe_def s2_def)
      then show ?thesis using t by (rule ab)
    next
      case None
      with assms(1) 1 Inr obtain o3 s3 where w: "wait_for_child_ownership H c timeout s2 = Some (o3, s3)"
        and rest: "(case o3 of Inl e \<Rightarrow> abandon_child H e c reg1 s3 | Inr _ \<Rightarrow> Some (Inr c, reg1, s3)) = Some (outcome, reg', s')"
        by (auto simp: acknowledge_registered_child_def observe_def s2_def split: bind_split_asm)
      note we = wait_for_child_ownership_effect [OF w]
      have t3: "quiet s s3" using t we quiet_trans by blast
      show ?thesis
      proof (cases o3)
        case (Inl e)
        with rest show ?thesis using ab t3 by simp
      next
        case (Inr x)
        with rest we have "outcome = Inr c" "reg' = reg1" "s' = s3" "handshaken H c s2 s3" by auto
        with handshaken_later [OF t] t3 c inv show ?thesis by (auto simp: quiet_def restrict_map_def fun_eq_iff)
      qed
    qed
  qed
qed

text \<open>The broker's registration handshake.  A child is handed to the caller only when it is registered, its
  recorded birth identity was seen, its ownership marker was seen, and it led its own process group.  When
  the handshake fails, the child is still registered, or its process group was observed to be gone, or it
  was never registered (its birth identity could not be read); other children stay registered throughout.
\<close>

theorem acknowledged_children_are_registered:
  assumes "acknowledge_registered_child H attempt pid timeout reg s = Some (outcome, reg', s')" and "registry_inv reg"
  shows "registry_inv reg' \<and> registered reg' |` (- {pid}) = registered reg |` (- {pid})
     \<and> (case outcome of
          Inr c \<Rightarrow> ch_pid c = pid \<and> registered reg' pid = Some c \<and> handshaken H c s s'
        | Inl e \<Rightarrow> reg' = reg \<or> (\<exists>c. ch_pgid c = pid \<and> registered reg' pid = Some c)
            \<or> seen H s s' (\<lambda>n. \<not> sn_group n pid))"
  using acknowledge_effect [OF assms] by blast

definition spawning_child :: history where
  "spawning_child t = \<lparr>sn_group = (\<lambda>g. g = 42), sn_identity = (\<lambda>p. Some ''linux-proc:7''),
     sn_ticks = (\<lambda>p. Some 7), sn_alive = (\<lambda>p. True), sn_getpgid = (\<lambda>p. Some p),
     sn_kill = (\<lambda>g sig. K_sent), sn_now = int t * 100, sn_own_group = 9, sn_marker = (7 < t), sn_write_error = None\<rparr>"

lemma acknowledge_run: "map_option (\<lambda>(r, reg, s). (isl r, List.map fst (rg_children reg), rs_signals s))
    (acknowledge_registered_child spawning_child ''a1'' 42 2000 new_registry start_run) = Some (False, [42], [])"
  by code_simp

lemma acknowledged_children_are_registered_witness:
  "\<exists>c reg' s'. acknowledge_registered_child spawning_child ''a1'' 42 2000 new_registry start_run = Some (Inr c, reg', s')
     \<and> registered reg' 42 = Some c \<and> handshaken spawning_child c start_run s'"
proof -
  from acknowledge_run obtain r reg' s' where
    a: "acknowledge_registered_child spawning_child ''a1'' 42 2000 new_registry start_run = Some (r, reg', s')" "\<not> isl r"
    by auto
  then obtain c where "r = Inr c" by (cases r) auto
  with acknowledged_children_are_registered [OF a(1) new_registry_inv] a(1) show ?thesis by auto
qed

end
