(* ===== verification/Broker_Attempts.thy ===== *)
theory Broker_Attempts
  imports Broker_Children_Props
begin

text \<open>
  One attempt served by the fork broker, \<open>ForkBroker._serve_attempt\<close> of \<open>proof_run_fork_broker.py\<close>: prior
  orphans are reaped, a child is spawned and registered, the connection is served until the child ends or
  the controller cancels or fails, and the child is settled.  What the connection delivers is a list of
  inputs, one per turn of the loop; a list that runs out before the attempt ends gives no result.
\<close>

text \<open>
  A turn of the serving loop: nothing to read, end of file, a raw frame, malformed JSON, another operation,
  unexpected fields, a cancel for another attempt, a cancel, or an exception of the transport.
\<close>

datatype attempt_input = Idle | Disconnected | Raw_frame | Bad_json | Not_cancel | Bad_fields | Wrong_attempt
  | Cancel | Output_error string | Receive_error string

record attempt_env =
  ae_attempt :: string
  ae_spawn :: "string + int"
  ae_spawn_timeout :: int
  ae_spawned_error :: "string option"
  ae_inputs :: "attempt_input list"
  ae_drain_error :: "string option"
  ae_completed_error :: "string option"

record completion =
  co_child :: child
  co_termination :: string
  co_seat_reusable :: bool

record broker =
  br_active :: "string list"
  br_registry :: registry

text \<open>How the serving loop ends: an exception, or why it ended and whether quiescence was verified.\<close>

type_synonym attempt_end = "string + string \<times> bool"

definition stop_and_raise :: "history \<Rightarrow> child \<Rightarrow> string \<Rightarrow> run_state \<Rightarrow> (attempt_end option \<times> run_state) option" where
  "stop_and_raise H c e s = do {
     (_, s) \<leftarrow> terminate_child H 2000 c s;
     Some (Some (Inl e), s)
   }"

definition stop_and_report :: "history \<Rightarrow> child \<Rightarrow> string \<Rightarrow> run_state \<Rightarrow> (attempt_end option \<times> run_state) option" where
  "stop_and_report H c termination s = do {
     (cl, s) \<leftarrow> terminate_child H 2000 c s;
     Some (Some (Inr (termination, cc_verified cl)), s)
   }"

definition answer_input :: "history \<Rightarrow> child \<Rightarrow> attempt_input \<Rightarrow> run_state \<Rightarrow> (attempt_end option \<times> run_state) option" where
  "answer_input H c i s =
     (case i of
        Idle \<Rightarrow> Some (None, s)
      | Disconnected \<Rightarrow> stop_and_report H c ''controller_disconnected'' s
      | Raw_frame \<Rightarrow> stop_and_raise H c ''BrokerProtocolError: raw output'' s
      | Bad_json \<Rightarrow> stop_and_raise H c ''BrokerProtocolError: malformed attempt control'' s
      | Not_cancel \<Rightarrow> stop_and_raise H c ''BrokerProtocolError: only explicit cancel'' s
      | Bad_fields \<Rightarrow> Some (Some (Inl ''BrokerProtocolError: unexpected fields''), s)
      | Wrong_attempt \<Rightarrow> stop_and_raise H c ''BrokerProtocolError: cancel does not identify the active attempt'' s
      | Cancel \<Rightarrow> stop_and_report H c ''explicit_cancel'' s
      | Output_error e \<Rightarrow> Some (Some (Inl e), s)
      | Receive_error e \<Rightarrow> Some (Some (Inl e), s))"

text \<open>One turn: send the new output, look at the process group, then at the connection.\<close>

definition attempt_turn :: "history \<Rightarrow> child \<Rightarrow> attempt_input \<Rightarrow> run_state \<Rightarrow> (attempt_end option \<times> run_state) option" where
  "attempt_turn H c i s =
     (case i of
        Output_error e \<Rightarrow> Some (Some (Inl e), s)
      | _ \<Rightarrow>
          let (live, s) = broker_group_alive H (ch_pgid c) s
          in if live then answer_input H c i s
             else do {
               (quiescent, s) \<leftarrow> wait_for_child_quiescence H c 2000 s;
               Some (Some (Inr (''child_exited'', quiescent)), s)
             })"

fun attempt_loop :: "history \<Rightarrow> child \<Rightarrow> attempt_input list \<Rightarrow> run_state \<Rightarrow> (attempt_end \<times> run_state) option" where
  "attempt_loop H c [] s = None"
| "attempt_loop H c (i # is) s = do {
     (ended, s) \<leftarrow> attempt_turn H c i s;
     case ended of Some r \<Rightarrow> Some (r, s) | None \<Rightarrow> attempt_loop H c is (tick s)
   }"

text \<open>The \<open>except\<close> clause: the child is terminated, and forgotten when it is verifiably gone.\<close>

definition recover_child :: "history \<Rightarrow> child \<Rightarrow> string \<Rightarrow> registry \<Rightarrow> run_state
    \<Rightarrow> ((string + completion) \<times> registry \<times> run_state) option" where
  "recover_child H c e reg s = do {
     (cl, s) \<leftarrow> terminate_child H 2000 c s;
     let (live, s) = (if cc_verified cl then broker_group_alive H (ch_pgid c) s else (True, s))
     in if live then Some (Inl e, reg, s)
        else case unregister H (ch_pgid c) reg s of
               (Inl e', reg, s) \<Rightarrow> Some (Inl e', reg, s)
             | (Inr _, reg, s) \<Rightarrow> Some (Inl e, reg, s)
   }"

text \<open>After the loop: drain the output, forget the verified child, report.\<close>

definition settle_child :: "history \<Rightarrow> attempt_env \<Rightarrow> child \<Rightarrow> string \<Rightarrow> bool \<Rightarrow> registry \<Rightarrow> run_state
    \<Rightarrow> ((string + completion) \<times> registry \<times> run_state) option" where
  "settle_child H env c termination quiescent reg s =
     (case ae_drain_error env of
        Some e \<Rightarrow> recover_child H c e reg s
      | None \<Rightarrow>
          let (live, s) = (if quiescent then broker_group_alive H (ch_pgid c) s else (True, s));
              verified = (\<not> live);
              (forgot, reg, s) = (if verified then unregister H (ch_pgid c) reg s else (Inr (), reg, s))
          in case forgot of
               Inl e \<Rightarrow> recover_child H c e reg s
             | Inr _ \<Rightarrow>
                 (case ae_completed_error env of
                    Some e \<Rightarrow> recover_child H c e reg s
                  | None \<Rightarrow> Some (Inr \<lparr>co_child = c, co_termination = termination, co_seat_reusable = verified\<rparr>, reg, s)))"

definition serve_child :: "history \<Rightarrow> attempt_env \<Rightarrow> child \<Rightarrow> registry \<Rightarrow> run_state
    \<Rightarrow> ((string + completion) \<times> registry \<times> run_state) option" where
  "serve_child H env c reg s =
     (case ae_spawned_error env of
        Some e \<Rightarrow> recover_child H c e reg s
      | None \<Rightarrow> do {
          (ended, s) \<leftarrow> attempt_loop H c (ae_inputs env) s;
          case ended of
            Inl e \<Rightarrow> recover_child H c e reg s
          | Inr (termination, quiescent) \<Rightarrow> settle_child H env c termination quiescent reg s
        })"

definition spawn_and_serve :: "history \<Rightarrow> attempt_env \<Rightarrow> registry \<Rightarrow> run_state
    \<Rightarrow> ((string + completion) \<times> registry \<times> run_state) option" where
  "spawn_and_serve H env reg s =
     (case ae_spawn env of
        Inl e \<Rightarrow> Some (Inl e, reg, s)
      | Inr pid \<Rightarrow> do {
          (spawned, reg, s) \<leftarrow> acknowledge_registered_child H (ae_attempt env) pid (ae_spawn_timeout env) reg s;
          case spawned of Inl e \<Rightarrow> Some (Inl e, reg, s) | Inr c \<Rightarrow> serve_child H env c reg s
        })"

definition serve_attempt :: "history \<Rightarrow> attempt_env \<Rightarrow> broker \<Rightarrow> run_state
    \<Rightarrow> ((string + completion) \<times> broker \<times> run_state) option" where
  "serve_attempt H env br s =
     (if ae_attempt env \<in> set (br_active br)
      then Some (Inl ''RuntimeError: broker already owns this active attempt'', br, s)
      else do {
        (reaped, reg, s) \<leftarrow> (if br_active br = [] then reap_orphaned_children H (br_registry br) s
                             else Some (Inr [], br_registry br, s));
        case reaped of
          Inl e \<Rightarrow> Some (Inl e, br\<lparr>br_registry := reg\<rparr>, s)
        | Inr _ \<Rightarrow> do {
            (outcome, reg, s) \<leftarrow> spawn_and_serve H env reg s;
            Some (outcome, br\<lparr>br_registry := reg\<rparr>, s)
          }
      })"

text \<open>
  The attempt is active only while it is served: \<open>active_attempt_ids\<close> is as before when it ends, whatever the
  outcome, so the model leaves \<open>br_active\<close> unchanged.
\<close>

end
