(* ===== verification/Broker_Attempts_Props.thy ===== *)
theory Broker_Attempts_Props
  imports Broker_Attempts
begin

text \<open>
  What the broker keeps of its children over a whole attempt, and when it reports that the seat may be used
  again.
\<close>

lemma stopped_later:
  "stop_and_raise H c e s = Some (r, s') \<Longrightarrow> later s s'"
  "stop_and_report H c t s = Some (r, s') \<Longrightarrow> later s s'"
  by (auto simp: stop_and_raise_def stop_and_report_def split: bind_split_asm dest!: broker_children.stop_later)

lemma attempt_turn_later:
  assumes "attempt_turn H c i s = Some (r, s')"
  shows "later s s'"
proof (cases "\<exists>e. i = Output_error e")
  case True
  with assms show ?thesis by (auto simp: attempt_turn_def)
next
  case False
  obtain live s1 where 1: "broker_group_alive H (ch_pgid c) s = (live, s1)" by (rule prod.exhaust)
  have q: "later s s1" using broker_group_alive_seen(1) [OF 1] by (rule quiet_later)
  have "later s1 s'"
  proof (cases live)
    case False
    with assms 1 \<open>\<not> (\<exists>e. i = Output_error e)\<close> obtain b where "wait_for_child_quiescence H c 2000 s1 = Some (b, s')"
      by (cases i) (auto simp: attempt_turn_def split: bind_split_asm)
    from wait_for_child_quiescence_settled [OF this] show ?thesis by (auto simp: settled_def intro: quiet_later)
  next
    case True
    with assms 1 False have "answer_input H c i s1 = Some (r, s')" by (cases i) (auto simp: attempt_turn_def)
    with stopped_later show ?thesis by (cases i) (auto simp: answer_input_def)
  qed
  with q later_trans show ?thesis by blast
qed

lemma attempt_loop_later: "attempt_loop H c is s = Some (r, s') \<Longrightarrow> later s s'"
proof (induction "is" arbitrary: s)
  case (Cons i "is")
  then obtain d s1 where 1: "attempt_turn H c i s = Some (d, s1)"
    and rest: "(case d of Some r \<Rightarrow> Some (r, s1) | None \<Rightarrow> attempt_loop H c is (tick s1)) = Some (r, s')"
    by (auto split: bind_split_asm)
  note l = attempt_turn_later [OF 1]
  show ?case
  proof (cases d)
    case None
    with rest Cons.IH have "later (tick s1) s'" by simp
    with l later_tick later_trans show ?thesis by blast
  next
    case (Some x)
    with rest l show ?thesis by simp
  qed
qed simp

text \<open>The records of other children, and custody, over a part of an attempt.\<close>

definition attends :: "history \<Rightarrow> int \<Rightarrow> registry \<Rightarrow> run_state \<Rightarrow> registry \<Rightarrow> run_state \<Rightarrow> bool" where
  "attends H k reg s reg' s' \<longleftrightarrow> custody H reg s reg' s' \<and> (registry_inv reg \<longrightarrow> registry_inv reg')
     \<and> registered reg' |` (- {k}) = registered reg |` (- {k})"

lemma attends_refl: "rs_time s \<le> rs_time s' \<Longrightarrow> attends H k reg s reg s'"
  by (simp add: attends_def custody_refl)

lemma attends_trans: "attends H k r1 s1 r2 s2 \<Longrightarrow> attends H k r2 s2 r3 s3 \<Longrightarrow> attends H k r1 s1 r3 s3"
  unfolding attends_def using custody_trans by metis

lemma unregister_attends:
  assumes "unregister H k reg s = (r, reg', s')" and "seen H s0 s (\<lambda>n. \<not> sn_group n k)" and "rs_time s0 \<le> rs_time s"
  shows "attends H k reg s0 reg' s'"
  using unregister_custody [OF assms] unregister_effect(2,3) [OF assms(1)]
  by (auto simp: attends_def restrict_map_def fun_eq_iff)

lemma recover_child_attends:
  assumes "recover_child H c e reg s = Some (outcome, reg', s')"
  shows "attends H (ch_pgid c) reg s reg' s'" and "\<exists>e'. outcome = Inl e'"
proof -
  from assms obtain cl s1 where 1: "terminate_child H 2000 c s = Some (cl, s1)"
    by (auto simp: recover_child_def split: bind_split_asm)
  obtain live s2 where 2: "(if cc_verified cl then broker_group_alive H (ch_pgid c) s1 else (True, s1)) = (live, s2)"
    by (rule prod.exhaust)
  have q: "quiet s1 s2" "\<not> live \<Longrightarrow> seen H s1 s2 (\<lambda>n. \<not> sn_group n (ch_pgid c))"
    using 2 broker_group_alive_seen(1,3) by (auto split: if_split_asm)
  have t: "rs_time s \<le> rs_time s1" "rs_time s \<le> rs_time s2"
    using broker_children.stop_later [OF 1] q(1) by (auto simp: later_def quiet_def)
  have "attends H (ch_pgid c) reg s reg' s' \<and> (\<exists>e'. outcome = Inl e')"
  proof (cases live)
    case True
    with assms 1 2 t show ?thesis by (auto simp: recover_child_def attends_refl)
  next
    case False
    obtain u reg1 s3 where 3: "unregister H (ch_pgid c) reg s2 = (u, reg1, s3)" by (rule prod_cases3)
    have "seen H s s2 (\<lambda>n. \<not> sn_group n (ch_pgid c))" using q(2) [OF False] by (rule seen_mono) (use t in simp_all)
    from unregister_attends [OF 3 this t(2)] assms 1 2 3 False show ?thesis
      by (auto simp: recover_child_def split: sum.split_asm)
  qed
  then show "attends H (ch_pgid c) reg s reg' s'" and "\<exists>e'. outcome = Inl e'" by simp_all
qed

text \<open>The seat is reported reusable exactly when the child is forgotten, its group having been seen gone.\<close>

definition reported :: "history \<Rightarrow> child \<Rightarrow> run_state \<Rightarrow> (string + completion) \<Rightarrow> registry \<Rightarrow> run_state \<Rightarrow> bool" where
  "reported H c s outcome reg' s' \<longleftrightarrow>
     (case outcome of Inl e \<Rightarrow> True
      | Inr d \<Rightarrow> co_child d = c \<and> (co_seat_reusable d \<longleftrightarrow> registered reg' (ch_pgid c) = None)
          \<and> (co_seat_reusable d \<longrightarrow> seen H s s' (\<lambda>n. \<not> sn_group n (ch_pgid c))))"

lemma settle_child_attends:
  assumes "settle_child H env c t q reg s = Some (outcome, reg', s')" and "registered reg (ch_pgid c) = Some c"
  shows "attends H (ch_pgid c) reg s reg' s' \<and> reported H c s outcome reg' s'"
proof (cases "ae_drain_error env")
  case (Some e)
  with assms(1) have "recover_child H c e reg s = Some (outcome, reg', s')" by (simp add: settle_child_def)
  from recover_child_attends [OF this] show ?thesis by (auto simp: reported_def)
next
  case None
  obtain live s1 where 1: "(if q then broker_group_alive H (ch_pgid c) s else (True, s)) = (live, s1)"
    by (rule prod.exhaust)
  have g: "quiet s s1" "\<not> live \<Longrightarrow> seen H s s1 (\<lambda>n. \<not> sn_group n (ch_pgid c))"
    using 1 broker_group_alive_seen(1,3) by (auto split: if_split_asm)
  obtain u reg1 s2 where 2: "(if \<not> live then unregister H (ch_pgid c) reg s1 else (Inr (), reg, s1)) = (u, reg1, s2)"
    by (rule prod_cases3)
  have t: "rs_time s \<le> rs_time s1" "rs_time s1 \<le> rs_time s2"
    using g(1) 2 unregister_effect(1) by (auto simp: quiet_def split: if_split_asm)
  have a: "attends H (ch_pgid c) reg s reg1 s2"
    using 2 unregister_attends [of H "ch_pgid c" reg s1 u reg1 s2 s] g(2) t attends_refl
    by (auto split: if_split_asm)
  have r: "registered reg1 (ch_pgid c) = (if live then Some c else None)"
    using 2 assms(2) unregister_effect(2) by (auto split: if_split_asm)
  have recover: ?thesis if "recover_child H c e reg1 s2 = Some (outcome, reg', s')" for e
    using recover_child_attends [OF that] attends_trans [OF a] by (auto simp: reported_def)
  show ?thesis
  proof (cases u)
    case (Inl e)
    with assms(1) None 1 2 recover show ?thesis by (auto simp: settle_child_def)
  next
    case (Inr x)
    show ?thesis
    proof (cases "ae_completed_error env")
      case (Some e)
      with assms(1) None 1 2 Inr recover show ?thesis by (auto simp: settle_child_def)
    next
      case N: None
      with assms(1) None 1 2 Inr have o: "outcome = Inr \<lparr>co_child = c, co_termination = t, co_seat_reusable = \<not> live\<rparr>"
        "reg' = reg1" "s' = s2" by (auto simp: settle_child_def)
      have "\<not> live \<Longrightarrow> seen H s s2 (\<lambda>n. \<not> sn_group n (ch_pgid c))"
        using g(2) t by (auto elim!: seen_mono)
      with a r o show ?thesis by (simp add: reported_def)
    qed
  qed
qed

lemma serve_child_attends:
  assumes "serve_child H env c reg s = Some (outcome, reg', s')" and "registered reg (ch_pgid c) = Some c"
  shows "attends H (ch_pgid c) reg s reg' s' \<and> reported H c s outcome reg' s'"
proof (cases "ae_spawned_error env")
  case (Some e)
  with assms(1) have "recover_child H c e reg s = Some (outcome, reg', s')" by (simp add: serve_child_def)
  from recover_child_attends [OF this] show ?thesis by (auto simp: reported_def)
next
  case None
  with assms(1) obtain ended s1 where 1: "attempt_loop H c (ae_inputs env) s = Some (ended, s1)"
    and rest: "(case ended of Inl e \<Rightarrow> recover_child H c e reg s1
       | Inr (termination, quiescent) \<Rightarrow> settle_child H env c termination quiescent reg s1) = Some (outcome, reg', s')"
    by (auto simp: serve_child_def split: bind_split_asm)
  have t: "rs_time s \<le> rs_time s1" using attempt_loop_later [OF 1] by (simp add: later_def)
  note a = attends_trans [OF attends_refl [OF t]]
  show ?thesis
  proof (cases ended)
    case (Inl e)
    with rest have "recover_child H c e reg s1 = Some (outcome, reg', s')" by simp
    from recover_child_attends [OF this] a show ?thesis by (auto simp: reported_def)
  next
    case (Inr x)
    with rest have "settle_child H env c (fst x) (snd x) reg s1 = Some (outcome, reg', s')" by (simp split: prod.split_asm)
    from settle_child_attends [OF this assms(2)] a t show ?thesis
      by (auto simp: reported_def elim!: seen_mono split: sum.split_asm)
  qed
qed

lemma spawn_and_serve_attends:
  assumes "spawn_and_serve H env reg s = Some (outcome, reg', s')" and "registry_inv reg"
    and "ae_spawn env = Inr pid" and "registered reg pid = None"
  shows "attends H pid reg s reg' s'"
    and "case outcome of Inl e \<Rightarrow> True | Inr d \<Rightarrow> ch_pgid (co_child d) = pid \<and> reported H (co_child d) s outcome reg' s'"
proof -
  from assms(1,3) obtain r reg1 s1 where 1: "acknowledge_registered_child H (ae_attempt env) pid (ae_spawn_timeout env) reg s
      = Some (r, reg1, s1)"
    and rest: "(case r of Inl e \<Rightarrow> Some (Inl e, reg1, s1) | Inr c \<Rightarrow> serve_child H env c reg1 s1) = Some (outcome, reg', s')"
    by (auto simp: spawn_and_serve_def split: bind_split_asm)
  note ack = acknowledge_effect [OF 1 assms(2)]
  have a: "attends H pid reg s reg1 s1"
  proof -
    have "registered reg1 k = registered reg k" if "k \<noteq> pid" for k
      using ack that by (auto simp: restrict_map_def fun_eq_iff split: if_split_asm)
    with ack assms(4) show ?thesis by (auto simp: attends_def custody_def) (metis option.distinct(1))
  qed
  have "attends H pid reg s reg' s' \<and> (case outcome of Inl e \<Rightarrow> True
     | Inr d \<Rightarrow> ch_pgid (co_child d) = pid \<and> reported H (co_child d) s outcome reg' s')"
  proof (cases r)
    case (Inl e)
    with rest a show ?thesis by auto
  next
    case (Inr c)
    with ack have c: "registered reg1 pid = Some c" "registry_inv reg1" by simp_all
    then have "ch_pgid c = pid" by (auto simp: registered_def registry_inv_def list_all_iff dest!: map_of_SomeD)
    moreover from rest Inr have "serve_child H env c reg1 s1 = Some (outcome, reg', s')" by simp
    moreover note serve_child_attends [OF this]
    ultimately have x: "attends H pid reg1 s1 reg' s'" "reported H c s1 outcome reg' s'" using c by simp_all
    then have "reported H c s outcome reg' s'"
      using ack by (auto simp: reported_def elim!: seen_mono split: sum.split)
    with x(1) \<open>ch_pgid c = pid\<close> attends_trans [OF a] show ?thesis
      by (auto simp: reported_def split: sum.split_asm sum.split)
  qed
  then show "attends H pid reg s reg' s'"
    and "case outcome of Inl e \<Rightarrow> True | Inr d \<Rightarrow> ch_pgid (co_child d) = pid \<and> reported H (co_child d) s outcome reg' s'"
    by simp_all
qed

text \<open>C29: Serving an attempt keeps custody of every child and reports the seat truthfully.  Whatever the
  connection delivers and however the attempt ends (the child exits, the controller cancels, disconnects or
  violates the protocol, sending fails), a child that has left the registry had its process group observed
  to be gone; and the completion says that the seat may be reused exactly when this child was forgotten.
\<close>

theorem attempts_keep_custody:
  assumes "serve_attempt H env br s = Some (outcome, br', s')" and "registry_inv (br_registry br)"
    and "ae_spawn env = Inr pid" and "registered (br_registry br) pid = None"
  shows "custody H (br_registry br) s (br_registry br') s' \<and> registry_inv (br_registry br')
     \<and> (case outcome of Inl e \<Rightarrow> True | Inr d \<Rightarrow> ch_pgid (co_child d) = pid
          \<and> (co_seat_reusable d \<longleftrightarrow> registered (br_registry br') pid = None)
          \<and> (co_seat_reusable d \<longrightarrow> seen H s s' (\<lambda>n. \<not> sn_group n pid)))"
proof (cases "ae_attempt env \<in> set (br_active br)")
  case True
  with assms show ?thesis by (auto simp: serve_attempt_def custody_refl)
next
  case False
  with assms(1) obtain o1 reg1 s1 where 1: "(if br_active br = [] then reap_orphaned_children H (br_registry br) s
      else Some (Inr [], br_registry br, s)) = Some (o1, reg1, s1)"
    and rest: "(case o1 of Inl e \<Rightarrow> Some (Inl e, br\<lparr>br_registry := reg1\<rparr>, s1)
      | Inr _ \<Rightarrow> do {
          (outcome, reg, s) \<leftarrow> spawn_and_serve H env reg1 s1;
          Some (outcome, br\<lparr>br_registry := reg\<rparr>, s)
        }) = Some (outcome, br', s')"
    by (auto simp: serve_attempt_def split: bind_split_asm)
  have c1: "custody H (br_registry br) s reg1 s1 \<and> registry_inv reg1 \<and> (\<forall>rs. o1 = Inr rs \<longrightarrow> registered reg1 pid = None)"
  proof (cases "br_active br = []")
    case True
    with 1 have "reap_each H (snapshot (br_registry br)) (br_registry br) s = Some (o1, reg1, s1)"
      by (simp add: reap_orphaned_children_def)
    from reap_each_custody [OF this assms(2)] assms(4) show ?thesis by (auto simp: restrict_map_def)
  next
    case False
    with 1 assms(2,4) show ?thesis by (auto simp: custody_refl)
  qed
  have t: "rs_time s \<le> rs_time s1" using c1 by (simp add: custody_def)
  show ?thesis
  proof (cases o1)
    case (Inl e)
    with rest c1 show ?thesis by auto
  next
    case (Inr rs)
    with rest obtain reg2 where 2: "spawn_and_serve H env reg1 s1 = Some (outcome, reg2, s')" and br': "br_registry br' = reg2"
      by (auto split: bind_split_asm)
    have none: "registered reg1 pid = None" and inv: "registry_inv reg1" using c1 Inr by auto
    note a = spawn_and_serve_attends [OF 2 inv assms(3) none]
    have "custody H (br_registry br) s reg2 s' \<and> registry_inv reg2"
      using a(1) c1 custody_trans inv unfolding attends_def by blast
    with a(2) t br' show ?thesis by (auto simp: reported_def elim!: seen_mono split: sum.split)
  qed
qed

definition cancelled_attempt :: attempt_env where
  "cancelled_attempt = \<lparr>ae_attempt = ''a1'', ae_spawn = Inr 42, ae_spawn_timeout = 2000, ae_spawned_error = None,
     ae_inputs = [Idle, Cancel], ae_drain_error = None, ae_completed_error = None\<rparr>"

definition cancelled_history :: history where
  "cancelled_history t = (spawning_child t)\<lparr>sn_group := (\<lambda>g. g = 42 \<and> t < 20), sn_identity := (\<lambda>p. if t < 20 then Some ''linux-proc:7'' else None)\<rparr>"

definition idle_broker :: broker where
  "idle_broker = \<lparr>br_active = [], br_registry = new_registry\<rparr>"

lemma cancelled_run: "map_option (\<lambda>(r, br, s). (case r of Inr d \<Rightarrow> co_seat_reusable d | Inl _ \<Rightarrow> False,
      rg_children (br_registry br), List.map snd (rs_signals s)))
    (serve_attempt cancelled_history cancelled_attempt idle_broker start_run) = Some (True, [], [(42, SIGTERM)])"
  by code_simp

lemma attempts_keep_custody_witness:
  "\<exists>r br' s'. serve_attempt cancelled_history cancelled_attempt idle_broker start_run = Some (r, br', s')
     \<and> custody cancelled_history (br_registry idle_broker) start_run (br_registry br') s'"
proof -
  from cancelled_run obtain r br' s' where
    a: "serve_attempt cancelled_history cancelled_attempt idle_broker start_run = Some (r, br', s')"
    by (cases "serve_attempt cancelled_history cancelled_attempt idle_broker start_run") auto
  have "registry_inv (br_registry idle_broker)" using new_registry_inv by (simp add: idle_broker_def)
  from attempts_keep_custody [OF a this] a show ?thesis
    by (simp add: cancelled_attempt_def idle_broker_def registered_def new_registry_def)
qed

end
