(* ===== verification/Broker_Frames.thy ===== *)
theory Broker_Frames
  imports Prelude "HOL-Library.Word"
begin

text \<open>
  The binary frames of the fork broker, \<open>fork_broker_protocol.py\<close>: a type byte, a 32-bit big-endian length
  and the payload.  A connection is the list of the chunks that \<open>recv\<close> will return, split further when a
  chunk is longer than what is asked for; an empty or missing chunk is the end of file.
\<close>

type_synonym conn = "bytes list"

text \<open>\<open>BrokerProtocolError\<close> and \<open>EOFError\<close>.\<close>

datatype frame_error = Protocol_error string | Eof_error

definition BROKER_FRAME_CONTROL :: nat where "BROKER_FRAME_CONTROL = 1"
definition BROKER_FRAME_RAW_OUTPUT :: nat where "BROKER_FRAME_RAW_OUTPUT = 2"
definition BROKER_MAX_CONTROL_BYTES :: nat where "BROKER_MAX_CONTROL_BYTES = 1024 * 1024"
definition BROKER_MAX_RAW_BYTES :: nat where "BROKER_MAX_RAW_BYTES = 4 * 1024 * 1024"

lemmas frame_constants =
  BROKER_FRAME_CONTROL_def BROKER_FRAME_RAW_OUTPUT_def BROKER_MAX_CONTROL_BYTES_def BROKER_MAX_RAW_BYTES_def

section \<open>The header\<close>

text \<open>\<open>struct.Struct("!BI")\<close>.\<close>

definition pack_header :: "nat \<Rightarrow> nat \<Rightarrow> bytes" where
  "pack_header frame_type sz =
     [word_of_nat frame_type, word_of_nat (sz div 256 ^ 3), word_of_nat (sz div 256 ^ 2),
      word_of_nat (sz div 256), word_of_nat sz]"

definition unpack_header :: "bytes \<Rightarrow> nat \<times> nat" where
  "unpack_header bs = (unat (bs ! 0), ((unat (bs ! 1) * 256 + unat (bs ! 2)) * 256 + unat (bs ! 3)) * 256 + unat (bs ! 4))"

definition header_size :: nat where "header_size = 5"

definition frame_limit :: "nat \<Rightarrow> nat" where
  "frame_limit frame_type = (if frame_type = BROKER_FRAME_CONTROL then BROKER_MAX_CONTROL_BYTES else BROKER_MAX_RAW_BYTES)"

section \<open>Sending\<close>

text \<open>The bytes handed to \<open>sendall\<close>.\<close>

definition send_frame :: "nat \<Rightarrow> bytes \<Rightarrow> frame_error + bytes" where
  "send_frame frame_type payload =
     (if frame_type \<notin> {BROKER_FRAME_CONTROL, BROKER_FRAME_RAW_OUTPUT}
      then Inl (Protocol_error ''unknown broker frame type'')
      else if frame_limit frame_type < length payload then Inl (Protocol_error ''broker frame exceeds the limit'')
      else Inr (pack_header frame_type (length payload) @ payload))"

definition send_raw_output :: "bytes \<Rightarrow> frame_error + bytes" where
  "send_raw_output payload = send_frame BROKER_FRAME_RAW_OUTPUT payload"

text \<open>\<open>encode\<close> is \<open>json.dumps(...).encode\<close>.\<close>

definition send_control :: "('j \<Rightarrow> bytes) \<Rightarrow> 'j \<Rightarrow> frame_error + bytes" where
  "send_control encode payload = send_frame BROKER_FRAME_CONTROL (encode payload)"

section \<open>Receiving\<close>

definition recv :: "nat \<Rightarrow> conn \<Rightarrow> bytes \<times> conn" where
  "recv n c =
     (case c of [] \<Rightarrow> ([], [])
      | chunk # rest \<Rightarrow> if length chunk \<le> n then (chunk, rest) else (take n chunk, drop n chunk # rest))"

function recv_loop :: "nat \<Rightarrow> bytes \<Rightarrow> conn \<Rightarrow> (frame_error + bytes) \<times> conn" where
  "recv_loop remaining acc c =
     (if remaining = 0 then (Inr acc, c)
      else let (chunk, c) = recv remaining c
           in if chunk = [] then (Inl Eof_error, c)
              else recv_loop (remaining - length chunk) (acc @ chunk) c)"
  by pat_completeness auto
termination
  by (relation "measure fst") (auto simp: recv_def split: list.split_asm if_split_asm)

declare recv_loop.simps [simp del]

definition recv_exact :: "conn \<Rightarrow> nat \<Rightarrow> (frame_error + bytes) \<times> conn" where
  "recv_exact c sz = recv_loop sz [] c"

definition receive_frame :: "conn \<Rightarrow> (frame_error + nat \<times> bytes) \<times> conn" where
  "receive_frame c =
     (case recv_exact c header_size of
        (Inl e, c) \<Rightarrow> (Inl e, c)
      | (Inr header, c) \<Rightarrow>
          let (frame_type, sz) = unpack_header header
          in if frame_type \<notin> {BROKER_FRAME_CONTROL, BROKER_FRAME_RAW_OUTPUT}
             then (Inl (Protocol_error ''unknown broker frame type''), c)
             else if frame_limit frame_type < sz then (Inl (Protocol_error ''broker frame exceeds the limit''), c)
             else case recv_exact c sz of (Inl e, c) \<Rightarrow> (Inl e, c) | (Inr payload, c) \<Rightarrow> (Inr (frame_type, payload), c))"

text \<open>\<open>decode\<close> is UTF-8 decoding and \<open>json.loads\<close>, with an object or an error as its result.\<close>

definition receive_control :: "(bytes \<Rightarrow> 'j option) \<Rightarrow> conn \<Rightarrow> (frame_error + 'j) \<times> conn" where
  "receive_control decode c =
     (case receive_frame c of
        (Inl e, c) \<Rightarrow> (Inl e, c)
      | (Inr (frame_type, raw), c) \<Rightarrow>
          if frame_type \<noteq> BROKER_FRAME_CONTROL then (Inl (Protocol_error ''expected a broker control frame''), c)
          else (case decode raw of None \<Rightarrow> Inl (Protocol_error ''malformed broker control frame'') | Some j \<Rightarrow> Inr j, c))"

section \<open>Round trips\<close>

lemma recv_progress:
  assumes "recv n c = (chunk, c')"
  shows "concat c = chunk @ concat c'" and "length chunk \<le> n"
  using assms by (auto simp: recv_def split: list.split_asm if_split_asm)

text \<open>A connection in progress: no chunk is empty.\<close>

definition open_conn :: "conn \<Rightarrow> bool" where
  "open_conn c \<longleftrightarrow> list_all (\<lambda>chunk. chunk \<noteq> []) c"

lemma recv_open:
  assumes "open_conn c" and "recv n c = (chunk, c')" and "0 < n"
  shows "open_conn c'" and "chunk = [] \<Longrightarrow> c = []"
  using assms by (auto simp: recv_def open_conn_def split: list.split_asm if_split_asm)

lemma recv_loop_exact:
  assumes "open_conn c" and "n \<le> length (concat c)"
  shows "\<exists>c'. recv_loop n acc c = (Inr (acc @ take n (concat c)), c') \<and> open_conn c' \<and> concat c' = drop n (concat c)"
  using assms
proof (induction n arbitrary: acc c rule: less_induct)
  case (less n)
  show ?case
  proof (cases "n = 0")
    case True
    with less.prems show ?thesis by (simp add: recv_loop.simps)
  next
    case False
    obtain chunk c1 where r: "recv n c = (chunk, c1)" by (rule prod.exhaust)
    note p = recv_progress [OF r] and o = recv_open [OF less.prems(1) r]
    have ne: "chunk \<noteq> []" using o(2) less.prems(2) False by auto
    with p have l: "n - length chunk < n" "n - length chunk \<le> length (concat c1)"
      using False less.prems(2) by auto
    from less.IH [OF l(1) o(1) l(2)] False obtain c' where
      "recv_loop (n - length chunk) (acc @ chunk) c1 = (Inr ((acc @ chunk) @ take (n - length chunk) (concat c1)), c')"
      "open_conn c'" "concat c' = drop (n - length chunk) (concat c1)" by blast
    with r ne False p show ?thesis by (subst recv_loop.simps) simp
  qed
qed

lemma recv_loop_short:
  assumes "open_conn c" and "length (concat c) < n"
  shows "fst (recv_loop n acc c) = Inl Eof_error"
  using assms
proof (induction n arbitrary: acc c rule: less_induct)
  case (less n)
  obtain chunk c1 where r: "recv n c = (chunk, c1)" by (rule prod.exhaust)
  note p = recv_progress [OF r] and o = recv_open [OF less.prems(1) r]
  show ?case
  proof (cases "chunk = []")
    case True
    with r less.prems(2) show ?thesis by (subst recv_loop.simps) auto
  next
    case False
    with p less.prems(2) have "n - length chunk < n" "length (concat c1) < n - length chunk" by auto
    from less.IH [OF this(1) _ this(2)] o(1) less.prems(2) r False show ?thesis by (subst recv_loop.simps) auto
  qed
qed

lemma unat_byte: "unat (word_of_nat n :: 8 word) = n mod 256"
  by (simp add: unat_of_nat)

lemma header_round_trip:
  assumes "frame_type < 256" and "sz < 256 ^ 4"
  shows "unpack_header (pack_header frame_type sz) = (frame_type, sz)"
proof -
  define a where "a = sz div 256"
  define b where "b = a div 256"
  define c where "c = b div 256"
  have d: "sz div 256 ^ 2 = b" "sz div 256 ^ 3 = c"
    by (simp_all add: a_def b_def c_def div_mult2_eq [symmetric])
  have "c < 256" using assms(2) by (simp add: a_def b_def c_def div_mult2_eq [symmetric] less_mult_imp_div_less)
  then have "((c mod 256 * 256 + b mod 256) * 256 + a mod 256) * 256 + sz mod 256 = sz"
    using div_mult_mod_eq [of sz 256] div_mult_mod_eq [of a 256] div_mult_mod_eq [of b 256]
    by (simp add: a_def [symmetric] b_def [symmetric] c_def [symmetric])
  then have "((sz div 256 ^ 3 mod 256 * 256 + sz div 256 ^ 2 mod 256) * 256 + sz div 256 mod 256) * 256 + sz mod 256 = sz"
    by (simp only: d a_def [symmetric])
  moreover have "unpack_header [v, w, x, y, z] = (unat v, ((unat w * 256 + unat x) * 256 + unat y) * 256 + unat z)"
    for v w x y z by (simp add: unpack_header_def)
  moreover have "frame_type mod 256 = frame_type" using assms(1) by simp
  ultimately show ?thesis unfolding pack_header_def unat_byte by (simp only: unat_byte)
qed

lemma receive_sent:
  assumes "send_frame frame_type payload = Inr sent" and "open_conn c" and "concat c = sent @ rest"
  shows "\<exists>c'. receive_frame c = (Inr (frame_type, payload), c') \<and> open_conn c' \<and> concat c' = rest"
proof -
  from assms(1) have t: "frame_type \<in> {BROKER_FRAME_CONTROL, BROKER_FRAME_RAW_OUTPUT}" "length payload \<le> frame_limit frame_type"
    and sent: "sent = pack_header frame_type (length payload) @ payload"
    by (auto simp: send_frame_def split: if_split_asm)
  have small: "frame_type < 256" "length payload < 256 ^ 4"
    using t by (auto simp: frame_constants frame_limit_def split: if_split_asm)
  have h: "length (pack_header frame_type (length payload)) = header_size" by (simp add: pack_header_def header_size_def)
  with assms(3) sent have "header_size \<le> length (concat c)" by simp
  from recv_loop_exact [OF assms(2) this, of "[]"] obtain c1 where
    1: "recv_exact c header_size = (Inr (pack_header frame_type (length payload)), c1)" "open_conn c1"
    "concat c1 = payload @ rest"
    using h by (auto simp: recv_exact_def assms(3) sent)
  have "length payload \<le> length (concat c1)" by (simp add: 1(3))
  from recv_loop_exact [OF 1(2) this, of "[]"] obtain c2 where
    2: "recv_exact c1 (length payload) = (Inr payload, c2)" "open_conn c2" "concat c2 = rest"
    by (auto simp: recv_exact_def 1(3))
  have "\<not> frame_limit frame_type < length payload" using t(2) by simp
  with 1 2 t(1) show ?thesis
    by (simp add: receive_frame_def header_round_trip [OF small])
qed

text \<open>C32: What one side of a broker connection sends the other side receives: an accepted frame comes back
  with its type and payload, however the transport splits the bytes into chunks, and what follows it stays
  on the connection; a control payload comes back decoded.
\<close>

theorem frames_round_trip:
  assumes "send_frame frame_type payload = Inr sent" and "open_conn c" and "concat c = sent @ rest"
  shows "\<exists>c'. receive_frame c = (Inr (frame_type, payload), c') \<and> open_conn c' \<and> concat c' = rest
     \<and> (frame_type = BROKER_FRAME_CONTROL \<longrightarrow> decode payload = Some j \<longrightarrow> receive_control decode c = (Inr j, c'))"
  using receive_sent [OF assms] by (auto simp: receive_control_def)

lemma frames_round_trip_witness:
  "\<exists>c'. receive_frame [[1, 0, 0], [0, 2, 65], [66, 2]] = (Inr (1, [65, 66]), c') \<and> open_conn c' \<and> concat c' = [2]
     \<and> receive_control Some [[1, 0, 0], [0, 2, 65], [66, 2]] = (Inr [65, 66], c')"
proof -
  have "send_frame 1 [65, 66] = Inr [1, 0, 0, 0, 2, 65, 66]"
    by (simp add: send_frame_def pack_header_def frame_constants frame_limit_def)
  from frames_round_trip [OF this, of "[[1, 0, 0], [0, 2, 65], [66, 2]]" "[2]" Some "[65, 66]"] show ?thesis
    by (simp add: open_conn_def frame_constants)
qed

lemma pack_unpack:
  assumes "length bs = header_size"
  shows "pack_header (fst (unpack_header bs)) (snd (unpack_header bs)) = bs"
proof -
  from assms obtain v w x y z where bs: "bs = [v, w, x, y, z]"
    by (auto simp: header_size_def length_Suc_conv eval_nat_numeral)
  have lt: "unat b < 256" for b :: "8 word" using unsigned_less [of b, where ?'a = nat] by simp
  have d: "(n * 256 + unat b) div 256 = n" for n and b :: "8 word" using lt [of b] by simp
  have w: "word_of_nat (n * 256 + unat b) = b" for n and b :: "8 word"
  proof -
    have "unat (word_of_nat (n * 256 + unat b) :: 8 word) = unat b"
      unfolding unat_byte using lt [of b] by simp
    then show ?thesis by (simp only: word_unat_eq_iff)
  qed
  define c where "c = unat v"
  define a where "a = unat w * 256 + unat x"
  define e where "e = a * 256 + unat y"
  have "word_of_nat (unat v) = v" by simp
  moreover have "word_of_nat ((e * 256 + unat z) div 256 ^ 3) = w" "word_of_nat ((e * 256 + unat z) div 256 ^ 2) = x"
    "word_of_nat ((e * 256 + unat z) div 256) = y" "word_of_nat (e * 256 + unat z) = z"
  proof -
    have 1: "(e * 256 + unat z) div 256 = e" "e div 256 = a" "a div 256 = unat w" by (simp_all only: d e_def a_def)
    have 2: "(e * 256 + unat z) div 256 ^ 2 = a"
      using div_mult2_eq [of "e * 256 + unat z" 256 256] 1 by (simp only: power2_eq_square)
    have 3: "(e * 256 + unat z) div 256 ^ 3 = unat w"
      using div_mult2_eq [of "e * 256 + unat z" "256 ^ 2" 256] 1 2 by (simp only: power3_eq_cube power2_eq_square)
    show "word_of_nat ((e * 256 + unat z) div 256 ^ 3) = w" unfolding 3 by simp
    show "word_of_nat ((e * 256 + unat z) div 256 ^ 2) = x" unfolding 2 by (simp only: a_def w)
    show "word_of_nat ((e * 256 + unat z) div 256) = y" unfolding 1(1) by (simp only: e_def w)
    show "word_of_nat (e * 256 + unat z) = z" by (rule w)
  qed
  moreover have "unpack_header bs = (unat v, e * 256 + unat z)"
    by (simp add: unpack_header_def bs e_def a_def)
  ultimately show ?thesis by (simp only: pack_header_def bs fst_conv snd_conv)
qed

lemma recv_loop_cases:
  assumes "open_conn c"
  obtains c' where "recv_exact c n = (Inr (take n (concat c)), c')" "open_conn c'" "concat c' = drop n (concat c)"
      "n \<le> length (concat c)"
    | c' where "recv_exact c n = (Inl Eof_error, c')" "length (concat c) < n"
proof (cases "n \<le> length (concat c)")
  case True
  from recv_loop_exact [OF assms True, of "[]"] True show ?thesis using that(1) by (auto simp: recv_exact_def)
next
  case False
  with recv_loop_short [OF assms, of n "[]"] show ?thesis
    using that(2) by (cases "recv_exact c n") (auto simp: recv_exact_def)
qed

text \<open>A connection that ends inside a frame raises \<open>EOFError\<close>, in the header or in the payload, and a header
  with an unknown type or a length over the limit of its type is refused before any of its payload is read.
\<close>

theorem broken_frames_are_refused:
  assumes "open_conn c"
  shows "case receive_frame c of
      (Inr (frame_type, payload), c') \<Rightarrow> concat c = pack_header frame_type (length payload) @ payload @ concat c'
        \<and> frame_type \<in> {BROKER_FRAME_CONTROL, BROKER_FRAME_RAW_OUTPUT} \<and> length payload \<le> frame_limit frame_type
    | (Inl Eof_error, c') \<Rightarrow> length (concat c) < header_size
        \<or> length (concat c) < header_size + snd (unpack_header (take header_size (concat c)))
    | (Inl (Protocol_error e), c') \<Rightarrow> concat c' = drop header_size (concat c)"
proof -
  from recv_loop_cases [OF assms, of header_size] show ?thesis
  proof cases
    case (1 c1)
    define header where "header = take header_size (concat c)"
    obtain frame_type sz where h: "unpack_header header = (frame_type, sz)" by (rule prod.exhaust)
    have l: "length header = header_size" using 1(4) by (simp add: header_def)
    note r = 1(1) [folded header_def]
    show ?thesis
    proof (cases "frame_type \<in> {BROKER_FRAME_CONTROL, BROKER_FRAME_RAW_OUTPUT} \<and> sz \<le> frame_limit frame_type")
      case False
      with r h 1(3) show ?thesis by (auto simp: receive_frame_def)
    next
      case ok: True
      from recv_loop_cases [OF 1(2), of sz] show ?thesis
      proof cases
        case p: (1 c2)
        have "concat c = header @ concat c1" by (simp add: header_def 1(3))
        moreover have "concat c1 = take sz (concat c1) @ concat c2" by (simp add: p(3))
        moreover have "length (take sz (concat c1)) = sz" using p(4) by simp
        moreover have "pack_header frame_type sz = header" using pack_unpack [OF l] h by simp
        moreover have "receive_frame c = (Inr (frame_type, take sz (concat c1)), c2)"
          using r h ok p(1) by (auto simp: receive_frame_def)
        ultimately show ?thesis using ok by simp
      next
        case e: (2 c2)
        have "receive_frame c = (Inl Eof_error, c2)" using r h ok e(1) by (auto simp: receive_frame_def)
        moreover have "length (concat c1) = length (concat c) - header_size" by (simp add: 1(3))
        ultimately show ?thesis using e(2) h 1(4) by (simp add: header_def)
      qed
    qed
  next
    case (2 c1)
    then show ?thesis by (simp add: receive_frame_def)
  qed
qed

lemma broken_frames_are_refused_witness:
  "fst (receive_frame [[1, 0, 0, 0, 2, 65]]) = Inl Eof_error \<and> fst (receive_frame [[3, 0, 0, 0, 2, 65]]) \<noteq> Inl Eof_error"
  using broken_frames_are_refused [of "[[1, 0, 0, 0, 2, 65]]"] broken_frames_are_refused [of "[[3, 0, 0, 0, 2, 65]]"]
  by (simp add: open_conn_def receive_frame_def unpack_header_def header_size_def recv_exact_def recv_loop.simps recv_def
      frame_constants frame_limit_def)

end
