(* ===== verification/Process_Table.thy ===== *)
theory Process_Table
  imports Process_Groups
begin

text \<open>
  Observations over one process table, \<open>hol_workbench/processes.py\<close>: descendants, zombies and live members
  of process groups, and the wait that tells zombies from live survivors.  A table is an association list
  from PID to record, in the order of the dict.
\<close>

record proc_info =
  pr_state :: char
  pr_ppid :: int
  pr_pgid :: int
  pr_ticks :: int

type_synonym proc_table = "(int \<times> proc_info) list"

section \<open>Descendants\<close>

text \<open>\<open>children_by_parent\<close>, looked up: the PIDs whose parent is given, in table order.\<close>

definition children_of :: "(int \<times> int option) list \<Rightarrow> int \<Rightarrow> int list" where
  "children_of tab parent = List.map fst (filter (\<lambda>e. snd e = Some parent) tab)"

text \<open>
  The inner loop: the children of a parent that are new, in order, each added once.  The stack is a list
  whose last element is its top.
\<close>

fun visit_children :: "(int \<Rightarrow> bool) \<Rightarrow> int list \<Rightarrow> int list \<times> int list \<Rightarrow> int list \<times> int list" where
  "visit_children old [] fs = fs"
| "visit_children old (c # cs) (found, stack) =
     (if old c \<or> c \<in> set found then visit_children old cs (found, stack)
      else visit_children old cs (found @ [c], stack @ [c]))"

text \<open>
  The outer loop.  A table entry is found at most once, so a stack of \<open>n\<close> entries with \<open>m\<close> entries still to
  find is empty after at most \<open>n + m\<close> turns; that is the fuel.
\<close>

fun descend :: "nat \<Rightarrow> (int \<times> int option) list \<Rightarrow> (int \<Rightarrow> bool) \<Rightarrow> int list \<times> int list \<Rightarrow> int list option" where
  "descend 0 tab old (found, stack) = (if stack = [] then Some found else None)"
| "descend (Suc n) tab old (found, stack) =
     (if stack = [] then Some found
      else descend n tab old (visit_children old (children_of tab (last stack)) (found, butlast stack)))"

text \<open>
  \<open>descendant_pids\<close> over rows whose \<open>ppid\<close> may be missing or not an integer, and
  \<open>_snapshot_descendant_pids\<close> over parsed records.  Both return sets.
\<close>

definition descendant_pids :: "int list \<Rightarrow> (int \<times> int option) list \<Rightarrow> int list option" where
  "descendant_pids seeds tab =
     (if seeds = [] then Some []
      else descend (length seeds + length tab) tab (\<lambda>c. c \<in> set seeds) ([], seeds))"

definition snapshot_descendant_pids :: "int \<Rightarrow> proc_table \<Rightarrow> int list option" where
  "snapshot_descendant_pids pid table =
     descend (1 + length table) (List.map (\<lambda>(p, r). (p, Some (pr_ppid r))) table) (\<lambda>_. False) ([], [pid])"

section \<open>Records\<close>

definition terminal_state :: "char \<Rightarrow> bool" where
  "terminal_state c \<longleftrightarrow> c \<in> set ''XxZ''"

definition snapshot_process_is_live :: "proc_info \<Rightarrow> bool" where
  "snapshot_process_is_live r \<longleftrightarrow> \<not> terminal_state (pr_state r)"

record proc_target =
  pt_role :: "string option"
  pt_pid :: "int option"
  pt_pgid :: "int option"
  pt_identity :: "string option"
  pt_ticks :: "int option"

text \<open>Decimal text of an integer, as \<open>f"{n}"\<close> prints it.\<close>

fun digits :: "nat \<Rightarrow> nat \<Rightarrow> string" where
  "digits 0 n = []"
| "digits (Suc fuel) n = (if n < 10 then [char_of (48 + n)] else digits fuel (n div 10) @ [char_of (48 + n mod 10)])"

definition int_text :: "int \<Rightarrow> string" where
  "int_text i = (if i < 0 then ''-'' @ digits (Suc (nat (- i))) (nat (- i)) else digits (Suc (nat i)) (nat i))"

definition target_identity_matches :: "proc_target \<Rightarrow> proc_info \<Rightarrow> bool" where
  "target_identity_matches t r =
     (case pt_identity t of
        Some e \<Rightarrow> e = ''linux-proc:'' @ int_text (pr_ticks r)
      | None \<Rightarrow> pid_int (pt_ticks t) = Some (pr_ticks r))"

text \<open>\<open>waitpid(pid, WNOHANG)\<close>: reaped, not exited, not our child, or another error.\<close>

datatype wait_verdict = W_reaped | W_not_exited | W_no_child | W_error string

definition reap_zombie :: "wait_verdict \<Rightarrow> string" where
  "reap_zombie w =
     (case w of W_reaped \<Rightarrow> ''reaped_by_workbench'' | W_not_exited \<Rightarrow> ''not_exited''
      | W_no_child \<Rightarrow> ''external_parent'' | W_error e \<Rightarrow> ''waitpid_error:'' @ e)"

record proc_observation =
  po_target :: proc_target
  po_pid :: int
  po_status :: string
  po_state :: "char option"
  po_reap :: "string option"
  po_descendants :: "int list"
  po_group_members :: "int list"

section \<open>Observing the targets\<close>

definition live_pids_of :: "(int \<times> proc_info \<Rightarrow> bool) \<Rightarrow> proc_table \<Rightarrow> int list" where
  "live_pids_of q table = sort (List.map fst (filter (\<lambda>e. q e \<and> snapshot_process_is_live (snd e)) table))"

definition live_descendants :: "int \<Rightarrow> proc_table \<Rightarrow> int list" where
  "live_descendants pid table =
     (case snapshot_descendant_pids pid table of
        None \<Rightarrow> []
      | Some ds \<Rightarrow> live_pids_of (\<lambda>e. fst e \<in> set ds) table)"

text \<open>
  The observation of one target: the receipt, whether the PID counts as live, the remembered verdicts of
  earlier turns, and the table, from which a reaped zombie is removed.
\<close>

definition observe_target :: "(int \<Rightarrow> wait_verdict) \<Rightarrow> proc_target \<Rightarrow> int \<Rightarrow> (int, string) map \<times> proc_table
    \<Rightarrow> (proc_observation \<times> bool) \<times> (int, string) map \<times> proc_table" where
  "observe_target waitpid t pid st =
     (case st of (reaps, table) \<Rightarrow>
        let obs = (\<lambda>status state reap ds gs. \<lparr>po_target = t, po_pid = pid, po_status = status, po_state = state,
                     po_reap = reap, po_descendants = ds, po_group_members = gs\<rparr>)
        in case map_of table pid of
             None \<Rightarrow> ((obs ''absent'' None (reaps pid) [] [], False), reaps, table)
           | Some r \<Rightarrow>
               if \<not> target_identity_matches t r
               then ((obs ''identity_mismatch'' (Some (pr_state r)) None [] [], True), reaps, table)
               else if pr_state r \<noteq> CHR ''Z''
               then ((obs ''live_survivor'' (Some (pr_state r)) None [] [], True), reaps, table)
               else let reap = (case reaps pid of Some v \<Rightarrow> v | None \<Rightarrow> reap_zombie (waitpid pid));
                        reaps = reaps(pid \<mapsto> reap)
                    in if reap = ''reaped_by_workbench''
                       then ((obs ''absent'' None (Some reap) [] [], False), reaps, filter (\<lambda>e. fst e \<noteq> pid) table)
                       else let ds = live_descendants pid table;
                                gs = live_pids_of (\<lambda>e. pr_pgid (snd e) = pr_pgid r) table;
                                live = (ds \<noteq> [] \<or> gs \<noteq> [])
                            in ((obs (if live then ''zombie_with_live_processes'' else ''zombie_awaiting_external_reaper'')
                                   (Some (pr_state r)) (Some reap) ds gs, live), reaps, table))"

fun process_observations :: "(int \<Rightarrow> wait_verdict) \<Rightarrow> proc_target list \<Rightarrow> (int, string) map \<times> proc_table
    \<Rightarrow> (proc_observation list \<times> int list) \<times> (int, string) map \<times> proc_table" where
  "process_observations waitpid [] st = (([], []), st)"
| "process_observations waitpid (t # ts) st =
     (case pid_int (pt_pid t) of
        None \<Rightarrow> process_observations waitpid ts st
      | Some pid \<Rightarrow>
          let ((ob, live), st) = observe_target waitpid t pid st;
              ((os, pids), st) = process_observations waitpid ts st
          in ((ob # os, if live then pid # pids else pids), st))"

record group_observation =
  go_pgid :: int
  go_status :: string
  go_live :: "int list"
  go_zombies :: "int list"

definition group_observation_of :: "proc_table \<Rightarrow> int \<Rightarrow> group_observation" where
  "group_observation_of table g =
     (let live = live_pids_of (\<lambda>e. pr_pgid (snd e) = g) table;
          zombies = sort (List.map fst (filter (\<lambda>e. pr_pgid (snd e) = g \<and> pr_state (snd e) = CHR ''Z'') table))
      in \<lparr>go_pgid = g,
          go_status = (if live \<noteq> [] then ''live_survivor'' else if zombies \<noteq> [] then ''zombie_only'' else ''absent''),
          go_live = live, go_zombies = zombies\<rparr>)"

definition live_process_groups :: "int list \<Rightarrow> proc_table \<Rightarrow> int list \<times> group_observation list" where
  "live_process_groups pgids table =
     (filter (\<lambda>g. live_pids_of (\<lambda>e. pr_pgid (snd e) = g) table \<noteq> []) pgids,
      List.map (group_observation_of table) pgids)"

section \<open>Waiting\<close>

record owned_wait =
  wq_status :: string
  wq_live_pids :: "int list"
  wq_live_pgids :: "int list"
  wq_source :: string
  wq_observations :: "proc_observation list"
  wq_groups :: "group_observation list"

text \<open>
  One turn sees a table (or none, off Linux), the verdicts of \<open>waitpid\<close> and a clock.  \<open>fallback\<close> is the result
  of \<open>fallback_wait\<close> for the remaining time, which the first turn without a table returns.
\<close>

record wait_input =
  wi_table :: "proc_table option"
  wi_waitpid :: "int \<Rightarrow> wait_verdict"
  wi_now :: int

definition owned_turn :: "proc_target list \<Rightarrow> int list \<Rightarrow> int \<Rightarrow> (int \<Rightarrow> owned_wait) \<Rightarrow> wait_input
    \<Rightarrow> (int, string) map \<Rightarrow> owned_wait option \<times> (int, string) map" where
  "owned_turn targets pgids deadline fallback i reaps =
     (case wi_table i of
        None \<Rightarrow> (Some ((fallback (max 0 (deadline - wi_now i)))\<lparr>wq_source := ''portable_signal_probe'',
                   wq_observations := [], wq_groups := []\<rparr>), reaps)
      | Some table \<Rightarrow>
          let ((obs, live), reaps, table) = process_observations (wi_waitpid i) targets (reaps, table);
              (live_pgids, groups) = live_process_groups pgids table;
              result = (\<lambda>status. \<lparr>wq_status = status, wq_live_pids = sort (remdups live), wq_live_pgids = live_pgids,
                          wq_source = ''linux_proc'', wq_observations = obs, wq_groups = groups\<rparr>)
          in (if live = [] \<and> live_pgids = [] then Some (result ''quiescent'')
              else if deadline \<le> wi_now i then Some (result ''survivors'') else None, reaps))"

text \<open>The turns of the loop, over what they see; a list that runs out first gives no result.\<close>

fun owned_loop :: "proc_target list \<Rightarrow> int list \<Rightarrow> int \<Rightarrow> (int \<Rightarrow> owned_wait) \<Rightarrow> wait_input list
    \<Rightarrow> (int, string) map \<Rightarrow> owned_wait option" where
  "owned_loop targets pgids deadline fallback [] reaps = None"
| "owned_loop targets pgids deadline fallback (i # is) reaps =
     (case owned_turn targets pgids deadline fallback i reaps of
        (Some r, _) \<Rightarrow> Some r
      | (None, reaps) \<Rightarrow> owned_loop targets pgids deadline fallback is reaps)"

definition wait_for_owned_processes :: "proc_target list \<Rightarrow> int option list \<Rightarrow> int \<Rightarrow> int \<Rightarrow> (int \<Rightarrow> owned_wait)
    \<Rightarrow> wait_input list \<Rightarrow> owned_wait option" where
  "wait_for_owned_processes process_targets pgids timeout started fallback is =
     owned_loop (filter (\<lambda>t. pid_int (pt_pid t) \<noteq> None) process_targets) (positive_unique pgids)
       (started + max 0 timeout) fallback is Map.empty"

end
