(* ===== verification/Process_Table_Props.thy ===== *)
theory Process_Table_Props
  imports Process_Table
begin

text \<open>
  The walks over a process table compute reachability, and a claim of quiescence is about the table.
\<close>

section \<open>Descendants are what is reachable\<close>

definition parent_rel :: "(int \<times> int option) list \<Rightarrow> (int \<times> int) set" where
  "parent_rel tab = {(p, c). (c, Some p) \<in> set tab}"

lemma mem_children_of: "c \<in> set (children_of tab p) \<longleftrightarrow> (p, c) \<in> parent_rel tab"
  by (force simp: children_of_def parent_rel_def)

definition child_pids :: "(int \<times> int option) list \<Rightarrow> int set" where
  "child_pids tab = fst ` set tab"

lemma children_of_pids: "set (children_of tab p) \<subseteq> child_pids tab"
  by (auto simp: children_of_def child_pids_def)

lemma card_child_pids: "card (child_pids tab) \<le> length tab"
  by (simp add: child_pids_def order.trans [OF card_image_le [OF finite_set] card_length])

text \<open>What the inner loop does: it appends the same new PIDs to both lists.\<close>

lemma visit_children_effect:
  "\<exists>new. visit_children old cs (found, stack) = (found @ new, stack @ new) \<and> set new = {c \<in> set cs. \<not> old c \<and> c \<notin> set found}
     \<and> (distinct found \<longrightarrow> distinct (found @ new))"
proof (induction cs arbitrary: found stack)
  case (Cons c cs)
  show ?case
  proof (cases "old c \<or> c \<in> set found")
    case True
    with Cons [of found stack] show ?thesis by auto
  next
    case False
    from Cons [of "found @ [c]" "stack @ [c]"] obtain new where
      n: "visit_children old cs (found @ [c], stack @ [c]) = ((found @ [c]) @ new, (stack @ [c]) @ new)"
      "set new = {x \<in> set cs. \<not> old x \<and> x \<notin> set (found @ [c])}"
      "distinct (found @ [c]) \<longrightarrow> distinct ((found @ [c]) @ new)" by blast
    with False show ?thesis by (intro exI [of _ "c # new"]) auto
  qed
qed simp

text \<open>The state of the walk from a start stack: what is found is reachable, and what is not on the stack is expanded.\<close>

definition walk_inv :: "(int \<times> int option) list \<Rightarrow> (int \<Rightarrow> bool) \<Rightarrow> int set \<Rightarrow> int list \<Rightarrow> int list \<Rightarrow> bool" where
  "walk_inv tab old start found stack \<longleftrightarrow> distinct found \<and> set found \<subseteq> child_pids tab
     \<and> (\<forall>f \<in> set found. \<not> old f \<and> (\<exists>x \<in> start. (x, f) \<in> (parent_rel tab)\<^sup>+))
     \<and> set stack \<subseteq> start \<union> set found
     \<and> (\<forall>x \<in> start \<union> set found. x \<in> set stack \<or> (\<forall>c. (x, c) \<in> parent_rel tab \<longrightarrow> c \<in> set found \<or> old c))"

lemma walk_inv_step:
  assumes inv: "walk_inv tab old start found (stack @ [p])"
    and v: "visit_children old (children_of tab p) (found, stack) = (found', stack')"
  shows "walk_inv tab old start found' stack'"
    and "length stack' + length found = length found' + length stack"
proof -
  obtain new where n: "found' = found @ new" "stack' = stack @ new"
    "set new = {c \<in> set (children_of tab p). \<not> old c \<and> c \<notin> set found}" "distinct (found @ new)"
    using visit_children_effect [of old "children_of tab p" found stack] v inv unfolding walk_inv_def by auto
  have p: "p \<in> start \<union> set found" using inv by (simp add: walk_inv_def)
  have reach: "\<exists>x \<in> start. (x, c) \<in> (parent_rel tab)\<^sup>+" if "c \<in> set new" for c
  proof -
    have pc: "(p, c) \<in> parent_rel tab" using that n(3) mem_children_of by auto
    show ?thesis
    proof (cases "p \<in> start")
      case True
      with pc show ?thesis by blast
    next
      case False
      with p inv obtain x where "x \<in> start" "(x, p) \<in> (parent_rel tab)\<^sup>+" by (auto simp: walk_inv_def)
      with pc show ?thesis by (blast intro: trancl_into_trancl)
    qed
  qed
  have expanded: "\<forall>c. (p, c) \<in> parent_rel tab \<longrightarrow> c \<in> set found' \<or> old c"
    using n(1,3) mem_children_of by auto
  show "walk_inv tab old start found' stack'"
    unfolding walk_inv_def
  proof (intro conjI)
    show "distinct found'" using n by simp
    show "set found' \<subseteq> child_pids tab"
      using inv children_of_pids [of tab p] n(1,3) by (auto simp: walk_inv_def)
    show "\<forall>f \<in> set found'. \<not> old f \<and> (\<exists>x \<in> start. (x, f) \<in> (parent_rel tab)\<^sup>+)"
      using inv reach n(1,3) by (auto simp: walk_inv_def)
    show "set stack' \<subseteq> start \<union> set found'" using inv n(1,2) by (auto simp: walk_inv_def)
    show "\<forall>x \<in> start \<union> set found'. x \<in> set stack' \<or> (\<forall>c. (x, c) \<in> parent_rel tab \<longrightarrow> c \<in> set found' \<or> old c)"
    proof
      fix x assume x: "x \<in> start \<union> set found'"
      show "x \<in> set stack' \<or> (\<forall>c. (x, c) \<in> parent_rel tab \<longrightarrow> c \<in> set found' \<or> old c)"
      proof (cases "x = p")
        case False
        with x inv n(1,2) show ?thesis by (auto simp: walk_inv_def)
      qed (use expanded in blast)
    qed
  qed
  show "length stack' + length found = length found' + length stack" by (simp add: n)
qed

lemma descend_done:
  assumes inv: "walk_inv tab old start found []" and old: "\<And>x. old x \<Longrightarrow> x \<in> start"
  shows "set found = {d. (\<exists>x \<in> start. (x, d) \<in> (parent_rel tab)\<^sup>+) \<and> \<not> old d}"
proof -
  have "d \<in> set found \<or> old d" if "(x, d) \<in> (parent_rel tab)\<^sup>+" "x \<in> start" for x d
    using that(1)
  proof (induction rule: trancl_induct)
    case (base y)
    with inv that(2) show ?case by (auto simp: walk_inv_def)
  next
    case (step y z)
    with old have "y \<in> start \<union> set found" by auto
    with inv step(2) show ?case by (auto simp: walk_inv_def)
  qed
  with inv show ?thesis by (auto simp: walk_inv_def)
qed

lemma descend_reaches:
  assumes "walk_inv tab old start found stack" and "length stack + card (child_pids tab) \<le> n + length found"
    and "\<And>x. old x \<Longrightarrow> x \<in> start"
  shows "\<exists>ds. descend n tab old (found, stack) = Some ds \<and> distinct ds
     \<and> set ds = {d. (\<exists>x \<in> start. (x, d) \<in> (parent_rel tab)\<^sup>+) \<and> \<not> old d}"
  using assms(1,2)
proof (induction n arbitrary: found stack)
  case 0
  have "length found \<le> card (child_pids tab)"
    using 0(1) by (metis walk_inv_def distinct_card card_mono child_pids_def finite_imageI finite_set)
  with 0(2) have "length stack = 0" by linarith
  then have "stack = []" by simp
  with descend_done [OF 0(1) [unfolded \<open>stack = []\<close>] assms(3)] show ?case using 0(1) by (auto simp: walk_inv_def)
next
  case (Suc n)
  show ?case
  proof (cases stack rule: rev_cases)
    case Nil
    with descend_done [OF Suc(2) [unfolded Nil] assms(3)] show ?thesis using Suc(2) by (auto simp: walk_inv_def)
  next
    case (snoc rest p)
    obtain found' stack' where v: "visit_children old (children_of tab p) (found, rest) = (found', stack')"
      by (rule prod.exhaust)
    from Suc(2) snoc have inv: "walk_inv tab old start found (rest @ [p])" by simp
    note step = walk_inv_step [OF inv v]
    from Suc(3) snoc step(2) have "length stack' + card (child_pids tab) \<le> n + length found'" by simp
    from Suc(1) [OF step(1) this] snoc v show ?thesis by simp
  qed
qed

lemma descendants_of_start:
  assumes "set stack = start" and "\<And>x. old x \<Longrightarrow> x \<in> start"
  shows "\<exists>ds. descend (length stack + length tab) tab old ([], stack) = Some ds \<and> distinct ds
     \<and> set ds = {d. (\<exists>x \<in> start. (x, d) \<in> (parent_rel tab)\<^sup>+) \<and> \<not> old d}"
  by (rule descend_reaches) (use assms card_child_pids [of tab] in \<open>auto simp: walk_inv_def\<close>)

definition snapshot_rel :: "proc_table \<Rightarrow> (int \<times> int) set" where
  "snapshot_rel table = {(p, c). \<exists>r. (c, r) \<in> set table \<and> pr_ppid r = p}"

text \<open>C33: The descendant walk terminates on every process table, cyclic parent links of a racy snapshot
  included, and returns exactly the PIDs reachable from the given one by parent links, each once.
\<close>

theorem descendants_are_reachable:
  "\<exists>ds. snapshot_descendant_pids pid table = Some ds \<and> distinct ds
     \<and> set ds = {d. (pid, d) \<in> (snapshot_rel table)\<^sup>+}"
proof -
  have "parent_rel (List.map (\<lambda>(p, r). (p, Some (pr_ppid r))) table) = snapshot_rel table"
    by (force simp: parent_rel_def snapshot_rel_def)
  with descendants_of_start [of "[pid]" "{pid}" "\<lambda>_. False" "List.map (\<lambda>(p, r). (p, Some (pr_ppid r))) table"]
  show ?thesis by (simp add: snapshot_descendant_pids_def)
qed

text \<open>The walk over raw rows, which leaves the seeds out of the result.\<close>

lemma descendant_pids_reachable:
  "\<exists>ds. descendant_pids seeds tab = Some ds \<and> set ds = {d. (\<exists>x \<in> set seeds. (x, d) \<in> (parent_rel tab)\<^sup>+)} - set seeds"
proof (cases "seeds = []")
  case False
  with descendants_of_start [of seeds "set seeds" "\<lambda>c. c \<in> set seeds" tab] show ?thesis
    by (auto simp: descendant_pids_def)
qed (simp add: descendant_pids_def)

section \<open>Quiescence\<close>

text \<open>A target that does not count as live is absent, or an identity-checked zombie.\<close>

definition target_ended :: "proc_table \<Rightarrow> proc_target \<Rightarrow> bool" where
  "target_ended table t \<longleftrightarrow>
     (case pid_int (pt_pid t) of None \<Rightarrow> True
      | Some pid \<Rightarrow> (case map_of table pid of None \<Rightarrow> True
          | Some r \<Rightarrow> pr_state r = CHR ''Z'' \<and> target_identity_matches t r))"

lemma map_of_drop: "map_of (filter (\<lambda>e. fst e \<noteq> k) xs) p = (if p = k then None else map_of xs p)"
  by (induction xs) auto

lemma observe_target_effect:
  assumes "observe_target w t pid (reaps, table) = ((ob, live), reaps', table')" and "pid_int (pt_pid t) = Some pid"
  shows "(\<not> live \<longrightarrow> target_ended table t)
     \<and> (table' = table \<or> (\<exists>r. map_of table pid = Some r \<and> pr_state r = CHR ''Z'' \<and> table' = filter (\<lambda>e. fst e \<noteq> pid) table))"
  using assms
  by (auto simp: observe_target_def Let_def target_ended_def split: option.split_asm if_split_asm)

text \<open>A target of which the table knows at most a zombie.\<close>

definition target_zombie :: "proc_table \<Rightarrow> proc_target \<Rightarrow> bool" where
  "target_zombie table t \<longleftrightarrow>
     (case pid_int (pt_pid t) of None \<Rightarrow> True
      | Some pid \<Rightarrow> (case map_of table pid of None \<Rightarrow> True | Some r \<Rightarrow> pr_state r = CHR ''Z''))"

lemma process_observations_effect:
  assumes "process_observations w ts (reaps, table) = ((obs, live), reaps', table')"
  shows "(\<forall>p r. map_of table p = Some r \<longrightarrow> map_of table' p = Some r \<or> pr_state r = CHR ''Z'')
     \<and> (\<exists>gone. table' = filter (\<lambda>e. fst e \<notin> gone) table \<and> (\<forall>p \<in> gone. \<exists>r. map_of table p = Some r \<and> pr_state r = CHR ''Z''))
     \<and> (live = [] \<longrightarrow> list_all (target_zombie table) ts)"
  using assms
proof (induction ts arbitrary: reaps table obs live)
  case Nil
  then show ?case by (auto intro!: exI [of _ "{}"])
next
  case (Cons t ts)
  show ?case
  proof (cases "pid_int (pt_pid t)")
    case None
    with Cons show ?thesis by (simp add: target_zombie_def)
  next
    case (Some pid)
    obtain ob l reaps1 table1 where 1: "observe_target w t pid (reaps, table) = ((ob, l), reaps1, table1)"
      by (metis prod.exhaust)
    obtain os ps where 2: "process_observations w ts (reaps1, table1) = ((os, ps), reaps', table')"
      and live: "live = (if l then pid # ps else ps)"
      using Cons.prems Some 1 by (auto split: prod.split_asm)
    note e = observe_target_effect [OF 1 Some]
    note IH = Cons.IH [OF 2]
    obtain gone where gone: "table' = filter (\<lambda>e. fst e \<notin> gone) table1"
      "\<forall>p \<in> gone. \<exists>r. map_of table1 p = Some r \<and> pr_state r = CHR ''Z''" using IH by blast
    obtain here where here: "table1 = filter (\<lambda>e. fst e \<notin> here) table"
      "\<forall>p \<in> here. \<exists>r. map_of table p = Some r \<and> pr_state r = CHR ''Z''"
    proof (cases "table1 = table")
      case True
      then show ?thesis using that [of "{}"] by simp
    next
      case False
      with e show ?thesis using that [of "{pid}"] by auto
    qed
    have sub: "map_of table1 p = (if p \<in> here then None else map_of table p)" for p
      unfolding here(1) by (induction table) auto
    have "table' = filter (\<lambda>e. fst e \<notin> here \<union> gone) table" by (simp add: gone(1) here(1))
    moreover have "\<forall>p \<in> here \<union> gone. \<exists>r. map_of table p = Some r \<and> pr_state r = CHR ''Z''"
      using gone(2) here(2) sub by (auto split: if_split_asm)
    moreover have "\<forall>p r. map_of table p = Some r \<longrightarrow> map_of table' p = Some r \<or> pr_state r = CHR ''Z''"
      using IH here(2) sub by (metis option.inject)
    moreover have "list_all (target_zombie table) (t # ts)" if "live = []"
    proof -
      from that live have "\<not> l" "ps = []" by (auto split: if_split_asm)
      with e have "target_zombie table t" by (auto simp: target_ended_def target_zombie_def Some split: option.split_asm option.split)
      moreover have "target_zombie table u" if "u \<in> set ts" for u
      proof -
        from IH \<open>ps = []\<close> that have "target_zombie table1 u" by (simp add: list_all_iff)
        with here(2) show ?thesis
          by (force simp: target_zombie_def sub split: option.split_asm option.split if_split_asm)
      qed
      ultimately show ?thesis by (simp add: list_all_iff)
    qed
    ultimately show ?thesis by blast
  qed
qed

text \<open>No member of the group is live.\<close>

definition group_ended :: "proc_table \<Rightarrow> int \<Rightarrow> bool" where
  "group_ended table g \<longleftrightarrow> list_all (\<lambda>(p, r). pr_pgid r = g \<longrightarrow> terminal_state (pr_state r)) table"

definition all_ended :: "proc_target list \<Rightarrow> int list \<Rightarrow> wait_input \<Rightarrow> bool" where
  "all_ended ts gs i \<longleftrightarrow> (case wi_table i of None \<Rightarrow> False
     | Some table \<Rightarrow> list_all (target_zombie table) ts \<and> list_all (group_ended table) gs)"

text \<open>A dict has one record for a PID.\<close>

definition dict_input :: "wait_input \<Rightarrow> bool" where
  "dict_input i \<longleftrightarrow> (case wi_table i of None \<Rightarrow> True | Some table \<Rightarrow> distinct (List.map fst table))"

lemma live_pids_of_empty: "live_pids_of q table = [] \<longleftrightarrow> (\<forall>e \<in> set table. q e \<longrightarrow> terminal_state (pr_state (snd e)))"
proof -
  have "sort xs = [] \<longleftrightarrow> xs = []" for xs :: "int list" by (metis set_empty set_sort)
  then show ?thesis by (auto simp: live_pids_of_def filter_empty_conv snapshot_process_is_live_def)
qed

lemma owned_turn_quiescent:
  assumes "owned_turn ts gs deadline fallback i reaps = (Some r, reaps')" and "wq_source r = ''linux_proc''"
    and "wq_status r = ''quiescent''" and "dict_input i"
  shows "all_ended ts gs i"
proof (cases "wi_table i")
  case None
  with assms(1,2) show ?thesis by (auto simp: owned_turn_def)
next
  case (Some table)
  obtain obs live reaps1 table' where 1: "process_observations (wi_waitpid i) ts (reaps, table) = ((obs, live), reaps1, table')"
    by (metis prod.exhaust)
  with assms(1,3) Some have l: "live = []" "filter (\<lambda>g. live_pids_of (\<lambda>e. pr_pgid (snd e) = g) table' \<noteq> []) gs = []"
    by (auto simp: owned_turn_def live_process_groups_def Let_def split: if_split_asm)
  note e = process_observations_effect [OF 1]
  from e obtain gone where gone: "table' = filter (\<lambda>e. fst e \<notin> gone) table"
    "\<forall>p \<in> gone. \<exists>r. map_of table p = Some r \<and> pr_state r = CHR ''Z''" by blast
  have "terminal_state (pr_state r)" if "(p, r) \<in> set table" "pr_pgid r = g" "g \<in> set gs" for p r g
  proof (cases "p \<in> gone")
    case True
    have "map_of table p = Some r" using assms(4) Some that(1) by (simp add: dict_input_def)
    with gone(2) True show ?thesis by (auto simp: terminal_state_def)
  next
    case False
    with l(2) that gone(1) show ?thesis by (auto simp: filter_empty_conv live_pids_of_empty)
  qed
  then have "list_all (group_ended table) gs" by (auto simp: list_all_iff group_ended_def)
  with e l(1) Some show ?thesis by (simp add: all_ended_def)
qed

lemma owned_loop_quiescent:
  "owned_loop ts gs deadline fallback is reaps = Some r \<Longrightarrow> wq_source r = ''linux_proc'' \<Longrightarrow> wq_status r = ''quiescent''
     \<Longrightarrow> list_all dict_input is \<Longrightarrow> list_ex (all_ended ts gs) is"
proof (induction "is" arbitrary: reaps)
  case (Cons i "is")
  obtain d reaps1 where 1: "owned_turn ts gs deadline fallback i reaps = (d, reaps1)" by (rule prod.exhaust)
  show ?case
  proof (cases d)
    case None
    with Cons 1 show ?thesis by simp
  next
    case (Some x)
    with Cons.prems 1 owned_turn_quiescent [of ts gs deadline fallback i reaps x reaps1] show ?thesis by simp
  qed
qed simp

text \<open>A wait for owned processes that reports quiescence from the process table is right about one of the
  tables it read: every target was absent or a zombie in it, and no process group it was asked about had a
  live member.  A PID taken over by another process, or a running one, never counts as ended.
\<close>

theorem owned_quiescence_is_observed:
  assumes "wait_for_owned_processes targets pgids timeout started fallback is = Some r"
    and "wq_source r = ''linux_proc''" and "wq_status r = ''quiescent''" and "list_all dict_input is"
  shows "list_ex (all_ended (filter (\<lambda>t. pid_int (pt_pid t) \<noteq> None) targets) (positive_unique pgids)) is"
  using owned_loop_quiescent [OF assms(1) [unfolded wait_for_owned_processes_def] assms(2-4)] .

definition wait_sample :: "wait_input list" where
  "wait_sample =
     [\<lparr>wi_table = Some [(7, \<lparr>pr_state = CHR ''R'', pr_ppid = 1, pr_pgid = 7, pr_ticks = 5\<rparr>)],
       wi_waitpid = (\<lambda>_. W_no_child), wi_now = 0\<rparr>,
      \<lparr>wi_table = Some [(7, \<lparr>pr_state = CHR ''Z'', pr_ppid = 1, pr_pgid = 7, pr_ticks = 5\<rparr>)],
       wi_waitpid = (\<lambda>_. W_no_child), wi_now = 50\<rparr>]"

definition target_sample :: "proc_target list" where
  "target_sample = [\<lparr>pt_role = None, pt_pid = Some 7, pt_pgid = Some 7, pt_identity = Some ''linux-proc:5'', pt_ticks = None\<rparr>]"

definition no_fallback :: "int \<Rightarrow> owned_wait" where
  "no_fallback d = \<lparr>wq_status = ''survivors'', wq_live_pids = [], wq_live_pgids = [], wq_source = [],
     wq_observations = [], wq_groups = []\<rparr>"

lemma wait_sample_run: "map_option (\<lambda>r. (wq_status r, wq_source r))
    (wait_for_owned_processes target_sample [Some 7] 1000 0 no_fallback wait_sample) = Some (''quiescent'', ''linux_proc'')"
  by code_simp

lemma owned_quiescence_is_observed_witness:
  "list_ex (all_ended target_sample [7]) wait_sample"
proof -
  obtain r where r: "wait_for_owned_processes target_sample [Some 7] 1000 0 no_fallback wait_sample = Some r"
    "wq_source r = ''linux_proc''" "wq_status r = ''quiescent''"
    using wait_sample_run by auto
  have "list_all dict_input wait_sample" by (simp add: wait_sample_def dict_input_def)
  from owned_quiescence_is_observed [OF r this] show ?thesis
    by (simp add: target_sample_def pid_int_def positive_unique_def List.map_filter_def)
qed

end
