(* ===== verification/Decimal.thy ===== *)
theory Decimal
  imports Lexer_Types
begin

text \<open>
  Decimal numerals as Python's format strings print them, and their value.
\<close>

fun decimal :: "nat \<Rightarrow> ucs" where
  "decimal n = (if n < 10 then [48 + n] else decimal (n div 10) @ [48 + n mod 10])"

declare decimal.simps [simp del]

text \<open>\<open>f"{n:08d}"\<close>\<close>

definition zpad8 :: "nat \<Rightarrow> ucs" where
  "zpad8 n = replicate (8 - length (decimal n)) 48 @ decimal n"

lemma decimal_digits: "list_all ascii_digit (decimal n)"
proof (induction n rule: decimal.induct)
  case (1 n)
  have "n mod 10 < 10" by simp
  then have "ascii_digit (48 + n mod 10)" "n < 10 \<Longrightarrow> ascii_digit (48 + n)"
    unfolding ascii_digit_def by linarith+
  with 1 show ?case by (subst decimal.simps) simp
qed

lemma decimal_value: "digits_value 10 (decimal n) = n"
proof (induction n rule: decimal.induct)
  case (1 n)
  have "n mod 10 < 10" by simp
  then have "digit_value (48 + n mod 10) = n mod 10" by (simp add: digit_value_def)
  with 1 show ?case by (subst decimal.simps) (auto simp: digits_value_def digit_value_def)
qed

lemma digits_value_zeros: "digits_value 10 (replicate k 48 @ s) = digits_value 10 s"
  by (induction k) (simp_all add: digits_value_def digit_value_def)

lemma zpad8_value: "digits_value 10 (zpad8 n) = n"
  by (simp add: zpad8_def digits_value_zeros decimal_value)

lemma zpad8_eq [simp]: "zpad8 m = zpad8 n \<longleftrightarrow> m = n"
  by (metis zpad8_value)

lemma zpad8_digits: "list_all ascii_digit (zpad8 n)"
  using decimal_digits [of n] by (auto simp: zpad8_def list_all_iff) (simp add: ascii_digit_def)

lemma decimal_length: "0 < k \<Longrightarrow> n < 10 ^ k \<Longrightarrow> length (decimal n) \<le> k"
proof (induction k arbitrary: n)
  case (Suc k)
  show ?case
  proof (cases "n < 10")
    case True
    then show ?thesis by (subst decimal.simps) simp
  next
    case False
    with Suc.prems have "0 < k" by (cases k) auto
    moreover have "n div 10 < 10 ^ k" using Suc.prems by (simp add: div_less_iff_less_mult)
    ultimately have "length (decimal (n div 10)) \<le> k" using Suc.IH by blast
    with False show ?thesis by (subst decimal.simps) simp
  qed
qed simp

lemma decimal_nonempty [simp]: "decimal n \<noteq> []"
  by (subst decimal.simps) simp

lemma decimal_eq [simp]: "decimal m = decimal n \<longleftrightarrow> m = n"
  by (metis decimal_value)

end
