(* ===== verification/Claim_Probe.thy ===== *)
theory Claim_Probe
  imports Theorem_Scan Ocaml_Literal Decimal "HOL-Library.List_Lexorder"
begin

text \<open>
  The claim probe of \<open>hol_workbench/vanilla_claims.py\<close>: the phrases appended to a source so that its
  transcript carries one nonce-bound marker line for every claim, the contract that names those markers, and
  the accounting of a raw transcript against the contract.  The fixed fields of a contract (schema and
  boundary texts) are left out; a raised exception is a \<open>probe_error\<close>.
\<close>

section \<open>Names and nonces\<close>

datatype probe_error =
    Bad_nonce
  | Bad_name ucs
  | Duplicate_names "ucs list"
  | Unclosed_quotation ucs
  | Quotation_hash ucs
  | Inventory_mismatch
  | Not_utf8
  | Not_encodable
  | Not_ascii

definition lower_hex :: "nat \<Rightarrow> bool" where
  "lower_hex c \<longleftrightarrow> (48 \<le> c \<and> c \<le> 57) \<or> (97 \<le> c \<and> c \<le> 102)"

definition nonce_ok :: "ucs \<Rightarrow> bool" where
  "nonce_ok s \<longleftrightarrow> length s = 32 \<and> list_all lower_hex s"

text \<open>The first argument is the value of \<open>secrets.token_hex(16)\<close>.\<close>

definition validated_nonce :: "ucs \<Rightarrow> ucs option \<Rightarrow> probe_error + ucs" where
  "validated_nonce fresh nonce =
     (let v = (case nonce of None \<Rightarrow> fresh | Some n \<Rightarrow> n) in if nonce_ok v then Inr v else Inl Bad_nonce)"

definition claim_name_ok :: "ucs \<Rightarrow> bool" where
  "claim_name_ok s \<longleftrightarrow>
     (case s of [] \<Rightarrow> False | c # cs \<Rightarrow> (ascii_letter c \<or> c = ch_underscore) \<and> list_all name_char cs)"

definition validated_claims :: "hol_claim list \<Rightarrow> probe_error + hol_claim list" where
  "validated_claims claims =
     (let selected = filter (\<lambda>c. cl_name c \<noteq> []) claims; names = map cl_name selected
      in case find (\<lambda>n. \<not> claim_name_ok n) names of
           Some n \<Rightarrow> Inl (Bad_name n)
         | None \<Rightarrow>
             let duplicates = sort (remdups (filter (\<lambda>n. 1 < count_list names n) names))
             in if duplicates \<noteq> [] then Inl (Duplicate_names duplicates) else Inr selected)"

section \<open>The contract\<close>

datatype verification_kind = Kernel_conclusion | Binding_only

record probe_row =
  pr_ordinal :: nat
  pr_name :: ucs
  pr_ok_marker :: ucs
  pr_mismatch_marker :: ucs
  pr_kind :: verification_kind
  pr_quote_sha256 :: "string option"

record probe_contract =
  pc_nonce :: ucs
  pc_source_sha256 :: string
  pc_source_bytes :: nat
  pc_prefix_sha256 :: "string option"
  pc_prefix_bytes :: nat
  pc_suffix_sha256 :: string
  pc_suffix_bytes :: nat
  pc_payload_sha256 :: string
  pc_completion_marker :: ucs
  pc_claims :: "probe_row list"
  pc_foundation :: "ucs option"

definition PROBE_OK_PREFIX :: ucs where "PROBE_OK_PREFIX = asc ''__HOL_CLAIM_PROBE_OK__''"
definition PROBE_MISMATCH_PREFIX :: ucs where "PROBE_MISMATCH_PREFIX = asc ''__HOL_CLAIM_PROBE_NO__''"
definition PROBE_DONE_PREFIX :: ucs where "PROBE_DONE_PREFIX = asc ''__HOL_CLAIM_PROBE_DONE__''"

definition ok_marker :: "ucs \<Rightarrow> nat \<Rightarrow> ucs" where
  "ok_marker token ordinal = PROBE_OK_PREFIX @ asc '':'' @ token @ asc '':'' @ zpad8 ordinal"

definition mismatch_marker :: "ucs \<Rightarrow> nat \<Rightarrow> ucs" where
  "mismatch_marker token ordinal = PROBE_MISMATCH_PREFIX @ asc '':'' @ token @ asc '':'' @ zpad8 ordinal"

definition completion_marker :: "ucs \<Rightarrow> ucs" where
  "completion_marker token = PROBE_DONE_PREFIX @ asc '':'' @ token"

section \<open>The appended phrases\<close>

definition matcher_name :: "ucs \<Rightarrow> ucs" where
  "matcher_name token = asc ''hol_workbench_probe_matches_'' @ token"

definition canonicalize_name :: "ucs \<Rightarrow> ucs" where
  "canonicalize_name token = asc ''hol_workbench_probe_canonicalize_'' @ token"

definition strict_matcher_source :: "ucs \<Rightarrow> ucs list" where
  "strict_matcher_source nonce =
     [asc ''let '' @ canonicalize_name nonce @ asc '' tm ='',
      asc ''  let tvs = type_vars_in_term tm in'',
      asc ''  let rec number_typevars n tys ='',
      asc ''    match tys with'',
      asc ''      [] -> []'',
      asc ''    | ty::rest ->'',
      asc ''        (mk_vartype (\"hol_workbench_probe_ty_\" ^ string_of_int n),ty)::'',
      asc ''        number_typevars (n + 1) rest in'',
      asc ''  inst (number_typevars 0 tvs) tm;;'',
      asc ''let '' @ matcher_name nonce @ asc '' a b ='',
      asc ''  aconv a b ||'',
      asc ''  (try aconv ('' @ canonicalize_name nonce @ asc '' a) ('' @ canonicalize_name nonce @ asc '' b)'',
      asc ''   with Failure _ -> false);;'']"

definition print_marker :: "ucs \<Rightarrow> ucs" where
  "print_marker m = asc ''print_endline '' @ ocaml_string_literal m"

definition literal_probe :: "ucs \<Rightarrow> nat \<Rightarrow> ucs \<Rightarrow> ucs \<Rightarrow> ucs" where
  "literal_probe token ordinal name quotation =
     (let th = asc ''hol_workbench_probe_th_'' @ zpad8 ordinal @ asc ''_'' @ token
      in asc ''let ('' @ th @ asc '' : thm) = '' @ name @ asc '' in ''
         @ asc ''if hyp '' @ th @ asc '' = [] && '' @ matcher_name token @ asc '' (concl '' @ th @ asc '') ''
         @ quotation @ asc '' then '' @ print_marker (ok_marker token ordinal)
         @ asc '' else '' @ print_marker (mismatch_marker token ordinal) @ asc '';;'')"

definition binding_probe :: "ucs \<Rightarrow> nat \<Rightarrow> ucs \<Rightarrow> ucs" where
  "binding_probe token ordinal name =
     asc ''let (_ : thm) = '' @ name @ asc '' in '' @ print_marker (ok_marker token ordinal) @ asc '';;''"

definition closed_quotation :: "ucs \<Rightarrow> bool" where
  "closed_quotation q \<longleftrightarrow> 2 \<le> length q \<and> hd q = ch_backquote \<and> last q = ch_backquote"

text \<open>One turn of the loop over the claims: the contract row and the phrase.\<close>

definition probe_claim :: "scanenv \<Rightarrow> ucs \<Rightarrow> nat \<Rightarrow> hol_claim \<Rightarrow> probe_error + probe_row \<times> ucs" where
  "probe_claim E token ordinal claim =
     (let row = \<lparr>pr_ordinal = ordinal, pr_name = cl_name claim, pr_ok_marker = ok_marker token ordinal,
                 pr_mismatch_marker = mismatch_marker token ordinal, pr_kind = Binding_only,
                 pr_quote_sha256 = None\<rparr>
      in if \<not> cl_extractable claim then Inr (row, binding_probe token ordinal (cl_name claim))
         else case cl_quote claim of
                None \<Rightarrow> Inl (Unclosed_quotation (cl_name claim))
              | Some q \<Rightarrow>
                  if \<not> closed_quotation q then Inl (Unclosed_quotation (cl_name claim))
                  else if \<not> list_all scalar q then Inl Not_encodable
                  else if cl_quote_sha256 claim \<noteq> Some (py_sha256 E (utf8_encode q))
                  then Inl (Quotation_hash (cl_name claim))
                  else Inr (row\<lparr>pr_kind := Kernel_conclusion,
                                pr_quote_sha256 := Some (py_sha256 E (utf8_encode q))\<rparr>,
                            literal_probe token ordinal (cl_name claim) q))"

fun probe_claims :: "scanenv \<Rightarrow> ucs \<Rightarrow> nat \<Rightarrow> hol_claim list \<Rightarrow> probe_error + (probe_row \<times> ucs) list" where
  "probe_claims E token ordinal [] = Inr []"
| "probe_claims E token ordinal (claim # claims) =
     bindE (probe_claim E token ordinal claim) (\<lambda>r.
     bindE (probe_claims E token (ordinal + 1) claims) (\<lambda>rs. Inr (r # rs)))"

definition build_claim_probe :: "scanenv \<Rightarrow> ucs \<Rightarrow> bytes \<Rightarrow> hol_claim list \<Rightarrow> ucs option \<Rightarrow> bytes
    \<Rightarrow> probe_error + bytes \<times> probe_contract" where
  "build_claim_probe E fresh source_bytes claims nonce prefix_bytes =
     (case utf8_decode source_bytes of
        Inl _ \<Rightarrow> Inl Not_utf8
      | Inr _ \<Rightarrow>
          bindE (validated_claims claims) (\<lambda>selected.
          bindE (validated_nonce fresh nonce) (\<lambda>token.
          bindE (probe_claims E token 0 selected) (\<lambda>rows.
            let lines = strict_matcher_source token @ map snd rows
                        @ [print_marker (completion_marker token) @ asc '';;''];
                suffix = utf8_encode (join_lines lines @ [ch_lf]);
                source_payload = source_bytes @ [0x0A] @ suffix;
                payload = prefix_bytes @ (if prefix_bytes = [] then [] else [0x0A]) @ source_payload
            in Inr (payload,
                 \<lparr>pc_nonce = token, pc_source_sha256 = py_sha256 E source_bytes,
                  pc_source_bytes = length source_bytes,
                  pc_prefix_sha256 = (if prefix_bytes = [] then None else Some (py_sha256 E prefix_bytes)),
                  pc_prefix_bytes = length prefix_bytes, pc_suffix_sha256 = py_sha256 E suffix,
                  pc_suffix_bytes = length suffix, pc_payload_sha256 = py_sha256 E payload,
                  pc_completion_marker = completion_marker token, pc_claims = map fst rows,
                  pc_foundation = None\<rparr>)))))"

end
