(* ===== verification/Claim_Accounting.thy ===== *)
theory Claim_Accounting
  imports Claim_Probe Statement_Normal
begin

text \<open>
  The accounting of a raw transcript against a claim probe's contract: \<open>account_claims\<close> of
  \<open>hol_workbench/vanilla_claims.py\<close> with the line functions it uses.  Only full lines of raw bytes that equal a
  marker of the contract are evidence; the decoded text is read for diagnostics.
\<close>

section \<open>Lines and text of a transcript\<close>

text \<open>\<open>bytes.splitlines()\<close>\<close>

definition byte_line_end :: "byte \<Rightarrow> bool" where
  "byte_line_end b \<longleftrightarrow> b = 0x0A \<or> b = 0x0D"

function byte_lines :: "bytes \<Rightarrow> bytes list" where
  "byte_lines bs =
     (if bs = [] then []
      else let line = takeWhile (Not \<circ> byte_line_end) bs;
               rest = dropWhile (Not \<circ> byte_line_end) bs
           in line # (case rest of
                        [] \<Rightarrow> []
                      | c # rest' \<Rightarrow>
                          byte_lines (if c = 0x0D \<and> take 1 rest' = [0x0A] then tl rest' else rest')))"
  by pat_completeness auto
termination
proof (relation "measure length")
  fix xs :: bytes and l r c r'
  assume a: "r = dropWhile (Not \<circ> byte_line_end) xs" "r = c # r'"
  have "length r \<le> length xs" unfolding a(1) by (rule length_dropWhile_le)
  then show "(if c = 0x0D \<and> take 1 r' = [0x0A] then tl r' else r', xs) \<in> measure length"
    using a(2) by auto
qed simp

declare byte_lines.simps [simp del]

text \<open>\<open>transcript.decode("utf-8", errors="replace")\<close>\<close>

function utf8_replace_from :: "nat list \<Rightarrow> ucs" where
  "utf8_replace_from [] = []"
| "utf8_replace_from (c # bs) =
     (if c < 0x80 then c # utf8_replace_from bs
      else case utf8_multi 0 c bs of
             Inl (_, e) \<Rightarrow> 0xFFFD # utf8_replace_from (drop (e - 1) bs)
           | Inr (u, n) \<Rightarrow> u # utf8_replace_from (drop (n - 1) bs))"
  by pat_completeness auto
termination
  by (relation "measure length") auto

definition utf8_replace :: "bytes \<Rightarrow> ucs" where
  "utf8_replace bs = utf8_replace_from (map unat bs)"

text \<open>\<open>s.encode("ascii")\<close>\<close>

definition ascii_encode :: "ucs \<Rightarrow> probe_error + bytes" where
  "ascii_encode s = (if list_all (\<lambda>c. c < 128) s then Inr (map of_nat s) else Inl Not_ascii)"

section \<open>Diagnostics of the decoded text\<close>

definition word_boundary_before :: "scanenv \<Rightarrow> ucs \<Rightarrow> nat \<Rightarrow> bool" where
  "word_boundary_before E xs i \<longleftrightarrow> i = 0 \<or> \<not> word_char E (xs ! (i - 1))"

definition word_boundary_after :: "scanenv \<Rightarrow> ucs \<Rightarrow> nat \<Rightarrow> bool" where
  "word_boundary_after E xs i \<longleftrightarrow> length xs \<le> i \<or> \<not> word_char E (xs ! i)"

text \<open>\<open>\bproved\s+(name)\<close> and \<open>\bval\s+(name)\s*:\s*thm\b\<close>\<close>

definition word_then_name :: "scanenv \<Rightarrow> ucs \<Rightarrow> ucs \<Rightarrow> nat \<Rightarrow> (nat \<times> nat) option" where
  "word_then_name E w xs i =
     (if \<not> startswith_at xs w i \<or> \<not> word_boundary_before E xs i then None
      else let j = skip_while py_space xs (i + length w)
           in if j = i + length w \<or> length xs \<le> j \<or> \<not> (ascii_letter (xs ! j) \<or> xs ! j = ch_underscore) then None
              else Some (j, skip_while name_char xs (j + 1)))"

definition match_proved :: "scanenv \<Rightarrow> ucs \<Rightarrow> nat \<Rightarrow> theorem_match option" where
  "match_proved E xs i =
     map_option (\<lambda>(j, k). \<lparr>tm_start = i, tm_name = slice xs j k, tm_rule = None, tm_end = k\<rparr>)
       (word_then_name E (asc ''proved'') xs i)"

definition match_val :: "scanenv \<Rightarrow> ucs \<Rightarrow> nat \<Rightarrow> theorem_match option" where
  "match_val E xs i =
     (case word_then_name E (asc ''val'') xs i of
        None \<Rightarrow> None
      | Some (j, k) \<Rightarrow>
          let l = skip_while py_space xs k
          in if length xs \<le> l \<or> xs ! l \<noteq> 58 then None
             else let m = skip_while py_space xs (l + 1)
                  in if startswith_at xs (asc ''thm'') m \<and> word_boundary_after E xs (m + 3)
                     then Some \<lparr>tm_start = i, tm_name = slice xs j k, tm_rule = None, tm_end = m + 3\<rparr>
                     else None)"

definition line_matches :: "scanenv \<Rightarrow> ucs \<Rightarrow> ucs list" where
  "line_matches E line = map tm_name (finditer (match_proved E line) (length line) 0
                                      @ finditer (match_val E line) (length line) 0)"

text \<open>The lines found for one name; a name without a line has no entry in the code's dictionary.\<close>

definition diagnostic_claim_lines :: "scanenv \<Rightarrow> ucs \<Rightarrow> ucs list \<Rightarrow> ucs \<Rightarrow> nat list" where
  "diagnostic_claim_lines E transcript names name =
     (if name \<notin> set names then []
      else concat (map (\<lambda>(index, line). replicate (count_list (line_matches E line) name) index)
                       (enumerate 1 (splitlines transcript))))"

definition failure_prefix :: "scanenv \<Rightarrow> ucs \<Rightarrow> bool" where
  "failure_prefix E s \<longleftrightarrow>
     list_ex (\<lambda>p. startswith_at s (asc p) 0) [''Error:'', ''Exception:'', ''Exception raised:'']
     \<or> list_ex (\<lambda>p. startswith_at s (asc p) 0 \<and> word_boundary_after E s (length p))
         [''Unbound value'', ''Unbound constructor'', ''Unbound module'', ''Reference to undefined global'',
          ''Tactic failed'', ''Failure'']
     \<or> s = asc ''Stack overflow during evaluation (looping recursion?).''"

definition exception_inside :: "scanenv \<Rightarrow> ucs \<Rightarrow> bool" where
  "exception_inside E s \<longleftrightarrow>
     list_ex (\<lambda>i. word_boundary_before E s i
                  \<and> (startswith_at s (asc ''Exception:'') i \<or> startswith_at s (asc ''Exception raised:'') i))
       [0..<length s]"

definition starts_any :: "string list \<Rightarrow> ucs \<Rightarrow> bool" where
  "starts_any ps s \<longleftrightarrow> list_ex (\<lambda>p. startswith_at s (asc p) 0) ps"

definition remove_prompt :: "ucs \<Rightarrow> ucs" where
  "remove_prompt s = (if startswith_at s (asc ''# '') 0 then drop 2 s else s)"

fun error_message :: "scanenv \<Rightarrow> ucs list \<Rightarrow> ucs list" where
  "error_message E [] = []"
| "error_message E (cont # conts) =
     (let txt = strip cont
      in if txt = [] \<or> starts_any [''val '', ''# '', ''__HOL_'', ''HOL_WORKBENCH_'', ''Error in included file''] txt
         then []
         else if \<not> (cont \<noteq> [] \<and> py_space (hd cont)) \<and> \<not> failure_prefix E txt then []
         else txt # error_message E conts)"

definition join_words :: "ucs list \<Rightarrow> ucs" where
  "join_words ws = (case ws of [] \<Rightarrow> [] | w # ws' \<Rightarrow> w @ concat (map (\<lambda>x. ch_space # x) ws'))"

fun first_error_from :: "scanenv \<Rightarrow> nat \<Rightarrow> ucs list \<Rightarrow> (nat \<times> ucs) option" where
  "first_error_from E offset [] = None"
| "first_error_from E offset (line # lines) =
     (let stripped = strip (remove_prompt (strip line))
      in if failure_prefix E stripped \<or> exception_inside E stripped
         then Some (offset + 1, take 2400 (join_words (stripped # error_message E (take 13 lines))))
         else first_error_from E (offset + 1) lines)"

definition first_error :: "scanenv \<Rightarrow> ucs \<Rightarrow> (nat \<times> ucs) option" where
  "first_error E transcript = first_error_from E 0 (splitlines transcript)"

section \<open>Printed theorem text\<close>

text \<open>\<open>\x1b\[[0-?]*[ -/]*[@-~]\<close>; the three classes are disjoint, so the match is one pass.\<close>

definition ansi_end :: "ucs \<Rightarrow> nat \<Rightarrow> nat option" where
  "ansi_end xs i =
     (if \<not> startswith_at xs [27, ch_lbrack] i then None
      else let j = skip_while (\<lambda>c. 48 \<le> c \<and> c \<le> 63) xs (i + 2);
               k = skip_while (\<lambda>c. 32 \<le> c \<and> c \<le> 47) xs j
           in if k < length xs \<and> 64 \<le> xs ! k \<and> xs ! k \<le> 126 then Some (k + 1) else None)"

function strip_ansi_from :: "ucs \<Rightarrow> nat \<Rightarrow> ucs" where
  "strip_ansi_from xs i =
     (if i < length xs
      then case ansi_end xs i of
             None \<Rightarrow> xs ! i # strip_ansi_from xs (i + 1)
           | Some e \<Rightarrow> strip_ansi_from xs (if i < e then e else i + 1)
      else [])"
  by pat_completeness auto
termination
  by (relation "measure (\<lambda>(xs, i). length xs - i)") auto

declare strip_ansi_from.simps [simp del]

definition strip_ansi :: "ucs \<Rightarrow> ucs" where
  "strip_ansi line = strip_ansi_from line 0"

record printed_theorem =
  pt_line :: nat
  pt_text :: ucs
  pt_conclusion :: "ucs option"
  pt_truncated :: bool

fun theorem_block :: "ucs list \<Rightarrow> ucs list" where
  "theorem_block [] = []"
| "theorem_block (following # rest) =
     (let stripped = strip following
      in if stripped = [] \<or> starts_any [''val '', ''# '', ''__HOL_'', ''HOL_WORKBENCH_''] stripped then []
         else if \<not> (following \<noteq> [] \<and> py_space (hd following)) \<and> \<not> startswith_at stripped (asc ''|-'') 0 then []
         else following # theorem_block rest)"

definition printed_theorem_at :: "ucs list \<Rightarrow> nat \<Rightarrow> printed_theorem" where
  "printed_theorem_at source lineno =
     (let offset = lineno - 1;
          block = source ! offset # theorem_block (slice source (offset + 1) (offset + 28));
          full = join_lines block;
          bounded = take 4096 full
      in \<lparr>pt_line = lineno, pt_text = bounded,
          pt_conclusion =
            (case find_from bounded [61] 0 of
               None \<Rightarrow> None
             | Some e \<Rightarrow>
                 if find_from (take e bounded) (asc '': thm'') 0 = None then None
                 else Some (strip_ansi (strip (drop (e + 1) bounded)))),
          pt_truncated = (length bounded < length full \<or> length block = 28)\<rparr>)"

definition diagnostic_claim_output :: "ucs list \<Rightarrow> nat list \<Rightarrow> printed_theorem list" where
  "diagnostic_claim_output source lines =
     map (printed_theorem_at source) (drop (length lines - 3) lines)"

section \<open>Marker lines\<close>

definition contract_markers :: "probe_contract \<Rightarrow> ucs list" where
  "contract_markers K =
     pc_completion_marker K # concat (map (\<lambda>row. [pr_ok_marker row, pr_mismatch_marker row]) (pc_claims K))"

fun encode_all :: "ucs list \<Rightarrow> probe_error + bytes list" where
  "encode_all [] = Inr []"
| "encode_all (s # ss) = bindE (ascii_encode s) (\<lambda>b. bindE (encode_all ss) (\<lambda>bs. Inr (b # bs)))"

definition note_line :: "nat \<times> bytes \<Rightarrow> (bytes \<rightharpoonup> nat list) \<Rightarrow> (bytes \<rightharpoonup> nat list)" where
  "note_line = (\<lambda>(index, line) found.
     case found line of None \<Rightarrow> found | Some lines \<Rightarrow> found (line \<mapsto> lines @ [index]))"

definition exact_marker_lines :: "bytes \<Rightarrow> probe_contract \<Rightarrow> probe_error + (bytes \<rightharpoonup> nat list)" where
  "exact_marker_lines transcript K =
     bindE (encode_all (contract_markers K)) (\<lambda>markers.
       Inr (fold note_line (enumerate 1 (byte_lines transcript))
              (\<lambda>m. if m \<in> set markers then Some [] else None)))"

section \<open>Claim documents\<close>

datatype claim_status = Proved | Failed | Printed_unprobed | Missing

datatype claim_evidence =
    Nonce_probe_kernel_conclusion
  | Nonce_probe_binding_only
  | Nonce_probe_conclusion_mismatch
  | Nonce_probe_marker_ambiguous
  | Unverified_toplevel_output
  | Nonce_probe_marker_missing

record claim_doc =
  cd_theorem :: ucs
  cd_statement :: "ucs option"
  cd_quote_sha256 :: "string option"
  cd_source_span :: "nat \<times> nat"
  cd_status :: claim_status
  cd_evidence :: claim_evidence
  cd_kind :: verification_kind
  cd_marker_count :: nat
  cd_mismatch_count :: nat
  cd_observed_line :: "nat option"
  cd_diagnostic_lines :: "nat list"
  cd_diagnostic_output :: "printed_theorem list"

record accounting =
  ac_first_error :: "(nat \<times> ucs) option"
  ac_completion_count :: nat
  ac_completion_valid :: bool
  ac_observed_claims :: "ucs list"

definition claim_verdict :: "verification_kind \<Rightarrow> nat list \<Rightarrow> nat list \<Rightarrow> bool
    \<Rightarrow> claim_status \<times> claim_evidence \<times> nat option" where
  "claim_verdict kind ok_lines mismatch_lines printed =
     (if length ok_lines = 1 \<and> mismatch_lines = []
      then (Proved,
            if kind = Kernel_conclusion then Nonce_probe_kernel_conclusion else Nonce_probe_binding_only,
            Some (hd ok_lines))
      else if length mismatch_lines = 1 \<and> ok_lines = []
      then (Failed, Nonce_probe_conclusion_mismatch, Some (hd mismatch_lines))
      else if 1 < length ok_lines \<or> 1 < length mismatch_lines \<or> (ok_lines \<noteq> [] \<and> mismatch_lines \<noteq> [])
      then (Failed, Nonce_probe_marker_ambiguous, None)
      else if printed then (Printed_unprobed, Unverified_toplevel_output, None)
      else (Missing, Nonce_probe_marker_missing, None))"

definition claim_doc_of :: "hol_claim \<Rightarrow> probe_row \<Rightarrow> nat list \<Rightarrow> nat list \<Rightarrow> nat list \<Rightarrow> printed_theorem list
    \<Rightarrow> claim_doc" where
  "claim_doc_of claim row ok_lines mismatch_lines natural output =
     (let (status, evidence, observed) =
            claim_verdict (pr_kind row) ok_lines mismatch_lines (natural \<noteq> [])
      in \<lparr>cd_theorem = cl_name claim, cd_statement = cl_statement claim,
          cd_quote_sha256 = cl_quote_sha256 claim,
          cd_source_span = (cl_source_line claim,
                            case cl_statement_end_line claim of
                              Some l \<Rightarrow> (if l = 0 then cl_source_line claim else l)
                            | None \<Rightarrow> cl_source_line claim),
          cd_status = status, cd_evidence = evidence, cd_kind = pr_kind row,
          cd_marker_count = length ok_lines, cd_mismatch_count = length mismatch_lines,
          cd_observed_line = observed, cd_diagnostic_lines = natural,
          cd_diagnostic_output = output\<rparr>)"

definition lines_of :: "(bytes \<rightharpoonup> nat list) \<Rightarrow> ucs \<Rightarrow> nat list" where
  "lines_of found marker = (case found (map of_nat marker) of None \<Rightarrow> [] | Some lines \<Rightarrow> lines)"

definition account_claims :: "scanenv \<Rightarrow> hol_claim list \<Rightarrow> bytes \<Rightarrow> probe_contract
    \<Rightarrow> probe_error + claim_doc list \<times> accounting" where
  "account_claims E claims transcript K =
     bindE (validated_claims claims) (\<lambda>selected.
       if map cl_name selected \<noteq> map pr_name (pc_claims K) then Inl Inventory_mismatch
       else let names = map cl_name selected; diagnostic = utf8_replace transcript
            in bindE (exact_marker_lines transcript K) (\<lambda>found.
                 let docs = map (\<lambda>(claim, row).
                       let natural = diagnostic_claim_lines E diagnostic names (cl_name claim)
                       in claim_doc_of claim row (lines_of found (pr_ok_marker row))
                            (lines_of found (pr_mismatch_marker row)) natural
                            (diagnostic_claim_output (splitlines diagnostic) natural))
                       (zip selected (pc_claims K));
                     completion = lines_of found (pc_completion_marker K)
                 in Inr (docs,
                      \<lparr>ac_first_error = first_error E diagnostic,
                       ac_completion_count = length completion,
                       ac_completion_valid = (length completion = 1),
                       ac_observed_claims = map cd_theorem (filter (\<lambda>d. cd_status d = Proved) docs)\<rparr>)))"

section \<open>Counts and target status\<close>

definition binding_status_counts :: "claim_status list \<Rightarrow> claim_status \<Rightarrow> nat" where
  "binding_status_counts rows s = count_list rows s"

datatype pack_status = Pack_complete | Pack_failed | Pack_partial

definition target_pack_status :: "claim_doc list \<Rightarrow> int \<Rightarrow> pack_status" where
  "target_pack_status docs child_status =
     (let statuses = set (map cd_status docs)
      in if child_status = 0 \<and> statuses = {Proved} then Pack_complete
         else if Failed \<in> statuses \<or> child_status \<noteq> 0 then Pack_failed
         else if Missing \<in> statuses \<or> Printed_unprobed \<in> statuses then Pack_partial
         else Pack_failed)"

end
