(* ===== verification/Claim_Semantics.thy ===== *)
theory Claim_Semantics
  imports Claim_Accounting Json
begin

text \<open>
  The verdict on a replayed source: \<open>hol_workbench/foundation_delta.py\<close> and
  \<open>hol_workbench/cli/orbstack_criu_vanilla_semantics.py\<close>.  The proof diagnostics and the activity stream, which
  only add fields beside the verdict, are left out.
\<close>

section \<open>The foundation marker\<close>

definition FOUNDATION_DELTA_PREFIX :: ucs where
  "FOUNDATION_DELTA_PREFIX = asc ''__HOL_FOUNDATION_DELTA__''"

definition foundation_prefix_ok :: "ucs \<Rightarrow> bool" where
  "foundation_prefix_ok s \<longleftrightarrow>
     (let p = FOUNDATION_DELTA_PREFIX @ asc '':''
      in length s = length p + 33 \<and> take (length p) s = p \<and> nonce_ok (slice s (length p) (length p + 32))
         \<and> drop (length p + 32) s = asc '':'')"

definition foundation_probe_contract :: "ucs \<Rightarrow> ucs option" where
  "foundation_probe_contract nonce =
     (let marker_prefix = FOUNDATION_DELTA_PREFIX @ asc '':'' @ nonce @ asc '':''
      in if foundation_prefix_ok marker_prefix then Some marker_prefix else None)"

text \<open>\<open>(ok|invalid):(-?[0-9]{1,18}):\<dots>\<close> after the prefix: five fields between colons.\<close>

fun split_fields :: "byte \<Rightarrow> bytes \<Rightarrow> bytes list" where
  "split_fields sep [] = [[]]"
| "split_fields sep (b # bs) =
     (if b = sep then [] # split_fields sep bs
      else case split_fields sep bs of [] \<Rightarrow> [[b]] | f # fs \<Rightarrow> (b # f) # fs)"

definition digits_int :: "bytes \<Rightarrow> int" where
  "digits_int ds = foldl (\<lambda>n b. 10 * n + (uint b - 48)) 0 ds"

definition delta_digits :: "bytes \<Rightarrow> int option" where
  "delta_digits ds =
     (if 1 \<le> length ds \<and> length ds \<le> 18 \<and> list_all (\<lambda>b. 48 \<le> b \<and> b \<le> 57) ds
      then Some (digits_int ds) else None)"

definition delta_field :: "bytes \<Rightarrow> int option" where
  "delta_field f =
     (case f of [] \<Rightarrow> None
      | b # ds \<Rightarrow> if b = 0x2D then map_option uminus (delta_digits ds) else delta_digits f)"

definition parse_delta :: "bytes \<Rightarrow> (bool \<times> int \<times> int \<times> int \<times> int) option" where
  "parse_delta rest =
     (case split_fields 0x3A rest of
        [w, a, d, t, c] \<Rightarrow>
          if w = basc ''ok'' \<or> w = basc ''invalid''
          then (case (delta_field a, delta_field d, delta_field t, delta_field c) of
                  (Some a, Some d, Some t, Some c) \<Rightarrow> Some (w = basc ''ok'', a, d, t, c)
                | _ \<Rightarrow> None)
          else None
      | _ \<Rightarrow> None)"

datatype foundation_status =
    Fd_unavailable | Fd_invalid_contract | Fd_missing | Fd_ambiguous | Fd_malformed | Fd_invalid | Fd_observed

datatype advisory =
    Contract_unavailable | Contract_malformed | Marker_missing | Marker_ambiguous | Marker_malformed
  | Axioms_introduced int | Not_prepend_extensions | Replay_incomplete | Exit_status json

record deltas =
  dl_axioms :: int
  dl_definitions :: int
  dl_types :: int
  dl_constants :: int

record foundation_report =
  fr_status :: foundation_status
  fr_marker_count :: nat
  fr_line :: "nat option"
  fr_deltas :: "deltas option"
  fr_reasons :: "advisory list"

definition no_delta :: "foundation_status \<Rightarrow> nat \<Rightarrow> nat option \<Rightarrow> advisory \<Rightarrow> foundation_report" where
  "no_delta status count line reason =
     \<lparr>fr_status = status, fr_marker_count = count, fr_line = line, fr_deltas = None, fr_reasons = [reason]\<rparr>"

definition account_foundation_delta :: "bytes \<Rightarrow> ucs option \<Rightarrow> foundation_report" where
  "account_foundation_delta transcript marker =
     (case marker of
        None \<Rightarrow> no_delta Fd_unavailable 0 None Contract_unavailable
      | Some marker_prefix \<Rightarrow>
          if \<not> foundation_prefix_ok marker_prefix then no_delta Fd_invalid_contract 0 None Contract_malformed
          else
            let prefix_bytes = map of_nat marker_prefix;
                candidates = filter (\<lambda>(_, line). startswith_at line prefix_bytes 0)
                               (enumerate 1 (byte_lines transcript))
            in (case candidates of
                 [] \<Rightarrow> no_delta Fd_missing 0 None Marker_missing
               | [(lineno, line)] \<Rightarrow>
                   (case parse_delta (drop (length prefix_bytes) line) of
                      None \<Rightarrow> no_delta Fd_malformed 1 (Some lineno) Marker_malformed
                    | Some (wrapper_ok, a, d, t, c) \<Rightarrow>
                        if wrapper_ok \<and> 0 \<le> a \<and> 0 \<le> d \<and> 0 \<le> t \<and> 0 \<le> c
                        then \<lparr>fr_status = Fd_observed, fr_marker_count = 1, fr_line = Some lineno,
                              fr_deltas = Some \<lparr>dl_axioms = a, dl_definitions = d, dl_types = t, dl_constants = c\<rparr>,
                              fr_reasons = (if 0 < a then [Axioms_introduced a] else [])\<rparr>
                        else no_delta Fd_invalid 1 (Some lineno) Not_prepend_extensions)
               | _ \<Rightarrow> no_delta Fd_ambiguous (length candidates) None Marker_ambiguous))"

section \<open>Reading a transcript\<close>

definition instrumented_source_bytes :: "scanenv \<Rightarrow> ucs \<Rightarrow> (ucs \<Rightarrow> bytes) \<Rightarrow> bytes \<Rightarrow> hol_claim list \<Rightarrow> ucs option
    \<Rightarrow> bytes \<Rightarrow> bool \<Rightarrow> probe_error + bytes \<times> probe_contract" where
  "instrumented_source_bytes E fresh preludes source_bytes claims nonce prefix_bytes include =
     (if \<not> include then build_claim_probe E fresh source_bytes claims nonce prefix_bytes
      else
        let token = (case nonce of None \<Rightarrow> fresh | Some n \<Rightarrow> if n = [] then fresh else n);
            prefix_bytes = prefix_bytes @ [0x0A] @ preludes token
        in bindE (build_claim_probe E fresh source_bytes claims (Some token) prefix_bytes) (\<lambda>(payload, K).
             case foundation_probe_contract (pc_nonce K) of
               None \<Rightarrow> Inl Bad_nonce
             | Some marker \<Rightarrow> Inr (payload, K\<lparr>pc_foundation := Some marker\<rparr>)))"

definition completion_observed :: "bytes \<Rightarrow> probe_contract \<Rightarrow> probe_error + bool" where
  "completion_observed transcript K =
     bindE (ascii_encode (pc_completion_marker K)) (\<lambda>marker.
       Inr (length (filter (\<lambda>line. line = marker) (byte_lines transcript)) = 1))"

definition included_file_error_observed :: "bytes \<Rightarrow> bool" where
  "included_file_error_observed transcript \<longleftrightarrow>
     list_ex (\<lambda>line. find_from line (basc ''Error in included file'') 0 \<noteq> None) (byte_lines transcript)"

definition ACTIVITY_PREFIX :: ucs where "ACTIVITY_PREFIX = asc ''__HOL_PROOF_ACTIVITY__''"

definition shown_line :: "probe_contract \<Rightarrow> bytes list \<Rightarrow> bytes \<Rightarrow> bool" where
  "shown_line K hidden line \<longleftrightarrow>
     (let foundation = (case pc_foundation K of None \<Rightarrow> [] | Some p \<Rightarrow> map of_nat p)
      in line \<notin> set hidden \<and> \<not> (foundation \<noteq> [] \<and> startswith_at line foundation 0)
         \<and> \<not> startswith_at line (utf8_encode (asc ''__HOL_PROOF_DIAGNOSTIC__:'' @ pc_nonce K @ asc '':'')) 0
         \<and> \<not> startswith_at line (utf8_encode (ACTIVITY_PREFIX @ asc '':'' @ pc_nonce K @ asc '':'')) 0)"

definition join_byte_lines :: "bytes list \<Rightarrow> bytes" where
  "join_byte_lines ls = (case ls of [] \<Rightarrow> [] | l # ls' \<Rightarrow> l @ concat (map (\<lambda>x. 0x0A # x) ls'))"

definition displayed_transcript :: "bytes \<Rightarrow> probe_contract \<Rightarrow> probe_error + ucs" where
  "displayed_transcript transcript K =
     bindE (encode_all (contract_markers K)) (\<lambda>hidden.
     bindE (ascii_encode (case pc_foundation K of None \<Rightarrow> [] | Some p \<Rightarrow> p)) (\<lambda>_.
       let rendered = join_byte_lines (filter (shown_line K hidden) (byte_lines transcript))
       in Inr (utf8_replace
            (if rendered \<noteq> [] \<and> byte_line_end (last transcript) then rendered @ [0x0A] else rendered))))"

section \<open>The verdict\<close>

datatype source_status = Succeeded | Claims_incomplete | Source_failed | Not_completed
datatype recommendation = Block | No_foundation_objection | Manual_review

record binding_row =
  bd_name :: ucs
  bd_status :: claim_status
  bd_evidence :: claim_evidence
  bd_kind :: verification_kind
  bd_line :: "nat option"
  bd_unverified_lines :: "nat list"
  bd_printed_output :: "printed_theorem list"

record analysis =
  an_source_status :: source_status
  an_source_completed :: bool
  an_claims_complete :: bool
  an_semantic_exit :: int
  an_effective_exit :: json
  an_transport :: string
  an_process_exit :: json
  an_completion_observed :: bool
  an_completion_valid :: bool
  an_completion_count :: nat
  an_included_file_error :: bool
  an_first_failure :: "(nat \<times> ucs) option"
  an_failure_like :: "(nat \<times> ucs) option"
  an_failure_ignored :: bool
  an_observed :: "ucs list"
  an_bindings :: "binding_row list"
  an_counts :: "claim_status \<Rightarrow> nat"
  an_claims :: "claim_doc list"
  an_foundation :: "foundation_report option"
  an_advisory :: "(recommendation \<times> advisory list) option"

definition binding_row_of :: "claim_doc \<Rightarrow> binding_row" where
  "binding_row_of d =
     \<lparr>bd_name = cd_theorem d, bd_status = cd_status d, bd_evidence = cd_evidence d, bd_kind = cd_kind d,
      bd_line = cd_observed_line d, bd_unverified_lines = cd_diagnostic_lines d,
      bd_printed_output = cd_diagnostic_output d\<rparr>"

text \<open>\<open>isinstance(v, int)\<close>, which also holds of booleans, and the value compared with zero.\<close>

definition py_int :: "json \<Rightarrow> int option" where
  "py_int j = (case j of J_int i \<Rightarrow> Some i | J_bool b \<Rightarrow> Some (if b then 1 else 0) | _ \<Rightarrow> None)"

definition promotion_advisory :: "foundation_report \<Rightarrow> bool \<Rightarrow> json \<Rightarrow> recommendation \<times> advisory list" where
  "promotion_advisory fr semantic_success process_exit =
     (let clean = (process_exit = J_int 0);
          reasons = fr_reasons fr
            @ (if semantic_success then [] else [Replay_incomplete])
            @ (if clean then []
               else [Exit_status (if py_int process_exit = None then J_str ''unavailable'' else process_exit)]);
          axioms = (case fr_deltas fr of None \<Rightarrow> 0 | Some d \<Rightarrow> dl_axioms d)
      in (if fr_status fr = Fd_observed \<and> 0 < axioms then Block
          else if fr_status fr = Fd_observed \<and> semantic_success \<and> clean then No_foundation_objection
          else Manual_review,
          reasons))"

definition effective_exit :: "string \<Rightarrow> json \<Rightarrow> int \<Rightarrow> json" where
  "effective_exit transport process_exit semantic_exit =
     (if transport = ''interrupted'' then J_int 130
      else case py_int process_exit of
             None \<Rightarrow> J_int semantic_exit
           | Some i \<Rightarrow> if i \<noteq> 0 then process_exit else J_int semantic_exit)"

definition analyze_vanilla_transcript :: "scanenv \<Rightarrow> hol_claim list \<Rightarrow> bytes \<Rightarrow> probe_contract \<Rightarrow> string \<Rightarrow> dict
    \<Rightarrow> probe_error + analysis" where
  "analyze_vanilla_transcript E claims transcript K transport response =
     bindE (account_claims E claims transcript K) (\<lambda>(docs, ac).
       let failure_like = first_error E (utf8_replace transcript);
           included = included_file_error_observed transcript;
           completed = (transport = ''completed'' \<and> ac_completion_valid ac \<and> \<not> included);
           claims_complete = list_all (\<lambda>d. cd_status d = Proved) docs;
           success = (completed \<and> claims_complete);
           process_exit = (if response = [] then J_null else dget response ''exit_status'');
           semantic_exit = (if success then 0 else 1);
           report = map_option (\<lambda>_. account_foundation_delta transcript (pc_foundation K)) (pc_foundation K)
       in Inr \<lparr>an_source_status =
                 (if success then Succeeded else if completed then Claims_incomplete
                  else if transport = ''completed'' then Source_failed else Not_completed),
               an_source_completed = completed, an_claims_complete = claims_complete,
               an_semantic_exit = semantic_exit,
               an_effective_exit = effective_exit transport process_exit semantic_exit,
               an_transport = transport, an_process_exit = process_exit,
               an_completion_observed = ac_completion_valid ac,
               an_completion_valid = (ac_completion_valid ac \<and> \<not> included),
               an_completion_count = ac_completion_count ac,
               an_included_file_error = included,
               an_first_failure = (if completed then None else failure_like),
               an_failure_like = failure_like,
               an_failure_ignored = (completed \<and> failure_like \<noteq> None),
               an_observed = map cd_theorem (filter (\<lambda>d. cd_status d = Proved) docs),
               an_bindings = map binding_row_of docs,
               an_counts = binding_status_counts (map cd_status docs),
               an_claims = docs,
               an_foundation = report,
               an_advisory = map_option (\<lambda>fr. promotion_advisory fr success process_exit) report\<rparr>)"

end
