(* ===== verification/Claim_Accounting_Props.thy ===== *)
theory Claim_Accounting_Props
  imports Claim_Semantics "HOL-Library.Sublist"
begin

text \<open>
  What a claim probe's contract buys: its markers are pairwise distinct, the accounting credits a claim exactly
  when its own marker is a full line of the transcript once, and a verdict of success needs every marker.
\<close>

section \<open>Markers\<close>

lemma marker_heads:
  "take 19 (ok_marker t n) = asc ''__HOL_CLAIM_PROBE_O''"
  "take 19 (mismatch_marker t n) = asc ''__HOL_CLAIM_PROBE_N''"
  "take 19 (completion_marker t) = asc ''__HOL_CLAIM_PROBE_D''"
  by (simp_all add: ok_marker_def mismatch_marker_def completion_marker_def PROBE_OK_PREFIX_def
      PROBE_MISMATCH_PREFIX_def PROBE_DONE_PREFIX_def asc_def)

lemma markers_differ [simp]:
  "ok_marker t m \<noteq> mismatch_marker u n" "mismatch_marker t m \<noteq> ok_marker u n"
  "ok_marker t m \<noteq> completion_marker u" "completion_marker u \<noteq> ok_marker t m"
  "mismatch_marker t m \<noteq> completion_marker u" "completion_marker u \<noteq> mismatch_marker t m"
proof -
  have "take 19 (ok_marker t m) \<noteq> take 19 (mismatch_marker u n)"
       "take 19 (ok_marker t m) \<noteq> take 19 (completion_marker u)"
       "take 19 (mismatch_marker t m) \<noteq> take 19 (completion_marker u)"
       "take 19 (ok_marker u n) \<noteq> take 19 (mismatch_marker t m)"
    by (simp_all add: marker_heads asc_def)
  then show "ok_marker t m \<noteq> mismatch_marker u n" "mismatch_marker t m \<noteq> ok_marker u n"
    "ok_marker t m \<noteq> completion_marker u" "completion_marker u \<noteq> ok_marker t m"
    "mismatch_marker t m \<noteq> completion_marker u" "completion_marker u \<noteq> mismatch_marker t m"
    by metis+
qed

lemma markers_injective [simp]:
  "ok_marker t m = ok_marker t n \<longleftrightarrow> m = n"
  "mismatch_marker t m = mismatch_marker t n \<longleftrightarrow> m = n"
  by (simp_all add: ok_marker_def mismatch_marker_def)

definition is_ascii :: "ucs \<Rightarrow> bool" where
  "is_ascii s \<longleftrightarrow> list_all (\<lambda>c. c < 128) s"

lemma is_ascii_append [simp]: "is_ascii (s @ t) \<longleftrightarrow> is_ascii s \<and> is_ascii t"
  by (simp add: is_ascii_def)

lemma digits_ascii: "list_all ascii_digit s \<Longrightarrow> is_ascii s"
  by (auto simp: is_ascii_def ascii_digit_def list_all_iff)

lemma nonce_ascii: "nonce_ok t \<Longrightarrow> is_ascii t"
  by (fastforce simp: nonce_ok_def is_ascii_def lower_hex_def list_all_iff)

lemma markers_ascii:
  assumes "nonce_ok t"
  shows "is_ascii (ok_marker t n)" "is_ascii (mismatch_marker t n)" "is_ascii (completion_marker t)"
  using nonce_ascii [OF assms] digits_ascii [OF zpad8_digits [of n]]
  by (simp_all add: ok_marker_def mismatch_marker_def completion_marker_def)
     (simp_all add: is_ascii_def PROBE_OK_PREFIX_def PROBE_MISMATCH_PREFIX_def PROBE_DONE_PREFIX_def asc_def)

definition mbytes :: "ucs \<Rightarrow> bytes" where
  "mbytes s = map of_nat s"

lemma ascii_encode_ok: "is_ascii s \<Longrightarrow> ascii_encode s = Inr (mbytes s)"
  by (simp add: ascii_encode_def is_ascii_def mbytes_def)

lemma mbytes_eq:
  assumes "is_ascii s" and "is_ascii t"
  shows "mbytes s = mbytes t \<longleftrightarrow> s = t"
proof -
  have v: "map unat (mbytes u) = u" if "is_ascii u" for u
    using that by (auto simp: mbytes_def is_ascii_def list_all_iff unat_of_nat_byte intro!: map_idI)
  show ?thesis using v [OF assms(1)] v [OF assms(2)] by metis
qed

lemma encode_all_ok: "list_all is_ascii ss \<Longrightarrow> encode_all ss = Inr (map mbytes ss)"
  by (induction ss) (simp_all add: ascii_encode_ok)

section \<open>Marker lines\<close>

definition equal_lines :: "nat \<Rightarrow> bytes list \<Rightarrow> bytes \<Rightarrow> nat list" where
  "equal_lines k ls m = map fst (filter (\<lambda>(i, l). l = m) (enumerate k ls))"

lemma equal_lines_simps [simp]:
  "equal_lines k [] m = []"
  "equal_lines k (l # ls) m = (if l = m then k # equal_lines (Suc k) ls m else equal_lines (Suc k) ls m)"
  by (simp_all add: equal_lines_def)

lemma length_equal_lines: "length (equal_lines k ls m) = count_list ls m"
  by (induction ls arbitrary: k) simp_all

lemma in_equal_lines: "i \<in> set (equal_lines k ls m) \<Longrightarrow> k \<le> i \<and> i - k < length ls \<and> ls ! (i - k) = m"
proof (induction ls arbitrary: k)
  case (Cons l ls)
  from Cons.prems consider "i = k" "l = m" | "i \<in> set (equal_lines (Suc k) ls m)" by (auto split: if_splits)
  then show ?case
  proof cases
    case 2
    from Cons.IH [OF this] obtain j where "i - k = Suc (i - Suc k)" "Suc k \<le> i" "i - Suc k < length ls"
      "ls ! (i - Suc k) = m" by auto
    then show ?thesis by simp
  qed simp
qed simp

lemma note_line_apply:
  "note_line (k, l) found m = map_option (\<lambda>ns. if l = m then ns @ [k] else ns) (found m)"
  by (cases "found m"; cases "found l") (auto simp: note_line_def)

lemma fold_note_line:
  "fold note_line (enumerate k ls) found m = map_option (\<lambda>ns. ns @ equal_lines k ls m) (found m)"
proof (induction ls arbitrary: k found)
  case Nil
  show ?case by (cases "found m") simp_all
next
  case (Cons l ls)
  show ?case by (cases "found m") (simp_all add: Cons.IH note_line_apply)
qed

lemma exact_marker_lines_ok:
  assumes "list_all is_ascii (contract_markers K)"
  shows "\<exists>found. exact_marker_lines tr K = Inr found
    \<and> (\<forall>s. is_ascii s \<longrightarrow> s \<in> set (contract_markers K)
           \<longrightarrow> lines_of found s = equal_lines 1 (byte_lines tr) (mbytes s))"
  using assms
  by (auto simp: exact_marker_lines_def encode_all_ok fold_note_line lines_of_def mbytes_def [symmetric])

lemma distinct_count_list: "distinct xs \<longleftrightarrow> (\<forall>x\<in>set xs. \<not> 1 < count_list xs x)"
proof (induction xs)
  case (Cons x xs)
  have "0 < count_list xs x \<longleftrightarrow> x \<in> set xs" by (metis count_list_0_iff neq0_conv)
  then show ?case using Cons by auto
qed simp

section \<open>Contracts built by the probe\<close>

definition named_claims :: "hol_claim list \<Rightarrow> hol_claim list" where
  "named_claims claims = filter (\<lambda>c. cl_name c \<noteq> []) claims"

definition row_for :: "ucs \<Rightarrow> nat \<Rightarrow> hol_claim \<Rightarrow> probe_row \<Rightarrow> bool" where
  "row_for t n claim row \<longleftrightarrow>
     pr_name row = cl_name claim \<and> pr_ok_marker row = ok_marker t n \<and> pr_mismatch_marker row = mismatch_marker t n
     \<and> (pr_kind row = Kernel_conclusion \<longleftrightarrow> cl_extractable claim)"

definition contract_for :: "hol_claim list \<Rightarrow> probe_contract \<Rightarrow> bool" where
  "contract_for claims K \<longleftrightarrow>
     nonce_ok (pc_nonce K) \<and> validated_claims claims = Inr (named_claims claims)
     \<and> length (pc_claims K) = length (named_claims claims)
     \<and> (\<forall>i<length (pc_claims K). row_for (pc_nonce K) i (named_claims claims ! i) (pc_claims K ! i))
     \<and> pc_completion_marker K = completion_marker (pc_nonce K)"

lemma validated_claims_InrD: "validated_claims claims = Inr sel \<Longrightarrow> sel = named_claims claims"
  by (auto simp: validated_claims_def named_claims_def Let_def split: option.splits if_splits)

lemma validated_nonce_InrD: "validated_nonce fresh nonce = Inr t \<Longrightarrow> nonce_ok t"
  by (auto simp: validated_nonce_def Let_def split: if_splits)

lemma probe_claim_row: "probe_claim E t n claim = Inr (row, phr) \<Longrightarrow> row_for t n claim row"
  by (auto simp: probe_claim_def row_for_def Let_def split: if_splits option.splits)

lemma probe_claims_rows:
  "probe_claims E t n claims = Inr rs
     \<Longrightarrow> length rs = length claims \<and> (\<forall>i<length rs. row_for t (n + i) (claims ! i) (fst (rs ! i)))"
proof (induction claims arbitrary: n rs)
  case (Cons c cs)
  from Cons.prems obtain row phr rs' where r: "probe_claim E t n c = Inr (row, phr)"
    "probe_claims E t (n + 1) cs = Inr rs'" "rs = (row, phr) # rs'"
    by (auto simp: bindE_eq_Inr)
  show ?case
    using Cons.IH [OF r(2)] probe_claim_row [OF r(1)] r(3)
    by (auto simp: nth_Cons less_Suc_eq_0_disj split: nat.splits)
qed simp

lemma build_contract_for:
  assumes "build_claim_probe E fresh src claims nonce pre = Inr (payload, K)"
  shows "contract_for claims K"
proof -
  from assms obtain sel t rows where b: "validated_claims claims = Inr sel" "validated_nonce fresh nonce = Inr t"
    "probe_claims E t 0 sel = Inr rows" "pc_nonce K = t" "pc_claims K = map fst rows"
    "pc_completion_marker K = completion_marker t"
    by (auto simp: build_claim_probe_def bindE_eq_Inr Let_def split: sum.splits)
  show ?thesis
    using probe_claims_rows [OF b(3)] validated_nonce_InrD [OF b(2)] validated_claims_InrD [OF b(1)] b
    by (simp add: contract_for_def)
qed

lemma instrumented_contract_for:
  assumes "instrumented_source_bytes E fresh preludes src claims nonce pre inc = Inr (payload, K)"
  shows "contract_for claims K"
proof (cases inc)
  case False
  with assms show ?thesis by (auto simp: instrumented_source_bytes_def intro: build_contract_for)
next
  case True
  from assms obtain t pre' K' m where "build_claim_probe E fresh src claims (Some t) pre' = Inr (payload, K')"
    "K = K'\<lparr>pc_foundation := Some m\<rparr>"
    by (auto simp: instrumented_source_bytes_def True bindE_eq_Inr Let_def split: option.splits)
  with build_contract_for [of E fresh src claims "Some t" pre' payload K'] show ?thesis
    by (simp add: contract_for_def)
qed

lemma contract_markers_eq:
  assumes "contract_for claims K"
  shows "contract_markers K = completion_marker (pc_nonce K)
    # concat (map (\<lambda>i. [ok_marker (pc_nonce K) i, mismatch_marker (pc_nonce K) i]) [0..<length (named_claims claims)])"
proof -
  have "map (\<lambda>row. [pr_ok_marker row, pr_mismatch_marker row]) (pc_claims K)
      = map (\<lambda>i. [ok_marker (pc_nonce K) i, mismatch_marker (pc_nonce K) i]) [0..<length (named_claims claims)]"
    using assms by (intro nth_equalityI) (simp_all add: contract_for_def row_for_def)
  with assms show ?thesis by (simp add: contract_markers_def contract_for_def)
qed

lemma contract_markers_ascii:
  assumes "contract_for claims K"
  shows "list_all is_ascii (contract_markers K)"
proof -
  from assms have "nonce_ok (pc_nonce K)" by (simp add: contract_for_def)
  from markers_ascii [OF this] show ?thesis
    by (auto simp: contract_markers_eq [OF assms] list_all_iff)
qed

lemma distinct_marker_pairs:
  "distinct (concat (map (\<lambda>i. [ok_marker t i, mismatch_marker t i]) [k..<n]))"
proof (induction n)
  case (Suc n)
  then show ?case by (cases "k \<le> n") auto
qed simp

lemma contract_markers_distinct:
  assumes "contract_for claims K"
  shows "distinct (map mbytes (contract_markers K))"
proof -
  have "distinct (contract_markers K)"
    using distinct_marker_pairs [of "pc_nonce K" 0] by (auto simp: contract_markers_eq [OF assms])
  moreover have "inj_on mbytes (set (contract_markers K))"
    using contract_markers_ascii [OF assms] by (auto simp: inj_on_def list_all_iff mbytes_eq)
  ultimately show ?thesis by (simp add: distinct_map)
qed

lemma validated_claims_names:
  assumes "validated_claims claims = Inr sel"
  shows "distinct (map cl_name sel) \<and> list_all claim_name_ok (map cl_name sel)"
proof -
  let ?names = "map cl_name (named_claims claims)"
  from assms have s: "sel = named_claims claims" by (rule validated_claims_InrD)
  let ?D = "filter (\<lambda>n. 1 < count_list ?names n) ?names"
  from assms have f: "find (\<lambda>n. \<not> claim_name_ok n) ?names = None" and "sort (remdups ?D) = []"
    by (simp_all add: validated_claims_def named_claims_def Let_def split: option.splits if_splits)
  then have "set (sort (remdups ?D)) = {}" by simp
  then have "?D = []" by simp
  with f have "\<forall>n\<in>set ?names. claim_name_ok n" and "\<forall>n\<in>set ?names. \<not> 1 < count_list ?names n"
    by (auto simp: find_None_iff filter_empty_conv)
  then show ?thesis by (auto simp: s list_all_iff distinct_count_list)
qed

lemma build_keeps_source:
  assumes "build_claim_probe E fresh src claims nonce pre = Inr (payload, K)"
  shows "\<exists>before after. payload = before @ src @ [0x0A] @ after"
proof -
  have "\<exists>after. payload = (pre @ (if pre = [] then [] else [0x0A])) @ src @ [0x0A] @ after"
    using assms by (auto simp: build_claim_probe_def bindE_eq_Inr Let_def split: sum.splits)
  then show ?thesis by blast
qed

lemma instrumented_keeps_source:
  assumes "instrumented_source_bytes E fresh preludes src claims nonce pre inc = Inr (payload, K)"
  shows "\<exists>before after. payload = before @ src @ [0x0A] @ after"
proof (cases inc)
  case False
  with assms show ?thesis by (intro build_keeps_source) (simp add: instrumented_source_bytes_def)
next
  case True
  from assms obtain t pre' K' where "build_claim_probe E fresh src claims (Some t) pre' = Inr (payload, K')"
    by (auto simp: instrumented_source_bytes_def True bindE_eq_Inr Let_def split: option.splits)
  then show ?thesis by (rule build_keeps_source)
qed

section \<open>The accounting\<close>

definition marker_count :: "bytes \<Rightarrow> ucs \<Rightarrow> nat" where
  "marker_count tr m = count_list (byte_lines tr) (mbytes m)"

lemma names_match:
  assumes "contract_for claims K"
  shows "map pr_name (pc_claims K) = map cl_name (named_claims claims)"
  using assms by (intro nth_equalityI) (simp_all add: contract_for_def row_for_def)

lemma cd_theorem_of [simp]: "cd_theorem (claim_doc_of c r ok mm natural output) = cl_name c"
  by (simp add: claim_doc_of_def split: prod.split)

lemma account_claims_for:
  assumes "contract_for claims K"
  shows "\<exists>docs ac. account_claims E claims tr K = Inr (docs, ac)
    \<and> map cd_theorem docs = map cl_name (named_claims claims)
    \<and> (\<forall>i<length docs. \<exists>natural output. docs ! i = claim_doc_of (named_claims claims ! i) (pc_claims K ! i)
          (equal_lines 1 (byte_lines tr) (mbytes (ok_marker (pc_nonce K) i)))
          (equal_lines 1 (byte_lines tr) (mbytes (mismatch_marker (pc_nonce K) i))) natural output)
    \<and> ac_completion_count ac = marker_count tr (completion_marker (pc_nonce K))
    \<and> (ac_completion_valid ac \<longleftrightarrow> ac_completion_count ac = 1)"
proof -
  let ?t = "pc_nonce K" and ?sel = "named_claims claims"
  note c = assms [unfolded contract_for_def]
  obtain found where f: "exact_marker_lines tr K = Inr found"
    "\<And>s. is_ascii s \<Longrightarrow> s \<in> set (contract_markers K)
       \<Longrightarrow> lines_of found s = equal_lines 1 (byte_lines tr) (mbytes s)"
    using exact_marker_lines_ok [OF contract_markers_ascii [OF assms], of tr] by blast
  have l: "lines_of found m = equal_lines 1 (byte_lines tr) (mbytes m)" if "m \<in> set (contract_markers K)" for m
    using f(2) [OF _ that] contract_markers_ascii [OF assms] that by (auto simp: list_all_iff)
  have mem: "ok_marker ?t i \<in> set (contract_markers K)" "mismatch_marker ?t i \<in> set (contract_markers K)"
    if "i < length ?sel" for i
    using that by (auto simp: contract_markers_eq [OF assms])
  note rows = l [OF mem(1)] l [OF mem(2)]
  have fin: "lines_of found (completion_marker ?t) = equal_lines 1 (byte_lines tr) (mbytes (completion_marker ?t))"
    by (rule l) (simp add: contract_markers_eq [OF assms])
  have names: "map cl_name ?sel = map pr_name (pc_claims K)" by (simp add: names_match [OF assms])
  show ?thesis
    using c names
    by (auto simp: account_claims_def f(1) Let_def row_for_def rows fin marker_count_def length_equal_lines
        intro!: nth_equalityI)
qed

lemma claim_doc_proved:
  "cd_status (claim_doc_of c r ok mm natural output) = Proved \<longleftrightarrow> length ok = 1 \<and> mm = []"
  by (auto simp: claim_doc_of_def claim_verdict_def)

lemma claim_doc_failed:
  "cd_status (claim_doc_of c r ok mm natural output) = Failed
     \<longleftrightarrow> mm \<noteq> [] \<or> 1 < length ok"
  by (cases ok; cases mm) (auto simp: claim_doc_of_def claim_verdict_def)

section \<open>Lines of bytes\<close>

lemma byte_lines_Nil [simp]: "byte_lines [] = []"
  by (subst byte_lines.simps) simp

lemma byte_lines_sublist: "l \<in> set (byte_lines bs) \<Longrightarrow> sublist l bs"
proof (induction bs rule: byte_lines.induct)
  case (1 bs)
  let ?line = "takeWhile (Not \<circ> byte_line_end) bs" and ?rest = "dropWhile (Not \<circ> byte_line_end) bs"
  have split: "bs = ?line @ ?rest" by simp
  from "1.prems" have n: "bs \<noteq> []" by auto
  then have e: "byte_lines bs = ?line # (case ?rest of [] \<Rightarrow> []
      | c # r \<Rightarrow> byte_lines (if c = 0x0D \<and> take 1 r = [0x0A] then tl r else r))"
    by (subst byte_lines.simps) (simp add: Let_def)
  from "1.prems" [unfolded e] consider "l = ?line"
    | c r where "?rest = c # r" "l \<in> set (byte_lines (if c = 0x0D \<and> take 1 r = [0x0A] then tl r else r))"
    by (cases ?rest) auto
  then show ?case
  proof cases
    case 1
    with split show ?thesis by (metis sublist_appendI append_Nil)
  next
    case (2 c r)
    from "1.IH" [OF n refl refl 2(1) 2(2)] have "sublist l r"
      by (auto split: if_splits intro: sublist_order.order.trans sublist_tl)
    moreover from split 2(1) have "bs = (?line @ [c]) @ r" by simp
    ultimately show ?thesis by (metis sublist_append_leftI sublist_order.order.trans append_Nil2 sublist_appendI)
  qed
qed

definition printed :: "bytes list \<Rightarrow> bytes" where
  "printed ls = concat (map (\<lambda>l. l @ [0x0A]) ls)"

definition plain_line :: "bytes \<Rightarrow> bool" where
  "plain_line l \<longleftrightarrow> list_all (Not \<circ> byte_line_end) l"

lemma byte_lines_printed: "list_all plain_line ls \<Longrightarrow> byte_lines (printed ls) = ls"
proof (induction ls)
  case (Cons l ls)
  have p: "\<And>x. x \<in> set l \<Longrightarrow> (Not \<circ> byte_line_end) x" and e: "\<not> (Not \<circ> byte_line_end) 0x0A"
    using Cons.prems by (auto simp: plain_line_def list_all_iff byte_line_end_def)
  from p e have "takeWhile (Not \<circ> byte_line_end) (printed (l # ls)) = l"
    "dropWhile (Not \<circ> byte_line_end) (printed (l # ls)) = 0x0A # printed ls"
    by (simp_all add: printed_def takeWhile_append2 dropWhile_append2)
  moreover have "printed (l # ls) \<noteq> []" by (simp add: printed_def)
  ultimately show ?case using Cons by (subst byte_lines.simps) (simp add: Let_def)
qed (simp add: printed_def)

section \<open>Credit\<close>

lemma count_equal_lines:
  "length (equal_lines 1 (byte_lines tr) (mbytes m)) = marker_count tr m"
  "equal_lines 1 (byte_lines tr) (mbytes m) = [] \<longleftrightarrow> marker_count tr m = 0"
  unfolding marker_count_def length_equal_lines [of 1, symmetric] by simp_all

lemma credited_by_marker:
  assumes "contract_for claims K"
  shows "\<exists>docs ac. account_claims E claims tr K = Inr (docs, ac)
    \<and> map cd_theorem docs = map cl_name (named_claims claims)
    \<and> (\<forall>i<length docs.
          (cd_status (docs ! i) = Proved
             \<longleftrightarrow> marker_count tr (ok_marker (pc_nonce K) i) = 1 \<and> marker_count tr (mismatch_marker (pc_nonce K) i) = 0)
        \<and> (cd_status (docs ! i) = Failed
             \<longleftrightarrow> marker_count tr (mismatch_marker (pc_nonce K) i) \<noteq> 0 \<or> 1 < marker_count tr (ok_marker (pc_nonce K) i)))
    \<and> (ac_completion_valid ac \<longleftrightarrow> marker_count tr (completion_marker (pc_nonce K)) = 1)"
proof -
  from account_claims_for [OF assms, of E tr] obtain docs ac where a:
    "account_claims E claims tr K = Inr (docs, ac)" "map cd_theorem docs = map cl_name (named_claims claims)"
    "\<And>i. i < length docs \<Longrightarrow> \<exists>natural output. docs ! i = claim_doc_of (named_claims claims ! i) (pc_claims K ! i)
          (equal_lines 1 (byte_lines tr) (mbytes (ok_marker (pc_nonce K) i)))
          (equal_lines 1 (byte_lines tr) (mbytes (mismatch_marker (pc_nonce K) i))) natural output"
    "ac_completion_valid ac \<longleftrightarrow> marker_count tr (completion_marker (pc_nonce K)) = 1"
    by auto
  have "(cd_status (docs ! i) = Proved
           \<longleftrightarrow> marker_count tr (ok_marker (pc_nonce K) i) = 1 \<and> marker_count tr (mismatch_marker (pc_nonce K) i) = 0)
      \<and> (cd_status (docs ! i) = Failed
           \<longleftrightarrow> marker_count tr (mismatch_marker (pc_nonce K) i) \<noteq> 0 \<or> 1 < marker_count tr (ok_marker (pc_nonce K) i))"
    if "i < length docs" for i
    using a(3) [OF that] by (metis claim_doc_proved claim_doc_failed count_equal_lines)
  with a show ?thesis by blast
qed

lemma dget_response: "(if response = [] then J_null else dget response k) = dget response k"
  by simp

lemma effective_exit_zero:
  "effective_exit transport p (if b then 0 else 1) = J_int 0
     \<longleftrightarrow> transport \<noteq> ''interrupted'' \<and> py_int p \<in> {None, Some 0} \<and> b"
  by (cases p) (auto simp: effective_exit_def py_int_def)

lemma effective_exit_one [simp]: "effective_exit transport p 1 \<noteq> J_int 0"
  using effective_exit_zero [of transport p False] by simp

lemma effective_exit_success:
  "effective_exit transport p 0 = J_int 0 \<longleftrightarrow> transport \<noteq> ''interrupted'' \<and> py_int p \<in> {None, Some 0}"
  using effective_exit_zero [of transport p True] by simp

lemma mbytes_append [simp]: "mbytes (s @ t) = mbytes s @ mbytes t"
  by (simp add: mbytes_def)

lemma nonce_in_markers:
  "sublist (mbytes t) (mbytes (ok_marker t n))" "sublist (mbytes t) (mbytes (mismatch_marker t n))"
  "sublist (mbytes t) (mbytes (completion_marker t))"
proof -
  have "mbytes (p @ asc '':'' @ t @ q) = (mbytes p @ mbytes (asc '':'')) @ mbytes t @ mbytes q" for p q by simp
  then have "sublist (mbytes t) (mbytes (p @ asc '':'' @ t @ q))" for p q by (metis sublist_appendI)
  from this [of _ "asc '':'' @ zpad8 n"] this [of _ "[]"]
  show "sublist (mbytes t) (mbytes (ok_marker t n))" "sublist (mbytes t) (mbytes (mismatch_marker t n))"
    "sublist (mbytes t) (mbytes (completion_marker t))"
    unfolding ok_marker_def mismatch_marker_def completion_marker_def by simp_all
qed

lemma no_markers_without_nonce:
  assumes "\<not> sublist (mbytes t) tr"
  shows "marker_count tr (ok_marker t n) = 0" "marker_count tr (mismatch_marker t n) = 0"
    "marker_count tr (completion_marker t) = 0"
proof -
  have "mbytes m \<notin> set (byte_lines tr)" if "sublist (mbytes t) (mbytes m)" for m
    using assms that byte_lines_sublist sublist_order.order.trans by blast
  with nonce_in_markers show "marker_count tr (ok_marker t n) = 0" "marker_count tr (mismatch_marker t n) = 0"
    "marker_count tr (completion_marker t) = 0"
    by (simp_all add: marker_count_def count_list_0_iff)
qed

lemma analysis_for:
  assumes "contract_for claims K"
  shows "\<exists>a. analyze_vanilla_transcript E claims tr K transport response = Inr a
    \<and> (an_source_completed a \<longleftrightarrow> transport = ''completed''
         \<and> marker_count tr (completion_marker (pc_nonce K)) = 1 \<and> \<not> included_file_error_observed tr)
    \<and> (an_claims_complete a \<longleftrightarrow> (\<forall>i<length (named_claims claims).
         marker_count tr (ok_marker (pc_nonce K) i) = 1 \<and> marker_count tr (mismatch_marker (pc_nonce K) i) = 0))
    \<and> an_effective_exit a = effective_exit transport (dget response ''exit_status'')
         (if an_source_completed a \<and> an_claims_complete a then 0 else 1)
    \<and> an_advisory a = map_option (\<lambda>p. promotion_advisory (account_foundation_delta tr (Some p))
         (an_source_completed a \<and> an_claims_complete a) (dget response ''exit_status'')) (pc_foundation K)"
proof -
  from credited_by_marker [OF assms, of E tr] obtain docs ac where d: "account_claims E claims tr K = Inr (docs, ac)"
    "map cd_theorem docs = map cl_name (named_claims claims)"
    "\<forall>i<length docs. cd_status (docs ! i) = Proved
       \<longleftrightarrow> marker_count tr (ok_marker (pc_nonce K) i) = 1 \<and> marker_count tr (mismatch_marker (pc_nonce K) i) = 0"
    "ac_completion_valid ac \<longleftrightarrow> marker_count tr (completion_marker (pc_nonce K)) = 1"
    by blast
  from d(2) have "length docs = length (named_claims claims)" by (metis length_map)
  with d(3) have "list_all (\<lambda>d. cd_status d = Proved) docs \<longleftrightarrow> (\<forall>i<length (named_claims claims).
      marker_count tr (ok_marker (pc_nonce K) i) = 1 \<and> marker_count tr (mismatch_marker (pc_nonce K) i) = 0)"
    by (simp add: list_all_length)
  with d(1,4) show ?thesis
    by (simp add: analyze_vanilla_transcript_def Let_def dget_response) (cases "pc_foundation K"; simp)
qed

section \<open>Properties\<close>

text \<open>C5: a claim probe's contract is unambiguous.  Whenever the probe is built, the payload contains the source
  bytes unchanged, followed by a line feed; the named claims have valid and distinct names; and the completion
  marker and the two markers of every claim are pairwise distinct byte strings, so one transcript line can speak
  for one claim and one verdict only.\<close>

theorem probe_contract_is_unambiguous:
  assumes "instrumented_source_bytes E fresh preludes src claims nonce pre inc = Inr (payload, K)"
  shows "distinct (map mbytes (contract_markers K))
    \<and> map pr_name (pc_claims K) = map cl_name (named_claims claims)
    \<and> distinct (map pr_name (pc_claims K)) \<and> list_all claim_name_ok (map pr_name (pc_claims K))
    \<and> (\<exists>before after. payload = before @ src @ [0x0A] @ after)"
proof -
  note c = instrumented_contract_for [OF assms]
  from c have v: "validated_claims claims = Inr (named_claims claims)" by (simp add: contract_for_def)
  have "distinct (map cl_name (named_claims claims)) \<and> list_all claim_name_ok (map cl_name (named_claims claims))"
    using validated_claims_names [OF v] .
  moreover from assms have "\<exists>before after. payload = before @ src @ [0x0A] @ after"
    by (rule instrumented_keeps_source)
  ultimately show ?thesis using contract_markers_distinct [OF c] names_match [OF c] by simp
qed

text \<open>C6: a claim is credited exactly by its own marker.  For a contract the probe built and any transcript
  bytes, the accounting succeeds and lists the named claims in order; claim \<open>i\<close> counts as proved exactly
  when its own ok marker is a full line once and its mismatch marker never, as failed exactly when its mismatch
  marker is a line or its ok marker is repeated, and the completion is valid exactly when its marker is a full
  line once.\<close>

theorem claims_credited_by_their_marker:
  assumes "instrumented_source_bytes E fresh preludes src claims nonce pre inc = Inr (payload, K)"
  shows "\<exists>docs ac. account_claims E claims tr K = Inr (docs, ac)
    \<and> map cd_theorem docs = map cl_name (named_claims claims)
    \<and> (\<forall>i<length docs.
          (cd_status (docs ! i) = Proved
             \<longleftrightarrow> marker_count tr (ok_marker (pc_nonce K) i) = 1 \<and> marker_count tr (mismatch_marker (pc_nonce K) i) = 0)
        \<and> (cd_status (docs ! i) = Failed
             \<longleftrightarrow> marker_count tr (mismatch_marker (pc_nonce K) i) \<noteq> 0 \<or> 1 < marker_count tr (ok_marker (pc_nonce K) i)))
    \<and> (ac_completion_valid ac \<longleftrightarrow> marker_count tr (completion_marker (pc_nonce K)) = 1)"
proof -
  note c = instrumented_contract_for [OF assms]
  show ?thesis using credited_by_marker [OF c] by blast
qed

text \<open>C7: a replay exits with status 0 only when everything was observed.  The analysis of any transcript
  under a built contract returns a verdict, and its effective exit status is 0 exactly when the transport completed,
  the exit status in the worker's response is zero or not an integer at all, no included file reported an error, the completion marker is a
  full line exactly once, and for every claim the ok marker is a full line exactly once and the mismatch marker
  never.\<close>

theorem exit_zero_needs_every_marker:
  assumes "instrumented_source_bytes E fresh preludes src claims nonce pre inc = Inr (payload, K)"
  shows "\<exists>a. analyze_vanilla_transcript E claims tr K transport response = Inr a
    \<and> (an_effective_exit a = J_int 0 \<longleftrightarrow>
         transport = ''completed'' \<and> py_int (dget response ''exit_status'') \<in> {None, Some 0}
       \<and> \<not> included_file_error_observed tr \<and> marker_count tr (completion_marker (pc_nonce K)) = 1
       \<and> (\<forall>i<length (named_claims claims). marker_count tr (ok_marker (pc_nonce K) i) = 1
            \<and> marker_count tr (mismatch_marker (pc_nonce K) i) = 0))"
proof -
  note c = instrumented_contract_for [OF assms]
  from analysis_for [OF c, of E tr transport response] show ?thesis
    by (auto simp: effective_exit_success)
qed

text \<open>Without the nonce there is no credit.  If the nonce of the contract occurs nowhere in the transcript,
  then no claim counts as proved or failed, the source does not count as completed, nothing is listed as observed
  and the effective exit status is not 0, whatever else the transcript prints.\<close>

theorem no_credit_without_nonce:
  assumes "instrumented_source_bytes E fresh preludes src claims nonce pre inc = Inr (payload, K)"
    and "\<not> sublist (mbytes (pc_nonce K)) tr"
  shows "\<exists>a. analyze_vanilla_transcript E claims tr K transport response = Inr a
    \<and> list_all (\<lambda>d. cd_status d \<noteq> Proved \<and> cd_status d \<noteq> Failed) (an_claims a)
    \<and> \<not> an_source_completed a \<and> an_observed a = [] \<and> an_effective_exit a \<noteq> J_int 0"
proof -
  note c = instrumented_contract_for [OF assms(1)]
  note z = no_markers_without_nonce [OF assms(2)]
  from credited_by_marker [OF c, of E tr] z obtain docs ac where d: "account_claims E claims tr K = Inr (docs, ac)"
    "list_all (\<lambda>d. cd_status d \<noteq> Proved \<and> cd_status d \<noteq> Failed) docs" "\<not> ac_completion_valid ac"
    by (fastforce simp: list_all_length)
  from d(2) have "filter (\<lambda>d. cd_status d = Proved) docs = []" by (auto simp: filter_empty_conv list_all_iff)
  then show ?thesis
    using d by (simp add: analyze_vanilla_transcript_def effective_exit_zero Let_def dget_response)
qed

end
