(* ===== verification/Foundation_Props.thy ===== *)
theory Foundation_Props
  imports Claim_Accounting_Props
begin

text \<open>
  The foundation advisory: the marker that the fork wrapper prints is read back as the deltas it was printed from,
  and the advisory withholds its objection only on an observed zero axiom delta.
\<close>

section \<open>The printed marker\<close>

text \<open>What \<open>Printf.printf "<prefix>%s:%d:%d:%d:%d\n"\<close> of the wrapper prints, without its line feed.\<close>

definition foundation_line :: "ucs \<Rightarrow> string \<Rightarrow> nat list \<Rightarrow> bytes" where
  "foundation_line marker_prefix status values =
     mbytes (marker_prefix @ asc status @ concat (map (\<lambda>n. asc '':'' @ decimal n) values))"

lemma split_fields_plain: "sep \<notin> set f \<Longrightarrow> split_fields sep f = [f]"
  by (induction f) auto

lemma split_fields_sep: "sep \<notin> set f \<Longrightarrow> split_fields sep (f @ sep # rest) = f # split_fields sep rest"
  by (induction f) auto

lemma mbytes_decimal_digit:
  assumes "b \<in> set (mbytes (decimal n))"
  shows "48 \<le> b \<and> b \<le> 57"
proof -
  from assms obtain c where c: "c \<in> set (decimal n)" "b = of_nat c" by (auto simp: mbytes_def)
  with decimal_digits [of n] have "48 \<le> c" "c \<le> 57" by (auto simp: list_all_iff ascii_digit_def)
  then show ?thesis by (simp add: c(2) word_le_nat_alt unat_of_nat_byte)
qed

lemma digits_int_snoc: "digits_int (ds @ [b]) = 10 * digits_int ds + (uint b - 48)"
  by (simp add: digits_int_def)

lemma digits_int_decimal: "digits_int (mbytes (decimal n)) = int n"
proof (induction n rule: decimal.induct)
  case (1 n)
  have u: "uint (of_nat (48 + m) :: byte) = 48 + int m" if "m < 10" for m
    using that by (simp add: uint_nat unat_of_nat_byte del: of_nat_add)
  show ?case
  proof (cases "n < 10")
    case True
    then show ?thesis using u [of n] by (subst decimal.simps) (simp add: mbytes_def digits_int_def)
  next
    case False
    have "uint (of_nat (48 + n mod 10) :: byte) = 48 + int (n mod 10)" by (rule u) simp
    moreover have "int n = 10 * int (n div 10) + int (n mod 10)"
      by (metis mult_div_mod_eq of_nat_add of_nat_mult of_nat_numeral)
    ultimately show ?thesis
      using 1 [OF False] False by (subst decimal.simps) (simp add: mbytes_def digits_int_snoc)
  qed
qed

lemma delta_field_decimal:
  assumes "n < 10 ^ 18"
  shows "delta_field (mbytes (decimal n)) = Some (int n)"
proof -
  have l: "length (decimal n) \<le> 18" using decimal_length [OF _ assms] by simp
  obtain b ds where d: "mbytes (decimal n) = b # ds" by (cases "mbytes (decimal n)") (auto simp: mbytes_def)
  then have "48 \<le> b" using mbytes_decimal_digit [of b n] by simp
  then have "b \<noteq> 0x2D" by auto
  moreover from d have "length (decimal n) = length (b # ds)" by (metis length_map mbytes_def)
  moreover have "list_all (\<lambda>b. 48 \<le> b \<and> b \<le> 57) (mbytes (decimal n))"
    using mbytes_decimal_digit by (auto simp: list_all_iff)
  ultimately show ?thesis
    using l digits_int_decimal [of n] d
    by (simp add: delta_field_def delta_digits_def mbytes_def)
qed

lemma sep_not_digit: "0x3A \<notin> set (mbytes (decimal n))"
  using mbytes_decimal_digit [of "0x3A" n] by auto

lemma parse_delta_printed:
  assumes "a < 10 ^ 18" "d < 10 ^ 18" "t < 10 ^ 18" "c < 10 ^ 18"
  shows "parse_delta (mbytes (asc ''ok'' @ concat (map (\<lambda>n. asc '':'' @ decimal n) [a, d, t, c])))
    = Some (True, int a, int d, int t, int c)"
proof -
  have sep: "mbytes (asc '':'') = [0x3A]" and w: "mbytes (asc ''ok'') = basc ''ok''"
    by (simp_all add: mbytes_def asc_def basc_def)
  have ns: "0x3A \<notin> set (basc ''ok'')" by (simp add: basc_def)
  have "mbytes (asc ''ok'' @ concat (map (\<lambda>n. asc '':'' @ decimal n) [a, d, t, c]))
      = basc ''ok'' @ 0x3A # mbytes (decimal a) @ 0x3A # mbytes (decimal d) @ 0x3A # mbytes (decimal t)
          @ 0x3A # mbytes (decimal c)"
    by (simp add: sep w)
  then have "split_fields 0x3A (mbytes (asc ''ok'' @ concat (map (\<lambda>n. asc '':'' @ decimal n) [a, d, t, c])))
      = [basc ''ok'', mbytes (decimal a), mbytes (decimal d), mbytes (decimal t), mbytes (decimal c)]"
    by (simp only: split_fields_sep [OF ns] split_fields_sep [OF sep_not_digit] split_fields_plain [OF sep_not_digit])
  with assms show ?thesis by (simp add: parse_delta_def delta_field_decimal)
qed

section \<open>Properties\<close>

lemma foundation_contractD:
  assumes "foundation_probe_contract nonce = Some p"
  shows "foundation_prefix_ok p \<and> p = FOUNDATION_DELTA_PREFIX @ asc '':'' @ nonce @ asc '':'' \<and> nonce_ok nonce"
proof -
  from assms have p: "p = FOUNDATION_DELTA_PREFIX @ asc '':'' @ nonce @ asc '':''" "foundation_prefix_ok p"
    by (auto simp: foundation_probe_contract_def Let_def split: if_splits)
  let ?h = "FOUNDATION_DELTA_PREFIX @ asc '':''"
  from p have "length p = length ?h + 33" and "nonce_ok (slice p (length ?h) (length ?h + 32))"
    by (simp_all only: foundation_prefix_ok_def Let_def)
  moreover have e: "p = ?h @ nonce @ asc '':''" by (simp add: p(1))
  moreover from e have "length p = length ?h + length nonce + 1" by (simp add: asc_def)
  ultimately have "length nonce = 32" and "nonce_ok (slice (?h @ nonce @ asc '':'') (length ?h) (length ?h + 32))"
    by simp_all
  then have "nonce_ok nonce" by (simp add: slice_def)
  with p show ?thesis by simp
qed

lemma plain_mbytes: "is_ascii s \<Longrightarrow> list_all (\<lambda>c. c \<noteq> 10 \<and> c \<noteq> 13) s \<Longrightarrow> plain_line (mbytes s)"
proof (induction s)
  case (Cons c s)
  then have "(of_nat c :: byte) \<noteq> 0x0A" "(of_nat c :: byte) \<noteq> 0x0D"
    using unat_of_nat_byte [of c] by (auto simp: is_ascii_def)
  with Cons show ?case by (simp add: plain_line_def mbytes_def byte_line_end_def is_ascii_def)
qed (simp add: plain_line_def mbytes_def)

lemma plain_foundation_line:
  assumes "p = FOUNDATION_DELTA_PREFIX @ asc '':'' @ nonce @ asc '':''" and "nonce_ok nonce"
  shows "plain_line (foundation_line p ''ok'' values)"
  unfolding foundation_line_def
proof (rule plain_mbytes)
  have d: "is_ascii (decimal n)" "list_all (\<lambda>c. c \<noteq> 10 \<and> c \<noteq> 13) (decimal n)" for n
    using digits_ascii [OF decimal_digits] decimal_digits [of n] by (auto simp: list_all_iff ascii_digit_def)
  have v: "is_ascii (concat (map (\<lambda>n. asc '':'' @ decimal n) values))"
    "list_all (\<lambda>c. c \<noteq> 10 \<and> c \<noteq> 13) (concat (map (\<lambda>n. asc '':'' @ decimal n) values))"
    using d by (induction "values") (simp_all add: is_ascii_def asc_def)
  have "list_all (\<lambda>c. c \<noteq> 10 \<and> c \<noteq> 13) nonce"
    using assms(2) by (auto simp: nonce_ok_def lower_hex_def list_all_iff)
  with v nonce_ascii [OF assms(2)]
  show "is_ascii (p @ asc ''ok'' @ concat (map (\<lambda>n. asc '':'' @ decimal n) values))"
    "list_all (\<lambda>c. c \<noteq> 10 \<and> c \<noteq> 13) (p @ asc ''ok'' @ concat (map (\<lambda>n. asc '':'' @ decimal n) values))"
    by (simp_all add: assms(1) FOUNDATION_DELTA_PREFIX_def) (simp_all add: is_ascii_def asc_def)
qed

lemma plain_markers:
  assumes "nonce_ok t"
  shows "plain_line (mbytes (ok_marker t n))" "plain_line (mbytes (mismatch_marker t n))"
    "plain_line (mbytes (completion_marker t))"
proof -
  have t: "list_all (\<lambda>c. c \<noteq> 10 \<and> c \<noteq> 13) t"
    using assms by (auto simp: nonce_ok_def lower_hex_def list_all_iff)
  have z: "list_all (\<lambda>c. c \<noteq> 10 \<and> c \<noteq> 13) (zpad8 n)"
    using zpad8_digits [of n] by (auto simp: list_all_iff ascii_digit_def)
  have "list_all (\<lambda>c. c \<noteq> 10 \<and> c \<noteq> 13) (ok_marker t n)" "list_all (\<lambda>c. c \<noteq> 10 \<and> c \<noteq> 13) (mismatch_marker t n)"
    "list_all (\<lambda>c. c \<noteq> 10 \<and> c \<noteq> 13) (completion_marker t)"
    using t z by (simp_all add: ok_marker_def mismatch_marker_def completion_marker_def PROBE_OK_PREFIX_def
        PROBE_MISMATCH_PREFIX_def PROBE_DONE_PREFIX_def asc_def)
  with markers_ascii [OF assms] show "plain_line (mbytes (ok_marker t n))" "plain_line (mbytes (mismatch_marker t n))"
    "plain_line (mbytes (completion_marker t))"
    by (auto intro: plain_mbytes)
qed

lemma filter_enumerate_one:
  assumes "list_all (Not \<circ> P) xs" and "P y" and "list_all (Not \<circ> P) zs"
  shows "filter (\<lambda>(_, l). P l) (enumerate k (xs @ y # zs)) = [(k + length xs, y)]"
proof -
  have none: "filter (\<lambda>(_, l). P l) (enumerate j ls) = []" if "list_all (Not \<circ> P) ls" for j ls
    using that by (induction ls arbitrary: j) auto
  show ?thesis using none [OF assms(1)] none [OF assms(3)] assms(2) by (simp add: enumerate_append_eq)
qed

lemma foundation_delta_read:
  assumes "foundation_probe_contract nonce = Some p"
    and "a < 10 ^ 18" "d < 10 ^ 18" "t < 10 ^ 18" "c < 10 ^ 18"
    and "list_all plain_line (before @ after)"
    and "list_all (\<lambda>l. \<not> startswith_at l (mbytes p) 0) (before @ after)"
  shows "account_foundation_delta (printed (before @ foundation_line p ''ok'' [a, d, t, c] # after)) (Some p)
      = \<lparr>fr_status = Fd_observed, fr_marker_count = 1, fr_line = Some (1 + length before),
         fr_deltas = Some \<lparr>dl_axioms = int a, dl_definitions = int d, dl_types = int t, dl_constants = int c\<rparr>,
         fr_reasons = (if 0 < int a then [Axioms_introduced (int a)] else [])\<rparr>"
proof -
  let ?line = "foundation_line p ''ok'' [a, d, t, c]"
  have ok: "foundation_prefix_ok p" "p = FOUNDATION_DELTA_PREFIX @ asc '':'' @ nonce @ asc '':''" "nonce_ok nonce"
    using foundation_contractD [OF assms(1)] by auto
  have pl: "plain_line ?line" using plain_foundation_line [OF ok(2,3)] .
  then have bl: "byte_lines (printed (before @ ?line # after)) = before @ ?line # after"
    using assms(6) by (intro byte_lines_printed) simp
  have st: "startswith_at ?line (mbytes p) 0"
    and dr: "drop (length (mbytes p)) ?line
       = mbytes (asc ''ok'' @ concat (map (\<lambda>n. asc '':'' @ decimal n) [a, d, t, c]))"
    by (simp_all add: foundation_line_def startswith_at_def)
  have f: "filter (\<lambda>(_, l). startswith_at l (mbytes p) 0) (enumerate 1 (before @ ?line # after))
      = [(1 + length before, ?line)]"
    using assms(7) st by (intro filter_enumerate_one [where P = "\<lambda>l. startswith_at l (mbytes p) 0"]) (auto simp: list_all_iff)
  show ?thesis
    using f parse_delta_printed [OF assms(2-5)] dr ok(1)
    by (simp add: account_foundation_delta_def Let_def bl mbytes_def [symmetric])
qed

text \<open>C8: the foundation marker survives the transcript.  When the wrapper's line, printed from four cardinality
  deltas, is the only line of the transcript that starts with the contract's marker prefix, the accounting observes
  exactly these deltas at that line, and the advisory blocks exactly when the axiom delta is positive.\<close>

theorem foundation_delta_round_trip:
  assumes "foundation_probe_contract nonce = Some p"
    and "a < 10 ^ 18" "d < 10 ^ 18" "t < 10 ^ 18" "c < 10 ^ 18"
    and "list_all plain_line (before @ after)"
    and "list_all (\<lambda>l. \<not> startswith_at l (mbytes p) 0) (before @ after)"
  shows "let fr = account_foundation_delta
               (printed (before @ foundation_line p ''ok'' [a, d, t, c] # after)) (Some p)
     in fr_status fr = Fd_observed \<and> fr_line fr = Some (1 + length before)
      \<and> fr_deltas fr = Some \<lparr>dl_axioms = int a, dl_definitions = int d, dl_types = int t, dl_constants = int c\<rparr>
      \<and> (fst (promotion_advisory fr success exit) = Block \<longleftrightarrow> 0 < a)"
  using foundation_delta_read [OF assms] by (simp add: promotion_advisory_def Let_def)

lemma filter_enumerate_lines: "map snd (filter (\<lambda>(_, l). P l) (enumerate k ls)) = filter P ls"
  by (induction ls arbitrary: k) auto

lemma observed_delta:
  assumes "fr_status (account_foundation_delta tr (Some p)) = Fd_observed"
  shows "foundation_prefix_ok p \<and> (\<exists>line a d t c.
      filter (\<lambda>l. startswith_at l (map of_nat p) 0) (byte_lines tr) = [line]
    \<and> parse_delta (drop (length p) line) = Some (True, a, d, t, c) \<and> 0 \<le> a \<and> 0 \<le> d \<and> 0 \<le> t \<and> 0 \<le> c
    \<and> fr_deltas (account_foundation_delta tr (Some p))
        = Some \<lparr>dl_axioms = a, dl_definitions = d, dl_types = t, dl_constants = c\<rparr>
    \<and> fr_reasons (account_foundation_delta tr (Some p)) = (if 0 < a then [Axioms_introduced a] else []))"
proof -
  let ?P = "\<lambda>l. startswith_at l (map of_nat p) 0"
  from assms obtain k line where p: "foundation_prefix_ok p"
    and f: "filter (\<lambda>(_, l). ?P l) (enumerate 1 (byte_lines tr)) = [(k, line)]"
    by (auto simp: account_foundation_delta_def no_delta_def Let_def split: if_splits list.splits)
  from f have "filter ?P (byte_lines tr) = [line]"
    using filter_enumerate_lines [of ?P 1 "byte_lines tr"] by simp
  with assms p f show ?thesis
    by (auto simp: account_foundation_delta_def no_delta_def Let_def split: option.splits if_splits)
qed

text \<open>C9: the absence of a foundation objection is earned.  An analysis that recommends
  \<open>no_foundation_objection\<close> completed the source with every claim proved, saw the worker exit with the integer 0,
  gives no reasons, and read, as the only line with the contract's prefix, an \<open>ok\<close> marker whose axiom delta is zero
  and whose other deltas are not negative.\<close>

theorem no_foundation_objection_is_earned:
  assumes "analyze_vanilla_transcript E claims tr K transport response = Inr a"
    and "an_advisory a = Some (No_foundation_objection, reasons)"
  shows "an_source_completed a \<and> list_all (\<lambda>d. cd_status d = Proved) (an_claims a)
    \<and> dget response ''exit_status'' = J_int 0 \<and> reasons = []
    \<and> (\<exists>p line d t c. pc_foundation K = Some p \<and> foundation_prefix_ok p
         \<and> filter (\<lambda>l. startswith_at l (mbytes p) 0) (byte_lines tr) = [line]
         \<and> parse_delta (drop (length p) line) = Some (True, 0, d, t, c) \<and> 0 \<le> d \<and> 0 \<le> t \<and> 0 \<le> c)"
proof -
  from assms obtain docs ac p where r: "account_claims E claims tr K = Inr (docs, ac)" "pc_foundation K = Some p"
    "promotion_advisory (account_foundation_delta tr (Some p)) (an_source_completed a \<and> an_claims_complete a)
       (dget response ''exit_status'') = (No_foundation_objection, reasons)"
    "an_claims_complete a \<longleftrightarrow> list_all (\<lambda>d. cd_status d = Proved) docs" "an_claims a = docs"
    by (auto simp: analyze_vanilla_transcript_def bindE_eq_Inr Let_def dget_response)
  let ?fr = "account_foundation_delta tr (Some p)"
  from r(3) have s: "fr_status ?fr = Fd_observed" "\<not> 0 < (case fr_deltas ?fr of None \<Rightarrow> 0 | Some d \<Rightarrow> dl_axioms d)"
    "an_source_completed a" "an_claims_complete a" "dget response ''exit_status'' = J_int 0" "reasons = fr_reasons ?fr"
    by (auto simp: promotion_advisory_def Let_def split: if_splits)
  from observed_delta [OF s(1)] s(2) r s show ?thesis by (auto simp: mbytes_def)
qed

end
