(* ===== verification/Claim_Pipeline.thy ===== *)
theory Claim_Pipeline
  imports Claim_Accounting_Props Theorem_Scan_Props
begin

text \<open>
  From a source to its probe: the claims that \<open>proofs/theorem_scan.py\<close> extracts are what \<open>vanilla_claims.py\<close>
  asks of a claim, so building the probe of a source can fail on repeated names only.
\<close>

section \<open>Names\<close>

lemma match_let_name:
  assumes "match_let E xs i = Some (name, p)"
  shows "claim_name_ok name"
proof -
  define j where "j = skip_while py_space xs (i + 3)"
  define k where "k = skip_while name_char xs (j + 1)"
  from assms have n: "name = slice xs j k" "j < length xs" "ascii_letter (xs ! j)"
    unfolding match_let_def Let_def j_def [symmetric] k_def [symmetric] by (auto split: if_split_asm)
  have k: "j + 1 \<le> k" "k \<le> length xs"
    unfolding k_def using n(2) skip_while_ge [of "j + 1" name_char xs] skip_while_le [of "j + 1" xs name_char] by auto
  have "slice xs j k = xs ! j # slice xs (j + 1) k"
    using n(2) k by (simp add: slice_def Cons_nth_drop_Suc [symmetric] take_Cons' Suc_diff_Suc)
  moreover have "list_all name_char (slice xs (j + 1) k)"
    using skip_while_all [of "j + 1" _ name_char xs] k by (auto simp: list_all_length slice_def k_def)
  ultimately show ?thesis using n by (simp add: claim_name_ok_def)
qed

lemma theorem_matches_names:
  assumes "t \<in> set (theorem_matches E search)"
  shows "claim_name_ok (tm_name t)"
proof -
  have "claim_name_ok (tm_name t)" if m: "match_theorem E search k = Some t" for k
  proof -
    from m obtain p where "match_let E search k = Some (tm_name t, p)"
      by (auto simp: match_theorem_def Let_def split: option.split_asm if_split_asm)
    then show ?thesis by (rule match_let_name)
  qed
  moreover have "claim_name_ok (tm_name t)" if m: "match_direct E search k = Some t" for k
  proof -
    from m obtain p where "match_let E search k = Some (tm_name t, p)"
      by (auto simp: match_direct_def Let_def split: option.split_asm if_split_asm)
    then show ?thesis by (rule match_let_name)
  qed
  ultimately show ?thesis using assms by (auto simp: theorem_matches_def dest!: finditer_sound)
qed

section \<open>Claims the probe accepts\<close>

definition probeable :: "scanenv \<Rightarrow> hol_claim \<Rightarrow> bool" where
  "probeable E c \<longleftrightarrow> claim_name_ok (cl_name c) \<and> (cl_extractable c \<longrightarrow>
     (\<exists>q. cl_quote c = Some q \<and> closed_quotation q \<and> list_all scalar q
        \<and> cl_quote_sha256 c = Some (py_sha256 E (utf8_encode q))))"

lemma slice_scalar: "list_all scalar xs \<Longrightarrow> list_all scalar (slice xs i j)"
  by (auto simp: slice_def list_all_iff dest!: in_set_takeD in_set_dropD)

lemma quotation_closed:
  assumes "read_hol_backquote xs q = Some (body, e)"
  shows "closed_quotation (slice xs q e)"
proof -
  from assms have b: "q < length xs" "xs ! q = ch_backquote" "q + 1 < e" "e \<le> length xs" "xs ! (e - 1) = ch_backquote"
    by (simp_all add: backquote_Some)
  then have l: "length (slice xs q e) = e - q" by (simp add: slice_def)
  have "slice xs q e ! 0 = xs ! q" "slice xs q e ! (e - q - 1) = xs ! (e - 1)" using b by (simp_all add: slice_def)
  moreover have "slice xs q e \<noteq> []" using l b by (metis length_greater_0_conv zero_less_diff add_lessD1)
  ultimately show ?thesis using b l by (simp add: closed_quotation_def hd_conv_nth last_conv_nth)
qed

lemma claim_of_match_probeable:
  assumes "claim_of_match E xs masked search t = Some c" and "claim_name_ok (tm_name t)" and "list_all scalar xs"
  shows "probeable E c"
  using assms slice_scalar [OF assms(3)] quotation_closed
  by (auto simp: claim_of_match_def Let_def nonliteral_claim_def literal_claim_def probeable_def split: if_split_asm)

lemma claims_loop_mem:
  "c \<in> set (claims_loop E xs masked search starts ts b co)
     \<Longrightarrow> \<exists>t\<in>set ts. claim_of_match E xs masked search t = Some c"
  by (induction E xs masked search starts ts b co rule: claims_loop.induct)
     (auto simp: Let_def split: if_split_asm option.split_asm)

lemma extracted_probeable:
  assumes "extract_hol_theorems_bytes E src = Inr claims"
  shows "list_all (probeable E) claims \<and> (\<exists>xs. utf8_decode src = Inr xs)"
proof -
  from assms obtain xs where x: "utf8_decode src = Inr xs" "extract_hol_theorems_text E xs = Inr claims"
    by (auto simp: extract_hol_theorems_bytes_def split: sum.split_asm)
  then have s: "list_all scalar xs" using utf8_decode_from_sound by (auto simp: utf8_decode_def)
  have "probeable E c" if c: "c \<in> set claims" for c
  proof -
    from x(2) obtain masked search starts where
      "claims = claims_loop E xs masked search starts (theorem_matches E search) 0 0"
      by (auto simp: extract_hol_theorems_text_def Let_def split: if_split_asm sum.split_asm)
    with c obtain t where "t \<in> set (theorem_matches E search)" "claim_of_match E xs masked search t = Some c"
      using claims_loop_mem by blast
    with claim_of_match_probeable theorem_matches_names s show ?thesis by blast
  qed
  then have "list_all (probeable E) claims" by (simp add: list_all_iff)
  with x(1) show ?thesis by blast
qed

lemma probeable_named: "list_all (probeable E) claims \<Longrightarrow> filter (\<lambda>c. cl_name c \<noteq> []) claims = claims"
  by (auto simp: list_all_iff probeable_def claim_name_ok_def filter_id_conv split: list.splits)

lemma probe_claims_probeable: "list_all (probeable E) claims \<Longrightarrow> \<exists>rows. probe_claims E t n claims = Inr rows"
proof (induction claims arbitrary: n)
  case (Cons c cs)
  then have "\<exists>row. probe_claim E t n c = Inr row" by (auto simp: probe_claim_def probeable_def Let_def)
  then obtain row where "probe_claim E t n c = Inr row" by blast
  moreover obtain rows where "probe_claims E t (n + 1) cs = Inr rows" using Cons by fastforce
  ultimately show ?case by simp
qed simp

lemma validated_probeable:
  assumes "list_all (probeable E) claims"
  shows "validated_claims claims = (if distinct (map cl_name claims) then Inr claims
    else Inl (Duplicate_names (sort (remdups (filter (\<lambda>n. 1 < count_list (map cl_name claims) n) (map cl_name claims))))))"
proof -
  let ?names = "map cl_name claims"
  let ?D = "filter (\<lambda>n. 1 < count_list ?names n) ?names"
  have f: "find (\<lambda>n. \<not> claim_name_ok n) ?names = None"
    using assms by (auto simp: find_None_iff list_all_iff probeable_def)
  have "distinct ?names \<longleftrightarrow> ?D = []" by (auto simp: distinct_count_list filter_empty_conv)
  also have "\<dots> \<longleftrightarrow> sort (remdups ?D) = []" by (metis remdups_eq_nil_iff set_empty set_sort)
  finally show ?thesis
    using f by (simp add: validated_claims_def Let_def probeable_named [OF assms])
qed

text \<open>C10: every extracted claim is well-formed for the probe.  The names of the claims extracted from a source
  are identifiers and every extracted statement carries its closed quotation with the digest of that
  quotation; hence, with a valid nonce, the probe of the extracted claims is built exactly when their names are
  distinct, and a repeated name is the only refusal.\<close>

theorem extracted_claims_are_probeable:
  assumes "extract_hol_theorems_bytes E src = Inr claims" and "nonce_ok fresh"
  shows "list_all (probeable E) claims
    \<and> (if distinct (map cl_name claims)
       then \<exists>payload K. build_claim_probe E fresh src claims None pre = Inr (payload, K)
       else \<exists>names. build_claim_probe E fresh src claims None pre = Inl (Duplicate_names names))"
proof -
  from extracted_probeable [OF assms(1)] obtain xs where p: "list_all (probeable E) claims" "utf8_decode src = Inr xs"
    by blast
  obtain rows where "probe_claims E fresh 0 claims = Inr rows" using probe_claims_probeable [OF p(1)] by blast
  with p assms(2) validated_probeable [OF p(1)] show ?thesis
    by (simp add: build_claim_probe_def validated_nonce_def Let_def)
qed

lemma extracted_claims_are_probeable_witness:
  "\<exists>payload K. build_claim_probe letters_env (replicate 32 97) (utf8_encode one_theorem) [one_claim] None []
     = Inr (payload, K)"
proof -
  have "extract_hol_theorems_bytes letters_env (utf8_encode one_theorem) = Inr [one_claim]"
  proof -
    have "list_all scalar one_theorem" by code_simp
    then show ?thesis
      using utf8_decode_encode one_theorem_claims(1) by (simp add: extract_hol_theorems_bytes_def)
  qed
  moreover have "nonce_ok (replicate 32 97)" by code_simp
  ultimately show ?thesis
    using extracted_claims_are_probeable [of letters_env "utf8_encode one_theorem" "[one_claim]" "replicate 32 97" "[]"]
    by auto
qed

end
