(* ===== verification/Claim_Witness.thy ===== *)
theory Claim_Witness
  imports Foundation_Props Claim_Pipeline
begin

text \<open>One probe of a source with one literal theorem, on which the claim properties are applied.\<close>

definition probe_env :: scanenv where
  "probe_env = \<lparr>py_category = (\<lambda>c. ''Ll''), py_isdigit = (\<lambda>c. 48 \<le> c \<and> c \<le> 57), py_isupper = (\<lambda>c. 65 \<le> c \<and> c \<le> 90),
     py_sha256 = (\<lambda>bs. ''00''), py_isalnum = (\<lambda>c. ascii_letter c \<or> (48 \<le> c \<and> c \<le> 57))\<rparr>"

definition probe_nonce :: ucs where "probe_nonce = replicate 32 97"

definition lemma_claim :: hol_claim where
  "lemma_claim =
     \<lparr>cl_name = asc ''ADD_0'', cl_statement = Some (asc ''n + 0 = n''), cl_quote = Some (asc ''`n + 0 = n`''),
      cl_quote_sha256 = Some ''00'', cl_preview = None, cl_extractable = True,
      cl_statement_source = ''literal_backquote'', cl_constructor = asc ''prove'', cl_argument_preview = None,
      cl_source_line = 1, cl_statement_line = Some 1, cl_statement_end_line = Some 1, cl_truncated = Some False\<rparr>"

definition probe_source :: bytes where
  "probe_source = basc ''let ADD_0 = prove(`n + 0 = n`,ARITH_TAC);;''"

abbreviation built_probe :: "probe_error + bytes \<times> probe_contract" where
  "built_probe \<equiv> instrumented_source_bytes probe_env probe_nonce (\<lambda>_. []) probe_source [lemma_claim] None [] True"

abbreviation probe_prefix :: ucs where
  "probe_prefix \<equiv> FOUNDATION_DELTA_PREFIX @ asc '':'' @ probe_nonce @ asc '':''"

lemma probe_nonce_ok: "nonce_ok probe_nonce"
  by code_simp

lemma probe_prefix_ok: "foundation_probe_contract probe_nonce = Some probe_prefix"
  by code_simp

lemma probe_built: "\<exists>payload K. built_probe = Inr (payload, K) \<and> pc_nonce K = probe_nonce
    \<and> pc_foundation K = Some probe_prefix"
proof -
  have p: "list_all (probeable probe_env) [lemma_claim]"
    by (simp add: probeable_def) (simp add: lemma_claim_def probe_env_def asc_def claim_name_ok_def name_char_def
        ascii_letter_def ascii_alnum_def ascii_digit_def closed_quotation_def scalar_def)
  from probe_claims_probeable [OF p] obtain rows where "probe_claims probe_env probe_nonce 0 [lemma_claim] = Inr rows"
    by blast
  moreover have "\<not> isl (utf8_decode probe_source)" by code_simp
  ultimately show ?thesis
    using validated_probeable [OF p] probe_nonce_ok probe_prefix_ok
    by (auto simp: instrumented_source_bytes_def build_claim_probe_def validated_nonce_def Let_def split: sum.split)
qed

definition quiet_transcript :: bytes where
  "quiet_transcript = printed [basc ''val ADD_0 : thm = |- n + 0 = n'']"

definition proved_transcript :: bytes where
  "proved_transcript =
     printed [mbytes (ok_marker probe_nonce 0), mbytes (completion_marker probe_nonce)]"

lemma proved_lines:
  "byte_lines proved_transcript = [mbytes (ok_marker probe_nonce 0), mbytes (completion_marker probe_nonce)]"
  unfolding proved_transcript_def by (rule byte_lines_printed) (simp add: plain_markers [OF probe_nonce_ok])

lemma proved_transcript_counts:
  "marker_count proved_transcript (ok_marker probe_nonce 0) = 1"
  "marker_count proved_transcript (mismatch_marker probe_nonce 0) = 0"
  "marker_count proved_transcript (completion_marker probe_nonce) = 1"
  using markers_ascii [OF probe_nonce_ok] by (simp_all add: marker_count_def proved_lines mbytes_eq)

lemma no_error_in_markers:
  "find_from (mbytes (ok_marker probe_nonce 0)) (basc ''Error in included file'') 0 = None"
  "find_from (mbytes (completion_marker probe_nonce)) (basc ''Error in included file'') 0 = None"
  by code_simp+

theorem probe_contract_is_unambiguous_witness:
  "\<exists>payload K. built_probe = Inr (payload, K) \<and> distinct (map mbytes (contract_markers K))"
  using probe_built probe_contract_is_unambiguous [of probe_env probe_nonce "\<lambda>_. []" probe_source "[lemma_claim]" None "[]" True]
  by blast

theorem claims_credited_by_their_marker_witness:
  "\<exists>payload K docs ac. built_probe = Inr (payload, K)
     \<and> account_claims probe_env [lemma_claim] proved_transcript K = Inr (docs, ac)
     \<and> map cd_status docs = [Proved]"
proof -
  from probe_built obtain payload K where b: "built_probe = Inr (payload, K)" "pc_nonce K = probe_nonce" by blast
  have n: "map cl_name (named_claims [lemma_claim]) = [asc ''ADD_0'']" by code_simp
  note m = proved_transcript_counts
  from claims_credited_by_their_marker [OF b(1), of proved_transcript] obtain docs ac where
    d: "account_claims probe_env [lemma_claim] proved_transcript K = Inr (docs, ac)" "map cd_theorem docs = [asc ''ADD_0'']"
    "0 < length docs \<Longrightarrow> cd_status (docs ! 0) = Proved"
    using b(2) m n by auto
  from d(2) have "length docs = 1" by (metis length_map length_Cons list.size(3) One_nat_def)
  with d(3) have "map cd_status docs = [Proved]" by (cases docs) auto
  with b(1) d(1) show ?thesis by (intro exI conjI)
qed

theorem exit_zero_needs_every_marker_witness:
  "\<exists>payload K a. built_probe = Inr (payload, K)
     \<and> analyze_vanilla_transcript probe_env [lemma_claim] proved_transcript K ''completed'' [(''exit_status'', J_int 0)] = Inr a
     \<and> an_effective_exit a = J_int 0"
proof -
  from probe_built obtain payload K where b: "built_probe = Inr (payload, K)" "pc_nonce K = probe_nonce" by blast
  have n: "length (named_claims [lemma_claim]) = 1" by code_simp
  note m = proved_transcript_counts
  have i: "\<not> included_file_error_observed proved_transcript"
    by (simp add: included_file_error_observed_def proved_lines no_error_in_markers)
  have p: "py_int (dget [(''exit_status'', J_int 0)] ''exit_status'') \<in> {None, Some 0}"
    by (simp add: dget_def py_int_def)
  from exit_zero_needs_every_marker [OF b(1), of proved_transcript "''completed''" "[(''exit_status'', J_int 0)]"]
  show ?thesis using b n m p i by auto
qed

theorem no_credit_without_nonce_witness:
  "\<exists>payload K a. built_probe = Inr (payload, K)
     \<and> analyze_vanilla_transcript probe_env [lemma_claim] quiet_transcript K ''completed'' [] = Inr a
     \<and> an_observed a = [] \<and> an_effective_exit a \<noteq> J_int 0"
proof -
  from probe_built obtain payload K where b: "built_probe = Inr (payload, K)" "pc_nonce K = probe_nonce" by blast
  have "\<not> sublist (mbytes probe_nonce) quiet_transcript" by code_simp
  with b(2) have "\<not> sublist (mbytes (pc_nonce K)) quiet_transcript" by simp
  from no_credit_without_nonce [OF b(1) this, of "''completed''" "[]"] b(1) show ?thesis by blast
qed

theorem foundation_delta_round_trip_witness:
  "let p = FOUNDATION_DELTA_PREFIX @ asc '':'' @ probe_nonce @ asc '':'';
       fr = account_foundation_delta (printed ([] @ foundation_line p ''ok'' [1, 2, 0, 3] # [basc ''done''])) (Some p)
   in fr_status fr = Fd_observed \<and> fst (promotion_advisory fr True (J_int 0)) = Block"
proof -
  have "list_all plain_line ([] @ [basc ''done''])"
    "list_all (\<lambda>l. \<not> startswith_at l (mbytes probe_prefix) 0) ([] @ [basc ''done''])"
    by code_simp+
  from foundation_delta_round_trip [OF probe_prefix_ok _ _ _ _ this, of 1 2 0 3 True "J_int 0"]
  show ?thesis by (auto simp: Let_def)
qed

definition clean_transcript :: bytes where
  "clean_transcript =
     printed ([] @ foundation_line probe_prefix ''ok'' [0, 2, 0, 3]
              # [mbytes (ok_marker probe_nonce 0), mbytes (completion_marker probe_nonce)])"

lemma clean_lines:
  "byte_lines clean_transcript = [foundation_line probe_prefix ''ok'' [0, 2, 0, 3],
     mbytes (ok_marker probe_nonce 0), mbytes (completion_marker probe_nonce)]"
  unfolding clean_transcript_def
  by (rule trans, rule byte_lines_printed)
     (simp_all add: plain_markers [OF probe_nonce_ok] plain_foundation_line [OF refl probe_nonce_ok])

lemma foundation_line_differs:
  "foundation_line probe_prefix ''ok'' [0, 2, 0, 3] \<noteq> mbytes (ok_marker probe_nonce 0)"
  "foundation_line probe_prefix ''ok'' [0, 2, 0, 3] \<noteq> mbytes (mismatch_marker probe_nonce 0)"
  "foundation_line probe_prefix ''ok'' [0, 2, 0, 3] \<noteq> mbytes (completion_marker probe_nonce)"
  by code_simp+

theorem no_foundation_objection_is_earned_witness:
  "\<exists>payload K a reasons. built_probe = Inr (payload, K)
     \<and> analyze_vanilla_transcript probe_env [lemma_claim] clean_transcript K ''completed'' [(''exit_status'', J_int 0)] = Inr a
     \<and> an_advisory a = Some (No_foundation_objection, reasons) \<and> reasons = []"
proof -
  from probe_built obtain payload K where b: "built_probe = Inr (payload, K)" "pc_nonce K = probe_nonce"
    "pc_foundation K = Some probe_prefix" by blast
  note c = instrumented_contract_for [OF b(1)]
  have n: "length (named_claims [lemma_claim]) = 1" by code_simp
  have "find_from (foundation_line probe_prefix ''ok'' [0, 2, 0, 3]) (basc ''Error in included file'') 0 = None"
    by code_simp
  then have i: "\<not> included_file_error_observed clean_transcript"
    by (simp add: included_file_error_observed_def clean_lines no_error_in_markers)
  have q: "list_all plain_line ([] @ [mbytes (ok_marker probe_nonce 0), mbytes (completion_marker probe_nonce)])"
    by (simp add: plain_markers [OF probe_nonce_ok])
  have "list_all (\<lambda>l. \<not> startswith_at l (mbytes probe_prefix) 0)
      ([] @ [mbytes (ok_marker probe_nonce 0), mbytes (completion_marker probe_nonce)])" by code_simp
  note f = foundation_delta_read [OF probe_prefix_ok _ _ _ _ q this, of 0 2 0 3, folded clean_transcript_def]
  have m: "marker_count clean_transcript (ok_marker probe_nonce 0) = 1"
    "marker_count clean_transcript (mismatch_marker probe_nonce 0) = 0"
    "marker_count clean_transcript (completion_marker probe_nonce) = 1"
    using markers_ascii [OF probe_nonce_ok]
    by (simp_all add: marker_count_def clean_lines mbytes_eq foundation_line_differs)
  from analysis_for [OF c, of probe_env clean_transcript "''completed''" "[(''exit_status'', J_int 0)]"] obtain a where
    a: "analyze_vanilla_transcript probe_env [lemma_claim] clean_transcript K ''completed'' [(''exit_status'', J_int 0)] = Inr a"
    "an_advisory a = Some (promotion_advisory (account_foundation_delta clean_transcript (Some probe_prefix)) True (J_int 0))"
    using b n i m by (auto simp: dget_def)
  then obtain reasons where "an_advisory a = Some (No_foundation_objection, reasons)"
    using f by (auto simp: promotion_advisory_def Let_def)
  with no_foundation_objection_is_earned [OF a(1) this] a(1) b(1) show ?thesis by blast
qed

end
