(* ===== verification/Restored_Tree.thy ===== *)
theory Restored_Tree
  imports Process_Groups_Props Json
begin

text \<open>
  The processes of a CRIU restore, \<open>criu_restore_transaction.py\<close>: the recorded worker and basis, the capture
  and the validation of the stopped process tree, its resumption and its termination.  The readings that only
  this module makes (process state, direct children) are a second history beside the snapshots, read at
  the same times.
\<close>

record tree_reads =
  rd_state :: "int \<Rightarrow> string option"
  rd_children :: "int \<Rightarrow> string + int list"
  rd_ticks :: "int \<Rightarrow> int option"
  rd_identity :: "int \<Rightarrow> string option"
  rd_getpgid :: "int \<Rightarrow> int option"

type_synonym reads = "nat \<Rightarrow> tree_reads"

definition look :: "reads \<Rightarrow> (tree_reads \<Rightarrow> 'a) \<Rightarrow> run_state \<Rightarrow> 'a \<times> run_state" where
  "look R q s = (q (R (rs_time s)), tick s)"

section \<open>The recorded processes\<close>

text \<open>\<open>int(value)\<close> is an argument, \<open>None\<close> when it raises.\<close>

definition positive_int :: "string \<Rightarrow> int option \<Rightarrow> string + int" where
  "positive_int field value =
     (case value of
        Some v \<Rightarrow> if 0 < v then Inr v else Inl (''restored '' @ field @ '' is not a positive integer'')
      | None \<Rightarrow> Inl (''restored '' @ field @ '' is not a positive integer''))"

record recorded_process =
  rp_pid :: int
  rp_pgid :: int

record recorded_pool =
  rec_worker :: recorded_process
  rec_basis :: recorded_process

definition read_role :: "(json \<Rightarrow> int option) \<Rightarrow> string \<Rightarrow> dict \<Rightarrow> string + recorded_process" where
  "read_role conv role data =
     bindE (positive_int (role @ ''_pid'') (conv (dget data (role @ ''_pid'')))) (\<lambda>p.
     bindE (positive_int (role @ ''_pgid'') (conv (or_else (dget data (role @ ''_pgid'')) (J_int p)))) (\<lambda>g.
       Inr \<lparr>rp_pid = p, rp_pgid = g\<rparr>))"

definition read_recorded_pool_processes :: "(json \<Rightarrow> int option) \<Rightarrow> json \<Rightarrow> string + recorded_pool" where
  "read_recorded_pool_processes conv pool =
     (case pool of
        J_obj data \<Rightarrow>
          bindE (read_role conv ''worker'' data) (\<lambda>w.
          bindE (read_role conv ''basis'' data) (\<lambda>b.
            Inr \<lparr>rec_worker = w, rec_basis = b\<rparr>))
      | _ \<Rightarrow> Inl ''restored pool metadata is not a JSON object'')"

section \<open>Direct children\<close>

text \<open>The task list before and after, and the parsed \<open>children\<close> file of every task.\<close>

fun task_children :: "(int \<Rightarrow> string + int list) \<Rightarrow> int list \<Rightarrow> string + int list" where
  "task_children read [] = Inr []"
| "task_children read (tid # tids) =
     bindE (read tid) (\<lambda>cs. bindE (task_children read tids) (\<lambda>ds. Inr (cs @ ds)))"

definition child_pids :: "int list \<Rightarrow> (int \<Rightarrow> string + int list) \<Rightarrow> int list \<Rightarrow> string + int list" where
  "child_pids before read after =
     (if before = [] then Inl ''RuntimeError: restored process has no readable task records''
      else bindE (task_children read (sort before)) (\<lambda>children.
        if sort after \<noteq> sort before
        then Inl ''RuntimeError: task list changed during stopped-tree capture''
        else Inr (sort (remdups children))))"

section \<open>Capturing the tree\<close>

record tree_record =
  tn_pid :: int
  tn_pgid :: "int option"
  tn_ticks :: "int option"
  tn_identity :: "string option"
  tn_state :: "string option"
  tn_children :: "int list"
  tn_children_error :: bool

definition capture_record :: "reads \<Rightarrow> int \<Rightarrow> run_state \<Rightarrow> tree_record \<times> run_state" where
  "capture_record R pid s =
     (let (ticks, s) = look R (\<lambda>r. rd_ticks r pid) s;
          (ident, s) = look R (\<lambda>r. rd_identity r pid) s;
          (state, s) = look R (\<lambda>r. rd_state r pid) s;
          (pgid, s) = look R (\<lambda>r. rd_getpgid r pid) s;
          (children, s) = look R (\<lambda>r. rd_children r pid) s
      in (\<lparr>tn_pid = pid, tn_pgid = pgid, tn_ticks = ticks, tn_identity = ident, tn_state = state,
           tn_children = (case children of Inl _ \<Rightarrow> [] | Inr cs \<Rightarrow> cs), tn_children_error = isl children\<rparr>, s))"

text \<open>The worklist; \<open>pending\<close> is a stack whose end is its top.\<close>

partial_function (option) capture_loop :: "reads \<Rightarrow> int list \<Rightarrow> int list \<Rightarrow> tree_record list \<Rightarrow> run_state
    \<Rightarrow> (tree_record list \<times> run_state) option" where
  [code]: "capture_loop R pending seen_pids records s =
     (if pending = [] then Some (records, s)
      else let pid = last pending; rest = butlast pending
           in if pid \<in> set seen_pids then capture_loop R rest seen_pids records s
              else let r = fst (capture_record R pid s); s' = snd (capture_record R pid s)
                   in capture_loop R (rest @ tn_children r) (pid # seen_pids) (records @ [r]) s')"

definition capture_authoritative_tree :: "reads \<Rightarrow> int \<Rightarrow> run_state \<Rightarrow> (tree_record list \<times> run_state) option" where
  "capture_authoritative_tree R root_pid s = capture_loop R [root_pid] [] [] s"

section \<open>Problems of a captured tree\<close>

datatype tree_problem =
    Root_unavailable
  | Tree_empty
  | Invalid_pid
  | Captured_twice int
  | No_group int
  | No_start_identity int
  | No_birth_identity int
  | No_state int
  | Children_unavailable int
  | Invalid_children int
  | Root_absent int
  | Role_absent string int
  | Missing_records "int list"

definition positive_opt :: "int option \<Rightarrow> bool" where
  "positive_opt v \<longleftrightarrow> (case v of None \<Rightarrow> False | Some i \<Rightarrow> 0 < i)"

definition record_problems :: "int list \<Rightarrow> tree_record \<Rightarrow> tree_problem list" where
  "record_problems earlier r =
     (if tn_pid r \<le> 0 then [Invalid_pid]
      else (if tn_pid r \<in> set earlier then [Captured_twice (tn_pid r)] else [])
         @ (if positive_opt (tn_pgid r) then [] else [No_group (tn_pid r)])
         @ (if positive_opt (tn_ticks r) then [] else [No_start_identity (tn_pid r)])
         @ (if tn_identity r = None \<or> tn_identity r = Some [] then [No_birth_identity (tn_pid r)] else [])
         @ (if tn_state r = None then [No_state (tn_pid r)] else [])
         @ (if tn_children_error r then [Children_unavailable (tn_pid r)] else [])
         @ (if list_all (\<lambda>c. 0 < c) (tn_children r) then [] else [Invalid_children (tn_pid r)]))"

fun records_problems :: "int list \<Rightarrow> tree_record list \<Rightarrow> tree_problem list" where
  "records_problems earlier [] = []"
| "records_problems earlier (r # rs) =
     record_problems earlier r @ records_problems (if tn_pid r \<le> 0 then earlier else tn_pid r # earlier) rs"

definition by_pid :: "tree_record list \<Rightarrow> int \<Rightarrow> tree_record option" where
  "by_pid tree pid = find (\<lambda>r. tn_pid r = pid) (rev tree)"

text \<open>\<open>list(dict.fromkeys(xs))\<close>\<close>

definition first_occurrences :: "'a list \<Rightarrow> 'a list" where
  "first_occurrences xs = rev (remdups (rev xs))"

definition referenced :: "tree_record list \<Rightarrow> int list" where
  "referenced valid = filter (\<lambda>c. 0 < c)
     (concat (map tn_children (filter (\<lambda>r. by_pid valid (tn_pid r) = Some r) valid)))"

definition tree_capture_problems :: "int option \<Rightarrow> recorded_pool \<Rightarrow> tree_record list \<Rightarrow> tree_problem list" where
  "tree_capture_problems root rec tree =
     (case root of
        None \<Rightarrow> [Root_unavailable]
      | Some root_pid \<Rightarrow>
          if tree = [] then [Tree_empty]
          else let valid = filter (\<lambda>r. 0 < tn_pid r) tree;
                   present = (\<lambda>p. by_pid valid p \<noteq> None);
                   missing = sort (remdups (filter (\<lambda>c. \<not> present c) (referenced valid)))
               in first_occurrences
                    (records_problems [] tree
                     @ (if present root_pid then [] else [Root_absent root_pid])
                     @ (if present (rp_pid (rec_worker rec)) then []
                        else [Role_absent ''worker'' (rp_pid (rec_worker rec))])
                     @ (if present (rp_pid (rec_basis rec)) then []
                        else [Role_absent ''basis'' (rp_pid (rec_basis rec))])
                     @ (if missing = [] then [] else [Missing_records missing])))"

section \<open>Validation\<close>

definition stopped_state :: "string option \<Rightarrow> bool" where
  "stopped_state st \<longleftrightarrow> st = Some ''T'' \<or> st = Some ''t''"

definition ended_state :: "string option \<Rightarrow> bool" where
  "ended_state st \<longleftrightarrow> st = Some ''X'' \<or> st = Some ''x'' \<or> st = Some ''Z''"

datatype tree_error =
    Root_not_worker
  | Worker_group_not_root
  | Capture_incomplete "tree_problem list"
  | Role_outside string
  | Role_group string
  | Role_identity string
  | Role_not_stopped string
  | Role_children string
  | Unrecorded_groups "int list"
  | Not_stopped "int list"

definition role_errors :: "string \<Rightarrow> recorded_process \<Rightarrow> tree_record list \<Rightarrow> tree_error list" where
  "role_errors role expected tree =
     (case by_pid tree (rp_pid expected) of
        None \<Rightarrow> [Role_outside role]
      | Some r \<Rightarrow>
          (if tn_pgid r = Some (rp_pgid expected) then [] else [Role_group role])
          @ (if tn_ticks r = None \<or> tn_identity r = None then [Role_identity role] else [])
          @ (if stopped_state (tn_state r) then [] else [Role_not_stopped role])
          @ (if tn_children_error r then [Role_children role] else []))"

definition unrecorded_groups :: "recorded_pool \<Rightarrow> tree_record list \<Rightarrow> int list" where
  "unrecorded_groups rec tree =
     sort (remdups (filter (\<lambda>g. g \<notin> {rp_pgid (rec_worker rec), rp_pgid (rec_basis rec)})
       (List.map_filter tn_pgid tree)))"

definition validate_restored_tree :: "int \<Rightarrow> recorded_pool \<Rightarrow> tree_record list
    \<Rightarrow> tree_error list + tree_record \<times> tree_record" where
  "validate_restored_tree root_pid rec tree =
     (let problems = tree_capture_problems (Some root_pid) rec tree;
          unexpected = unrecorded_groups rec tree;
          unstopped = sort (map tn_pid (filter (\<lambda>r. \<not> stopped_state (tn_state r)) tree));
          errors =
            (if root_pid = rp_pid (rec_worker rec) then [] else [Root_not_worker])
            @ (if rp_pgid (rec_worker rec) = root_pid then [] else [Worker_group_not_root])
            @ (if problems = [] then [] else [Capture_incomplete problems])
            @ role_errors ''worker'' (rec_worker rec) tree
            @ role_errors ''basis'' (rec_basis rec) tree
            @ (if unexpected = [] then [] else [Unrecorded_groups unexpected])
            @ (if unstopped = [] then [] else [Not_stopped unstopped])
      in case (by_pid tree (rp_pid (rec_worker rec)), by_pid tree (rp_pid (rec_basis rec))) of
           (Some w, Some b) \<Rightarrow> if errors = [] then Inr (w, b) else Inl (first_occurrences errors)
         | _ \<Rightarrow> Inl (first_occurrences errors))"

section \<open>Recorded processes without a tree\<close>

definition capture_role :: "reads \<Rightarrow> string \<Rightarrow> recorded_process \<Rightarrow> run_state \<Rightarrow> (string + tree_record) \<times> run_state" where
  "capture_role R role expected s =
     (let (pgid, s) = look R (\<lambda>r. rd_getpgid r (rp_pid expected)) s;
          (ticks, s) = look R (\<lambda>r. rd_ticks r (rp_pid expected)) s;
          (ident, s) = look R (\<lambda>r. rd_identity r (rp_pid expected)) s;
          (state, s) = look R (\<lambda>r. rd_state r (rp_pid expected)) s
      in if pgid \<noteq> Some (rp_pgid expected)
         then (Inl (''restored '' @ role @ '' process group is unavailable''), s)
         else if ticks = None \<or> ident = None
         then (Inl (''restored '' @ role @ '' process identity is unavailable''), s)
         else (Inr \<lparr>tn_pid = rp_pid expected, tn_pgid = pgid, tn_ticks = ticks, tn_identity = ident,
                 tn_state = state, tn_children = [], tn_children_error = False\<rparr>, s))"

definition capture_recorded_processes :: "reads \<Rightarrow> recorded_pool \<Rightarrow> run_state
    \<Rightarrow> (string + tree_record \<times> tree_record) \<times> run_state" where
  "capture_recorded_processes R rec s =
     (case capture_role R ''worker'' (rec_worker rec) s of
        (Inl e, s) \<Rightarrow> (Inl e, s)
      | (Inr w, s) \<Rightarrow>
          (case capture_role R ''basis'' (rec_basis rec) s of
             (Inl e, s) \<Rightarrow> (Inl e, s)
           | (Inr b, s) \<Rightarrow> (Inr (w, b), s)))"

section \<open>Resumption\<close>

definition identity_matches :: "reads \<Rightarrow> tree_record \<Rightarrow> run_state \<Rightarrow> bool \<times> run_state" where
  "identity_matches R r s =
     (case tn_identity r of None \<Rightarrow> (False, s) | Some e \<Rightarrow> look R (\<lambda>x. rd_identity x (tn_pid r) = Some e) s)"

text \<open>One role: its identity and group are read again, and its group is continued.\<close>

definition resume_role :: "history \<Rightarrow> reads \<Rightarrow> string \<Rightarrow> tree_record \<Rightarrow> run_state \<Rightarrow> (string + int) \<times> run_state" where
  "resume_role H R role r s =
     (case tn_pgid r of
        None \<Rightarrow> (Inl ''TypeError'', s)
      | Some pgid \<Rightarrow>
          let (same, s) = identity_matches R r s
          in if \<not> same then (Inl (''restored '' @ role @ '' identity changed before resume''), s)
             else let (actual, s) = look R (\<lambda>x. rd_getpgid x (tn_pid r)) s
                  in (case actual of
                       None \<Rightarrow> (Inl ''ProcessLookupError'', s)
                     | Some g \<Rightarrow>
                         if g \<noteq> pgid then (Inl (''restored '' @ role @ '' identity changed before resume''), s)
                         else let (sent, s) = signal_process_group H (Some pgid) SIGCONT s
                              in (case sent of
                                   Inl e \<Rightarrow> (Inl e, s)
                                 | Inr False \<Rightarrow>
                                     (Inl (''restored '' @ role @ '' process group disappeared before resume''), s)
                                 | Inr True \<Rightarrow> (Inr pgid, s))))"

text \<open>The state of one role after \<open>SIGCONT\<close>: ended, not yet running, or running with its identity.\<close>

datatype role_state = Role_ended | Role_pending | Role_running

definition resumed_state :: "reads \<Rightarrow> tree_record \<Rightarrow> run_state \<Rightarrow> role_state \<times> run_state" where
  "resumed_state R r s =
     (let (state, s) = look R (\<lambda>x. rd_state x (tn_pid r)) s
      in if ended_state state then (Role_ended, s)
         else if state = None \<or> stopped_state state then (Role_pending, s)
         else let (same, s) = identity_matches R r s in (if same then Role_running else Role_pending, s))"

definition resume_turn :: "history \<Rightarrow> reads \<Rightarrow> tree_record \<Rightarrow> tree_record \<Rightarrow> int \<Rightarrow> run_state
    \<Rightarrow> (string + unit) option \<times> run_state" where
  "resume_turn H R worker basis deadline s =
     (let (w, s) = resumed_state R worker s;
          (b, s) = resumed_state R basis s
      in if w = Role_ended \<or> b = Role_ended
         then (Some (Inl ''restored process groups entered terminal states after SIGCONT''), s)
         else if w = Role_running \<and> b = Role_running then (Some (Inr ()), s)
         else let (now, s) = observe H sn_now s
              in if deadline \<le> now
                 then (Some (Inl ''restored process groups did not resume cleanly after SIGCONT''), s)
                 else (None, s))"

definition resume_restored_processes :: "history \<Rightarrow> reads \<Rightarrow> tree_record \<Rightarrow> tree_record \<Rightarrow> run_state
    \<Rightarrow> ((string + int list) \<times> run_state) option" where
  "resume_restored_processes H R worker basis s =
     (case resume_role H R ''basis'' basis s of
        (Inl e, s) \<Rightarrow> Some (Inl e, s)
      | (Inr g, s) \<Rightarrow>
          (case resume_role H R ''worker'' worker s of
             (Inl e, s) \<Rightarrow> Some (Inl e, s)
           | (Inr g', s) \<Rightarrow>
               let (now, s) = observe H sn_now s
               in do {
                 (r, s) \<leftarrow> poll (resume_turn H R worker basis (now + 500)) s;
                 Some (case r of Inl e \<Rightarrow> Inl e | Inr _ \<Rightarrow> Inr [g, g'], s)
               }))"

section \<open>Termination\<close>

text \<open>The representative of every group, in the order in which the groups first occur: the group's leader where
  the tree has one, and otherwise the group's first record.\<close>

definition add_representative :: "tree_record \<Rightarrow> (int \<times> tree_record) list \<Rightarrow> (int \<times> tree_record) list" where
  "add_representative r reps =
     (case tn_pgid r of
        None \<Rightarrow> reps
      | Some g \<Rightarrow>
          if g \<le> 0 then reps
          else if map_of reps g = None then reps @ [(g, r)]
          else if tn_pid r = g then map (\<lambda>(h, x). if h = g then (h, r) else (h, x)) reps
          else reps)"

definition representatives :: "tree_record list \<Rightarrow> (int \<times> tree_record) list" where
  "representatives tree = fold add_representative tree []"

definition root_group :: "int option \<Rightarrow> tree_record list \<Rightarrow> int option" where
  "root_group root tree =
     (case find (\<lambda>r. Some (tn_pid r) = root \<and> tn_pgid r \<noteq> None) tree of None \<Rightarrow> None | Some r \<Rightarrow> tn_pgid r)"

definition ordered_representatives :: "int option \<Rightarrow> tree_record list \<Rightarrow> (int \<times> tree_record) list" where
  "ordered_representatives root tree =
     (let reps = representatives tree; is_root = (\<lambda>(g, r). Some g = root_group root tree)
      in filter (Not \<circ> is_root) reps @ filter is_root reps)"

definition restored_request :: "tree_record \<Rightarrow> term_request" where
  "restored_request r =
     \<lparr>tq_identity_pid = Some (tn_pid r), tq_expected_identity = tn_identity r, tq_expected_ticks = tn_ticks r,
      tq_require_identity = True, tq_group_continuity = False, tq_term_grace = 0, tq_kill_grace = 1000\<rparr>"

record restored_stop =
  st_verified :: bool
  st_terminations :: "term_result list"
  st_final :: wait_result

definition terminate_restored_tree :: "history \<Rightarrow> int option \<Rightarrow> tree_record list \<Rightarrow> run_state
    \<Rightarrow> (restored_stop \<times> run_state) option" where
  "terminate_restored_tree H root tree s = do {
     (terminations, s) \<leftarrow> stop_each (\<lambda>x. terminate_process_group H (fst x) (snd x))
        (map (\<lambda>(g, r). (restored_request r, Some g)) (ordered_representatives root tree)) s;
     (final, s) \<leftarrow> wait_for_quiescence H (map (\<lambda>r. Some (tn_pid r)) tree)
        (map (\<lambda>(g, r). Some g) (representatives tree)) 1000 s;
     Some (\<lparr>st_verified = wr_quiescent final, st_terminations = terminations, st_final = final\<rparr>, s)
   }"

text \<open>The receipt keeps five keys of every record.\<close>

definition tree_receipt_records :: "tree_record list \<Rightarrow> (int \<times> int option \<times> int option \<times> string option \<times> string option) list" where
  "tree_receipt_records tree = map (\<lambda>r. (tn_pid r, tn_pgid r, tn_ticks r, tn_identity r, tn_state r)) tree"

end
