(* ===== verification/Restored_Tree_Props.thy ===== *)
theory Restored_Tree_Props
  imports Restored_Tree
begin

text \<open>
  What a restore transaction guarantees: the captured tree is the set of processes reachable from the root,
  a validated tree is owned throughout, only validated groups are continued, and a termination signals only groups
  of the tree and reports quiescence only when the whole tree was observed gone.
\<close>

section \<open>Capture\<close>

definition tree_pids :: "tree_record list \<Rightarrow> int list" where
  "tree_pids tree = map tn_pid tree"

definition tree_edges :: "tree_record list \<Rightarrow> (int \<times> int) set" where
  "tree_edges tree = {(tn_pid r, c) | r c. r \<in> set tree \<and> c \<in> set (tn_children r)}"

lemma tree_pids_simps [simp]:
  "tree_pids [] = []" "tree_pids (r # rs) = tn_pid r # tree_pids rs" "tree_pids (xs @ ys) = tree_pids xs @ tree_pids ys"
  by (simp_all add: tree_pids_def)

lemma tree_edges_mono: "set xs \<subseteq> set ys \<Longrightarrow> tree_edges xs \<subseteq> tree_edges ys"
  by (auto simp: tree_edges_def)

lemma look_quiet: "look R q s = (x, s') \<Longrightarrow> quiet s s' \<and> x = q (R (rs_time s))"
  by (auto simp: look_def)

lemma capture_record_effect:
  shows "quiet s (snd (capture_record R pid s))" and "tn_pid (fst (capture_record R pid s)) = pid"
    and "tn_children (fst (capture_record R pid s)) = [] \<or>
      (\<exists>t. rd_children (R t) pid = Inr (tn_children (fst (capture_record R pid s))))"
  by (auto simp: capture_record_def look_def quiet_def tick_def Let_def split: sum.split)

definition captured :: "int list \<Rightarrow> int list \<Rightarrow> tree_record list \<Rightarrow> tree_record list \<Rightarrow> bool" where
  "captured pending seen_pids records tree \<longleftrightarrow>
     (tree_pids records = rev seen_pids \<and> distinct seen_pids
        \<and> (\<forall>r\<in>set records. set (tn_children r) \<subseteq> set seen_pids \<union> set pending)
      \<longrightarrow> (\<exists>new. tree = records @ new \<and> distinct (tree_pids tree) \<and> set pending \<subseteq> set (tree_pids tree)
            \<and> (\<forall>r\<in>set tree. set (tn_children r) \<subseteq> set (tree_pids tree))
            \<and> (\<forall>p\<in>set (tree_pids new). \<exists>q\<in>set pending. (q, p) \<in> (tree_edges new)\<^sup>*)))"

lemma captured_done: "captured [] seen_pids records records"
proof -
  have "set (tree_pids records) = set seen_pids" if "tree_pids records = rev seen_pids"
    using that by (metis set_rev)
  then show ?thesis by (auto simp: captured_def)
qed

lemma captured_skip:
  assumes "captured rest seen_pids records tree" and "pid \<in> set seen_pids"
  shows "captured (rest @ [pid]) seen_pids records tree"
  unfolding captured_def
proof (intro impI)
  assume i: "tree_pids records = rev seen_pids \<and> distinct seen_pids
    \<and> (\<forall>r\<in>set records. set (tn_children r) \<subseteq> set seen_pids \<union> set (rest @ [pid]))"
  with assms(2) have "\<forall>r\<in>set records. set (tn_children r) \<subseteq> set seen_pids \<union> set rest" by auto
  with assms(1) i obtain new where n: "tree = records @ new" "distinct (tree_pids tree)" "set rest \<subseteq> set (tree_pids tree)"
    "\<forall>r\<in>set tree. set (tn_children r) \<subseteq> set (tree_pids tree)"
    "\<forall>p\<in>set (tree_pids new). \<exists>q\<in>set rest. (q, p) \<in> (tree_edges new)\<^sup>*"
    unfolding captured_def by blast
  have "pid \<in> set (tree_pids tree)" using i assms(2) n(1) by (metis Un_iff set_append set_rev tree_pids_simps(3))
  with n show "\<exists>new. tree = records @ new \<and> distinct (tree_pids tree) \<and> set (rest @ [pid]) \<subseteq> set (tree_pids tree)
            \<and> (\<forall>r\<in>set tree. set (tn_children r) \<subseteq> set (tree_pids tree))
            \<and> (\<forall>p\<in>set (tree_pids new). \<exists>q\<in>set (rest @ [pid]). (q, p) \<in> (tree_edges new)\<^sup>*)"
    by (intro exI [of _ new]) auto
qed

lemma captured_add:
  assumes "captured (rest @ tn_children r) (pid # seen_pids) (records @ [r]) tree" and "tn_pid r = pid"
    and "pid \<notin> set seen_pids"
  shows "captured (rest @ [pid]) seen_pids records tree"
  unfolding captured_def
proof (intro impI)
  assume i: "tree_pids records = rev seen_pids \<and> distinct seen_pids
    \<and> (\<forall>r\<in>set records. set (tn_children r) \<subseteq> set seen_pids \<union> set (rest @ [pid]))"
  with assms(2,3) have "tree_pids (records @ [r]) = rev (pid # seen_pids) \<and> distinct (pid # seen_pids)
    \<and> (\<forall>r'\<in>set (records @ [r]). set (tn_children r') \<subseteq> set (pid # seen_pids) \<union> set (rest @ tn_children r))"
    by auto
  with assms(1) obtain new where n: "tree = (records @ [r]) @ new" "distinct (tree_pids tree)"
    "set (rest @ tn_children r) \<subseteq> set (tree_pids tree)"
    "\<forall>r\<in>set tree. set (tn_children r) \<subseteq> set (tree_pids tree)"
    "\<forall>p\<in>set (tree_pids new). \<exists>q\<in>set (rest @ tn_children r). (q, p) \<in> (tree_edges new)\<^sup>*"
    unfolding captured_def by blast
  have "\<exists>q\<in>set (rest @ [pid]). (q, p) \<in> (tree_edges (r # new))\<^sup>*" if "p \<in> set (tree_pids (r # new))" for p
  proof (cases "p = pid")
    case False
    with that assms(2) n(5) obtain q where q: "q \<in> set (rest @ tn_children r)" "(q, p) \<in> (tree_edges new)\<^sup>*" by auto
    have sub: "(tree_edges new)\<^sup>* \<subseteq> (tree_edges (r # new))\<^sup>*" by (intro rtrancl_mono tree_edges_mono) auto
    show ?thesis
    proof (cases "q \<in> set rest")
      case True
      with q(2) sub show ?thesis by auto
    next
      case False
      with q(1) assms(2) have "(pid, q) \<in> tree_edges (r # new)" by (auto simp: tree_edges_def)
      with q(2) sub have "(pid, p) \<in> (tree_edges (r # new))\<^sup>*" by (meson converse_rtrancl_into_rtrancl subsetD)
      then show ?thesis by auto
    qed
  qed auto
  with n assms(2) show "\<exists>new. tree = records @ new \<and> distinct (tree_pids tree) \<and> set (rest @ [pid]) \<subseteq> set (tree_pids tree)
            \<and> (\<forall>r\<in>set tree. set (tn_children r) \<subseteq> set (tree_pids tree))
            \<and> (\<forall>p\<in>set (tree_pids new). \<exists>q\<in>set (rest @ [pid]). (q, p) \<in> (tree_edges new)\<^sup>*)"
    by (intro exI [of _ "r # new"]) auto
qed

lemma capture_loop_captured:
  assumes "capture_loop R pending seen_pids records s = Some res"
  shows "captured pending seen_pids records (fst res) \<and> quiet s (snd res)"
proof (rule capture_loop.raw_induct
    [where P = "\<lambda>R pending seen_pids records s res. captured pending seen_pids records (fst res) \<and> quiet s (snd res)",
     OF _ assms])
  fix loop R pending seen_pids records s res
  assume IH: "\<And>R pending seen_pids records s res. loop R pending seen_pids records s = Some res
      \<Longrightarrow> captured pending seen_pids records (fst res) \<and> quiet s (snd res)"
    and body: "(if pending = [] then Some (records, s)
      else let pid = last pending; rest = butlast pending
           in if pid \<in> set seen_pids then loop R rest seen_pids records s
              else let r = fst (capture_record R pid s); s' = snd (capture_record R pid s)
                   in loop R (rest @ tn_children r) (pid # seen_pids) (records @ [r]) s') = Some res"
  show "captured pending seen_pids records (fst res) \<and> quiet s (snd res)"
  proof (cases "pending = []")
    case True
    with body captured_done show ?thesis by auto
  next
    case False
    then have p: "pending = butlast pending @ [last pending]" by simp
    let ?pid = "last pending" and ?r = "fst (capture_record R (last pending) s)"
    show ?thesis
    proof (cases "?pid \<in> set seen_pids")
      case True
      with body False have "loop R (butlast pending) seen_pids records s = Some res" by simp
      from IH [OF this] captured_skip [OF _ True] p show ?thesis by metis
    next
      case new: False
      with body False have "loop R (butlast pending @ tn_children ?r) (?pid # seen_pids) (records @ [?r])
          (snd (capture_record R ?pid s)) = Some res" by (simp add: Let_def)
      note i = IH [OF this]
      have "captured (butlast pending @ [?pid]) seen_pids records (fst res)"
        using captured_add [OF conjunct1 [OF i] capture_record_effect(2) new] .
      with i p capture_record_effect(1) show ?thesis by (metis quiet_trans)
    qed
  qed
qed

lemma capture_loop_returns:
  assumes "finite S" and "\<And>t p cs. rd_children (R t) p = Inr cs \<Longrightarrow> set cs \<subseteq> S"
    and "set pending \<subseteq> S"
  shows "\<exists>res. capture_loop R pending seen_pids records s = Some res"
  using assms(3)
proof (induction "(card (S - set seen_pids), length pending)" arbitrary: pending seen_pids records s
    rule: wf_induct_rule [OF wf_lex_prod [OF wf_less_than wf_less_than]])
  case 1
  show ?case
  proof (cases "pending = []")
    case True
    then show ?thesis by (subst capture_loop.simps) simp
  next
    case False
    let ?pid = "last pending" and ?rest = "butlast pending" and ?r = "fst (capture_record R (last pending) s)"
    have l: "?pid \<in> S" "set ?rest \<subseteq> S" using 1(2) False by (auto dest: in_set_butlastD)
    show ?thesis
    proof (cases "?pid \<in> set seen_pids")
      case True
      have "\<exists>res. capture_loop R ?rest seen_pids records s = Some res"
        by (rule 1(1)) (use False l in simp_all)
      with True False show ?thesis by (subst capture_loop.simps) simp
    next
      case new: False
      have "set (tn_children ?r) \<subseteq> S"
        using capture_record_effect(3) [of R ?pid s] assms(2) by force
      moreover have "card (S - set (?pid # seen_pids)) < card (S - set seen_pids)"
        using l(1) new assms(1) by (intro psubset_card_mono) auto
      ultimately have "\<exists>res. capture_loop R (?rest @ tn_children ?r) (?pid # seen_pids) (records @ [?r])
          (snd (capture_record R ?pid s)) = Some res"
        using l(2) by (intro 1(1)) simp_all
      with new False show ?thesis by (subst capture_loop.simps) (simp add: Let_def)
    qed
  qed
qed


section \<open>Validation\<close>

lemma set_first_occurrences [simp]: "set (first_occurrences xs) = set xs"
  by (simp add: first_occurrences_def)

lemma first_occurrences_Nil [simp]: "first_occurrences xs = [] \<longleftrightarrow> xs = []"
  by (simp add: first_occurrences_def)

lemma by_pid_Some: "by_pid tree p = Some r \<Longrightarrow> r \<in> set tree \<and> tn_pid r = p"
  by (auto simp: by_pid_def find_Some_iff) (metis nth_mem rev_rev_ident set_rev length_rev)

lemma by_pid_None: "by_pid tree p = None \<longleftrightarrow> p \<notin> set (tree_pids tree)"
  by (auto simp: by_pid_def find_None_iff tree_pids_def)

definition sound_record :: "tree_record \<Rightarrow> bool" where
  "sound_record r \<longleftrightarrow> 0 < tn_pid r \<and> positive_opt (tn_pgid r) \<and> positive_opt (tn_ticks r)
     \<and> tn_identity r \<noteq> None \<and> tn_identity r \<noteq> Some [] \<and> tn_state r \<noteq> None \<and> \<not> tn_children_error r
     \<and> list_all (\<lambda>c. 0 < c) (tn_children r)"

lemma records_problems_Nil:
  "records_problems earlier tree = [] \<Longrightarrow> list_all sound_record tree \<and> distinct (tree_pids tree)
     \<and> set earlier \<inter> set (tree_pids tree) = {}"
proof (induction tree arbitrary: earlier)
  case (Cons r rs)
  from Cons.prems have 1: "sound_record r" "tn_pid r \<notin> set earlier" "records_problems (tn_pid r # earlier) rs = []"
    by (auto simp: record_problems_def sound_record_def split: if_split_asm)
  with Cons.IH [OF 1(3)] show ?case by auto
qed simp

lemma capture_complete:
  assumes "tree_capture_problems (Some root) rec tree = []"
  shows "list_all sound_record tree \<and> distinct (tree_pids tree)
    \<and> root \<in> set (tree_pids tree) \<and> (\<forall>r\<in>set tree. set (tn_children r) \<subseteq> set (tree_pids tree))"
proof -
  let ?valid = "filter (\<lambda>r. 0 < tn_pid r) tree"
  from assms have a: "tree \<noteq> []" "records_problems [] tree = []" "by_pid ?valid root \<noteq> None"
    "sort (remdups (filter (\<lambda>c. by_pid ?valid c = None) (referenced ?valid))) = []"
    by (auto simp: tree_capture_problems_def Let_def split: if_split_asm)
  note s = records_problems_Nil [OF a(2)]
  then have v: "?valid = tree" by (simp add: list_all_iff sound_record_def filter_id_conv)
  have one: "by_pid tree (tn_pid r) = Some r" if "r \<in> set tree" for r
  proof (cases "by_pid tree (tn_pid r)")
    case None
    with that show ?thesis by (simp add: by_pid_None tree_pids_def)
  next
    case (Some x)
    with by_pid_Some [OF Some] that s show ?thesis
      by (auto simp: tree_pids_def distinct_map inj_on_def)
  qed
  have "set (sort (remdups (filter (\<lambda>c. by_pid ?valid c = None) (referenced ?valid)))) = {}" using a(4) by simp
  then have m: "\<forall>c\<in>set (referenced tree). by_pid tree c \<noteq> None" by (auto simp: v filter_empty_conv)
  have "c \<in> set (tree_pids tree)" if "r \<in> set tree" "c \<in> set (tn_children r)" for r c
  proof -
    from that s have "0 < c" by (auto simp: list_all_iff sound_record_def)
    with that one have "c \<in> set (referenced tree)" by (auto simp: referenced_def)
    with m show ?thesis by (auto simp: by_pid_None)
  qed
  with s a(3) v show ?thesis by (auto simp: by_pid_None)
qed

lemma validate_cases:
  assumes "validate_restored_tree root rec tree = Inr (w, b)"
  shows "by_pid tree (rp_pid (rec_worker rec)) = Some w \<and> by_pid tree (rp_pid (rec_basis rec)) = Some b
    \<and> root = rp_pid (rec_worker rec) \<and> rp_pgid (rec_worker rec) = root
    \<and> tree_capture_problems (Some root) rec tree = []
    \<and> role_errors ''worker'' (rec_worker rec) tree = [] \<and> role_errors ''basis'' (rec_basis rec) tree = []
    \<and> unrecorded_groups rec tree = [] \<and> sort (map tn_pid (filter (\<lambda>r. \<not> stopped_state (tn_state r)) tree)) = []"
  using assms by (auto simp: validate_restored_tree_def Let_def split: option.split_asm if_split_asm)

lemma validated_tree:
  assumes "validate_restored_tree root rec tree = Inr (w, b)"
  shows "list_all (\<lambda>r. sound_record r \<and> stopped_state (tn_state r)
       \<and> tn_pgid r \<in> {Some (rp_pgid (rec_worker rec)), Some (rp_pgid (rec_basis rec))}
       \<and> set (tn_children r) \<subseteq> set (tree_pids tree)) tree"
proof -
  note v = validate_cases [OF assms]
  have c: "list_all sound_record tree" "\<forall>r\<in>set tree. set (tn_children r) \<subseteq> set (tree_pids tree)"
    using capture_complete v by blast+
  have "set (sort (map tn_pid (filter (\<lambda>r. \<not> stopped_state (tn_state r)) tree))) = {}" using v by simp
  then have st: "\<forall>r\<in>set tree. stopped_state (tn_state r)" by auto
  have "set (unrecorded_groups rec tree) = {}" using v by simp
  then have g: "\<forall>g\<in>set (List.map_filter tn_pgid tree). g \<in> {rp_pgid (rec_worker rec), rp_pgid (rec_basis rec)}"
    by (auto simp: unrecorded_groups_def)
  have "tn_pgid r \<in> {Some (rp_pgid (rec_worker rec)), Some (rp_pgid (rec_basis rec))}" if "r \<in> set tree" for r
  proof -
    from c(1) that obtain x where x: "tn_pgid r = Some x"
      by (auto simp: list_all_iff sound_record_def positive_opt_def split: option.split_asm)
    with that have "x \<in> set (List.map_filter tn_pgid tree)" by (force simp: map_filter_def)
    with g x show ?thesis by auto
  qed
  with c st show ?thesis by (simp add: list_all_iff)
qed


section \<open>Representatives\<close>

definition rep_inv :: "tree_record list \<Rightarrow> (int \<times> tree_record) list \<Rightarrow> bool" where
  "rep_inv tree reps \<longleftrightarrow> (\<forall>(g, r)\<in>set reps. r \<in> set tree \<and> tn_pgid r = Some g \<and> 0 < g)"

lemma add_representative_inv:
  "rep_inv tree reps \<Longrightarrow> r \<in> set tree \<Longrightarrow> rep_inv tree (add_representative r reps)"
  by (auto simp: rep_inv_def add_representative_def split: option.splits if_splits)

lemma add_representative_keys:
  "fst ` set reps \<subseteq> fst ` set (add_representative r reps)"
  "tn_pgid r = Some g \<Longrightarrow> 0 < g \<Longrightarrow> g \<in> fst ` set (add_representative r reps)"
  by (force simp: add_representative_def image_iff split: option.splits dest: map_of_SomeD)+

lemma fold_representatives:
  assumes "rep_inv tree reps" and "set rs \<subseteq> set tree"
  shows "rep_inv tree (fold add_representative rs reps)
    \<and> fst ` set reps \<subseteq> fst ` set (fold add_representative rs reps)
    \<and> (\<forall>r g. r \<in> set rs \<longrightarrow> tn_pgid r = Some g \<longrightarrow> 0 < g \<longrightarrow> g \<in> fst ` set (fold add_representative rs reps))"
  using assms
proof (induction rs arbitrary: reps)
  case (Cons x xs)
  let ?reps = "add_representative x reps" and ?F = "fold add_representative xs (add_representative x reps)"
  have "rep_inv tree ?reps" and "set xs \<subseteq> set tree" using Cons.prems by (simp_all add: add_representative_inv)
  from Cons.IH [OF this] have f: "rep_inv tree ?F" "fst ` set ?reps \<subseteq> fst ` set ?F"
    "\<And>r g. r \<in> set xs \<Longrightarrow> tn_pgid r = Some g \<Longrightarrow> 0 < g \<Longrightarrow> g \<in> fst ` set ?F"
    by blast+
  have "g \<in> fst ` set ?F" if "r \<in> set (x # xs)" "tn_pgid r = Some g" "0 < g" for r g
  proof (cases "r \<in> set xs")
    case True
    with f(3) that show ?thesis by blast
  next
    case False
    with that have "g \<in> fst ` set ?reps" using add_representative_keys(2) by simp
    with f(2) show ?thesis by blast
  qed
  moreover have "fst ` set reps \<subseteq> fst ` set ?F" using add_representative_keys(1) f(2) by (rule subset_trans)
  ultimately show ?case using f(1) by (simp del: set_simps)
qed auto

lemma representatives_sound: "(g, r) \<in> set (representatives tree) \<Longrightarrow> r \<in> set tree \<and> tn_pgid r = Some g \<and> 0 < g"
  using fold_representatives [of tree "[]" tree] by (auto simp: representatives_def rep_inv_def)

lemma representatives_complete:
  "r \<in> set tree \<Longrightarrow> tn_pgid r = Some g \<Longrightarrow> 0 < g \<Longrightarrow> g \<in> fst ` set (representatives tree)"
  using fold_representatives [of tree "[]" tree] by (auto simp: representatives_def rep_inv_def)

lemma set_ordered [simp]: "set (ordered_representatives root tree) = set (representatives tree)"
  by (auto simp: ordered_representatives_def Let_def)

section \<open>Termination of the tree\<close>

definition tree_evidence :: "tree_record \<Rightarrow> snapshot \<Rightarrow> bool" where
  "tree_evidence r n \<longleftrightarrow> 0 < tn_pid r \<and>
     (case tn_identity r of
        Some e \<Rightarrow> sn_identity n (tn_pid r) = Some e
      | None \<Rightarrow> sn_ticks n (tn_pid r) \<noteq> None \<and> sn_ticks n (tn_pid r) = tn_ticks r)"

lemma restored_evidence:
  assumes "group_evidence (restored_request r) (Some g) n"
  shows "tree_evidence r n"
  using assms
  by (auto simp: tree_evidence_def evidence_def restored_request_def identity_at_def ticks_at_def pid_int_def
      split: option.splits if_split_asm)

lemma positive_unique_mem: "v \<in> set (positive_unique xs) \<longleftrightarrow> Some v \<in> set xs \<and> 0 < v"
  by (force simp: positive_unique_def map_filter_def pid_int_def split: option.splits if_splits)

lemma tree_stop_events:
  assumes "justified_run H (\<lambda>x. group_evidence (fst x) (snd x)) (\<lambda>x. pid_int (snd x))
      (map (\<lambda>(g, r). (restored_request r, Some g)) (ordered_representatives root tree)) s s'"
  shows "\<exists>new. rs_signals s' = rs_signals s @ new
    \<and> list_all (\<lambda>(t, g, sig). sig \<in> {SIGTERM, SIGKILL} \<and> (\<exists>x\<in>set tree. tn_pgid x = Some g
         \<and> (\<exists>e. rs_time s \<le> e \<and> e < t \<and> tree_evidence x (H e)))) new"
proof -
  let ?xs = "map (\<lambda>(g, r). (restored_request r, Some g)) (ordered_representatives root tree)"
  let ?P = "\<lambda>(t, g, sig). sig \<in> {SIGTERM, SIGKILL} \<and> (\<exists>x\<in>set tree. tn_pgid x = Some g
         \<and> (\<exists>e. rs_time s \<le> e \<and> e < t \<and> tree_evidence x (H e)))"
  from assms obtain new where n: "rs_signals s' = rs_signals s @ new"
    "\<forall>ev\<in>set new. justified H (\<lambda>x. group_evidence (fst x) (snd x)) (\<lambda>x. pid_int (snd x)) ?xs (rs_time s) ev"
    unfolding justified_run_def by blast
  have "?P (t, g, sig)" if e: "(t, g, sig) \<in> set new" for t g sig
  proof -
    from n(2) e obtain h r e where x: "(h, r) \<in> set (representatives tree)" "pid_int (Some h) = Some g"
      "sig \<in> {SIGTERM, SIGKILL}" "rs_time s \<le> e" "e < t" "group_evidence (restored_request r) (Some h) (H e)"
      by (fastforce simp: justified_def)
    from x(2) have "h = g" by (auto simp: pid_int_def split: if_split_asm)
    with x restored_evidence [OF x(6)] representatives_sound [OF x(1)] show ?thesis by auto
  qed
  with n(1) show ?thesis by (auto simp: list_all_iff)
qed

text \<open>C38: the termination of a restored tree stays inside the tree.  Every signal is \<open>SIGTERM\<close> or
  \<open>SIGKILL\<close> to the process group of a captured record, sent after the birth identity of that record (or, where it
  has none, its start ticks) was read again; and a verified result means that after the last signal every captured
  process and every captured process group was observed to be gone.\<close>

theorem restored_tree_termination_is_contained:
  assumes "terminate_restored_tree H root tree s = Some (r, s')"
  shows "(\<exists>new. rs_signals s' = rs_signals s @ new
       \<and> list_all (\<lambda>(t, g, sig). sig \<in> {SIGTERM, SIGKILL} \<and> (\<exists>x\<in>set tree. tn_pgid x = Some g
            \<and> (\<exists>e. rs_time s \<le> e \<and> e < t \<and> tree_evidence x (H e)))) new)
    \<and> (st_verified r \<longrightarrow> (\<exists>s1. later s s1 \<and> quiet s1 s'
         \<and> (\<forall>x\<in>set tree. (0 < tn_pid x \<longrightarrow> seen H s1 s' (\<lambda>n. \<not> sn_alive n (tn_pid x)))
              \<and> (\<forall>g. tn_pgid x = Some g \<longrightarrow> 0 < g \<longrightarrow> seen H s1 s' (\<lambda>n. \<not> sn_group n g)))))"
proof -
  let ?xs = "map (\<lambda>(g, r). (restored_request r, Some g)) (ordered_representatives root tree)"
  from assms obtain ts s1 final where 1: "stop_each (\<lambda>x. terminate_process_group H (fst x) (snd x)) ?xs s = Some (ts, s1)"
    and 2: "wait_for_quiescence H (map (\<lambda>r. Some (tn_pid r)) tree) (map (\<lambda>(g, r). Some g) (representatives tree)) 1000 s1
      = Some (final, s')" and r: "st_verified r = wr_quiescent final"
    by (auto simp: terminate_restored_tree_def split: bind_split_asm)
  note j = groups.stop_each_justified [OF 1]
  note w = wait_for_quiescence_waited [OF 2]
  have q: "quiet s1 s'" using w by (simp add: waited_def)
  have "(0 < tn_pid x \<longrightarrow> seen H s1 s' (\<lambda>n. \<not> sn_alive n (tn_pid x)))
      \<and> (\<forall>g. tn_pgid x = Some g \<longrightarrow> 0 < g \<longrightarrow> seen H s1 s' (\<lambda>n. \<not> sn_group n g))"
    if v: "st_verified r" and x: "x \<in> set tree" for x
  proof -
    have "seen H s1 s' (\<lambda>n. \<not> sn_alive n (tn_pid x))" if "0 < tn_pid x"
      using w v r x that by (auto simp: waited_def positive_unique_mem)
    moreover have "seen H s1 s' (\<lambda>n. \<not> sn_group n g)" if g: "tn_pgid x = Some g" "0 < g" for g
    proof -
      have "g \<in> set (positive_unique (map (\<lambda>(g, r). Some g) (representatives tree)))"
        using representatives_complete [OF x g] g(2) by (force simp: positive_unique_mem)
      with w v r show ?thesis by (simp add: waited_def)
    qed
    ultimately show ?thesis by blast
  qed
  moreover have "rs_signals s' = rs_signals s1" using q by (simp add: quiet_def)
  ultimately show ?thesis using tree_stop_events [OF j] q justified_run_later [OF j] by auto
qed

section \<open>Properties of capture and validation\<close>

text \<open>C35: a captured tree is exactly what is reachable.  If the children read at any time lie in a finite set of
  process ids, the capture ends; it sends no signal, every process is recorded once, and the recorded processes are
  exactly those reachable from the root through the recorded children.\<close>

theorem captured_tree_is_reachable_set:
  assumes "finite S" and "root \<in> S" and "\<And>t p cs. rd_children (R t) p = Inr cs \<Longrightarrow> set cs \<subseteq> S"
  shows "\<exists>tree s'. capture_authoritative_tree R root s = Some (tree, s') \<and> quiet s s' \<and> distinct (tree_pids tree)
    \<and> set (tree_pids tree) = {p. (root, p) \<in> (tree_edges tree)\<^sup>*}"
proof -
  obtain tree s' where c: "capture_loop R [root] [] [] s = Some (tree, s')"
    using capture_loop_returns [of S R "[root]" "[]" "[]" s] assms by auto
  from capture_loop_captured [OF c] have t: "distinct (tree_pids tree)" "root \<in> set (tree_pids tree)" "quiet s s'"
    "\<forall>r\<in>set tree. set (tn_children r) \<subseteq> set (tree_pids tree)"
    "\<forall>p\<in>set (tree_pids tree). (root, p) \<in> (tree_edges tree)\<^sup>*"
    by (auto simp: captured_def)
  have "p \<in> set (tree_pids tree)" if "(root, p) \<in> (tree_edges tree)\<^sup>*" for p
    using that by induction (use t in \<open>auto simp: tree_edges_def\<close>)
  with t c show ?thesis by (auto simp: capture_authoritative_tree_def)
qed

text \<open>C36: a validated tree is owned throughout.  When the validation returns the worker and the basis, the root is
  the recorded worker and leads the recorded worker group; both roles are the records of their recorded pids with their
  recorded groups; and every process of the tree is recorded once, is stopped, has a birth identity and start ticks,
  belongs to one of the two recorded groups, and has all its children in the tree.\<close>

theorem validated_tree_is_owned:
  assumes "validate_restored_tree root rec tree = Inr (w, b)"
  shows "root = rp_pid (rec_worker rec) \<and> rp_pgid (rec_worker rec) = root
    \<and> w \<in> set tree \<and> tn_pid w = root \<and> tn_pgid w = Some root
    \<and> b \<in> set tree \<and> tn_pid b = rp_pid (rec_basis rec) \<and> tn_pgid b = Some (rp_pgid (rec_basis rec))
    \<and> distinct (tree_pids tree)
    \<and> list_all (\<lambda>r. stopped_state (tn_state r) \<and> tn_identity r \<noteq> None \<and> tn_identity r \<noteq> Some []
         \<and> positive_opt (tn_ticks r)
         \<and> tn_pgid r \<in> {Some (rp_pgid (rec_worker rec)), Some (rp_pgid (rec_basis rec))}
         \<and> set (tn_children r) \<subseteq> set (tree_pids tree)) tree"
proof -
  note v = validate_cases [OF assms] and t = validated_tree [OF assms]
  have g: "tn_pgid w = Some (rp_pgid (rec_worker rec))" "tn_pgid b = Some (rp_pgid (rec_basis rec))"
    using v by (auto simp: role_errors_def split: if_split_asm)
  have "distinct (tree_pids tree)" using capture_complete v by blast
  with v g t by_pid_Some [of tree] show ?thesis by (fastforce simp: list_all_iff sound_record_def)
qed


section \<open>Resumption\<close>

text \<open>One group continued: the identity and then the group of its process were read again before.\<close>

definition continued :: "reads \<Rightarrow> tree_record \<Rightarrow> int \<Rightarrow> run_state \<Rightarrow> run_state \<Rightarrow> bool" where
  "continued R x g s s' \<longleftrightarrow> later s s' \<and> tn_identity x \<noteq> None \<and> (\<exists>t e1 e2. rs_time s \<le> e1 \<and> e1 < e2 \<and> e2 < t
     \<and> rd_identity (R e1) (tn_pid x) = tn_identity x \<and> rd_getpgid (R e2) (tn_pid x) = Some g
     \<and> rs_signals s' = rs_signals s @ [(t, g, SIGCONT)])"

definition running_seen :: "reads \<Rightarrow> tree_record \<Rightarrow> run_state \<Rightarrow> run_state \<Rightarrow> bool" where
  "running_seen R x s s' \<longleftrightarrow> (\<exists>t. rs_time s \<le> t \<and> t < rs_time s' \<and> rd_state (R t) (tn_pid x) \<noteq> None
     \<and> \<not> stopped_state (rd_state (R t) (tn_pid x)) \<and> \<not> ended_state (rd_state (R t) (tn_pid x)))"

lemma running_seen_mono:
  "running_seen R x s s' \<Longrightarrow> rs_time r \<le> rs_time s \<Longrightarrow> rs_time s' \<le> rs_time r' \<Longrightarrow> running_seen R x r r'"
  by (auto simp: running_seen_def intro: le_less_trans order.trans less_le_trans)

lemma signal_continue:
  assumes "signal_process_group H (Some g) SIGCONT s = (Inr True, s')"
  shows "later s s' \<and> (\<exists>t. rs_time s \<le> t \<and> rs_signals s' = rs_signals s @ [(t, g, SIGCONT)])"
proof -
  have g: "0 < g" using assms by (auto simp: signal_process_group_def pid_int_def split: if_split_asm)
  from signal_accepted [OF g assms] signal_sends [OF g assms] show ?thesis
    using sends_later by blast
qed

lemma resume_role_continued:
  assumes "resume_role H R role x s = (Inr g, s')"
  shows "tn_pgid x = Some g \<and> continued R x g s s'"
proof -
  from assms obtain e where x: "tn_pgid x = Some g" "tn_identity x = Some e"
    "rd_identity (R (rs_time s)) (tn_pid x) = Some e" "rd_getpgid (R (Suc (rs_time s))) (tn_pid x) = Some g"
    "signal_process_group H (Some g) SIGCONT (tick (tick s)) = (Inr True, s')"
    by (auto simp: resume_role_def identity_matches_def look_def tick_def Let_def
        split: option.split_asm if_split_asm prod.split_asm sum.split_asm bool.split_asm)
  from signal_continue [OF x(5)] obtain t where t: "later (tick (tick s)) s'" "Suc (Suc (rs_time s)) \<le> t"
    "rs_signals s' = rs_signals s @ [(t, g, SIGCONT)]" by (auto simp: tick_def)
  have l: "later s s'" using t(1) later_tick later_trans by blast
  have "rs_time s \<le> rs_time s \<and> rs_time s < Suc (rs_time s) \<and> Suc (rs_time s) < t
     \<and> rd_identity (R (rs_time s)) (tn_pid x) = tn_identity x \<and> rd_getpgid (R (Suc (rs_time s))) (tn_pid x) = Some g
     \<and> rs_signals s' = rs_signals s @ [(t, g, SIGCONT)]" using x t by simp
  with x(1,2) l show ?thesis unfolding continued_def by blast
qed

lemma resumed_state_running:
  assumes "resumed_state R x s = (st, s')"
  shows "quiet s s' \<and> (st = Role_running \<longrightarrow> running_seen R x s s')"
proof -
  let ?st = "rd_state (R (rs_time s)) (tn_pid x)"
  obtain b s1 where i: "identity_matches R x (tick s) = (b, s1)" by (rule prod.exhaust)
  then have q: "quiet (tick s) s1" by (auto simp: identity_matches_def look_def split: option.split_asm)
  have "s' = tick s \<or> s' = s1" and "st = Role_running \<Longrightarrow> s' = s1 \<and> ?st \<noteq> None \<and> \<not> stopped_state ?st \<and> \<not> ended_state ?st"
    using assms i by (auto simp: resumed_state_def look_def split: if_split_asm)
  moreover have "quiet s s1" using q quiet_tick quiet_trans by blast
  moreover have "rs_time s < rs_time s1" using q by (simp add: quiet_def tick_def)
  ultimately show ?thesis unfolding running_seen_def by auto
qed

definition roles_resumed :: "reads \<Rightarrow> tree_record \<Rightarrow> tree_record \<Rightarrow> run_state \<Rightarrow> string + unit \<Rightarrow> run_state \<Rightarrow> bool" where
  "roles_resumed R w b s r s' \<longleftrightarrow> quiet s s' \<and> (r = Inr () \<longrightarrow> running_seen R w s s' \<and> running_seen R b s s')"

lemma roles_resumed_later: "quiet s s1 \<Longrightarrow> roles_resumed R w b s1 r s' \<Longrightarrow> roles_resumed R w b s r s'"
  by (auto simp: roles_resumed_def quiet_def elim!: running_seen_mono)

lemma resume_turn_resumed:
  assumes "resume_turn H R w b deadline s = (d, s')"
  shows "case d of Some r \<Rightarrow> roles_resumed R w b s r s' | None \<Rightarrow> quiet s s'"
proof -
  obtain x s1 where 1: "resumed_state R w s = (x, s1)" by (rule prod.exhaust)
  obtain y s2 where 2: "resumed_state R b s1 = (y, s2)" by (rule prod.exhaust)
  note r1 = resumed_state_running [OF 1] and r2 = resumed_state_running [OF 2]
  have t: "quiet s s2" "rs_time s \<le> rs_time s1" "rs_time s1 \<le> rs_time s2"
    using r1 r2 quiet_trans by (auto simp: quiet_def)
  have run: "x = Role_running \<Longrightarrow> running_seen R w s s2" "y = Role_running \<Longrightarrow> running_seen R b s s2"
    using r1 r2 t by (auto elim: running_seen_mono)
  from assms 1 2 t(1) run show ?thesis
    by (auto simp: resume_turn_def roles_resumed_def observe_def quiet_def tick_def split: if_split_asm)
qed

lemma poll_resumed:
  assumes "poll (resume_turn H R w b deadline) s = Some (r, s')"
  shows "roles_resumed R w b s r s'"
proof (rule poll_rule [where P = "roles_resumed R w b", OF assms])
  fix s r s' assume "resume_turn H R w b deadline s = (Some r, s')"
  then show "roles_resumed R w b s r s'" using resume_turn_resumed by fastforce
next
  fix s s1 r s' assume t: "resume_turn H R w b deadline s = (None, s1)" and "roles_resumed R w b (tick s1) r s'"
  moreover have "quiet s (tick s1)" using resume_turn_resumed [OF t] quiet_trans quiet_tick by auto
  ultimately show "roles_resumed R w b s r s'" using roles_resumed_later by blast
qed

text \<open>C37: only a validated tree is continued, and it runs.  When the validation of a captured tree and
  then its resumption succeed, the run has sent exactly two signals: \<open>SIGCONT\<close> to the recorded basis group and then to
  the recorded worker group, each after the identity and the group of its leader were read again and were as recorded;
  afterwards both processes were observed neither stopped nor ended.\<close>

theorem only_validated_groups_are_continued:
  assumes "validate_restored_tree root rec tree = Inr (w, b)"
    and "resume_restored_processes H R w b s = Some (Inr groups, s')"
  shows "groups = [rp_pgid (rec_basis rec), rp_pgid (rec_worker rec)]
    \<and> (\<exists>s1 s2. continued R b (rp_pgid (rec_basis rec)) s s1 \<and> continued R w (rp_pgid (rec_worker rec)) s1 s2
         \<and> quiet s2 s' \<and> running_seen R w s2 s' \<and> running_seen R b s2 s')"
proof -
  from assms(2) obtain g s1 g' s2 where 1: "resume_role H R ''basis'' b s = (Inr g, s1)"
    and 2: "resume_role H R ''worker'' w s1 = (Inr g', s2)"
    and 3: "poll (resume_turn H R w b (sn_now (H (rs_time s2)) + 500)) (tick s2) = Some (Inr (), s')"
    and gs: "groups = [g, g']"
    by (auto simp: resume_restored_processes_def observe_def Let_def
        split: prod.split_asm sum.split_asm bind_split_asm)
  note c1 = resume_role_continued [OF 1] and c2 = resume_role_continued [OF 2]
  have v: "tn_pgid w = Some (rp_pgid (rec_worker rec))" "tn_pgid b = Some (rp_pgid (rec_basis rec))"
    using validate_cases [OF assms(1)] by (auto simp: role_errors_def split: if_split_asm)
  have "roles_resumed R w b s2 (Inr ()) s'" using poll_resumed [OF 3] roles_resumed_later quiet_tick by blast
  then have "quiet s2 s'" "running_seen R w s2 s'" "running_seen R b s2 s'" by (simp_all add: roles_resumed_def)
  moreover have "g = rp_pgid (rec_basis rec)" "g' = rp_pgid (rec_worker rec)" using c1 c2 v by simp_all
  ultimately show ?thesis using c1 c2 gs by blast
qed

section \<open>A restored pool\<close>

text \<open>Worker 42 with its child, the basis 43; both are stopped until they are continued.\<close>

definition pool_reads :: reads where
  "pool_reads t = \<lparr>rd_state = (\<lambda>p. Some (if t < 10 then ''T'' else ''S'')),
     rd_children = (\<lambda>p. if p = 42 then Inr [43] else Inr []), rd_ticks = (\<lambda>p. Some (p + 1)),
     rd_identity = (\<lambda>p. Some ''linux-proc:7''), rd_getpgid = (\<lambda>p. Some p)\<rparr>"

definition pool_history :: history where
  "pool_history t = \<lparr>sn_group = (\<lambda>g. t < 24), sn_identity = (\<lambda>p. Some ''linux-proc:7''),
     sn_ticks = (\<lambda>p. Some (p + 1)), sn_alive = (\<lambda>p. t < 24), sn_getpgid = (\<lambda>p. Some p),
     sn_kill = (\<lambda>g sig. K_sent), sn_now = int t * 100, sn_own_group = 9, sn_marker = False, sn_write_error = None\<rparr>"

definition two_recorded :: recorded_pool where
  "two_recorded = \<lparr>rec_worker = \<lparr>rp_pid = 42, rp_pgid = 42\<rparr>, rec_basis = \<lparr>rp_pid = 43, rp_pgid = 43\<rparr>\<rparr>"

definition worker_record :: tree_record where
  "worker_record = \<lparr>tn_pid = 42, tn_pgid = Some 42, tn_ticks = Some 43, tn_identity = Some ''linux-proc:7'',
     tn_state = Some ''T'', tn_children = [43], tn_children_error = False\<rparr>"

definition basis_record :: tree_record where
  "basis_record = \<lparr>tn_pid = 43, tn_pgid = Some 43, tn_ticks = Some 44, tn_identity = Some ''linux-proc:7'',
     tn_state = Some ''T'', tn_children = [], tn_children_error = False\<rparr>"

lemma captured_tree_is_reachable_set_witness:
  "\<exists>tree s'. capture_authoritative_tree pool_reads 42 start_run = Some (tree, s') \<and> distinct (tree_pids tree)"
proof -
  have "\<exists>tree s'. capture_authoritative_tree pool_reads 42 start_run = Some (tree, s') \<and> quiet start_run s'
      \<and> distinct (tree_pids tree) \<and> set (tree_pids tree) = {p. (42, p) \<in> (tree_edges tree)\<^sup>*}"
    by (rule captured_tree_is_reachable_set [of "{42, 43}"]) (auto simp: pool_reads_def split: if_split_asm)
  then show ?thesis by blast
qed

lemma validated_pool: "validate_restored_tree 42 two_recorded [worker_record, basis_record] = Inr (worker_record, basis_record)"
  by code_simp

lemma validated_tree_is_owned_witness:
  "tn_pgid worker_record = Some 42 \<and> distinct (tree_pids [worker_record, basis_record])"
  using validated_tree_is_owned [OF validated_pool] by simp

lemma resumed_pool: "map_option (\<lambda>(r, s). (r, map snd (rs_signals s)))
    (resume_restored_processes pool_history pool_reads worker_record basis_record start_run)
      = Some (Inr [43, 42], [(43, SIGCONT), (42, SIGCONT)])"
  by code_simp

lemma only_validated_groups_are_continued_witness:
  "\<exists>s' s1 s2. resume_restored_processes pool_history pool_reads worker_record basis_record start_run = Some (Inr [43, 42], s')
     \<and> continued pool_reads basis_record 43 start_run s1 \<and> continued pool_reads worker_record 42 s1 s2"
proof -
  from resumed_pool obtain s' where r:
    "resume_restored_processes pool_history pool_reads worker_record basis_record start_run = Some (Inr [43, 42], s')"
    by auto
  from only_validated_groups_are_continued [OF validated_pool r] r show ?thesis by (auto simp: two_recorded_def)
qed

lemma stopped_pool: "map_option (\<lambda>(r, s). (st_verified r, map snd (rs_signals s)))
    (terminate_restored_tree pool_history (Some 42) [worker_record, basis_record] start_run)
      = Some (True, [(43, SIGTERM), (43, SIGKILL), (42, SIGTERM)])"
  by code_simp

lemma restored_tree_termination_is_contained_witness:
  "\<exists>r s'. terminate_restored_tree pool_history (Some 42) [worker_record, basis_record] start_run = Some (r, s')
     \<and> (\<exists>s1. later start_run s1 \<and> seen pool_history s1 s' (\<lambda>n. \<not> sn_group n 42))"
proof -
  from stopped_pool obtain r s' where r: "st_verified r"
    "terminate_restored_tree pool_history (Some 42) [worker_record, basis_record] start_run = Some (r, s')"
    by auto
  from restored_tree_termination_is_contained [OF r(2)] r show ?thesis
    by (auto simp: worker_record_def)
qed

end
