(* ===== verification/Shelf_Admission.thy ===== *)
theory Shelf_Admission
  imports Decimal Theorem_Scan "HOL-Library.AList" "HOL-Library.List_Lexorder"
begin

text \<open>
  Admission to one CRIU profile shelf (\<open>criu_shelf_admission.py\<close>, with the demand and owner records of
  \<open>criu_shelf_demand.py\<close> and \<open>criu_shelf_owner.py\<close>).

  A logical slot is a group of advisory lock files.  Every participant is a process of its own; the lock table, the
  demand files and the owner files are what they share.  \<open>client_step\<close> is one system call of one participant
  with the control flow up to the next one, so that participants interleave between any two calls; an event says what
  the outside does at this point: nothing, a keyboard interrupt, an exception of the call or of the body of the
  \<open>with\<close> statement, the number of live demand records read, or the death of the process.  Paths are those of
  \<open>pathlib\<close> below a normalized profile root.
\<close>

section \<open>Paths and lock groups\<close>

datatype admission_error =
    Nonpositive_Capacity
  | Nonpositive_Expansion
  | Empty_Attempt_Id
  | ShelfAdmissionInterrupted
  | ShelfAdmissionUnavailable
  | KeyboardInterrupt
  | Other_Error

definition legacy_lock :: "ucs \<Rightarrow> ucs" where
  "legacy_lock root = root @ asc ''/admission.lock''"

definition slot_lock :: "ucs \<Rightarrow> nat \<Rightarrow> ucs" where
  "slot_lock root slot = root @ asc ''/admission-'' @ decimal slot @ asc ''.lock''"

definition shelf_admission_paths :: "ucs \<Rightarrow> int \<Rightarrow> admission_error + ucs list" where
  "shelf_admission_paths root capacity =
     (if capacity \<le> 0 then Inl Nonpositive_Capacity
      else Inr (map (slot_lock root) [1..<nat capacity + 1]))"

definition shelf_admission_lock_groups :: "ucs \<Rightarrow> int \<Rightarrow> admission_error + ucs list list" where
  "shelf_admission_lock_groups root capacity =
     bindE (shelf_admission_paths root capacity) (\<lambda>canonical.
       Inr ([legacy_lock root, hd canonical] # map (\<lambda>p. [p]) (tl canonical)))"

definition shelf_demand_path :: "scanenv \<Rightarrow> ucs \<Rightarrow> ucs \<Rightarrow> admission_error + ucs" where
  "shelf_demand_path E root attempt_id =
     (let safe = filter (\<lambda>c. py_isalnum E c \<or> c = 45 \<or> c = ch_underscore) attempt_id
      in if safe = [] then Inl Empty_Attempt_Id
         else Inr (root @ asc ''/admission-demands/'' @ safe @ asc ''.json''))"

definition shelf_owner_path :: "ucs \<Rightarrow> nat \<Rightarrow> ucs" where
  "shelf_owner_path root slot =
     (if slot \<le> 1 then root @ asc ''/admission-owner.json''
      else root @ asc ''/admission-owner-'' @ decimal slot @ asc ''.json'')"

section \<open>Advisory locks\<close>

text \<open>
  \<open>flock\<close> with \<open>LOCK_EX | LOCK_NB\<close> on a file opened by process \<open>i\<close>: \<open>None\<close> is
  \<open>BlockingIOError\<close>.  Every participant opens a path at most once, so that the owner of a lock is a process.
\<close>

type_synonym lock_table = "ucs \<Rightarrow> nat option"

definition flock_ex :: "nat \<Rightarrow> ucs \<Rightarrow> lock_table \<Rightarrow> lock_table option" where
  "flock_ex i p L = (case L p of None \<Rightarrow> Some (L(p \<mapsto> i)) | Some j \<Rightarrow> if j = i then Some L else None)"

definition flock_un :: "nat \<Rightarrow> ucs \<Rightarrow> lock_table \<Rightarrow> lock_table" where
  "flock_un i p L = (if L p = Some i then L(p := None) else L)"

text \<open>\<open>_try_lock_group\<close> run without interruption; \<open>acquired\<close> has the latest lock first.\<close>

fun lock_each :: "nat \<Rightarrow> ucs list \<Rightarrow> ucs list \<Rightarrow> lock_table \<Rightarrow> bool \<times> lock_table" where
  "lock_each i [] acquired L = (True, L)"
| "lock_each i (p # locks) acquired L =
     (case flock_ex i p L of
        None \<Rightarrow> (False, fold (flock_un i) acquired L)
      | Some L' \<Rightarrow> lock_each i locks (p # acquired) L')"

definition try_lock_group :: "nat \<Rightarrow> ucs list \<Rightarrow> lock_table \<Rightarrow> bool \<times> lock_table" where
  "try_lock_group i locks L = lock_each i locks [] L"

section \<open>Participants\<close>

text \<open>
  \<open>Cleanup_Raised\<close> is an exception out of the clearing of the owner record, in place of the body's, \<open>Unprotected\<close> one
  raised in front of a \<open>try\<close> statement, where no handler clears up, and \<open>Abandoned\<close> one out of the last \<open>finally\<close>
  block itself.
\<close>

datatype shelf_outcome = Returned | Raised admission_error | Cleanup_Raised admission_error | Unprotected admission_error
  | Abandoned admission_error

text \<open>
  The points between two system calls.  \<open>Demanding\<close>, \<open>Sized\<close> and \<open>Opened\<close> are the points in front of the
  three \<open>try\<close> statements of \<open>criu_shelf_admission\<close>.  \<open>Probing slot rest acquired\<close> is inside \<open>_try_lock_group\<close>,
  \<open>Undoing\<close> in its \<open>finally\<close>, with the next slot or the exception to raise; \<open>Locked\<close> holds a
  group, \<open>Admitted\<close> runs the body; \<open>Listing\<close>, \<open>Clearing\<close> and \<open>Unlinking\<close> are
  \<open>clear_shelf_owner\<close>; \<open>Closing\<close> closes the files, of which those named are still locked,
  and then clears the demand record; \<open>Releasing\<close> is the \<open>finally\<close> of an exclusive closure.  \<open>Dropped\<close> is the
  participant after an exception out of these blocks: the files that they did not close are closed, and so unlocked, when
  the frame of the generator is collected.
\<close>

datatype shelf_phase =
    Entered
  | Demanding
  | Demanded
  | Sized
  | Opening
  | Opened
  | Probing nat "ucs list" "ucs list"
  | Undoing "ucs list" "shelf_outcome + nat"
  | Contended
  | Locked "ucs list"
  | Admitted "ucs list"
  | Listing "ucs list" shelf_outcome
  | Clearing "ucs list" "ucs list" shelf_outcome
  | Unlinking ucs "ucs list" "ucs list" shelf_outcome
  | Retiring "ucs list" "ucs list"
  | Retired bool "ucs list"
  | Unlocking "ucs list" shelf_outcome
  | Releasing "ucs list" shelf_outcome
  | Closing "ucs list" shelf_outcome
  | Dropped "ucs list" shelf_outcome
  | Left shelf_outcome
  | Killed

record shelf_client =
  sc_id :: nat
  sc_capacity :: int
  sc_owner :: "ucs option"
  sc_wait :: bool
  sc_expander :: "(int \<Rightarrow> int) option"
  sc_contended :: bool
  sc_slot :: nat
  sc_phase :: shelf_phase

record shelf_shared =
  sh_locks :: lock_table
  sh_demands :: "(ucs \<times> ucs) list"
  sh_owners :: "(ucs \<times> ucs) list"

datatype shelf_event = Go | Interrupt | Fail | Counted nat | Kill

abbreviation at :: "shelf_client \<Rightarrow> shelf_phase \<Rightarrow> shelf_client" where
  "at c ph \<equiv> c\<lparr>sc_phase := ph\<rparr>"

definition lock_groups :: "ucs \<Rightarrow> shelf_client \<Rightarrow> ucs list list" where
  "lock_groups root c = (case shelf_admission_lock_groups root (sc_capacity c) of Inr gs \<Rightarrow> gs | Inl _ \<Rightarrow> [])"

text \<open>The head of the \<open>for\<close> loop over the lock groups.\<close>

definition probe_from :: "ucs \<Rightarrow> nat \<Rightarrow> shelf_client \<Rightarrow> shelf_phase" where
  "probe_from root slot c =
     (if slot \<le> length (lock_groups root c) then Probing slot (lock_groups root c ! (slot - 1)) [] else Contended)"

text \<open>The exception that an event raises inside the waiting loop, and elsewhere.\<close>

definition loop_error :: "shelf_event \<Rightarrow> admission_error" where
  "loop_error ev = (if ev = Interrupt then ShelfAdmissionInterrupted else Other_Error)"

definition call_error :: "shelf_event \<Rightarrow> admission_error" where
  "call_error ev = (if ev = Interrupt then KeyboardInterrupt else Other_Error)"

section \<open>Entering\<close>

text \<open>In front of a \<open>try\<close> statement an exception leaves the demand record.\<close>

definition between_step :: "shelf_event \<Rightarrow> shelf_phase \<Rightarrow> shelf_shared \<Rightarrow> shelf_client
    \<Rightarrow> (shelf_shared \<times> shelf_client) option" where
  "between_step ev ph sh c =
     (case ev of
        Go \<Rightarrow> Some (sh, at c ph)
      | Counted n \<Rightarrow> None
      | _ \<Rightarrow> Some (sh, at c (Left (Unprotected (call_error ev)))))"

definition enter_step :: "scanenv \<Rightarrow> ucs \<Rightarrow> shelf_event \<Rightarrow> shelf_shared \<Rightarrow> shelf_client
    \<Rightarrow> (shelf_shared \<times> shelf_client) option" where
  "enter_step E root ev sh c =
     (case sc_phase c of
        Entered \<Rightarrow>
          (case ev of
             Go \<Rightarrow>
               if sc_capacity c \<le> 0 then Some (sh, at c (Left (Raised Nonpositive_Capacity)))
               else (case sc_owner c of
                       None \<Rightarrow> Some (sh, at c Demanding)
                     | Some a \<Rightarrow>
                         (case shelf_demand_path E root a of
                            Inl e \<Rightarrow> Some (sh, at c (Left (Raised e)))
                          | Inr p \<Rightarrow> Some (sh\<lparr>sh_demands := AList.update p a (sh_demands sh)\<rparr>, at c Demanding)))
           | Counted n \<Rightarrow> None
           | _ \<Rightarrow> Some (sh, at c (Left (Raised (call_error ev)))))
      | Demanding \<Rightarrow> between_step ev Demanded sh c
      | Demanded \<Rightarrow>
          (case ev of
             Go \<Rightarrow> if sc_expander c = None then Some (sh, at c Sized) else None
           | Counted n \<Rightarrow>
               (case sc_expander c of
                  None \<Rightarrow> None
                | Some expand \<Rightarrow>
                    (let capacity = expand (max (sc_capacity c) (int n))
                     in if capacity \<le> 0 then Some (sh, at c (Closing [] (Raised Nonpositive_Expansion)))
                        else Some (sh, at (c\<lparr>sc_capacity := capacity\<rparr>) Sized)))
           | _ \<Rightarrow> Some (sh, at c (Closing [] (Raised (call_error ev)))))
      | Sized \<Rightarrow> between_step ev Opening sh c
      | Opening \<Rightarrow>
          (case ev of
             Go \<Rightarrow> Some (sh, at c Opened)
           | Counted n \<Rightarrow> None
           | _ \<Rightarrow> Some (sh, at c (Closing [] (Raised (call_error ev)))))
      | Opened \<Rightarrow> between_step ev (probe_from root 1 c) sh c
      | _ \<Rightarrow> None)"

section \<open>Probing the slots\<close>

definition probe_step :: "ucs \<Rightarrow> shelf_event \<Rightarrow> shelf_shared \<Rightarrow> shelf_client
    \<Rightarrow> (shelf_shared \<times> shelf_client) option" where
  "probe_step root ev sh c =
     (case sc_phase c of
        Probing slot rest acquired \<Rightarrow>
          (case ev of
             Go \<Rightarrow>
               (case rest of
                  [] \<Rightarrow> Some (sh, at (c\<lparr>sc_slot := slot\<rparr>) (Locked (rev acquired)))
                | p # rest' \<Rightarrow>
                    (case flock_ex (sc_id c) p (sh_locks sh) of
                       None \<Rightarrow> Some (sh, at c (Undoing acquired (Inr (slot + 1))))
                     | Some L \<Rightarrow> Some (sh\<lparr>sh_locks := L\<rparr>, at c (Probing slot rest' (p # acquired)))))
           | Counted n \<Rightarrow> None
           | _ \<Rightarrow>
               (if rest = [] then Some (sh, at c (Closing acquired (Raised (loop_error ev))))
                else Some (sh, at c (Undoing acquired (Inl (Raised (loop_error ev)))))))
      | Undoing acquired next_slot \<Rightarrow>
          (case ev of
             Go \<Rightarrow>
               (case acquired of
                  p # acquired' \<Rightarrow>
                    Some (sh\<lparr>sh_locks := flock_un (sc_id c) p (sh_locks sh)\<rparr>, at c (Undoing acquired' next_slot))
                | [] \<Rightarrow>
                    (case next_slot of
                       Inl out \<Rightarrow> Some (sh, at c (Closing [] out))
                     | Inr slot \<Rightarrow> Some (sh, at c (probe_from root slot c))))
           | Counted n \<Rightarrow> None
           | _ \<Rightarrow> Some (sh, at c (Closing acquired (Raised (loop_error ev)))))
      | Contended \<Rightarrow>
          (case ev of
             Go \<Rightarrow>
               (if sc_wait c then Some (sh, at (c\<lparr>sc_contended := True\<rparr>) (probe_from root 1 c))
                else Some (sh, at (c\<lparr>sc_contended := True\<rparr>) (Closing [] (Raised ShelfAdmissionUnavailable))))
           | Counted n \<Rightarrow> None
           | _ \<Rightarrow> Some (sh, at (c\<lparr>sc_contended := True\<rparr>) (Closing [] (Raised (loop_error ev)))))
      | _ \<Rightarrow> None)"

section \<open>The body and the release\<close>

text \<open>The slot file that \<open>write_shelf_owner\<close> replaces, and the files that \<open>_shelf_owner_paths\<close> lists.\<close>

definition shelf_owner_paths :: "ucs \<Rightarrow> shelf_shared \<Rightarrow> ucs list" where
  "shelf_owner_paths root sh =
     (let legacy = shelf_owner_path root 1
      in legacy # sort (filter (\<lambda>p. p \<noteq> legacy) (map fst (sh_owners sh))))"

text \<open>The \<open>finally\<close> of the body: clear the owner record when there is one, then unlock the group.\<close>

definition release_phase :: "shelf_client \<Rightarrow> ucs list \<Rightarrow> shelf_outcome \<Rightarrow> shelf_phase" where
  "release_phase c locks out = (if sc_owner c = None then Unlocking (rev locks) out else Listing locks out)"

definition hold_step :: "ucs \<Rightarrow> shelf_event \<Rightarrow> shelf_shared \<Rightarrow> shelf_client
    \<Rightarrow> (shelf_shared \<times> shelf_client) option" where
  "hold_step root ev sh c =
     (case sc_phase c of
        Locked locks \<Rightarrow>
          (case ev of
             Go \<Rightarrow>
               (case sc_owner c of
                  None \<Rightarrow> Some (sh, at c (Admitted locks))
                | Some a \<Rightarrow> Some (sh\<lparr>sh_owners := AList.update (shelf_owner_path root (sc_slot c)) a (sh_owners sh)\<rparr>,
                               at c (Admitted locks)))
           | Interrupt \<Rightarrow> Some (sh, at c (Closing locks (Raised KeyboardInterrupt)))
           | Fail \<Rightarrow> Some (sh, at c (release_phase c locks (Raised Other_Error)))
           | _ \<Rightarrow> None)
      | Admitted locks \<Rightarrow>
          (case ev of
             Go \<Rightarrow> Some (sh, at c (release_phase c locks Returned))
           | Counted n \<Rightarrow> None
           | _ \<Rightarrow> Some (sh, at c (release_phase c locks (Raised (call_error ev)))))
      | Listing locks out \<Rightarrow>
          (case ev of
             Go \<Rightarrow> Some (sh, at c (Clearing (shelf_owner_paths root sh) locks out))
           | Counted n \<Rightarrow> None
           | _ \<Rightarrow> Some (sh, at c (Closing locks (Cleanup_Raised (call_error ev)))))
      | Clearing paths locks out \<Rightarrow>
          (case ev of
             Go \<Rightarrow>
               (case paths of
                  [] \<Rightarrow> Some (sh, at c (Unlocking (rev locks) out))
                | p # rest \<Rightarrow>
                    (if map_of (sh_owners sh) p = sc_owner c \<and> sc_owner c \<noteq> None
                     then Some (sh, at c (Unlinking p rest locks out))
                     else Some (sh, at c (Clearing rest locks out))))
           | Counted n \<Rightarrow> None
           | _ \<Rightarrow> Some (sh, at c (Closing locks (Cleanup_Raised (call_error ev)))))
      | Unlinking p rest locks out \<Rightarrow>
          (case ev of
             Go \<Rightarrow> Some (sh\<lparr>sh_owners := AList.delete p (sh_owners sh)\<rparr>, at c (Clearing rest locks out))
           | Counted n \<Rightarrow> None
           | _ \<Rightarrow> Some (sh, at c (Closing locks (Cleanup_Raised (call_error ev)))))
      | _ \<Rightarrow> None)"

definition leave_step :: "scanenv \<Rightarrow> ucs \<Rightarrow> shelf_event \<Rightarrow> shelf_shared \<Rightarrow> shelf_client
    \<Rightarrow> (shelf_shared \<times> shelf_client) option" where
  "leave_step E root ev sh c =
     (case sc_phase c of
        Unlocking locks out \<Rightarrow>
          (case ev of
             Go \<Rightarrow>
               (case locks of
                  [] \<Rightarrow> Some (sh, at c (Closing [] out))
                | p # rest \<Rightarrow> Some (sh\<lparr>sh_locks := flock_un (sc_id c) p (sh_locks sh)\<rparr>, at c (Unlocking rest out)))
           | Counted n \<Rightarrow> None
           | _ \<Rightarrow> Some (sh, at c (Closing locks (Raised (call_error ev)))))
      | Closing locks out \<Rightarrow>
          (case ev of
             Go \<Rightarrow>
               (case locks of
                  p # rest \<Rightarrow> Some (sh\<lparr>sh_locks := flock_un (sc_id c) p (sh_locks sh)\<rparr>, at c (Closing rest out))
                | [] \<Rightarrow>
                    (case sc_owner c of
                       None \<Rightarrow> Some (sh, at c (Left out))
                     | Some a \<Rightarrow>
                         (case shelf_demand_path E root a of
                            Inl e \<Rightarrow> Some (sh, at c (Left (Cleanup_Raised e)))
                          | Inr p \<Rightarrow> Some (sh\<lparr>sh_demands := AList.delete p (sh_demands sh)\<rparr>, at c (Left out)))))
           | Counted n \<Rightarrow> None
           | _ \<Rightarrow> Some (sh, at c (Dropped locks (Abandoned (call_error ev)))))
      | Dropped locks out \<Rightarrow>
          (case ev of
             Go \<Rightarrow>
               (case locks of
                  [] \<Rightarrow> Some (sh, at c (Left out))
                | p # rest \<Rightarrow> Some (sh\<lparr>sh_locks := flock_un (sc_id c) p (sh_locks sh)\<rparr>, at c (Dropped rest out)))
           | _ \<Rightarrow> None)
      | _ \<Rightarrow> None)"

section \<open>The exclusive closure of idle retirement\<close>

definition exclusive_paths :: "ucs \<Rightarrow> int \<Rightarrow> admission_error + ucs list" where
  "exclusive_paths root capacity =
     bindE (shelf_admission_paths root capacity) (\<lambda>paths. Inr (legacy_lock root # paths))"

text \<open>
  \<open>Retiring rest acquired\<close> is the loop of \<open>try_exclusive_criu_shelf_admission\<close>, \<open>Retired available\<close>
  its body; a blocked file ends the loop and the body runs with \<open>False\<close>, holding what was acquired.
\<close>

definition exclusive_step :: "ucs \<Rightarrow> shelf_event \<Rightarrow> shelf_shared \<Rightarrow> shelf_client
    \<Rightarrow> (shelf_shared \<times> shelf_client) option" where
  "exclusive_step root ev sh c =
     (case sc_phase c of
        Retiring rest acquired \<Rightarrow>
          (case ev of
             Go \<Rightarrow>
               (case rest of
                  [] \<Rightarrow> Some (sh, at c (Retired True acquired))
                | p # rest' \<Rightarrow>
                    (case flock_ex (sc_id c) p (sh_locks sh) of
                       None \<Rightarrow> Some (sh, at c (Retired False acquired))
                     | Some L \<Rightarrow> Some (sh\<lparr>sh_locks := L\<rparr>, at c (Retiring rest' (p # acquired)))))
           | Counted n \<Rightarrow> None
           | _ \<Rightarrow> Some (sh, at c (Releasing acquired (Raised (call_error ev)))))
      | Retired available acquired \<Rightarrow>
          (case ev of
             Go \<Rightarrow> Some (sh, at c (Releasing acquired Returned))
           | Counted n \<Rightarrow> None
           | _ \<Rightarrow> Some (sh, at c (Releasing acquired (Raised (call_error ev)))))
      | Releasing locks out \<Rightarrow>
          (case ev of
             Go \<Rightarrow>
               (case locks of
                  [] \<Rightarrow> Some (sh, at c (Closing [] out))
                | p # rest \<Rightarrow> Some (sh\<lparr>sh_locks := flock_un (sc_id c) p (sh_locks sh)\<rparr>, at c (Releasing rest out)))
           | Counted n \<Rightarrow> None
           | _ \<Rightarrow> Some (sh, at c (Dropped locks (Abandoned (call_error ev)))))
      | _ \<Rightarrow> None)"

section \<open>One step of a participant\<close>

text \<open>The kernel releases every lock of a process that dies; its demand and owner files stay.\<close>

definition kill_client :: "shelf_shared \<Rightarrow> shelf_client \<Rightarrow> (shelf_shared \<times> shelf_client) option" where
  "kill_client sh c =
     Some (sh\<lparr>sh_locks := (\<lambda>p. if sh_locks sh p = Some (sc_id c) then None else sh_locks sh p)\<rparr>, at c Killed)"

definition client_step :: "scanenv \<Rightarrow> ucs \<Rightarrow> shelf_event \<Rightarrow> shelf_shared \<Rightarrow> shelf_client
    \<Rightarrow> (shelf_shared \<times> shelf_client) option" where
  "client_step E root ev sh c =
     (case sc_phase c of
        Left _ \<Rightarrow> None
      | Killed \<Rightarrow> None
      | ph \<Rightarrow>
          (if ev = Kill then kill_client sh c
           else (case enter_step E root ev sh c of
                   Some r \<Rightarrow> Some r
                 | None \<Rightarrow>
                     (case probe_step root ev sh c of
                        Some r \<Rightarrow> Some r
                      | None \<Rightarrow>
                          (case hold_step root ev sh c of
                             Some r \<Rightarrow> Some r
                           | None \<Rightarrow>
                               (case leave_step E root ev sh c of
                                  Some r \<Rightarrow> Some r
                                | None \<Rightarrow> exclusive_step root ev sh c))))))"

section \<open>All participants\<close>

type_synonym shelf_state = "shelf_shared \<times> (nat \<Rightarrow> shelf_client option)"

text \<open>
  A participant arrives as a route or as a retirement monitor.  The attempt ids of routes are random tokens
  (\<open>new_shelf_owner\<close>), so that an arriving route shares its demand path with no record and no other participant.
\<close>

definition demand_path_of :: "scanenv \<Rightarrow> ucs \<Rightarrow> shelf_client \<Rightarrow> ucs option" where
  "demand_path_of E root c =
     (case sc_owner c of
        None \<Rightarrow> None
      | Some a \<Rightarrow> (case shelf_demand_path E root a of Inl _ \<Rightarrow> None | Inr p \<Rightarrow> Some p))"

definition fresh_attempt :: "scanenv \<Rightarrow> ucs \<Rightarrow> shelf_state \<Rightarrow> shelf_client \<Rightarrow> bool" where
  "fresh_attempt E root S c \<longleftrightarrow>
     (sc_owner c \<noteq> None \<longrightarrow>
        the (sc_owner c) \<notin> snd ` set (sh_owners (fst S))
        \<and> (\<forall>p. demand_path_of E root c = Some p \<longrightarrow> p \<notin> fst ` set (sh_demands (fst S)))
        \<and> (\<forall>j d. snd S j = Some d \<longrightarrow> sc_owner d \<noteq> sc_owner c
             \<and> (demand_path_of E root c \<noteq> None \<longrightarrow> demand_path_of E root d \<noteq> demand_path_of E root c)))"

definition arriving :: "ucs \<Rightarrow> nat \<Rightarrow> shelf_client \<Rightarrow> bool" where
  "arriving root i c \<longleftrightarrow>
     sc_id c = i \<and>
     (sc_phase c = Entered
      \<or> sc_owner c = None \<and> (\<exists>ps. exclusive_paths root (sc_capacity c) = Inr ps \<and> sc_phase c = Retiring ps []))"

text \<open>
  Participants of an earlier generation, or any other program, may lock and unlock files of the shelf at any time:
  they are the processes without a record.
\<close>

inductive shelf_step :: "scanenv \<Rightarrow> ucs \<Rightarrow> shelf_state \<Rightarrow> shelf_state \<Rightarrow> bool" for E root where
  arrives: "C i = None \<Longrightarrow> i \<notin> ran (sh_locks sh) \<Longrightarrow> arriving root i c \<Longrightarrow> fresh_attempt E root (sh, C) c
     \<Longrightarrow> shelf_step E root (sh, C) (sh, C(i \<mapsto> c))"
| runs: "C i = Some c \<Longrightarrow> (\<forall>n. ev = Counted n \<longrightarrow> n \<le> length (sh_demands sh))
     \<Longrightarrow> client_step E root ev sh c = Some (sh', c') \<Longrightarrow> shelf_step E root (sh, C) (sh', C(i \<mapsto> c'))"
| foreign_locks: "C j = None \<Longrightarrow> flock_ex j p (sh_locks sh) = Some L
     \<Longrightarrow> shelf_step E root (sh, C) (sh\<lparr>sh_locks := L\<rparr>, C)"
| foreign_unlocks: "C j = None \<Longrightarrow> shelf_step E root (sh, C) (sh\<lparr>sh_locks := flock_un j p (sh_locks sh)\<rparr>, C)"

inductive shelf_run :: "scanenv \<Rightarrow> ucs \<Rightarrow> shelf_state \<Rightarrow> bool" for E root where
  start: "shelf_run E root (sh, \<lambda>_. None)"
| step: "shelf_run E root S \<Longrightarrow> shelf_step E root S S' \<Longrightarrow> shelf_run E root S'"

end
