(* ===== verification/Shelf_Admission_Inv.thy ===== *)
theory Shelf_Admission_Inv
  imports Shelf_Admission
begin

text \<open>
  The invariants of every interleaving of participants: the lock table is the union of what each point of a
  participant holds, the owner record of an attempt is where its point says, its demand record is present while it
  is inside.  Proved per step, for the participant that moves and for every other, and lifted by rule induction.
\<close>

section \<open>Paths\<close>

lemma slot_lock_eq [simp]: "slot_lock root s = slot_lock root t \<longleftrightarrow> s = t"
  by (simp add: slot_lock_def)

lemma legacy_not_slot [simp]: "legacy_lock root \<noteq> slot_lock root s" "slot_lock root s \<noteq> legacy_lock root"
  by (auto simp: legacy_lock_def slot_lock_def asc_def)

lemma shelf_owner_path_eq: "1 \<le> s \<Longrightarrow> 1 \<le> t \<Longrightarrow> shelf_owner_path root s = shelf_owner_path root t \<longleftrightarrow> s = t"
  by (auto simp: shelf_owner_path_def asc_def)

definition lock_group :: "ucs \<Rightarrow> nat \<Rightarrow> ucs list" where
  "lock_group root slot = (if slot = 1 then [legacy_lock root, slot_lock root 1] else [slot_lock root slot])"

lemma lock_group_distinct: "distinct (lock_group root slot)"
  by (simp add: lock_group_def)

lemma slot_in_group: "slot_lock root slot \<in> set (lock_group root slot)"
  by (simp add: lock_group_def)

definition all_paths :: "ucs \<Rightarrow> int \<Rightarrow> ucs list" where
  "all_paths root capacity = legacy_lock root # map (slot_lock root) [1..<nat capacity + 1]"

lemma all_paths_distinct: "distinct (all_paths root capacity)"
  by (auto simp: all_paths_def distinct_map inj_on_def)

lemma exclusive_paths_all: "exclusive_paths root capacity = Inr ps \<Longrightarrow> ps = all_paths root capacity"
  by (auto simp: exclusive_paths_def shelf_admission_paths_def all_paths_def split: if_splits)

lemma lock_groups_nth:
  "1 \<le> slot \<Longrightarrow> slot \<le> length (lock_groups root c)
     \<Longrightarrow> lock_groups root c ! (slot - 1) = lock_group root slot \<and> int slot \<le> sc_capacity c"
proof (cases "sc_capacity c \<le> 0")
  case True
  then show "1 \<le> slot \<Longrightarrow> slot \<le> length (lock_groups root c) \<Longrightarrow> ?thesis"
    by (simp add: lock_groups_def shelf_admission_lock_groups_def shelf_admission_paths_def)
next
  case False
  moreover from False have "[1..<nat (sc_capacity c) + 1] = 1 # [2..<nat (sc_capacity c) + 1]"
    by (subst upt_conv_Cons) (auto simp: numeral_2_eq_2)
  ultimately show "1 \<le> slot \<Longrightarrow> slot \<le> length (lock_groups root c) \<Longrightarrow> ?thesis"
    by (auto simp: lock_groups_def shelf_admission_lock_groups_def shelf_admission_paths_def lock_group_def
        nth_Cons split: nat.splits simp del: upt_Suc)
qed

section \<open>The locks a participant holds\<close>

fun held :: "shelf_phase \<Rightarrow> ucs list" where
  "held (Probing _ _ acquired) = acquired"
| "held (Undoing acquired _) = acquired"
| "held (Locked locks) = locks"
| "held (Admitted locks) = locks"
| "held (Listing locks _) = locks"
| "held (Clearing _ locks _) = locks"
| "held (Unlinking _ _ locks _) = locks"
| "held (Retiring _ acquired) = acquired"
| "held (Retired _ acquired) = acquired"
| "held (Unlocking locks _) = locks"
| "held (Releasing locks _) = locks"
| "held (Closing locks _) = locks"
| "held (Dropped locks _) = locks"
| "held _ = []"

fun holds_slot :: "shelf_phase \<Rightarrow> bool" where
  "holds_slot (Locked _) = True"
| "holds_slot (Admitted _) = True"
| "holds_slot (Listing _ _) = True"
| "holds_slot (Clearing _ _ _) = True"
| "holds_slot (Unlinking _ _ _ _) = True"
| "holds_slot _ = False"

definition valid_slot :: "shelf_client \<Rightarrow> nat \<Rightarrow> bool" where
  "valid_slot c slot \<longleftrightarrow> 1 \<le> slot \<and> int slot \<le> sc_capacity c"

definition shape :: "ucs \<Rightarrow> shelf_client \<Rightarrow> bool" where
  "shape root c \<longleftrightarrow> distinct (held (sc_phase c))
     \<and> (holds_slot (sc_phase c) \<longrightarrow> valid_slot c (sc_slot c) \<and> held (sc_phase c) = lock_group root (sc_slot c))
     \<and> (case sc_phase c of
          Probing slot rest acquired \<Rightarrow> valid_slot c slot \<and> rev acquired @ rest = lock_group root slot
        | Undoing _ (Inr slot) \<Rightarrow> 1 \<le> slot
        | Retiring rest acquired \<Rightarrow> rev acquired @ rest = all_paths root (sc_capacity c)
        | Retired True acquired \<Rightarrow> rev acquired = all_paths root (sc_capacity c)
        | _ \<Rightarrow> True)"

definition locks_ok :: "ucs \<Rightarrow> lock_table \<Rightarrow> shelf_client \<Rightarrow> bool" where
  "locks_ok root L c \<longleftrightarrow> shape root c \<and> (\<forall>p. L p = Some (sc_id c) \<longleftrightarrow> p \<in> set (held (sc_phase c)))"

text \<open>A step of process \<open>i\<close> leaves the locks of every other process alone.\<close>

definition own_locks_only :: "nat \<Rightarrow> lock_table \<Rightarrow> lock_table \<Rightarrow> bool" where
  "own_locks_only i L L' \<longleftrightarrow> (\<forall>p j. j \<noteq> i \<longrightarrow> (L' p = Some j \<longleftrightarrow> L p = Some j))"

lemma own_locks_only_refl [simp]: "own_locks_only i L L"
  by (simp add: own_locks_only_def)

lemma flock_ex_Some: "flock_ex i p L = Some L' \<longleftrightarrow> (L p = None \<or> L p = Some i) \<and> L' = L(p \<mapsto> i)"
  by (auto simp: flock_ex_def split: option.splits)

lemma flock_ex_own: "flock_ex i p L = Some L' \<Longrightarrow> own_locks_only i L L'"
  by (auto simp: flock_ex_Some own_locks_only_def)

lemma flock_un_own [simp]: "own_locks_only i L (flock_un i p L)"
  by (auto simp: flock_un_def own_locks_only_def)

lemma flock_un_eq: "flock_un i p L q = (if q = p \<and> L p = Some i then None else L q)"
  by (simp add: flock_un_def)

lemma distinct_snoc_head: "distinct (xs @ y # ys) \<Longrightarrow> y \<notin> set xs"
  by simp

lemma probing_fresh: "shape root c \<Longrightarrow> sc_phase c = Probing slot (p # rest) acquired \<Longrightarrow> p \<notin> set acquired"
  using lock_group_distinct [of root slot] by (auto simp: shape_def dest!: arg_cong [of _ _ distinct])

lemma retiring_fresh: "shape root c \<Longrightarrow> sc_phase c = Retiring (p # rest) acquired \<Longrightarrow> p \<notin> set acquired"
  using all_paths_distinct [of root "sc_capacity c"]
  by (auto simp: shape_def dest!: arg_cong [of _ _ distinct])

lemma valid_slot_update [simp]:
  "valid_slot (c\<lparr>sc_phase := ph\<rparr>) slot = valid_slot c slot"
  "valid_slot (c\<lparr>sc_slot := n\<rparr>) slot = valid_slot c slot"
  "valid_slot (c\<lparr>sc_contended := b\<rparr>) slot = valid_slot c slot"
  by (simp_all add: valid_slot_def)

lemma shape_at:
  "sc_phase c = Entered \<Longrightarrow> shape root c"
  "sc_phase c = Demanding \<Longrightarrow> shape root c"
  "sc_phase c = Demanded \<Longrightarrow> shape root c"
  "sc_phase c = Sized \<Longrightarrow> shape root c"
  "sc_phase c = Opening \<Longrightarrow> shape root c"
  "sc_phase c = Opened \<Longrightarrow> shape root c"
  "sc_phase c = Contended \<Longrightarrow> shape root c"
  "sc_phase c = Left out \<Longrightarrow> shape root c"
  "sc_phase c = Killed \<Longrightarrow> shape root c"
  "sc_phase c = Probing slot rest acquired
     \<Longrightarrow> shape root c \<longleftrightarrow> distinct acquired \<and> valid_slot c slot \<and> rev acquired @ rest = lock_group root slot"
  "sc_phase c = Undoing acquired after
     \<Longrightarrow> shape root c \<longleftrightarrow> distinct acquired \<and> (\<forall>slot. after = Inr slot \<longrightarrow> 1 \<le> slot)"
  "sc_phase c = Locked locks \<Longrightarrow> shape root c \<longleftrightarrow> valid_slot c (sc_slot c) \<and> locks = lock_group root (sc_slot c)"
  "sc_phase c = Admitted locks \<Longrightarrow> shape root c \<longleftrightarrow> valid_slot c (sc_slot c) \<and> locks = lock_group root (sc_slot c)"
  "sc_phase c = Listing locks out
     \<Longrightarrow> shape root c \<longleftrightarrow> valid_slot c (sc_slot c) \<and> locks = lock_group root (sc_slot c)"
  "sc_phase c = Clearing paths locks out
     \<Longrightarrow> shape root c \<longleftrightarrow> valid_slot c (sc_slot c) \<and> locks = lock_group root (sc_slot c)"
  "sc_phase c = Unlinking p paths locks out
     \<Longrightarrow> shape root c \<longleftrightarrow> valid_slot c (sc_slot c) \<and> locks = lock_group root (sc_slot c)"
  "sc_phase c = Retiring rest acquired
     \<Longrightarrow> shape root c \<longleftrightarrow> distinct acquired \<and> rev acquired @ rest = all_paths root (sc_capacity c)"
  "sc_phase c = Retired True acquired \<Longrightarrow> shape root c \<longleftrightarrow> rev acquired = all_paths root (sc_capacity c)"
  "sc_phase c = Retired False acquired \<Longrightarrow> shape root c \<longleftrightarrow> distinct acquired"
  "sc_phase c = Unlocking locks out \<Longrightarrow> shape root c \<longleftrightarrow> distinct locks"
  "sc_phase c = Releasing locks out \<Longrightarrow> shape root c \<longleftrightarrow> distinct locks"
  "sc_phase c = Closing locks out \<Longrightarrow> shape root c \<longleftrightarrow> distinct locks"
  "sc_phase c = Dropped locks out \<Longrightarrow> shape root c \<longleftrightarrow> distinct locks"
  using lock_group_distinct [of root] all_paths_distinct [of root]
  by (auto simp: shape_def split: sum.split) (metis distinct_rev)+

lemma locks_ok_move:
  "locks_ok root L c \<Longrightarrow> sc_id c' = sc_id c \<Longrightarrow> set (held (sc_phase c')) = set (held (sc_phase c))
     \<Longrightarrow> shape root c' \<Longrightarrow> locks_ok root L c'"
  by (simp add: locks_ok_def)

lemma locks_ok_add:
  "locks_ok root L c \<Longrightarrow> L p = None \<or> L p = Some (sc_id c) \<Longrightarrow> sc_id c' = sc_id c
     \<Longrightarrow> held (sc_phase c') = p # held (sc_phase c) \<Longrightarrow> shape root c'
     \<Longrightarrow> locks_ok root (L(p \<mapsto> sc_id c)) c'"
  by (auto simp: locks_ok_def)

lemma locks_ok_drop:
  "locks_ok root L c \<Longrightarrow> sc_id c' = sc_id c \<Longrightarrow> held (sc_phase c) = p # held (sc_phase c')
     \<Longrightarrow> shape root c' \<Longrightarrow> locks_ok root (flock_un (sc_id c) p L) c'"
  by (auto simp: locks_ok_def flock_un_eq shape_def)

lemma locks_ok_none:
  "(\<And>p. L p \<noteq> Some (sc_id c')) \<Longrightarrow> held (sc_phase c') = [] \<Longrightarrow> shape root c' \<Longrightarrow> locks_ok root L c'"
  by (simp add: locks_ok_def)

lemma probe_from_shape:
  "1 \<le> slot \<Longrightarrow> shape root (c\<lparr>sc_phase := probe_from root slot c\<rparr>)"
  "1 \<le> slot \<Longrightarrow> shape root (c\<lparr>sc_contended := b, sc_phase := probe_from root slot c\<rparr>)"
  using lock_groups_nth [of slot root c] by (simp_all add: shape_def probe_from_def valid_slot_def)

lemma probe_from_held [simp]: "held (probe_from root slot c) = []"
  by (simp add: probe_from_def)

lemma probe_from_phase [simp]: "probe_from root slot (c\<lparr>sc_contended := b\<rparr>) = probe_from root slot c"
  by (simp add: probe_from_def lock_groups_def)

section \<open>Steps keep the lock table\<close>

definition lock_step_ok :: "ucs \<Rightarrow> shelf_shared \<Rightarrow> shelf_client \<Rightarrow> shelf_shared \<times> shelf_client \<Rightarrow> bool" where
  "lock_step_ok root sh c r \<longleftrightarrow> sc_id (snd r) = sc_id c \<and> sc_owner (snd r) = sc_owner c
     \<and> locks_ok root (sh_locks (fst r)) (snd r) \<and> own_locks_only (sc_id c) (sh_locks sh) (sh_locks (fst r))"

lemma own_locks_add [simp]: "L p = None \<or> L p = Some i \<Longrightarrow> own_locks_only i L (L(p \<mapsto> i))"
  by (auto simp: own_locks_only_def)

lemma enter_step_locks:
  assumes "locks_ok root (sh_locks sh) c" "enter_step E root ev sh c = Some r"
  shows "lock_step_ok root sh c r"
  using assms(2) by (auto simp: enter_step_def between_step_def lock_step_ok_def Let_def shape_at probe_from_shape
      split: shelf_phase.split_asm shelf_event.split_asm if_split_asm option.split_asm sum.split_asm
      intro!: locks_ok_move [OF assms(1)])

lemma probed_group: "shape root c \<Longrightarrow> sc_phase c = Probing slot [] acquired \<Longrightarrow> set (lock_group root slot) = set acquired"
  by (metis append_Nil2 set_rev shape_at(10))

lemma locks_ok_shape: "locks_ok root L c \<Longrightarrow> shape root c"
  by (simp add: locks_ok_def)

lemma probe_step_locks:
  assumes ok: "locks_ok root (sh_locks sh) c" and step: "probe_step root ev sh c = Some r"
  shows "lock_step_ok root sh c r"
  using step locks_ok_shape [OF ok] probing_fresh [of root c] probed_group [of root c]
  by (auto simp: probe_step_def lock_step_ok_def shape_at probe_from_shape flock_ex_Some valid_slot_def [of _ "Suc _"]
      split: shelf_phase.split_asm shelf_event.split_asm if_split_asm option.split_asm list.split_asm sum.split_asm
      intro!: locks_ok_move [OF ok] locks_ok_add [OF ok] locks_ok_drop [OF ok])

lemma hold_step_locks:
  assumes ok: "locks_ok root (sh_locks sh) c" and step: "hold_step root ev sh c = Some r"
  shows "lock_step_ok root sh c r"
  using step locks_ok_shape [OF ok] lock_group_distinct [of root "sc_slot c"]
  by (auto simp: hold_step_def lock_step_ok_def shape_at release_phase_def
      split: shelf_phase.split_asm shelf_event.split_asm if_split_asm option.split_asm list.split_asm
      intro!: locks_ok_move [OF ok])

lemma leave_step_locks:
  assumes ok: "locks_ok root (sh_locks sh) c" and step: "leave_step E root ev sh c = Some r"
  shows "lock_step_ok root sh c r"
  using step locks_ok_shape [OF ok]
  by (auto simp: leave_step_def lock_step_ok_def shape_at
      split: shelf_phase.split_asm shelf_event.split_asm option.split_asm list.split_asm sum.split_asm
      intro!: locks_ok_move [OF ok] locks_ok_drop [OF ok])

lemma exclusive_step_locks:
  assumes ok: "locks_ok root (sh_locks sh) c" and step: "exclusive_step root ev sh c = Some r"
  shows "lock_step_ok root sh c r"
  using step locks_ok_shape [OF ok] retiring_fresh [of root c]
  by (auto simp: exclusive_step_def lock_step_ok_def shape_at flock_ex_Some shape_def
      split: shelf_phase.split_asm shelf_event.split_asm option.split_asm list.split_asm bool.split_asm
      intro!: locks_ok_move [OF ok] locks_ok_add [OF ok] locks_ok_drop [OF ok])

lemma kill_client_locks: "kill_client sh c = Some r \<Longrightarrow> lock_step_ok root sh c r"
  by (auto simp: kill_client_def lock_step_ok_def own_locks_only_def shape_at intro!: locks_ok_none
      split: if_split_asm)

lemma client_step_cases:
  assumes "client_step E root ev sh c = Some r"
  obtains "kill_client sh c = Some r" | "enter_step E root ev sh c = Some r" | "probe_step root ev sh c = Some r"
  | "hold_step root ev sh c = Some r" | "leave_step E root ev sh c = Some r" | "exclusive_step root ev sh c = Some r"
  using assms by (auto simp: client_step_def split: shelf_phase.split_asm if_split_asm option.split_asm)

lemma client_step_locks:
  assumes "locks_ok root (sh_locks sh) c" "client_step E root ev sh c = Some r"
  shows "lock_step_ok root sh c r"
  using assms(2) by (rule client_step_cases)
    (blast intro: kill_client_locks enter_step_locks [OF assms(1)] probe_step_locks [OF assms(1)]
      hold_step_locks [OF assms(1)] leave_step_locks [OF assms(1)] exclusive_step_locks [OF assms(1)])+

section \<open>Owner and demand records\<close>

fun cleanup_raised :: "shelf_outcome \<Rightarrow> bool" where
  "cleanup_raised (Cleanup_Raised _) = True"
| "cleanup_raised (Abandoned _) = True"
| "cleanup_raised _ = False"

text \<open>Where the owner record of attempt \<open>a\<close> may be at each point.\<close>

definition records_of :: "(ucs \<times> ucs) list \<Rightarrow> ucs \<Rightarrow> ucs set" where
  "records_of owners a = {p. map_of owners p = Some a}"

definition record_ok :: "ucs \<Rightarrow> (ucs \<times> ucs) list \<Rightarrow> shelf_client \<Rightarrow> bool" where
  "record_ok root owners c \<longleftrightarrow>
     (\<forall>q paths locks out. sc_phase c = Unlinking q paths locks out \<longrightarrow> sc_owner c \<noteq> None)
     \<and> (\<forall>a. sc_owner c = Some a \<longrightarrow>
     (case sc_phase c of
        Admitted _ \<Rightarrow> records_of owners a = {shelf_owner_path root (sc_slot c)}
      | Listing _ _ \<Rightarrow> records_of owners a \<subseteq> {shelf_owner_path root (sc_slot c)}
      | Clearing paths _ _ \<Rightarrow> records_of owners a \<subseteq> {shelf_owner_path root (sc_slot c)} \<inter> set paths
      | Unlinking q _ _ _ \<Rightarrow> q = shelf_owner_path root (sc_slot c) \<and> records_of owners a = {q}
      | Closing _ out \<Rightarrow> cleanup_raised out \<or> records_of owners a = {}
      | Left out \<Rightarrow> cleanup_raised out \<or> records_of owners a = {}
      | Dropped _ out \<Rightarrow> cleanup_raised out
      | Killed \<Rightarrow> True
      | Retiring _ _ \<Rightarrow> False
      | Retired _ _ \<Rightarrow> False
      | Releasing _ _ \<Rightarrow> False
      | _ \<Rightarrow> records_of owners a = {}))"

fun owner_write :: "ucs \<Rightarrow> shelf_client \<Rightarrow> (ucs \<times> ucs) list \<Rightarrow> (ucs \<times> ucs) list \<Rightarrow> bool" where
  "owner_write root c owners owners' \<longleftrightarrow> owners' = owners
     \<or> (\<exists>locks a. sc_phase c = Locked locks \<and> sc_owner c = Some a
          \<and> owners' = AList.update (shelf_owner_path root (sc_slot c)) a owners)
     \<or> (\<exists>q paths locks out. sc_phase c = Unlinking q paths locks out \<and> owners' = AList.delete q owners)"

lemma map_of_records: "map_of owners p = Some a \<longleftrightarrow> p \<in> records_of owners a"
  by (simp add: records_of_def)

lemma records_update:
  "records_of (AList.update q a owners) b = (if a = b then insert q (records_of owners b) else records_of owners b - {q})"
  by (auto simp: records_of_def update_conv' split: if_split_asm)

lemma records_delete: "records_of (AList.delete q owners) b = records_of owners b - {q}"
  by (auto simp: records_of_def delete_conv' split: if_split_asm)

lemma listed_records: "records_of (sh_owners sh) a \<subseteq> set (shelf_owner_paths root sh)"
  by (auto simp: records_of_def shelf_owner_paths_def Let_def dest!: map_of_SomeD) force

lemma client_step_writes:
  assumes "client_step E root ev sh c = Some r"
  shows "owner_write root c (sh_owners sh) (sh_owners (fst r))"
  using assms by (rule client_step_cases)
    (auto simp: kill_client_def enter_step_def between_step_def probe_step_def hold_step_def leave_step_def exclusive_step_def Let_def
      split: shelf_phase.split_asm shelf_event.split_asm if_split_asm option.split_asm list.split_asm sum.split_asm)

lemma client_step_record:
  assumes "client_step E root ev sh c = Some r" "record_ok root (sh_owners sh) c"
  shows "record_ok root (sh_owners (fst r)) (snd r)"
  using assms(1)
proof (rule client_step_cases)
  assume "hold_step root ev sh c = Some r"
  with assms(2) listed_records [of sh _ root] show ?thesis
    by (auto simp: hold_step_def record_ok_def release_phase_def records_update records_delete map_of_records
        split: shelf_phase.split_asm shelf_event.split_asm if_split_asm option.split_asm list.split_asm
        dest: subset_singletonD)
qed (use assms(2) in \<open>auto simp: kill_client_def enter_step_def between_step_def probe_step_def leave_step_def exclusive_step_def Let_def
      record_ok_def probe_from_def
      split: shelf_phase.split_asm shelf_event.split_asm if_split_asm option.split_asm list.split_asm sum.split_asm\<close>)

text \<open>Another participant's step does not touch the record, as long as their slots and attempts differ.\<close>

lemma others_record:
  assumes w: "owner_write root c owners owners'" and ok: "record_ok root owners d"
    and c: "record_ok root owners c"
    and slots: "holds_slot (sc_phase c) \<Longrightarrow> holds_slot (sc_phase d)
      \<Longrightarrow> shelf_owner_path root (sc_slot c) \<noteq> shelf_owner_path root (sc_slot d)"
    and ids: "sc_owner c \<noteq> None \<Longrightarrow> sc_owner d \<noteq> sc_owner c"
  shows "record_ok root owners' d"
proof -
  consider "owners' = owners"
    | locks a where "sc_phase c = Locked locks" "sc_owner c = Some a"
        "owners' = AList.update (shelf_owner_path root (sc_slot c)) a owners"
    | q paths locks out where "sc_phase c = Unlinking q paths locks out" "owners' = AList.delete q owners"
    using w by auto
  then show ?thesis
  proof cases
    case 1
    with ok show ?thesis by simp
  next
    case 2
    then have "sc_owner d \<noteq> Some a" using ids by simp
    then have "records_of owners' b = records_of owners b - {shelf_owner_path root (sc_slot c)}" if "sc_owner d = Some b" for b
      using that 2 by (auto simp: records_update)
    with ok slots 2 show ?thesis by (cases "sc_phase d") (auto simp: record_ok_def)
  next
    case 3
    then have "q = shelf_owner_path root (sc_slot c)"
      using c by (fastforce simp: record_ok_def)
    with ok slots 3 show ?thesis by (cases "sc_phase d") (auto simp: record_ok_def records_delete)
  qed
qed

text \<open>The outcomes of which the demand record is cleared.\<close>

fun cleared_up :: "shelf_outcome \<Rightarrow> bool" where
  "cleared_up Returned = True"
| "cleared_up (Raised _) = True"
| "cleared_up (Cleanup_Raised _) = True"
| "cleared_up _ = False"

fun demanding :: "shelf_phase \<Rightarrow> bool" where
  "demanding Entered = False"
| "demanding (Left _) = False"
| "demanding Killed = False"
| "demanding (Retiring _ _) = False"
| "demanding (Retired _ _) = False"
| "demanding (Releasing _ _) = False"
| "demanding (Dropped _ _) = False"
| "demanding _ = True"

definition demand_ok :: "scanenv \<Rightarrow> ucs \<Rightarrow> (ucs \<times> ucs) list \<Rightarrow> shelf_client \<Rightarrow> bool" where
  "demand_ok E root demands c \<longleftrightarrow> (\<forall>p. demand_path_of E root c = Some p \<longrightarrow>
     (demanding (sc_phase c) \<longrightarrow> map_of demands p = sc_owner c)
     \<and> (sc_phase c = Entered \<or> (\<exists>out. sc_phase c = Left out \<and> cleared_up out) \<longrightarrow> map_of demands p = None)
     \<and> (\<forall>locks out. sc_phase c = Dropped locks out \<longrightarrow> \<not> cleared_up out))"

definition demand_write :: "scanenv \<Rightarrow> ucs \<Rightarrow> shelf_client \<Rightarrow> (ucs \<times> ucs) list \<Rightarrow> (ucs \<times> ucs) list \<Rightarrow> bool" where
  "demand_write E root c demands demands' \<longleftrightarrow>
     (\<forall>p. demand_path_of E root c \<noteq> Some p \<longrightarrow> map_of demands' p = map_of demands p)"

lemma demand_path_owner: "demand_path_of E root c = Some p \<Longrightarrow> \<exists>a. sc_owner c = Some a \<and> shelf_demand_path E root a = Inr p"
  by (auto simp: demand_path_of_def split: option.split_asm sum.split_asm)

lemma probe_from_demanding [simp]: "demanding (probe_from root slot c)"
  by (simp add: probe_from_def)

lemma probe_from_inside [simp]: "probe_from root slot c \<noteq> Entered" "probe_from root slot c \<noteq> Left out"
    "probe_from root slot c \<noteq> Dropped locks out"
  by (simp_all add: probe_from_def)

lemma demand_ok_kept:
  "demand_ok E root demands c \<Longrightarrow> sc_owner c' = sc_owner c \<Longrightarrow> demanding (sc_phase c)
     \<Longrightarrow> demanding (sc_phase c') \<or> sc_phase c' = Killed \<Longrightarrow> demand_ok E root demands c'"
  by (auto simp: demand_ok_def demand_path_of_def)

lemma inner_step_demanding:
  "probe_step root ev sh c = Some r \<or> hold_step root ev sh c = Some r
     \<Longrightarrow> demanding (sc_phase c) \<and> demanding (sc_phase (snd r)) \<and> sh_demands (fst r) = sh_demands sh
         \<and> sc_owner (snd r) = sc_owner c"
  by (auto simp: probe_step_def hold_step_def release_phase_def
      split: shelf_phase.split_asm shelf_event.split_asm if_split_asm option.split_asm list.split_asm sum.split_asm)

definition demand_step_ok :: "scanenv \<Rightarrow> ucs \<Rightarrow> shelf_shared \<Rightarrow> shelf_client \<Rightarrow> shelf_shared \<times> shelf_client \<Rightarrow> bool" where
  "demand_step_ok E root sh c r \<longleftrightarrow> demand_ok E root (sh_demands (fst r)) (snd r)
     \<and> demand_write E root c (sh_demands sh) (sh_demands (fst r))"

lemma enter_step_demand:
  "enter_step E root ev sh c = Some r \<Longrightarrow> demand_ok E root (sh_demands sh) c \<Longrightarrow> demand_step_ok E root sh c r"
  by (auto simp: enter_step_def between_step_def Let_def demand_step_ok_def demand_ok_def demand_write_def demand_path_of_def update_conv'
      split: shelf_phase.split_asm shelf_event.split_asm if_split_asm option.split_asm sum.split_asm)

lemma leave_step_demand:
  "leave_step E root ev sh c = Some r \<Longrightarrow> demand_ok E root (sh_demands sh) c \<Longrightarrow> demand_step_ok E root sh c r"
  by (auto simp: leave_step_def demand_step_ok_def demand_ok_def demand_write_def demand_path_of_def delete_conv'
      split: shelf_phase.split_asm shelf_event.split_asm list.split_asm option.split_asm sum.split_asm)

lemma exclusive_step_demand:
  "exclusive_step root ev sh c = Some r \<Longrightarrow> record_ok root owners c \<Longrightarrow> demand_step_ok E root sh c r"
  by (auto simp: exclusive_step_def demand_step_ok_def demand_ok_def demand_write_def demand_path_of_def record_ok_def
      split: shelf_phase.split_asm shelf_event.split_asm list.split_asm option.split_asm sum.split_asm)

lemma client_step_demand:
  assumes "client_step E root ev sh c = Some r" and ok: "demand_ok E root (sh_demands sh) c"
    and rec: "record_ok root (sh_owners sh) c"
  shows "demand_step_ok E root sh c r"
  using assms(1)
proof (rule client_step_cases)
  assume "probe_step root ev sh c = Some r"
  with inner_step_demanding [of root ev sh c r] ok show ?thesis
    by (auto simp: demand_step_ok_def demand_write_def intro: demand_ok_kept)
next
  assume "hold_step root ev sh c = Some r"
  with inner_step_demanding [of root ev sh c r] ok show ?thesis
    by (auto simp: demand_step_ok_def demand_write_def intro: demand_ok_kept)
next
  assume "kill_client sh c = Some r"
  then show ?thesis by (auto simp: kill_client_def demand_step_ok_def demand_write_def demand_ok_def)
qed (use ok rec in \<open>blast intro: enter_step_demand leave_step_demand exclusive_step_demand\<close>)+


section \<open>The invariant of all participants\<close>

definition client_ok :: "scanenv \<Rightarrow> ucs \<Rightarrow> shelf_shared \<Rightarrow> nat \<Rightarrow> shelf_client \<Rightarrow> bool" where
  "client_ok E root sh i c \<longleftrightarrow> sc_id c = i \<and> locks_ok root (sh_locks sh) c
     \<and> record_ok root (sh_owners sh) c \<and> demand_ok E root (sh_demands sh) c"

definition apart :: "scanenv \<Rightarrow> ucs \<Rightarrow> shelf_client \<Rightarrow> shelf_client \<Rightarrow> bool" where
  "apart E root c d \<longleftrightarrow> (sc_owner c \<noteq> None \<longrightarrow> sc_owner d \<noteq> sc_owner c)
     \<and> (demand_path_of E root c \<noteq> None \<longrightarrow> demand_path_of E root d \<noteq> demand_path_of E root c)"

definition shelf_inv :: "scanenv \<Rightarrow> ucs \<Rightarrow> shelf_state \<Rightarrow> bool" where
  "shelf_inv E root S \<longleftrightarrow> (\<forall>i c. snd S i = Some c \<longrightarrow> client_ok E root (fst S) i c)
     \<and> (\<forall>i j c d. snd S i = Some c \<longrightarrow> snd S j = Some d \<longrightarrow> i \<noteq> j \<longrightarrow> apart E root c d)"

lemma shelf_invD:
  "shelf_inv E root (sh, C) \<Longrightarrow> C i = Some c \<Longrightarrow> client_ok E root sh i c"
  "shelf_inv E root (sh, C) \<Longrightarrow> C i = Some c \<Longrightarrow> C j = Some d \<Longrightarrow> i \<noteq> j \<Longrightarrow> apart E root c d"
  by (auto simp: shelf_inv_def)

lemma holder_slot:
  "locks_ok root L c \<Longrightarrow> holds_slot (sc_phase c)
     \<Longrightarrow> valid_slot c (sc_slot c) \<and> L (slot_lock root (sc_slot c)) = Some (sc_id c)"
  by (simp add: locks_ok_def shape_def slot_in_group)

lemma slots_differ:
  assumes "locks_ok root L c" "locks_ok root L d" "sc_id c \<noteq> sc_id d"
    and "holds_slot (sc_phase c)" "holds_slot (sc_phase d)"
  shows "sc_slot c \<noteq> sc_slot d \<and> shelf_owner_path root (sc_slot c) \<noteq> shelf_owner_path root (sc_slot d)"
  using holder_slot [OF assms(1,4)] holder_slot [OF assms(2,5)] assms(3)
  by (auto simp: valid_slot_def shelf_owner_path_eq)

lemma locks_ok_other:
  "locks_ok root L d \<Longrightarrow> own_locks_only i L L' \<Longrightarrow> sc_id d \<noteq> i \<Longrightarrow> locks_ok root L' d"
  by (simp add: locks_ok_def own_locks_only_def)

lemma demand_ok_other:
  "demand_ok E root demands d \<Longrightarrow> demand_write E root c demands demands' \<Longrightarrow> apart E root d c
     \<Longrightarrow> demand_ok E root demands' d"
  by (auto simp: demand_ok_def demand_write_def apart_def)

lemma client_step_ok:
  assumes "client_step E root ev sh c = Some (sh', c')" "client_ok E root sh i c"
  shows "client_ok E root sh' i c'"
  using client_step_locks [of root sh c E ev] client_step_record [OF assms(1)] client_step_demand [OF assms(1)] assms
  by (auto simp: client_ok_def lock_step_ok_def demand_step_ok_def)

lemma client_step_others:
  assumes step: "client_step E root ev sh c = Some (sh', c')" and c: "client_ok E root sh i c"
    and d: "client_ok E root sh j d" and "i \<noteq> j" and ap: "apart E root c d" "apart E root d c"
  shows "client_ok E root sh' j d"
proof -
  from c d have L: "locks_ok root (sh_locks sh) c" "locks_ok root (sh_locks sh) d" and ids: "sc_id c \<noteq> sc_id d"
    using \<open>i \<noteq> j\<close> by (auto simp: client_ok_def)
  have "locks_ok root (sh_locks sh') d"
    using client_step_locks [OF L(1) step] ids L(2) by (auto simp: lock_step_ok_def intro: locks_ok_other)
  moreover have "record_ok root (sh_owners sh') d"
    by (rule others_record [OF client_step_writes [OF step], simplified])
      (use c d ap slots_differ [OF L ids] in \<open>auto simp: client_ok_def apart_def\<close>)
  moreover have "demand_ok E root (sh_demands sh') d"
    using client_step_demand [OF step] c d ap(2)
    by (auto simp: client_ok_def demand_step_ok_def intro: demand_ok_other)
  ultimately show ?thesis using d by (simp add: client_ok_def)
qed

lemma client_step_identity:
  assumes "client_step E root ev sh c = Some (sh', c')" "client_ok E root sh i c"
  shows "sc_owner c' = sc_owner c \<and> demand_path_of E root c' = demand_path_of E root c"
  using client_step_locks [of root sh c E ev] assms
  by (auto simp: client_ok_def lock_step_ok_def demand_path_of_def)

lemma arriving_ok:
  assumes "arriving root i c" "i \<notin> ran (sh_locks sh)" "fresh_attempt E root (sh, C) c"
  shows "client_ok E root sh i c"
proof -
  have free: "sh_locks sh p \<noteq> Some i" for p using assms(2) by (auto simp: ran_def)
  have "records_of (sh_owners sh) a = {}" if "sc_owner c = Some a" for a
    using assms(3) that by (force simp: fresh_attempt_def records_of_def dest: map_of_SomeD)
  moreover have "map_of (sh_demands sh) p = None" if "demand_path_of E root c = Some p" for p
    using assms(3) that demand_path_owner [OF that] by (auto simp: fresh_attempt_def map_of_eq_None_iff)
  ultimately show ?thesis
    using assms(1) free by (auto simp: client_ok_def arriving_def record_ok_def demand_ok_def locks_ok_def
        shape_at exclusive_paths_all demand_path_of_def)
qed

lemma fresh_apart:
  "fresh_attempt E root (sh, C) c \<Longrightarrow> C j = Some d \<Longrightarrow> apart E root c d \<and> apart E root d c"
  by (auto simp: fresh_attempt_def apart_def demand_path_of_def split: option.split_asm) (metis not_Some_eq)+

lemma foreign_ok:
  "client_ok E root sh i c \<Longrightarrow> own_locks_only j (sh_locks sh) L \<Longrightarrow> i \<noteq> j
     \<Longrightarrow> client_ok E root (sh\<lparr>sh_locks := L\<rparr>) i c"
  by (auto simp: client_ok_def intro: locks_ok_other)

lemma shelf_step_inv:
  assumes "shelf_step E root S S'" "shelf_inv E root S"
  shows "shelf_inv E root S'"
  using assms
proof induction
  case (arrives C i sh c)
  then show ?case
    using arriving_ok [of root i c sh E C] fresh_apart [of E root sh C c] by (auto simp: shelf_inv_def)
next
  case (runs C i c ev sh sh' c')
  note inv = shelf_invD [OF runs.prems]
  have c: "client_ok E root sh i c" using inv(1) runs.hyps(1) .
  note id = client_step_identity [OF runs.hyps(3) c]
  have "client_ok E root sh' j d" if "C j = Some d" "j \<noteq> i" for j d
    by (rule client_step_others [OF runs.hyps(3) c inv(1) [OF that(1)]]) (use that runs.hyps(1) inv(2) in auto)
  moreover have "apart E root c' d \<and> apart E root d c'" if "C j = Some d" "j \<noteq> i" for j d
    using inv(2) [OF runs.hyps(1) that(1)] inv(2) [OF that(1) runs.hyps(1)] that(2) id by (auto simp: apart_def)
  ultimately show ?case
    using client_step_ok [OF runs.hyps(3) c] inv(2) by (auto simp: shelf_inv_def)
next
  case (foreign_locks C j p sh L)
  then show ?case by (auto simp: shelf_inv_def dest: flock_ex_own intro: foreign_ok)
next
  case (foreign_unlocks C j sh p)
  then show ?case by (auto simp: shelf_inv_def intro!: foreign_ok [where j = j])
qed

lemma shelf_run_inv: "shelf_run E root S \<Longrightarrow> shelf_inv E root S"
proof (induction rule: shelf_run.induct)
  case (start sh)
  show ?case by (simp add: shelf_inv_def)
qed (rule shelf_step_inv)

end
