(* ===== verification/Shelf_Admission_Props.thy ===== *)
theory Shelf_Admission_Props
  imports Shelf_Admission_Inv
begin

text \<open>
  Slots are exclusive, owner records belong to the slot they name, whoever left holds nothing, and a route that is
  left alone takes the lowest free slot; a run in which an exclusive closure and an admission overlap.
\<close>

section \<open>What admission promises\<close>

text \<open>C17: An admitted route holds a slot of its capacity with every lock file of the slot, slot one with the lock file
  of the retired namespace as well; no other participant is admitted to the slot, and no exclusive closure whose
  capacity reaches the slot succeeds meanwhile, whatever the interleaving, the interruptions and deaths of
  participants, and the locks of other programs.\<close>

theorem admitted_slots_are_exclusive:
  assumes "shelf_run E root (sh, C)" and c: "C i = Some c" "sc_phase c = Admitted locks"
  shows "1 \<le> sc_slot c \<and> int (sc_slot c) \<le> sc_capacity c
    \<and> sh_locks sh (slot_lock root (sc_slot c)) = Some i
    \<and> (sc_slot c = 1 \<longrightarrow> sh_locks sh (legacy_lock root) = Some i)
    \<and> (\<forall>j d. C j = Some d \<longrightarrow> j \<noteq> i \<longrightarrow>
         (\<forall>locks'. sc_phase d = Admitted locks' \<longrightarrow> sc_slot d \<noteq> sc_slot c)
         \<and> (\<forall>acquired. sc_phase d = Retired True acquired \<longrightarrow> sc_capacity d < int (sc_slot c)))"
proof -
  note inv = shelf_run_inv [OF assms(1)]
  have ok: "sc_id d = j \<and> locks_ok root (sh_locks sh) d" if "C j = Some d" for j d
    using shelf_invD(1) [OF inv that] by (simp add: client_ok_def)
  from ok [OF c(1)] have L: "locks_ok root (sh_locks sh) c" "sc_id c = i" by simp_all
  note slot = holder_slot [OF L(1)]
  have "sh_locks sh (legacy_lock root) = Some i" if "sc_slot c = 1"
    using L c(2) that by (simp add: locks_ok_def shape_def lock_group_def)
  moreover have "sc_slot d \<noteq> sc_slot c" if "C j = Some d" "j \<noteq> i" "sc_phase d = Admitted locks'" for j d locks'
    using slots_differ [of root "sh_locks sh" d c] ok [OF that(1)] L that(2,3) c(2) by simp
  moreover have "sc_capacity d < int (sc_slot c)" if d: "C j = Some d" "j \<noteq> i" "sc_phase d = Retired True acquired" for j d acquired
  proof (rule ccontr)
    assume "\<not> sc_capacity d < int (sc_slot c)"
    then have "sc_slot c \<in> {1..<nat (sc_capacity d) + 1}" using slot c(2) by (auto simp: valid_slot_def)
    then have "slot_lock root (sc_slot c) \<in> set (all_paths root (sc_capacity d))"
      by (auto simp: all_paths_def simp del: upt_Suc)
    also have "set (all_paths root (sc_capacity d)) = set acquired"
      using ok [OF d(1)] d(3) by (metis locks_ok_shape set_rev shape_at(18))
    finally have "sh_locks sh (slot_lock root (sc_slot c)) = Some j"
      using ok [OF d(1)] d(3) by (metis held.simps(9) locks_ok_def)
    with slot L c(2) d(2) show False by simp
  qed
  ultimately show ?thesis using slot L c(2) by (auto simp: valid_slot_def)
qed

text \<open>C18: While a route with an attempt id is admitted, its owner record is the one stored for its slot and the only
  record of the attempt, although others write and clear records between any two of its calls.\<close>

theorem admitted_owner_is_recorded:
  assumes "shelf_run E root (sh, C)" "C i = Some c" "sc_phase c = Admitted locks" "sc_owner c = Some a"
  shows "map_of (sh_owners sh) (shelf_owner_path root (sc_slot c)) = Some a
    \<and> (\<forall>p. map_of (sh_owners sh) p = Some a \<longrightarrow> p = shelf_owner_path root (sc_slot c))"
  using shelf_invD(1) [OF shelf_run_inv [OF assms(1)] assms(2)] assms(3,4)
  by (auto simp: client_ok_def record_ok_def map_of_records)

text \<open>C19: A participant that left or was killed holds no lock.  If it left, its demand record is gone unless an exception
  was raised in front of one of the three \<open>try\<close> statements or out of the last \<open>finally\<close> block, and its owner record is
  gone unless the clearing of that record or the last \<open>finally\<close> block raised.\<close>

theorem left_participants_hold_nothing:
  assumes "shelf_run E root (sh, C)" "C i = Some c" "sc_phase c = Killed \<or> sc_phase c = Left out"
  shows "(\<forall>p. sh_locks sh p \<noteq> Some i)
    \<and> (sc_phase c = Left out \<longrightarrow> (\<forall>e. out \<noteq> Unprotected e \<and> out \<noteq> Abandoned e) \<longrightarrow>
         (\<forall>p. demand_path_of E root c = Some p \<longrightarrow> map_of (sh_demands sh) p = None))
    \<and> (sc_phase c = Left out \<longrightarrow> (\<forall>e. out \<noteq> Cleanup_Raised e \<and> out \<noteq> Abandoned e) \<longrightarrow>
         (\<forall>a p. sc_owner c = Some a \<longrightarrow> map_of (sh_owners sh) p \<noteq> Some a))"
proof -
  have ok: "client_ok E root sh i c" by (rule shelf_invD(1) [OF shelf_run_inv [OF assms(1)] assms(2)])
  have "cleared_up out" if "\<forall>e. out \<noteq> Unprotected e \<and> out \<noteq> Abandoned e"
    using that by (cases out) auto
  moreover have "\<not> cleanup_raised out" if "\<forall>e. out \<noteq> Cleanup_Raised e \<and> out \<noteq> Abandoned e"
    using that by (cases out) auto
  ultimately show ?thesis using ok assms(3)
    by (auto simp: client_ok_def record_ok_def locks_ok_def demand_ok_def map_of_records)
qed

section \<open>Probing without interference\<close>

text \<open>A participant running alone.\<close>

fun go_steps :: "scanenv \<Rightarrow> ucs \<Rightarrow> nat \<Rightarrow> shelf_shared \<times> shelf_client \<Rightarrow> (shelf_shared \<times> shelf_client) option" where
  "go_steps E root 0 r = Some r"
| "go_steps E root (Suc n) r =
     (case client_step E root Go (fst r) (snd r) of None \<Rightarrow> None | Some r' \<Rightarrow> go_steps E root n r')"

lemma go_steps_add:
  "go_steps E root m r = Some r' \<Longrightarrow> go_steps E root n r' = Some r'' \<Longrightarrow> go_steps E root (m + n) r = Some r''"
  by (induction m arbitrary: r) (auto split: option.split_asm)

lemma go_step: "client_step E root Go sh c = Some r \<Longrightarrow> go_steps E root n r = r' \<Longrightarrow> go_steps E root (Suc n) (sh, c) = r'"
  by simp

lemma flock_unlock: "L p = None \<Longrightarrow> flock_un i p (L(p \<mapsto> i)) = L"
  by (auto simp: flock_un_def fun_eq_iff)

lemma undo_steps:
  "\<exists>n. go_steps E root n (sh, at c (Undoing acquired (Inr slot)))
     = Some (sh\<lparr>sh_locks := fold (flock_un (sc_id c)) acquired (sh_locks sh)\<rparr>, at c (probe_from root slot c))"
proof (induction acquired arbitrary: sh)
  case Nil
  have "go_steps E root 1 (sh, at c (Undoing [] (Inr slot))) = Some (sh, at c (probe_from root slot c))"
    by (simp add: client_step_def enter_step_def probe_step_def probe_from_def lock_groups_def)
  then show ?case by (intro exI [of _ 1]) simp
next
  case (Cons p acquired)
  let ?sh = "sh\<lparr>sh_locks := flock_un (sc_id c) p (sh_locks sh)\<rparr>"
  obtain n where "go_steps E root n (?sh, at c (Undoing acquired (Inr slot)))
      = Some (?sh\<lparr>sh_locks := fold (flock_un (sc_id c)) acquired (sh_locks ?sh)\<rparr>, at c (probe_from root slot c))"
    using Cons.IH by blast
  then show ?case
    by (intro exI [of _ "Suc n"]) (simp add: client_step_def enter_step_def probe_step_def)
qed

lemma probe_group_steps:
  "\<exists>n. go_steps E root n (sh, at c (Probing slot rest acquired)) =
     (case lock_each (sc_id c) rest acquired (sh_locks sh) of
        (True, L) \<Rightarrow> Some (sh\<lparr>sh_locks := L\<rparr>, at (c\<lparr>sc_slot := slot\<rparr>) (Locked (rev acquired @ rest)))
      | (False, L) \<Rightarrow> Some (sh\<lparr>sh_locks := L\<rparr>, at c (probe_from root (slot + 1) c)))"
proof (induction rest arbitrary: sh acquired)
  case Nil
  show ?case by (rule exI [of _ 1]) (simp add: client_step_def enter_step_def probe_step_def)
next
  case (Cons p rest)
  show ?case
  proof (cases "flock_ex (sc_id c) p (sh_locks sh)")
    case None
    obtain n where "go_steps E root n (sh, at c (Undoing acquired (Inr (slot + 1)))) =
        Some (sh\<lparr>sh_locks := fold (flock_un (sc_id c)) acquired (sh_locks sh)\<rparr>, at c (probe_from root (slot + 1) c))"
      using undo_steps by blast
    with None show ?thesis
      by (intro exI [of _ "Suc n"]) (simp add: client_step_def enter_step_def probe_step_def)
  next
    case (Some L)
    obtain n where "go_steps E root n (sh\<lparr>sh_locks := L\<rparr>, at c (Probing slot rest (p # acquired))) =
     (case lock_each (sc_id c) rest (p # acquired) L of
        (True, L) \<Rightarrow> Some (sh\<lparr>sh_locks := L\<rparr>, at (c\<lparr>sc_slot := slot\<rparr>) (Locked (rev acquired @ p # rest)))
      | (False, L) \<Rightarrow> Some (sh\<lparr>sh_locks := L\<rparr>, at c (probe_from root (slot + 1) c)))"
      using Cons.IH [of "sh\<lparr>sh_locks := L\<rparr>" "p # acquired"] by (auto cong: prod.case_cong bool.case_cong)
    with Some show ?thesis
      by (intro exI [of _ "Suc n"]) (simp add: client_step_def enter_step_def probe_step_def)
  qed
qed

lemma lock_each_spec:
  assumes "distinct (acquired @ locks)" "\<And>p. L p = Some i \<longleftrightarrow> p \<in> set acquired"
  shows "lock_each i locks acquired L =
    (if \<forall>p\<in>set locks. L p = None then (True, \<lambda>p. if p \<in> set locks then Some i else L p)
     else (False, \<lambda>p. if p \<in> set acquired then None else L p))"
  using assms
proof (induction locks arbitrary: acquired L)
  case (Cons p locks)
  show ?case
  proof (cases "L p = None")
    case True
    then have "flock_ex i p L = Some (L(p \<mapsto> i))" by (simp add: flock_ex_def)
    moreover have "lock_each i locks (p # acquired) (L(p \<mapsto> i)) =
      (if \<forall>q\<in>set locks. (L(p \<mapsto> i)) q = None
       then (True, \<lambda>q. if q \<in> set locks then Some i else (L(p \<mapsto> i)) q)
       else (False, \<lambda>q. if q \<in> set (p # acquired) then None else (L(p \<mapsto> i)) q))"
      by (rule Cons.IH) (use Cons.prems in auto)
    ultimately show ?thesis using True Cons.prems by (auto simp: fun_eq_iff)
  next
    case False
    moreover from Cons.prems have "L p \<noteq> Some i" by simp
    ultimately have "flock_ex i p L = None" by (auto simp: flock_ex_def)
    moreover have "fold (flock_un i) ps M = (\<lambda>q. if q \<in> set ps \<and> M q = Some i then None else M q)" for ps M
      by (induction ps arbitrary: M) (auto simp: flock_un_def fun_eq_iff)
    ultimately show ?thesis using False Cons.prems(2) by (auto simp: fun_eq_iff)
  qed
qed auto

lemma try_lock_group_spec:
  assumes "distinct locks" "\<And>p. L p \<noteq> Some i"
  shows "try_lock_group i locks L =
    (if \<forall>p\<in>set locks. L p = None then (True, \<lambda>p. if p \<in> set locks then Some i else L p) else (False, L))"
  using lock_each_spec [of "[]" locks L i] assms by (simp add: try_lock_group_def)

text \<open>The slots whose files are all free.\<close>

definition slot_free :: "ucs \<Rightarrow> lock_table \<Rightarrow> nat \<Rightarrow> bool" where
  "slot_free root L slot \<longleftrightarrow> (\<forall>p\<in>set (lock_group root slot). L p = None)"

lemma length_lock_groups: "0 < sc_capacity c \<Longrightarrow> length (lock_groups root c) = nat (sc_capacity c)"
  by (simp add: lock_groups_def shelf_admission_lock_groups_def shelf_admission_paths_def)

lemma pass_steps:
  assumes "0 < sc_capacity c" "\<And>p. sh_locks sh p \<noteq> Some (sc_id c)" "1 \<le> slot"
  shows "\<exists>n sh' c'. go_steps E root n (sh, at c (probe_from root slot c)) = Some (sh', c') \<and>
    (if \<exists>s\<ge>slot. int s \<le> sc_capacity c \<and> slot_free root (sh_locks sh) s
     then \<exists>s. slot \<le> s \<and> int s \<le> sc_capacity c \<and> slot_free root (sh_locks sh) s
         \<and> (\<forall>t. slot \<le> t \<longrightarrow> t < s \<longrightarrow> \<not> slot_free root (sh_locks sh) t)
         \<and> c' = at (c\<lparr>sc_slot := s\<rparr>) (Locked (lock_group root s))
         \<and> sh' = sh\<lparr>sh_locks := (\<lambda>p. if p \<in> set (lock_group root s) then Some (sc_id c) else sh_locks sh p)\<rparr>
     else c' = at c Contended \<and> sh' = sh)"
  using assms(3)
proof (induction "nat (sc_capacity c) + 1 - slot" arbitrary: slot)
  case 0
  then have gt: "sc_capacity c < int slot" by linarith
  with assms(1) have "probe_from root slot c = Contended" by (simp add: probe_from_def length_lock_groups)
  with gt show ?case by (intro exI [of _ 0]) auto
next
  case (Suc k)
  then have le: "int slot \<le> sc_capacity c" by linarith
  then have ph: "probe_from root slot c = Probing slot (lock_group root slot) []"
    using Suc.prems assms(1) lock_groups_nth [of slot root c] by (simp add: probe_from_def length_lock_groups)
  have spec: "lock_each (sc_id c) (lock_group root slot) [] (sh_locks sh) =
      (if slot_free root (sh_locks sh) slot
       then (True, \<lambda>p. if p \<in> set (lock_group root slot) then Some (sc_id c) else sh_locks sh p)
       else (False, sh_locks sh))"
    using try_lock_group_spec [of "lock_group root slot" "sh_locks sh" "sc_id c"] assms(2)
    by (simp add: slot_free_def lock_group_distinct try_lock_group_def)
  obtain n where n: "go_steps E root n (sh, at c (Probing slot (lock_group root slot) [])) =
     (case lock_each (sc_id c) (lock_group root slot) [] (sh_locks sh) of
        (True, L) \<Rightarrow> Some (sh\<lparr>sh_locks := L\<rparr>, at (c\<lparr>sc_slot := slot\<rparr>) (Locked (lock_group root slot)))
      | (False, L) \<Rightarrow> Some (sh\<lparr>sh_locks := L\<rparr>, at c (probe_from root (slot + 1) c)))"
    using probe_group_steps [where E = E and root = root and c = c and sh = sh and slot = slot and rest = "lock_group root slot" and acquired = "[]", unfolded rev.simps append_Nil]
    by blast
  show ?case
  proof (cases "slot_free root (sh_locks sh) slot")
    case True
    with n spec le ph show ?thesis
      by (intro exI [of _ n]) (auto intro!: exI [of _ slot])
  next
    case False
    with n spec have 1: "go_steps E root n (sh, at c (probe_from root slot c)) = Some (sh, at c (probe_from root (slot + 1) c))"
      by (simp add: ph)
    from Suc.hyps(2) have "k = nat (sc_capacity c) + 1 - (slot + 1)" by simp
    from Suc.hyps(1) [OF this] obtain m sh' c' where
      2: "go_steps E root m (sh, at c (probe_from root (slot + 1) c)) = Some (sh', c')" and
      R: "if \<exists>s\<ge>slot + 1. int s \<le> sc_capacity c \<and> slot_free root (sh_locks sh) s
         then \<exists>s. slot + 1 \<le> s \<and> int s \<le> sc_capacity c \<and> slot_free root (sh_locks sh) s
           \<and> (\<forall>t. slot + 1 \<le> t \<longrightarrow> t < s \<longrightarrow> \<not> slot_free root (sh_locks sh) t)
           \<and> c' = at (c\<lparr>sc_slot := s\<rparr>) (Locked (lock_group root s))
           \<and> sh' = sh\<lparr>sh_locks := (\<lambda>p. if p \<in> set (lock_group root s) then Some (sc_id c) else sh_locks sh p)\<rparr>
         else c' = at c Contended \<and> sh' = sh"
      by auto
    have ge: "slot \<le> t \<longleftrightarrow> t = slot \<or> slot + 1 \<le> t" for t by auto
    from R False show ?thesis
      by (intro exI [of _ "n + m"] exI [of _ sh'] exI [of _ c'])
        (simp only: go_steps_add [OF 1 2] ge, auto split: if_split_asm)
  qed
qed

text \<open>Left alone, a route that begins its waiting loop locks the lowest slot of which every file is free, and
  nothing else; when every slot has a locked file it has undone each partial acquisition and reports contention with
  the lock table as it found it.\<close>

theorem undisturbed_probe_takes_first_free_slot:
  assumes "sc_phase c = Opening" "0 < sc_capacity c" "\<forall>p. sh_locks sh p \<noteq> Some (sc_id c)"
  shows "\<exists>n sh' c'. go_steps E root n (sh, c) = Some (sh', c') \<and>
    (if \<exists>s\<ge>1. int s \<le> sc_capacity c \<and> slot_free root (sh_locks sh) s
     then \<exists>s. 1 \<le> s \<and> int s \<le> sc_capacity c \<and> slot_free root (sh_locks sh) s
         \<and> (\<forall>t. 1 \<le> t \<longrightarrow> t < s \<longrightarrow> \<not> slot_free root (sh_locks sh) t)
         \<and> c' = at (c\<lparr>sc_slot := s\<rparr>) (Locked (lock_group root s))
         \<and> sh' = sh\<lparr>sh_locks := (\<lambda>p. if p \<in> set (lock_group root s) then Some (sc_id c) else sh_locks sh p)\<rparr>
     else c' = at c Contended \<and> sh' = sh)"
proof -
  have first: "client_step E root Go sh c = Some (sh, at c Opened)"
    using assms(1) by (simp add: client_step_def enter_step_def)
  have second: "client_step E root Go sh (at c Opened) = Some (sh, at c (probe_from root 1 c))"
    by (simp add: client_step_def enter_step_def between_step_def probe_from_def lock_groups_def)
  obtain n sh' c' where n: "go_steps E root n (sh, at c (probe_from root 1 c)) = Some (sh', c')"
    and R: "if \<exists>s\<ge>1. int s \<le> sc_capacity c \<and> slot_free root (sh_locks sh) s
     then \<exists>s. 1 \<le> s \<and> int s \<le> sc_capacity c \<and> slot_free root (sh_locks sh) s
         \<and> (\<forall>t. 1 \<le> t \<longrightarrow> t < s \<longrightarrow> \<not> slot_free root (sh_locks sh) t)
         \<and> c' = at (c\<lparr>sc_slot := s\<rparr>) (Locked (lock_group root s))
         \<and> sh' = sh\<lparr>sh_locks := (\<lambda>p. if p \<in> set (lock_group root s) then Some (sc_id c) else sh_locks sh p)\<rparr>
     else c' = at c Contended \<and> sh' = sh"
    using pass_steps [of c sh 1 E root] assms(2,3) by auto
  from go_step [OF first go_step [OF second n]] R show ?thesis by blast
qed

section \<open>A run\<close>

text \<open>Executable runs: each entry names the participant and the event.\<close>

fun run_events :: "scanenv \<Rightarrow> ucs \<Rightarrow> (nat \<times> shelf_event) list \<Rightarrow> shelf_state \<Rightarrow> shelf_state option" where
  "run_events E root [] S = Some S"
| "run_events E root ((i, ev) # evs) S =
     (case snd S i of
        None \<Rightarrow> None
      | Some c \<Rightarrow>
          (if (case ev of Counted n \<Rightarrow> n \<le> length (sh_demands (fst S)) | _ \<Rightarrow> True)
           then (case client_step E root ev (fst S) c of
                   None \<Rightarrow> None
                 | Some (sh', c') \<Rightarrow> run_events E root evs (sh', (snd S)(i \<mapsto> c')))
           else None))"

lemma run_events_run:
  "shelf_run E root S \<Longrightarrow> run_events E root evs S = Some S' \<Longrightarrow> shelf_run E root S'"
proof (induction evs arbitrary: S)
  case (Cons e evs)
  obtain i ev where e: "e = (i, ev)" by fastforce
  obtain sh C where S: "S = (sh, C)" by fastforce
  from Cons.prems(2) obtain c sh' c' where c: "C i = Some c" "client_step E root ev sh c = Some (sh', c')"
    and n: "\<forall>n. ev = Counted n \<longrightarrow> n \<le> length (sh_demands sh)" and rest: "run_events E root evs (sh', C(i \<mapsto> c')) = Some S'"
    by (auto simp: e S split: option.split_asm if_split_asm shelf_event.split_asm)
  have "shelf_step E root S (sh', C(i \<mapsto> c'))" unfolding S by (rule shelf_step.runs [where i = i]) (use c n in auto)
  from Cons.IH [OF step [OF Cons.prems(1) this] rest] show ?case .
qed simp

definition shelf_env :: scanenv where
  "shelf_env = \<lparr>py_category = (\<lambda>c. ''Ll''), py_isdigit = (\<lambda>c. 48 \<le> c \<and> c \<le> 57), py_isupper = (\<lambda>c. 65 \<le> c \<and> c \<le> 90),
     py_sha256 = (\<lambda>bs. ''00''), py_isalnum = (\<lambda>c. ascii_letter c \<or> (48 \<le> c \<and> c \<le> 57))\<rparr>"

definition shelf_root :: ucs where "shelf_root = asc ''/s''"

definition route :: "nat \<Rightarrow> string \<Rightarrow> shelf_client" where
  "route i a = \<lparr>sc_id = i, sc_capacity = 1, sc_owner = Some (asc a), sc_wait = True, sc_expander = Some (\<lambda>n. n),
     sc_contended = False, sc_slot = 0, sc_phase = Entered\<rparr>"

definition monitor :: "nat \<Rightarrow> shelf_client" where
  "monitor i = \<lparr>sc_id = i, sc_capacity = 1, sc_owner = None, sc_wait = False, sc_expander = None,
     sc_contended = False, sc_slot = 0, sc_phase = Retiring (all_paths shelf_root 1) []\<rparr>"

definition arrived :: shelf_state where
  "arrived = (\<lparr>sh_locks = (\<lambda>_. None), sh_demands = [], sh_owners = []\<rparr>,
     (\<lambda>_. None)(0 \<mapsto> monitor 0, 1 \<mapsto> route 1 ''a'', 2 \<mapsto> route 2 ''b''))"

lemma arrived_run: "shelf_run shelf_env shelf_root arrived"
proof -
  let ?sh = "\<lparr>sh_locks = (\<lambda>_. None), sh_demands = [], sh_owners = []\<rparr> :: shelf_shared"
  have p: "shelf_demand_path shelf_env shelf_root (asc ''a'') = Inr (asc ''/s/admission-demands/a.json'')"
    "shelf_demand_path shelf_env shelf_root (asc ''b'') = Inr (asc ''/s/admission-demands/b.json'')"
    by code_simp+
  have ps: "exclusive_paths shelf_root 1 = Inr (all_paths shelf_root 1)"
    by (simp add: exclusive_paths_def shelf_admission_paths_def all_paths_def)
  have 0: "shelf_run shelf_env shelf_root (?sh, \<lambda>_. None)" by (rule shelf_run.start)
  have 1: "shelf_run shelf_env shelf_root (?sh, (\<lambda>_. None)(0 \<mapsto> monitor 0))"
    by (rule shelf_run.step [OF 0 arrives]) (use ps in \<open>auto simp: arriving_def monitor_def fresh_attempt_def\<close>)
  have 2: "shelf_run shelf_env shelf_root (?sh, (\<lambda>_. None)(0 \<mapsto> monitor 0, 1 \<mapsto> route 1 ''a''))"
    by (rule shelf_run.step [OF 1 arrives])
      (auto simp: arriving_def route_def monitor_def fresh_attempt_def demand_path_of_def p)
  show ?thesis unfolding arrived_def
    by (rule shelf_run.step [OF 2 arrives])
      (auto simp: arriving_def route_def monitor_def fresh_attempt_def demand_path_of_def p, simp_all add: asc_def)
qed

text \<open>The monitor closes slot one; two routes announce themselves; the first counts both, expands to two slots.\<close>

definition overtaking :: "(nat \<times> shelf_event) list" where
  "overtaking = [(0, Go), (0, Go), (0, Go), (1, Go), (1, Go), (2, Go), (1, Counted 2), (1, Go), (1, Go), (1, Go),
     (1, Go), (1, Go), (1, Go), (1, Go), (1, Go)]"

definition overtaken_ok :: bool where
  "overtaken_ok = (case run_events shelf_env shelf_root overtaking arrived of
      Some (sh, C) \<Rightarrow>
        (case (C 0, C 1) of
           (Some m, Some c) \<Rightarrow>
             (case (sc_phase m, sc_phase c) of
                (Retired True _, Admitted _) \<Rightarrow> sc_capacity m = 1 \<and> sc_slot c = 2 \<and> sc_owner c = Some (asc ''a'')
              | _ \<Rightarrow> False)
         | _ \<Rightarrow> False)
    | None \<Rightarrow> False)"

lemma overtaken: overtaken_ok
  by code_simp

lemma overtaken_run:
  obtains sh C m c acquired locks where "shelf_run shelf_env shelf_root (sh, C)"
    "C 0 = Some m" "sc_phase m = Retired True acquired" "sc_capacity m = 1"
    "C 1 = Some c" "sc_phase c = Admitted locks" "sc_slot c = 2" "sc_owner c = Some (asc ''a'')"
proof -
  obtain sh C where run: "run_events shelf_env shelf_root overtaking arrived = Some (sh, C)"
    using overtaken by (auto simp: overtaken_ok_def split: option.split_asm)
  note ok = overtaken [unfolded overtaken_ok_def run option.case prod.case]
  then obtain m c where mc: "C 0 = Some m" "C 1 = Some c" by (auto split: option.split_asm)
  note ok = ok [unfolded mc option.case prod.case]
  then obtain acquired locks where ph: "sc_phase m = Retired True acquired" "sc_phase c = Admitted locks"
    by (auto split: shelf_phase.split_asm bool.split_asm)
  note ok = ok [unfolded ph shelf_phase.case prod.case bool.case]
  show thesis by (rule that [OF run_events_run [OF arrived_run run] mc(1) ph(1) _ mc(2) ph(2)]) (use ok in auto)
qed

text \<open>
  An exclusive closure covers the capacity its caller read, not a slot that a later route adds by its expander: the
  closure succeeds while a route is admitted to slot two.
\<close>

theorem exclusion_misses_expanded_slot:
  "\<exists>sh C m c acquired locks. shelf_run shelf_env shelf_root (sh, C)
     \<and> C 0 = Some m \<and> sc_phase m = Retired True acquired \<and> sc_capacity m = 1
     \<and> C 1 = Some c \<and> sc_phase c = Admitted locks \<and> sc_slot c = 2"
  by (rule overtaken_run) blast

theorem admitted_slots_are_exclusive_witness:
  "\<exists>(sh :: shelf_shared) C (c :: shelf_client). C (1::nat) = Some c \<and> sc_slot c = 2 \<and> int (sc_slot c) \<le> sc_capacity c
     \<and> sh_locks sh (slot_lock shelf_root 2) = Some (1::nat)"
proof (rule overtaken_run)
  fix sh C m c acquired locks
  assume "shelf_run shelf_env shelf_root (sh, C)" "C 1 = Some c" "sc_phase c = Admitted locks" and s: "sc_slot c = 2"
  from admitted_slots_are_exclusive [OF this(1-3)] have
    "int (sc_slot c) \<le> sc_capacity c" "sh_locks sh (slot_lock shelf_root 2) = Some 1" unfolding s by blast+
  with \<open>C 1 = Some c\<close> s show ?thesis by blast
qed

theorem admitted_owner_is_recorded_witness:
  "\<exists>sh :: shelf_shared. map_of (sh_owners sh) (shelf_owner_path shelf_root 2) = Some (asc ''a'')"
proof (rule overtaken_run)
  fix sh C m c acquired locks
  assume "shelf_run shelf_env shelf_root (sh, C)" "C 1 = Some c" "sc_phase c = Admitted locks"
    "sc_owner c = Some (asc ''a'')" and s: "sc_slot c = 2"
  from admitted_owner_is_recorded [OF this(1-4)] show ?thesis unfolding s by blast
qed

definition leaving :: "(nat \<times> shelf_event) list" where
  "leaving = overtaking @ replicate 9 (1, Go)"

definition left_ok :: bool where
  "left_ok = (case run_events shelf_env shelf_root leaving arrived of
      Some (sh, C) \<Rightarrow>
        (case C 1 of
           Some c \<Rightarrow> sc_phase c = Left Returned \<and> sc_owner c = Some (asc ''a'')
         | _ \<Rightarrow> False)
    | None \<Rightarrow> False)"

lemma left_run: left_ok
  by code_simp

theorem left_participants_hold_nothing_witness:
  "\<exists>(sh :: shelf_shared) C (c :: shelf_client). C (1::nat) = Some c \<and> sc_phase c = Left Returned
     \<and> (\<forall>p. sh_locks sh p \<noteq> Some 1) \<and> (\<forall>p. map_of (sh_owners sh) p \<noteq> Some (asc ''a''))"
proof -
  obtain sh C where run: "run_events shelf_env shelf_root leaving arrived = Some (sh, C)"
    using left_run by (auto simp: left_ok_def split: option.split_asm)
  note ok = left_run [unfolded left_ok_def run option.case prod.case]
  then obtain c where c: "C 1 = Some c" by (auto split: option.split_asm)
  from ok [unfolded c option.case] have ph: "sc_phase c = Left Returned" "sc_owner c = Some (asc ''a'')" by simp_all
  note held = left_participants_hold_nothing [OF run_events_run [OF arrived_run run] c disjI2, OF ph(1)]
  have "\<forall>p. sh_locks sh p \<noteq> Some 1" using held by blast
  moreover have "\<forall>p. map_of (sh_owners sh) p \<noteq> Some (asc ''a'')" using held ph by auto
  ultimately show ?thesis using c ph(1) by blast
qed

text \<open>
  A keyboard interrupt between the writing of the demand record and the \<open>try\<close> statement after it leaves the record of a
  route that is gone.
\<close>

theorem interrupted_entry_keeps_demand:
  "\<exists>sh C c. shelf_run shelf_env shelf_root (sh, C) \<and> C 1 = Some c \<and> sc_phase c = Left (Unprotected KeyboardInterrupt)
     \<and> map_of (sh_demands sh) (asc ''/s/admission-demands/a.json'') = Some (asc ''a'')"
proof -
  have "(case run_events shelf_env shelf_root [(1, Go), (1, Interrupt)] arrived of
      Some (sh, C) \<Rightarrow> map_of (sh_demands sh) (asc ''/s/admission-demands/a.json'') = Some (asc ''a'')
        \<and> (case C 1 of Some c \<Rightarrow> sc_phase c = Left (Unprotected KeyboardInterrupt) | None \<Rightarrow> False)
    | None \<Rightarrow> False)"
    by code_simp
  then obtain sh C c where r: "run_events shelf_env shelf_root [(1, Go), (1, Interrupt)] arrived = Some (sh, C)"
    "C 1 = Some c" "sc_phase c = Left (Unprotected KeyboardInterrupt)"
    "map_of (sh_demands sh) (asc ''/s/admission-demands/a.json'') = Some (asc ''a'')"
    by (auto split: option.split_asm)
  from run_events_run [OF arrived_run r(1)] r(2-4) show ?thesis by blast
qed

theorem undisturbed_probe_takes_first_free_slot_witness:
  "\<exists>n sh' c'. go_steps shelf_env shelf_root n (fst arrived, at (route 1 ''a'') Opening) = Some (sh', c')
     \<and> sc_phase c' = Locked [legacy_lock shelf_root, slot_lock shelf_root 1]"
proof -
  let ?c = "at (route 1 ''a'') Opening"
  have f: "sh_locks (fst arrived) p = None" for p by (simp add: arrived_def)
  have c: "sc_phase ?c = Opening" "0 < sc_capacity ?c" by (simp_all add: route_def)
  have ex: "\<exists>s\<ge>1. int s \<le> sc_capacity ?c \<and> slot_free shelf_root (sh_locks (fst arrived)) s"
    by (intro exI [of _ 1]) (simp add: f slot_free_def route_def)
  have "\<forall>p. sh_locks (fst arrived) p \<noteq> Some (sc_id ?c)" by (simp add: f)
  from undisturbed_probe_takes_first_free_slot [OF c this, of shelf_env shelf_root, unfolded if_P [OF ex]]
  obtain n sh' c' s where n: "go_steps shelf_env shelf_root n (fst arrived, ?c) = Some (sh', c')"
    and s: "1 \<le> s" "int s \<le> sc_capacity ?c" "c' = at (?c\<lparr>sc_slot := s\<rparr>) (Locked (lock_group shelf_root s))"
    by blast
  from s(1,2) have "s = 1" by (simp add: route_def)
  with s(3) have "sc_phase c' = Locked [legacy_lock shelf_root, slot_lock shelf_root 1]"
    by (simp add: lock_group_def)
  with n show ?thesis by blast
qed

end
