(* ===== verification/Attempt_Cleanup.thy ===== *)
theory Attempt_Cleanup
  imports Polling Process_Table Json
begin

text \<open>
  The bounded wait for the cleanup of one disposable attempt (\<open>pools/fork_attempt_lifecycle.py\<close>): the registry
  of active children is read again and again, and only a child that was listed and is no longer listed counts as
  quiescent.  \<open>F\<close> gives what \<open>read_json_strict\<close> makes of the registry file at each moment, an object or
  the text of the exception; the clock is that of the history \<open>H\<close>.
\<close>

section \<open>Python's \<open>int\<close> of a string\<close>

definition char_space :: "char \<Rightarrow> bool" where
  "char_space c \<longleftrightarrow> (let n = of_char c :: nat in 9 \<le> n \<and> n \<le> 13 \<or> n = 32 \<or> n = 133 \<or> n = 160)"

definition char_digit :: "char \<Rightarrow> nat option" where
  "char_digit c = (let n = of_char c :: nat in if 48 \<le> n \<and> n \<le> 57 then Some (n - 48) else None)"

fun int_digits :: "bool \<Rightarrow> nat \<Rightarrow> string \<Rightarrow> nat option" where
  "int_digits after acc [] = (if after then Some acc else None)"
| "int_digits after acc (c # cs) =
     (case char_digit c of
        Some d \<Rightarrow> int_digits True (acc * 10 + d) cs
      | None \<Rightarrow> if c = CHR ''_'' \<and> after then int_digits False acc cs else None)"

definition py_strip :: "string \<Rightarrow> string" where
  "py_strip s = rev (dropWhile char_space (rev (dropWhile char_space s)))"

text \<open>A text of more than 4300 digits is refused.\<close>

definition py_int_text :: "string \<Rightarrow> int option" where
  "py_int_text s =
     (case py_strip s of
        [] \<Rightarrow> None
      | c # cs \<Rightarrow>
          if 4300 < length (filter (\<lambda>d. char_digit d \<noteq> None) (c # cs)) then None
          else if c = CHR ''-'' then map_option (\<lambda>n. - int n) (int_digits False 0 cs)
          else if c = CHR ''+'' then map_option int (int_digits False 0 cs)
          else map_option int (int_digits False 0 (c # cs)))"

text \<open>\<open>int(str(v or ""))\<close>: only integers and strings have a text that is one.\<close>

definition int_field :: "json \<Rightarrow> int option" where
  "int_field v =
     (if truthy v then (case v of J_int i \<Rightarrow> Some i | J_str s \<Rightarrow> py_int_text s | _ \<Rightarrow> None) else None)"

section \<open>The registry\<close>

definition ACTIVE_CHILDREN_SCHEMA :: string where
  "ACTIVE_CHILDREN_SCHEMA = ''proof-run.fork-active-children.v1''"

definition attempt_of :: "dict \<Rightarrow> string option" where
  "attempt_of child = (case dget child ''attempt_id'' of J_str s \<Rightarrow> if s = [] then None else Some s | _ \<Rightarrow> None)"

definition registry_row_ok :: "dict \<Rightarrow> bool" where
  "registry_row_ok child =
     (case (int_field (dget child ''pid''), int_field (dget child ''pgid''),
            int_field (dget child ''process_start_ticks'')) of
        (Some pid, Some pgid, Some ticks) \<Rightarrow>
          attempt_of child \<noteq> None \<and> 0 < pid \<and> 0 < pgid \<and> 0 < ticks
          \<and> dget child ''process_identity'' = J_str (''linux-proc:'' @ int_text ticks)
      | _ \<Rightarrow> False)"

text \<open>\<open>AttemptRegistrySnapshot\<close>: the matching children, or the reason why the registry is invalid.\<close>

definition attempt_children :: "string + dict \<Rightarrow> string \<Rightarrow> string + dict list" where
  "attempt_children registry attempt_id =
     (case registry of
        Inl e \<Rightarrow> Inl e
      | Inr data \<Rightarrow>
          (case dget data ''children'' of
             J_list rows \<Rightarrow>
               if dget data ''schema'' \<noteq> J_str ACTIVE_CHILDREN_SCHEMA
               then Inl ''invalid active-child registry schema''
               else if \<not> list_all (\<lambda>r. case r of J_obj _ \<Rightarrow> True | _ \<Rightarrow> False) rows
               then Inl ''active-child registry contains a non-object row''
               else if \<not> list_all registry_row_ok (dicts rows)
               then Inl ''active-child registry contains an invalid child row''
               else Inr (filter (\<lambda>d. attempt_of d = Some attempt_id) (dicts rows))
           | _ \<Rightarrow> Inl ''invalid active-child registry schema''))"

section \<open>Waiting\<close>

type_synonym registry_reads = "nat \<Rightarrow> string + dict"

definition cleanup_report :: "string \<Rightarrow> string \<Rightarrow> bool \<Rightarrow> (string \<times> json) list \<Rightarrow> dict" where
  "cleanup_report status registry observed rest =
     [(''status'', J_str status), (''registry'', J_str registry), (''observed'', J_bool observed)] @ rest"

text \<open>One turn of the loop; whether a child was listed before is part of what the loop carries.\<close>

definition cleanup_turn :: "history \<Rightarrow> registry_reads \<Rightarrow> string \<Rightarrow> string \<Rightarrow> int \<Rightarrow> bool \<Rightarrow> run_state
    \<Rightarrow> (dict option \<times> bool) \<times> run_state" where
  "cleanup_turn H F registry attempt_id deadline observed s =
     (case attempt_children (F (rs_time s)) attempt_id of
        Inl e \<Rightarrow> ((Some (cleanup_report ''unverified'' registry observed [(''reason'', J_str e)]), observed), tick s)
      | Inr children \<Rightarrow>
          (let observed' = (observed \<or> children \<noteq> [])
           in if observed' \<and> children = [] then ((Some (cleanup_report ''quiescent'' registry observed' []), observed'), tick s)
              else let (now, s1) = observe H sn_now (tick s)
                   in ((if deadline \<le> now
                        then Some (cleanup_report (if children \<noteq> [] then ''survivors'' else ''unverified'') registry observed'
                               [(''children'', J_list (map J_obj children))])
                        else None, observed'), s1)))"

partial_function (option) cleanup_loop :: "history \<Rightarrow> registry_reads \<Rightarrow> string \<Rightarrow> string \<Rightarrow> int \<Rightarrow> bool \<Rightarrow> run_state
    \<Rightarrow> (dict \<times> run_state) option" where
  [code]: "cleanup_loop H F registry attempt_id deadline observed s =
     (case cleanup_turn H F registry attempt_id deadline observed s of
        ((Some r, _), s1) \<Rightarrow> Some (r, s1)
      | ((None, observed'), s1) \<Rightarrow> cleanup_loop H F registry attempt_id deadline observed' (tick s1))"

definition wait_for_fork_attempt_cleanup :: "pyrt \<Rightarrow> history \<Rightarrow> registry_reads \<Rightarrow> dict \<Rightarrow> string \<Rightarrow> int \<Rightarrow> run_state
    \<Rightarrow> (dict \<times> run_state) option" where
  "wait_for_fork_attempt_cleanup R H F session attempt_id timeout s =
     (let registry = dget session ''active_children_registry''
      in if \<not> truthy registry
         then Some ([(''status'', J_str ''unverified''), (''reason'', J_str ''active-child registry unavailable'')], s)
         else let (started, s1) = observe H sn_now s
              in cleanup_loop H F (py_str R registry) attempt_id (started + timeout) False s1)"

section \<open>What the wait shows\<close>

definition listed :: "registry_reads \<Rightarrow> string \<Rightarrow> nat \<Rightarrow> bool" where
  "listed F attempt_id t \<longleftrightarrow> (\<exists>c cs. attempt_children (F t) attempt_id = Inr (c # cs))"

definition unlisted :: "registry_reads \<Rightarrow> string \<Rightarrow> nat \<Rightarrow> bool" where
  "unlisted F attempt_id t \<longleftrightarrow> attempt_children (F t) attempt_id = Inr []"

lemma cleanup_report_status: "dget (cleanup_report status registry observed rest) ''status'' = J_str status"
  by (simp add: cleanup_report_def dget_Cons)

lemma cleanup_turn_cases:
  assumes "cleanup_turn H F registry attempt_id deadline observed s = ((r, observed'), s1)"
  shows "rs_time s < rs_time s1" "observed' \<Longrightarrow> observed \<or> listed F attempt_id (rs_time s)"
    "r = Some d \<Longrightarrow> dget d ''status'' = J_str ''quiescent'' \<Longrightarrow> observed \<and> unlisted F attempt_id (rs_time s)"
    "r = None \<Longrightarrow> \<exists>t. rs_time s \<le> t \<and> t < rs_time s1 \<and> sn_now (H t) < deadline"
proof -
  consider (bad) e where "attempt_children (F (rs_time s)) attempt_id = Inl e"
    | (none) "attempt_children (F (rs_time s)) attempt_id = Inr []"
    | (some) c cs where "attempt_children (F (rs_time s)) attempt_id = Inr (c # cs)"
    by (metis list.exhaust sum.exhaust)
  note cases = this
  show "rs_time s < rs_time s1" "observed' \<Longrightarrow> observed \<or> listed F attempt_id (rs_time s)"
    "r = Some d \<Longrightarrow> dget d ''status'' = J_str ''quiescent'' \<Longrightarrow> observed \<and> unlisted F attempt_id (rs_time s)"
    using assms by (cases rule: cases; auto simp: cleanup_turn_def Let_def observe_def tick_def cleanup_report_status
        listed_def unlisted_def split: if_split_asm)+
  assume "r = None"
  with assms have "sn_now (H (Suc (rs_time s))) < deadline" "rs_time s1 = Suc (Suc (rs_time s))"
    by (cases rule: cases; auto simp: cleanup_turn_def Let_def observe_def tick_def split: if_split_asm)+
  then show "\<exists>t. rs_time s \<le> t \<and> t < rs_time s1 \<and> sn_now (H t) < deadline"
    by (intro exI [of _ "Suc (rs_time s)"]) simp
qed

lemma cleanup_loop_quiescent:
  assumes "cleanup_loop H F registry attempt_id deadline observed s = Some (r, s')"
    and "dget r ''status'' = J_str ''quiescent''"
  shows "\<exists>v. rs_time s \<le> v \<and> v < rs_time s' \<and> unlisted F attempt_id v
      \<and> (observed \<or> (\<exists>u. rs_time s \<le> u \<and> u < v \<and> listed F attempt_id u))"
proof -
  let ?P = "\<lambda>(H :: history) F (registry :: string) attempt_id (deadline :: int) observed s rs.
     dget (fst rs) ''status'' = J_str ''quiescent'' \<longrightarrow>
       (\<exists>v. rs_time s \<le> v \<and> v < rs_time (snd rs) \<and> unlisted F attempt_id v
         \<and> (observed \<or> (\<exists>u. rs_time s \<le> u \<and> u < v \<and> listed F attempt_id u)))"
  have "?P H F registry attempt_id deadline observed s (r, s')"
  proof (rule cleanup_loop.raw_induct [where P = ?P, OF _ assms(1)])
    fix loop H F registry attempt_id deadline observed s rs
    assume IH: "\<And>H F registry attempt_id deadline observed s rs.
        loop H F registry attempt_id deadline observed s = Some rs \<Longrightarrow> ?P H F registry attempt_id deadline observed s rs"
      and body: "(case cleanup_turn H F registry attempt_id deadline observed s of
          ((None, observed'), s1) \<Rightarrow> loop H F registry attempt_id deadline observed' (tick s1)
        | ((Some r, _), s1) \<Rightarrow> Some (r, s1)) = Some rs"
    obtain r observed' s1 where t: "cleanup_turn H F registry attempt_id deadline observed s = ((r, observed'), s1)"
      by (metis prod.exhaust)
    note turn = cleanup_turn_cases [OF t]
    show "?P H F registry attempt_id deadline observed s rs"
    proof (cases r)
      case None
      with body t have "loop H F registry attempt_id deadline observed' (tick s1) = Some rs" by simp
      note ih = IH [OF this, unfolded prod.case]
      have "rs_time s < rs_time (tick s1)" using turn(1) by (simp add: tick_def)
      with ih turn(2) show ?thesis unfolding prod.case by (meson less_imp_le less_le_trans order_trans order_refl)
    next
      case (Some d)
      with body t turn(1,3) show ?thesis by auto
    qed
  qed
  with assms(2) show ?thesis by simp
qed

text \<open>C22: The wait reports a quiescent attempt only when one reading of a well-formed registry listed a child of the
  attempt and a later one listed none; an attempt that was never listed, an unreadable or malformed registry and the
  end of the time are reported otherwise.\<close>

theorem quiescent_cleanup_was_observed:
  assumes "wait_for_fork_attempt_cleanup R H F session attempt_id timeout s = Some (r, s')"
    and "dget r ''status'' = J_str ''quiescent''"
  shows "\<exists>u v. rs_time s \<le> u \<and> u < v \<and> v < rs_time s' \<and> listed F attempt_id u \<and> unlisted F attempt_id v"
proof (cases "truthy (dget session ''active_children_registry'')")
  case True
  with assms(1) have "cleanup_loop H F (py_str R (dget session ''active_children_registry'')) attempt_id
      (sn_now (H (rs_time s)) + timeout) False (tick s) = Some (r, s')"
    by (simp add: wait_for_fork_attempt_cleanup_def Let_def observe_def)
  from cleanup_loop_quiescent [OF this assms(2)] show ?thesis by (auto simp: tick_def) (metis Suc_leD)
next
  case False
  with assms show ?thesis by (auto simp: wait_for_fork_attempt_cleanup_def Let_def dget_Cons)
qed

lemma cleanup_loop_returns:
  assumes "clock_advances H"
  shows "\<exists>r s'. cleanup_loop H F registry attempt_id deadline observed s = Some (r, s')"
proof -
  from assms obtain t0 where t0: "\<And>t. t0 \<le> t \<Longrightarrow> deadline \<le> sn_now (H t)"
    unfolding clock_advances_def by blast
  show ?thesis
  proof (induction "t0 - rs_time s" arbitrary: s observed rule: less_induct)
    case less
    obtain r observed' s1 where t: "cleanup_turn H F registry attempt_id deadline observed s = ((r, observed'), s1)"
      by (metis prod.exhaust)
    show ?case
    proof (cases r)
      case None
      from cleanup_turn_cases(4) [OF t None] obtain u where
        "rs_time s \<le> u" "u < rs_time s1" "sn_now (H u) < deadline" by blast
      moreover from this t0 [of u] have "u < t0" by (meson not_le)
      ultimately have "t0 - rs_time (tick s1) < t0 - rs_time s" by (simp add: tick_def)
      from less [OF this] None t show ?thesis by (subst cleanup_loop.simps) simp
    next
      case (Some d)
      with t show ?thesis by (subst cleanup_loop.simps) simp
    qed
  qed
qed

lemma cleanup_wait_returns:
  "clock_advances H \<Longrightarrow> \<exists>r s'. wait_for_fork_attempt_cleanup R H F session attempt_id timeout s = Some (r, s')"
  using cleanup_loop_returns [of H] by (simp add: wait_for_fork_attempt_cleanup_def Let_def observe_def)

definition still_history :: history where
  "still_history = (\<lambda>t. \<lparr>sn_group = (\<lambda>_. False), sn_identity = (\<lambda>_. None), sn_ticks = (\<lambda>_. None), sn_alive = (\<lambda>_. False),
     sn_getpgid = (\<lambda>_. None), sn_kill = (\<lambda>_ _. K_no_group), sn_now = int t, sn_own_group = 1, sn_marker = False,
     sn_write_error = None\<rparr>)"

definition listed_child :: json where
  "listed_child = J_obj [(''attempt_id'', J_str ''x''), (''pid'', J_int 41), (''pgid'', J_str ''41''),
     (''process_start_ticks'', J_int 5), (''process_identity'', J_str ''linux-proc:5'')]"

definition emptied_registry :: registry_reads where
  "emptied_registry t = Inr [(''schema'', J_str ACTIVE_CHILDREN_SCHEMA),
     (''children'', J_list (if t < 3 then [listed_child] else []))]"

definition registry_session :: dict where
  "registry_session = [(''active_children_registry'', J_str ''/r'')]"

lemma emptied_run: "wait_for_fork_attempt_cleanup \<lparr>rt_repr = (\<lambda>_. ''?''), rt_resolve = id\<rparr> still_history emptied_registry
    registry_session ''x'' 3000 start_run
  = Some (cleanup_report ''quiescent'' ''/r'' True [], \<lparr>rs_time = 5, rs_signals = []\<rparr>)"
  by code_simp

theorem quiescent_cleanup_was_observed_witness:
  "\<exists>u v. u < v \<and> v < 5 \<and> listed emptied_registry ''x'' u \<and> unlisted emptied_registry ''x'' v"
  using quiescent_cleanup_was_observed [OF emptied_run cleanup_report_status] by (auto simp: start_run_def)

end
