(* ===== verification/Hot_Session.thy ===== *)
theory Hot_Session
  imports Pool_Service Attempt_Cleanup
begin

text \<open>
  A memory-first bootstrap (\<open>hot_profile_session.py\<close>) under the signal guard of
  \<open>proof_run_warm_pool_interrupt.py\<close>: admission, restore, checkout, one request to the broker, and the
  finalization of the lease, with a signal possible before and after each call and on entry to the \<open>try\<close> statement
  and to its \<open>finally\<close> clause.  A call whose signal arrives
  after it took effect loses its result, as in Python.  The document of the pool is the stored one; other
  processes may change it during the restore and during the request.
\<close>

section \<open>The signal guard\<close>

text \<open>\<open>WarmPoolEvalSignalState\<close>, and the handler that the guard installs for SIGINT and SIGTERM.\<close>

record signal_state =
  ss_interrupted :: "int option"
  ss_deferred :: bool

datatype hot_error =
    Eval_Interrupted int
  | Keyboard_Interrupt
  | Admission_Interrupted
  | Hot_Interrupted int
  | Pool_Raised pool_error
  | Hot_Other string

definition SIGINT :: int where "SIGINT = 2"

definition handle_signal :: "int \<Rightarrow> signal_state \<Rightarrow> hot_error option \<times> signal_state" where
  "handle_signal n g =
     (if ss_interrupted g = None
      then (if ss_deferred g then None else Some (Eval_Interrupted n), g\<lparr>ss_interrupted := Some n\<rparr>)
      else (None, g))"

definition guard_defer :: "signal_state \<Rightarrow> signal_state" where
  "guard_defer g = g\<lparr>ss_deferred := True\<rparr>"

definition guard_arm :: "signal_state \<Rightarrow> hot_error option \<times> signal_state" where
  "guard_arm g = (map_option Eval_Interrupted (ss_interrupted g), g\<lparr>ss_deferred := False\<rparr>)"

section \<open>Runs\<close>

text \<open>
  The stored document, the guard, the signals still to arrive, one entry per point, what happened, and the local
  variables of \<open>run_hot_profile_source\<close>.
\<close>

datatype hot_event =
    Stored_checkout | Dispatched | Cleanup_waited dict | Cleanup_skipped | Finalize_called bool | Lease_finalized

record hot_world =
  hw_pool :: dict
  hw_guard :: signal_state
  hw_arrivals :: "int option list"
  hw_log :: "hot_event list"
  hw_session :: "string option"
  hw_response :: "dict option"
  hw_started :: bool
  hw_interrupted :: "int option"
  hw_may_have_persisted :: bool

type_synonym 'a hot = "hot_world \<Rightarrow> (hot_error + 'a) \<times> hot_world"

definition hot_return :: "'a \<Rightarrow> 'a hot" where
  "hot_return x w = (Inr x, w)"

definition hot_raise :: "hot_error \<Rightarrow> 'a hot" where
  "hot_raise e w = (Inl e, w)"

definition hot_bind :: "'a hot \<Rightarrow> ('a \<Rightarrow> 'b hot) \<Rightarrow> 'b hot" where
  "hot_bind m f w = (case m w of (Inl e, w') \<Rightarrow> (Inl e, w') | (Inr x, w') \<Rightarrow> f x w')"

abbreviation hot_then :: "'a hot \<Rightarrow> 'b hot \<Rightarrow> 'b hot" where
  "hot_then m k \<equiv> hot_bind m (\<lambda>_. k)"

definition hot_set :: "(hot_world \<Rightarrow> hot_world) \<Rightarrow> unit hot" where
  "hot_set f w = (Inr (), f w)"

abbreviation hot_note :: "hot_event \<Rightarrow> hot_world \<Rightarrow> hot_world" where
  "hot_note e w \<equiv> w\<lparr>hw_log := hw_log w @ [e]\<rparr>"

text \<open>A point at which a signal may arrive, and a call between two points.\<close>

definition arrive :: "unit hot" where
  "arrive w =
     (case hw_arrivals w of
        [] \<Rightarrow> (Inr (), w)
      | None # rest \<Rightarrow> (Inr (), w\<lparr>hw_arrivals := rest\<rparr>)
      | Some n # rest \<Rightarrow>
          (case handle_signal n (hw_guard w) of
             (None, g) \<Rightarrow> (Inr (), w\<lparr>hw_arrivals := rest, hw_guard := g\<rparr>)
           | (Some e, g) \<Rightarrow> (Inl e, w\<lparr>hw_arrivals := rest, hw_guard := g\<rparr>)))"

definition hot_call :: "'a hot \<Rightarrow> 'a hot" where
  "hot_call f = hot_then arrive (hot_bind f (\<lambda>x. hot_then arrive (hot_return x)))"

definition outcome :: "hot_error option \<Rightarrow> unit hot" where
  "outcome e = (case e of None \<Rightarrow> hot_return () | Some e \<Rightarrow> hot_raise e)"

definition arm_now :: "unit hot" where
  "arm_now w = (case guard_arm (hw_guard w) of (e, g) \<Rightarrow> outcome e (w\<lparr>hw_guard := g\<rparr>))"

definition defer_now :: "unit hot" where
  "defer_now = hot_set (\<lambda>w. w\<lparr>hw_guard := guard_defer (hw_guard w)\<rparr>)"

section \<open>The response of the broker client\<close>

text \<open>
  \<open>run_broker_capture_request\<close> after the attempt: the final frame, the reason of a cancellation by the
  controller, the bytes of the transcript and of the broker's own copy, and the token that ends a complete run.
  The numbers of seconds and the paths are left out.
\<close>

record capture =
  cp_final :: dict
  cp_cancellation :: json
  cp_output :: bytes
  cp_broker_bytes :: bytes
  cp_done_token :: bytes

definition capture_quiescent :: "dict \<Rightarrow> bool" where
  "capture_quiescent final \<longleftrightarrow> dget final ''child_quiescent'' = J_bool True \<and> dget final ''seat_reusable'' = J_bool True"

definition capture_status :: "capture \<Rightarrow> string \<times> int" where
  "capture_status cp =
     (if \<not> capture_quiescent (cp_final cp) \<or> cp_output cp \<noteq> cp_broker_bytes cp then (''lifecycle_error'', 126)
      else if cp_cancellation cp = J_str ''controller_response_timeout'' then (''timeout'', 124)
      else if find_from (cp_output cp) (cp_done_token cp) 0 \<noteq> None then (''ok'', 0) else (''prompt_lost'', 125))"

definition capture_response :: "capture \<Rightarrow> dict" where
  "capture_response cp =
     (let final = cp_final cp;
          child = (case dget final ''child'' of J_obj c \<Rightarrow> c | _ \<Rightarrow> []);
          quiescent = capture_quiescent final;
          (status, exit_status) = capture_status cp
      in [(''status'', J_str status),
          (''exit_status'', J_int exit_status),
          (''timeout_kind'', if status = ''timeout'' then J_str ''controller_response_timeout'' else J_null),
          (''controller_cancellation_reason'', cp_cancellation cp),
          (''termination_kind'', dget final ''termination''),
          (''broker_child_quiescent'', dget final ''child_quiescent''),
          (''broker_seat_reusable'', dget final ''seat_reusable''),
          (''hol_pid'', dget child ''pid''),
          (''hol_pgid'', dget child ''pgid''),
          (''sentinel_observed'', J_bool (find_from (cp_output cp) (cp_done_token cp) 0 \<noteq> None)),
          (''child_cleanup'', dget final ''child_cleanup''),
          (''child_quiescent'', J_bool quiescent),
          (''cleanup_verified'', J_bool quiescent),
          (''seat_reusable'', J_bool quiescent),
          (''raw_output_byte_exact'', J_bool (cp_output cp = cp_broker_bytes cp)),
          (''engine'', J_str ''fork_basis'')])"

section \<open>The outside\<close>

text \<open>
  \<open>he_checkout_raises\<close> is an exception after the checkout was stored, while the lock is left;
  \<open>he_lookup_raises\<close> and \<open>he_finalize_raises\<close> are exceptions on the way to the stored document.
\<close>

record hot_env =
  he_rt :: pyrt
  he_seat :: seat_env
  he_agent :: "string option"
  he_lease_id :: string
  he_admit :: "hot_error option"
  he_leave :: "hot_error option"
  he_update :: "hot_error option"
  he_restore :: "dict \<Rightarrow> (hot_error + int) \<times> dict"
  he_one_pool :: "hot_error option"
  he_checkout_raises :: "hot_error option"
  he_metadata :: "hot_error + dict"
  he_progress :: "hot_error option"
  he_request :: "dict \<Rightarrow> (hot_error + capture) \<times> dict"
  he_cleanup :: "hot_error + dict"
  he_lookup_raises :: "hot_error option"
  he_finalize_raises :: "hot_error option"

definition hot_checkout :: "hot_env \<Rightarrow> string hot" where
  "hot_checkout E w =
     (case checkout_pool_seat_locked (he_rt E) (he_seat E) (he_agent E) (Some (he_lease_id E)) False
             ''memory_first_bootstrap'' (Some ''prove --loop'') (hw_pool w) of
        (Inl e, pool) \<Rightarrow> (Inl (Pool_Raised e), w\<lparr>hw_pool := pool\<rparr>)
      | (Inr item, pool) \<Rightarrow>
          (let w' = hot_note Stored_checkout (w\<lparr>hw_pool := pool\<rparr>)
           in case he_checkout_raises E of
                Some e \<Rightarrow> (Inl e, w')
              | None \<Rightarrow>
                  (case map_of item ''session_dir'' of
                     None \<Rightarrow> (Inl (Hot_Other ''KeyError''), w')
                   | Some dir \<Rightarrow> (Inr (py_str (he_rt E) dir), w'))))"

definition hot_lookup :: "hot_env \<Rightarrow> string option hot" where
  "hot_lookup E w =
     (case he_lookup_raises E of
        Some e \<Rightarrow> (Inl e, w)
      | None \<Rightarrow>
          (case session_for_lease (he_rt E) (he_seat E) (he_lease_id E) (hw_pool w) of
             (Inl e, pool) \<Rightarrow> (Inl (Pool_Raised e), w\<lparr>hw_pool := pool\<rparr>)
           | (Inr dir, pool) \<Rightarrow> (Inr dir, w\<lparr>hw_pool := pool\<rparr>)))"

definition hot_finalize :: "hot_env \<Rightarrow> bool \<Rightarrow> string \<Rightarrow> unit hot" where
  "hot_finalize E reusable rsn w =
     (let w = hot_note (Finalize_called reusable) w
      in case he_finalize_raises E of
           Some e \<Rightarrow> (Inl e, w)
         | None \<Rightarrow>
             (case finalize_lease (he_rt E) (he_seat E) (he_lease_id E) reusable rsn (hw_pool w) of
                (Inl e, pool) \<Rightarrow> (Inl (Pool_Raised e), w\<lparr>hw_pool := pool\<rparr>)
              | (Inr _, pool) \<Rightarrow> (Inr (), hot_note Lease_finalized (w\<lparr>hw_pool := pool\<rparr>))))"

definition hot_request :: "hot_env \<Rightarrow> dict hot" where
  "hot_request E w =
     (case he_request E (hw_pool w) of (r, pool) \<Rightarrow>
        (map_sum id capture_response r, hot_note Dispatched (w\<lparr>hw_pool := pool\<rparr>)))"

section \<open>One lease\<close>

definition BROKER_TOPOLOGY :: string where
  "BROKER_TOPOLOGY = ''mechanical_basis_broker_v3''"

text \<open>The body of the \<open>try\<close> statement.\<close>

definition hot_try :: "hot_env \<Rightarrow> unit hot" where
  "hot_try E =
     hot_then arrive
     (hot_then defer_now
     (hot_bind (hot_call (hot_checkout E)) (\<lambda>session.
      hot_then (hot_set (\<lambda>w. w\<lparr>hw_session := Some session\<rparr>))
     (hot_then arm_now
     (hot_bind (hot_call (\<lambda>w. (he_metadata E, w))) (\<lambda>metadata.
      hot_then (if dget metadata ''execution_topology'' \<noteq> J_str BROKER_TOPOLOGY
                then hot_raise (Hot_Other ''RuntimeError'') else hot_return ())
     (hot_then (hot_call (outcome (he_progress E)))
     (hot_then (hot_set (\<lambda>w. w\<lparr>hw_started := True\<rparr>))
     (hot_bind (hot_call (hot_request E)) (\<lambda>response.
      hot_set (\<lambda>w. w\<lparr>hw_response := Some response\<rparr>)))))))))))"

text \<open>Its \<open>except\<close> clauses.\<close>

definition hot_except :: "hot_error + unit \<Rightarrow> unit hot" where
  "hot_except r =
     (case r of
        Inr _ \<Rightarrow> hot_return ()
      | Inl e \<Rightarrow>
          (case e of
             Eval_Interrupted n \<Rightarrow> hot_set (\<lambda>w. w\<lparr>hw_interrupted := Some n\<rparr>)
           | Keyboard_Interrupt \<Rightarrow> hot_set (\<lambda>w. w\<lparr>hw_interrupted := Some SIGINT\<rparr>)
           | Pool_Raised (Lease_id_collision l) \<Rightarrow>
               hot_then (hot_set (\<lambda>w. w\<lparr>hw_may_have_persisted := False\<rparr>)) (hot_raise e)
           | _ \<Rightarrow> hot_raise e))"

text \<open>\<open>_defer_interrupts\<close> inside its \<open>try\<close> statement: a signal in the transition is latched, and the retry cannot raise.\<close>

definition defer_interrupts :: "int option hot" where
  "defer_interrupts w =
     (case hot_then arrive defer_now w of
        (Inr _, w') \<Rightarrow> (Inr None, w')
      | (Inl e, w') \<Rightarrow>
          (case e of
             Eval_Interrupted n \<Rightarrow> hot_then defer_now (hot_return (Some n)) w'
           | Keyboard_Interrupt \<Rightarrow> hot_then defer_now (hot_return (Some SIGINT)) w'
           | _ \<Rightarrow> (Inl e, w')))"

definition int_or :: "int option \<Rightarrow> int option \<Rightarrow> int option" where
  "int_or a b = (case a of Some n \<Rightarrow> if n \<noteq> 0 then a else b | None \<Rightarrow> b)"

text \<open>Whether the seat may be used again, and why.\<close>

definition cleanup_reason :: "pyrt \<Rightarrow> dict \<Rightarrow> string" where
  "cleanup_reason R cleanup =
     ''hot bootstrap interrupt cleanup '' @ py_str R (dget cleanup ''status'')
       @ (if truthy (dget cleanup ''reason'') then '': '' @ py_str R (dget cleanup ''reason'') else [])"

definition reuse_decision :: "hot_env \<Rightarrow> (bool \<times> string) hot" where
  "reuse_decision E w =
     (let reusable = (case hw_response w of None \<Rightarrow> False | Some r \<Rightarrow> broker_response_proves_reusable (J_obj r));
          rsn = (case hw_response w of
                   Some r \<Rightarrow>
                     if reusable
                     then ''hot bootstrap '' @ py_str (he_rt E) (dget r ''status'') @ '' with verified child quiescence''
                     else ''hot bootstrap ended without verified child quiescence''
                 | None \<Rightarrow> ''hot bootstrap ended without verified child quiescence'');
          interrupted = (hw_interrupted w \<noteq> None \<or> ss_interrupted (hw_guard w) \<noteq> None)
      in if interrupted \<and> \<not> reusable
         then (if hw_started w
               then (case hot_call (\<lambda>w. (he_cleanup E, w)) w of
                       (r, w') \<Rightarrow>
                         (let cleanup = (case r of
                                Inr c \<Rightarrow> c
                              | Inl _ \<Rightarrow> [(''status'', J_str ''unverified''), (''reason'', J_str ''cleanup probe raised'')])
                          in (Inr (dget cleanup ''status'' = J_str ''quiescent'', cleanup_reason (he_rt E) cleanup),
                              hot_note (Cleanup_waited cleanup) w')))
               else (Inr (True, ''hot bootstrap interrupted before broker dispatch; no child request started''), w))
         else (Inr (reusable, rsn), w))"

text \<open>
  The \<open>finally\<close> clause.  A signal that is handled after the body, but before the \<open>try\<close> statement of
  \<open>_defer_interrupts\<close>, raises out of the clause; \<open>Cleanup_skipped\<close> notes it.
\<close>

definition enter_finally :: "unit hot" where
  "enter_finally w = (case arrive w of (Inr u, w') \<Rightarrow> (Inr u, w') | (Inl e, w') \<Rightarrow> (Inl e, hot_note Cleanup_skipped w'))"

definition hot_cleanup :: "hot_env \<Rightarrow> unit hot" where
  "hot_cleanup E =
     hot_bind defer_interrupts (\<lambda>cleanup_signal.
     hot_then (hot_set (\<lambda>w. w\<lparr>hw_interrupted := int_or (hw_interrupted w) cleanup_signal\<rparr>))
     (hot_then
        (\<lambda>w. if hw_session w = None \<and> hw_may_have_persisted w
             then hot_bind (hot_call (hot_lookup E)) (\<lambda>dir. hot_set (\<lambda>w. w\<lparr>hw_session := dir\<rparr>)) w
             else hot_return () w)
        (\<lambda>w. if hw_session w \<noteq> None \<and> hw_may_have_persisted w
             then hot_bind (reuse_decision E) (\<lambda>d. hot_call (hot_finalize E (fst d) (snd d))) w
             else hot_return () w)))"

definition hot_finally :: "hot_env \<Rightarrow> unit hot" where
  "hot_finally E = hot_then enter_finally (hot_cleanup E)"

text \<open>The result of the evaluation; \<open>exit_status\<close> is an integer in every response of the broker client.\<close>

definition hot_status :: "int hot" where
  "hot_status w =
     (let interrupted = int_or (hw_interrupted w) (ss_interrupted (hw_guard w));
          w = w\<lparr>hw_interrupted := interrupted\<rparr>
      in if interrupted \<noteq> None then (Inr 1, w)
         else (case hw_response w of
                 None \<Rightarrow> (Inl (Hot_Other ''AssertionError''), w)
               | Some r \<Rightarrow>
                   (case or_else (dget r ''exit_status'') (J_int 0) of
                      J_int i \<Rightarrow> (Inr i, w)
                    | _ \<Rightarrow> (Inl (Hot_Other ''TypeError''), w))))"

definition hot_lease :: "hot_env \<Rightarrow> int hot" where
  "hot_lease E w =
     (let (r1, w1) = hot_try E (w\<lparr>hw_started := False, hw_may_have_persisted := True\<rparr>);
          (r2, w2) = hot_except r1 w1;
          (r3, w3) = hot_finally E w2
      in case r3 of
           Inl e \<Rightarrow> (Inl e, w3)
         | Inr _ \<Rightarrow> (case r2 of Inl e \<Rightarrow> (Inl e, w3) | Inr _ \<Rightarrow> hot_status w3))"

section \<open>The whole run\<close>

text \<open>\<open>Inr None\<close> is the early return of a failed restore.\<close>

definition hot_admitted :: "hot_env \<Rightarrow> int option hot" where
  "hot_admitted E =
     hot_then (hot_call (outcome (he_update E)))
     (hot_bind (hot_call (\<lambda>w. case he_restore E (hw_pool w) of (r, pool) \<Rightarrow> (r, w\<lparr>hw_pool := pool\<rparr>))) (\<lambda>restored.
        if restored \<noteq> 0 then hot_return None
        else hot_then (hot_call (outcome (he_one_pool E)))
               (hot_bind (hot_lease E) (\<lambda>status. hot_return (Some status)))))"

definition hot_routed :: "hot_env \<Rightarrow> int option hot" where
  "hot_routed E =
     hot_then arrive (hot_then (outcome (he_admit E)) (\<lambda>w.
       (let (r, w1) = hot_admitted E w;
            (left, w2) = hot_call (outcome (he_leave E)) w1
        in case left of Inl e \<Rightarrow> (Inl e, w2) | Inr _ \<Rightarrow> (r, w2))))"

definition hot_start :: "dict \<Rightarrow> int option list \<Rightarrow> hot_world" where
  "hot_start pool arrivals =
     \<lparr>hw_pool = pool, hw_guard = \<lparr>ss_interrupted = None, ss_deferred = False\<rparr>, hw_arrivals = arrivals, hw_log = [],
      hw_session = None, hw_response = None, hw_started = False, hw_interrupted = None, hw_may_have_persisted = False\<rparr>"

definition run_hot_profile_source :: "hot_env \<Rightarrow> dict \<Rightarrow> int option list \<Rightarrow> (hot_error + int) \<times> hot_world" where
  "run_hot_profile_source E pool arrivals =
     (let (r, w) = hot_routed E (hot_start pool arrivals);
          caught = (case r of
                Inl Admission_Interrupted \<Rightarrow> Inr (Some SIGINT, 1)
              | Inl (Eval_Interrupted n) \<Rightarrow> Inr (Some n, 1)
              | Inl Keyboard_Interrupt \<Rightarrow> Inr (Some SIGINT, 1)
              | Inl e \<Rightarrow> Inl (Inl e)
              | Inr None \<Rightarrow> Inl (Inr 1)
              | Inr (Some k) \<Rightarrow> Inr (hw_interrupted w, k))
      in case caught of
           Inl done_early \<Rightarrow> (done_early, w)
         | Inr (interrupted, k) \<Rightarrow>
             (case int_or interrupted (ss_interrupted (hw_guard w)) of
                Some n \<Rightarrow> (Inl (Hot_Interrupted n), w)
              | None \<Rightarrow> (Inr k, w)))"

end
