(* ===== verification/Hot_Session_Props.thy ===== *)
theory Hot_Session_Props
  imports Hot_Session
begin

text \<open>
  A seat is handed back as reusable only on evidence, a stored checkout is finalized exactly once, and no signal is
  lost.  Each is an assertion about every way a call can end; the rules for the combinators carry the proofs.
\<close>

section \<open>The response\<close>

text \<open>The response states the proof exactly when the broker's final frame states both of its parts.\<close>

lemma capture_proves_reusable:
  "broker_response_proves_reusable (J_obj (capture_response cp)) \<longleftrightarrow> capture_quiescent (cp_final cp)"
  by (simp add: broker_response_proves_reusable_def capture_response_def Let_def dget_Cons split: prod.split)

lemma capture_exit_status:
  "dget (capture_response cp) ''exit_status'' = J_int i \<Longrightarrow> i = 0 \<Longrightarrow>
     capture_quiescent (cp_final cp) \<and> cp_output cp = cp_broker_bytes cp \<and> find_from (cp_output cp) (cp_done_token cp) 0 \<noteq> None"
  by (auto simp: capture_response_def capture_status_def Let_def dget_Cons split: if_split_asm)

section \<open>Assertions about runs\<close>

definition run_ok :: "(hot_world \<Rightarrow> bool) \<Rightarrow> 'a hot \<Rightarrow> ('a \<Rightarrow> hot_world \<Rightarrow> bool) \<Rightarrow> (hot_error \<Rightarrow> hot_world \<Rightarrow> bool) \<Rightarrow> bool" where
  "run_ok P m Q X \<longleftrightarrow> (\<forall>w. P w \<longrightarrow> (case m w of (Inr x, w') \<Rightarrow> Q x w' | (Inl e, w') \<Rightarrow> X e w'))"

named_theorems run_rule \<open>rules for the combinators of a run\<close>

lemma run_okI: "(\<And>w. P w \<Longrightarrow> case m w of (Inr x, w') \<Rightarrow> Q x w' | (Inl e, w') \<Rightarrow> X e w') \<Longrightarrow> run_ok P m Q X"
  by (simp add: run_ok_def)

lemma run_okD: "run_ok P m Q X \<Longrightarrow> P w \<Longrightarrow> case m w of (Inr x, w') \<Rightarrow> Q x w' | (Inl e, w') \<Rightarrow> X e w'"
  by (simp add: run_ok_def)

lemma run_ok_Inr: "run_ok P m Q X \<Longrightarrow> P w \<Longrightarrow> m w = (Inr x, w') \<Longrightarrow> Q x w'"
  by (drule (1) run_okD) simp

lemma run_ok_Inl: "run_ok P m Q X \<Longrightarrow> P w \<Longrightarrow> m w = (Inl e, w') \<Longrightarrow> X e w'"
  by (drule (1) run_okD) simp

lemma run_ok_bind [run_rule]:
  "run_ok P m R X \<Longrightarrow> (\<And>x. run_ok (R x) (f x) Q X) \<Longrightarrow> run_ok P (hot_bind m f) Q X"
  by (fastforce simp: run_ok_def hot_bind_def split: prod.splits sum.splits)

lemma run_ok_set [run_rule]: "(\<And>w. P w \<Longrightarrow> Q () (f w)) \<Longrightarrow> run_ok P (hot_set f) Q X"
  by (simp add: run_ok_def hot_set_def)

lemma run_ok_return [run_rule]: "(\<And>w. P w \<Longrightarrow> Q x w) \<Longrightarrow> run_ok P (hot_return x) Q X"
  by (simp add: run_ok_def hot_return_def)

lemma run_ok_raise [run_rule]: "(\<And>w. P w \<Longrightarrow> X e w) \<Longrightarrow> run_ok P (hot_raise e) Q X"
  by (simp add: run_ok_def hot_raise_def)

lemma run_ok_outcome [run_rule]:
  "(\<And>w. P w \<Longrightarrow> e = None \<Longrightarrow> Q () w) \<Longrightarrow> (\<And>w x. P w \<Longrightarrow> e = Some x \<Longrightarrow> X x w) \<Longrightarrow> run_ok P (outcome e) Q X"
  by (cases e) (simp_all add: outcome_def run_ok_def hot_return_def hot_raise_def)

lemma run_ok_weaken:
  "run_ok P m Q X \<Longrightarrow> (\<And>w. P' w \<Longrightarrow> P w) \<Longrightarrow> (\<And>x w. Q x w \<Longrightarrow> Q' x w) \<Longrightarrow> (\<And>e w. X e w \<Longrightarrow> X' e w)
     \<Longrightarrow> run_ok P' m Q' X'"
  by (fastforce simp: run_ok_def split: prod.splits sum.splits)

section \<open>Points\<close>

lemma arrive_cases:
  obtains a g where "arrive w = (Inr (), w\<lparr>hw_guard := g, hw_arrivals := a\<rparr>)" "ss_deferred g = ss_deferred (hw_guard w)"
    "ss_deferred g \<or> ss_interrupted (hw_guard w) \<noteq> None \<or> ss_interrupted g = None"
  | n a g where "arrive w = (Inl (Eval_Interrupted n), w\<lparr>hw_guard := g, hw_arrivals := a\<rparr>)"
    "\<not> ss_deferred (hw_guard w)" "\<not> ss_deferred g" "ss_interrupted g = Some n"
proof (cases "hw_arrivals w")
  case Nil
  then have "arrive w = (Inr (), w\<lparr>hw_guard := hw_guard w, hw_arrivals := hw_arrivals w\<rparr>)" by (simp add: arrive_def)
  from that(1) [OF this] show ?thesis by auto
next
  case (Cons x rest)
  show ?thesis
  proof (cases x)
    case None
    with Cons have "arrive w = (Inr (), w\<lparr>hw_guard := hw_guard w, hw_arrivals := rest\<rparr>)" by (simp add: arrive_def)
    from that(1) [OF this] show ?thesis by auto
  next
    case (Some n)
    show ?thesis
    proof (cases "ss_deferred (hw_guard w) \<or> ss_interrupted (hw_guard w) \<noteq> None")
      case True
      then have "fst (handle_signal n (hw_guard w)) = None"
        and d: "ss_deferred (snd (handle_signal n (hw_guard w))) = ss_deferred (hw_guard w)"
        by (auto simp: handle_signal_def)
      then obtain g where g: "handle_signal n (hw_guard w) = (None, g)" "ss_deferred g = ss_deferred (hw_guard w)"
        by (metis prod.collapse)
      with Cons Some have "arrive w = (Inr (), w\<lparr>hw_guard := g, hw_arrivals := rest\<rparr>)"
        by (simp add: arrive_def)
      from that(1) [OF this g(2)] g(2) True show ?thesis by auto
    next
      case False
      with Cons Some have "arrive w = (Inl (Eval_Interrupted n),
          w\<lparr>hw_guard := (hw_guard w)\<lparr>ss_interrupted := Some n\<rparr>, hw_arrivals := rest\<rparr>)"
        by (simp add: arrive_def handle_signal_def)
      from that(2) [OF this] False show ?thesis by auto
    qed
  qed
qed

text \<open>An assertion that looks at the guard only for whether signals are deferred.\<close>

definition stable :: "(hot_world \<Rightarrow> bool) \<Rightarrow> bool" where
  "stable P \<longleftrightarrow> (\<forall>w g a. P w \<longrightarrow> ss_deferred g = ss_deferred (hw_guard w) \<longrightarrow> P (w\<lparr>hw_guard := g, hw_arrivals := a\<rparr>))"

lemma run_ok_arrive:
  assumes "stable P" and X: "\<And>n w. P w \<Longrightarrow> \<not> ss_deferred (hw_guard w) \<Longrightarrow> X (Eval_Interrupted n) w"
  shows "run_ok P arrive (\<lambda>_. P) X"
proof (rule run_okI)
  fix w assume "P w"
  then have u: "ss_deferred g = ss_deferred (hw_guard w) \<Longrightarrow> P (w\<lparr>hw_guard := g, hw_arrivals := a\<rparr>)" for a g
    using assms(1) by (simp add: stable_def)
  show "case arrive w of (Inr x, w') \<Rightarrow> P w' | (Inl e, w') \<Rightarrow> X e w'"
    by (rule arrive_cases [of w]) (simp_all add: u X)
qed

lemma run_ok_call:
  assumes f: "run_ok P f Q X" and s: "stable P" "\<And>x. stable (Q x)"
    and e: "\<And>n w. P w \<Longrightarrow> \<not> ss_deferred (hw_guard w) \<Longrightarrow> X (Eval_Interrupted n) w"
      "\<And>x n w. Q x w \<Longrightarrow> \<not> ss_deferred (hw_guard w) \<Longrightarrow> X (Eval_Interrupted n) w"
  shows "run_ok P (hot_call f) Q X"
proof -
  have "run_ok (Q x) (hot_then arrive (hot_return x)) Q X" for x
    by (rule run_ok_bind [OF run_ok_arrive [OF s(2) [of x], of X] run_ok_return]) (auto intro: e(2))
  with f have "run_ok P (hot_bind f (\<lambda>x. hot_then arrive (hot_return x))) Q X" by (rule run_ok_bind)
  moreover have "run_ok P arrive (\<lambda>_. P) X" by (rule run_ok_arrive [OF s(1)]) (rule e(1))
  ultimately show ?thesis unfolding hot_call_def by (simp add: run_ok_bind [where R = "\<lambda>_. P"])
qed

section \<open>The body of the try statement\<close>

text \<open>
  How far a run got: what it logged, and what its local variables hold.  \<open>E\<close> raises lease collisions only out of
  the checkout.
\<close>

definition no_collision :: "hot_env \<Rightarrow> bool" where
  "no_collision E \<longleftrightarrow>
     (\<forall>l. he_checkout_raises E \<noteq> Some (Pool_Raised (Lease_id_collision l))
        \<and> he_metadata E \<noteq> Inl (Pool_Raised (Lease_id_collision l))
        \<and> he_progress E \<noteq> Some (Pool_Raised (Lease_id_collision l))
        \<and> (\<forall>p. fst (he_request E p) \<noteq> Inl (Pool_Raised (Lease_id_collision l))))"

text \<open>\<open>base\<close> is the document before the checkout, of which nothing else is asked than what the pool model keeps.\<close>

definition fresh_run :: "hot_env \<Rightarrow> hot_world \<Rightarrow> bool" where
  "fresh_run E w \<longleftrightarrow> hw_log w = [] \<and> hw_session w = None \<and> hw_response w = None \<and> \<not> hw_started w
     \<and> hw_may_have_persisted w \<and> service_inv (hw_pool w)
     \<and> \<not> pool_holds (he_lease_id E) (hw_pool w)"

definition stored_run :: "hot_env \<Rightarrow> hot_world \<Rightarrow> bool" where
  "stored_run E w \<longleftrightarrow> hw_log w = [Stored_checkout] \<and> hw_session w = None \<and> hw_response w = None \<and> \<not> hw_started w
     \<and> hw_may_have_persisted w \<and> service_inv (hw_pool w)
     \<and> (\<exists>dir. session_for_lease (he_rt E) (he_seat E) (he_lease_id E) (hw_pool w) = (Inr (Some dir), hw_pool w))"

definition held_run :: "hot_env \<Rightarrow> bool \<Rightarrow> hot_world \<Rightarrow> bool" where
  "held_run E b w \<longleftrightarrow> hw_log w = [Stored_checkout] \<and> hw_session w \<noteq> None \<and> hw_response w = None \<and> hw_started w = b
     \<and> hw_may_have_persisted w \<and> service_inv (hw_pool w)"

definition sent_run :: "hot_env \<Rightarrow> dict option \<Rightarrow> hot_world \<Rightarrow> bool" where
  "sent_run E r w \<longleftrightarrow> hw_log w = [Stored_checkout, Dispatched] \<and> hw_session w \<noteq> None \<and> hw_response w = r \<and> hw_started w
     \<and> (\<forall>x. r = Some x \<longrightarrow> x \<in> range capture_response) \<and> hw_may_have_persisted w \<and> service_inv (hw_pool w)"

definition deferred :: "hot_world \<Rightarrow> bool" where
  "deferred w \<longleftrightarrow> ss_deferred (hw_guard w)"

lemmas run_defs = fresh_run_def stored_run_def held_run_def sent_run_def deferred_def

lemma run_stable [simp]:
  "stable (fresh_run E)" "stable (stored_run E)" "stable (held_run E b)" "stable (sent_run E r)"
  "stable (\<lambda>w. fresh_run E w \<and> deferred w)" "stable (\<lambda>w. stored_run E w \<and> deferred w)"
  by (simp_all add: stable_def run_defs)

text \<open>How the body can end.\<close>

definition try_raised :: "hot_env \<Rightarrow> hot_error \<Rightarrow> hot_world \<Rightarrow> bool" where
  "try_raised E e w \<longleftrightarrow>
     fresh_run E w \<and> ((\<exists>p. e = Pool_Raised p) \<or> (\<exists>n. e = Eval_Interrupted n))
     \<or> stored_run E w \<and> he_checkout_raises E = Some e
     \<or> (\<exists>b. held_run E b w) \<and> (\<forall>l. e \<noteq> Pool_Raised (Lease_id_collision l))
     \<or> sent_run E None w \<and> (\<forall>l. e \<noteq> Pool_Raised (Lease_id_collision l))"

definition others_keep :: "hot_env \<Rightarrow> bool" where
  "others_keep E \<longleftrightarrow> (\<forall>p. service_inv p \<longrightarrow> service_inv (snd (he_request E p)))"

lemma hot_checkout_ok:
  "run_ok (\<lambda>w. fresh_run E w \<and> deferred w) (hot_checkout E) (\<lambda>dir w. stored_run E w \<and> deferred w) (try_raised E)"
proof (rule run_okI)
  fix w assume w: "fresh_run E w \<and> deferred w"
  then have inv: "service_inv (hw_pool w)" "\<not> pool_holds (he_lease_id E) (hw_pool w)" by (simp_all add: fresh_run_def)
  obtain r pool where c: "checkout_pool_seat_locked (he_rt E) (he_seat E) (he_agent E) (Some (he_lease_id E)) False
      ''memory_first_bootstrap'' (Some ''prove --loop'') (hw_pool w) = (r, pool)" by (rule prod.exhaust)
  show "case hot_checkout E w of (Inr x, w') \<Rightarrow> stored_run E w' \<and> deferred w' | (Inl e, w') \<Rightarrow> try_raised E e w'"
  proof (cases r)
    case (Inl e)
    have "evolves (hw_pool w) pool" using c [unfolded Inl] by (cases rule: checkout_locked_cases) auto
    with inv have "service_inv pool" "\<not> pool_holds (he_lease_id E) pool"
      by (auto intro: service_inv_evolves dest: pool_holds_evolves)
    with w c [unfolded Inl] show ?thesis by (auto simp: hot_checkout_def try_raised_def run_defs)
  next
    case (Inr item)
    note c = c [unfolded Inr]
    from stored_checkout_found [OF c inv(1), where V' = "he_seat E"] checkout_taken_service(1) [OF c inv(1)] w c show ?thesis
      by (auto simp: hot_checkout_def Let_def try_raised_def run_defs split: option.split)
  qed
qed

lemma arm_now_ok:
  "(\<And>w g. P w \<Longrightarrow> Q () (w\<lparr>hw_guard := g\<rparr>)) \<Longrightarrow> (\<And>w g n. P w \<Longrightarrow> X (Eval_Interrupted n) (w\<lparr>hw_guard := g\<rparr>))
     \<Longrightarrow> run_ok P arm_now Q X"
  by (auto simp: run_ok_def arm_now_def guard_arm_def outcome_def hot_return_def hot_raise_def split: option.split)

lemma run_ok_value [run_rule]:
  "(\<And>x w. P w \<Longrightarrow> r = Inr x \<Longrightarrow> Q x w) \<Longrightarrow> (\<And>e w. P w \<Longrightarrow> r = Inl e \<Longrightarrow> X e w) \<Longrightarrow> run_ok P (\<lambda>w. (r, w)) Q X"
  by (auto simp: run_ok_def split: sum.split)

lemma held_guard [simp]: "held_run E b (w\<lparr>hw_guard := g\<rparr>) = held_run E b w"
  by (simp add: held_run_def)

lemma stable_const [simp]: "stable P \<Longrightarrow> stable (\<lambda>w. P w \<and> A)"
  by (simp add: stable_def)

lemma hot_request_ok:
  assumes "no_collision E" "others_keep E"
  shows "run_ok (held_run E True) (hot_request E)
    (\<lambda>r w. sent_run E None w \<and> r \<in> range capture_response) (try_raised E)"
proof (rule run_okI)
  fix w assume w: "held_run E True w"
  have "service_inv (snd (he_request E (hw_pool w)))"
    using w assms(2) by (simp add: others_keep_def held_run_def)
  moreover have "fst (he_request E (hw_pool w)) \<noteq> Inl (Pool_Raised (Lease_id_collision l))" for l
    using assms(1) by (simp add: no_collision_def)
  ultimately show "case hot_request E w of (Inr x, w') \<Rightarrow> sent_run E None w' \<and> x \<in> range capture_response
      | (Inl e, w') \<Rightarrow> try_raised E e w'"
    using w by (cases "he_request E (hw_pool w)") (auto simp: hot_request_def try_raised_def held_run_def sent_run_def map_sum_def split: sum.split)
qed

lemma hot_try_ok:
  assumes "no_collision E" "others_keep E"
  shows "run_ok (fresh_run E) (hot_try E) (\<lambda>_ w. \<exists>r. sent_run E (Some r) w) (try_raised E)"
proof -
  have nc: "he_metadata E \<noteq> Inl (Pool_Raised (Lease_id_collision l))" "he_progress E \<noteq> Some (Pool_Raised (Lease_id_collision l))" for l
    using assms(1) by (simp_all add: no_collision_def)
  have held: "run_ok (held_run E b) (hot_call m) (\<lambda>_. held_run E b) (try_raised E)"
    if "run_ok (held_run E b) m (\<lambda>_. held_run E b) (try_raised E)" for b and m :: "'a hot"
    by (rule run_ok_call [OF that]) (auto simp: try_raised_def)
  have 0: "run_ok (fresh_run E) arrive (\<lambda>_. fresh_run E) (try_raised E)"
    by (rule run_ok_arrive) (auto simp: try_raised_def)
  have 1: "run_ok (fresh_run E) defer_now (\<lambda>_ w. fresh_run E w \<and> deferred w) (try_raised E)"
    unfolding defer_now_def by (intro run_rule) (simp add: run_defs guard_defer_def)
  have 2: "run_ok (\<lambda>w. fresh_run E w \<and> deferred w) (hot_call (hot_checkout E))
      (\<lambda>_ w. stored_run E w \<and> deferred w) (try_raised E)"
    by (rule run_ok_call [OF hot_checkout_ok run_stable(5,6)]) (simp_all add: deferred_def)
  have 3: "run_ok (\<lambda>w. stored_run E w \<and> deferred w) (hot_set (\<lambda>w. w\<lparr>hw_session := Some session\<rparr>))
      (\<lambda>_. held_run E False) (try_raised E)" for session
    by (intro run_rule) (simp add: run_defs)
  have 4: "run_ok (held_run E False) arm_now (\<lambda>_. held_run E False) (try_raised E)"
    by (rule arm_now_ok) (auto simp: try_raised_def)
  have 5: "run_ok (held_run E False) (hot_call (\<lambda>w. (he_metadata E, w))) (\<lambda>_. held_run E False) (try_raised E)"
    by (intro held run_rule) (use nc in \<open>auto simp: try_raised_def\<close>)
  have 6: "run_ok (held_run E False) (if c then hot_raise (Hot_Other ''RuntimeError'') else hot_return ())
      (\<lambda>_. held_run E False) (try_raised E)" for c
    by (cases c) (auto intro!: run_rule simp: try_raised_def)
  have 7: "run_ok (held_run E False) (hot_call (outcome (he_progress E))) (\<lambda>_. held_run E False) (try_raised E)"
    by (intro held run_rule) (use nc in \<open>auto simp: try_raised_def\<close>)
  have 8: "run_ok (held_run E False) (hot_set (\<lambda>w. w\<lparr>hw_started := True\<rparr>)) (\<lambda>_. held_run E True) (try_raised E)"
    by (intro run_rule) (simp add: held_run_def)
  have 9: "run_ok (held_run E True) (hot_call (hot_request E))
      (\<lambda>r w. sent_run E None w \<and> r \<in> range capture_response) (try_raised E)"
    by (rule run_ok_call [OF hot_request_ok [OF assms]]) (auto simp: try_raised_def)
  have 10: "run_ok (\<lambda>w. sent_run E None w \<and> r \<in> range capture_response) (hot_set (\<lambda>w. w\<lparr>hw_response := Some r\<rparr>)) (\<lambda>_ w. \<exists>r. sent_run E (Some r) w)
      (try_raised E)" for r
    by (intro run_rule) (auto simp: sent_run_def)
  show ?thesis
    unfolding hot_try_def
    by (rule run_ok_bind [OF 0] run_ok_bind [OF 1] run_ok_bind [OF 2] run_ok_bind [OF 3] run_ok_bind [OF 4] run_ok_bind [OF 5]
        run_ok_bind [OF 6] run_ok_bind [OF 7] run_ok_bind [OF 8] run_ok_bind [OF 9] 10)+
qed

section \<open>The finally clause\<close>

text \<open>The states in which the \<open>finally\<close> clause starts; a collision leaves a run that owns nothing.\<close>

definition refused_run :: "hot_env \<Rightarrow> hot_world \<Rightarrow> bool" where
  "refused_run E w \<longleftrightarrow> hw_log w = [] \<and> hw_session w = None"

definition owning_run :: "hot_env \<Rightarrow> hot_world \<Rightarrow> bool" where
  "owning_run E w \<longleftrightarrow> (\<exists>b. held_run E b w) \<or> (\<exists>r. sent_run E r w)"

definition after_try :: "hot_env \<Rightarrow> hot_world \<Rightarrow> bool" where
  "after_try E w \<longleftrightarrow> (fresh_run E w \<or> refused_run E w \<and> \<not> hw_may_have_persisted w)
     \<or> stored_run E w \<and> he_checkout_raises E \<noteq> None \<or> owning_run E w"

lemma run_interrupted [simp]:
  "fresh_run E (w\<lparr>hw_interrupted := i\<rparr>) = fresh_run E w" "stored_run E (w\<lparr>hw_interrupted := i\<rparr>) = stored_run E w"
  "held_run E b (w\<lparr>hw_interrupted := i\<rparr>) = held_run E b w" "sent_run E r (w\<lparr>hw_interrupted := i\<rparr>) = sent_run E r w"
  "refused_run E (w\<lparr>hw_interrupted := i\<rparr>) = refused_run E w" "owning_run E (w\<lparr>hw_interrupted := i\<rparr>) = owning_run E w"
  by (simp_all add: run_defs refused_run_def owning_run_def)

lemma hot_except_ok:
  assumes "no_collision E"
  shows "try_raised E e w \<Longrightarrow> after_try E (snd (hot_except (Inl e) w))"
    and "sent_run E (Some r) w \<Longrightarrow> after_try E (snd (hot_except (Inr u) w))"
proof -
  assume "try_raised E e w"
  then consider (refused) p where "fresh_run E w" "e = Pool_Raised p"
    | (early) n where "fresh_run E w" "e = Eval_Interrupted n"
    | (stored) "stored_run E w" "he_checkout_raises E = Some e" "\<forall>l. e \<noteq> Pool_Raised (Lease_id_collision l)"
    | (owning) "owning_run E w" "\<forall>l. e \<noteq> Pool_Raised (Lease_id_collision l)"
    using assms by (auto simp: try_raised_def owning_run_def no_collision_def)
  then show "after_try E (snd (hot_except (Inl e) w))"
  proof cases
    case refused
    then show ?thesis
      by (cases p) (simp_all add: hot_except_def hot_raise_def hot_bind_def hot_set_def after_try_def refused_run_def
          fresh_run_def)
  next
    case early
    then show ?thesis by (simp add: hot_except_def hot_set_def after_try_def)
  qed (auto simp: hot_except_def hot_raise_def hot_set_def after_try_def split: hot_error.split pool_error.split)
next
  assume "sent_run E (Some r) w"
  then show "after_try E (snd (hot_except (Inr u) w))"
    by (auto simp: hot_except_def hot_return_def after_try_def owning_run_def)
qed

text \<open>\<open>hot_defer\<close> never loses control: whatever arrives, signals are deferred afterwards.\<close>

lemma defer_interrupts_ok:
  obtains n a g where "defer_interrupts w = (Inr n, w\<lparr>hw_guard := g, hw_arrivals := a\<rparr>)" "ss_deferred g"
proof -
  have g: "ss_deferred (guard_defer g)" for g by (simp add: guard_defer_def)
  show thesis
  proof (rule arrive_cases [of w])
    fix a g' assume "arrive w = (Inr (), w\<lparr>hw_guard := g', hw_arrivals := a\<rparr>)"
    then show thesis
      by (intro that [of None a "guard_defer g'"] g) (simp add: defer_interrupts_def hot_bind_def defer_now_def hot_set_def)
  next
    fix n a g' assume "arrive w = (Inl (Eval_Interrupted n), w\<lparr>hw_guard := g', hw_arrivals := a\<rparr>)"
    then show thesis
      by (intro that [of "Some n" a "guard_defer g'"] g)
        (simp add: defer_interrupts_def hot_bind_def defer_now_def hot_set_def hot_return_def)
  qed
qed

lemma hot_call_value:
  assumes "ss_deferred (hw_guard w)"
  obtains a g where "hot_call (\<lambda>w. (r, w)) w = (r, w\<lparr>hw_guard := g, hw_arrivals := a\<rparr>)" "ss_deferred g"
proof -
  obtain a g where 1: "arrive w = (Inr (), w\<lparr>hw_guard := g, hw_arrivals := a\<rparr>)" "ss_deferred g"
    using assms by (rule_tac arrive_cases [of w]) auto
  let ?w = "w\<lparr>hw_guard := g, hw_arrivals := a\<rparr>"
  obtain a' g' where 2: "arrive ?w = (Inr (), w\<lparr>hw_guard := g', hw_arrivals := a'\<rparr>)" "ss_deferred g'"
    using 1(2) by (rule_tac arrive_cases [of ?w]) auto
  show thesis
  proof (cases r)
    case (Inl e)
    from that [OF _ 1(2)] 1(1) Inl show ?thesis by (simp add: hot_call_def hot_bind_def)
  next
    case (Inr x)
    from that [OF _ 2(2)] 1(1) 2(1) Inr show ?thesis by (simp add: hot_call_def hot_bind_def hot_return_def)
  qed
qed

text \<open>What entitles a run to hand its seat back as reusable.\<close>

definition earned :: "hot_world \<Rightarrow> bool" where
  "earned w \<longleftrightarrow> (\<exists>cp. hw_response w = Some (capture_response cp) \<and> capture_quiescent (cp_final cp))
     \<or> Dispatched \<notin> set (hw_log w)
     \<or> (\<exists>c. Cleanup_waited c \<in> set (hw_log w) \<and> dget c ''status'' = J_str ''quiescent'')"

text \<open>A run that owns a lease and has decided, before the finalization.\<close>

definition decided_run :: "hot_env \<Rightarrow> bool \<Rightarrow> hot_world \<Rightarrow> bool" where
  "decided_run E b w \<longleftrightarrow> service_inv (hw_pool w) \<and> (b \<longrightarrow> earned w) \<and> Stored_checkout \<in> set (hw_log w)
     \<and> (\<forall>x. Finalize_called x \<notin> set (hw_log w)) \<and> Lease_finalized \<notin> set (hw_log w) \<and> Cleanup_skipped \<notin> set (hw_log w)"

lemma decided_stable [simp]: "stable (decided_run E b)" "stable (\<lambda>w. decided_run E b w \<and> deferred w)"
  by (simp_all add: stable_def decided_run_def earned_def deferred_def)

lemma reuse_decision_ok:
  "run_ok (\<lambda>w. (owning_run E w \<or> stored_run E (w\<lparr>hw_session := None\<rparr>)) \<and> deferred w) (reuse_decision E)
     (\<lambda>d w. decided_run E (fst d) w \<and> deferred w) (\<lambda>_ _. False)"
proof (rule run_okI)
  fix w assume w: "(owning_run E w \<or> stored_run E (w\<lparr>hw_session := None\<rparr>)) \<and> deferred w"
  then have d: "ss_deferred (hw_guard w)" by (simp add: deferred_def)
  from w have log: "hw_log w = [Stored_checkout] \<or> hw_log w = [Stored_checkout, Dispatched] \<and> hw_started w"
    and inv: "service_inv (hw_pool w)" and resp: "hw_response w = Some x \<Longrightarrow> x \<in> range capture_response" for x
    by (auto simp: owning_run_def run_defs)
  have decided: "decided_run E b w'" if "hw_pool w' = hw_pool w" "hw_log w' = hw_log w @ map Cleanup_waited cs"
    "b \<longrightarrow> earned w'" for b w' cs
    using log inv that by (auto simp: decided_run_def)
  obtain a g where c: "hot_call (\<lambda>w. (he_cleanup E, w)) w = (he_cleanup E, w\<lparr>hw_guard := g, hw_arrivals := a\<rparr>)"
    "ss_deferred g"
    by (rule hot_call_value [OF d])
  show "case reuse_decision E w of (Inr x, w') \<Rightarrow> decided_run E (fst x) w' \<and> deferred w' | (Inl e, w') \<Rightarrow> False"
  proof (cases "(hw_interrupted w \<noteq> None \<or> ss_interrupted (hw_guard w) \<noteq> None)
      \<and> \<not> (case hw_response w of None \<Rightarrow> False | Some r \<Rightarrow> broker_response_proves_reusable (J_obj r))")
    case False
    moreover have "decided_run E (case hw_response w of None \<Rightarrow> False | Some r \<Rightarrow> broker_response_proves_reusable (J_obj r)) w"
      by (rule decided [of w "[]"]) (simp_all, cases "hw_response w", simp, frule resp,
          clarsimp simp: capture_proves_reusable earned_def, blast)
    ultimately show ?thesis using d by (auto simp: reuse_decision_def Let_def deferred_def)
  next
    case True
    show ?thesis
    proof (cases "hw_started w")
      case False
      with log have "decided_run E True w" by (intro decided [of w "[]"]) (auto simp: earned_def)
      with True False d show ?thesis by (simp add: reuse_decision_def Let_def deferred_def)
    next
      case started: True
      define cleanup where "cleanup = (case he_cleanup E of Inr c \<Rightarrow> c
        | Inl _ \<Rightarrow> [(''status'', J_str ''unverified''), (''reason'', J_str ''cleanup probe raised'')])"
      let ?w = "hot_note (Cleanup_waited cleanup) (w\<lparr>hw_guard := g, hw_arrivals := a\<rparr>)"
      have "decided_run E (dget cleanup ''status'' = J_str ''quiescent'') ?w"
        by (rule decided [of ?w "[cleanup]"]) (auto simp: earned_def)
      with True started c show ?thesis
        by (simp add: reuse_decision_def Let_def deferred_def cleanup_def [symmetric])
    qed
  qed
qed

text \<open>How a run that checked out can end.\<close>

definition settled_run :: "hot_env \<Rightarrow> hot_world \<Rightarrow> bool" where
  "settled_run E w \<longleftrightarrow> (\<exists>b before after. hw_log w = before @ Finalize_called b # after
     \<and> Stored_checkout \<in> set before \<and> (\<forall>x. Finalize_called x \<notin> set before) \<and> (\<forall>x. Finalize_called x \<notin> set after)
     \<and> Cleanup_skipped \<notin> set (hw_log w) \<and> (b \<longrightarrow> earned w) \<and> (Lease_finalized \<in> set (hw_log w) \<longrightarrow> \<not> pool_holds (he_lease_id E) (hw_pool w)))"

lemma settled_stable [simp]: "stable (settled_run E)"
  by (simp add: stable_def settled_run_def earned_def)

lemma settled_deferred: "stable (\<lambda>w. settled_run E w \<and> deferred w)"
  using settled_stable [of E] by (simp add: stable_def deferred_def)

lemma hot_finalize_ok:
  "run_ok (\<lambda>w. decided_run E b w \<and> deferred w) (hot_finalize E b rsn)
     (\<lambda>_ w. settled_run E w \<and> deferred w) (\<lambda>_. settled_run E)"
proof (rule run_okI)
  fix w assume w: "decided_run E b w \<and> deferred w"
  obtain r pool where f: "finalize_lease (he_rt E) (he_seat E) (he_lease_id E) b rsn (hw_pool w) = (r, pool)"
    by (rule prod.exhaust)
  have settled: "settled_run E w'"
    if "hw_log w' = hw_log w @ Finalize_called b # after" "hw_response w' = hw_response w"
      "after = [] \<or> after = [Lease_finalized] \<and> \<not> pool_holds (he_lease_id E) (hw_pool w')" for w' after
    unfolding settled_run_def
    by (rule exI [of _ b], rule exI [of _ "hw_log w"], rule exI [of _ after])
      (use w that in \<open>auto simp: decided_run_def earned_def\<close>)
  have free: "\<not> pool_holds (he_lease_id E) pool" if "r = Inr item" for item
    using finalize_taken_service [OF f [unfolded that]] w by (simp add: decided_run_def)
  show "case hot_finalize E b rsn w of (Inr x, w') \<Rightarrow> settled_run E w' \<and> deferred w' | (Inl e, w') \<Rightarrow> settled_run E w'"
    using w f free
    by (auto simp: hot_finalize_def Let_def deferred_def split: option.split sum.split intro!: settled)
qed

lemma fresh_lookup:
  assumes "fresh_run E w"
  shows "hot_lookup E w = (Inr None, w) \<or> (\<exists>e. hot_lookup E w = (Inl e, w))"
proof (cases "get_rows (hw_pool w) ''sessions''")
  case None
  then show ?thesis by (simp add: hot_lookup_def session_for_lease_def split: option.split)
next
  case (Some rows)
  have "filter (holds_lease (he_lease_id E)) (dicts rows) = []"
    using assms Some by (auto simp: fresh_run_def pool_holds_def row_dicts_def list_ex_iff filter_empty_conv)
  then have "lease_matches (he_lease_id E) rows = []" by (metis lease_matches_dicts map_is_Nil_conv)
  with Some show ?thesis by (simp add: hot_lookup_def session_for_lease_def split: option.split)
qed

text \<open>
  What is left when the run ends: nothing was checked out, or the lease was finalized once, or the clean-up was skipped, or
  the checkout lost its reply and the lookup of its lease failed.
\<close>

definition skipped_run :: "hot_world \<Rightarrow> bool" where
  "skipped_run w \<longleftrightarrow> (\<exists>log. hw_log w = log @ [Cleanup_skipped] \<and> Cleanup_skipped \<notin> set log
     \<and> (\<forall>b. Finalize_called b \<notin> set log) \<and> Lease_finalized \<notin> set log)"

definition finished_run :: "hot_env \<Rightarrow> hot_world \<Rightarrow> bool" where
  "finished_run E w \<longleftrightarrow> hw_log w = [] \<or> settled_run E w \<or> skipped_run w
     \<or> hw_log w = [Stored_checkout] \<and> he_checkout_raises E \<noteq> None \<and> he_lookup_raises E \<noteq> None"

lemma finished_stable [simp]: "stable (finished_run E)"
  using settled_stable [of E] by (auto simp: stable_def finished_run_def skipped_run_def)

text \<open>After the lookup: the run owns a lease, or there is nothing to finalize.\<close>

definition looked_up :: "hot_env \<Rightarrow> hot_world \<Rightarrow> bool" where
  "looked_up E w \<longleftrightarrow> hw_log w = [] \<and> (hw_session w = None \<or> \<not> hw_may_have_persisted w)
     \<or> hw_session w \<noteq> None \<and> hw_may_have_persisted w
       \<and> (owning_run E w \<or> stored_run E (w\<lparr>hw_session := None\<rparr>))"

lemma lookup_ok:
  "run_ok (\<lambda>w. after_try E w \<and> deferred w)
     (\<lambda>w. if hw_session w = None \<and> hw_may_have_persisted w
          then hot_bind (hot_call (hot_lookup E)) (\<lambda>dir. hot_set (\<lambda>w. w\<lparr>hw_session := dir\<rparr>)) w
          else hot_return () w)
     (\<lambda>_ w. looked_up E w \<and> deferred w) (\<lambda>_. finished_run E)"
proof (rule run_okI)
  fix w assume w: "after_try E w \<and> deferred w"
  let ?next = "if hw_session w = None \<and> hw_may_have_persisted w
     then hot_bind (hot_call (hot_lookup E)) (\<lambda>dir. hot_set (\<lambda>w. w\<lparr>hw_session := dir\<rparr>)) w else hot_return () w"
  have point: "\<exists>a g. arrive w' = (Inr (), w'\<lparr>hw_guard := g, hw_arrivals := a\<rparr>) \<and> ss_deferred g" if "ss_deferred (hw_guard w')" for w'
    by (rule arrive_cases [of w']) (use that in auto)
  obtain a g where 1: "arrive w = (Inr (), w\<lparr>hw_guard := g, hw_arrivals := a\<rparr>)" "ss_deferred g"
    using point [of w] w by (auto simp: deferred_def)
  let ?w = "w\<lparr>hw_guard := g, hw_arrivals := a\<rparr>"
  obtain a' g' where 2: "arrive ?w = (Inr (), w\<lparr>hw_guard := g', hw_arrivals := a'\<rparr>)" "ss_deferred g'"
    using point [of ?w] 1(2) by auto
  consider (fresh) "fresh_run E w" | (refused) "refused_run E w" "\<not> hw_may_have_persisted w"
    | (stored) "stored_run E w" "he_checkout_raises E \<noteq> None" | (owning) "owning_run E w"
    using w by (auto simp: after_try_def)
  then show "case ?next of (Inr x, w') \<Rightarrow> looked_up E w' \<and> deferred w' | (Inl e, w') \<Rightarrow> finished_run E w'"
  proof cases
    case fresh
    then have f: "fresh_run E ?w" by (simp add: fresh_run_def)
    have n: "hw_session w = None" "hw_may_have_persisted w" "hw_log w = []" using fresh by (simp_all add: fresh_run_def)
    from fresh_lookup [OF f] n 1 2 show ?thesis
      by (auto simp: hot_call_def hot_bind_def hot_set_def hot_return_def looked_up_def deferred_def finished_run_def)
  next
    case refused
    with w show ?thesis by (auto simp: hot_return_def refused_run_def looked_up_def)
  next
    case stored
    then obtain dir where dir: "session_for_lease (he_rt E) (he_seat E) (he_lease_id E) (hw_pool w) = (Inr (Some dir), hw_pool w)"
      and n: "hw_session w = None" "hw_may_have_persisted w" "hw_log w = [Stored_checkout]" by (auto simp: stored_run_def)
    have "stored_run E (w\<lparr>hw_guard := g', hw_arrivals := a', hw_session := None\<rparr>)"
      using stored(1) by (simp add: stored_run_def)
    with dir n 1 2 stored(2) show ?thesis
      by (cases "he_lookup_raises E")
        (auto simp: hot_call_def hot_bind_def hot_set_def hot_return_def hot_lookup_def looked_up_def deferred_def finished_run_def)
  next
    case owning
    then have "hw_session w \<noteq> None" "hw_may_have_persisted w" by (auto simp: owning_run_def held_run_def sent_run_def)
    with owning w show ?thesis by (auto simp: hot_return_def looked_up_def)
  qed
qed

lemma enter_finally_ok: "run_ok (after_try E) enter_finally (\<lambda>_. after_try E) (\<lambda>_. finished_run E)"
proof (rule run_okI)
  fix w assume w: "after_try E w"
  have g: "after_try E (w\<lparr>hw_guard := g, hw_arrivals := a\<rparr>)" for g a
    using w by (simp add: after_try_def run_defs refused_run_def owning_run_def)
  have "hw_log w = [] \<or> hw_log w = [Stored_checkout] \<or> hw_log w = [Stored_checkout, Dispatched]"
    using w by (auto simp: after_try_def run_defs refused_run_def owning_run_def)
  then have s: "finished_run E (hot_note Cleanup_skipped (w\<lparr>hw_guard := g, hw_arrivals := a\<rparr>))" for g a
    by (auto simp: finished_run_def skipped_run_def)
  show "case enter_finally w of (Inr x, w') \<Rightarrow> after_try E w' | (Inl e, w') \<Rightarrow> finished_run E w'"
    by (rule arrive_cases [of w]) (use g s in \<open>simp_all add: enter_finally_def\<close>)
qed

lemma hot_cleanup_ok:
  assumes "after_try E w"
  shows "case hot_cleanup E w of (Inr x, w') \<Rightarrow> finished_run E w' | (Inl e, w') \<Rightarrow> finished_run E w'"
proof -
  obtain n a g where d: "defer_interrupts w = (Inr n, w\<lparr>hw_guard := g, hw_arrivals := a\<rparr>)" "ss_deferred g"
    by (rule defer_interrupts_ok)
  let ?w = "w\<lparr>hw_guard := g, hw_arrivals := a,
    hw_interrupted := int_or (hw_interrupted (w\<lparr>hw_guard := g, hw_arrivals := a\<rparr>)) n\<rparr>"
  have start: "after_try E ?w \<and> deferred ?w"
    using assms d(2) by (simp add: after_try_def run_defs refused_run_def owning_run_def)
  have "run_ok (\<lambda>w. looked_up E w \<and> deferred w)
     (\<lambda>w. if hw_session w \<noteq> None \<and> hw_may_have_persisted w
          then hot_bind (reuse_decision E) (\<lambda>d. hot_call (hot_finalize E (fst d) (snd d))) w
          else hot_return () w)
     (\<lambda>_. finished_run E) (\<lambda>_. finished_run E)"
  proof (rule run_okI)
    fix w assume w: "looked_up E w \<and> deferred w"
    have fin: "run_ok (\<lambda>w. decided_run E (fst d) w \<and> deferred w) (hot_call (hot_finalize E (fst d) (snd d)))
        (\<lambda>_ w. settled_run E w \<and> deferred w) (\<lambda>_. settled_run E)" for d
      by (rule run_ok_call [OF hot_finalize_ok decided_stable(2) settled_deferred]) (simp_all add: deferred_def)
    have "run_ok (\<lambda>w. (owning_run E w \<or> stored_run E (w\<lparr>hw_session := None\<rparr>)) \<and> deferred w)
        (hot_bind (reuse_decision E) (\<lambda>d. hot_call (hot_finalize E (fst d) (snd d))))
        (\<lambda>_. finished_run E) (\<lambda>_. finished_run E)"
      by (rule run_ok_bind [where R = "\<lambda>d w. decided_run E (fst d) w \<and> deferred w"])
        (auto intro: run_ok_weaken [OF reuse_decision_ok] run_ok_weaken [OF fin] simp: finished_run_def)
    from run_okD [OF this, of w] w show "case (if hw_session w \<noteq> None \<and> hw_may_have_persisted w
          then hot_bind (reuse_decision E) (\<lambda>d. hot_call (hot_finalize E (fst d) (snd d))) w
          else hot_return () w) of (Inr x, w') \<Rightarrow> finished_run E w' | (Inl e, w') \<Rightarrow> finished_run E w'"
      by (auto simp: looked_up_def hot_return_def finished_run_def)
  qed
  from run_okD [OF run_ok_bind [OF lookup_ok this] start] show ?thesis
    unfolding hot_cleanup_def hot_bind_def [of defer_interrupts] d prod.case sum.case
      hot_bind_def [of "hot_set _"] hot_set_def .
qed

lemma hot_finally_ok:
  assumes "after_try E w"
  shows "case hot_finally E w of (Inr x, w') \<Rightarrow> finished_run E w' | (Inl e, w') \<Rightarrow> finished_run E w'"
proof -
  have "run_ok (after_try E) (hot_cleanup E) (\<lambda>_. finished_run E) (\<lambda>_. finished_run E)"
    by (rule run_okI) (rule hot_cleanup_ok)
  from run_okD [OF run_ok_bind [OF enter_finally_ok this] assms] show ?thesis by (simp add: hot_finally_def)
qed

definition restores_service :: "hot_env \<Rightarrow> bool" where
  "restores_service E \<longleftrightarrow> (\<forall>p q. he_restore E p = (Inr 0, q) \<longrightarrow> service_inv q \<and> \<not> pool_holds (he_lease_id E) q)"

lemma finished_interrupted [simp]: "finished_run E (w\<lparr>hw_interrupted := i\<rparr>) = finished_run E w"
  by (simp add: finished_run_def settled_run_def earned_def skipped_run_def)

lemma hot_lease_ok:
  assumes "no_collision E" "others_keep E"
  shows "run_ok (\<lambda>w. fresh_run E (w\<lparr>hw_started := False, hw_may_have_persisted := True\<rparr>)) (hot_lease E)
    (\<lambda>_. finished_run E) (\<lambda>_. finished_run E)"
proof (rule run_okI)
  fix w assume w: "fresh_run E (w\<lparr>hw_started := False, hw_may_have_persisted := True\<rparr>)"
  let ?w = "w\<lparr>hw_started := False, hw_may_have_persisted := True\<rparr>"
  obtain r1 w1 where 1: "hot_try E ?w = (r1, w1)" by (rule prod.exhaust)
  obtain r2 w2 where 2: "hot_except r1 w1 = (r2, w2)" by (rule prod.exhaust)
  obtain r3 w3 where 3: "hot_finally E w2 = (r3, w3)" by (rule prod.exhaust)
  have "after_try E w2"
  proof (cases r1)
    case (Inl e)
    from hot_except_ok(1) [OF assms(1) run_ok_Inl [OF hot_try_ok [OF assms] w 1 [unfolded Inl]]] 2 Inl show ?thesis by simp
  next
    case (Inr x)
    from run_ok_Inr [OF hot_try_ok [OF assms] w 1 [unfolded Inr]] obtain r where "sent_run E (Some r) w1" by blast
    from hot_except_ok(2) [OF assms(1) this, of x] 2 Inr show ?thesis by simp
  qed
  from hot_finally_ok [OF this] 3 have "finished_run E w3" by (cases r3) auto
  with 1 2 3 show "case hot_lease E w of (Inr x, w') \<Rightarrow> finished_run E w' | (Inl e, w') \<Rightarrow> finished_run E w'"
    by (auto simp: hot_lease_def Let_def hot_status_def
        split: sum.split option.split json.split)
qed

section \<open>The whole run\<close>

definition idle_run :: "hot_world \<Rightarrow> bool" where
  "idle_run w \<longleftrightarrow> hw_log w = [] \<and> hw_session w = None \<and> hw_response w = None"

lemma idle_stable [simp]: "stable idle_run"
  by (simp add: stable_def idle_run_def)

lemma idle_finished: "idle_run w \<Longrightarrow> finished_run E w"
  by (simp add: idle_run_def finished_run_def)

lemma idle_call:
  "run_ok idle_run m (\<lambda>_. idle_run) (\<lambda>_. idle_run) \<Longrightarrow> run_ok idle_run (hot_call m) (\<lambda>_. idle_run) (\<lambda>_. idle_run)"
  by (rule run_ok_call) simp_all

lemma hot_admitted_ok:
  assumes "no_collision E" "others_keep E" "restores_service E"
  shows "run_ok idle_run (hot_admitted E) (\<lambda>_. finished_run E) (\<lambda>_. finished_run E)"
proof -
  have idle: "run_ok idle_run (hot_call (outcome e)) (\<lambda>_. idle_run) (\<lambda>_. finished_run E)" for e
    by (rule run_ok_weaken [OF idle_call]) (auto intro!: run_rule simp: idle_finished)
  define ready where "ready k w \<longleftrightarrow> idle_run w
    \<and> (k = 0 \<longrightarrow> service_inv (hw_pool w) \<and> \<not> pool_holds (he_lease_id E) (hw_pool w))" for k :: int and w
  have ready_stable [simp]: "stable (ready k)" for k
    using idle_stable by (simp add: stable_def ready_def)
  have "run_ok idle_run (hot_call (\<lambda>w. case he_restore E (hw_pool w) of (r, pool) \<Rightarrow> (r, w\<lparr>hw_pool := pool\<rparr>))) ready
      (\<lambda>_. finished_run E)"
  proof (rule run_ok_call)
    show "run_ok idle_run (\<lambda>w. case he_restore E (hw_pool w) of (r, pool) \<Rightarrow> (r, w\<lparr>hw_pool := pool\<rparr>)) ready
      (\<lambda>_. finished_run E)"
      using assms(3) by (auto simp: run_ok_def ready_def idle_run_def finished_run_def restores_service_def
          split: prod.split sum.split)
  qed (auto simp: ready_def idle_finished)
  moreover have "run_ok (ready k) (if k \<noteq> 0 then hot_return None
        else hot_then (hot_call (outcome (he_one_pool E)))
               (hot_bind (hot_lease E) (\<lambda>status. hot_return (Some status))))
      (\<lambda>_. finished_run E) (\<lambda>_. finished_run E)" for k
  proof (cases "k = 0")
    case True
    have "run_ok (ready 0) (hot_call (outcome (he_one_pool E))) (\<lambda>_. ready 0) (\<lambda>_. finished_run E)"
      by (rule run_ok_call) (auto intro!: run_rule simp: ready_def idle_finished)
    moreover have "run_ok (ready 0) (hot_lease E) (\<lambda>_. finished_run E) (\<lambda>_. finished_run E)"
      by (rule run_ok_weaken [OF hot_lease_ok [OF assms(1,2)]]) (simp_all add: ready_def idle_run_def fresh_run_def)
    moreover have "run_ok (finished_run E) (hot_return (Some s)) (\<lambda>_. finished_run E) (\<lambda>_. finished_run E)" for s :: int
      by (rule run_ok_return)
    ultimately show ?thesis using True by (auto intro: run_ok_bind)
  next
    case False
    then show ?thesis by (auto intro!: run_rule simp: ready_def idle_finished)
  qed
  ultimately show ?thesis unfolding hot_admitted_def by (intro run_ok_bind [OF idle] run_ok_bind)
qed

lemma hot_routed_ok:
  assumes "no_collision E" "others_keep E" "restores_service E"
  shows "run_ok idle_run (hot_routed E) (\<lambda>_. finished_run E) (\<lambda>_. finished_run E)"
proof -
  have "run_ok idle_run arrive (\<lambda>_. idle_run) (\<lambda>_. finished_run E)"
    by (rule run_ok_arrive) (simp_all add: idle_finished)
  moreover have "run_ok idle_run (outcome (he_admit E)) (\<lambda>_. idle_run) (\<lambda>_. finished_run E)"
    by (intro run_rule) (simp_all add: idle_finished)
  moreover have "run_ok idle_run (\<lambda>w.
       (let (r, w1) = hot_admitted E w;
            (left, w2) = hot_call (outcome (he_leave E)) w1
        in case left of Inl e \<Rightarrow> (Inl e, w2) | Inr _ \<Rightarrow> (r, w2))) (\<lambda>_. finished_run E) (\<lambda>_. finished_run E)"
  proof (rule run_okI)
    fix w assume w: "idle_run w"
    obtain r w1 where 1: "hot_admitted E w = (r, w1)" by (rule prod.exhaust)
    obtain left w2 where 2: "hot_call (outcome (he_leave E)) w1 = (left, w2)" by (rule prod.exhaust)
    from run_okD [OF hot_admitted_ok [OF assms] w] 1 have "finished_run E w1" by (cases r) auto
    moreover have "run_ok (finished_run E) (hot_call (outcome (he_leave E))) (\<lambda>_. finished_run E) (\<lambda>_. finished_run E)"
      by (rule run_ok_call) (auto intro!: run_rule)
    ultimately have "finished_run E w2" using run_okD [of "finished_run E"] 2 by (cases left) fastforce+
    with 1 2 show "case (let (r, w1) = hot_admitted E w;
            (left, w2) = hot_call (outcome (he_leave E)) w1
        in case left of Inl e \<Rightarrow> (Inl e, w2) | Inr _ \<Rightarrow> (r, w2)) of
        (Inr x, w') \<Rightarrow> finished_run E w' | (Inl e, w') \<Rightarrow> finished_run E w'"
      by (auto simp: Let_def split: sum.split)
  qed
  ultimately show ?thesis unfolding hot_routed_def by (intro run_ok_bind)
qed

lemma run_world: "snd (run_hot_profile_source E pool arrivals) = snd (hot_routed E (hot_start pool arrivals))"
  by (auto simp: run_hot_profile_source_def Let_def split: prod.split sum.split option.split)

lemma run_finished:
  assumes "no_collision E" "others_keep E" "restores_service E" "run_hot_profile_source E pool arrivals = (res, w)"
  shows "finished_run E w"
proof -
  have "idle_run (hot_start pool arrivals)" by (simp add: idle_run_def hot_start_def)
  from run_okD [OF hot_routed_ok [OF assms(1-3)] this] show ?thesis
    using run_world [of E pool arrivals] assms(4)
    by (cases "hot_routed E (hot_start pool arrivals)"; cases "fst (hot_routed E (hot_start pool arrivals))") auto
qed

text \<open>C20: Suppose that lease collisions are raised only by the checkout, that a restored pool is well-formed and does
  not hold the lease id, and that others keep the pool well-formed during the request.  Then, whatever signals arrive
  and whatever calls fail, a bootstrap run that stored a checkout calls the finalization of its lease exactly once,
  with two exceptions: a signal was handled after the body but before the \<open>try\<close> statement of \<open>_defer_interrupts\<close>, when it
  is not called at all; or the checkout raised after storing and the lookup of the lease could not read the pool
  either.  A run that stored none finalizes none, and a finalization that returned leaves no seat of the pool under the
  lease.\<close>

theorem stored_checkouts_are_finalized_once:
  assumes "no_collision E" "others_keep E" "restores_service E" "run_hot_profile_source E pool arrivals = (res, w)"
  shows "(Stored_checkout \<notin> set (hw_log w) \<longrightarrow> (\<forall>b. Finalize_called b \<notin> set (hw_log w)))
    \<and> (Stored_checkout \<in> set (hw_log w) \<longrightarrow> Cleanup_skipped \<notin> set (hw_log w) \<longrightarrow>
         he_checkout_raises E = None \<or> he_lookup_raises E = None \<longrightarrow>
         (\<exists>b before after. hw_log w = before @ Finalize_called b # after
            \<and> (\<forall>x. Finalize_called x \<notin> set before \<union> set after)))
    \<and> (Cleanup_skipped \<in> set (hw_log w) \<longrightarrow> (\<forall>b. Finalize_called b \<notin> set (hw_log w)))
    \<and> (Lease_finalized \<in> set (hw_log w) \<longrightarrow> \<not> list_ex (holds_lease (he_lease_id E)) (seats (hw_pool w)))"
  using run_finished [OF assms] unfolding finished_run_def
proof (elim disjE conjE)
  assume "settled_run E w"
  then obtain b before after where "hw_log w = before @ Finalize_called b # after" "Stored_checkout \<in> set before"
    "\<forall>x. Finalize_called x \<notin> set before \<union> set after" "Cleanup_skipped \<notin> set (hw_log w)"
    "Lease_finalized \<in> set (hw_log w) \<longrightarrow> \<not> list_ex (holds_lease (he_lease_id E)) (seats (hw_pool w))"
    unfolding settled_run_def pool_holds_def by blast
  then show ?thesis by (intro conjI) (simp, blast, blast, blast)
qed (auto simp: skipped_run_def)

text \<open>C21: A run hands its seat back as reusable only on evidence: the final frame of the broker stated that the child is
  quiescent and the seat reusable, or no request had been dispatched, or the wait for the interrupted attempt reported
  it quiescent.\<close>

theorem reusable_seats_are_earned:
  assumes "no_collision E" "others_keep E" "restores_service E" "run_hot_profile_source E pool arrivals = (res, w)"
    and "Finalize_called True \<in> set (hw_log w)"
  shows "(\<exists>cp. hw_response w = Some (capture_response cp) \<and> dget (cp_final cp) ''child_quiescent'' = J_bool True
        \<and> dget (cp_final cp) ''seat_reusable'' = J_bool True)
    \<or> Dispatched \<notin> set (hw_log w)
    \<or> (\<exists>c. Cleanup_waited c \<in> set (hw_log w) \<and> dget c ''status'' = J_str ''quiescent'')"
  using run_finished [OF assms(1-4)] assms(5)
  by (auto simp: finished_run_def settled_run_def earned_def capture_quiescent_def skipped_run_def)

section \<open>Signals\<close>

definition calm :: "hot_world \<Rightarrow> bool" where
  "calm w \<longleftrightarrow> \<not> ss_deferred (hw_guard w) \<and> ss_interrupted (hw_guard w) = None"

lemma calm_arrive: "run_ok calm arrive (\<lambda>_. calm) (\<lambda>_ _. True)"
proof (rule run_okI)
  fix w assume "calm w"
  then show "case arrive w of (Inr x, w') \<Rightarrow> calm w' | (Inl e, w') \<Rightarrow> True"
    by (rule_tac arrive_cases [of w]) (auto simp: calm_def)
qed

lemma calm_call:
  assumes "run_ok calm m (\<lambda>_. calm) (\<lambda>_ _. True)"
  shows "run_ok calm (hot_call m) (\<lambda>_. calm) (\<lambda>_ _. True)"
  unfolding hot_call_def
  by (intro run_ok_bind [OF calm_arrive] run_ok_bind [OF assms] run_ok_return)

lemma calm_outcome: "run_ok calm (hot_call (outcome e)) (\<lambda>_. calm) (\<lambda>_ _. True)"
  by (intro calm_call run_rule) simp_all

lemma int_or_None: "int_or a b = None \<Longrightarrow> b = None"
  by (auto simp: int_or_def split: option.split_asm if_split_asm)

lemma calm_admitted: "run_ok calm (hot_admitted E) (\<lambda>r w. r = None \<longrightarrow> calm w) (\<lambda>_ _. True)"
proof -
  have "run_ok calm (hot_call (\<lambda>w. case he_restore E (hw_pool w) of (r, pool) \<Rightarrow> (r, w\<lparr>hw_pool := pool\<rparr>)))
      (\<lambda>_. calm) (\<lambda>_ _. True)"
    by (rule calm_call) (auto simp: run_ok_def calm_def split: prod.split sum.split)
  moreover have "run_ok calm (if k \<noteq> 0 then hot_return None
        else hot_then (hot_call (outcome (he_one_pool E)))
               (hot_bind (hot_lease E) (\<lambda>status. hot_return (Some status))))
      (\<lambda>r w. r = None \<longrightarrow> calm w) (\<lambda>_ _. True)" for k :: int
  proof (cases "k = 0")
    case True
    have "run_ok calm (hot_lease E) (\<lambda>_ _. True) (\<lambda>_ _. True)"
      by (auto simp: run_ok_def split: prod.split sum.split)
    with True show ?thesis
      by (simp, intro run_ok_bind [OF calm_outcome] run_ok_bind [where R = "\<lambda>_ _. True"] run_ok_return) simp_all
  qed (simp add: run_ok_return)
  ultimately show ?thesis unfolding hot_admitted_def by (intro run_ok_bind [OF calm_outcome] run_ok_bind)
qed

lemma calm_routed: "run_ok calm (hot_routed E) (\<lambda>r w. r = None \<longrightarrow> calm w) (\<lambda>_ _. True)"
  unfolding hot_routed_def
proof (intro run_ok_bind [OF calm_arrive] run_ok_bind)
  show "run_ok calm (outcome (he_admit E)) (\<lambda>_. calm) (\<lambda>_ _. True)" by (intro run_rule) simp_all
  show "run_ok calm (\<lambda>w. let (r, w1) = hot_admitted E w; (left, w2) = hot_call (outcome (he_leave E)) w1
      in case left of Inl e \<Rightarrow> (Inl e, w2) | Inr _ \<Rightarrow> (r, w2)) (\<lambda>r w. r = None \<longrightarrow> calm w) (\<lambda>_ _. True)"
  proof (rule run_okI)
    fix w assume "calm w"
    obtain r w1 where 1: "hot_admitted E w = (r, w1)" by (rule prod.exhaust)
    obtain left w2 where 2: "hot_call (outcome (he_leave E)) w1 = (left, w2)" by (rule prod.exhaust)
    have "calm w2" if "r = Inr None" "left = Inr u" for u
      using run_ok_Inr [OF calm_outcome _ 2 [unfolded that(2)]]
        run_ok_Inr [OF calm_admitted \<open>calm w\<close> 1 [unfolded that(1)]] by simp
    with 1 2 show "case (let (r, w1) = hot_admitted E w; (left, w2) = hot_call (outcome (he_leave E)) w1
      in case left of Inl e \<Rightarrow> (Inl e, w2) | Inr _ \<Rightarrow> (r, w2)) of
        (Inr r, w') \<Rightarrow> r = None \<longrightarrow> calm w' | (Inl e, w') \<Rightarrow> True"
      by (auto simp: Let_def split: sum.split)
  qed
qed

text \<open>No signal is lost: a run that returns an exit status has received none, however signals fall between and
  into its calls, and while they are deferred for the cleanup; a run that received one raises.\<close>

theorem returned_runs_saw_no_signal:
  assumes "run_hot_profile_source E pool arrivals = (Inr k, w)"
  shows "ss_interrupted (hw_guard w) = None"
proof -
  obtain r w' where r: "hot_routed E (hot_start pool arrivals) = (r, w')" by (rule prod.exhaust)
  have calm: "calm (hot_start pool arrivals)" by (simp add: calm_def hot_start_def)
  show ?thesis
  proof (cases "r = Inr None")
    case True
    with run_ok_Inr [OF calm_routed calm] r have "calm w'" by fastforce
    with assms r True show ?thesis by (simp add: run_hot_profile_source_def calm_def)
  next
    case False
    with assms r show ?thesis
      by (auto simp: run_hot_profile_source_def dest: int_or_None
          split: sum.split_asm option.split_asm hot_error.split_asm)
  qed
qed

section \<open>Runs\<close>

definition served_capture :: capture where
  "served_capture = \<lparr>cp_final = [(''child_quiescent'', J_bool True), (''seat_reusable'', J_bool True)],
     cp_cancellation = J_null, cp_output = [1, 2], cp_broker_bytes = [1, 2], cp_done_token = [2]\<rparr>"

definition hot_sample :: hot_env where
  "hot_sample = \<lparr>he_rt = plain_rt, he_seat = sample_env, he_agent = None, he_lease_id = ''L'', he_admit = None,
     he_leave = None, he_update = None, he_restore = (\<lambda>_. (Inr 0, sample_pool)), he_one_pool = None,
     he_checkout_raises = None, he_metadata = Inr [(''execution_topology'', J_str BROKER_TOPOLOGY)], he_progress = None,
     he_request = (\<lambda>p. (Inr served_capture, p)),
     he_cleanup = Inr [(''status'', J_str ''quiescent'')], he_lookup_raises = None, he_finalize_raises = None\<rparr>"

lemma hot_sample_ok: "no_collision hot_sample" "others_keep hot_sample" "restores_service hot_sample"
proof -
  have "is_fork_basis sample_pool \<and> dget sample_pool ''status'' = J_str ''ready''
      \<and> list_all (\<lambda>d. named d \<and> \<not> holds_lease ''L'' d) (seats sample_pool)" by code_simp
  then have "service_inv sample_pool \<and> \<not> pool_holds ''L'' sample_pool"
    by (auto simp: service_inv_def pool_holds_def list_all_iff list_ex_iff)
  then show "no_collision hot_sample" "others_keep hot_sample" "restores_service hot_sample"
    by (simp_all add: no_collision_def others_keep_def restores_service_def hot_sample_def)
qed

text \<open>A termination signal that arrives while the request is being answered.\<close>

definition terminated_run :: "(hot_error + int) \<times> hot_world" where
  "terminated_run = run_hot_profile_source hot_sample [] (replicate 15 None @ [Some 15])"

lemma terminated_log:
  "fst terminated_run = Inl (Hot_Interrupted 15) \<and> hw_log (snd terminated_run)
     = [Stored_checkout, Dispatched, Cleanup_waited [(''status'', J_str ''quiescent'')], Finalize_called True, Lease_finalized]"
  by code_simp

theorem stored_checkouts_are_finalized_once_witness:
  "\<not> list_ex (holds_lease ''L'') (seats (hw_pool (snd terminated_run)))"
proof -
  have "run_hot_profile_source hot_sample [] (replicate 15 None @ [Some 15]) = (fst terminated_run, snd terminated_run)"
    by (simp add: terminated_run_def)
  from stored_checkouts_are_finalized_once [OF hot_sample_ok this] terminated_log show ?thesis
    by (simp add: hot_sample_def)
qed

theorem reusable_seats_are_earned_witness:
  "\<exists>c. Cleanup_waited c \<in> set (hw_log (snd terminated_run)) \<and> dget c ''status'' = J_str ''quiescent''"
proof -
  have run: "run_hot_profile_source hot_sample [] (replicate 15 None @ [Some 15]) = (fst terminated_run, snd terminated_run)"
    by (simp add: terminated_run_def)
  have "Finalize_called True \<in> set (hw_log (snd terminated_run))" using terminated_log by simp
  moreover have "hw_response (snd terminated_run) = None" by code_simp
  ultimately show ?thesis
    using reusable_seats_are_earned [OF hot_sample_ok run] terminated_log by auto
qed

text \<open>
  A signal handled between the end of the request and the deferral of the clean-up: the seat stays leased to a run that is
  over.
\<close>

definition skipping_run :: "(hot_error + int) \<times> hot_world" where
  "skipping_run = run_hot_profile_source hot_sample [] (replicate 16 None @ [Some 15])"

theorem signal_before_deferral_leaks_lease:
  "fst skipping_run = Inl (Hot_Interrupted 15) \<and> hw_log (snd skipping_run) = [Stored_checkout, Dispatched, Cleanup_skipped]
     \<and> list_ex (holds_lease ''L'') (seats (hw_pool (snd skipping_run)))"
  by code_simp

definition served_run :: "(hot_error + int) \<times> hot_world" where
  "served_run = run_hot_profile_source hot_sample [] []"

theorem returned_runs_saw_no_signal_witness:
  "fst served_run = Inr 0 \<and> ss_interrupted (hw_guard (snd served_run)) = None"
proof -
  have r: "fst served_run = Inr 0" by code_simp
  then have "run_hot_profile_source hot_sample [] [] = (Inr 0, snd served_run)"
    by (simp add: served_run_def prod_eq_iff)
  from returned_runs_saw_no_signal [OF this] r show ?thesis by simp
qed

end
