(* ===== verification/Proof_Activity.thy ===== *)
theory Proof_Activity
  imports Claim_Accounting Attempt_Cleanup
begin

text \<open>
  The activity records of \<open>hol_workbench/proof_diagnostics.py\<close>.  The prelude that \<open>diagnostic_prelude\<close> puts in
  front of a source makes each call of \<open>prove\<close> print a record when it is entered and when it is left;
  \<open>account_proof_activity\<close> reads a transcript back into the calls that are active at its end, and
  \<open>identify_running_binding\<close> names the binding of the innermost one.  The fixed texts of a result (authority,
  boundary, retention) are left out.
\<close>

section \<open>Lines, fields and texts\<close>

text \<open>The lines that \<open>_line_ranges\<close> delimits, each with its terminator.\<close>

fun raw_lines :: "bytes \<Rightarrow> bytes list" where
  "raw_lines [] = []"
| "raw_lines (b # bs) =
     (if b = 0x0A \<or> (b = 0x0D \<and> take 1 bs \<noteq> [0x0A]) then [b] # raw_lines bs
      else case raw_lines bs of [] \<Rightarrow> [[b]] | l # ls \<Rightarrow> (b # l) # ls)"

definition line_ranges :: "bytes \<Rightarrow> (nat \<times> bytes) list" where
  "line_ranges transcript = enumerate 1 (raw_lines transcript)"

text \<open>\<open>bytes.decode("ascii")\<close>\<close>

definition ascii_decode :: "bytes \<Rightarrow> string option" where
  "ascii_decode bs = (if list_all (\<lambda>b. b < 0x80) bs then Some (map (\<lambda>b. char_of (unat b)) bs) else None)"

fun split_colon :: "string \<Rightarrow> string list" where
  "split_colon [] = [[]]"
| "split_colon (c # cs) =
     (if c = CHR '':'' then [] # split_colon cs
      else case split_colon cs of [] \<Rightarrow> [[c]] | p # ps \<Rightarrow> (c # p) # ps)"

definition rstrip_newlines :: "bytes \<Rightarrow> bytes" where
  "rstrip_newlines bs = rev (dropWhile byte_line_end (rev bs))"

text \<open>\<open>bytes.fromhex\<close>: white space is skipped in front of a byte.\<close>

definition hex_value :: "char \<Rightarrow> nat option" where
  "hex_value c =
     (let n = of_char c :: nat
      in if 48 \<le> n \<and> n \<le> 57 then Some (n - 48)
         else if 97 \<le> n \<and> n \<le> 102 then Some (n - 87)
         else if 65 \<le> n \<and> n \<le> 70 then Some (n - 55) else None)"

definition hex_space :: "char \<Rightarrow> bool" where
  "hex_space c \<longleftrightarrow> (let n = of_char c :: nat in 9 \<le> n \<and> n \<le> 13 \<or> n = 32)"

fun from_hex :: "string \<Rightarrow> bytes option" where
  "from_hex [] = Some []"
| "from_hex [c] = (if hex_space c then Some [] else None)"
| "from_hex (c # d # cs) =
     (if hex_space c then from_hex (d # cs)
      else case (hex_value c, hex_value d) of
             (Some h, Some l) \<Rightarrow> map_option ((#) (of_nat (16 * h + l))) (from_hex cs)
           | _ \<Rightarrow> None)"

definition MAX_TEXT_BYTES :: nat where "MAX_TEXT_BYTES = 2048"

definition diagnostic_text :: "string \<Rightarrow> nat \<Rightarrow> ucs option" where
  "diagnostic_text s limit =
     (if (limit + 32) * 2 < length s then None else map_option utf8_replace (from_hex s))"

section \<open>Accounting\<close>

definition PROOF_ACTIVITY_PREFIX :: string where "PROOF_ACTIVITY_PREFIX = ''__HOL_PROOF_ACTIVITY__''"
definition LEGACY_ACTIVITY_PROTOCOL :: string where "LEGACY_ACTIVITY_PROTOCOL = ''hol-hearth.proof-activity.v1''"
definition ACTIVITY_PROTOCOL :: string where "ACTIVITY_PROTOCOL = ''hol-hearth.proof-activity.v2''"
definition MAX_ACTIVITY_CALLS :: int where "MAX_ACTIVITY_CALLS = 8192"
definition MAX_ACTIVITY_DEPTH :: nat where "MAX_ACTIVITY_DEPTH = 64"
definition MAX_ACTIVITY_SEQUENCE :: int where "MAX_ACTIVITY_SEQUENCE = 2 ^ 62 - 1"
definition max_line_bytes :: nat where "max_line_bytes = 32 * (MAX_TEXT_BYTES + 32) * 4 + 256"

record location =
  lc_file :: ucs
  lc_name :: ucs
  lc_line :: int

record active_call =
  av_call :: int
  av_locations :: "location list"
  av_entered :: nat

datatype activity_status = A_none | A_unavailable | A_invalid_contract | A_incomplete | A_malformed
  | A_truncated | A_sequence_exhausted | A_depth_overflow | A_recorded

text \<open>The local variables of the loop.\<close>

record activity_state =
  as_active :: "active_call list"
  as_entered :: int
  as_records :: nat
  as_overflow :: "int option"
  as_spans :: nat
  as_suppressed :: int
  as_terminal :: "activity_status option"

definition activity_start :: activity_state where
  "activity_start = \<lparr>as_active = [], as_entered = 0, as_records = 0, as_overflow = None, as_spans = 0,
     as_suppressed = 0, as_terminal = None\<rparr>"

text \<open>The fields of a record; \<open>None\<close> is the \<open>UnicodeError\<close>.\<close>

definition activity_fields :: "bytes \<Rightarrow> bytes \<Rightarrow> string list option" where
  "activity_fields pre raw = map_option split_colon (ascii_decode (rstrip_newlines (drop (length pre) raw)))"

fun entry_locations :: "string list \<Rightarrow> location list option" where
  "entry_locations (f # n # l # rest) =
     (case (py_int_text l, diagnostic_text f MAX_TEXT_BYTES, diagnostic_text n MAX_TEXT_BYTES) of
        (Some line, Some file, Some name) \<Rightarrow>
          if line < 1 then None
          else map_option ((#) \<lparr>lc_file = file, lc_name = name, lc_line = line\<rparr>) (entry_locations rest)
      | _ \<Rightarrow> None)"
| "entry_locations [] = Some []"
| "entry_locations _ = None"

text \<open>
  One record after its fields were split: \<open>None\<close> is a raised exception.  The first argument is \<open>legacy\<close>, the
  second the number of the transcript line.
\<close>

definition activity_record :: "bool \<Rightarrow> nat \<Rightarrow> string list \<Rightarrow> activity_state \<Rightarrow> activity_state option" where
  "activity_record legacy lineno parts st =
     (case parts of
        n # op # args \<Rightarrow>
          (case py_int_text n of
             None \<Rightarrow> None
           | Some call \<Rightarrow>
               if \<not> (1 \<le> call \<and> call \<le> MAX_ACTIVITY_SEQUENCE) then None
               else if legacy \<and> op = ''TRUNCATED'' then
                 (if args \<noteq> [] \<or> call \<noteq> MAX_ACTIVITY_CALLS + 1 \<or> as_entered st \<noteq> MAX_ACTIVITY_CALLS then None
                  else Some (st\<lparr>as_terminal := Some A_truncated\<rparr>))
               else if \<not> legacy \<and> op = ''EXHAUSTED'' then
                 (if args \<noteq> [] \<or> call \<noteq> MAX_ACTIVITY_SEQUENCE \<or> (as_overflow st = None \<and> as_entered st \<noteq> call) then None
                  else Some (st\<lparr>as_entered := call, as_terminal := Some A_sequence_exhausted\<rparr>))
               else if \<not> legacy \<and> op = ''OVERFLOW'' then
                 (if args \<noteq> [] \<or> as_overflow st \<noteq> None \<or> length (as_active st) \<noteq> MAX_ACTIVITY_DEPTH
                     \<or> call \<noteq> as_entered st + 1 then None
                  else Some (st\<lparr>as_overflow := Some call, as_spans := as_spans st + 1, as_entered := call\<rparr>))
               else if \<not> legacy \<and> op = ''RESUME'' then
                 (case args of
                    [l] \<Rightarrow>
                      if as_overflow st \<noteq> Some call then None
                      else (case py_int_text l of
                              None \<Rightarrow> None
                            | Some final \<Rightarrow>
                                if \<not> (call \<le> final \<and> final \<le> MAX_ACTIVITY_SEQUENCE) then None
                                else Some (st\<lparr>as_suppressed := as_suppressed st + (final - call + 1), as_entered := final,
                                       as_overflow := None\<rparr>))
                  | _ \<Rightarrow> None)
               else if as_overflow st \<noteq> None then None
               else if op = ''ENTER'' then
                 (if call \<noteq> as_entered st + 1 \<or> (legacy \<and> MAX_ACTIVITY_CALLS < call)
                     \<or> (\<not> legacy \<and> MAX_ACTIVITY_DEPTH \<le> length (as_active st))
                     \<or> length args mod 3 \<noteq> 0 \<or> 98 < length parts then None
                  else map_option (\<lambda>locations.
                         st\<lparr>as_active := as_active st @ [\<lparr>av_call = call, av_locations = locations, av_entered = lineno\<rparr>],
                            as_entered := call\<rparr>) (entry_locations args))
               else if op = ''LEAVE'' then
                 (if args \<noteq> [] \<or> as_active st = [] \<or> av_call (last (as_active st)) \<noteq> call then None
                  else Some (st\<lparr>as_active := butlast (as_active st)\<rparr>))
               else None)
      | _ \<Rightarrow> None)"

text \<open>The body of the loop; the left side is an early return or, as \<open>A_malformed\<close>, an exception.\<close>

definition activity_line :: "bool \<Rightarrow> bytes \<Rightarrow> nat \<times> bytes \<Rightarrow> activity_state \<Rightarrow> activity_status + activity_state" where
  "activity_line legacy pre = (\<lambda>(lineno, raw) st.
     if take (length pre) raw \<noteq> pre then
       (if length raw < length pre \<and> startswith_at raw (basc PROOF_ACTIVITY_PREFIX) 0 \<and> take (length raw) pre = raw
        then Inl A_incomplete else Inr st)
     else if max_line_bytes < length raw then Inl A_malformed
     else if last raw \<noteq> 0x0A then Inl A_incomplete
     else let st1 = st\<lparr>as_records := as_records st + 1\<rparr>
          in if legacy \<and> MAX_ACTIVITY_CALLS * 2 + 1 < int (as_records st1) then Inl A_malformed
             else if as_terminal st1 \<noteq> None then Inl A_malformed
             else case activity_fields pre raw of
                    None \<Rightarrow> Inl A_malformed
                  | Some parts \<Rightarrow>
                      (case activity_record legacy lineno parts st1 of None \<Rightarrow> Inl A_malformed | Some st2 \<Rightarrow> Inr st2))"

fun activity_lines :: "bool \<Rightarrow> bytes \<Rightarrow> (nat \<times> bytes) list \<Rightarrow> activity_state \<Rightarrow> activity_status + activity_state" where
  "activity_lines legacy pre [] st = Inr st"
| "activity_lines legacy pre (l # ls) st = bindE (activity_line legacy pre l st) (activity_lines legacy pre ls)"

record activity_bounds =
  ab_spans :: nat
  ab_suppressed :: int
  ab_complete :: bool

text \<open>The result; \<open>ac_entered\<close> is \<open>None\<close> where the key \<open>entered_call_count\<close> is missing.\<close>

record activity_doc =
  ac_schema :: string
  ac_status :: activity_status
  ac_active :: "active_call list"
  ac_entered :: "int option"
  ac_bounds :: "activity_bounds option"

definition empty_activity :: "string \<Rightarrow> activity_status \<Rightarrow> activity_doc" where
  "empty_activity schema status =
     \<lparr>ac_schema = schema, ac_status = status, ac_active = [], ac_entered = None, ac_bounds = None\<rparr>"

definition activity_result :: "string \<Rightarrow> bool \<Rightarrow> activity_state \<Rightarrow> activity_doc" where
  "activity_result schema legacy st =
     (case as_terminal st of
        Some status \<Rightarrow> (empty_activity schema status)\<lparr>ac_entered := Some (as_entered st)\<rparr>
      | None \<Rightarrow>
          (let bounds = (if legacy then None
                         else Some \<lparr>ab_spans = as_spans st, ab_suppressed = as_suppressed st,
                                ab_complete = (as_overflow st = None)\<rparr>)
           in if as_overflow st \<noteq> None
              then (empty_activity schema A_depth_overflow)\<lparr>ac_entered := Some (as_entered st), ac_bounds := bounds\<rparr>
              else \<lparr>ac_schema = schema, ac_status = (if 0 < as_records st then A_recorded else A_none),
                     ac_active = as_active st, ac_entered = Some (as_entered st), ac_bounds = bounds\<rparr>))"

definition activity_prefix :: "string \<Rightarrow> bytes" where
  "activity_prefix nonce = basc (PROOF_ACTIVITY_PREFIX @ '':'' @ nonce @ '':'')"

definition contract_nonce :: "pyrt \<Rightarrow> dict \<Rightarrow> string" where
  "contract_nonce R contract = py_str R (or_else (dget contract ''nonce'') (J_str ''''))"

definition account_proof_activity :: "pyrt \<Rightarrow> bytes \<Rightarrow> dict \<Rightarrow> activity_doc" where
  "account_proof_activity R transcript contract =
     (case dget contract ''proof_diagnostics'' of
        J_obj descriptor \<Rightarrow>
          (case dget descriptor ''activity_protocol'' of
             J_str protocol \<Rightarrow>
               if protocol \<noteq> LEGACY_ACTIVITY_PROTOCOL \<and> protocol \<noteq> ACTIVITY_PROTOCOL
               then empty_activity ACTIVITY_PROTOCOL A_unavailable
               else let nonce = contract_nonce R contract; legacy = (protocol = LEGACY_ACTIVITY_PROTOCOL)
                    in if \<not> nonce_ok (asc nonce) \<or> dget descriptor ''nonce'' \<noteq> J_str nonce
                       then empty_activity protocol A_invalid_contract
                       else (case activity_lines legacy (activity_prefix nonce) (line_ranges transcript) activity_start of
                               Inl status \<Rightarrow> empty_activity protocol status
                             | Inr st \<Rightarrow> activity_result protocol legacy st)
           | _ \<Rightarrow> empty_activity ACTIVITY_PROTOCOL A_unavailable)
      | _ \<Rightarrow> empty_activity ACTIVITY_PROTOCOL A_unavailable)"

section \<open>The emitter\<close>

text \<open>
  The OCaml functions \<open>enter\<close> and \<open>leave\<close> of \<open>diagnostic_prelude\<close>, with the wrapper of \<open>prove\<close> around them: a
  call keeps the number that \<open>enter\<close> returned and hands it to \<open>leave\<close>, normally or by an exception.  A slot is the
  location of a stack frame, \<open>None\<close> when it has none; printing is taken to succeed.
\<close>

type_synonym slot = "(bytes \<times> bytes option \<times> nat) option"

datatype prove_event = Enter "slot list" | Leave | Output bytes

text \<open>\<open>em_calls\<close> is a counter of OCaml, which the guard of \<open>enter\<close> keeps within \<open>max_int\<close>.\<close>

record frame =
  fr_call :: nat
  fr_slots :: "slot list"
  fr_line :: nat

record emitter =
  em_calls :: nat
  em_depth :: nat
  em_enabled :: bool
  em_frames :: "frame list"
  em_out :: bytes
  em_noise :: bytes

definition emitter_start :: emitter where
  "emitter_start = \<lparr>em_calls = 0, em_depth = 0, em_enabled = True, em_frames = [], em_out = [], em_noise = []\<rparr>"

definition hex_nibble :: "nat \<Rightarrow> char" where
  "hex_nibble n = char_of (if n < 10 then 48 + n else 87 + n)"

definition to_hex :: "bytes \<Rightarrow> string" where
  "to_hex bs = concat (map (\<lambda>b. [hex_nibble (unat b div 16), hex_nibble (unat b mod 16)]) bs)"

definition bounded_to :: "nat \<Rightarrow> bytes \<Rightarrow> bytes" where
  "bounded_to limit s = (if length s \<le> limit then s else take limit s @ basc ''... [truncated]'')"

definition slot_text :: "slot \<Rightarrow> string" where
  "slot_text slot =
     (case slot of
        None \<Rightarrow> ''''
      | Some (file, name, line) \<Rightarrow>
          '':'' @ to_hex (bounded_to MAX_TEXT_BYTES file)
          @ '':'' @ to_hex (bounded_to MAX_TEXT_BYTES (case name of None \<Rightarrow> [] | Some n \<Rightarrow> n))
          @ '':'' @ int_text (int line))"

text \<open>
  A printed record, between the newlines of its format strings.  \<open>em_noise\<close> is what was printed since the last
  record; both it and the line recorded in a frame are kept for the statements only.
\<close>

definition emit_record :: "string \<Rightarrow> string \<Rightarrow> emitter \<Rightarrow> emitter" where
  "emit_record nonce body em =
     em\<lparr>em_out := em_out em @ [0x0A] @ activity_prefix nonce @ basc body @ [0x0A], em_noise := []\<rparr>"

definition enter_body :: "nat \<Rightarrow> slot list \<Rightarrow> string" where
  "enter_body call slots = int_text (int call) @ '':ENTER'' @ concat (map slot_text slots)"

definition emit_enter :: "string \<Rightarrow> slot list \<Rightarrow> emitter \<Rightarrow> emitter" where
  "emit_enter nonce slots em =
     (let em1 = (if em_enabled em \<and> int (em_calls em) = MAX_ACTIVITY_SEQUENCE
                 then emit_record nonce (int_text (int (em_calls em)) @ '':EXHAUSTED'') (em\<lparr>em_enabled := False\<rparr>)
                 else em);
          em2 = (if em_enabled em1 then em1\<lparr>em_calls := em_calls em1 + 1, em_depth := em_depth em1 + 1\<rparr> else em1);
          call = em_calls em2;
          line = length (raw_lines (em_out em2 @ [0x0A])) + 1;
          em3 = (if em_enabled em2 \<and> em_depth em2 \<le> MAX_ACTIVITY_DEPTH
                 then emit_record nonce (enter_body call slots) em2
                 else if em_enabled em2 \<and> em_depth em2 = MAX_ACTIVITY_DEPTH + 1
                 then emit_record nonce (int_text (int call) @ '':OVERFLOW'') em2
                 else em2)
      in em3\<lparr>em_frames := em_frames em3 @ [\<lparr>fr_call = call, fr_slots = slots, fr_line = line\<rparr>]\<rparr>)"

definition emit_leave :: "string \<Rightarrow> emitter \<Rightarrow> emitter" where
  "emit_leave nonce em =
     (let call = fr_call (last (em_frames em)); em1 = em\<lparr>em_frames := butlast (em_frames em)\<rparr>
      in if \<not> em_enabled em1 then em1
         else (let em2 = (if em_depth em1 \<le> MAX_ACTIVITY_DEPTH
                          then emit_record nonce (int_text (int call) @ '':LEAVE'') em1
                          else if em_depth em1 = MAX_ACTIVITY_DEPTH + 1
                          then emit_record nonce (int_text (int call) @ '':RESUME:'' @ int_text (int (em_calls em1))) em1
                          else em1)
               in em2\<lparr>em_depth := em_depth em2 - 1\<rparr>))"

definition emit_event :: "string \<Rightarrow> emitter \<Rightarrow> prove_event \<Rightarrow> emitter" where
  "emit_event nonce em ev =
     (case ev of
        Enter slots \<Rightarrow> emit_enter nonce slots em
      | Leave \<Rightarrow> emit_leave nonce em
      | Output bs \<Rightarrow> em\<lparr>em_out := em_out em @ bs, em_noise := em_noise em @ bs\<rparr>)"

definition emit_run :: "string \<Rightarrow> prove_event list \<Rightarrow> emitter" where
  "emit_run nonce evs = foldl (emit_event nonce) emitter_start evs"

end
