(* ===== verification/Activity_Text.thy ===== *)
theory Activity_Text
  imports Proof_Activity
begin

section \<open>Texts\<close>

lemma raw_lines_Nil_iff [simp]: "raw_lines bs = [] \<longleftrightarrow> bs = []"
  by (cases bs) (auto split: list.split)

lemma raw_lines_split: "raw_lines (xs @ 0x0A # ys) = raw_lines (xs @ [0x0A]) @ raw_lines ys"
proof (induction xs)
  case (Cons x xs)
  have t: "take 1 (xs @ 0x0A # ys) = take 1 (xs @ [0x0A])" by (cases xs) simp_all
  have "raw_lines (xs @ [0x0A]) \<noteq> []" by simp
  then obtain l ls where l: "raw_lines (xs @ [0x0A]) = l # ls" by (cases "raw_lines (xs @ [0x0A])") blast+
  show ?case using Cons.IH t l by simp
qed simp

lemma raw_lines_line: "\<forall>b\<in>set xs. b \<noteq> 0x0A \<and> b \<noteq> 0x0D \<Longrightarrow> raw_lines (xs @ [0x0A]) = [xs @ [0x0A]]"
  by (induction xs) auto

lemma raw_lines_newline:
  "raw_lines (bs @ [0x0A]) = raw_lines bs @ [[0x0A]]
   \<or> bs \<noteq> [] \<and> raw_lines (bs @ [0x0A]) = butlast (raw_lines bs) @ [last (raw_lines bs) @ [0x0A]]"
proof (induction bs)
  case (Cons b bs)
  show ?case
  proof (cases bs)
    case (Cons c cs)
    then have t: "take 1 (bs @ [0x0A]) = take 1 bs" by simp
    obtain k ks where k: "raw_lines (bs @ [0x0A]) = k # ks" by (cases "raw_lines (bs @ [0x0A])") auto
    have "raw_lines bs \<noteq> []" using Cons by (subst raw_lines_Nil_iff) simp
    then obtain j js where j: "raw_lines bs = j # js" by (cases "raw_lines bs") blast+
    from Cons.IH t k j show ?thesis by (cases js) auto
  qed simp
qed simp

lemma raw_lines_append_newline:
  assumes "l' \<in> set (raw_lines (bs @ [0x0A]))"
  shows "l' = [0x0A] \<or> (\<exists>l\<in>set (raw_lines bs). l' = l \<or> l' = l @ [0x0A])"
  using raw_lines_newline [of bs]
proof
  assume "raw_lines (bs @ [0x0A]) = raw_lines bs @ [[0x0A]]"
  with assms show ?thesis by auto
next
  assume a: "bs \<noteq> [] \<and> raw_lines (bs @ [0x0A]) = butlast (raw_lines bs) @ [last (raw_lines bs) @ [0x0A]]"
  then have "last (raw_lines bs) \<in> set (raw_lines bs)" by simp
  moreover from a assms have "l' \<in> set (butlast (raw_lines bs)) \<or> l' = last (raw_lines bs) @ [0x0A]" by (simp, blast)
  ultimately show ?thesis by (blast dest: in_set_butlastD)
qed

definition plain :: "string \<Rightarrow> bool" where
  "plain s \<longleftrightarrow> (\<forall>c\<in>set s. (of_char c :: nat) < 128 \<and> c \<noteq> CHR '':'' \<and> (of_char c :: nat) \<noteq> 10 \<and> (of_char c :: nat) \<noteq> 13)"

lemma plain_append [simp]: "plain []" "plain (s @ t) \<longleftrightarrow> plain s \<and> plain t"
  by (auto simp: plain_def)

lemma split_colon_plain: "plain s \<Longrightarrow> split_colon s = [s]"
  by (induction s) (auto simp: plain_def)

lemma split_colon_field: "plain s \<Longrightarrow> split_colon (s @ CHR '':'' # t) = s # split_colon t"
  by (induction s) (auto simp: plain_def)

definition join_colon :: "string \<Rightarrow> string list \<Rightarrow> string" where
  "join_colon p ps = p @ concat (map (\<lambda>q. CHR '':'' # q) ps)"

lemma split_join_colon: "list_all plain (p # ps) \<Longrightarrow> split_colon (join_colon p ps) = p # ps"
proof (induction ps arbitrary: p)
  case Nil
  then show ?case by (simp add: join_colon_def split_colon_plain)
next
  case (Cons q ps)
  have "join_colon p (q # ps) = p @ CHR '':'' # join_colon q ps" by (simp add: join_colon_def)
  with Cons show ?case by (simp add: split_colon_field)
qed

lemma unat_of_char [simp]: "unat (of_char c :: byte) = of_char c"
proof -
  have "(of_char c :: byte) = of_nat (of_char c)"
    by (simp add: of_char_def Groups_List.horner_sum_simps flip: of_nat_of_char)
  moreover have "(of_char c :: nat) < 256" by (rule nat_of_char_less_256)
  ultimately show ?thesis by (simp add: unat_of_nat)
qed

lemma ascii_decode_basc:
  assumes "\<forall>c\<in>set s. (of_char c :: nat) < 128"
  shows "ascii_decode (basc s) = Some s"
proof -
  have "(of_char c :: byte) < 0x80" if "c \<in> set s" for c
    using assms that by (simp add: word_less_nat_alt)
  moreover have "map (\<lambda>b. char_of (unat b)) (basc s) = s" by (simp add: basc_def comp_def map_idI)
  ultimately show ?thesis by (simp add: ascii_decode_def basc_def list_all_iff)
qed

lemma join_colon_chars:
  assumes "list_all plain (p # ps)" and "c \<in> set (join_colon p ps)"
  shows "(of_char c :: nat) < 128 \<and> (of_char c :: nat) \<noteq> 10 \<and> (of_char c :: nat) \<noteq> 13"
proof -
  from assms(2) consider "c = CHR '':''" | "c \<in> set p" | q where "q \<in> set ps" "c \<in> set q"
    by (auto simp: join_colon_def split: if_splits)
  then show ?thesis
  proof cases
    case 1
    then show ?thesis by simp
  next
    case 2
    then show ?thesis using assms(1) unfolding plain_def list_all_iff by (meson list.set_intros(1))
  next
    case (3 q)
    then show ?thesis using assms(1) unfolding plain_def list_all_iff by (meson list.set_intros(2))
  qed
qed

lemma basc_newline:
  assumes "b \<in> set (basc s)" and "\<forall>c\<in>set s. (of_char c :: nat) \<noteq> 10 \<and> (of_char c :: nat) \<noteq> 13"
  shows "b \<noteq> 0x0A \<and> b \<noteq> 0x0D"
proof -
  from assms(1) obtain c where c: "c \<in> set s" "b = of_char c" by (auto simp: basc_def)
  then have "unat b = of_char c" by (simp only: unat_of_char)
  with assms(2) c(1) show ?thesis by force
qed

lemma rstrip_newlines_line:
  assumes "\<forall>b\<in>set xs. b \<noteq> 0x0A \<and> b \<noteq> 0x0D"
  shows "rstrip_newlines (xs @ [0x0A]) = xs"
proof -
  have "\<forall>b\<in>set (rev xs). \<not> byte_line_end b" using assms unfolding byte_line_end_def set_rev by blast
  then have "dropWhile byte_line_end (rev xs) = rev xs" by (cases "rev xs") auto
  then show ?thesis by (simp add: rstrip_newlines_def byte_line_end_def)
qed

lemma activity_fields_line:
  assumes "list_all plain (p # ps)"
  shows "activity_fields pre (pre @ basc (join_colon p ps) @ [0x0A]) = Some (p # ps)"
proof -
  note c = join_colon_chars [OF assms]
  have "rstrip_newlines (basc (join_colon p ps) @ [0x0A]) = basc (join_colon p ps)"
    using c by (intro rstrip_newlines_line ballI basc_newline) blast+
  then show ?thesis using assms c by (simp add: activity_fields_def ascii_decode_basc split_join_colon)
qed

section \<open>Numbers and hexadecimal texts\<close>

text \<open>The characters of a decimal numeral.\<close>

definition digit_char :: "char \<Rightarrow> bool" where
  "digit_char c \<longleftrightarrow> 48 \<le> (of_char c :: nat) \<and> (of_char c :: nat) \<le> 57"

lemma of_char_small: "(n::nat) < 256 \<Longrightarrow> of_char (char_of n :: char) = n"
  by simp

lemma digit_char_of: "d < 10 \<Longrightarrow> digit_char (char_of (48 + d :: nat))"
  by (simp add: digit_char_def)

lemma digits_char: "list_all digit_char (digits k n)"
  by (induction k n rule: digits.induct) (auto simp: digit_char_of)

lemma digits_length: "0 < k \<Longrightarrow> n < 10 ^ k \<Longrightarrow> length (digits f n) \<le> k"
proof (induction k arbitrary: n f)
  case (Suc k)
  show ?case
  proof (cases f)
    case (Suc f')
    show ?thesis
    proof (cases "n < 10")
      case False
      with Suc.prems have "0 < k" by (cases k) auto
      moreover have "n div 10 < 10 ^ k" using Suc.prems by (simp add: div_less_iff_less_mult)
      ultimately have "length (digits f' (n div 10)) \<le> k" using Suc.IH by blast
      with False Suc show ?thesis by simp
    qed (simp add: Suc)
  qed simp
qed simp

lemma char_digit_of: "d < 10 \<Longrightarrow> char_digit (char_of (48 + d :: nat)) = Some d"
  by (simp add: char_digit_def)

lemma int_digits_append:
  "int_digits b acc (s @ [char_of (48 + d :: nat)]) = Some m"
  if "d < 10" "int_digits b acc s = Some k \<or> s = [] \<and> k = acc" "m = k * 10 + d"
  using that by (induction s arbitrary: b acc) (auto simp: char_digit_of split: if_splits option.splits)

lemma int_digits_digits: "n < f \<Longrightarrow> int_digits False 0 (digits f n) = Some n"
proof (induction f n rule: digits.induct)
  case (2 f n)
  show ?case
  proof (cases "n < 10")
    case False
    then have "n div 10 < f" using 2 by linarith
    with 2 False have "int_digits False 0 (digits f (n div 10)) = Some (n div 10)" by blast
    then have "int_digits False 0 (digits f (n div 10) @ [char_of (48 + n mod 10)]) = Some n"
      by (intro int_digits_append [where k = "n div 10"]) auto
    with False show ?thesis by simp
  qed (simp add: char_digit_of)
qed simp

lemma py_strip_digits:
  assumes "list_all digit_char s"
  shows "py_strip s = s"
proof -
  have "\<forall>c\<in>set s. \<not> char_space c" using assms by (auto simp: list_all_iff digit_char_def char_space_def Let_def)
  then have "dropWhile char_space s = s" "dropWhile char_space (rev s) = rev s"
    by (auto simp: dropWhile_eq_self_iff dest: hd_in_set [of "rev s", simplified] hd_in_set)
  then show ?thesis by (simp add: py_strip_def)
qed

lemma py_int_digits:
  assumes "n < 10 ^ 4300"
  shows "py_int_text (int_text (int n)) = Some (int n)"
proof -
  define s where "s = digits (Suc n) n"
  have d: "list_all digit_char s" by (simp only: s_def digits_char)
  have v: "int_digits False 0 s = Some n" unfolding s_def by (rule int_digits_digits) (rule lessI)
  have "length s \<le> 4300" unfolding s_def using assms by (rule digits_length [OF zero_less_numeral])
  then have l: "\<not> 4300 < length (filter (\<lambda>d. char_digit d \<noteq> None) s)"
    by (meson length_filter_le not_le order_trans)
  obtain c cs where c: "s = c # cs" using v by (cases s) simp_all
  then have "digit_char c" using d by simp
  then have "c \<noteq> CHR ''-''" "c \<noteq> CHR ''+''" by (auto simp: digit_char_def)
  moreover have "int_text (int n) = s" by (simp only: int_text_def s_def nat_int) simp
  ultimately show ?thesis using v l py_strip_digits [OF d] unfolding c by (simp only: py_int_text_def) simp
qed

lemma of_char_hex_nibble: "n < 16 \<Longrightarrow> of_char (hex_nibble n) = (if n < 10 then 48 + n else 87 + n)"
  unfolding hex_nibble_def by (simp add: of_char_small del: of_char_of)

lemma hex_value_nibble:
  assumes "n < 16"
  shows "hex_value (hex_nibble n) = Some n" and "\<not> hex_space (hex_nibble n)" and "plain [hex_nibble n]"
  using of_char_hex_nibble [OF assms] assms
  by (auto simp: hex_value_def hex_space_def Let_def plain_def split: if_splits)

lemma nibbles: "unat (b :: byte) div 16 < 16" "unat b mod 16 < 16" "of_nat (16 * (unat b div 16) + unat b mod 16) = b"
proof -
  have "unat b < 256" using unsigned_less [of b] by simp
  then show "unat b div 16 < 16" by auto
  have "16 * (unat b div 16) + unat b mod 16 = unat b" by (rule mult_div_mod_eq)
  then show "of_nat (16 * (unat b div 16) + unat b mod 16) = b" by (simp only: word_unat_eq_iff) simp
qed simp

lemma from_hex_to_hex: "from_hex (to_hex bs) = Some bs"
proof (induction bs)
  case (Cons b bs)
  note h = hex_value_nibble [OF nibbles(1) [of b]] hex_value_nibble [OF nibbles(2) [of b]] nibbles(3) [of b]
  from Cons h(1,2,4,7) show ?case by (simp add: to_hex_def)
qed (simp add: to_hex_def)

lemma plain_digits: "list_all digit_char s \<Longrightarrow> plain s"
  by (auto simp: plain_def digit_char_def list_all_iff)

lemma plain_int_text [simp]: "plain (int_text (int n))"
  using plain_digits [OF digits_char] by (simp add: int_text_def del: digits.simps)

lemma plain_to_hex [simp]: "plain (to_hex bs)"
proof (induction bs)
  case (Cons b bs)
  from Cons hex_value_nibble(3) [OF nibbles(1) [of b]] hex_value_nibble(3) [OF nibbles(2) [of b]]
  show ?case by (simp add: to_hex_def plain_def)
qed (simp add: to_hex_def)

lemma length_to_hex: "length (to_hex bs) = 2 * length bs"
  by (induction bs) (auto simp: to_hex_def)

lemma length_bounded: "length (bounded_to k bs) \<le> k + 15"
  by (simp add: bounded_to_def basc_def)

lemma diagnostic_text_hex: "diagnostic_text (to_hex (bounded_to k bs)) k = Some (utf8_replace (bounded_to k bs))"
  using length_bounded [of k bs] by (simp add: diagnostic_text_def from_hex_to_hex length_to_hex)

end
