(* ===== verification/Activity_Records.thy ===== *)
theory Activity_Records
  imports Activity_Text "HOL-Library.Sublist"
begin

text \<open>
  The lines of a transcript that are records and those that are not, and the records that the emitter prints,
  field by field.
\<close>

section \<open>Lines that are not records\<close>

text \<open>Output of the program itself, which does not start a line with the prefix of the records.\<close>

definition marker_line :: "bytes \<Rightarrow> bool" where
  "marker_line l \<longleftrightarrow> take (length (basc PROOF_ACTIVITY_PREFIX)) l = basc PROOF_ACTIVITY_PREFIX"

definition quiet_output :: "bytes \<Rightarrow> bool" where
  "quiet_output bs \<longleftrightarrow> (\<forall>l\<in>set (raw_lines bs). \<not> marker_line l)"

lemma basc_append [simp]: "basc (s @ t) = basc s @ basc t" "length (basc s) = length s"
  by (simp_all add: basc_def)

lemma activity_prefix_marker: "activity_prefix nonce = basc PROOF_ACTIVITY_PREFIX @ basc ('':'' @ nonce @ '':'')"
  by (simp add: activity_prefix_def)

lemma marker_line_append: "length (basc PROOF_ACTIVITY_PREFIX) \<le> length l \<Longrightarrow> marker_line (l @ x) = marker_line l"
  by (simp add: marker_line_def)

lemma not_marker_newline: "\<not> marker_line l \<Longrightarrow> \<not> marker_line (l @ [0x0A])"
proof
  assume a: "\<not> marker_line l" "marker_line (l @ [0x0A])"
  then have "length l < length (basc PROOF_ACTIVITY_PREFIX)" by (meson marker_line_append not_le)
  with a(2) have "l @ [0x0A] = basc PROOF_ACTIVITY_PREFIX" by (simp add: marker_line_def)
  then have "last (l @ [0x0A]) = last (basc PROOF_ACTIVITY_PREFIX)" by (rule arg_cong)
  then show False by (simp add: PROOF_ACTIVITY_PREFIX_def basc_def)
qed

lemma quiet_newline: "quiet_output bs \<Longrightarrow> quiet_output (bs @ [0x0A])"
proof (unfold quiet_output_def, rule ballI)
  fix l' assume a: "\<forall>l\<in>set (raw_lines bs). \<not> marker_line l" "l' \<in> set (raw_lines (bs @ [0x0A]))"
  have "\<not> marker_line [0x0A]" by (simp add: marker_line_def PROOF_ACTIVITY_PREFIX_def basc_def)
  with raw_lines_append_newline [OF a(2)] a(1) not_marker_newline show "\<not> marker_line l'" by blast
qed

lemma raw_lines_prefix:
  "l \<in> set (raw_lines bs) \<Longrightarrow> \<exists>x. l @ x \<in> set (raw_lines (bs @ cs))"
proof -
  have "\<exists>ls. list_all2 prefix (raw_lines bs) ls \<and> (\<exists>ms. raw_lines (bs @ cs) = ls @ ms)"
  proof (induction bs)
    case (Cons b bs)
    then obtain ls ms where i: "list_all2 prefix (raw_lines bs) ls" "raw_lines (bs @ cs) = ls @ ms" by blast
    show ?case
    proof (cases bs)
      case Nil
      have "raw_lines (b # cs) \<noteq> []" by (subst raw_lines_Nil_iff) simp
      then obtain k ks where k: "raw_lines (b # cs) = k # ks" by (cases "raw_lines (b # cs)") blast+
      then have "prefix [b] k" by (auto split: if_splits list.splits)
      with Nil k show ?thesis by (intro exI [of _ "[k]"] conjI exI [of _ ks]) (simp_all del: raw_lines.simps, simp)
    next
      case (Cons c cs')
      then have t: "take 1 (bs @ cs) = take 1 bs" by simp
      have "raw_lines bs \<noteq> []" using Cons by (subst raw_lines_Nil_iff) simp
      then obtain j js where j: "raw_lines bs = j # js" by (cases "raw_lines bs") blast+
      with i(1) obtain k ks where k: "ls = k # ks" "prefix j k" "list_all2 prefix js ks" by (auto simp: list_all2_Cons1)
      show ?thesis
      proof (cases "b = 0x0A \<or> (b = 0x0D \<and> take 1 bs \<noteq> [0x0A])")
        case True
        then have "raw_lines (b # bs @ cs) = [b] # raw_lines (bs @ cs)" by (simp only: raw_lines.simps t if_True)
        moreover have "raw_lines (b # bs) = [b] # raw_lines bs" using True by (simp only: raw_lines.simps if_True)
        ultimately show ?thesis using i by (intro exI [of _ "[b] # ls"]) simp
      next
        case False
        then have "raw_lines (b # bs @ cs) = (b # k) # ks @ ms"
          by (simp only: raw_lines.simps t if_False i(2) k(1) append_Cons list.case)
        moreover have "raw_lines (b # bs) = (b # j) # js"
          using False by (simp only: raw_lines.simps if_False j list.case)
        ultimately show ?thesis using k by (intro exI [of _ "(b # k) # ks"]) simp
      qed
    qed
  qed simp
  then obtain ls ms where i: "list_all2 prefix (raw_lines bs) ls" "raw_lines (bs @ cs) = ls @ ms" by blast
  assume "l \<in> set (raw_lines bs)"
  with i(1) obtain l' where "l' \<in> set ls" "prefix l l'" by (metis in_set_conv_nth list_all2_conv_all_nth)
  with i(2) show ?thesis by (auto simp: prefix_def)
qed

lemma quiet_prefix:
  assumes "quiet_output (bs @ cs)"
  shows "quiet_output bs"
proof (unfold quiet_output_def, rule ballI)
  fix l assume "l \<in> set (raw_lines bs)"
  then obtain x where x: "l @ x \<in> set (raw_lines (bs @ cs))" using raw_lines_prefix by blast
  with assms have "\<not> marker_line (l @ x)" by (simp add: quiet_output_def)
  then show "\<not> marker_line l" by (auto simp: marker_line_def)
qed

lemma quiet_line_skipped:
  assumes "\<not> marker_line l"
  shows "activity_line legacy (activity_prefix nonce) (n, l) st = Inr st"
proof -
  have "take (length a) l = a" if "take (length (a @ b)) l = a @ b" for a b :: bytes
  proof -
    have "take (length a) l = take (length a) (take (length (a @ b)) l)" by simp
    with that show ?thesis by simp
  qed
  then have "take (length (activity_prefix nonce)) l \<noteq> activity_prefix nonce"
    using assms unfolding activity_prefix_marker marker_line_def by blast
  moreover have "\<not> startswith_at l (basc PROOF_ACTIVITY_PREFIX) 0"
    using assms by (simp add: startswith_at_def marker_line_def)
  ultimately show ?thesis by (simp add: activity_line_def)
qed

lemma quiet_lines_skipped:
  "\<forall>l\<in>set ls. \<not> marker_line l \<Longrightarrow> activity_lines legacy (activity_prefix nonce) (enumerate n ls) st = Inr st"
  by (induction ls arbitrary: n) (simp_all add: quiet_line_skipped)

lemma activity_lines_append:
  "activity_lines legacy pre (xs @ ys) st = bindE (activity_lines legacy pre xs st) (activity_lines legacy pre ys)"
proof (induction xs arbitrary: st)
  case (Cons x xs)
  then show ?case by (cases "activity_line legacy pre x st") simp_all
qed simp


section \<open>Records\<close>

lemma hex_plain: "lower_hex (of_char c) \<Longrightarrow> plain [c]"
  by (auto simp: plain_def lower_hex_def)

lemma nonce_plain: "nonce_ok (asc nonce) \<Longrightarrow> plain nonce \<and> length nonce = 32"
  using hex_plain by (auto simp: nonce_ok_def asc_def list_all_iff plain_def)

lemma prefix_length: "nonce_ok (asc nonce) \<Longrightarrow> length (activity_prefix nonce) = 56"
  using nonce_plain [of nonce] by (simp add: activity_prefix_def PROOF_ACTIVITY_PREFIX_def)

lemma prefix_no_newline:
  assumes "nonce_ok (asc nonce)" and "b \<in> set (activity_prefix nonce)"
  shows "b \<noteq> 0x0A \<and> b \<noteq> 0x0D"
  using assms(2) unfolding activity_prefix_def
proof (rule basc_newline)
  have "plain nonce" using nonce_plain [OF assms(1)] by simp
  then show "\<forall>c\<in>set (PROOF_ACTIVITY_PREFIX @ '':'' @ nonce @ '':''). (of_char c :: nat) \<noteq> 10 \<and> (of_char c :: nat) \<noteq> 13"
    by (auto simp: PROOF_ACTIVITY_PREFIX_def plain_def)
qed

text \<open>A record line, without the newline in front of it.\<close>

definition record_line :: "string \<Rightarrow> string \<Rightarrow> bytes" where
  "record_line nonce body = activity_prefix nonce @ basc body @ [0x0A]"

lemma record_line_no_newline:
  assumes "nonce_ok (asc nonce)" and "list_all plain (p # ps)" and "b \<in> set (activity_prefix nonce @ basc (join_colon p ps))"
  shows "b \<noteq> 0x0A \<and> b \<noteq> 0x0D"
  using assms(3) prefix_no_newline [OF assms(1)] basc_newline join_colon_chars [OF assms(2)] by fastforce

lemma record_line_is_line:
  assumes "nonce_ok (asc nonce)" and "list_all plain (p # ps)"
  shows "raw_lines (record_line nonce (join_colon p ps)) = [record_line nonce (join_colon p ps)]"
  using raw_lines_line [of "activity_prefix nonce @ basc (join_colon p ps)"] record_line_no_newline [OF assms]
  by (simp add: record_line_def)

lemma record_line_accounted:
  assumes "list_all plain (p # ps)" and "length (record_line nonce (join_colon p ps)) \<le> max_line_bytes"
    and "as_terminal st = None"
  shows "activity_line False (activity_prefix nonce) (n, record_line nonce (join_colon p ps)) st
    = (case activity_record False n (p # ps) (st\<lparr>as_records := as_records st + 1\<rparr>) of
         None \<Rightarrow> Inl A_malformed | Some st' \<Rightarrow> Inr st')"
  using assms activity_fields_line [OF assms(1)] by (simp add: activity_line_def record_line_def)

section \<open>What the emitter prints\<close>

definition slot_ok :: "slot \<Rightarrow> bool" where
  "slot_ok slot \<longleftrightarrow> (case slot of None \<Rightarrow> True | Some (_, _, line) \<Rightarrow> 1 \<le> line \<and> int line \<le> MAX_ACTIVITY_SEQUENCE)"

definition event_ok :: "emitter \<Rightarrow> prove_event \<Rightarrow> bool" where
  "event_ok em ev \<longleftrightarrow>
     (case ev of
        Enter slots \<Rightarrow> length slots \<le> 32 \<and> list_all slot_ok slots \<and> quiet_output (em_noise em)
      | Leave \<Rightarrow> em_frames em \<noteq> [] \<and> quiet_output (em_noise em)
      | Output _ \<Rightarrow> True)"

fun events_ok :: "string \<Rightarrow> emitter \<Rightarrow> prove_event list \<Rightarrow> bool" where
  "events_ok nonce em [] \<longleftrightarrow> True"
| "events_ok nonce em (ev # evs) \<longleftrightarrow> event_ok em ev \<and> events_ok nonce (emit_event nonce em ev) evs"

definition session_ok :: "string \<Rightarrow> prove_event list \<Rightarrow> bool" where
  "session_ok nonce evs \<longleftrightarrow> events_ok nonce emitter_start evs \<and> quiet_output (em_noise (emit_run nonce evs))"

lemma events_ok_append:
  "events_ok nonce em (xs @ ys) \<longleftrightarrow> events_ok nonce em xs \<and> events_ok nonce (foldl (emit_event nonce) em xs) ys"
  by (induction xs arbitrary: em) simp_all

definition shown_slot :: "bytes \<times> bytes option \<times> nat \<Rightarrow> location" where
  "shown_slot = (\<lambda>(file, name, line).
     \<lparr>lc_file = utf8_replace (bounded_to MAX_TEXT_BYTES file),
      lc_name = utf8_replace (bounded_to MAX_TEXT_BYTES (case name of None \<Rightarrow> [] | Some n \<Rightarrow> n)), lc_line = int line\<rparr>)"

definition shown_frame :: "frame \<Rightarrow> active_call" where
  "shown_frame fr = \<lparr>av_call = int (fr_call fr), av_locations = map shown_slot (List.map_filter id (fr_slots fr)),
     av_entered = fr_line fr\<rparr>"

definition slot_fields :: "slot \<Rightarrow> string list" where
  "slot_fields slot =
     (case slot of
        None \<Rightarrow> []
      | Some (file, name, line) \<Rightarrow>
          [to_hex (bounded_to MAX_TEXT_BYTES file),
           to_hex (bounded_to MAX_TEXT_BYTES (case name of None \<Rightarrow> [] | Some n \<Rightarrow> n)), int_text (int line)])"

lemma slot_text_fields: "slot_text slot = concat (map (\<lambda>q. CHR '':'' # q) (slot_fields slot))"
  by (simp add: slot_text_def slot_fields_def split: option.split)

lemma enter_body_fields:
  "enter_body call slots = join_colon (int_text (int call)) (''ENTER'' # concat (map slot_fields slots))"
proof -
  have "concat (map slot_text slots) = concat (map (\<lambda>q. CHR '':'' # q) (concat (map slot_fields slots)))"
    by (induction slots) (simp_all add: slot_text_fields)
  then show ?thesis by (simp add: enter_body_def join_colon_def)
qed

lemma plain_slot_fields: "list_all plain (concat (map slot_fields slots))"
  by (induction slots) (auto simp: slot_fields_def split: option.split prod.split)

lemma small_int_digits: "int n \<le> MAX_ACTIVITY_SEQUENCE \<Longrightarrow> py_int_text (int_text (int n)) = Some (int n)"
  and small_int_length: "int n \<le> MAX_ACTIVITY_SEQUENCE \<Longrightarrow> length (int_text (int n)) \<le> 19"
proof -
  assume "int n \<le> MAX_ACTIVITY_SEQUENCE"
  then have n: "n < 10 ^ 19" by (simp add: MAX_ACTIVITY_SEQUENCE_def)
  then have "length (digits (Suc n) n) \<le> 19" by (rule digits_length [OF zero_less_numeral])
  then show "length (int_text (int n)) \<le> 19" by (simp add: int_text_def del: digits.simps)
  have "(10::nat) ^ 19 \<le> 10 ^ 4300" by (rule power_increasing) simp_all
  with n have "n < 10 ^ 4300" by (rule order_less_le_trans)
  then show "py_int_text (int_text (int n)) = Some (int n)" by (rule py_int_digits)
qed

lemma entry_locations_slots:
  "list_all slot_ok slots \<Longrightarrow>
     entry_locations (concat (map slot_fields slots)) = Some (map shown_slot (List.map_filter id slots))"
proof (induction slots)
  case (Cons s slots)
  then show ?case
    by (cases s) (auto simp: slot_fields_def slot_ok_def map_filter_simps shown_slot_def diagnostic_text_hex small_int_digits)
qed (simp add: map_filter_simps)

lemma slot_fields_count: "length (concat (map slot_fields slots)) mod 3 = 0 \<and> length (concat (map slot_fields slots)) \<le> 3 * length slots"
  by (induction slots) (auto simp: slot_fields_def split: option.split prod.split)

lemma slot_text_length: "slot_ok slot \<Longrightarrow> length (slot_text slot) \<le> 8274"
proof (cases slot)
  case (Some t)
  assume ok: "slot_ok slot"
  obtain f n l where t: "t = (f, n, l)" by (cases t)
  have "length (int_text (int l)) \<le> 19" using ok Some t by (simp add: slot_ok_def small_int_length)
  moreover have "length (bounded_to MAX_TEXT_BYTES f) \<le> MAX_TEXT_BYTES + 15"
    "length (bounded_to MAX_TEXT_BYTES (case n of None \<Rightarrow> [] | Some m \<Rightarrow> m)) \<le> MAX_TEXT_BYTES + 15"
    by (rule length_bounded)+
  ultimately show ?thesis using Some t by (simp add: slot_text_def length_to_hex MAX_TEXT_BYTES_def)
qed (simp add: slot_text_def)

lemma slots_text_length: "list_all slot_ok slots \<Longrightarrow> length (concat (map slot_text slots)) \<le> 8274 * length slots"
proof (induction slots)
  case (Cons s slots)
  then have "length (slot_text s) \<le> 8274" "length (concat (map slot_text slots)) \<le> 8274 * length slots"
    using slot_text_length by auto
  then show ?case by simp
qed simp

end
