(* ===== verification/Activity_Reading.thy ===== *)
theory Activity_Reading
  imports Activity_Records
begin

text \<open>
  The accounting of activity records against the emitter that prints them: reading back the transcript of any run
  gives the calls that are active at its end, also when the transcript was cut off.
\<close>

section \<open>Reading what was printed\<close>

definition read_activity :: "string \<Rightarrow> bytes \<Rightarrow> activity_status + activity_state" where
  "read_activity nonce t = activity_lines False (activity_prefix nonce) (line_ranges t) activity_start"

text \<open>What was printed consists of whole lines, whose accounting gives \<open>st\<close>, and the noise after them.\<close>

definition settled_lines :: "string \<Rightarrow> bytes \<Rightarrow> bytes \<Rightarrow> activity_state \<Rightarrow> bool" where
  "settled_lines nonce out noise st \<longleftrightarrow>
     (\<exists>d. out = d @ noise \<and> (d = [] \<or> last d = 0x0A) \<and> read_activity nonce d = Inr st)"

lemma raw_lines_closed:
  assumes "d = [] \<or> last d = 0x0A"
  shows "raw_lines (d @ x) = raw_lines d @ raw_lines x"
proof (cases "d = []")
  case False
  with assms have "d = butlast d @ [0x0A]" by (metis append_butlast_last_id)
  then show ?thesis using raw_lines_split [of "butlast d" x] by (metis append_Cons append_Nil append_assoc)
qed simp

lemma read_append:
  assumes "d = [] \<or> last d = 0x0A"
  shows "read_activity nonce (d @ x) = bindE (read_activity nonce d)
    (activity_lines False (activity_prefix nonce) (enumerate (length (raw_lines d) + 1) (raw_lines x)))"
  by (simp add: read_activity_def line_ranges_def raw_lines_closed [OF assms] enumerate_append_eq activity_lines_append)

lemma settled_read:
  assumes "settled_lines nonce out noise st" and "quiet_output noise"
  shows "read_activity nonce out = Inr st" and "read_activity nonce (out @ [0x0A]) = Inr st"
proof -
  obtain d where d: "out = d @ noise" "d = [] \<or> last d = 0x0A" "read_activity nonce d = Inr st"
    using assms(1) by (auto simp: settled_lines_def)
  have "read_activity nonce (d @ x) = Inr st" if "quiet_output x" for x
    using that d(3) by (simp add: read_append [OF d(2)] quiet_lines_skipped quiet_output_def)
  from this [OF assms(2)] this [OF quiet_newline [OF assms(2)]] d(1)
  show "read_activity nonce out = Inr st" "read_activity nonce (out @ [0x0A]) = Inr st" by simp_all
qed

lemma settled_record:
  assumes "settled_lines nonce out noise st" and "quiet_output noise" and "nonce_ok (asc nonce)" and "list_all plain (p # ps)"
    and "length (record_line nonce (join_colon p ps)) \<le> max_line_bytes" and "as_terminal st = None"
    and "activity_record False (length (raw_lines (out @ [0x0A])) + 1) (p # ps) (st\<lparr>as_records := as_records st + 1\<rparr>) = Some st'"
  shows "settled_lines nonce (out @ [0x0A] @ record_line nonce (join_colon p ps)) [] st'"
proof -
  let ?d = "out @ [0x0A]" and ?l = "record_line nonce (join_colon p ps)"
  have "read_activity nonce (?d @ ?l) = Inr st'"
    using settled_read(2) [OF assms(1,2)] record_line_accounted [OF assms(4,5,6)] assms(7)
    by (subst read_append) (simp_all add: record_line_is_line [OF assms(3,4)])
  moreover have "last (?d @ ?l) = 0x0A" by (simp add: record_line_def)
  ultimately show ?thesis by (auto simp: settled_lines_def)
qed

section \<open>The simulation\<close>

definition overflowing :: "emitter \<Rightarrow> bool" where
  "overflowing em \<longleftrightarrow> MAX_ACTIVITY_DEPTH < length (em_frames em)"

definition matches :: "emitter \<Rightarrow> activity_state \<Rightarrow> bool" where
  "matches em st \<longleftrightarrow>
     int (em_calls em) \<le> MAX_ACTIVITY_SEQUENCE
     \<and> (if em_enabled em
        then em_depth em = length (em_frames em) \<and> as_terminal st = None
          \<and> (\<forall>f\<in>set (em_frames em). 1 \<le> fr_call f \<and> fr_call f \<le> em_calls em)
          \<and> as_active st = map shown_frame (take MAX_ACTIVITY_DEPTH (em_frames em))
          \<and> as_overflow st = (if overflowing em then Some (int (fr_call (em_frames em ! MAX_ACTIVITY_DEPTH))) else None)
          \<and> as_entered st = (if overflowing em then int (fr_call (em_frames em ! MAX_ACTIVITY_DEPTH)) else int (em_calls em))
          \<and> (as_records st = 0 \<longleftrightarrow> em_calls em = 0)
        else as_terminal st = Some A_sequence_exhausted \<and> as_entered st = MAX_ACTIVITY_SEQUENCE)"

lemma emit_record_simps [simp]:
  "em_calls (emit_record nonce body em) = em_calls em" "em_depth (emit_record nonce body em) = em_depth em"
  "em_enabled (emit_record nonce body em) = em_enabled em" "em_frames (emit_record nonce body em) = em_frames em"
  "em_noise (emit_record nonce body em) = []"
  "em_out (emit_record nonce body em) = em_out em @ [0x0A] @ record_line nonce body"
  by (simp_all add: emit_record_def record_line_def)

lemmas sequence_bound = MAX_ACTIVITY_SEQUENCE_def

lemma short_body:
  assumes "int n \<le> MAX_ACTIVITY_SEQUENCE" and "int m \<le> MAX_ACTIVITY_SEQUENCE" and "nonce_ok (asc nonce)"
    and "length op \<le> 10" and "ps = [op] \<or> ps = [op, int_text (int m)]"
  shows "length (record_line nonce (join_colon (int_text (int n)) ps)) \<le> max_line_bytes"
  using small_int_length [OF assms(1)] small_int_length [OF assms(2)] assms(4,5) prefix_length [OF assms(3)]
  by (auto simp: record_line_def join_colon_def max_line_bytes_def MAX_TEXT_BYTES_def)

lemma enter_body_length:
  assumes "int n \<le> MAX_ACTIVITY_SEQUENCE" and "nonce_ok (asc nonce)" and "length slots \<le> 32" and "list_all slot_ok slots"
  shows "length (record_line nonce (enter_body n slots)) \<le> max_line_bytes"
proof -
  have "length (concat (map slot_text slots)) \<le> 8274 * 32"
    using slots_text_length [OF assms(4)] assms(3) by linarith
  then show ?thesis using small_int_length [OF assms(1)] prefix_length [OF assms(2)]
    by (simp add: record_line_def enter_body_def max_line_bytes_def MAX_TEXT_BYTES_def)
qed

lemma colon_bodies:
  "int_text (int n) @ '':OVERFLOW'' = join_colon (int_text (int n)) [''OVERFLOW'']"
  "int_text (int n) @ '':EXHAUSTED'' = join_colon (int_text (int n)) [''EXHAUSTED'']"
  "int_text (int n) @ '':LEAVE'' = join_colon (int_text (int n)) [''LEAVE'']"
  "int_text (int n) @ '':RESUME:'' @ s = join_colon (int_text (int n)) [''RESUME'', s]"
  by (simp_all add: join_colon_def)

lemma plain_ops: "plain ''OVERFLOW''" "plain ''EXHAUSTED''" "plain ''LEAVE''" "plain ''RESUME''" "plain ''ENTER''"
  by (simp_all add: plain_def)

text \<open>One record printed by an enabled emitter whose accounting continues with \<open>st'\<close>.\<close>

lemma short_record_settled:
  assumes "settled_lines nonce out noise st" and "quiet_output noise" and "nonce_ok (asc nonce)" and "as_terminal st = None"
    and "int n \<le> MAX_ACTIVITY_SEQUENCE" and "int m \<le> MAX_ACTIVITY_SEQUENCE"
    and "plain op" and "length op \<le> 10" and "ps = [op] \<or> ps = [op, int_text (int m)]"
    and "activity_record False (length (raw_lines (out @ [0x0A])) + 1) (int_text (int n) # ps)
      (st\<lparr>as_records := as_records st + 1\<rparr>) = Some st'"
  shows "settled_lines nonce (out @ [0x0A] @ record_line nonce (join_colon (int_text (int n)) ps)) [] st'"
  using assms(1-3) _ short_body [OF assms(5,6,3,8,9)] assms(4,10)
proof (rule settled_record)
  show "list_all plain (int_text (int n) # ps)" using assms(7,9) by auto
qed

lemma enter_record_settled:
  assumes "settled_lines nonce out noise st" and "quiet_output noise" and "nonce_ok (asc nonce)" and "as_terminal st = None"
    and "int n \<le> MAX_ACTIVITY_SEQUENCE" and "length slots \<le> 32" and "list_all slot_ok slots"
    and "activity_record False (length (raw_lines (out @ [0x0A])) + 1) (int_text (int n) # ''ENTER'' # concat (map slot_fields slots))
      (st\<lparr>as_records := as_records st + 1\<rparr>) = Some st'"
  shows "settled_lines nonce (out @ [0x0A] @ record_line nonce (enter_body n slots)) [] st'"
  unfolding enter_body_fields
  using assms(1-3) _ _ assms(4,8)
proof (rule settled_record)
  show "list_all plain (int_text (int n) # ''ENTER'' # concat (map slot_fields slots))"
    using plain_slot_fields [of slots] plain_ops(5) by simp
  show "length (record_line nonce (join_colon (int_text (int n)) (''ENTER'' # concat (map slot_fields slots)))) \<le> max_line_bytes"
    using enter_body_length [OF assms(5,3,6,7)] by (simp only: enter_body_fields)
qed

lemma enter_shallow:
  assumes s: "settled_lines nonce (em_out em) (em_noise em) st" "matches em st" "nonce_ok (asc nonce)"
    and ok: "event_ok em (Enter slots)" and on: "em_enabled em" "int (em_calls em) \<noteq> MAX_ACTIVITY_SEQUENCE"
      "length (em_frames em) < MAX_ACTIVITY_DEPTH"
  shows "\<exists>st'. settled_lines nonce (em_out (emit_enter nonce slots em)) (em_noise (emit_enter nonce slots em)) st'
    \<and> matches (emit_enter nonce slots em) st'"
proof -
  let ?n = "em_calls em + 1" and ?k = "length (raw_lines (em_out em @ [0x0A])) + 1"
  let ?fr = "\<lparr>fr_call = ?n, fr_slots = slots, fr_line = ?k\<rparr>"
  let ?st = "st\<lparr>as_records := as_records st + 1, as_active := as_active st @ [shown_frame ?fr], as_entered := int ?n\<rparr>"
  from s(2) on have m: "em_depth em = length (em_frames em)" "as_terminal st = None" "as_overflow st = None"
    "as_active st = map shown_frame (em_frames em)" "as_entered st = int (em_calls em)" "int ?n \<le> MAX_ACTIVITY_SEQUENCE"
    by (auto simp: matches_def overflowing_def)
  from ok have o: "length slots \<le> 32" "list_all slot_ok slots" "quiet_output (em_noise em)" by (simp_all add: event_ok_def)
  have e: "emit_enter nonce slots em = (emit_record nonce (enter_body ?n slots) (em\<lparr>em_calls := ?n, em_depth := em_depth em + 1\<rparr>))
      \<lparr>em_frames := em_frames em @ [?fr]\<rparr>"
    using on m(1) by (simp add: emit_enter_def Let_def)
  have "activity_record False ?k (int_text (int ?n) # ''ENTER'' # concat (map slot_fields slots))
      (st\<lparr>as_records := as_records st + 1\<rparr>) = Some ?st"
    using m on(3) slot_fields_count [of slots] o(1) small_int_digits [OF m(6)] entry_locations_slots [OF o(2)]
    by (simp add: activity_record_def shown_frame_def)
  from enter_record_settled [OF s(1) o(3) s(3) m(2,6) o(1,2) this]
  have "settled_lines nonce (em_out (emit_enter nonce slots em)) (em_noise (emit_enter nonce slots em)) ?st" by (simp add: e)
  moreover have "matches (emit_enter nonce slots em) ?st"
    using s(2) on m by (auto simp: e matches_def overflowing_def)
  ultimately show ?thesis by blast
qed

lemma enter_overflow:
  assumes s: "settled_lines nonce (em_out em) (em_noise em) st" "matches em st" "nonce_ok (asc nonce)"
    and ok: "event_ok em (Enter slots)" and on: "em_enabled em" "int (em_calls em) \<noteq> MAX_ACTIVITY_SEQUENCE"
      "length (em_frames em) = MAX_ACTIVITY_DEPTH"
  shows "\<exists>st'. settled_lines nonce (em_out (emit_enter nonce slots em)) (em_noise (emit_enter nonce slots em)) st'
    \<and> matches (emit_enter nonce slots em) st'"
proof -
  let ?n = "em_calls em + 1" and ?k = "length (raw_lines (em_out em @ [0x0A])) + 1"
  let ?st = "st\<lparr>as_records := as_records st + 1, as_overflow := Some (int ?n), as_spans := as_spans st + 1, as_entered := int ?n\<rparr>"
  from s(2) on have m: "em_depth em = length (em_frames em)" "as_terminal st = None" "as_overflow st = None"
    "as_active st = map shown_frame (em_frames em)" "as_entered st = int (em_calls em)" "int ?n \<le> MAX_ACTIVITY_SEQUENCE"
    by (auto simp: matches_def overflowing_def)
  from ok have o: "quiet_output (em_noise em)" by (simp add: event_ok_def)
  have e: "emit_enter nonce slots em =
      (emit_record nonce (join_colon (int_text (int ?n)) [''OVERFLOW'']) (em\<lparr>em_calls := ?n, em_depth := em_depth em + 1\<rparr>))
      \<lparr>em_frames := em_frames em @ [\<lparr>fr_call = ?n, fr_slots = slots, fr_line = ?k\<rparr>]\<rparr>"
    using on m(1) by (simp add: emit_enter_def Let_def join_colon_def)
  have "activity_record False ?k [int_text (int ?n), ''OVERFLOW''] (st\<lparr>as_records := as_records st + 1\<rparr>) = Some ?st"
    using m on(3) small_int_digits [OF m(6)] by (simp add: activity_record_def)
  from short_record_settled [OF s(1) o s(3) m(2,6,6) plain_ops(1) _ _ this]
  have "settled_lines nonce (em_out (emit_enter nonce slots em)) (em_noise (emit_enter nonce slots em)) ?st" by (simp add: e)
  moreover have "matches (emit_enter nonce slots em) ?st"
    using s(2) on m by (auto simp: e matches_def overflowing_def nth_append)
  ultimately show ?thesis by blast
qed

lemma enter_silent:
  assumes s: "settled_lines nonce (em_out em) (em_noise em) st" "matches em st"
    and on: "em_enabled em \<Longrightarrow> int (em_calls em) \<noteq> MAX_ACTIVITY_SEQUENCE \<and> MAX_ACTIVITY_DEPTH < length (em_frames em)"
  shows "settled_lines nonce (em_out (emit_enter nonce slots em)) (em_noise (emit_enter nonce slots em)) st
    \<and> matches (emit_enter nonce slots em) st"
proof (cases "em_enabled em")
  case True
  with s(2) have m: "em_depth em = length (em_frames em)" by (simp add: matches_def)
  have e: "emit_enter nonce slots em = em\<lparr>em_calls := em_calls em + 1, em_depth := em_depth em + 1,
      em_frames := em_frames em @ [\<lparr>fr_call = em_calls em + 1, fr_slots = slots,
        fr_line = length (raw_lines (em_out em @ [0x0A])) + 1\<rparr>]\<rparr>"
    using True on m by (simp add: emit_enter_def Let_def)
  have "em_calls em \<noteq> 0" using s(2) True on by (cases "em_frames em") (auto simp: matches_def)
  then show ?thesis using s True on m by (auto simp: e matches_def overflowing_def nth_append)
next
  case False
  with s show ?thesis by (auto simp: emit_enter_def Let_def matches_def)
qed

lemma enter_exhausted:
  assumes s: "settled_lines nonce (em_out em) (em_noise em) st" "matches em st" "nonce_ok (asc nonce)"
    and ok: "event_ok em (Enter slots)" and on: "em_enabled em" "int (em_calls em) = MAX_ACTIVITY_SEQUENCE"
  shows "\<exists>st'. settled_lines nonce (em_out (emit_enter nonce slots em)) (em_noise (emit_enter nonce slots em)) st'
    \<and> matches (emit_enter nonce slots em) st'"
proof -
  let ?n = "em_calls em" and ?k = "length (raw_lines (em_out em @ [0x0A])) + 1"
  let ?st = "st\<lparr>as_records := as_records st + 1, as_entered := int ?n, as_terminal := Some A_sequence_exhausted\<rparr>"
  from s(2) on have m: "as_terminal st = None" "as_overflow st = None \<Longrightarrow> as_entered st = int ?n" "int ?n \<le> MAX_ACTIVITY_SEQUENCE"
    by (auto simp: matches_def)
  from ok have o: "quiet_output (em_noise em)" by (simp add: event_ok_def)
  define em1 where "em1 = emit_record nonce (join_colon (int_text (int ?n)) [''EXHAUSTED'']) (em\<lparr>em_enabled := False\<rparr>)"
  have e: "\<exists>fr. emit_enter nonce slots em = em1\<lparr>em_frames := em_frames em @ [fr]\<rparr>"
    using on unfolding emit_enter_def Let_def em1_def colon_bodies by simp blast
  have "1 \<le> int ?n" using on(2) by (simp add: sequence_bound)
  then have "activity_record False ?k [int_text (int ?n), ''EXHAUSTED''] (st\<lparr>as_records := as_records st + 1\<rparr>) = Some ?st"
    using m on(2) small_int_digits [OF m(3)] by (auto simp: activity_record_def)
  from short_record_settled [OF s(1) o s(3) m(1,3,3) plain_ops(2) _ _ this]
  have "settled_lines nonce (em_out em1) (em_noise em1) ?st" by (simp add: em1_def)
  moreover have "matches (em1\<lparr>em_frames := em_frames em @ [fr]\<rparr>) ?st" for fr
    using on(2) by (simp add: em1_def matches_def)
  ultimately show ?thesis using e by auto
qed

lemma enter_simulated:
  assumes "settled_lines nonce (em_out em) (em_noise em) st" "matches em st" "nonce_ok (asc nonce)" "event_ok em (Enter slots)"
  shows "\<exists>st'. settled_lines nonce (em_out (emit_enter nonce slots em)) (em_noise (emit_enter nonce slots em)) st'
    \<and> matches (emit_enter nonce slots em) st'"
proof (cases "em_enabled em \<and> (int (em_calls em) = MAX_ACTIVITY_SEQUENCE \<or> length (em_frames em) \<le> MAX_ACTIVITY_DEPTH)")
  case True
  then consider "em_enabled em" "int (em_calls em) = MAX_ACTIVITY_SEQUENCE"
    | "em_enabled em" "int (em_calls em) \<noteq> MAX_ACTIVITY_SEQUENCE" "length (em_frames em) < MAX_ACTIVITY_DEPTH"
    | "em_enabled em" "int (em_calls em) \<noteq> MAX_ACTIVITY_SEQUENCE" "length (em_frames em) = MAX_ACTIVITY_DEPTH"
    by linarith
  then show ?thesis
    by cases (rule enter_exhausted [OF assms] enter_shallow [OF assms] enter_overflow [OF assms]; assumption)+
next
  case False
  with enter_silent [OF assms(1,2)] show ?thesis by force
qed

lemma butlast_last: "xs \<noteq> [] \<Longrightarrow> k = length xs - 1 \<Longrightarrow> last xs = xs ! k \<and> take k xs = butlast xs"
  by (simp add: last_conv_nth butlast_conv_take)

lemma take_butlast_eq: "k < length xs \<Longrightarrow> take k (butlast xs) = take k xs"
  by (simp add: take_butlast)

lemma leave_shallow:
  assumes s: "settled_lines nonce (em_out em) (em_noise em) st" "matches em st" "nonce_ok (asc nonce)"
    and ok: "event_ok em Leave" and on: "em_enabled em" "length (em_frames em) \<le> MAX_ACTIVITY_DEPTH"
  shows "\<exists>st'. settled_lines nonce (em_out (emit_leave nonce em)) (em_noise (emit_leave nonce em)) st'
    \<and> matches (emit_leave nonce em) st'"
proof -
  let ?n = "fr_call (last (em_frames em))"
  let ?st = "st\<lparr>as_records := as_records st + 1, as_active := butlast (as_active st)\<rparr>"
  from ok have o: "em_frames em \<noteq> []" "quiet_output (em_noise em)" by (simp_all add: event_ok_def)
  from s(2) on have m: "em_depth em = length (em_frames em)" "as_terminal st = None" "as_overflow st = None"
    "as_active st = map shown_frame (em_frames em)" "as_entered st = int (em_calls em)" "int (em_calls em) \<le> MAX_ACTIVITY_SEQUENCE"
    "1 \<le> ?n" "?n \<le> em_calls em"
    using o(1) by (auto simp: matches_def overflowing_def)
  then have "em_calls em \<noteq> 0" by linarith
  from m have n: "int ?n \<le> MAX_ACTIVITY_SEQUENCE" by linarith
  have e: "emit_leave nonce em = (emit_record nonce (join_colon (int_text (int ?n)) [''LEAVE'']) (em\<lparr>em_frames := butlast (em_frames em)\<rparr>))
      \<lparr>em_depth := em_depth em - 1\<rparr>"
    using on m(1) by (simp add: emit_leave_def Let_def join_colon_def)
  have l: "as_active st \<noteq> []" "av_call (last (as_active st)) = int ?n"
    using m(4) o(1) by (simp_all add: last_map shown_frame_def)
  have "activity_record False k [int_text (int ?n), ''LEAVE''] (st\<lparr>as_records := as_records st + 1\<rparr>) = Some ?st" for k
    using m(3,7) n l small_int_digits [OF n] by (simp add: activity_record_def)
  from short_record_settled [OF s(1) o(2) s(3) m(2) n n plain_ops(3) _ _ this]
  have "settled_lines nonce (em_out (emit_leave nonce em)) (em_noise (emit_leave nonce em)) ?st" by (simp add: e)
  moreover have "matches (emit_leave nonce em) ?st"
    using s(2) on m o(1) \<open>em_calls em \<noteq> 0\<close>
    by (auto simp: e matches_def overflowing_def map_butlast dest: in_set_butlastD)
  ultimately show ?thesis by blast
qed

lemma leave_resume:
  assumes s: "settled_lines nonce (em_out em) (em_noise em) st" "matches em st" "nonce_ok (asc nonce)"
    and ok: "event_ok em Leave" and on: "em_enabled em" "length (em_frames em) = MAX_ACTIVITY_DEPTH + 1"
  shows "\<exists>st'. settled_lines nonce (em_out (emit_leave nonce em)) (em_noise (emit_leave nonce em)) st'
    \<and> matches (emit_leave nonce em) st'"
proof -
  let ?n = "fr_call (last (em_frames em))" and ?m = "em_calls em"
  let ?st = "st\<lparr>as_records := as_records st + 1, as_suppressed := as_suppressed st + (int ?m - int ?n + 1),
      as_entered := int ?m, as_overflow := None\<rparr>"
  from ok have o: "em_frames em \<noteq> []" "quiet_output (em_noise em)" by (simp_all add: event_ok_def)
  note bl = butlast_last [OF o(1), of MAX_ACTIVITY_DEPTH]
  from s(2) on have m: "em_depth em = length (em_frames em)" "as_terminal st = None" "as_overflow st = Some (int ?n)"
    "as_active st = map shown_frame (butlast (em_frames em))" "int ?m \<le> MAX_ACTIVITY_SEQUENCE" "1 \<le> ?n" "?n \<le> ?m"
    using o(1) bl by (auto simp: matches_def overflowing_def)
  then have "?m \<noteq> 0" by linarith
  from m have n: "int ?n \<le> MAX_ACTIVITY_SEQUENCE" by linarith
  have e: "emit_leave nonce em =
      (emit_record nonce (join_colon (int_text (int ?n)) [''RESUME'', int_text (int ?m)]) (em\<lparr>em_frames := butlast (em_frames em)\<rparr>))
      \<lparr>em_depth := em_depth em - 1\<rparr>"
    using on m(1) by (simp add: emit_leave_def Let_def join_colon_def)
  have "activity_record False k [int_text (int ?n), ''RESUME'', int_text (int ?m)] (st\<lparr>as_records := as_records st + 1\<rparr>) = Some ?st" for k
    using m n small_int_digits [OF n] small_int_digits [OF m(5)] by (simp add: activity_record_def)
  from short_record_settled [OF s(1) o(2) s(3) m(2) n m(5) plain_ops(4) _ _ this]
  have "settled_lines nonce (em_out (emit_leave nonce em)) (em_noise (emit_leave nonce em)) ?st" by (simp add: e)
  moreover have "matches (emit_leave nonce em) ?st"
    using s(2) on m o(1) \<open>?m \<noteq> 0\<close> by (auto simp: e matches_def overflowing_def dest: in_set_butlastD)
  ultimately show ?thesis by blast
qed

lemma leave_silent:
  assumes s: "settled_lines nonce (em_out em) (em_noise em) st" "matches em st"
    and on: "em_enabled em \<Longrightarrow> MAX_ACTIVITY_DEPTH + 1 < length (em_frames em)"
  shows "settled_lines nonce (em_out (emit_leave nonce em)) (em_noise (emit_leave nonce em)) st \<and> matches (emit_leave nonce em) st"
proof (cases "em_enabled em")
  case True
  with on have l: "MAX_ACTIVITY_DEPTH + 1 < length (em_frames em)" by simp
  from s(2) True have m: "em_depth em = length (em_frames em)" by (simp add: matches_def)
  have e: "emit_leave nonce em = em\<lparr>em_frames := butlast (em_frames em), em_depth := em_depth em - 1\<rparr>"
    using True l m by (simp add: emit_leave_def Let_def)
  have "take MAX_ACTIVITY_DEPTH (butlast (em_frames em)) = take MAX_ACTIVITY_DEPTH (em_frames em)"
    "butlast (em_frames em) ! MAX_ACTIVITY_DEPTH = em_frames em ! MAX_ACTIVITY_DEPTH"
    using l by (simp_all add: take_butlast_eq nth_butlast)
  then show ?thesis using s True l m by (auto simp: e matches_def overflowing_def dest: in_set_butlastD)
next
  case False
  with s show ?thesis by (auto simp: emit_leave_def Let_def matches_def)
qed

lemma leave_simulated:
  assumes "settled_lines nonce (em_out em) (em_noise em) st" "matches em st" "nonce_ok (asc nonce)" "event_ok em Leave"
  shows "\<exists>st'. settled_lines nonce (em_out (emit_leave nonce em)) (em_noise (emit_leave nonce em)) st'
    \<and> matches (emit_leave nonce em) st'"
proof (cases "em_enabled em \<and> length (em_frames em) \<le> MAX_ACTIVITY_DEPTH + 1")
  case True
  then consider "em_enabled em" "length (em_frames em) \<le> MAX_ACTIVITY_DEPTH"
    | "em_enabled em" "length (em_frames em) = MAX_ACTIVITY_DEPTH + 1"
    by linarith
  then show ?thesis by cases (rule leave_shallow [OF assms] leave_resume [OF assms]; assumption)+
next
  case False
  with leave_silent [OF assms(1,2)] show ?thesis by force
qed

lemma event_simulated:
  assumes "settled_lines nonce (em_out em) (em_noise em) st" "matches em st" "nonce_ok (asc nonce)" "event_ok em ev"
  shows "\<exists>st'. settled_lines nonce (em_out (emit_event nonce em ev)) (em_noise (emit_event nonce em ev)) st'
    \<and> matches (emit_event nonce em ev) st'"
proof (cases ev)
  case (Output bs)
  have "settled_lines nonce (em_out em @ bs) (em_noise em @ bs) st" using assms(1) by (auto simp: settled_lines_def)
  moreover have "matches (em\<lparr>em_out := em_out em @ bs, em_noise := em_noise em @ bs\<rparr>) st"
    using assms(2) unfolding matches_def overflowing_def One_nat_def by simp
  ultimately show ?thesis using Output by (auto simp: emit_event_def)
qed (use assms enter_simulated leave_simulated in \<open>simp_all add: emit_event_def\<close>)

lemma session_simulated:
  assumes "settled_lines nonce (em_out em) (em_noise em) st" "matches em st" "nonce_ok (asc nonce)" "events_ok nonce em evs"
  shows "\<exists>st'. settled_lines nonce (em_out (foldl (emit_event nonce) em evs)) (em_noise (foldl (emit_event nonce) em evs)) st'
    \<and> matches (foldl (emit_event nonce) em evs) st'"
  using assms
proof (induction evs arbitrary: em st)
  case (Cons ev evs)
  then have "event_ok em ev" by simp
  from event_simulated [OF Cons.prems(1-3) this] obtain st' where
    "settled_lines nonce (em_out (emit_event nonce em ev)) (em_noise (emit_event nonce em ev)) st'"
    "matches (emit_event nonce em ev) st'" by blast
  from Cons.IH [OF this Cons.prems(3)] Cons.prems(4) show ?case by simp
qed auto

section \<open>The result\<close>

text \<open>
  What a run of the emitter means for the reader: nothing after the counter was exhausted; an overflow when more
  calls are active than are recorded; otherwise the active calls, outermost first, with their call sites.
\<close>

definition activity_of :: "emitter \<Rightarrow> activity_doc \<Rightarrow> bool" where
  "activity_of em doc \<longleftrightarrow>
     (if \<not> em_enabled em then ac_status doc = A_sequence_exhausted \<and> ac_active doc = []
      else if overflowing em
      then ac_status doc = A_depth_overflow \<and> ac_active doc = []
        \<and> ac_entered doc = Some (int (fr_call (em_frames em ! MAX_ACTIVITY_DEPTH)))
      else ac_status doc = (if em_calls em = 0 then A_none else A_recorded)
        \<and> ac_active doc = map shown_frame (em_frames em) \<and> ac_entered doc = Some (int (em_calls em)))"

definition activity_contract :: "pyrt \<Rightarrow> string \<Rightarrow> dict \<Rightarrow> bool" where
  "activity_contract R nonce contract \<longleftrightarrow>
     contract_nonce R contract = nonce \<and> nonce_ok (asc nonce)
     \<and> (case dget contract ''proof_diagnostics'' of
           J_obj d \<Rightarrow> dget d ''activity_protocol'' = J_str ACTIVITY_PROTOCOL \<and> dget d ''nonce'' = J_str nonce
         | _ \<Rightarrow> False)"

lemma account_reads:
  assumes "activity_contract R nonce contract"
  shows "account_proof_activity R t contract =
    (case read_activity nonce t of
       Inl status \<Rightarrow> empty_activity ACTIVITY_PROTOCOL status
     | Inr st \<Rightarrow> activity_result ACTIVITY_PROTOCOL False st)"
proof -
  have "(ACTIVITY_PROTOCOL = LEGACY_ACTIVITY_PROTOCOL) = False"
    by (simp add: ACTIVITY_PROTOCOL_def LEGACY_ACTIVITY_PROTOCOL_def)
  with assms show ?thesis
    by (auto simp: account_proof_activity_def activity_contract_def read_activity_def Let_def split: json.splits sum.splits)
qed

lemma activity_result_matches:
  assumes "matches em st"
  shows "activity_of em (activity_result ACTIVITY_PROTOCOL False st)"
  using assms by (auto simp: matches_def activity_of_def activity_result_def empty_activity_def overflowing_def Let_def)

lemma start_simulated:
  "settled_lines nonce (em_out emitter_start) (em_noise emitter_start) activity_start" "matches emitter_start activity_start"
  by (simp_all add: settled_lines_def emitter_start_def activity_start_def read_activity_def line_ranges_def matches_def
      overflowing_def MAX_ACTIVITY_SEQUENCE_def)

lemma session_reads:
  assumes "nonce_ok (asc nonce)" and "session_ok nonce evs"
  obtains st where "settled_lines nonce (em_out (emit_run nonce evs)) (em_noise (emit_run nonce evs)) st" "matches (emit_run nonce evs) st"
    "quiet_output (em_noise (emit_run nonce evs))"
  using session_simulated [OF start_simulated assms(1), of evs] assms(2) by (auto simp: emit_run_def session_ok_def)

lemma activity_of_session:
  assumes "activity_contract R nonce contract" and "session_ok nonce evs"
  shows "activity_of (emit_run nonce evs) (account_proof_activity R (em_out (emit_run nonce evs)) contract)"
proof -
  have n: "nonce_ok (asc nonce)" using assms(1) by (simp add: activity_contract_def)
  from session_reads [OF n assms(2)] obtain st where st: "settled_lines nonce (em_out (emit_run nonce evs)) (em_noise (emit_run nonce evs)) st"
    "matches (emit_run nonce evs) st" "quiet_output (em_noise (emit_run nonce evs))" .
  from settled_read(1) [OF st(1,3)] activity_result_matches [OF st(2)] account_reads [OF assms(1)] show ?thesis by simp
qed

section \<open>Transcripts that were cut off\<close>

lemma raw_lines_single: "\<forall>b\<in>set xs. b \<noteq> 0x0A \<and> b \<noteq> 0x0D \<Longrightarrow> xs \<noteq> [] \<Longrightarrow> raw_lines xs = [xs]"
proof (induction xs)
  case (Cons x xs)
  then show ?case by (cases "xs = []") auto
qed simp

lemma one_line: "bindE m (activity_lines legacy pre []) = m"
  by (cases m) simp_all

lemma torn_line:
  assumes "nonce_ok (asc nonce)" and "list_all plain (p # ps)" and "length (record_line nonce (join_colon p ps)) \<le> max_line_bytes"
    and "k < length (record_line nonce (join_colon p ps))" and "x = take k (record_line nonce (join_colon p ps))"
  shows "activity_line False (activity_prefix nonce) (n, x) st \<in> {Inl A_incomplete, Inr st}"
    and "\<forall>b\<in>set x. b \<noteq> 0x0A \<and> b \<noteq> 0x0D"
proof -
  let ?pre = "activity_prefix nonce" and ?b = "basc (join_colon p ps)"
  have x: "x = take k (?pre @ ?b)" using assms(4,5) by (simp add: record_line_def)
  then have len: "length x = min k (length (?pre @ ?b))" by simp
  show nl: "\<forall>b\<in>set x. b \<noteq> 0x0A \<and> b \<noteq> 0x0D"
    using record_line_no_newline [OF assms(1,2)] unfolding x by (meson in_set_takeD)
  show "activity_line False ?pre (n, x) st \<in> {Inl A_incomplete, Inr st}"
  proof (cases "length ?pre \<le> length x")
    case True
    then have "length ?pre \<le> k" unfolding len by simp
    then have "take (length ?pre) x = ?pre" unfolding x by simp
    moreover have "x \<noteq> []" using True prefix_length [OF assms(1)] by auto
    then have "last x \<noteq> 0x0A" using nl last_in_set by blast
    moreover have "length x \<le> max_line_bytes" using assms(3,4,5) by simp
    ultimately show ?thesis by (simp add: activity_line_def)
  next
    case False
    then have k: "x = take k ?pre" "length x = k" unfolding x by auto
    show ?thesis
    proof (cases "marker_line x")
      case True
      have "take (length x) ?pre = x" using k by simp
      moreover have "take (length ?pre) x \<noteq> ?pre" using False by (metis nat_le_linear take_all)
      ultimately show ?thesis using True False by (simp add: activity_line_def startswith_at_def marker_line_def)
    next
      case False
      then show ?thesis by (simp add: quiet_line_skipped)
    qed
  qed
qed

lemma event_prints:
  assumes "matches em st" and "event_ok em ev" and "nonce_ok (asc nonce)" and "\<And>bs. ev \<noteq> Output bs"
    and "em_out (emit_event nonce em ev) \<noteq> em_out em"
  obtains p ps where "list_all plain (p # ps)" "length (record_line nonce (join_colon p ps)) \<le> max_line_bytes"
    "em_out (emit_event nonce em ev) = em_out em @ 0x0A # record_line nonce (join_colon p ps)"
proof (cases ev)
  case (Enter slots)
  let ?n = "em_calls em" and ?m = "em_calls em + 1"
  have c: "int ?n \<le> MAX_ACTIVITY_SEQUENCE" using assms(1) by (simp add: matches_def)
  have out: "em_enabled em" "em_out (emit_event nonce em ev) = em_out em @ 0x0A # record_line nonce
      (if int ?n = MAX_ACTIVITY_SEQUENCE then int_text (int ?n) @ '':EXHAUSTED''
       else if em_depth em + 1 \<le> MAX_ACTIVITY_DEPTH then enter_body ?m slots else int_text (int ?m) @ '':OVERFLOW'')"
    using assms(5) Enter by (auto simp: emit_event_def emit_enter_def Let_def split: if_splits)
  have s: "length slots \<le> 32" "list_all slot_ok slots" using assms(2) Enter by (simp_all add: event_ok_def)
  consider "int ?n = MAX_ACTIVITY_SEQUENCE" | "int ?n \<noteq> MAX_ACTIVITY_SEQUENCE" "em_depth em + 1 \<le> MAX_ACTIVITY_DEPTH"
    | "int ?n \<noteq> MAX_ACTIVITY_SEQUENCE" "\<not> em_depth em + 1 \<le> MAX_ACTIVITY_DEPTH" by blast
  then show thesis
  proof cases
    case 1
    have "em_out (emit_event nonce em ev) = em_out em @ 0x0A # record_line nonce (join_colon (int_text (int ?n)) [''EXHAUSTED''])"
      using out(2) unfolding if_P [OF 1] colon_bodies .
    moreover have "length (record_line nonce (join_colon (int_text (int ?n)) [''EXHAUSTED''])) \<le> max_line_bytes"
      using short_body [OF c c assms(3), of "''EXHAUSTED''" "[''EXHAUSTED'']"] by simp
    moreover have "list_all plain [int_text (int ?n), ''EXHAUSTED'']" using plain_ops(2) by simp
    ultimately show thesis using that by blast
  next
    case 2
    then have c': "int ?m \<le> MAX_ACTIVITY_SEQUENCE" using c by linarith
    show thesis using 2 out enter_body_length [OF c' assms(3) s] plain_ops plain_int_text [of ?m] plain_slot_fields [of slots]
      by (intro that [of "int_text (int ?m)" "''ENTER'' # concat (map slot_fields slots)"]) (simp_all add: enter_body_fields)
  next
    case 3
    then have c': "int ?m \<le> MAX_ACTIVITY_SEQUENCE" using c by linarith
    show thesis using 3 out short_body [OF c' c' assms(3), of "''OVERFLOW''" "[''OVERFLOW'']"] plain_ops plain_int_text [of ?m]
      by (intro that [of "int_text (int ?m)" "[''OVERFLOW'']"]) (simp_all add: join_colon_def)
  qed
next
  case Leave
  let ?n = "fr_call (last (em_frames em))" and ?m = "em_calls em"
  have out: "em_enabled em" "em_out (emit_event nonce em ev) = em_out em @ 0x0A # record_line nonce
      (if em_depth em \<le> MAX_ACTIVITY_DEPTH then int_text (int ?n) @ '':LEAVE''
       else int_text (int ?n) @ '':RESUME:'' @ int_text (int ?m))"
    using assms(5) Leave by (auto simp: emit_event_def emit_leave_def Let_def split: if_splits)
  have "em_frames em \<noteq> []" using assms(2) Leave by (simp add: event_ok_def)
  then have "last (em_frames em) \<in> set (em_frames em)" by simp
  with assms(1) out(1) have c: "int ?m \<le> MAX_ACTIVITY_SEQUENCE" "?n \<le> ?m" by (auto simp: matches_def)
  then have n: "int ?n \<le> MAX_ACTIVITY_SEQUENCE" by linarith
  show thesis
  proof (cases "em_depth em \<le> MAX_ACTIVITY_DEPTH")
    case True
    then show thesis using out short_body [OF n n assms(3), of "''LEAVE''" "[''LEAVE'']"] plain_ops
      by (intro that [of "int_text (int ?n)" "[''LEAVE'']"]) (simp_all add: colon_bodies)
  next
    case False
    then show thesis using out short_body [OF n c(1) assms(3), of "''RESUME''" "[''RESUME'', int_text (int ?m)]"] plain_ops
      by (intro that [of "int_text (int ?n)" "[''RESUME'', int_text (int ?m)]"]) (simp_all add: join_colon_def)
  qed
qed (use assms(4) in blast)

lemma take_between: "length xs \<le> n \<Longrightarrow> take n (xs @ ys) = xs @ take (n - length xs) ys"
  by simp

text \<open>A transcript that ends inside what one event prints is read as before the event, or as incomplete.\<close>

lemma torn_event:
  assumes n: "nonce_ok (asc nonce)" and s: "settled_lines nonce (em_out em) (em_noise em) st" "matches em st"
    and ok: "event_ok em ev" and q: "quiet_output (em_noise (emit_event nonce em ev))"
    and y: "em_out (emit_event nonce em ev) = em_out em @ x" "k < length x"
  shows "read_activity nonce (em_out em @ take k x) \<in> {Inl A_incomplete, Inr st}"
proof (cases "\<exists>bs. ev = Output bs")
  case True
  then obtain bs where b: "ev = Output bs" by blast
  then have "x = bs" using y(1) by (simp add: emit_event_def)
  moreover have "quiet_output ((em_noise em @ take k bs) @ drop k bs)" using q b by (simp add: emit_event_def)
  then have "quiet_output (em_noise em @ take k bs)" by (rule quiet_prefix)
  moreover have "settled_lines nonce (em_out em @ take k bs) (em_noise em @ take k bs) st" using s(1) by (auto simp: settled_lines_def)
  ultimately show ?thesis using settled_read(1) by simp
next
  case False
  then have "quiet_output (em_noise em)" using ok by (cases ev) (auto simp: event_ok_def)
  note r = settled_read [OF s(1) this]
  have "em_out (emit_event nonce em ev) \<noteq> em_out em" using y by auto
  with False obtain p ps where l: "list_all plain (p # ps)" "length (record_line nonce (join_colon p ps)) \<le> max_line_bytes"
      "em_out (emit_event nonce em ev) = em_out em @ 0x0A # record_line nonce (join_colon p ps)"
    using event_prints [OF s(2) ok n] by metis
  then have x: "x = 0x0A # record_line nonce (join_colon p ps)" using y(1) by simp
  show ?thesis
  proof (cases k)
    case 0
    then show ?thesis using r(1) by simp
  next
    case (Suc j)
    let ?z = "take j (record_line nonce (join_colon p ps))"
    have j: "j < length (record_line nonce (join_colon p ps))" using y(2) x Suc by simp
    have "read_activity nonce ((em_out em @ [0x0A]) @ ?z) \<in> {Inl A_incomplete, Inr st}"
    proof (cases "?z = []")
      case True
      then show ?thesis using r(2) unfolding True append_Nil2 by blast
    next
      case False
      with torn_line(2) [OF n l(1,2) j refl] have "raw_lines ?z = [?z]" by (intro raw_lines_single)
      then show ?thesis using r(2) torn_line(1) [OF n l(1,2) j refl] by (subst read_append) (simp_all add: one_line)
    qed
    then show ?thesis using x Suc by simp
  qed
qed

lemma emit_event_grows: "\<exists>x. em_out (emit_event nonce em ev) = em_out em @ x"
  by (auto simp: emit_event_def emit_enter_def emit_leave_def Let_def split: prove_event.split)

lemma emit_snoc: "emit_run nonce (evs @ [ev]) = emit_event nonce (emit_run nonce evs) ev"
  by (simp add: emit_run_def)

lemma session_ok_snoc:
  assumes "session_ok nonce (evs @ [ev])"
  shows "session_ok nonce evs" and "event_ok (emit_run nonce evs) ev"
proof -
  from assms have e: "events_ok nonce emitter_start evs" "event_ok (emit_run nonce evs) ev"
    and q: "quiet_output (em_noise (emit_event nonce (emit_run nonce evs) ev))"
    by (auto simp: session_ok_def events_ok_append emit_snoc) (simp add: emit_run_def)
  have "quiet_output (em_noise (emit_run nonce evs))"
  proof (cases ev)
    case (Output bs)
    with q show ?thesis using quiet_prefix by (simp add: emit_event_def)
  qed (use e(2) in \<open>simp_all add: event_ok_def\<close>)
  with e show "session_ok nonce evs" "event_ok (emit_run nonce evs) ev" by (simp_all add: session_ok_def)
qed

text \<open>\<open>m\<close> is the number of events whose output is complete in the transcript.\<close>

definition events_read :: "string \<Rightarrow> prove_event list \<Rightarrow> bytes \<Rightarrow> nat \<Rightarrow> bool" where
  "events_read nonce evs t m \<longleftrightarrow>
     m \<le> length evs \<and> prefix (em_out (emit_run nonce (take m evs))) t
     \<and> (m < length evs \<longrightarrow> \<not> prefix (em_out (emit_run nonce (take (Suc m) evs))) t)"

lemma torn_session:
  assumes c: "activity_contract R nonce contract" and "session_ok nonce evs"
  shows "n < length (em_out (emit_run nonce evs))
      \<and> ac_status (account_proof_activity R (take n (em_out (emit_run nonce evs))) contract) = A_incomplete
    \<or> (\<exists>m. events_read nonce evs (take n (em_out (emit_run nonce evs))) m
          \<and> activity_of (emit_run nonce (take m evs)) (account_proof_activity R (take n (em_out (emit_run nonce evs))) contract))"
  using assms(2)
proof (induction evs rule: rev_induct)
  case Nil
  then have "activity_of (emit_run nonce []) (account_proof_activity R (em_out (emit_run nonce [])) contract)"
    by (rule activity_of_session [OF c])
  then show ?case by (auto simp: events_read_def emit_run_def emitter_start_def)
next
  case (snoc ev evs)
  note ok = session_ok_snoc [OF snoc.prems]
  have nonce: "nonce_ok (asc nonce)" using c by (simp add: activity_contract_def)
  let ?o = "em_out (emit_run nonce evs)"
  obtain x where x: "em_out (emit_run nonce (evs @ [ev])) = ?o @ x" unfolding emit_snoc using emit_event_grows by blast
  let ?t = "take n (?o @ x)"
  consider "n < length ?o" | "length ?o \<le> n" "n < length (?o @ x)" | "length (?o @ x) \<le> n" by linarith
  then show ?case
  proof cases
    case 1
    then have t: "?t = take n ?o" by simp
    have "m < length evs" if "events_read nonce evs ?t m" for m
    proof -
      from that have "m \<le> length evs" "length (em_out (emit_run nonce (take m evs))) \<le> n"
        by (auto simp: events_read_def t dest!: prefix_length_le)
      with 1 show ?thesis by (cases "m = length evs") auto
    qed
    then have "events_read nonce (evs @ [ev]) ?t m" if "events_read nonce evs ?t m" for m
      using that by (fastforce simp: events_read_def)
    moreover have "take m (evs @ [ev]) = take m evs" if "events_read nonce evs ?t m" for m
      using that by (simp add: events_read_def)
    ultimately show ?thesis using snoc.IH [OF ok(1)] 1 unfolding x t [symmetric] by (metis length_append trans_less_add1)
  next
    case 2
    then have t: "?t = ?o @ take (n - length ?o) x" by simp
    from session_reads [OF nonce ok(1)] obtain st where st: "settled_lines nonce ?o (em_noise (emit_run nonce evs)) st"
      "matches (emit_run nonce evs) st" by blast
    have q: "quiet_output (em_noise (emit_event nonce (emit_run nonce evs) ev))"
      using snoc.prems by (simp add: session_ok_def emit_snoc)
    have "n - length ?o < length x" using 2 by simp
    from torn_event [OF nonce st ok(2) q x [unfolded emit_snoc] this]
    have "read_activity nonce ?t \<in> {Inl A_incomplete, Inr st}" unfolding t .
    then have read: "ac_status (account_proof_activity R ?t contract) = A_incomplete
        \<or> activity_of (emit_run nonce evs) (account_proof_activity R ?t contract)"
      using activity_result_matches [OF st(2)] by (auto simp: account_reads [OF c] empty_activity_def)
    have "\<not> prefix (?o @ x) ?t" using 2 by (auto dest!: prefix_length_le)
    moreover have "prefix ?o ?t" unfolding t by simp
    ultimately have "events_read nonce (evs @ [ev]) ?t (length evs)" by (simp add: events_read_def x)
    with read 2(2) show ?thesis unfolding x by (auto intro!: exI [of _ "length evs"])
  next
    case 3
    then have t: "?t = em_out (emit_run nonce (evs @ [ev]))" using x by simp
    have "events_read nonce (evs @ [ev]) ?t (length (evs @ [ev]))" unfolding t by (simp add: events_read_def)
    moreover have "activity_of (emit_run nonce (take (length (evs @ [ev])) (evs @ [ev]))) (account_proof_activity R ?t contract)"
      using activity_of_session [OF c snoc.prems] unfolding t by simp
    ultimately show ?thesis unfolding x by blast
  qed
qed

end
