(* ===== verification/Proof_Activity_Props.thy ===== *)
theory Proof_Activity_Props
  imports Activity_Reading
begin

text \<open>
  What the accounting of activity records shows: of a transcript of the emitter, whole or cut off, and of any
  transcript whatever.
\<close>

section \<open>Any transcript\<close>

text \<open>The number and the operation of a line with the prefix.\<close>

definition record_of :: "bytes \<Rightarrow> bytes \<Rightarrow> (int \<times> string) option" where
  "record_of pre raw =
     (if take (length pre) raw = pre
      then case activity_fields pre raw of
             Some (n # op # _) \<Rightarrow> map_option (\<lambda>call. (call, op)) (py_int_text n)
           | _ \<Rightarrow> None
      else None)"

definition entered_and_not_left :: "bytes \<Rightarrow> (nat \<times> bytes) list \<Rightarrow> active_call \<Rightarrow> bool" where
  "entered_and_not_left pre ls c \<longleftrightarrow>
     (\<exists>raw. (av_entered c, raw) \<in> set ls \<and> record_of pre raw = Some (av_call c, ''ENTER''))
     \<and> (\<forall>(k, raw)\<in>set ls. av_entered c < k \<longrightarrow> record_of pre raw \<noteq> Some (av_call c, ''LEAVE''))"

text \<open>The invariant of the loop; \<open>n\<close> is the number of the next line.\<close>

definition activity_inv :: "bool \<Rightarrow> bytes \<Rightarrow> (nat \<times> bytes) list \<Rightarrow> nat \<Rightarrow> activity_state \<Rightarrow> bool" where
  "activity_inv legacy pre ls n st \<longleftrightarrow>
     sorted_wrt (<) (map av_call (as_active st)) \<and> 0 \<le> as_entered st \<and> as_entered st \<le> MAX_ACTIVITY_SEQUENCE
     \<and> as_terminal st \<noteq> Some A_recorded \<and> (as_terminal st = None \<longrightarrow> (\<forall>k. as_overflow st = Some k \<longrightarrow> as_entered st = k))
     \<and> (\<forall>l\<in>set ls. fst l < n)
     \<and> (\<forall>c\<in>set (as_active st). 1 \<le> av_call c \<and> av_call c \<le> as_entered st \<and> entered_and_not_left pre ls c)
     \<and> (\<not> legacy \<longrightarrow> length (as_active st) \<le> MAX_ACTIVITY_DEPTH)"

lemma activity_inv_records [simp]:
  "activity_inv legacy pre ls n (st\<lparr>as_records := k\<rparr>) = activity_inv legacy pre ls n st"
  by (simp add: activity_inv_def)

lemma entered_and_not_left_snoc:
  assumes "entered_and_not_left pre ls c" and "record_of pre raw \<noteq> Some (av_call c, ''LEAVE'')"
  shows "entered_and_not_left pre (ls @ [(n, raw)]) c"
  using assms by (auto simp: entered_and_not_left_def)

lemma activity_inv_other:
  assumes "activity_inv legacy pre ls n st" and "\<And>call. record_of pre raw \<noteq> Some (call, ''LEAVE'')"
    and "as_active st' = as_active st" and "as_entered st \<le> as_entered st'" and "as_entered st' \<le> MAX_ACTIVITY_SEQUENCE"
    and "as_terminal st' \<noteq> Some A_recorded" "as_terminal st' = None \<Longrightarrow> \<forall>k. as_overflow st' = Some k \<longrightarrow> as_entered st' = k"
  shows "activity_inv legacy pre (ls @ [(n, raw)]) (Suc n) st'"
proof -
  have "entered_and_not_left pre (ls @ [(n, raw)]) c" if "c \<in> set (as_active st)" for c
    using that assms(1,2) by (intro entered_and_not_left_snoc) (auto simp: activity_inv_def)
  then show ?thesis using assms by (fastforce simp: activity_inv_def less_Suc_eq)
qed

lemma activity_record_cases:
  assumes "activity_record legacy lineno parts st = Some st'"
  obtains (Truncated) n args call where "parts = n # ''TRUNCATED'' # args" "py_int_text n = Some call"
      "st' = st\<lparr>as_terminal := Some A_truncated\<rparr>"
  | (Exhausted) n args where "parts = n # ''EXHAUSTED'' # args" "py_int_text n = Some MAX_ACTIVITY_SEQUENCE"
      "st' = st\<lparr>as_entered := MAX_ACTIVITY_SEQUENCE, as_terminal := Some A_sequence_exhausted\<rparr>"
  | (Overflow) n args call where "parts = n # ''OVERFLOW'' # args" "py_int_text n = Some call"
      "call \<le> MAX_ACTIVITY_SEQUENCE" "call = as_entered st + 1"
      "st' = st\<lparr>as_overflow := Some call, as_spans := as_spans st + 1, as_entered := call\<rparr>"
  | (Resume) n args call final where "parts = n # ''RESUME'' # args" "py_int_text n = Some call" "as_overflow st = Some call"
      "call \<le> final" "final \<le> MAX_ACTIVITY_SEQUENCE"
      "st' = st\<lparr>as_suppressed := as_suppressed st + (final - call + 1), as_entered := final, as_overflow := None\<rparr>"
  | (Enter) n args call locations where "parts = n # ''ENTER'' # args" "py_int_text n = Some call" "as_overflow st = None"
      "call \<le> MAX_ACTIVITY_SEQUENCE" "call = as_entered st + 1" "\<not> legacy \<Longrightarrow> length (as_active st) < MAX_ACTIVITY_DEPTH"
      "st' = st\<lparr>as_active := as_active st @ [\<lparr>av_call = call, av_locations = locations, av_entered = lineno\<rparr>], as_entered := call\<rparr>"
  | (Leave) n args call where "parts = n # ''LEAVE'' # args" "py_int_text n = Some call" "as_overflow st = None"
      "as_active st \<noteq> []" "av_call (last (as_active st)) = call" "st' = st\<lparr>as_active := butlast (as_active st)\<rparr>"
proof -
  obtain n rest where p1: "parts = n # rest" using assms by (cases parts) (simp_all add: activity_record_def)
  then obtain op args where p2: "rest = op # args" using assms by (cases rest) (simp_all add: activity_record_def)
  with p1 obtain call where p3: "py_int_text n = Some call"
    using assms by (cases "py_int_text n") (simp_all add: activity_record_def)
  with p1 p2 have "1 \<le> call \<and> call \<le> MAX_ACTIVITY_SEQUENCE"
    using assms by (rule_tac ccontr) (simp add: activity_record_def)
  with p1 p2 p3 have p: "parts = n # op # args" "py_int_text n = Some call" "1 \<le> call" "call \<le> MAX_ACTIVITY_SEQUENCE" by simp_all
  show thesis
  proof (cases "op \<in> {''TRUNCATED'', ''EXHAUSTED'', ''OVERFLOW'', ''RESUME'', ''ENTER'', ''LEAVE''}")
    case False
    then show ?thesis using assms p by (auto simp: activity_record_def split: if_splits)
  next
    case True
    then consider "op = ''TRUNCATED''" | "op = ''EXHAUSTED''" | "op = ''OVERFLOW''" | "op = ''RESUME''" | "op = ''ENTER''" | "op = ''LEAVE''"
      by (elim insertE) simp_all
    then show ?thesis
    proof cases
      case 1
      with assms p show ?thesis by (auto simp: activity_record_def split: if_splits intro!: Truncated)
    next
      case 2
      with assms p show ?thesis by (auto simp: activity_record_def split: if_splits intro!: Exhausted)
    next
      case 3
      with assms p show ?thesis by (auto simp: activity_record_def split: if_splits intro!: Overflow)
    next
      case 4
      with assms p show ?thesis
        by (auto simp: activity_record_def split: if_splits option.splits list.splits intro!: Resume)
    next
      case 5
      with assms p show ?thesis by (auto simp: activity_record_def split: if_splits intro!: Enter)
    next
      case 6
      with assms p show ?thesis by (auto simp: activity_record_def split: if_splits intro!: Leave)
    qed
  qed
qed

lemma activity_inv_line:
  assumes inv: "activity_inv legacy pre ls n st" and step: "activity_line legacy pre (n, raw) st = Inr st'"
  shows "activity_inv legacy pre (ls @ [(n, raw)]) (Suc n) st'"
proof (cases "take (length pre) raw = pre")
  case False
  with step have "st' = st" by (simp add: activity_line_def split: if_splits)
  moreover have "record_of pre raw = None" using False by (simp add: record_of_def)
  ultimately show ?thesis using inv by (intro activity_inv_other [OF inv]) (auto simp: activity_inv_def)
next
  case True
  define s where "s = st\<lparr>as_records := as_records st + 1\<rparr>"
  from step True obtain parts where f: "as_terminal s = None" "activity_fields pre raw = Some parts"
    "activity_record legacy n parts s = Some st'"
    by (auto simp: activity_line_def s_def Let_def split: if_splits option.splits)
  have i: "activity_inv legacy pre ls n s" using inv by (simp add: s_def)
  have r: "record_of pre raw = Some (call, op)" if "parts = m # op # args" "py_int_text m = Some call" for m op args call
    using that True f(2) by (simp add: record_of_def)
  from f(3) show ?thesis
  proof (cases rule: activity_record_cases)
    case (Truncated m args call)
    then show ?thesis using r [OF Truncated(1,2)] i by (intro activity_inv_other [OF i]) (auto simp: activity_inv_def)
  next
    case (Exhausted m args)
    then show ?thesis using r [OF Exhausted(1,2)] i by (intro activity_inv_other [OF i]) (auto simp: activity_inv_def)
  next
    case (Overflow m args call)
    then show ?thesis using r [OF Overflow(1,2)] i f(1) by (intro activity_inv_other [OF i]) auto
  next
    case (Resume m args call final)
    then show ?thesis using r [OF Resume(1,2)] i f(1) by (intro activity_inv_other [OF i]) (auto simp: activity_inv_def)
  next
    case (Enter m args call locations)
    note rec = r [OF Enter(1,2)]
    let ?c = "\<lparr>av_call = call, av_locations = locations, av_entered = n\<rparr>"
    have "entered_and_not_left pre (ls @ [(n, raw)]) c" if "c \<in> set (as_active s)" for c
      using that i rec by (intro entered_and_not_left_snoc) (auto simp: activity_inv_def)
    moreover have "\<forall>l\<in>set ls. fst l < n" using i by (simp add: activity_inv_def)
    then have "entered_and_not_left pre (ls @ [(n, raw)]) ?c" using rec by (auto simp: entered_and_not_left_def)
    ultimately have "\<forall>c\<in>set (as_active st'). entered_and_not_left pre (ls @ [(n, raw)]) c" using Enter(7) by simp
    moreover have "sorted_wrt (<) (map av_call (as_active st'))"
      "\<forall>c\<in>set (as_active st'). 1 \<le> av_call c \<and> av_call c \<le> as_entered st'"
      using i Enter(5,7) by (auto simp: activity_inv_def sorted_wrt_append)
    ultimately show ?thesis using i f(1) Enter(3-7) by (auto simp: activity_inv_def less_Suc_eq)
  next
    case (Leave m args call)
    note rec = r [OF Leave(1,2)]
    have act: "as_active s = as_active st' @ [last (as_active s)]" using Leave(4,6) by simp
    have "map av_call (as_active s) = map av_call (as_active st') @ [call]"
      using arg_cong [OF act, of "map av_call"] Leave(5) by simp
    moreover have "sorted_wrt (<) (map av_call (as_active s))" using i by (simp add: activity_inv_def)
    ultimately have "sorted_wrt (<) (map av_call (as_active st') @ [call])" by simp
    then have c: "sorted_wrt (<) (map av_call (as_active st'))" "\<forall>c\<in>set (as_active st'). av_call c < call"
      by (auto simp: sorted_wrt_append)
    have sub: "set (as_active st') \<subseteq> set (as_active s)" using act by (metis Un_iff set_append subsetI)
    have "entered_and_not_left pre (ls @ [(n, raw)]) a" if "a \<in> set (as_active st')" for a
    proof (rule entered_and_not_left_snoc)
      show "entered_and_not_left pre ls a" using that sub i by (auto simp: activity_inv_def)
      show "record_of pre raw \<noteq> Some (av_call a, ''LEAVE'')" using that c(2) rec by auto
    qed
    moreover have "length (as_active st') \<le> length (as_active s)" using Leave(6) by simp
    ultimately show ?thesis using i c(1) sub Leave(6) by (auto simp: activity_inv_def less_Suc_eq)
  qed
qed

lemma activity_inv_lines:
  assumes "activity_lines legacy pre (enumerate n rs) st = Inr st'" and "activity_inv legacy pre ls n st"
  shows "activity_inv legacy pre (ls @ enumerate n rs) (n + length rs) st'"
  using assms
proof (induction rs arbitrary: n ls st)
  case (Cons r rs)
  then obtain s1 where s1: "activity_line legacy pre (n, r) st = Inr s1" "activity_lines legacy pre (enumerate (Suc n) rs) s1 = Inr st'"
    by (auto simp: bindE_eq_Inr)
  from Cons.IH [OF s1(2) activity_inv_line [OF Cons.prems(2) s1(1)]] show ?case by simp
qed simp

lemma activity_inv_start: "activity_inv legacy pre [] n activity_start"
  by (simp add: activity_inv_def activity_start_def MAX_ACTIVITY_SEQUENCE_def)

lemma activity_lines_early: "activity_lines legacy pre ls st = Inl status \<Longrightarrow> status = A_incomplete \<or> status = A_malformed"
proof (induction ls arbitrary: st)
  case (Cons l ls)
  have "activity_line legacy pre l st = Inl status \<Longrightarrow> status = A_incomplete \<or> status = A_malformed"
    by (cases l) (auto simp: activity_line_def Let_def split: if_splits option.splits)
  with Cons show ?case by (auto simp: bindE_eq_Inl)
qed simp

lemma recorded_state:
  assumes rec: "ac_status (account_proof_activity R t contract) = A_recorded"
  obtains st legacy where "activity_inv legacy (activity_prefix (contract_nonce R contract)) (line_ranges t) (length (line_ranges t) + 1) st"
    "ac_active (account_proof_activity R t contract) = as_active st"
    "ac_entered (account_proof_activity R t contract) = Some (as_entered st)"
    "ac_schema (account_proof_activity R t contract) = ACTIVITY_PROTOCOL \<Longrightarrow> \<not> legacy"
proof -
  let ?pre = "activity_prefix (contract_nonce R contract)"
  obtain d protocol where d: "dget contract ''proof_diagnostics'' = J_obj d" "dget d ''activity_protocol'' = J_str protocol"
    "protocol = LEGACY_ACTIVITY_PROTOCOL \<or> protocol = ACTIVITY_PROTOCOL"
    using rec by (auto simp: account_proof_activity_def empty_activity_def split: json.splits if_splits)
  let ?legacy = "protocol = LEGACY_ACTIVITY_PROTOCOL"
  have a: "account_proof_activity R t contract
      = (if \<not> nonce_ok (asc (contract_nonce R contract)) \<or> dget d ''nonce'' \<noteq> J_str (contract_nonce R contract)
         then empty_activity protocol A_invalid_contract
         else case activity_lines ?legacy ?pre (line_ranges t) activity_start of
                Inl status \<Rightarrow> empty_activity protocol status | Inr st \<Rightarrow> activity_result protocol ?legacy st)"
    using d by (auto simp: account_proof_activity_def Let_def)
  show thesis
  proof (cases "activity_lines ?legacy ?pre (line_ranges t) activity_start")
    case (Inl status)
    with a rec activity_lines_early [OF Inl] show ?thesis by (auto simp: empty_activity_def split: if_splits)
  next
    case (Inr st)
    with a rec have r: "account_proof_activity R t contract = activity_result protocol ?legacy st"
      by (auto simp: empty_activity_def split: if_splits)
    from activity_inv_lines [OF Inr [unfolded line_ranges_def] activity_inv_start]
    have i: "activity_inv ?legacy ?pre (line_ranges t) (length (line_ranges t) + 1) st" by (simp add: line_ranges_def)
    have n: "as_terminal st = None" "as_overflow st = None"
      using rec i unfolding r by (auto simp: activity_result_def empty_activity_def activity_inv_def Let_def split: option.splits if_splits)
    have p: "ACTIVITY_PROTOCOL \<noteq> LEGACY_ACTIVITY_PROTOCOL" by (simp add: ACTIVITY_PROTOCOL_def LEGACY_ACTIVITY_PROTOCOL_def)
    show ?thesis using i n p unfolding r
      by (intro that [of ?legacy st]) (auto simp: activity_result_def Let_def r)
  qed
qed

section \<open>The properties\<close>

text \<open>C24: Whatever bytes a transcript holds, the calls that its accounting records as active have increasing numbers
  from 1 up to the number of calls entered, at most 64 of them in the current protocol, and each of them has its
  entry record on the transcript line that it names and no return record on any later line.\<close>

theorem recorded_calls_entered_and_not_left:
  assumes "ac_status (account_proof_activity R t contract) = A_recorded"
  shows "\<exists>entered. ac_entered (account_proof_activity R t contract) = Some entered
    \<and> sorted_wrt (<) (map av_call (ac_active (account_proof_activity R t contract)))
    \<and> (\<forall>c\<in>set (ac_active (account_proof_activity R t contract)). 1 \<le> av_call c \<and> av_call c \<le> entered
         \<and> entered_and_not_left (activity_prefix (contract_nonce R contract)) (line_ranges t) c)
    \<and> (ac_schema (account_proof_activity R t contract) = ACTIVITY_PROTOCOL
         \<longrightarrow> length (ac_active (account_proof_activity R t contract)) \<le> MAX_ACTIVITY_DEPTH)"
  by (rule recorded_state [OF assms]) (auto simp: activity_inv_def)

text \<open>C23: The accounting reads back what the prelude printed.  If the program's own output starts no line with the
  record prefix, then a transcript, cut off at any byte, is either reported as incomplete, which a whole one never
  is, or its accounting is the state of the run after the events whose output is complete in it: the calls entered
  and not returned from with their call sites, an overflow, or the exhaustion of the counter.\<close>

theorem interrupted_transcripts_are_read_back:
  assumes "activity_contract R nonce contract" and "session_ok nonce evs"
  shows "n < length (em_out (emit_run nonce evs))
      \<and> ac_status (account_proof_activity R (take n (em_out (emit_run nonce evs))) contract) = A_incomplete
    \<or> (\<exists>m. events_read nonce evs (take n (em_out (emit_run nonce evs))) m
          \<and> activity_of (emit_run nonce (take m evs)) (account_proof_activity R (take n (em_out (emit_run nonce evs))) contract))"
  using assms by (rule torn_session)

end
