(* ===== verification/Running_Binding.thy ===== *)
theory Running_Binding
  imports Proof_Activity_Props
begin

text \<open>
  The attribution of an interrupted run to a binding (\<open>_binding_at_locations\<close> and \<open>identify_running_binding\<close> of
  \<open>hol_workbench/proof_diagnostics.py\<close>): the call sites of the innermost active call are looked up in the captured
  sources.  \<open>resolve\<close> is \<open>Path.resolve\<close>, \<open>None\<close> where it raises.
\<close>

section \<open>Call sites\<close>

type_synonym binding = "ucs \<times> string \<times> int"
type_synonym binding_source = "json \<times> json \<times> json list"

text \<open>A claim whose text from the binding to its statement covers the line.\<close>

definition claim_hit :: "location \<Rightarrow> int \<Rightarrow> dict \<Rightarrow> binding option" where
  "claim_hit loc line c =
     (case (dget c ''name'', dget c ''source'', dget c ''source_line'',
            or_else (dget c ''statement_line'') (dget c ''source_line'')) of
        (J_str name, J_str source, J_int start, J_int quote) \<Rightarrow>
          if lc_name loc = asc name \<and> start \<le> line \<and> line \<le> quote then Some (lc_name loc, source, start) else None
      | _ \<Rightarrow> None)"

text \<open>\<open>None\<close> is the early return at a claim that is not an object.\<close>

fun claim_hits :: "location \<Rightarrow> int \<Rightarrow> json list \<Rightarrow> binding list option" where
  "claim_hits loc line [] = Some []"
| "claim_hits loc line (J_obj c # cs) =
     map_option (\<lambda>hits. (case claim_hit loc line c of None \<Rightarrow> [] | Some b \<Rightarrow> [b]) @ hits) (claim_hits loc line cs)"
| "claim_hits loc line (_ # cs) = None"

definition same_file :: "(ucs \<Rightarrow> ucs option) \<Rightarrow> location \<Rightarrow> json \<Rightarrow> bool" where
  "same_file resolve loc packaged \<longleftrightarrow>
     (case packaged of
        J_str p \<Rightarrow> is_absolute p \<and> take 1 (lc_file loc) = [47]
          \<and> resolve (asc p) \<noteq> None \<and> resolve (lc_file loc) = resolve (asc p)
      | _ \<Rightarrow> False)"

fun source_hits :: "(ucs \<Rightarrow> ucs option) \<Rightarrow> location \<Rightarrow> binding_source list \<Rightarrow> binding list option" where
  "source_hits resolve loc [] = Some []"
| "source_hits resolve loc ((packaged, offset, claims) # srcs) =
     (case offset of
        J_int k \<Rightarrow>
          if same_file resolve loc packaged
          then (case claim_hits loc (lc_line loc - k) claims of
                  None \<Rightarrow> None
                | Some hits \<Rightarrow> map_option (\<lambda>rest. hits @ rest) (source_hits resolve loc srcs))
          else source_hits resolve loc srcs
      | _ \<Rightarrow> source_hits resolve loc srcs)"

fun location_hits :: "(ucs \<Rightarrow> ucs option) \<Rightarrow> binding_source list \<Rightarrow> location list \<Rightarrow> binding list option" where
  "location_hits resolve srcs [] = Some []"
| "location_hits resolve srcs (loc # locs) =
     (case source_hits resolve loc srcs of
        None \<Rightarrow> None
      | Some hits \<Rightarrow> map_option (\<lambda>rest. hits @ rest) (location_hits resolve srcs locs))"

definition dependency_source :: "json \<Rightarrow> binding_source option" where
  "dependency_source mapping =
     (case mapping of
        J_obj m \<Rightarrow>
          (case (dget m ''authority'', dget m ''source_line_offset'', dget m ''claims'') of
             (J_str authority, J_int offset, J_list claims) \<Rightarrow>
               if authority = ''diagnostic_only'' \<and> offset = 0 then Some (dget m ''packaged_source'', J_int 0, claims) else None
           | _ \<Rightarrow> None)
      | _ \<Rightarrow> None)"

fun dependency_sources :: "json list \<Rightarrow> binding_source list option" where
  "dependency_sources [] = Some []"
| "dependency_sources (m # ms) =
     (case dependency_source m of None \<Rightarrow> None | Some s \<Rightarrow> map_option (\<lambda>rest. s # rest) (dependency_sources ms))"

definition binding_sources :: "dict \<Rightarrow> json list \<Rightarrow> bool \<Rightarrow> binding_source list option" where
  "binding_sources descriptor claims include_dependencies =
     (let entry = (dget descriptor ''packaged_entrypoint'', dget descriptor ''source_line_offset'', claims)
      in if \<not> include_dependencies then Some [entry]
         else (case or_else (dget descriptor ''dependency_sources'') (J_list []) of
                 J_list ms \<Rightarrow> map_option (\<lambda>rest. entry # rest) (dependency_sources ms)
               | _ \<Rightarrow> None))"

definition binding_at_locations :: "(ucs \<Rightarrow> ucs option) \<Rightarrow> location list \<Rightarrow> dict \<Rightarrow> json list \<Rightarrow> bool \<Rightarrow> binding option" where
  "binding_at_locations resolve locations contract claims include_dependencies =
     (case dget contract ''proof_diagnostics'' of
        J_obj descriptor \<Rightarrow>
          (case binding_sources descriptor claims include_dependencies of
             None \<Rightarrow> None
           | Some srcs \<Rightarrow>
               (case location_hits resolve srcs locations of
                  None \<Rightarrow> None
                | Some hits \<Rightarrow> (case remdups hits of [b] \<Rightarrow> Some b | _ \<Rightarrow> None)))
      | _ \<Rightarrow> None)"

section \<open>The running binding\<close>

record running_binding =
  rb_name :: ucs
  rb_source :: string
  rb_line :: int
  rb_entered :: nat

definition no_active_call :: string where
  "no_active_call = ''no complete, unambiguous active prove call was recorded at interruption''"

definition no_call_site :: string where
  "no_call_site = ''active prove call is unsupported or has no unique exactly captured call site''"

text \<open>The left side is the reason of an unknown binding.\<close>

definition identify_running_binding :: "(ucs \<Rightarrow> ucs option) \<Rightarrow> activity_doc \<Rightarrow> dict \<Rightarrow> json list \<Rightarrow> string + running_binding" where
  "identify_running_binding resolve activity contract claims =
     (if ac_status activity \<noteq> A_recorded \<or> ac_active activity = [] then Inl no_active_call
      else let call = last (ac_active activity)
           in (case binding_at_locations resolve (av_locations call) contract claims True of
                 None \<Rightarrow> Inl no_call_site
               | Some (name, source, line) \<Rightarrow>
                   Inr \<lparr>rb_name = name, rb_source = source, rb_line = line, rb_entered = av_entered call\<rparr>))"

section \<open>What a candidate is\<close>

definition binding_hit :: "(ucs \<Rightarrow> ucs option) \<Rightarrow> binding_source list \<Rightarrow> location \<Rightarrow> binding \<Rightarrow> bool" where
  "binding_hit resolve srcs loc b \<longleftrightarrow>
     (\<exists>packaged k claims c. (packaged, J_int k, claims) \<in> set srcs \<and> same_file resolve loc packaged
        \<and> J_obj c \<in> set claims \<and> claim_hit loc (lc_line loc - k) c = Some b)"

lemma claim_hits_set:
  "claim_hits loc line cs = Some hits \<Longrightarrow> b \<in> set hits \<longleftrightarrow> (\<exists>c. J_obj c \<in> set cs \<and> claim_hit loc line c = Some b)"
  by (induction loc line cs arbitrary: hits rule: claim_hits.induct) (auto split: option.splits)

lemma source_hits_set:
  "source_hits resolve loc srcs = Some hits \<Longrightarrow> b \<in> set hits \<longleftrightarrow> binding_hit resolve srcs loc b"
proof (induction resolve loc srcs arbitrary: hits rule: source_hits.induct)
  case (2 resolve loc packaged offset claims srcs)
  have split: "binding_hit resolve ((packaged, offset, claims) # srcs) loc b \<longleftrightarrow>
      (\<exists>k c. offset = J_int k \<and> same_file resolve loc packaged \<and> J_obj c \<in> set claims \<and> claim_hit loc (lc_line loc - k) c = Some b)
      \<or> binding_hit resolve srcs loc b"
    unfolding binding_hit_def by auto
  show ?case
  proof (cases "\<exists>k. offset = J_int k \<and> same_file resolve loc packaged")
    case True
    then obtain k where k: "offset = J_int k" "same_file resolve loc packaged" by blast
    with "2.prems" obtain hs rest where h: "claim_hits loc (lc_line loc - k) claims = Some hs"
      "source_hits resolve loc srcs = Some rest" "hits = hs @ rest"
      by (auto split: option.splits)
    from "2.IH" k h(1,2) have "b \<in> set rest \<longleftrightarrow> binding_hit resolve srcs loc b" by auto
    with claim_hits_set [OF h(1)] h(3) k split show ?thesis by auto
  next
    case False
    then have "source_hits resolve loc srcs = Some hits" using "2.prems" by (auto split: json.splits if_splits)
    moreover from this False "2.IH" have "b \<in> set hits \<longleftrightarrow> binding_hit resolve srcs loc b" by (cases offset) auto
    ultimately show ?thesis using False split by blast
  qed
qed (simp add: binding_hit_def)

lemma location_hits_set:
  "location_hits resolve srcs locs = Some hits \<Longrightarrow> b \<in> set hits \<longleftrightarrow> (\<exists>loc\<in>set locs. binding_hit resolve srcs loc b)"
proof (induction locs arbitrary: hits)
  case (Cons loc locs)
  then obtain hs rest where "source_hits resolve loc srcs = Some hs" "location_hits resolve srcs locs = Some rest" "hits = hs @ rest"
    by (auto split: option.splits)
  with Cons.IH source_hits_set show ?case by auto
qed simp

lemma binding_at_locations_unique:
  assumes "binding_at_locations resolve locs contract claims deps = Some b"
  obtains d srcs where "dget contract ''proof_diagnostics'' = J_obj d" "binding_sources d claims deps = Some srcs"
    "\<forall>b'. (\<exists>loc\<in>set locs. binding_hit resolve srcs loc b') \<longleftrightarrow> b' = b"
proof -
  from assms obtain d srcs hits where h: "dget contract ''proof_diagnostics'' = J_obj d" "binding_sources d claims deps = Some srcs"
    "location_hits resolve srcs locs = Some hits" "remdups hits = [b]"
    by (auto simp: binding_at_locations_def split: json.splits option.splits list.splits)
  from h(4) have "set hits = {b}" by (metis empty_set list.simps(15) set_remdups)
  with location_hits_set [OF h(3)] h(1,2) show thesis by (intro that [of d srcs]) auto
qed

text \<open>C25: The binding that an interrupted run is attributed to belongs to the call that was running.  If the output
  of the program starts no line with the record prefix, then a binding identified from a cut-off transcript is the only
  one whose source text covers a call site of the innermost call that was entered and not left after the completely
  printed events, and the reported line is the one on which this call was entered.  (A call whose entry record is cut off
  inside the prefix of the record does not count as entered here, see \<open>torn_marker_is_overlooked\<close>.)\<close>

theorem running_binding_is_innermost_call:
  assumes c: "activity_contract R nonce contract" and s: "session_ok nonce evs"
    and b: "identify_running_binding resolve (account_proof_activity R (take n (em_out (emit_run nonce evs))) contract)
      contract claims = Inr b"
  shows "\<exists>m d srcs. events_read nonce evs (take n (em_out (emit_run nonce evs))) m
    \<and> dget contract ''proof_diagnostics'' = J_obj d \<and> binding_sources d claims True = Some srcs
    \<and> em_frames (emit_run nonce (take m evs)) \<noteq> []
    \<and> (let call = shown_frame (last (em_frames (emit_run nonce (take m evs))))
       in rb_entered b = av_entered call
          \<and> (\<forall>b'. (\<exists>loc\<in>set (av_locations call). binding_hit resolve srcs loc b')
                \<longleftrightarrow> b' = (rb_name b, rb_source b, rb_line b)))"
proof -
  let ?t = "take n (em_out (emit_run nonce evs))"
  let ?doc = "account_proof_activity R ?t contract"
  from b have rec: "ac_status ?doc = A_recorded" "ac_active ?doc \<noteq> []"
    by (auto simp: identify_running_binding_def split: if_splits)
  with torn_session [OF c s, of n] obtain m where m: "events_read nonce evs ?t m" "activity_of (emit_run nonce (take m evs)) ?doc"
    by force
  let ?em = "emit_run nonce (take m evs)"
  from m(2) rec have act: "ac_active ?doc = map shown_frame (em_frames ?em)"
    by (auto simp: activity_of_def split: if_splits)
  with rec(2) have ne: "em_frames ?em \<noteq> []" by simp
  then have l: "last (ac_active ?doc) = shown_frame (last (em_frames ?em))" by (simp add: act last_map)
  from b rec l have at: "binding_at_locations resolve (av_locations (shown_frame (last (em_frames ?em)))) contract claims True
      = Some (rb_name b, rb_source b, rb_line b)" "rb_entered b = av_entered (shown_frame (last (em_frames ?em)))"
    by (auto simp: identify_running_binding_def Let_def split: option.splits)
  from binding_at_locations_unique [OF at(1)] obtain d srcs where
    "dget contract ''proof_diagnostics'' = J_obj d" "binding_sources d claims True = Some srcs"
    "\<forall>b'. (\<exists>loc\<in>set (av_locations (shown_frame (last (em_frames ?em)))). binding_hit resolve srcs loc b')
       \<longleftrightarrow> b' = (rb_name b, rb_source b, rb_line b)" .
  with m(1) ne at(2) show ?thesis unfolding Let_def by blast
qed

section \<open>A run\<close>

definition run_nonce :: string where
  "run_nonce = replicate 32 (CHR ''a'')"

definition run_slot :: slot where
  "run_slot = Some (basc ''/a'', Some (basc ''L''), 9)"

definition run_contract :: dict where
  "run_contract = [(''nonce'', J_str run_nonce), (''proof_diagnostics'', J_obj [(''activity_protocol'', J_str ACTIVITY_PROTOCOL),
     (''nonce'', J_str run_nonce), (''packaged_entrypoint'', J_str ''/a''), (''source_line_offset'', J_int 3)])]"

definition run_claims :: "json list" where
  "run_claims = [J_obj [(''name'', J_str ''L''), (''source'', J_str ''b.ml''), (''source_line'', J_int 5), (''statement_line'', J_int 7)]]"

definition traced_events :: "prove_event list" where
  "traced_events = [Enter [run_slot], Output (basc ''x'')]"

definition run_rt :: pyrt where
  "run_rt = \<lparr>rt_repr = (\<lambda>_. ''?''), rt_resolve = id\<rparr>"

definition run_out :: bytes where
  "run_out = em_out (emit_run run_nonce traced_events)"

lemma run_session: "session_ok run_nonce traced_events"
  by code_simp

lemma run_contract_ok: "activity_contract run_rt run_nonce run_contract"
  by code_simp

lemma run_length: "length (em_out (emit_run run_nonce traced_events)) = 76"
  by code_simp

lemma run_identified: "identify_running_binding Some (account_proof_activity run_rt run_out run_contract)
    run_contract run_claims = Inr \<lparr>rb_name = asc ''L'', rb_source = ''b.ml'', rb_line = 5, rb_entered = 2\<rparr>"
  by code_simp

lemma run_whole: "take 76 (em_out (emit_run run_nonce traced_events)) = run_out"
  using run_length by (simp add: run_out_def)

lemma run_recorded: "ac_status (account_proof_activity run_rt run_out run_contract) = A_recorded"
  using run_identified by (auto simp: identify_running_binding_def split: if_splits)

theorem recorded_calls_entered_and_not_left_witness:
  "\<exists>entered. ac_entered (account_proof_activity run_rt run_out run_contract) = Some entered
    \<and> (\<forall>c\<in>set (ac_active (account_proof_activity run_rt run_out run_contract)). av_call c \<le> entered)"
  using recorded_calls_entered_and_not_left [OF run_recorded] by blast

theorem interrupted_transcripts_are_read_back_witness:
  "\<exists>m. events_read run_nonce traced_events run_out m
    \<and> activity_of (emit_run run_nonce (take m traced_events)) (account_proof_activity run_rt run_out run_contract)"
  using interrupted_transcripts_are_read_back [OF run_contract_ok run_session, of 76] run_length unfolding run_whole by simp

theorem running_binding_is_innermost_call_witness:
  "\<exists>m. em_frames (emit_run run_nonce (take m traced_events)) \<noteq> []
    \<and> av_entered (shown_frame (last (em_frames (emit_run run_nonce (take m traced_events))))) = 2"
proof -
  have "identify_running_binding Some (account_proof_activity run_rt (take 76 (em_out (emit_run run_nonce traced_events))) run_contract)
      run_contract run_claims = Inr \<lparr>rb_name = asc ''L'', rb_source = ''b.ml'', rb_line = 5, rb_entered = 2\<rparr>"
    unfolding run_whole by (rule run_identified)
  from running_binding_is_innermost_call [OF run_contract_ok run_session this] obtain m where
    m: "em_frames (emit_run run_nonce (take m traced_events)) \<noteq> []"
    "rb_entered \<lparr>rb_name = asc ''L'', rb_source = ''b.ml'', rb_line = 5, rb_entered = 2\<rparr>
      = av_entered (shown_frame (last (em_frames (emit_run run_nonce (take m traced_events)))))"
    unfolding Let_def by blast
  from m(2) [symmetric] have "av_entered (shown_frame (last (em_frames (emit_run run_nonce (take m traced_events))))) = 2"
    by (simp only: running_binding.select_convs)
  with m(1) show ?thesis by blast
qed

text \<open>
  A transcript that ends inside the first 22 bytes of an entry record is not reported as incomplete: the call entered
  before it is read as the innermost one.
\<close>

definition nested_events :: "prove_event list" where
  "nested_events = [Enter [None], Enter [None]]"

lemma torn_marker_is_overlooked:
  "let t = take 79 (em_out (emit_run run_nonce nested_events)); doc = account_proof_activity run_rt t run_contract
   in drop 66 t = basc ''__HOL_PROOF_A'' \<and> ac_status doc = A_recorded \<and> map av_call (ac_active doc) = [1]
      \<and> map fr_call (em_frames (emit_run run_nonce nested_events)) = [1, 2]"
  by code_simp

end
