(* ===== verification/Proof_Diagnostics.thy ===== *)
theory Proof_Diagnostics
  imports Running_Binding
begin

text \<open>
  The failure diagnostics of \<open>hol_workbench/proof_diagnostics.py\<close>.  The prelude prints one frame of records for each
  failing call of \<open>prove\<close>; \<open>account_proof_diagnostics\<close> reads the frames back, links each to the exception that the
  toplevel printed after it, and \<open>identify_failed_binding\<close> attributes the failure of a run to a binding.  The fixed
  texts of a result are left out.
\<close>

section \<open>Frames\<close>

definition DIAGNOSTIC_PREFIX :: string where "DIAGNOSTIC_PREFIX = ''__HOL_PROOF_DIAGNOSTIC__''"
definition MAX_EVENTS :: nat where "MAX_EVENTS = 8"
definition MAX_GOALS :: nat where "MAX_GOALS = 8"
definition MAX_ASSUMPTIONS :: nat where "MAX_ASSUMPTIONS = 16"
definition MAX_TERM_BYTES :: nat where "MAX_TERM_BYTES = 16384"
definition MAX_EXCEPTION_BYTES :: nat where "MAX_EXCEPTION_BYTES = 65536"
definition MAX_STEPS :: nat where "MAX_STEPS = 12"
definition MAX_STEP_LOCATIONS :: nat where "MAX_STEP_LOCATIONS = 8"
definition MAX_EXCEPTION_GAP_LINES :: nat where "MAX_EXCEPTION_GAP_LINES = 8"

lemmas diagnostic_bounds = MAX_EVENTS_def MAX_GOALS_def MAX_ASSUMPTIONS_def MAX_TERM_BYTES_def MAX_EXCEPTION_BYTES_def
  MAX_STEPS_def MAX_STEP_LOCATIONS_def MAX_TEXT_BYTES_def

record diag_assumption =
  da_label :: ucs
  da_conclusion :: ucs

record diag_goal =
  dg_conclusion :: ucs
  dg_count :: int
  dg_assumptions :: "diag_assumption list"

record diag_step = diag_goal +
  dp_exception :: ucs
  dp_locations :: "location list"

text \<open>\<open>de_end\<close> is set when the frame ends and \<open>de_following\<close> after all frames were read.\<close>

record diag_event =
  de_event :: int
  de_kind :: string
  de_goal_count :: int
  de_shown_goals :: int
  de_statement :: ucs
  de_exception :: ucs
  de_goals :: "diag_goal list"
  de_locations :: "location list"
  de_step_count :: int
  de_shown_steps :: int
  de_steps :: "diag_step list"
  de_end :: nat
  de_following :: "nat option"

record diag_state =
  ds_events :: "diag_event list"
  ds_truncated :: bool
  ds_active :: "diag_event option"

definition diag_start :: diag_state where
  "diag_start = \<lparr>ds_events = [], ds_truncated = False, ds_active = None\<rparr>"

definition diag_term :: "string \<Rightarrow> ucs option" where
  "diag_term s = diagnostic_text s MAX_TERM_BYTES"

definition diag_exception :: "string \<Rightarrow> ucs option" where
  "diag_exception s = diagnostic_text s MAX_EXCEPTION_BYTES"

definition begin_record :: "int \<Rightarrow> string list \<Rightarrow> diag_event option" where
  "begin_record ordinal args =
     (case args of
        [kind, tot, count, statement, error] \<Rightarrow>
          (case (py_int_text tot, py_int_text count, diag_term statement, diag_exception error) of
             (Some t, Some n, Some s, Some e) \<Rightarrow>
               if (kind = ''residual_goals'' \<or> kind = ''tactic_input'') \<and> 0 \<le> n \<and> n \<le> int MAX_GOALS \<and> n \<le> t
               then Some \<lparr>de_event = ordinal, de_kind = kind, de_goal_count = t, de_shown_goals = n, de_statement = s,
                      de_exception = e, de_goals = [], de_locations = [], de_step_count = 0, de_shown_steps = 0,
                      de_steps = [], de_end = 0, de_following = None\<rparr>
               else None
           | _ \<Rightarrow> None)
      | _ \<Rightarrow> None)"

definition goal_record :: "string list \<Rightarrow> diag_event \<Rightarrow> diag_event option" where
  "goal_record args ev =
     (case args of
        [index, count, conclusion] \<Rightarrow>
          (case (py_int_text index, py_int_text count, diag_term conclusion) of
             (Some i, Some n, Some c) \<Rightarrow>
               if i = int (length (de_goals ev)) \<and> int (length (de_goals ev)) < de_shown_goals ev \<and> 0 \<le> n
                 \<and> de_step_count ev = 0
               then Some (ev\<lparr>de_goals := de_goals ev @ [\<lparr>dg_conclusion = c, dg_count = n, dg_assumptions = []\<rparr>]\<rparr>)
               else None
           | _ \<Rightarrow> None)
      | _ \<Rightarrow> None)"

text \<open>Append an assumption to the last goal, or to the last step.\<close>

definition more_assumptions :: "'a diag_goal_scheme \<Rightarrow> bool" where
  "more_assumptions g \<longleftrightarrow> int (length (dg_assumptions g)) < min (int MAX_ASSUMPTIONS) (dg_count g)"

definition add_assumption :: "ucs \<Rightarrow> ucs \<Rightarrow> 'a diag_goal_scheme \<Rightarrow> 'a diag_goal_scheme" where
  "add_assumption l c g = g\<lparr>dg_assumptions := dg_assumptions g @ [\<lparr>da_label = l, da_conclusion = c\<rparr>]\<rparr>"

definition assumption_record :: "string list \<Rightarrow> diag_event \<Rightarrow> diag_event option" where
  "assumption_record args ev =
     (case args of
        [index, label, conclusion] \<Rightarrow>
          (case (py_int_text index, diagnostic_text label MAX_TEXT_BYTES, diag_term conclusion) of
             (Some i, Some l, Some c) \<Rightarrow>
               if i = int (length (de_goals ev)) - 1 \<and> de_goals ev \<noteq> [] \<and> more_assumptions (last (de_goals ev))
                 \<and> de_step_count ev = 0
               then Some (ev\<lparr>de_goals := butlast (de_goals ev) @ [add_assumption l c (last (de_goals ev))]\<rparr>)
               else None
           | _ \<Rightarrow> None)
      | _ \<Rightarrow> None)"

definition location_record :: "string list \<Rightarrow> diag_event \<Rightarrow> diag_event option" where
  "location_record args ev =
     (case args of
        [file, name, line] \<Rightarrow>
          (case (diagnostic_text file MAX_TEXT_BYTES, diagnostic_text name MAX_TEXT_BYTES, py_int_text line) of
             (Some f, Some n, Some l) \<Rightarrow>
               if length (de_locations ev) < 32 \<and> 1 \<le> l \<and> de_step_count ev = 0
               then Some (ev\<lparr>de_locations := de_locations ev @ [\<lparr>lc_file = f, lc_name = n, lc_line = l\<rparr>]\<rparr>)
               else None
           | _ \<Rightarrow> None)
      | _ \<Rightarrow> None)"

definition steps_record :: "string list \<Rightarrow> diag_event \<Rightarrow> diag_event option" where
  "steps_record args ev =
     (case args of
        [tot, shown] \<Rightarrow>
          (case (py_int_text tot, py_int_text shown) of
             (Some t, Some n) \<Rightarrow>
               if de_step_count ev = 0 \<and> 1 \<le> t \<and> 1 \<le> n \<and> n \<le> min (int MAX_STEPS) t
               then Some (ev\<lparr>de_step_count := t, de_shown_steps := n\<rparr>) else None
           | _ \<Rightarrow> None)
      | _ \<Rightarrow> None)"

definition step_record :: "string list \<Rightarrow> diag_event \<Rightarrow> diag_event option" where
  "step_record args ev =
     (case args of
        [index, count, conclusion, error] \<Rightarrow>
          (case (py_int_text index, py_int_text count, diag_term conclusion, diag_exception error) of
             (Some i, Some n, Some c, Some e) \<Rightarrow>
               if i = int (length (de_steps ev)) \<and> 0 \<le> n \<and> int (length (de_steps ev)) < de_shown_steps ev
               then Some (ev\<lparr>de_steps := de_steps ev @ [\<lparr>dg_conclusion = c, dg_count = n, dg_assumptions = [],
                      dp_exception = e, dp_locations = []\<rparr>]\<rparr>)
               else None
           | _ \<Rightarrow> None)
      | _ \<Rightarrow> None)"

definition step_assumption_record :: "string list \<Rightarrow> diag_event \<Rightarrow> diag_event option" where
  "step_assumption_record args ev =
     (case args of
        [index, label, conclusion] \<Rightarrow>
          (case (py_int_text index, diagnostic_text label MAX_TEXT_BYTES, diag_term conclusion) of
             (Some i, Some l, Some c) \<Rightarrow>
               if de_steps ev \<noteq> [] \<and> i = int (length (de_steps ev)) - 1 \<and> dp_locations (last (de_steps ev)) = []
                 \<and> more_assumptions (last (de_steps ev))
               then Some (ev\<lparr>de_steps := butlast (de_steps ev) @ [add_assumption l c (last (de_steps ev))]\<rparr>)
               else None
           | _ \<Rightarrow> None)
      | _ \<Rightarrow> None)"

definition step_location_record :: "string list \<Rightarrow> diag_event \<Rightarrow> diag_event option" where
  "step_location_record args ev =
     (case args of
        [index, file, name, line] \<Rightarrow>
          (case (py_int_text index, diagnostic_text file MAX_TEXT_BYTES, diagnostic_text name MAX_TEXT_BYTES, py_int_text line) of
             (Some i, Some f, Some n, Some l) \<Rightarrow>
               if de_steps ev \<noteq> [] \<and> i = int (length (de_steps ev)) - 1 \<and> 1 \<le> l
                 \<and> length (dp_locations (last (de_steps ev))) < MAX_STEP_LOCATIONS
               then Some (ev\<lparr>de_steps := butlast (de_steps ev)
                      @ [(last (de_steps ev))\<lparr>dp_locations := dp_locations (last (de_steps ev)) @ [\<lparr>lc_file = f, lc_name = n, lc_line = l\<rparr>]\<rparr>]\<rparr>)
               else None
           | _ \<Rightarrow> None)
      | _ \<Rightarrow> None)"

definition complete_goal :: "'a diag_goal_scheme \<Rightarrow> bool" where
  "complete_goal g \<longleftrightarrow> int (length (dg_assumptions g)) = min (int MAX_ASSUMPTIONS) (dg_count g)"

definition end_record :: "nat \<Rightarrow> string list \<Rightarrow> diag_event \<Rightarrow> diag_event option" where
  "end_record lineno args ev =
     (if args = [] \<and> int (length (de_goals ev)) = de_shown_goals ev \<and> list_all complete_goal (de_goals ev)
        \<and> int (length (de_steps ev)) = de_shown_steps ev \<and> list_all complete_goal (de_steps ev)
      then Some (ev\<lparr>de_end := lineno\<rparr>) else None)"

text \<open>A record inside the frame that is being read; \<open>None\<close> is a raised exception.\<close>

definition frame_record :: "string \<Rightarrow> string list \<Rightarrow> diag_event \<Rightarrow> diag_event option" where
  "frame_record op args ev =
     (if op = ''GOAL'' then goal_record args ev
      else if op = ''ASSUMPTION'' then assumption_record args ev
      else if op = ''LOCATION'' then location_record args ev
      else if op = ''STEPS'' then steps_record args ev
      else if op = ''STEP'' then step_record args ev
      else if op = ''STEPASSUMPTION'' then step_assumption_record args ev
      else if op = ''STEPLOCATION'' then step_location_record args ev
      else None)"

definition diag_record :: "nat \<Rightarrow> string list \<Rightarrow> diag_state \<Rightarrow> diag_state option" where
  "diag_record lineno parts st =
     (case parts of
        n # op # args \<Rightarrow>
          (case py_int_text n of
             None \<Rightarrow> None
           | Some ordinal \<Rightarrow>
               if ds_truncated st then None
               else if op = ''TRUNCATED'' then
                 (if args \<noteq> [] \<or> ds_active st \<noteq> None \<or> ordinal \<noteq> int MAX_EVENTS + 1 \<or> length (ds_events st) \<noteq> MAX_EVENTS
                  then None else Some (st\<lparr>ds_truncated := True\<rparr>))
               else if op = ''BEGIN'' then
                 (if ds_active st \<noteq> None \<or> ordinal \<noteq> int (length (ds_events st)) + 1 \<or> int MAX_EVENTS < ordinal then None
                  else map_option (\<lambda>ev. st\<lparr>ds_active := Some ev\<rparr>) (begin_record ordinal args))
               else (case ds_active st of
                       None \<Rightarrow> None
                     | Some ev \<Rightarrow>
                         if de_event ev \<noteq> ordinal then None
                         else if op = ''END'' then
                           map_option (\<lambda>ev'. st\<lparr>ds_events := ds_events st @ [ev'], ds_active := None\<rparr>) (end_record lineno args ev)
                         else map_option (\<lambda>ev'. st\<lparr>ds_active := Some ev'\<rparr>) (frame_record op args ev)))
      | _ \<Rightarrow> None)"

definition diag_fields :: "bytes \<Rightarrow> bytes \<Rightarrow> string list option" where
  "diag_fields pre raw = map_option split_colon (ascii_decode (drop (length pre) raw))"

fun diag_lines :: "bytes \<Rightarrow> (nat \<times> bytes) list \<Rightarrow> diag_state \<Rightarrow> diag_state option" where
  "diag_lines pre [] st = Some st"
| "diag_lines pre ((lineno, raw) # ls) st =
     (case diag_fields pre raw of
        None \<Rightarrow> None
      | Some parts \<Rightarrow>
          (case diag_record lineno parts st of None \<Rightarrow> None | Some st' \<Rightarrow> diag_lines pre ls st'))"

definition max_diagnostic_lines :: nat where
  "max_diagnostic_lines = MAX_EVENTS * (35 + MAX_GOALS * (1 + MAX_ASSUMPTIONS)
     + MAX_STEPS * (1 + MAX_ASSUMPTIONS + MAX_STEP_LOCATIONS)) + 1"

section \<open>The exception after a frame\<close>

text \<open>\<open>bytes.strip()\<close> and the decoded line\<close>

definition byte_space :: "byte \<Rightarrow> bool" where
  "byte_space b \<longleftrightarrow> (9 \<le> b \<and> b \<le> 13) \<or> b = 32"

definition byte_strip :: "bytes \<Rightarrow> bytes" where
  "byte_strip bs = rev (dropWhile byte_space (rev (dropWhile byte_space bs)))"

definition has_suffix :: "ucs \<Rightarrow> ucs \<Rightarrow> bool" where
  "has_suffix s suf \<longleftrightarrow> length suf \<le> length s \<and> drop (length s - length suf) s = suf"

definition drop_suffix :: "ucs \<Rightarrow> ucs \<Rightarrow> ucs" where
  "drop_suffix s suf = take (length s - length suf) s"

text \<open>\<open>(?:[^"\\\r\n]|\\[^\r\n])*\<close>, the escaped text of an OCaml string, and what is left after the longest match.\<close>

fun scan_escaped :: "ucs \<Rightarrow> ucs \<times> ucs" where
  "scan_escaped [] = ([], [])"
| "scan_escaped [c] = (if c \<in> {ch_dquote, ch_backslash, ch_cr, ch_lf} then ([], [c]) else ([c], []))"
| "scan_escaped (c # d # cs) =
     (if c = ch_backslash
      then if d = ch_cr \<or> d = ch_lf then ([], c # d # cs)
           else (let (b, r) = scan_escaped cs in (c # d # b, r))
      else if c \<in> {ch_dquote, ch_cr, ch_lf} then ([], c # d # cs)
      else (let (b, r) = scan_escaped (d # cs) in (c # b, r)))"

definition string_constructors :: "string list" where
  "string_constructors = [''Failure'', ''Invalid_argument'']"

text \<open>The constructor, the escaped text and whether it is complete.\<close>

definition exception_string_body :: "ucs \<Rightarrow> (ucs \<times> ucs \<times> bool) option" where
  "exception_string_body error =
     (case find (\<lambda>c. startswith_at error (asc c @ [ch_lparen, ch_dquote]) 0) string_constructors of
        None \<Rightarrow> None
      | Some c \<Rightarrow>
          (let rest = drop (length c + 2) error; cut = asc ''... [truncated]''
           in if snd (scan_escaped rest) = [ch_dquote, ch_rparen] then Some (asc c, fst (scan_escaped rest), True)
              else if has_suffix rest cut \<and> snd (scan_escaped (drop_suffix rest cut)) = []
              then Some (asc c, drop_suffix rest cut, False)
              else None))"

text \<open>\<open>[A-Z][A-Za-z0-9_']*(?:\.[A-Z][A-Za-z0-9_']*)*\<close>\<close>

fun split_dot :: "ucs \<Rightarrow> ucs list" where
  "split_dot [] = [[]]"
| "split_dot (c # cs) =
     (if c = ch_dot then [] # split_dot cs else case split_dot cs of [] \<Rightarrow> [[c]] | p # ps \<Rightarrow> (c # p) # ps)"

definition capital_name :: "ucs \<Rightarrow> bool" where
  "capital_name s \<longleftrightarrow> (case s of [] \<Rightarrow> False | c # cs \<Rightarrow> 65 \<le> c \<and> c \<le> 90 \<and> list_all name_char cs)"

definition exception_name :: "ucs \<Rightarrow> bool" where
  "exception_name s \<longleftrightarrow> list_all capital_name (split_dot s)"

text \<open>\<open>^(Failure|Invalid_argument|[A-Z][A-Za-z0-9_'.]*)\b\<close>\<close>

definition starts_exception :: "scanenv \<Rightarrow> ucs \<Rightarrow> bool" where
  "starts_exception E s \<longleftrightarrow>
     s \<noteq> [] \<and> 65 \<le> hd s \<and> hd s \<le> 90
     \<and> list_ex (\<lambda>k. list_all (\<lambda>c. name_char c \<or> c = ch_dot) (take (k - 1) (tl s))
                     \<and> word_char E (s ! (k - 1)) \<noteq> (k < length s \<and> word_char E (s ! k)))
         [1..<length s + 1]"

fun exception_parts :: "scanenv \<Rightarrow> bytes list \<Rightarrow> ucs list" where
  "exception_parts E [] = []"
| "exception_parts E (line # ls) =
     (let raw = utf8_replace line; txt = strip raw
      in if txt = [] \<or> starts_any [''val '', ''# '', ''__HOL_'', ''HOL_WORKBENCH_'', ''Error in included file''] txt then []
         else if \<not> (raw \<noteq> [] \<and> py_space (hd raw)) \<and> \<not> starts_exception E txt then []
         else if has_suffix txt [ch_dot] then [txt]
         else txt # exception_parts E ls)"

definition toplevel_exception_block :: "scanenv \<Rightarrow> bytes list \<Rightarrow> nat \<Rightarrow> (nat \<times> ucs) option" where
  "toplevel_exception_block E ls start =
     (let txt = strip (remove_prompt (utf8_replace (byte_strip (ls ! start))))
      in if \<not> startswith_at txt (asc ''Exception:'') 0 then None
         else Some (start + 1, join_words (txt # exception_parts E (take 13 (drop (start + 1) ls)))))"

text \<open>The shown text of a rendering that the toplevel truncated itself (\<open>TOPLEVEL_TRUNCATION\<close>).\<close>

definition toplevel_truncation :: "scanenv \<Rightarrow> ucs \<Rightarrow> (ucs \<times> ucs) option" where
  "toplevel_truncation E s =
     (case find (\<lambda>c. startswith_at s (asc c @ [ch_space, ch_dquote]) 0) string_constructors of
        None \<Rightarrow> None
      | Some c \<Rightarrow>
          (let rest = drop (length c + 2) s; ending = asc ''; truncated *)'';
               note = ch_dquote # asc ''... (* string length ''; r1 = drop_suffix rest ending;
               digits = takeWhile (\<lambda>d. py_category E d = ''Nd'') (rev r1); r2 = take (length r1 - length digits) r1
           in if has_suffix rest ending \<and> digits \<noteq> [] \<and> has_suffix r2 note then Some (asc c, drop_suffix r2 note) else None))"

definition shown_prefix :: "scanenv \<Rightarrow> ucs \<Rightarrow> ucs \<times> ucs \<times> bool \<Rightarrow> bool" where
  "shown_prefix E joined = (\<lambda>(ctor, body, complete).
     (let shown = strip (if startswith_at joined (asc ''Exception:'') 0 then drop 10 joined else joined);
          shown' = (if has_suffix shown [ch_dot] then drop_suffix shown [ch_dot] else shown)
      in case toplevel_truncation E shown' of
           None \<Rightarrow> False
         | Some (c, pre) \<Rightarrow>
             c = ctor \<and> (let limit = min (length pre) (length body)
                       in 0 < limit \<and> take limit pre = take limit body \<and> (complete \<or> limit \<le> length pre)
                          \<and> (complete \<longrightarrow> length pre \<le> length body))))"

text \<open>The renderings that \<open>_following_exception_line\<close> expects; \<open>None\<close> is its early return.\<close>

definition expected_rendering :: "ucs \<Rightarrow> (ucs option \<times> (ucs \<times> ucs \<times> bool) option) option" where
  "expected_rendering error =
     (if error = asc ''Stack overflow'' then Some (Some (asc ''Stack overflow during evaluation (looping recursion?).''), None)
      else case exception_string_body error of
             Some (c, body, complete) \<Rightarrow>
               Some (if complete then Some (asc ''Exception: '' @ c @ [ch_space, ch_dquote] @ body @ [ch_dquote, ch_dot]) else None,
                     Some (c, body, complete))
           | None \<Rightarrow> if exception_name error then Some (Some (asc ''Exception: '' @ error @ [ch_dot]), None) else None)"

definition float_text :: "ucs \<Rightarrow> bool" where
  "float_text s =
     (let digit = (\<lambda>c. 48 \<le> c \<and> c \<le> 57);
          exponent = (\<lambda>r. case r of
             [] \<Rightarrow> False
           | e # r' \<Rightarrow> e = 101 \<and> (let ds = (case r' of c # cs \<Rightarrow> if c = 43 \<or> c = 45 then cs else r' | [] \<Rightarrow> []) in ds \<noteq> [] \<and> list_all digit ds));
          rest = dropWhile digit s
      in takeWhile digit s \<noteq> []
         \<and> (case rest of
              [] \<Rightarrow> False
            | c # r \<Rightarrow> if c = ch_dot then (dropWhile digit r = [] \<or> exponent (dropWhile digit r)) else exponent rest))"

definition timing_report :: "ucs \<Rightarrow> ucs \<Rightarrow> bool" where
  "timing_report txt error \<longleftrightarrow>
     (let pre = asc ''Failed after (user) CPU time of ''; rest = drop (length pre) txt; num = takeWhile (\<lambda>c. c \<noteq> 58) rest
      in startswith_at txt pre 0 \<and> float_text num \<and> error \<noteq> [] \<and> drop (length num) rest = asc '': '' @ error)"

text \<open>The loop over the lines after a frame.\<close>

fun following_lines :: "scanenv \<Rightarrow> bytes list \<Rightarrow> ucs \<Rightarrow> ucs option \<Rightarrow> (ucs \<times> ucs \<times> bool) option \<Rightarrow> bool \<Rightarrow> nat list \<Rightarrow> nat option" where
  "following_lines E ls error expected body timed [] = None"
| "following_lines E ls error expected body timed (index # indices) =
     (let line = byte_strip (ls ! index); txt = utf8_replace line
      in if line = [] then following_lines E ls error expected body timed indices
         else if expected = Some (strip (remove_prompt txt)) then Some (index + 1)
         else case toplevel_exception_block E ls index of
                Some (lineno, joined) \<Rightarrow>
                  if expected = Some joined \<or> (\<exists>b\<in>set_option body. shown_prefix E joined b) then Some lineno else None
              | None \<Rightarrow>
                  if \<not> timed \<and> timing_report txt error then following_lines E ls error expected body True indices else None)"

definition following_exception_line :: "scanenv \<Rightarrow> bytes list \<Rightarrow> diag_event \<Rightarrow> nat option" where
  "following_exception_line E ls ev =
     (case expected_rendering (de_exception ev) of
        None \<Rightarrow> None
      | Some (expected, body) \<Rightarrow>
          following_lines E ls (de_exception ev) expected body False
            [de_end ev..<min (length ls) (de_end ev + MAX_EXCEPTION_GAP_LINES + 1)])"

section \<open>Accounting\<close>

datatype diag_status = D_none | D_unavailable | D_invalid_contract | D_malformed | D_incomplete | D_recorded

text \<open>\<open>dd_truncated\<close> is \<open>None\<close> where the key \<open>capture_truncated\<close> is missing.\<close>

record diag_doc =
  dd_status :: diag_status
  dd_events :: "diag_event list"
  dd_truncated :: "bool option"

definition empty_diagnostics :: "diag_status \<Rightarrow> diag_doc" where
  "empty_diagnostics status = \<lparr>dd_status = status, dd_events = [], dd_truncated = None\<rparr>"

definition diagnostic_prefix :: "string \<Rightarrow> bytes" where
  "diagnostic_prefix nonce = basc (DIAGNOSTIC_PREFIX @ '':'' @ nonce @ '':'')"

definition prefixed_lines :: "bytes \<Rightarrow> bytes list \<Rightarrow> (nat \<times> bytes) list" where
  "prefixed_lines pre ls = filter (\<lambda>(_, l). take (length pre) l = pre) (enumerate 1 ls)"

definition account_proof_diagnostics :: "scanenv \<Rightarrow> pyrt \<Rightarrow> bytes \<Rightarrow> dict \<Rightarrow> diag_doc" where
  "account_proof_diagnostics E R transcript contract =
     (case dget contract ''proof_diagnostics'' of
        J_obj descriptor \<Rightarrow>
          (let nonce = contract_nonce R contract; pre = diagnostic_prefix nonce;
               ls = byte_lines transcript; records = prefixed_lines pre ls
           in if \<not> nonce_ok (asc nonce) \<or> dget descriptor ''nonce'' \<noteq> J_str nonce then empty_diagnostics D_invalid_contract
              else if records = [] then empty_diagnostics D_none
              else if max_diagnostic_lines < length records then empty_diagnostics D_malformed
              else case diag_lines pre records diag_start of
                     None \<Rightarrow> empty_diagnostics D_malformed
                   | Some st \<Rightarrow>
                       if ds_active st \<noteq> None then empty_diagnostics D_incomplete
                       else \<lparr>dd_status = D_recorded,
                              dd_events = map (\<lambda>ev. ev\<lparr>de_following := following_exception_line E ls ev\<rparr>) (ds_events st),
                              dd_truncated = Some (ds_truncated st)\<rparr>)
      | _ \<Rightarrow> empty_diagnostics D_unavailable)"

section \<open>The failed binding\<close>

definition event_at_failure :: "diag_event \<Rightarrow> nat option \<Rightarrow> bool" where
  "event_at_failure ev failure_line \<longleftrightarrow> failure_line \<noteq> None \<and> de_following ev = failure_line"

definition identify_failed_binding :: "(ucs \<Rightarrow> ucs option) \<Rightarrow> diag_doc \<Rightarrow> dict \<Rightarrow> json list \<Rightarrow> nat option \<Rightarrow> binding option" where
  "identify_failed_binding resolve diagnostics contract claims failure_line =
     (if dd_status diagnostics \<noteq> D_recorded \<or> dd_truncated diagnostics = Some True \<or> dd_events diagnostics = [] then None
      else let ev = last (dd_events diagnostics)
           in if \<not> event_at_failure ev failure_line then None
              else binding_at_locations resolve (de_locations ev) contract claims False)"

end
