(* ===== verification/Diagnostic_Emitter.thy ===== *)
theory Diagnostic_Emitter
  imports Proof_Diagnostics
begin

text \<open>
  The function \<open>emit\<close> of the prelude in \<open>diagnostic_prelude\<close> (\<open>hol_workbench/proof_diagnostics.py\<close>), which prints one
  frame for a failing call of \<open>prove\<close>, and the lemmas that each group of its records is read back by the accounting.
\<close>

section \<open>Printing\<close>

text \<open>
  What a failing call hands to \<open>emit\<close>: texts are those that the term printer and \<open>Printexc.to_string\<close> produce,
  before they are cut.
\<close>

record printed_goal =
  pg_assumptions :: "(bytes \<times> bytes) list"
  pg_conclusion :: bytes

record printed_step = printed_goal +
  ps_error :: bytes
  ps_slots :: "slot list"

record prove_failure =
  pf_kind :: string
  pf_statement :: bytes
  pf_error :: bytes
  pf_goals :: "printed_goal list"
  pf_slots :: "slot list"
  pf_steps :: "printed_step list"

text \<open>
  A failing call of \<open>prove\<close>: its statement and exception, the goals that its tactic returned, if it returned, the call
  sites, and the steps that the wrapped tacticals recorded.  The exception handler of the wrapper emits the residual
  goals, or else the statement as the input of the tactic.
\<close>

record failing_prove =
  fc_statement :: bytes
  fc_error :: bytes
  fc_returned :: "printed_goal list option"
  fc_slots :: "slot list"
  fc_steps :: "printed_step list"

definition failing_call :: "failing_prove \<Rightarrow> prove_failure" where
  "failing_call c =
     (let (kind, goals) = (case fc_returned c of
            Some (g # gs) \<Rightarrow> (''residual_goals'', g # gs)
          | _ \<Rightarrow> (''tactic_input'', [\<lparr>pg_assumptions = [], pg_conclusion = fc_statement c\<rparr>]))
      in \<lparr>pf_kind = kind, pf_statement = fc_statement c, pf_error = fc_error c, pf_goals = goals, pf_slots = fc_slots c,
          pf_steps = fc_steps c\<rparr>)"

text \<open>The formatter takes bytes up to the bound, and a buffer that is full is marked.\<close>

definition render :: "bytes \<Rightarrow> bytes" where
  "render s = (if length s < MAX_TERM_BYTES then s else take MAX_TERM_BYTES s @ basc ''... [truncated]'')"

definition term_text :: "bytes \<Rightarrow> string" where
  "term_text s = to_hex (render s)"

definition error_text :: "bytes \<Rightarrow> string" where
  "error_text s = to_hex (bounded_to MAX_EXCEPTION_BYTES s)"

text \<open>The fields of the records, without the number of the event that each starts with.\<close>

definition assumption_fields :: "string \<Rightarrow> nat \<Rightarrow> (bytes \<times> bytes) list \<Rightarrow> string list list" where
  "assumption_fields op i assumptions =
     map (\<lambda>(label, conclusion). [op, int_text (int i), to_hex (bounded_to MAX_TEXT_BYTES label), term_text conclusion])
       (take MAX_ASSUMPTIONS assumptions)"

definition goal_fields :: "nat \<times> printed_goal \<Rightarrow> string list list" where
  "goal_fields = (\<lambda>(i, g). [''GOAL'', int_text (int i), int_text (int (length (pg_assumptions g))), term_text (pg_conclusion g)]
     # assumption_fields ''ASSUMPTION'' i (pg_assumptions g))"

definition location_fields :: "string list \<Rightarrow> slot list \<Rightarrow> string list list" where
  "location_fields op slots =
     map (\<lambda>(file, name, line). op @ [to_hex (bounded_to MAX_TEXT_BYTES file),
            to_hex (bounded_to MAX_TEXT_BYTES (case name of None \<Rightarrow> [] | Some n \<Rightarrow> n)), int_text (int line)])
       (List.map_filter id slots)"

definition step_fields :: "nat \<times> printed_step \<Rightarrow> string list list" where
  "step_fields = (\<lambda>(i, s). [''STEP'', int_text (int i), int_text (int (length (pg_assumptions s))), term_text (pg_conclusion s),
       error_text (ps_error s)]
     # assumption_fields ''STEPASSUMPTION'' i (pg_assumptions s)
     @ location_fields [''STEPLOCATION'', int_text (int i)] (take MAX_STEP_LOCATIONS (ps_slots s)))"

definition steps_fields :: "printed_step list \<Rightarrow> string list list" where
  "steps_fields steps =
     (if steps = [] then []
      else [''STEPS'', int_text (int (length steps)), int_text (int (length (take MAX_STEPS steps)))]
        # concat (map step_fields (enumerate 0 (take MAX_STEPS steps))))"

definition begin_fields :: "prove_failure \<Rightarrow> string list" where
  "begin_fields f = [''BEGIN'', pf_kind f, int_text (int (length (pf_goals f))), int_text (int (length (take MAX_GOALS (pf_goals f)))),
     term_text (pf_statement f), error_text (pf_error f)]"

definition frame_fields :: "prove_failure \<Rightarrow> string list list" where
  "frame_fields f = concat (map goal_fields (enumerate 0 (take MAX_GOALS (pf_goals f))))
     @ location_fields [''LOCATION''] (pf_slots f) @ steps_fields (pf_steps f)"

definition diag_line :: "string \<Rightarrow> nat \<Rightarrow> string list \<Rightarrow> bytes" where
  "diag_line nonce k fs = diagnostic_prefix nonce @ basc (join_colon (int_text (int k)) fs) @ [0x0A]"

definition frame_text :: "string \<Rightarrow> nat \<Rightarrow> prove_failure \<Rightarrow> bytes" where
  "frame_text nonce k f = concat (map (diag_line nonce k) (begin_fields f # frame_fields f @ [[''END'']]))"

text \<open>
  Everything else that is printed, the activity records among it, is \<open>Printed\<close>.  \<open>dm_noise\<close>, what was printed since
  the last frame, \<open>dm_frames\<close>, the printed failures with the lines on which their frames end, and \<open>dm_cut\<close>, whether
  the truncation marker was printed at the start of a line, are kept for the statements only.
\<close>

datatype diag_print = Printed bytes | Failed failing_prove

record diag_emitter =
  dm_count :: nat
  dm_out :: bytes
  dm_noise :: bytes
  dm_frames :: "(prove_failure \<times> nat) list"
  dm_cut :: bool

definition diag_emitter_start :: diag_emitter where
  "diag_emitter_start = \<lparr>dm_count = 0, dm_out = [], dm_noise = [], dm_frames = [], dm_cut = False\<rparr>"

definition at_line_start :: "bytes \<Rightarrow> bool" where
  "at_line_start bs \<longleftrightarrow> bs = [] \<or> byte_line_end (last bs)"

definition emit_failure :: "string \<Rightarrow> prove_failure \<Rightarrow> diag_emitter \<Rightarrow> diag_emitter" where
  "emit_failure nonce f em =
     (if dm_count em < MAX_EVENTS
      then let k = dm_count em + 1; out = dm_out em @ [0x0A] @ frame_text nonce k f
           in em\<lparr>dm_count := k, dm_out := out, dm_noise := [], dm_frames := dm_frames em @ [(f, length (raw_lines out))]\<rparr>
      else if dm_count em = MAX_EVENTS
      then let marker = diag_line nonce (MAX_EVENTS + 1) [''TRUNCATED'']
           in em\<lparr>dm_count := dm_count em + 1, dm_out := dm_out em @ marker,
                 dm_noise := [], dm_cut := at_line_start (dm_out em)\<rparr>
      else em)"

definition emit_print :: "string \<Rightarrow> diag_emitter \<Rightarrow> diag_print \<Rightarrow> diag_emitter" where
  "emit_print nonce em ev =
     (case ev of
        Printed bs \<Rightarrow> em\<lparr>dm_out := dm_out em @ bs, dm_noise := dm_noise em @ bs\<rparr>
      | Failed c \<Rightarrow> emit_failure nonce (failing_call c) em)"

definition emit_failures :: "string \<Rightarrow> diag_print list \<Rightarrow> diag_emitter" where
  "emit_failures nonce evs = foldl (emit_print nonce) diag_emitter_start evs"

section \<open>What a frame is read as\<close>

definition shown_assumption :: "bytes \<times> bytes \<Rightarrow> diag_assumption" where
  "shown_assumption = (\<lambda>(label, conclusion).
     \<lparr>da_label = utf8_replace (bounded_to MAX_TEXT_BYTES label), da_conclusion = utf8_replace (render conclusion)\<rparr>)"

definition shown_goal :: "printed_goal \<Rightarrow> diag_goal" where
  "shown_goal g = \<lparr>dg_conclusion = utf8_replace (render (pg_conclusion g)), dg_count = int (length (pg_assumptions g)),
     dg_assumptions = map shown_assumption (take MAX_ASSUMPTIONS (pg_assumptions g))\<rparr>"

definition shown_step :: "printed_step \<Rightarrow> diag_step" where
  "shown_step s = \<lparr>dg_conclusion = utf8_replace (render (pg_conclusion s)), dg_count = int (length (pg_assumptions s)),
     dg_assumptions = map shown_assumption (take MAX_ASSUMPTIONS (pg_assumptions s)),
     dp_exception = utf8_replace (bounded_to MAX_EXCEPTION_BYTES (ps_error s)),
     dp_locations = map shown_slot (List.map_filter id (take MAX_STEP_LOCATIONS (ps_slots s)))\<rparr>"

definition shown_failure :: "nat \<Rightarrow> prove_failure \<Rightarrow> nat \<Rightarrow> diag_event" where
  "shown_failure k f endline =
     \<lparr>de_event = int k, de_kind = pf_kind f, de_goal_count = int (length (pf_goals f)),
      de_shown_goals = int (length (take MAX_GOALS (pf_goals f))), de_statement = utf8_replace (render (pf_statement f)),
      de_exception = utf8_replace (bounded_to MAX_EXCEPTION_BYTES (pf_error f)),
      de_goals = map shown_goal (take MAX_GOALS (pf_goals f)), de_locations = map shown_slot (List.map_filter id (pf_slots f)),
      de_step_count = int (length (pf_steps f)), de_shown_steps = int (length (take MAX_STEPS (pf_steps f))),
      de_steps = map shown_step (take MAX_STEPS (pf_steps f)), de_end = endline, de_following = None\<rparr>"

definition small :: "nat \<Rightarrow> bool" where
  "small n \<longleftrightarrow> int n \<le> MAX_ACTIVITY_SEQUENCE"

definition failure_ok :: "prove_failure \<Rightarrow> bool" where
  "failure_ok f \<longleftrightarrow>
     (pf_kind f = ''residual_goals'' \<or> pf_kind f = ''tactic_input'')
     \<and> length (pf_slots f) \<le> 32 \<and> list_all slot_ok (pf_slots f)
     \<and> small (length (pf_goals f)) \<and> small (length (pf_steps f))
     \<and> list_all (\<lambda>g. small (length (pg_assumptions g))) (pf_goals f)
     \<and> list_all (\<lambda>s. small (length (pg_assumptions s)) \<and> list_all slot_ok (ps_slots s)) (pf_steps f)"

section \<open>Fields\<close>

lemma small_digits: "small n \<Longrightarrow> py_int_text (int_text (int n)) = Some (int n)"
  by (simp add: small_def small_int_digits)

lemma small_le: "small n \<Longrightarrow> m \<le> n \<Longrightarrow> small m"
  by (simp add: small_def)

lemma small_32: "n \<le> 32 \<Longrightarrow> small n"
  by (simp add: small_def MAX_ACTIVITY_SEQUENCE_def)

lemma length_render: "length (render s) \<le> MAX_TERM_BYTES + 15"
  by (auto simp: render_def)

lemma diag_term_text: "diag_term (term_text s) = Some (utf8_replace (render s))"
  using length_render [of s] by (simp add: diag_term_def term_text_def diagnostic_text_def from_hex_to_hex length_to_hex)

lemma diag_error_text: "diag_exception (error_text s) = Some (utf8_replace (bounded_to MAX_EXCEPTION_BYTES s))"
  by (simp add: diag_exception_def error_text_def diagnostic_text_hex)

lemma plain_texts [simp]: "plain (term_text s)" "plain (error_text s)"
  by (simp_all add: term_text_def error_text_def)

section \<open>Groups of records\<close>

fun frame_records :: "string list list \<Rightarrow> diag_event \<Rightarrow> diag_event option" where
  "frame_records [] ev = Some ev"
| "frame_records (fs # fss) ev =
     (case fs of [] \<Rightarrow> None | op # args \<Rightarrow> (case frame_record op args ev of None \<Rightarrow> None | Some ev' \<Rightarrow> frame_records fss ev'))"

lemma frame_records_append:
  "frame_records (xs @ ys) ev = (case frame_records xs ev of None \<Rightarrow> None | Some ev' \<Rightarrow> frame_records ys ev')"
  by (induction xs arbitrary: ev) (auto split: list.split option.split)

lemma frame_record_ops:
  "frame_record ''GOAL'' = goal_record" "frame_record ''ASSUMPTION'' = assumption_record"
  "frame_record ''LOCATION'' = location_record" "frame_record ''STEPS'' = steps_record" "frame_record ''STEP'' = step_record"
  "frame_record ''STEPASSUMPTION'' = step_assumption_record" "frame_record ''STEPLOCATION'' = step_location_record"
  by (simp_all add: frame_record_def fun_eq_iff)

lemma assumptions_read:
  assumes "de_goals ev = gs @ [g]" and "de_step_count ev = 0" and "i = length gs" and "small i"
    and "dg_count g = int n" and "length (dg_assumptions g) + length as \<le> min MAX_ASSUMPTIONS n"
  shows "frame_records (map (\<lambda>(l, c). [''ASSUMPTION'', int_text (int i), to_hex (bounded_to MAX_TEXT_BYTES l), term_text c]) as) ev
    = Some (ev\<lparr>de_goals := gs @ [g\<lparr>dg_assumptions := dg_assumptions g @ map shown_assumption as\<rparr>]\<rparr>)"
  using assms
proof (induction as arbitrary: ev g)
  case (Cons a as)
  obtain l c where a: "a = (l, c)" by (cases a)
  let ?g = "g\<lparr>dg_assumptions := dg_assumptions g @ [shown_assumption a]\<rparr>"
  have "assumption_record [int_text (int i), to_hex (bounded_to MAX_TEXT_BYTES l), term_text c] ev
      = Some (ev\<lparr>de_goals := gs @ [?g]\<rparr>)"
    using Cons.prems by (simp add: assumption_record_def small_digits diagnostic_text_hex diag_term_text more_assumptions_def
        add_assumption_def shown_assumption_def a)
  with Cons.IH [of "ev\<lparr>de_goals := gs @ [?g]\<rparr>" ?g] Cons.prems show ?case
    by (simp add: a frame_record_ops)
qed simp

lemma goal_read:
  assumes "int (length (de_goals ev)) < de_shown_goals ev" and "de_step_count ev = 0" and "i = length (de_goals ev)" and "small i"
    and "small (length (pg_assumptions g))"
  shows "frame_records (goal_fields (i, g)) ev = Some (ev\<lparr>de_goals := de_goals ev @ [shown_goal g]\<rparr>)"
proof -
  let ?g = "\<lparr>dg_conclusion = utf8_replace (render (pg_conclusion g)), dg_count = int (length (pg_assumptions g)), dg_assumptions = []\<rparr>"
  let ?ev = "ev\<lparr>de_goals := de_goals ev @ [?g]\<rparr>"
  have "goal_record [int_text (int i), int_text (int (length (pg_assumptions g))), term_text (pg_conclusion g)] ev = Some ?ev"
    using assms by (simp add: goal_record_def small_digits diag_term_text)
  moreover have "frame_records (assumption_fields ''ASSUMPTION'' i (pg_assumptions g)) ?ev
      = Some (?ev\<lparr>de_goals := de_goals ev @ [?g\<lparr>dg_assumptions := map shown_assumption (take MAX_ASSUMPTIONS (pg_assumptions g))\<rparr>]\<rparr>)"
    unfolding assumption_fields_def
    using assumptions_read [of ?ev "de_goals ev" ?g i "length (pg_assumptions g)" "take MAX_ASSUMPTIONS (pg_assumptions g)"] assms
    by simp
  ultimately show ?thesis by (simp add: goal_fields_def frame_record_ops shown_goal_def)
qed

lemma enumerate_Cons: "enumerate n (x # xs) = (n, x) # enumerate (Suc n) xs"
  by simp

lemma goals_read:
  assumes "int (length (de_goals ev) + length goals) \<le> de_shown_goals ev" and "de_step_count ev = 0" and "i = length (de_goals ev)"
    and "small (i + length goals)" and "list_all (\<lambda>g. small (length (pg_assumptions g))) goals"
  shows "frame_records (concat (map goal_fields (enumerate i goals))) ev = Some (ev\<lparr>de_goals := de_goals ev @ map shown_goal goals\<rparr>)"
  using assms
proof (induction goals arbitrary: ev i)
  case (Cons g goals)
  let ?ev = "ev\<lparr>de_goals := de_goals ev @ [shown_goal g]\<rparr>"
  have "frame_records (goal_fields (i, g)) ev = Some ?ev"
    using Cons.prems by (intro goal_read) (auto intro: small_le)
  moreover have "frame_records (concat (map goal_fields (enumerate (Suc i) goals))) ?ev
      = Some (?ev\<lparr>de_goals := de_goals ?ev @ map shown_goal goals\<rparr>)"
    using Cons.prems by (intro Cons.IH) auto
  ultimately show ?case by (simp add: frame_records_append)
qed simp

lemma locations_read:
  assumes "length (de_locations ev) + length slots \<le> 32" and "de_step_count ev = 0" and "list_all slot_ok slots"
  shows "frame_records (location_fields [''LOCATION''] slots) ev
    = Some (ev\<lparr>de_locations := de_locations ev @ map shown_slot (List.map_filter id slots)\<rparr>)"
  using assms
proof (induction slots arbitrary: ev)
  case Nil
  then show ?case by (simp add: location_fields_def map_filter_simps)
next
  case (Cons slot slots)
  show ?case
  proof (cases slot)
    case None
    with Cons.IH [of ev] Cons.prems show ?thesis by (simp add: location_fields_def map_filter_simps)
  next
    case (Some t)
    obtain f n l where t: "t = (f, n, l)" by (cases t)
    let ?ev = "ev\<lparr>de_locations := de_locations ev @ [shown_slot t]\<rparr>"
    have l: "1 \<le> l" "py_int_text (int_text (int l)) = Some (int l)" using Cons.prems(3) Some t by (simp_all add: slot_ok_def small_int_digits)
    have "location_record [to_hex (bounded_to MAX_TEXT_BYTES f), to_hex (bounded_to MAX_TEXT_BYTES (case n of None \<Rightarrow> [] | Some n \<Rightarrow> n)), int_text (int l)] ev
        = Some ?ev"
      using l Cons.prems(1,2) by (simp add: location_record_def diagnostic_text_hex shown_slot_def t)
    with Cons.IH [of ?ev] Cons.prems show ?thesis
      by (simp add: location_fields_def map_filter_simps Some t frame_record_ops)
  qed
qed

lemma step_assumptions_read:
  assumes "de_steps ev = ss @ [s]" and "i = length ss" and "small i" and "dp_locations s = []"
    and "dg_count s = int n" and "length (dg_assumptions s) + length as \<le> min MAX_ASSUMPTIONS n"
  shows "frame_records (map (\<lambda>(l, c). [''STEPASSUMPTION'', int_text (int i), to_hex (bounded_to MAX_TEXT_BYTES l), term_text c]) as) ev
    = Some (ev\<lparr>de_steps := ss @ [s\<lparr>dg_assumptions := dg_assumptions s @ map shown_assumption as\<rparr>]\<rparr>)"
  using assms
proof (induction as arbitrary: ev s)
  case (Cons a as)
  obtain l c where a: "a = (l, c)" by (cases a)
  let ?s = "s\<lparr>dg_assumptions := dg_assumptions s @ [shown_assumption a]\<rparr>"
  have "step_assumption_record [int_text (int i), to_hex (bounded_to MAX_TEXT_BYTES l), term_text c] ev
      = Some (ev\<lparr>de_steps := ss @ [?s]\<rparr>)"
    using Cons.prems by (simp add: step_assumption_record_def small_digits diagnostic_text_hex diag_term_text more_assumptions_def
        add_assumption_def shown_assumption_def a)
  with Cons.IH [of "ev\<lparr>de_steps := ss @ [?s]\<rparr>" ?s] Cons.prems show ?case
    by (simp add: a frame_record_ops)
qed simp

lemma step_locations_read:
  assumes "de_steps ev = ss @ [s]" and "i = length ss" and "small i" and "list_all slot_ok slots"
    and "length (dp_locations s) + length slots \<le> MAX_STEP_LOCATIONS"
  shows "frame_records (location_fields [''STEPLOCATION'', int_text (int i)] slots) ev
    = Some (ev\<lparr>de_steps := ss @ [s\<lparr>dp_locations := dp_locations s @ map shown_slot (List.map_filter id slots)\<rparr>]\<rparr>)"
  using assms
proof (induction slots arbitrary: ev s)
  case Nil
  then show ?case by (simp add: location_fields_def map_filter_simps)
next
  case (Cons slot slots)
  show ?case
  proof (cases slot)
    case None
    with Cons.IH [of ev s] Cons.prems show ?thesis by (simp add: location_fields_def map_filter_simps)
  next
    case (Some t)
    obtain f n l where t: "t = (f, n, l)" by (cases t)
    let ?s = "s\<lparr>dp_locations := dp_locations s @ [shown_slot t]\<rparr>"
    have l: "1 \<le> l" "py_int_text (int_text (int l)) = Some (int l)" using Cons.prems(4) Some t by (simp_all add: slot_ok_def small_int_digits)
    have "step_location_record [int_text (int i), to_hex (bounded_to MAX_TEXT_BYTES f),
          to_hex (bounded_to MAX_TEXT_BYTES (case n of None \<Rightarrow> [] | Some n \<Rightarrow> n)), int_text (int l)] ev = Some (ev\<lparr>de_steps := ss @ [?s]\<rparr>)"
      using l Cons.prems by (simp add: step_location_record_def diagnostic_text_hex shown_slot_def t small_digits)
    with Cons.IH [of "ev\<lparr>de_steps := ss @ [?s]\<rparr>" ?s] Cons.prems show ?thesis
      by (simp add: location_fields_def map_filter_simps Some t frame_record_ops)
  qed
qed

lemma step_read:
  assumes "int (length (de_steps ev)) < de_shown_steps ev" and "i = length (de_steps ev)" and "small i"
    and "small (length (pg_assumptions s))" and "list_all slot_ok (ps_slots s)"
  shows "frame_records (step_fields (i, s)) ev = Some (ev\<lparr>de_steps := de_steps ev @ [shown_step s]\<rparr>)"
proof -
  let ?s = "\<lparr>dg_conclusion = utf8_replace (render (pg_conclusion s)), dg_count = int (length (pg_assumptions s)), dg_assumptions = [],
    dp_exception = utf8_replace (bounded_to MAX_EXCEPTION_BYTES (ps_error s)), dp_locations = []\<rparr>"
  let ?ev = "ev\<lparr>de_steps := de_steps ev @ [?s]\<rparr>"
  let ?s1 = "?s\<lparr>dg_assumptions := map shown_assumption (take MAX_ASSUMPTIONS (pg_assumptions s))\<rparr>"
  let ?ev1 = "ev\<lparr>de_steps := de_steps ev @ [?s1]\<rparr>"
  have "step_record [int_text (int i), int_text (int (length (pg_assumptions s))), term_text (pg_conclusion s), error_text (ps_error s)] ev
      = Some ?ev"
    using assms by (simp add: step_record_def small_digits diag_term_text diag_error_text)
  moreover have "frame_records (assumption_fields ''STEPASSUMPTION'' i (pg_assumptions s)) ?ev = Some ?ev1"
    unfolding assumption_fields_def
    using step_assumptions_read [of ?ev "de_steps ev" ?s i "length (pg_assumptions s)" "take MAX_ASSUMPTIONS (pg_assumptions s)"] assms
    by simp
  moreover have "list_all slot_ok (take MAX_STEP_LOCATIONS (ps_slots s))" using assms(5) by (auto simp: list_all_iff dest: in_set_takeD)
  then have "frame_records (location_fields [''STEPLOCATION'', int_text (int i)] (take MAX_STEP_LOCATIONS (ps_slots s))) ?ev1
      = Some (ev\<lparr>de_steps := de_steps ev @ [shown_step s]\<rparr>)"
    using step_locations_read [of ?ev1 "de_steps ev" ?s1 i "take MAX_STEP_LOCATIONS (ps_slots s)"] assms
    by (simp add: shown_step_def)
  ultimately show ?thesis by (simp add: step_fields_def frame_record_ops frame_records_append)
qed

lemma step_list_read:
  assumes "int (length (de_steps ev) + length steps) \<le> de_shown_steps ev" and "i = length (de_steps ev)"
    and "small (i + length steps)" and "list_all (\<lambda>s. small (length (pg_assumptions s)) \<and> list_all slot_ok (ps_slots s)) steps"
  shows "frame_records (concat (map step_fields (enumerate i steps))) ev = Some (ev\<lparr>de_steps := de_steps ev @ map shown_step steps\<rparr>)"
  using assms
proof (induction steps arbitrary: ev i)
  case (Cons s steps)
  let ?ev = "ev\<lparr>de_steps := de_steps ev @ [shown_step s]\<rparr>"
  have "frame_records (step_fields (i, s)) ev = Some ?ev"
    using Cons.prems by (intro step_read) (auto intro: small_le)
  moreover have "frame_records (concat (map step_fields (enumerate (Suc i) steps))) ?ev
      = Some (?ev\<lparr>de_steps := de_steps ?ev @ map shown_step steps\<rparr>)"
    using Cons.prems by (intro Cons.IH) auto
  ultimately show ?case by (simp add: frame_records_append)
qed simp

lemma list_all_take: "list_all P xs \<Longrightarrow> list_all P (take n xs)"
  by (auto simp: list_all_iff dest: in_set_takeD)

lemma steps_read:
  assumes "de_steps ev = []" and "de_step_count ev = 0" and "de_shown_steps ev = 0" and "small (length steps)"
    and "list_all (\<lambda>s. small (length (pg_assumptions s)) \<and> list_all slot_ok (ps_slots s)) steps"
  shows "frame_records (steps_fields steps) ev = Some (ev\<lparr>de_step_count := int (length steps),
    de_shown_steps := int (length (take MAX_STEPS steps)), de_steps := map shown_step (take MAX_STEPS steps)\<rparr>)"
proof (cases "steps = []")
  case True
  with assms show ?thesis by (simp add: steps_fields_def)
next
  case False
  let ?n = "length (take MAX_STEPS steps)"
  let ?ev = "ev\<lparr>de_step_count := int (length steps), de_shown_steps := int ?n\<rparr>"
  have n: "1 \<le> ?n" "?n \<le> length steps" "?n \<le> MAX_STEPS" using False by (auto simp: MAX_STEPS_def Suc_le_eq)
  have sn: "small ?n" using assms(4) n(2) by (rule small_le)
  have "steps_record [int_text (int (length steps)), int_text (int ?n)] ev = Some ?ev"
    using n assms(2) small_digits [OF assms(4)] small_digits [OF sn] unfolding steps_record_def by simp
  moreover have "frame_records (concat (map step_fields (enumerate 0 (take MAX_STEPS steps)))) ?ev
      = Some (?ev\<lparr>de_steps := de_steps ?ev @ map shown_step (take MAX_STEPS steps)\<rparr>)"
    using assms sn by (intro step_list_read) (simp_all add: list_all_take del: length_take)
  ultimately show ?thesis using False assms(1) by (simp add: steps_fields_def frame_record_ops del: length_take)
qed

lemma frame_fields_read:
  assumes "failure_ok f"
  shows "\<exists>ev. begin_record (int k) (tl (begin_fields f)) = Some ev \<and> de_event ev = int k
    \<and> frame_records (frame_fields f) ev = Some (shown_failure k f 0)"
proof -
  let ?goals = "take MAX_GOALS (pf_goals f)" and ?steps = "pf_steps f"
  define ev where "ev = \<lparr>de_event = int k, de_kind = pf_kind f, de_goal_count = int (length (pf_goals f)),
      de_shown_goals = int (length ?goals), de_statement = utf8_replace (render (pf_statement f)),
      de_exception = utf8_replace (bounded_to MAX_EXCEPTION_BYTES (pf_error f)), de_goals = [], de_locations = [],
      de_step_count = 0, de_shown_steps = 0, de_steps = [], de_end = 0, de_following = None\<rparr>"
  define ev1 where "ev1 = ev\<lparr>de_goals := map shown_goal ?goals\<rparr>"
  define ev2 where "ev2 = ev1\<lparr>de_locations := map shown_slot (List.map_filter id (pf_slots f))\<rparr>"
  from assms have ok: "length (pf_slots f) \<le> 32" "list_all slot_ok (pf_slots f)" "small (length (pf_goals f))" "small (length ?steps)"
    "list_all (\<lambda>g. small (length (pg_assumptions g))) (pf_goals f)"
    "list_all (\<lambda>s. small (length (pg_assumptions s)) \<and> list_all slot_ok (ps_slots s)) ?steps"
    by (simp_all add: failure_ok_def)
  have g: "length ?goals \<le> length (pf_goals f)" "length ?goals \<le> MAX_GOALS" by simp_all
  have sg: "small (length ?goals)" using ok(3) g(1) by (rule small_le)
  have "begin_record (int k) (tl (begin_fields f)) = Some ev"
    using assms g small_digits [OF ok(3)] small_digits [OF sg] unfolding begin_fields_def
    by (simp add: begin_record_def diag_term_text diag_error_text ev_def failure_ok_def del: length_take)
  moreover have "frame_records (concat (map goal_fields (enumerate 0 ?goals))) ev = Some (ev\<lparr>de_goals := de_goals ev @ map shown_goal ?goals\<rparr>)"
    using ok sg by (intro goals_read) (simp_all add: ev_def list_all_take del: length_take)
  then have "frame_records (concat (map goal_fields (enumerate 0 ?goals))) ev = Some ev1" by (simp add: ev1_def ev_def)
  moreover have "frame_records (location_fields [''LOCATION''] (pf_slots f)) ev1
      = Some (ev1\<lparr>de_locations := de_locations ev1 @ map shown_slot (List.map_filter id (pf_slots f))\<rparr>)"
    using ok(1,2) by (intro locations_read) (simp_all add: ev1_def ev_def)
  then have "frame_records (location_fields [''LOCATION''] (pf_slots f)) ev1 = Some ev2" by (simp add: ev2_def ev1_def ev_def)
  moreover have "frame_records (steps_fields ?steps) ev2 = Some (ev2\<lparr>de_step_count := int (length ?steps),
      de_shown_steps := int (length (take MAX_STEPS ?steps)), de_steps := map shown_step (take MAX_STEPS ?steps)\<rparr>)"
    using ok(4,6) by (intro steps_read) (simp_all add: ev2_def ev1_def ev_def)
  ultimately have "frame_records (frame_fields f) ev = Some (shown_failure k f 0)"
    by (simp add: frame_fields_def frame_records_append ev2_def ev1_def ev_def shown_failure_def del: length_take)
  moreover have "de_event ev = int k" by (simp add: ev_def)
  ultimately show ?thesis using \<open>begin_record (int k) (tl (begin_fields f)) = Some ev\<close> by blast
qed

end
