(* ===== verification/Diagnostic_Reading.thy ===== *)
theory Diagnostic_Reading
  imports Diagnostic_Emitter
begin

text \<open>
  The frames of failing calls and their accounting: what \<open>emit\<close> printed among other output is read back as the events
  it was given.
\<close>

section \<open>Lines without their terminators\<close>

definition strip_end :: "bytes \<Rightarrow> bytes" where
  "strip_end l = takeWhile (Not \<circ> byte_line_end) l"

lemma raw_lines_first:
  "\<forall>b\<in>set l. \<not> byte_line_end b \<Longrightarrow> byte_line_end c \<Longrightarrow>
     raw_lines (l @ c # r) = (if c = 0x0D \<and> take 1 r = [0x0A] then (l @ [0x0D, 0x0A]) # raw_lines (tl r)
                              else (l @ [c]) # raw_lines r)"
proof (induction l)
  case Nil
  then show ?case by (cases r) (auto simp: byte_line_end_def)
next
  case (Cons b l)
  then show ?case by (auto simp: byte_line_end_def)
qed

lemma byte_lines_raw: "byte_lines bs = map strip_end (raw_lines bs)"
proof (induction bs rule: byte_lines.induct)
  case (1 bs)
  let ?l = "takeWhile (Not \<circ> byte_line_end) bs" and ?r = "dropWhile (Not \<circ> byte_line_end) bs"
  have l: "\<forall>b\<in>set ?l. \<not> byte_line_end b" by (auto dest: set_takeWhileD)
  show ?case
  proof (cases "bs = []")
    case True
    then show ?thesis by (simp add: byte_lines.simps)
  next
    case ne: False
    show ?thesis
    proof (cases ?r)
      case Nil
      then have "?l = bs" by (metis append.right_neutral takeWhile_dropWhile_id)
      moreover from this l have "\<forall>b\<in>set bs. b \<noteq> 0x0A \<and> b \<noteq> 0x0D" by (auto simp: byte_line_end_def)
      then have "raw_lines bs = [bs]" using ne by (rule raw_lines_single)
      moreover have "byte_lines bs = [?l]" using ne by (subst byte_lines.simps) (simp only: Nil Let_def if_False list.case)
      ultimately show ?thesis by (simp add: strip_end_def)
    next
      case (Cons c r)
      then have c: "byte_line_end c" using hd_dropWhile [of "Not \<circ> byte_line_end" bs] by simp
      have bs: "bs = ?l @ c # r" using Cons by (metis takeWhile_dropWhile_id)
      have st: "strip_end (?l @ c # x) = ?l" for x using l c by (simp add: strip_end_def takeWhile_append2 comp_def)
      have ih: "byte_lines (if c = 0x0D \<and> take 1 r = [0x0A] then tl r else r)
          = map strip_end (raw_lines (if c = 0x0D \<and> take 1 r = [0x0A] then tl r else r))"
        using "1.IH" [OF ne refl refl Cons] .
      have "byte_lines bs = ?l # byte_lines (if c = 0x0D \<and> take 1 r = [0x0A] then tl r else r)"
        using ne Cons by (subst byte_lines.simps) (simp add: Let_def)
      moreover have "map strip_end (raw_lines (?l @ c # r)) = ?l # map strip_end (raw_lines (if c = 0x0D \<and> take 1 r = [0x0A] then tl r else r))"
        using raw_lines_first [OF l c, of r] st [of "[]"] st [of "[0x0A]"] by auto
      ultimately show ?thesis using ih bs by metis
    qed
  qed
qed

lemma strip_end_newline: "strip_end (l @ [0x0A]) = strip_end l"
proof (cases "\<exists>b\<in>set l. byte_line_end b")
  case True
  then obtain b where "b \<in> set l" "byte_line_end b" by blast
  then show ?thesis unfolding strip_end_def by (intro takeWhile_append1) simp_all
next
  case False
  then have "takeWhile (Not \<circ> byte_line_end) l = l" by (intro iffD2 [OF takeWhile_eq_all_conv]) simp
  moreover from False have "takeWhile (Not \<circ> byte_line_end) (l @ [0x0A]) = l @ takeWhile (Not \<circ> byte_line_end) [0x0A]"
    by (intro takeWhile_append2) simp
  moreover have "takeWhile (Not \<circ> byte_line_end) [0x0A] = []" by (simp add: byte_line_end_def)
  ultimately show ?thesis unfolding strip_end_def by (metis append_Nil2)
qed

section \<open>Framed lines\<close>

definition framed :: "bytes \<Rightarrow> nat \<Rightarrow> bytes list \<Rightarrow> (nat \<times> bytes) list" where
  "framed pre n ls = filter (\<lambda>(_, l). take (length pre) l = pre) (enumerate n (map strip_end ls))"

lemma prefixed_lines_framed: "prefixed_lines pre (byte_lines t) = framed pre 1 (raw_lines t)"
  by (simp add: prefixed_lines_def framed_def byte_lines_raw)

lemma framed_append: "framed pre n (xs @ ys) = framed pre n xs @ framed pre (n + length xs) ys"
  by (simp add: framed_def enumerate_append_eq)

lemma framed_none: "\<forall>l\<in>set ls. take (length pre) (strip_end l) \<noteq> pre \<Longrightarrow> framed pre n ls = []"
  by (induction ls arbitrary: n) (auto simp: framed_def)

text \<open>Output of the program: none of its lines begins with the prefix, or is the beginning of one.\<close>

definition quiet_frames :: "bytes \<Rightarrow> bytes \<Rightarrow> bool" where
  "quiet_frames pre bs \<longleftrightarrow> (\<forall>l\<in>set (raw_lines bs). take (length l) pre \<noteq> take (length pre) l)"

lemma strip_end_prefix: "take k (strip_end l) = p \<Longrightarrow> length p = k \<Longrightarrow> take k l = p"
proof -
  assume a: "take k (strip_end l) = p" "length p = k"
  have l: "l = strip_end l @ dropWhile (Not \<circ> byte_line_end) l" by (simp add: strip_end_def)
  have "k \<le> length (strip_end l)" using a by auto
  then have "take k l = take k (strip_end l)" by (subst l) simp
  with a(1) show ?thesis by simp
qed

lemma not_comparable: "take (length l) pre \<noteq> take (length pre) l \<Longrightarrow> take (length pre) (l @ x) \<noteq> pre"
proof
  assume a: "take (length l) pre \<noteq> take (length pre) l" "take (length pre) (l @ x) = pre"
  from a(2) have "take (length l) pre = take (length l) (take (length pre) (l @ x))" by simp
  also have "\<dots> = take (length pre) l" by (simp add: min_def)
  finally show False using a(1) by blast
qed

lemma quiet_framed:
  assumes "quiet_frames pre bs"
  shows "framed pre n (raw_lines bs) = []"
proof (rule framed_none, rule ballI)
  fix l assume "l \<in> set (raw_lines bs)"
  with assms have "take (length pre) (l @ []) \<noteq> pre" by (intro not_comparable) (simp add: quiet_frames_def)
  then show "take (length pre) (strip_end l) \<noteq> pre" using strip_end_prefix [of "length pre" l pre] by auto
qed

lemma quiet_framed_newline:
  assumes "quiet_frames pre bs" and "pre \<noteq> []"
  shows "framed pre n (raw_lines (bs @ [0x0A])) = []"
proof (rule framed_none, rule ballI)
  fix l' assume "l' \<in> set (raw_lines (bs @ [0x0A]))"
  from raw_lines_append_newline [OF this] show "take (length pre) (strip_end l') \<noteq> pre"
  proof
    assume "l' = [0x0A]"
    then show ?thesis using assms(2) by (simp add: strip_end_def byte_line_end_def)
  next
    assume "\<exists>l\<in>set (raw_lines bs). l' = l \<or> l' = l @ [0x0A]"
    then obtain l where l: "l \<in> set (raw_lines bs)" "strip_end l' = strip_end l" using strip_end_newline by auto
    then have "take (length pre) (l @ []) \<noteq> pre" using assms(1) by (intro not_comparable) (simp add: quiet_frames_def)
    then show ?thesis using strip_end_prefix [of "length pre" l pre] l(2) by auto
  qed
qed

lemma raw_lines_cr:
  assumes "y \<noteq> 0x0A"
  shows "raw_lines (xs @ 0x0D # y # ys) = raw_lines (xs @ [0x0D]) @ raw_lines (y # ys)"
proof (induction xs)
  case Nil
  then show ?case using assms by (simp del: raw_lines.simps(2)) (simp add: raw_lines.simps(2) [of "0x0D"])
next
  case (Cons x xs)
  have t: "take 1 (xs @ 0x0D # y # ys) = take 1 (xs @ [0x0D])" by (cases xs) simp_all
  have "raw_lines (xs @ [0x0D]) \<noteq> []" by simp
  then obtain l ls where l: "raw_lines (xs @ [0x0D]) = l # ls" by (cases "raw_lines (xs @ [0x0D])") blast+
  show ?case
    unfolding append_Cons raw_lines.simps(2) [of x] t Cons.IH l by simp
qed

lemma raw_lines_at_start:
  assumes "at_line_start d" and "x \<noteq> []" and "hd x \<noteq> 0x0A"
  shows "raw_lines (d @ x) = raw_lines d @ raw_lines x"
proof (cases "d = [] \<or> last d = 0x0A")
  case True
  then show ?thesis by (rule raw_lines_closed)
next
  case False
  then have d: "d = butlast d @ [0x0D]" using assms(1) unfolding at_line_start_def byte_line_end_def
    by (metis append_butlast_last_id)
  obtain y ys where x: "x = y # ys" "y \<noteq> 0x0A" using assms(2,3) by (cases x) auto
  have "raw_lines (butlast d @ 0x0D # y # ys) = raw_lines (butlast d @ [0x0D]) @ raw_lines (y # ys)" by (rule raw_lines_cr [OF x(2)])
  then show ?thesis unfolding x(1) using d by (metis append_Cons append_Nil append_assoc)
qed

lemma raw_lines_glued:
  assumes "bs \<noteq> []" and "\<not> byte_line_end (last bs)" and "\<forall>b\<in>set m. b \<noteq> 0x0A \<and> b \<noteq> 0x0D"
  shows "raw_lines (bs @ m @ [0x0A]) = butlast (raw_lines bs) @ [last (raw_lines bs) @ m @ [0x0A]]"
  using assms(1,2)
proof (induction bs)
  case (Cons b bs)
  show ?case
  proof (cases bs)
    case Nil
    with Cons.prems have "b \<noteq> 0x0A \<and> b \<noteq> 0x0D" by (simp add: byte_line_end_def)
    then have "raw_lines ((b # m) @ [0x0A]) = [(b # m) @ [0x0A]]" using assms(3) by (intro raw_lines_line) auto
    with Nil \<open>b \<noteq> 0x0A \<and> b \<noteq> 0x0D\<close> show ?thesis by simp
  next
    case (Cons c cs)
    then have t: "take 1 (bs @ m @ [0x0A]) = take 1 bs" by simp
    have ih: "raw_lines (bs @ m @ [0x0A]) = butlast (raw_lines bs) @ [last (raw_lines bs) @ m @ [0x0A]]"
      using Cons.IH Cons Cons.prems by simp
    have "raw_lines bs \<noteq> []" using Cons by (subst raw_lines_Nil_iff) simp
    then obtain j js where j: "raw_lines bs = j # js" by (cases "raw_lines bs") blast+
    show ?thesis
      unfolding append_Cons raw_lines.simps(2) [of b] t ih j by (cases js) auto
  qed
qed simp

lemma quiet_glued:
  assumes "quiet_frames pre bs" and "bs \<noteq> []" and "\<not> byte_line_end (last bs)" and "\<forall>b\<in>set m. b \<noteq> 0x0A \<and> b \<noteq> 0x0D"
  shows "framed pre n (raw_lines (bs @ m @ [0x0A])) = []"
proof (rule framed_none, rule ballI)
  fix l' assume "l' \<in> set (raw_lines (bs @ m @ [0x0A]))"
  then consider "l' \<in> set (butlast (raw_lines bs))" | "l' = last (raw_lines bs) @ m @ [0x0A]"
    unfolding raw_lines_glued [OF assms(2-4)] by auto
  then have "\<exists>l\<in>set (raw_lines bs). \<exists>x. l' = l @ x"
  proof cases
    case 1
    then show ?thesis by (intro bexI [of _ l'] exI [of _ "[]"]) (simp_all add: in_set_butlastD)
  next
    case 2
    then show ?thesis using assms(2) by (intro bexI [of _ "last (raw_lines bs)"] exI [of _ "m @ [0x0A]"]) simp_all
  qed
  then obtain l x where "l \<in> set (raw_lines bs)" "l' = l @ x" by blast
  then have "take (length pre) l' \<noteq> pre" using assms(1) not_comparable by (auto simp: quiet_frames_def)
  then show "take (length pre) (strip_end l') \<noteq> pre" using strip_end_prefix [of "length pre" l' pre] by auto
qed

section \<open>Record lines\<close>

lemma diagnostic_prefix_no_newline:
  assumes "nonce_ok (asc nonce)" and "b \<in> set (diagnostic_prefix nonce)"
  shows "b \<noteq> 0x0A \<and> b \<noteq> 0x0D"
  using assms(2) unfolding diagnostic_prefix_def
proof (rule basc_newline)
  have "plain nonce" using nonce_plain [OF assms(1)] by simp
  then show "\<forall>c\<in>set (DIAGNOSTIC_PREFIX @ '':'' @ nonce @ '':''). (of_char c :: nat) \<noteq> 10 \<and> (of_char c :: nat) \<noteq> 13"
    by (auto simp: DIAGNOSTIC_PREFIX_def plain_def)
qed

lemma diagnostic_prefix_start: "\<exists>x. diagnostic_prefix nonce = 0x5F # x"
  by (simp add: diagnostic_prefix_def DIAGNOSTIC_PREFIX_def basc_def)

definition diag_body :: "string \<Rightarrow> nat \<Rightarrow> string list \<Rightarrow> bytes" where
  "diag_body nonce k fs = diagnostic_prefix nonce @ basc (join_colon (int_text (int k)) fs)"

lemma diag_line_body: "diag_line nonce k fs = diag_body nonce k fs @ [0x0A]"
  by (simp add: diag_line_def diag_body_def)

lemma diag_body_no_newline:
  assumes "nonce_ok (asc nonce)" and "list_all plain fs" and "b \<in> set (diag_body nonce k fs)"
  shows "b \<noteq> 0x0A \<and> b \<noteq> 0x0D"
proof -
  have "list_all plain (int_text (int k) # fs)" using assms(2) by simp
  note c = join_colon_chars [OF this]
  show ?thesis using assms(3) diagnostic_prefix_no_newline [OF assms(1)] basc_newline c unfolding diag_body_def by fastforce
qed

lemma diag_line_is_line:
  assumes "nonce_ok (asc nonce)" and "list_all plain fs"
  shows "raw_lines (diag_line nonce k fs) = [diag_line nonce k fs]"
  using raw_lines_line [of "diag_body nonce k fs"] diag_body_no_newline [OF assms] by (simp add: diag_line_body)

lemma strip_end_line:
  assumes "\<forall>b\<in>set l. b \<noteq> 0x0A \<and> b \<noteq> 0x0D"
  shows "strip_end (l @ [0x0A]) = l"
  unfolding strip_end_newline unfolding strip_end_def using assms by (intro iffD2 [OF takeWhile_eq_all_conv]) (auto simp: byte_line_end_def)

lemma diag_line_framed:
  assumes "nonce_ok (asc nonce)" and "list_all plain fs"
  shows "framed (diagnostic_prefix nonce) n [diag_line nonce k fs] = [(n, diag_body nonce k fs)]"
  using strip_end_line [of "diag_body nonce k fs"] diag_body_no_newline [OF assms]
  by (simp add: framed_def diag_line_body) (simp add: diag_body_def)

lemma diag_body_fields:
  assumes "list_all plain fs"
  shows "diag_fields (diagnostic_prefix nonce) (diag_body nonce k fs) = Some (int_text (int k) # fs)"
proof -
  have p: "list_all plain (int_text (int k) # fs)" using assms by simp
  show ?thesis using join_colon_chars [OF p] by (simp add: diag_fields_def diag_body_def ascii_decode_basc split_join_colon [OF p])
qed

lemma diag_lines_append:
  "diag_lines pre (xs @ ys) st = (case diag_lines pre xs st of None \<Rightarrow> None | Some st' \<Rightarrow> diag_lines pre ys st')"
  by (induction pre xs st rule: diag_lines.induct) (auto split: option.split)

lemma last_diag_line: "last (diag_line nonce k fs) = 0x0A" "diag_line nonce k fs \<noteq> []"
  by (simp_all add: diag_line_def)

lemma frame_lines:
  assumes "nonce_ok (asc nonce)" and "list_all (list_all plain) fss"
  shows "raw_lines (concat (map (diag_line nonce k) fss)) = map (diag_line nonce k) fss"
    and "framed (diagnostic_prefix nonce) n (map (diag_line nonce k) fss) = enumerate n (map (diag_body nonce k) fss)"
  using assms(2)
proof (induction fss arbitrary: n)
  case (Cons fs fss)
  { case 1
    then show ?case using Cons.IH(1) raw_lines_closed [of "diag_line nonce k fs"] last_diag_line [of nonce k fs]
      by (simp add: diag_line_is_line [OF assms(1)]) }
  { case 2
    then show ?case using Cons.IH(2) [of "Suc n"] framed_append [of "diagnostic_prefix nonce" n "[diag_line nonce k fs]"]
      by (simp add: diag_line_framed [OF assms(1)]) }
qed (simp_all add: framed_def)

section \<open>One frame\<close>

lemma frame_record_event: "frame_record op args ev = Some ev' \<Longrightarrow> de_event ev' = de_event ev"
  by (auto simp: frame_record_def goal_record_def assumption_record_def location_record_def steps_record_def step_record_def
      step_assumption_record_def step_location_record_def split: if_splits list.splits option.splits)

lemma frame_record_op: "frame_record op args ev = Some ev' \<Longrightarrow> op \<noteq> ''TRUNCATED'' \<and> op \<noteq> ''BEGIN'' \<and> op \<noteq> ''END''"
  by (auto simp: frame_record_def split: if_splits)

lemma frame_records_accounted:
  assumes "frame_records fss ev = Some ev'" and "list_all (list_all plain) fss" and "ds_active st = Some ev"
    and "de_event ev = int k" and "\<not> ds_truncated st" and "small k"
  shows "diag_lines (diagnostic_prefix nonce) (enumerate n (map (diag_body nonce k) fss)) st = Some (st\<lparr>ds_active := Some ev'\<rparr>)"
  using assms
proof (induction fss arbitrary: ev st n)
  case Nil
  then show ?case by (cases st) simp
next
  case (Cons fs fss)
  from Cons.prems(1) obtain op args ev1 where f: "fs = op # args" "frame_record op args ev = Some ev1" "frame_records fss ev1 = Some ev'"
    by (auto split: list.splits option.splits)
  have "diag_record n (int_text (int k) # fs) st = Some (st\<lparr>ds_active := Some ev1\<rparr>)"
    using Cons.prems frame_record_op [OF f(2)] f(2) by (simp add: diag_record_def f(1) small_digits)
  moreover have "diag_fields (diagnostic_prefix nonce) (diag_body nonce k fs) = Some (int_text (int k) # fs)"
    using Cons.prems(2) by (simp add: diag_body_fields)
  ultimately show ?case
    using Cons.IH [of ev1 "st\<lparr>ds_active := Some ev1\<rparr>" "Suc n"] Cons.prems f(3) frame_record_event [OF f(2)] by simp
qed

lemma complete_groups: "complete_goal (shown_goal g)" "complete_goal (shown_step s)"
  by (simp_all add: complete_goal_def shown_goal_def shown_step_def min_def)

lemma plain_words: "plain ''BEGIN''" "plain ''END''" "plain ''GOAL''" "plain ''ASSUMPTION''" "plain ''LOCATION''" "plain ''STEPS''"
  "plain ''STEP''" "plain ''STEPASSUMPTION''" "plain ''STEPLOCATION''" "plain ''TRUNCATED''"
  "plain ''residual_goals''" "plain ''tactic_input''"
  by (simp_all add: plain_def)

lemma plain_assumptions: "plain op \<Longrightarrow> list_all (list_all plain) (assumption_fields op i as)"
  by (auto simp: assumption_fields_def list_all_iff)

lemma plain_locations: "list_all plain op \<Longrightarrow> list_all (list_all plain) (location_fields op slots)"
  by (auto simp: location_fields_def list_all_iff)

lemma plain_groups: "list_all (list_all plain) (goal_fields (i, g))" "list_all (list_all plain) (step_fields (i, s))"
  using plain_assumptions [OF plain_words(4), of i "pg_assumptions g"] plain_assumptions [OF plain_words(8), of i "pg_assumptions s"]
    plain_locations [of "[''STEPLOCATION'', int_text (int i)]" "take MAX_STEP_LOCATIONS (ps_slots s)"]
  by (simp_all add: goal_fields_def step_fields_def plain_words)

lemma list_all_concat: "(\<And>x. x \<in> set xs \<Longrightarrow> list_all P (g x)) \<Longrightarrow> list_all P (concat (map g xs))"
  by (auto simp: list_all_iff)

lemma plain_frame: "failure_ok f \<Longrightarrow> list_all (list_all plain) (begin_fields f # frame_fields f @ [[''END'']])"
proof -
  assume a: "failure_ok f"
  have "list_all (list_all plain) (concat (map goal_fields (enumerate 0 (take MAX_GOALS (pf_goals f)))))"
    by (rule list_all_concat) (use plain_groups(1) in auto)
  moreover have "list_all (list_all plain) (concat (map step_fields (enumerate 0 (take MAX_STEPS (pf_steps f)))))"
    by (rule list_all_concat) (use plain_groups(2) in auto)
  moreover have "list_all (list_all plain) (location_fields [''LOCATION''] (pf_slots f))"
    by (rule plain_locations) (simp add: plain_words)
  moreover have "plain (pf_kind f)" using a plain_words by (auto simp: failure_ok_def)
  ultimately show ?thesis by (simp add: frame_fields_def steps_fields_def begin_fields_def plain_words)
qed

lemma frame_accounted:
  assumes "failure_ok f" and "ds_active st = None" and "\<not> ds_truncated st" and "k = length (ds_events st) + 1" and "k \<le> MAX_EVENTS"
  shows "diag_lines (diagnostic_prefix nonce) (enumerate n (map (diag_body nonce k) (begin_fields f # frame_fields f @ [[''END'']]))) st
    = Some (st\<lparr>ds_events := ds_events st @ [shown_failure k f (n + length (frame_fields f) + 1)]\<rparr>)"
proof -
  let ?pre = "diagnostic_prefix nonce"
  from frame_fields_read [OF assms(1)] obtain ev where ev: "begin_record (int k) (tl (begin_fields f)) = Some ev" "de_event ev = int k"
    "frame_records (frame_fields f) ev = Some (shown_failure k f 0)" by blast
  have k: "small k" using assms(5) by (simp add: small_def MAX_EVENTS_def MAX_ACTIVITY_SEQUENCE_def)
  note pl = plain_frame [OF assms(1)]
  let ?st1 = "st\<lparr>ds_active := Some ev\<rparr>" and ?st2 = "st\<lparr>ds_active := Some (shown_failure k f 0)\<rparr>"
  have b: "begin_fields f = ''BEGIN'' # tl (begin_fields f)" by (simp add: begin_fields_def)
  have "diag_record n (int_text (int k) # ''BEGIN'' # tl (begin_fields f)) st = Some ?st1"
    using assms ev(1) small_digits [OF k] by (simp add: diag_record_def)
  then have 1: "diag_lines ?pre [(n, diag_body nonce k (begin_fields f))] st = Some ?st1"
    using pl b by (simp add: diag_body_fields)
  have 2: "diag_lines ?pre (enumerate (Suc n) (map (diag_body nonce k) (frame_fields f))) ?st1 = Some ?st2"
    using frame_records_accounted [OF ev(3) _ _ ev(2) _ k, of ?st1] pl assms(3) by simp
  have "end_record (n + length (frame_fields f) + 1) [] (shown_failure k f 0) = Some (shown_failure k f (n + length (frame_fields f) + 1))"
    by (simp add: end_record_def shown_failure_def list_all_iff complete_groups)
  then have "diag_record (n + length (frame_fields f) + 1) [int_text (int k), ''END''] ?st2
      = Some (st\<lparr>ds_events := ds_events st @ [shown_failure k f (n + length (frame_fields f) + 1)]\<rparr>)"
    using assms(2,3) small_digits [OF k] by (cases st) (simp add: diag_record_def, simp add: shown_failure_def)
  then have 3: "diag_lines ?pre [(n + length (frame_fields f) + 1, diag_body nonce k [''END''])] ?st2
      = Some (st\<lparr>ds_events := ds_events st @ [shown_failure k f (n + length (frame_fields f) + 1)]\<rparr>)"
    by (simp add: diag_body_fields plain_words)
  have "enumerate n (map (diag_body nonce k) (begin_fields f # frame_fields f @ [[''END'']]))
      = [(n, diag_body nonce k (begin_fields f))] @ enumerate (Suc n) (map (diag_body nonce k) (frame_fields f))
        @ [(n + length (frame_fields f) + 1, diag_body nonce k [''END''])]"
    by (simp add: enumerate_append_eq)
  with 1 2 3 show ?thesis by (simp only: diag_lines_append option.case)
qed

lemma length_assumption_fields: "length (assumption_fields op i as) \<le> MAX_ASSUMPTIONS"
  by (simp add: assumption_fields_def)

lemma length_location_fields: "length (location_fields op slots) \<le> length slots"
  by (induction slots) (auto simp: location_fields_def map_filter_simps split: option.splits)

lemma length_concat_le: "(\<And>x. x \<in> set xs \<Longrightarrow> length (g x) \<le> n) \<Longrightarrow> length (concat (map g xs)) \<le> n * length xs"
  by (induction xs) fastforce+

lemma frame_length:
  assumes "failure_ok f"
  shows "length (begin_fields f # frame_fields f @ [[''END'']]) \<le> 471"
proof -
  have "length (goal_fields x) \<le> 17" for x
    using length_assumption_fields [of "''ASSUMPTION''" "fst x" "pg_assumptions (snd x)"]
    by (cases x) (simp add: goal_fields_def MAX_ASSUMPTIONS_def)
  then have "length (concat (map goal_fields (enumerate 0 (take MAX_GOALS (pf_goals f))))) \<le> 17 * length (enumerate 0 (take MAX_GOALS (pf_goals f)))"
    by (intro length_concat_le)
  moreover have "length (step_fields x) \<le> 25" for x
    using length_assumption_fields [of "''STEPASSUMPTION''" "fst x" "pg_assumptions (snd x)"]
      length_location_fields [of "[''STEPLOCATION'', int_text (int (fst x))]" "take MAX_STEP_LOCATIONS (ps_slots (snd x))"]
    by (cases x) (simp add: step_fields_def MAX_ASSUMPTIONS_def MAX_STEP_LOCATIONS_def)
  then have "length (concat (map step_fields (enumerate 0 (take MAX_STEPS (pf_steps f))))) \<le> 25 * length (enumerate 0 (take MAX_STEPS (pf_steps f)))"
    by (intro length_concat_le)
  moreover have "length (location_fields [''LOCATION''] (pf_slots f)) \<le> 32"
    using length_location_fields [of "[''LOCATION'']" "pf_slots f"] assms by (simp add: failure_ok_def)
  moreover have "length (take MAX_GOALS (pf_goals f)) \<le> 8" "length (take MAX_STEPS (pf_steps f)) \<le> 12"
    by (simp_all add: MAX_GOALS_def MAX_STEPS_def)
  ultimately show ?thesis by (simp add: frame_fields_def steps_fields_def del: length_take)
qed

section \<open>Reading what was printed\<close>

definition shown_failures :: "(prove_failure \<times> nat) list \<Rightarrow> diag_event list" where
  "shown_failures frames = map (\<lambda>(k, f, e). shown_failure k f e) (enumerate 1 frames)"

lemma shown_failures_snoc: "shown_failures (frames @ [(f, e)]) = shown_failures frames @ [shown_failure (length frames + 1) f e]"
  by (simp add: shown_failures_def enumerate_append_eq)

lemma length_shown_failures [simp]: "length (shown_failures frames) = length frames"
  by (simp add: shown_failures_def)

text \<open>
  What was printed consists of whole lines, \<open>m\<close> of them records whose accounting gives \<open>st\<close>, and the noise after them.
\<close>

definition settled_frames :: "string \<Rightarrow> bytes \<Rightarrow> bytes \<Rightarrow> diag_state \<Rightarrow> nat \<Rightarrow> bool" where
  "settled_frames nonce out noise st m \<longleftrightarrow>
     (\<exists>d. out = d @ noise \<and> (d = [] \<or> last d = 0x0A) \<and> length (framed (diagnostic_prefix nonce) 1 (raw_lines d)) = m
       \<and> diag_lines (diagnostic_prefix nonce) (framed (diagnostic_prefix nonce) 1 (raw_lines d)) diag_start = Some st)"

lemma settled_output: "settled_frames nonce out noise st m \<Longrightarrow> settled_frames nonce (out @ bs) (noise @ bs) st m"
  by (auto simp: settled_frames_def)

lemma settled_frames_read:
  assumes "settled_frames nonce out noise st m" and "quiet_frames (diagnostic_prefix nonce) noise"
  shows "length (framed (diagnostic_prefix nonce) 1 (raw_lines out)) = m"
    and "diag_lines (diagnostic_prefix nonce) (framed (diagnostic_prefix nonce) 1 (raw_lines out)) diag_start = Some st"
proof -
  obtain d where d: "out = d @ noise" "d = [] \<or> last d = 0x0A" "length (framed (diagnostic_prefix nonce) 1 (raw_lines d)) = m"
    "diag_lines (diagnostic_prefix nonce) (framed (diagnostic_prefix nonce) 1 (raw_lines d)) diag_start = Some st"
    using assms(1) by (auto simp: settled_frames_def)
  have "framed (diagnostic_prefix nonce) 1 (raw_lines out) = framed (diagnostic_prefix nonce) 1 (raw_lines d)"
    by (simp add: d(1) raw_lines_closed [OF d(2)] framed_append quiet_framed [OF assms(2)])
  with d(3,4) show "length (framed (diagnostic_prefix nonce) 1 (raw_lines out)) = m"
    "diag_lines (diagnostic_prefix nonce) (framed (diagnostic_prefix nonce) 1 (raw_lines out)) diag_start = Some st" by simp_all
qed

text \<open>Records printed after output whose lines are no records.\<close>

lemma settled_records:
  assumes "settled_frames nonce out noise st m" and "\<And>n. framed (diagnostic_prefix nonce) n (raw_lines (noise @ x)) = []"
    and "raw_lines (noise @ x @ t) = raw_lines (noise @ x) @ raw_lines t" and "t \<noteq> []" and "last t = 0x0A"
    and "framed (diagnostic_prefix nonce) (length (raw_lines (out @ x)) + 1) (raw_lines t) = rs"
    and "diag_lines (diagnostic_prefix nonce) rs st = Some st'"
  shows "settled_frames nonce (out @ x @ t) [] st' (m + length rs)"
proof -
  let ?pre = "diagnostic_prefix nonce"
  obtain d where d: "out = d @ noise" "d = [] \<or> last d = 0x0A" "length (framed ?pre 1 (raw_lines d)) = m"
    "diag_lines ?pre (framed ?pre 1 (raw_lines d)) diag_start = Some st"
    using assms(1) by (auto simp: settled_frames_def)
  have "raw_lines (out @ x @ t) = raw_lines d @ raw_lines (noise @ x) @ raw_lines t"
    unfolding d(1) append_assoc raw_lines_closed [OF d(2)] assms(3) ..
  moreover have "length (raw_lines (out @ x)) = length (raw_lines d) + length (raw_lines (noise @ x))"
    unfolding d(1) append_assoc raw_lines_closed [OF d(2)] by simp
  ultimately have f: "framed ?pre 1 (raw_lines (out @ x @ t)) = framed ?pre 1 (raw_lines d) @ rs"
    using assms(2,6) by (simp add: framed_append add.commute add.left_commute)
  then have "diag_lines ?pre (framed ?pre 1 (raw_lines (out @ x @ t))) diag_start = Some st'"
    using d(4) assms(7) by (simp add: diag_lines_append)
  moreover have "length (framed ?pre 1 (raw_lines (out @ x @ t))) = m + length rs" using f d(3) by simp
  moreover have "last (out @ x @ t) = 0x0A" using assms(4,5) by simp
  ultimately show ?thesis unfolding settled_frames_def by (intro exI [of _ "out @ x @ t"]) simp
qed

fun failures_of :: "diag_print list \<Rightarrow> prove_failure list" where
  "failures_of [] = []"
| "failures_of (Printed bs # evs) = failures_of evs"
| "failures_of (Failed c # evs) = failing_call c # failures_of evs"

text \<open>The backtraces and counts that the runtime delivers.\<close>

definition call_ok :: "failing_prove \<Rightarrow> bool" where
  "call_ok c \<longleftrightarrow>
     length (fc_slots c) \<le> 32 \<and> list_all slot_ok (fc_slots c) \<and> small (length (fc_steps c))
     \<and> (case fc_returned c of None \<Rightarrow> True
          | Some gs \<Rightarrow> small (length gs) \<and> list_all (\<lambda>g. small (length (pg_assumptions g))) gs)
     \<and> list_all (\<lambda>s. small (length (pg_assumptions s)) \<and> list_all slot_ok (ps_slots s)) (fc_steps c)"

lemma call_ok_failure: "call_ok c \<Longrightarrow> failure_ok (failing_call c)"
  by (auto simp: call_ok_def failure_ok_def failing_call_def small_def MAX_ACTIVITY_SEQUENCE_def split: option.splits list.splits)

text \<open>
  What is printed between frames has no line that a record could be mistaken for; \<open>k\<close> calls have failed so far, and
  \<open>noise\<close> was printed since.
\<close>

fun prints_ok :: "string \<Rightarrow> nat \<Rightarrow> bytes \<Rightarrow> diag_print list \<Rightarrow> bool" where
  "prints_ok nonce k noise [] \<longleftrightarrow> quiet_frames (diagnostic_prefix nonce) noise"
| "prints_ok nonce k noise (Printed bs # evs) \<longleftrightarrow> prints_ok nonce k (noise @ bs) evs"
| "prints_ok nonce k noise (Failed c # evs) \<longleftrightarrow>
     call_ok c \<and> quiet_frames (diagnostic_prefix nonce) noise
     \<and> prints_ok nonce (k + 1) (if k \<le> MAX_EVENTS then [] else noise) evs"

definition frames_match :: "string \<Rightarrow> diag_emitter \<Rightarrow> bool" where
  "frames_match nonce em \<longleftrightarrow>
     (\<exists>m. settled_frames nonce (dm_out em) (dm_noise em)
            \<lparr>ds_events = shown_failures (dm_frames em), ds_truncated = dm_cut em, ds_active = None\<rparr> m
        \<and> m \<le> 471 * length (dm_frames em) + (if dm_cut em then 1 else 0) \<and> (m = 0 \<longleftrightarrow> dm_frames em = []))
     \<and> length (dm_frames em) = min (dm_count em) MAX_EVENTS \<and> (dm_cut em \<longrightarrow> MAX_EVENTS < dm_count em)"

lemma frame_printed:
  assumes m: "frames_match nonce em" and n: "nonce_ok (asc nonce)" and q: "quiet_frames (diagnostic_prefix nonce) (dm_noise em)"
    and f: "failure_ok f" and c: "dm_count em < MAX_EVENTS"
  shows "frames_match nonce (emit_failure nonce f em)"
proof -
  let ?pre = "diagnostic_prefix nonce" and ?k = "dm_count em + 1" and ?fss = "begin_fields f # frame_fields f @ [[''END'']]"
  let ?st = "\<lparr>ds_events = shown_failures (dm_frames em), ds_truncated = dm_cut em, ds_active = None\<rparr>"
  let ?out = "dm_out em @ [0x0A] @ frame_text nonce ?k f" and ?n = "length (raw_lines (dm_out em @ [0x0A])) + 1"
  from m c obtain i where i: "settled_frames nonce (dm_out em) (dm_noise em) ?st i" "i \<le> 471 * length (dm_frames em)"
    "length (dm_frames em) = dm_count em" "\<not> dm_cut em" by (auto simp: frames_match_def)
  note t = frame_lines [where k = ?k, OF n plain_frame [OF f], folded frame_text_def]
  let ?rs = "enumerate ?n (map (diag_body nonce ?k) ?fss)"
  have end_line: "length (raw_lines ?out) = ?n + length (frame_fields f) + 1"
    using raw_lines_closed [of "dm_out em @ [0x0A]" "frame_text nonce ?k f"] t(1) by simp
  have "diag_lines ?pre ?rs ?st = Some (?st\<lparr>ds_events := shown_failures (dm_frames em) @ [shown_failure ?k f (?n + length (frame_fields f) + 1)]\<rparr>)"
    using frame_accounted [OF f, of ?st ?k] i(3,4) c by simp
  then have r: "diag_lines ?pre ?rs ?st = Some \<lparr>ds_events = shown_failures (dm_frames em @ [(f, length (raw_lines ?out))]),
      ds_truncated = dm_cut em, ds_active = None\<rparr>"
    unfolding end_line shown_failures_snoc i(3) by simp
  have "settled_frames nonce ?out [] \<lparr>ds_events = shown_failures (dm_frames em @ [(f, length (raw_lines ?out))]),
      ds_truncated = dm_cut em, ds_active = None\<rparr> (i + length ?rs)"
  proof (rule settled_records [OF i(1) _ _ _ _ _ r])
    show "framed ?pre n (raw_lines (dm_noise em @ [0x0A])) = []" for n
      using diagnostic_prefix_start [of nonce] by (intro quiet_framed_newline [OF q]) auto
    show "raw_lines (dm_noise em @ [0x0A] @ frame_text nonce ?k f) = raw_lines (dm_noise em @ [0x0A]) @ raw_lines (frame_text nonce ?k f)"
      using raw_lines_closed [of "dm_noise em @ [0x0A]" "frame_text nonce ?k f"] by simp
    show "frame_text nonce ?k f \<noteq> []" "last (frame_text nonce ?k f) = 0x0A"
      using last_diag_line [of nonce ?k "[''END'']"] by (simp_all add: frame_text_def)
    show "framed ?pre ?n (raw_lines (frame_text nonce ?k f)) = ?rs" unfolding t(1) by (rule t(2))
  qed
  moreover have "length ?rs \<le> 471" using frame_length [OF f] by simp
  ultimately show ?thesis using i(2-4) c unfolding frames_match_def emit_failure_def Let_def
    by (intro conjI exI [of _ "i + length ?rs"]) simp_all
qed

lemma marker_printed:
  assumes m: "frames_match nonce em" and n: "nonce_ok (asc nonce)" and q: "quiet_frames (diagnostic_prefix nonce) (dm_noise em)"
    and c: "dm_count em = MAX_EVENTS"
  shows "frames_match nonce (emit_failure nonce f em)"
proof -
  let ?pre = "diagnostic_prefix nonce" and ?t = "diag_line nonce (MAX_EVENTS + 1) [''TRUNCATED'']"
  let ?st = "\<lparr>ds_events = shown_failures (dm_frames em), ds_truncated = False, ds_active = None\<rparr>"
  from m c obtain i where i: "settled_frames nonce (dm_out em) (dm_noise em) ?st i" "i \<le> 471 * length (dm_frames em)"
    "length (dm_frames em) = MAX_EVENTS" "\<not> dm_cut em" "i \<noteq> 0" "dm_frames em \<noteq> []" by (auto simp: frames_match_def MAX_EVENTS_def)
  have p: "list_all plain [''TRUNCATED'']" by (simp add: plain_words)
  obtain x where x: "?pre = 0x5F # x" using diagnostic_prefix_start by blast
  show ?thesis
  proof (cases "at_line_start (dm_out em)")
    case True
    let ?n = "length (raw_lines (dm_out em @ [])) + 1"
    have "small (MAX_EVENTS + 1)" by (simp add: small_def MAX_EVENTS_def MAX_ACTIVITY_SEQUENCE_def)
    then have "diag_lines ?pre [(?n, diag_body nonce (MAX_EVENTS + 1) [''TRUNCATED''])] ?st = Some (?st\<lparr>ds_truncated := True\<rparr>)"
      using i(3) small_digits [of "MAX_EVENTS + 1"] by (simp add: diag_body_fields [OF p] diag_record_def)
    note step = settled_records [OF i(1) _ _ _ _ _ this, of "[]" ?t]
    have "raw_lines (dm_noise em @ ?t) = raw_lines (dm_noise em) @ raw_lines ?t"
    proof (rule raw_lines_at_start)
      show "at_line_start (dm_noise em)"
        using True i(1) by (cases "dm_noise em = []") (auto simp: at_line_start_def settled_frames_def last_append)
      show "?t \<noteq> []" "hd ?t \<noteq> 0x0A" using x by (simp_all add: diag_line_def)
    qed
    then have "settled_frames nonce (dm_out em @ ?t) [] (?st\<lparr>ds_truncated := True\<rparr>) (i + 1)"
      using step quiet_framed [OF q] diag_line_framed [OF n p] last_diag_line by (simp add: diag_line_is_line [OF n p])
    with i c True show ?thesis by (simp add: frames_match_def emit_failure_def Let_def) (rule exI [of _ "i + 1"], simp)
  next
    case False
    obtain d where d: "dm_out em = d @ dm_noise em" "d = [] \<or> last d = 0x0A" "length (framed ?pre 1 (raw_lines d)) = i"
      "diag_lines ?pre (framed ?pre 1 (raw_lines d)) diag_start = Some ?st"
      using i(1) by (auto simp: settled_frames_def)
    from False d(1,2) have "dm_noise em \<noteq> []" by (auto simp: at_line_start_def byte_line_end_def)
    with False d(1) have g: "dm_noise em \<noteq> []" "\<not> byte_line_end (last (dm_noise em))"
      by (simp_all add: at_line_start_def)
    have "framed ?pre k (raw_lines (dm_noise em @ ?t)) = []" for k
      unfolding diag_line_body using diag_body_no_newline [OF n p] by (intro quiet_glued [OF q g]) blast
    then have f: "framed ?pre 1 (raw_lines (dm_out em @ ?t)) = framed ?pre 1 (raw_lines d)"
      by (simp add: d(1) raw_lines_closed [OF d(2)] framed_append)
    have "settled_frames nonce (dm_out em @ ?t) [] ?st i"
      unfolding settled_frames_def using d(3,4) last_diag_line f by (intro exI [of _ "dm_out em @ ?t"]) simp
    with i c False show ?thesis by (simp add: frames_match_def emit_failure_def Let_def) (rule exI [of _ i], simp)
  qed
qed

lemma output_printed:
  "frames_match nonce em \<Longrightarrow> frames_match nonce (em\<lparr>dm_out := dm_out em @ bs, dm_noise := dm_noise em @ bs\<rparr>)"
  unfolding frames_match_def
  by (elim conjE exE, intro conjI exI) (simp_all add: settled_output)

lemma failure_matched:
  assumes "frames_match nonce em" and "nonce_ok (asc nonce)" and "quiet_frames (diagnostic_prefix nonce) (dm_noise em)" and "failure_ok f"
  shows "frames_match nonce (emit_failure nonce f em)"
proof -
  consider "dm_count em < MAX_EVENTS" | "dm_count em = MAX_EVENTS" | "MAX_EVENTS < dm_count em" by linarith
  then show ?thesis
    by cases (use frame_printed [OF assms] marker_printed [OF assms(1-3)] assms(1) in \<open>simp_all add: emit_failure_def\<close>)
qed

lemma prints_match:
  assumes "frames_match nonce em" and "nonce_ok (asc nonce)" and "prints_ok nonce k (dm_noise em) evs"
    and "dm_count em = min k (MAX_EVENTS + 1)"
  shows "frames_match nonce (foldl (emit_print nonce) em evs)
    \<and> quiet_frames (diagnostic_prefix nonce) (dm_noise (foldl (emit_print nonce) em evs))"
  using assms(1,3,4)
proof (induction evs arbitrary: em k)
  case (Cons ev evs)
  show ?case
  proof (cases ev)
    case (Printed bs)
    with Cons.prems Cons.IH [of "emit_print nonce em ev" k] show ?thesis by (simp add: emit_print_def output_printed)
  next
    case (Failed c)
    with Cons.prems(2) have c: "failure_ok (failing_call c)" "quiet_frames (diagnostic_prefix nonce) (dm_noise em)"
      "prints_ok nonce (k + 1) (if k \<le> MAX_EVENTS then [] else dm_noise em) evs" by (simp_all add: call_ok_failure)
    let ?em = "emit_failure nonce (failing_call c) em"
    have "dm_noise ?em = (if k \<le> MAX_EVENTS then [] else dm_noise em)" "dm_count ?em = min (k + 1) (MAX_EVENTS + 1)"
      using Cons.prems(3) by (auto simp: emit_failure_def Let_def)
    with c(3) Cons.IH [OF failure_matched [OF Cons.prems(1) assms(2) c(2,1)], of "k + 1"] Failed
    show ?thesis by (simp add: emit_print_def)
  qed
qed simp

lemma printed_failures:
  "map fst (dm_frames em) = take MAX_EVENTS fs \<Longrightarrow> dm_count em = min (length fs) (MAX_EVENTS + 1) \<Longrightarrow>
     map fst (dm_frames (foldl (emit_print nonce) em evs)) = take MAX_EVENTS (fs @ failures_of evs)"
proof (induction evs arbitrary: em fs rule: failures_of.induct)
  case (3 c evs)
  let ?f = "failing_call c" and ?em = "emit_failure nonce (failing_call c) em"
  have "map fst (dm_frames ?em) = take MAX_EVENTS (fs @ [?f])" "dm_count ?em = min (length (fs @ [?f])) (MAX_EVENTS + 1)"
    using "3.prems" by (auto simp: emit_failure_def Let_def)
  from "3.IH" [OF this] show ?case by (simp add: emit_print_def)
qed (simp_all add: emit_print_def)

lemma start_matches: "frames_match nonce diag_emitter_start"
  by (simp add: frames_match_def diag_emitter_start_def settled_frames_def framed_def diag_start_def shown_failures_def)

section \<open>The accounting\<close>

definition diagnostic_contract :: "pyrt \<Rightarrow> string \<Rightarrow> dict \<Rightarrow> bool" where
  "diagnostic_contract R nonce contract \<longleftrightarrow>
     contract_nonce R contract = nonce \<and> nonce_ok (asc nonce)
     \<and> (case dget contract ''proof_diagnostics'' of J_obj d \<Rightarrow> dget d ''nonce'' = J_str nonce | _ \<Rightarrow> False)"

lemma account_frames:
  assumes "diagnostic_contract R nonce contract"
  shows "account_proof_diagnostics E R t contract =
    (let rs = framed (diagnostic_prefix nonce) 1 (raw_lines t)
     in if rs = [] then empty_diagnostics D_none
        else if max_diagnostic_lines < length rs then empty_diagnostics D_malformed
        else case diag_lines (diagnostic_prefix nonce) rs diag_start of
               None \<Rightarrow> empty_diagnostics D_malformed
             | Some st \<Rightarrow>
                 if ds_active st \<noteq> None then empty_diagnostics D_incomplete
                 else \<lparr>dd_status = D_recorded,
                        dd_events = map (\<lambda>ev. ev\<lparr>de_following := following_exception_line E (byte_lines t) ev\<rparr>) (ds_events st),
                        dd_truncated = Some (ds_truncated st)\<rparr>)"
proof -
  from assms obtain d where d: "dget contract ''proof_diagnostics'' = J_obj d" "dget d ''nonce'' = J_str nonce"
    by (auto simp: diagnostic_contract_def split: json.splits)
  with assms show ?thesis
    by (simp add: account_proof_diagnostics_def diagnostic_contract_def Let_def prefixed_lines_framed del: enumerate_simps)
qed

lemma prints_accounted:
  assumes "diagnostic_contract R nonce contract" and "frames_match nonce em" and "quiet_frames (diagnostic_prefix nonce) (dm_noise em)"
  shows "account_proof_diagnostics E R (dm_out em) contract =
    (if dm_frames em = [] then empty_diagnostics D_none
     else \<lparr>dd_status = D_recorded,
            dd_events = map (\<lambda>ev. ev\<lparr>de_following := following_exception_line E (byte_lines (dm_out em)) ev\<rparr>) (shown_failures (dm_frames em)),
            dd_truncated = Some (dm_cut em)\<rparr>)"
proof -
  let ?rs = "framed (diagnostic_prefix nonce) 1 (raw_lines (dm_out em))"
  from assms(2) obtain m where m: "settled_frames nonce (dm_out em) (dm_noise em)
      \<lparr>ds_events = shown_failures (dm_frames em), ds_truncated = dm_cut em, ds_active = None\<rparr> m"
    "m \<le> 471 * length (dm_frames em) + 1" "m = 0 \<longleftrightarrow> dm_frames em = []" "length (dm_frames em) \<le> MAX_EVENTS"
    by (auto simp: frames_match_def split: if_splits)
  note r = settled_frames_read [OF m(1) assms(3)]
  have "?rs = [] \<longleftrightarrow> dm_frames em = []" using r(1) m(3) by (metis length_0_conv)
  moreover have "length ?rs \<le> max_diagnostic_lines"
    unfolding r(1) using m(2,4) by (simp add: max_diagnostic_lines_def diagnostic_bounds)
  ultimately show ?thesis unfolding account_frames [OF assms(1)] Let_def r(2) by simp
qed

lemma emitted_failures:
  assumes "diagnostic_contract R nonce contract" and "prints_ok nonce 0 [] evs"
  shows "account_proof_diagnostics E R (dm_out (emit_failures nonce evs)) contract =
    (if failures_of evs = [] then empty_diagnostics D_none
     else \<lparr>dd_status = D_recorded,
            dd_events = map (\<lambda>ev. ev\<lparr>de_following := following_exception_line E (byte_lines (dm_out (emit_failures nonce evs))) ev\<rparr>)
              (shown_failures (dm_frames (emit_failures nonce evs))),
            dd_truncated = Some (dm_cut (emit_failures nonce evs))\<rparr>)"
    and "map fst (dm_frames (emit_failures nonce evs)) = take MAX_EVENTS (failures_of evs)"
proof -
  have n: "nonce_ok (asc nonce)" using assms(1) by (simp add: diagnostic_contract_def)
  show f: "map fst (dm_frames (emit_failures nonce evs)) = take MAX_EVENTS (failures_of evs)"
    using printed_failures [of diag_emitter_start "[]" nonce evs] by (simp add: emit_failures_def diag_emitter_start_def)
  then have "dm_frames (emit_failures nonce evs) = [] \<longleftrightarrow> failures_of evs = []" by (auto simp: MAX_EVENTS_def dest: arg_cong [of _ _ length])
  moreover have "prints_ok nonce 0 (dm_noise diag_emitter_start) evs" "dm_count diag_emitter_start = min 0 (MAX_EVENTS + 1)"
    using assms(2) by (simp_all add: diag_emitter_start_def)
  note prints_match [OF start_matches n this] prints_accounted [OF assms(1)]
  ultimately
  show "account_proof_diagnostics E R (dm_out (emit_failures nonce evs)) contract =
    (if failures_of evs = [] then empty_diagnostics D_none
     else \<lparr>dd_status = D_recorded,
            dd_events = map (\<lambda>ev. ev\<lparr>de_following := following_exception_line E (byte_lines (dm_out (emit_failures nonce evs))) ev\<rparr>)
              (shown_failures (dm_frames (emit_failures nonce evs))),
            dd_truncated = Some (dm_cut (emit_failures nonce evs))\<rparr>)"
    by (simp add: emit_failures_def)
qed

end
