(* ===== verification/Failed_Binding.thy ===== *)
theory Failed_Binding
  imports Proof_Diagnostics
begin

text \<open>
  When a failed run is attributed to a binding: the last recorded failure of \<open>prove\<close> must be the one that ended the
  run, because only blank lines and one timing report stand between its frame and the exception that it raised.
\<close>

section \<open>The lines after a frame\<close>

definition blank_line :: "bytes list \<Rightarrow> nat \<Rightarrow> bool" where
  "blank_line ls i \<longleftrightarrow> byte_strip (ls ! i) = []"

definition line_text :: "bytes list \<Rightarrow> nat \<Rightarrow> ucs" where
  "line_text ls i = utf8_replace (byte_strip (ls ! i))"

text \<open>The line \<open>i\<close> renders the exception: alone, with the lines that continue it, or shortened by the toplevel.\<close>

definition renders_exception :: "scanenv \<Rightarrow> bytes list \<Rightarrow> ucs option \<Rightarrow> (ucs \<times> ucs \<times> bool) option \<Rightarrow> nat \<Rightarrow> bool" where
  "renders_exception E ls expected body i \<longleftrightarrow>
     expected = Some (strip (remove_prompt (line_text ls i)))
     \<or> (\<exists>joined. toplevel_exception_block E ls i = Some (i + 1, joined)
          \<and> (expected = Some joined \<or> (\<exists>b\<in>set_option body. shown_prefix E joined b)))"

text \<open>The lines from \<open>a\<close> to before \<open>i\<close> are blank, but for at most one timing report of the same exception.\<close>

definition quiet_gap :: "bytes list \<Rightarrow> ucs \<Rightarrow> bool \<Rightarrow> nat \<Rightarrow> nat \<Rightarrow> bool" where
  "quiet_gap ls error timed a i \<longleftrightarrow>
     (\<forall>j\<in>{a..<i}. blank_line ls j \<or> timing_report (line_text ls j) error)
     \<and> (\<forall>j\<in>{a..<i}. \<not> blank_line ls j \<longrightarrow> \<not> timed \<and> (\<forall>k\<in>{a..<i}. k \<noteq> j \<longrightarrow> blank_line ls k))"

lemma block_line: "toplevel_exception_block E ls i = Some (n, joined) \<Longrightarrow> n = i + 1"
  by (auto simp: toplevel_exception_block_def Let_def split: if_splits)

lemma quiet_gap_blank: "quiet_gap ls error timed (Suc a) i \<Longrightarrow> blank_line ls a \<Longrightarrow> quiet_gap ls error timed a i"
  unfolding quiet_gap_def by (metis Suc_leI atLeastLessThan_iff le_neq_implies_less)

lemma quiet_gap_timed:
  "quiet_gap ls error True (Suc a) i \<Longrightarrow> timing_report (line_text ls a) error \<Longrightarrow> quiet_gap ls error False a i"
  unfolding quiet_gap_def by (metis Suc_leI atLeastLessThan_iff le_neq_implies_less)

lemma following_lines_sound:
  assumes "following_lines E ls error expected body timed [a..<c] = Some n"
  shows "a < n \<and> n \<le> c \<and> renders_exception E ls expected body (n - 1) \<and> quiet_gap ls error timed a (n - 1)"
  using assms
proof (induction "c - a" arbitrary: a timed)
  case (Suc d)
  then have up: "[a..<c] = a # [Suc a..<c]" and d: "d = c - Suc a" and ac: "a < c" by (auto simp: upt_rec)
  have here: ?case if "n = a + 1" "renders_exception E ls expected body a"
    using that ac by (simp add: quiet_gap_def)
  have later: "a < n \<and> n \<le> c \<and> renders_exception E ls expected body (n - 1) \<and> quiet_gap ls error timed' (Suc a) (n - 1)"
    if "following_lines E ls error expected body timed' [Suc a..<c] = Some n" for timed'
    using Suc.hyps(1) [OF d that] by auto
  show ?case
  proof (cases "blank_line ls a")
    case True
    with Suc.prems up have "following_lines E ls error expected body timed [Suc a..<c] = Some n"
      by (simp add: blank_line_def)
    from later [OF this] quiet_gap_blank [OF _ True] show ?thesis by blast
  next
    case False
    show ?thesis
    proof (cases "expected = Some (strip (remove_prompt (line_text ls a)))")
      case True
      with Suc.prems up False have "n = a + 1" by (simp add: blank_line_def line_text_def)
      with True here show ?thesis by (simp add: renders_exception_def)
    next
      case other: False
      show ?thesis
      proof (cases "toplevel_exception_block E ls a")
        case None
        with Suc.prems up False other have t: "\<not> timed" "timing_report (line_text ls a) error"
          "following_lines E ls error expected body True [Suc a..<c] = Some n"
          by (auto simp: blank_line_def line_text_def Let_def split: if_splits)
        from later [OF t(3)] quiet_gap_timed [OF _ t(2)] t(1) show ?thesis by auto
      next
        case (Some b)
        obtain l joined where b: "b = (l, joined)" by (cases b)
        with Some have l: "l = a + 1" using block_line by blast
        from Suc.prems up False other Some b have
          "(expected = Some joined \<or> (\<exists>x\<in>set_option body. shown_prefix E joined x)) \<and> n = l"
          by (auto simp: blank_line_def line_text_def Let_def split: if_splits)
        with Some b l here show ?thesis by (auto simp: renders_exception_def)
      qed
    qed
  qed
qed simp

lemma following_exception_sound:
  assumes "following_exception_line E ls ev = Some n"
  obtains expected body where "expected_rendering (de_exception ev) = Some (expected, body)"
    "de_end ev < n" "n \<le> de_end ev + 9" "n \<le> length ls"
    "renders_exception E ls expected body (n - 1)" "quiet_gap ls (de_exception ev) False (de_end ev) (n - 1)"
proof -
  from assms obtain expected body where x: "expected_rendering (de_exception ev) = Some (expected, body)"
    "following_lines E ls (de_exception ev) expected body False
       [de_end ev..<min (length ls) (de_end ev + MAX_EXCEPTION_GAP_LINES + 1)] = Some n"
    by (auto simp: following_exception_line_def split: option.splits)
  from following_lines_sound [OF x(2)] x(1) that show thesis by (simp add: MAX_EXCEPTION_GAP_LINES_def)
qed

section \<open>The attribution\<close>

lemma recorded_frames:
  assumes "dd_status (account_proof_diagnostics E R t contract) = D_recorded"
  shows "\<exists>st. diag_lines (diagnostic_prefix (contract_nonce R contract))
        (prefixed_lines (diagnostic_prefix (contract_nonce R contract)) (byte_lines t)) diag_start = Some st
    \<and> ds_active st = None
    \<and> account_proof_diagnostics E R t contract = \<lparr>dd_status = D_recorded,
        dd_events = map (\<lambda>ev. ev\<lparr>de_following := following_exception_line E (byte_lines t) ev\<rparr>) (ds_events st),
        dd_truncated = Some (ds_truncated st)\<rparr>"
proof -
  let ?pre = "diagnostic_prefix (contract_nonce R contract)"
  let ?rs = "prefixed_lines ?pre (byte_lines t)"
  obtain d where d: "dget contract ''proof_diagnostics'' = J_obj d"
    using assms by (auto simp: account_proof_diagnostics_def empty_diagnostics_def split: json.splits)
  have c: "nonce_ok (asc (contract_nonce R contract)) \<and> dget d ''nonce'' = J_str (contract_nonce R contract)
      \<and> ?rs \<noteq> [] \<and> length ?rs \<le> max_diagnostic_lines"
    using assms by (auto simp: account_proof_diagnostics_def empty_diagnostics_def Let_def d split: if_splits)
  obtain st where st: "diag_lines ?pre ?rs diag_start = Some st"
    using assms c by (cases "diag_lines ?pre ?rs diag_start")
      (auto simp: account_proof_diagnostics_def empty_diagnostics_def Let_def d split: if_splits)
  have "ds_active st = None"
    using assms c st by (auto simp: account_proof_diagnostics_def empty_diagnostics_def Let_def d split: if_splits)
  with c st d show ?thesis by (simp add: account_proof_diagnostics_def Let_def)
qed

text \<open>C26: A failed run is attributed to a binding only when its last recorded failure of \<open>prove\<close> is the one that ended
  it.  In any transcript, a binding identified for the failure at a line is the only candidate at the recorded call
  sites of the last failure; that line is at most nine lines after its frame and renders the exception of the frame;
  and the lines between are blank, but for at most one timing report of the same exception.\<close>

theorem failed_binding_raised_the_exception:
  assumes b: "identify_failed_binding resolve (account_proof_diagnostics E R t contract) contract claims (Some n) = Some b"
  shows "\<exists>ev expected body d srcs. dd_events (account_proof_diagnostics E R t contract) \<noteq> []
    \<and> ev = last (dd_events (account_proof_diagnostics E R t contract))
    \<and> dd_truncated (account_proof_diagnostics E R t contract) = Some False
    \<and> de_end ev < n \<and> n \<le> de_end ev + 9 \<and> n \<le> length (byte_lines t)
    \<and> expected_rendering (de_exception ev) = Some (expected, body)
    \<and> renders_exception E (byte_lines t) expected body (n - 1)
    \<and> quiet_gap (byte_lines t) (de_exception ev) False (de_end ev) (n - 1)
    \<and> dget contract ''proof_diagnostics'' = J_obj d \<and> binding_sources d claims False = Some srcs
    \<and> (\<forall>b'. (\<exists>loc\<in>set (de_locations ev). binding_hit resolve srcs loc b') \<longleftrightarrow> b' = b)"
proof -
  let ?doc = "account_proof_diagnostics E R t contract"
  let ?ev = "last (dd_events ?doc)"
  from b have i: "dd_status ?doc = D_recorded" "dd_truncated ?doc \<noteq> Some True" "dd_events ?doc \<noteq> []"
    "de_following ?ev = Some n" "binding_at_locations resolve (de_locations ?ev) contract claims False = Some b"
    by (auto simp: identify_failed_binding_def event_at_failure_def Let_def split: if_splits)
  from recorded_frames [OF i(1)] obtain st :: diag_state where st: "?doc = \<lparr>dd_status = D_recorded,
      dd_events = map (\<lambda>ev. ev\<lparr>de_following := following_exception_line E (byte_lines t) ev\<rparr>) (ds_events st),
      dd_truncated = Some (ds_truncated st)\<rparr>" by blast
  have tr: "dd_truncated ?doc = Some False" using st i(2) by auto
  from st i(3) have ne: "ds_events st \<noteq> []" by simp
  define ev where "ev = last (ds_events st)"
  have ev: "?ev = ev\<lparr>de_following := following_exception_line E (byte_lines t) ev\<rparr>"
    using ne by (simp add: st ev_def last_map)
  then have f: "following_exception_line E (byte_lines t) ev = Some n" using i(4) by simp
  from following_exception_sound [OF f] obtain expected body where x: "expected_rendering (de_exception ev) = Some (expected, body)"
    "de_end ev < n" "n \<le> de_end ev + 9" "n \<le> length (byte_lines t)"
    "renders_exception E (byte_lines t) expected body (n - 1)" "quiet_gap (byte_lines t) (de_exception ev) False (de_end ev) (n - 1)" .
  from binding_at_locations_unique [OF i(5)] obtain d srcs where
    "dget contract ''proof_diagnostics'' = J_obj d" "binding_sources d claims False = Some srcs"
    "\<forall>b'. (\<exists>loc\<in>set (de_locations ?ev). binding_hit resolve srcs loc b') \<longleftrightarrow> b' = b" .
  with x i(3) tr show ?thesis by (intro exI [of _ ?ev] exI [of _ expected] exI [of _ body] exI [of _ d] exI [of _ srcs])
    (simp add: ev)
qed

section \<open>A run\<close>

definition failed_env :: scanenv where
  "failed_env = \<lparr>py_category = (\<lambda>c. if ascii_digit c then ''Nd'' else ''Ll''), py_isdigit = ascii_digit,
     py_isupper = (\<lambda>c. 65 \<le> c \<and> c \<le> 90), py_sha256 = (\<lambda>_. ''00''), py_isalnum = ascii_alnum\<rparr>"

definition frame_line :: "string \<Rightarrow> bytes" where
  "frame_line body = diagnostic_prefix run_nonce @ basc body @ [0x0A]"

definition failed_transcript :: bytes where
  "failed_transcript = frame_line ''1:BEGIN:tactic_input:1:1:74:45'' @ frame_line ''1:GOAL:0:0:74''
     @ frame_line ''1:LOCATION:2f61:4c:9'' @ frame_line ''1:END'' @ basc ''Exception: E.'' @ [0x0A]"

lemma failed_identified:
  "identify_failed_binding Some (account_proof_diagnostics failed_env run_rt failed_transcript run_contract)
    run_contract run_claims (Some 5) = Some (asc ''L'', ''b.ml'', 5)"
  by code_simp

theorem failed_binding_raised_the_exception_witness:
  "\<exists>ev. ev = last (dd_events (account_proof_diagnostics failed_env run_rt failed_transcript run_contract))
    \<and> de_end ev < 5 \<and> quiet_gap (byte_lines failed_transcript) (de_exception ev) False (de_end ev) 4"
  using failed_binding_raised_the_exception [OF failed_identified] by auto

end
