(* ===== verification/Diagnostic_Props.thy ===== *)
theory Diagnostic_Props
  imports Diagnostic_Reading Failed_Binding
begin

text \<open>The round trip of the frames of failing calls, at a run that fails twice.\<close>

text \<open>C27: The accounting reads back the failures that the prelude printed.  If the program's own output has no line that
  a record could be mistaken for, then the accounting of everything printed reports no diagnostics when no call of
  \<open>prove\<close> failed, and otherwise one event for each of the first eight failing calls, in order: the kind, the statement,
  the exception, up to eight goals and twelve steps with their assumptions and call sites, each text cut at its bound;
  the line on which the frame ends; and whether the marker of later failures was printed at the start of a line.\<close>

theorem failures_are_read_back:
  assumes "diagnostic_contract R nonce contract" and "prints_ok nonce 0 [] evs"
  shows "account_proof_diagnostics E R (dm_out (emit_failures nonce evs)) contract =
      (if failures_of evs = [] then empty_diagnostics D_none
       else \<lparr>dd_status = D_recorded,
              dd_events = map (\<lambda>ev. ev\<lparr>de_following := following_exception_line E (byte_lines (dm_out (emit_failures nonce evs))) ev\<rparr>)
                (shown_failures (dm_frames (emit_failures nonce evs))),
              dd_truncated = Some (dm_cut (emit_failures nonce evs))\<rparr>)
    \<and> map fst (dm_frames (emit_failures nonce evs)) = take MAX_EVENTS (failures_of evs)"
  using emitted_failures [OF assms] by simp

definition failing_twice :: "diag_print list" where
  "failing_twice =
     [Printed (basc ''val it : int = 1''),
      Failed \<lparr>fc_statement = basc ''p ==> q'', fc_error = basc ''Failure(\"no\")'',
        fc_returned = Some [\<lparr>pg_assumptions = [(basc ''0'', basc ''p'')], pg_conclusion = basc ''q''\<rparr>],
        fc_slots = [None, Some (basc ''/a'', Some (basc ''L''), 9)], fc_steps = []\<rparr>,
      Printed [0x0D], Printed (basc ''caught''),
      Failed \<lparr>fc_statement = basc ''t'', fc_error = basc ''E'', fc_returned = None, fc_slots = [Some (basc ''/a'', None, 12)],
        fc_steps = [\<lparr>pg_assumptions = [], pg_conclusion = basc ''u'', ps_error = basc ''E'', ps_slots = []\<rparr>]\<rparr>,
      Printed (basc ''Exception: E.'' @ [0x0A])]"

lemma failing_twice_ok: "diagnostic_contract run_rt run_nonce run_contract" "prints_ok run_nonce 0 [] failing_twice"
  by code_simp+

theorem failures_are_read_back_witness:
  "dd_status (account_proof_diagnostics failed_env run_rt (dm_out (emit_failures run_nonce failing_twice)) run_contract) = D_recorded
    \<and> map fst (dm_frames (emit_failures run_nonce failing_twice)) = failures_of failing_twice
    \<and> length (dd_events (account_proof_diagnostics failed_env run_rt (dm_out (emit_failures run_nonce failing_twice)) run_contract)) = 2"
proof -
  have f: "length (failures_of failing_twice) = 2" by (simp add: failing_twice_def)
  note r = failures_are_read_back [OF failing_twice_ok, of failed_env]
  from r f have m: "map fst (dm_frames (emit_failures run_nonce failing_twice)) = failures_of failing_twice" by (simp add: MAX_EVENTS_def)
  then have "length (dm_frames (emit_failures run_nonce failing_twice)) = 2" using f by (metis length_map)
  with r f m show ?thesis by auto
qed

end
