(* ===== verification/Spec2Isabelle.thy ===== *)
theory Spec2Isabelle
  imports Loader_Phrases Ocaml_Literal Pool_Reclaim Pool_Service Theorem_Scan_Props Statement_Normal Source_Needs_Props
    Source_Inputs Owned_Processes_Props Broker_Attempts_Props Broker_Frames Process_Table_Props
    Claim_Witness Claim_Pipeline Restored_Tree_Props Shelf_Admission_Props Hot_Session_Props
    Diagnostic_Props
begin

text \<open>
  Verification development of hol-hearth, a workbench that runs HOL Light proofs in warm, checkpointed HOL
  processes.  File names below are relative to \<open>src/hol-workbench/hol_workbench/\<close>.

  \<^bold>\<open>The program.\<close>  A submitted HOL source is scanned for the files it loads and the theorems it states
  (\<open>proofs/\<close>).  It is then run in a seat of a pool of warm processes; a lease names the seat and its owner
  (\<open>pools/\<close>, \<open>hot_profile_session.py\<close>).  A fork broker evaluates it in child processes, whose groups must be
  observed gone before they are forgotten (\<open>proof_run_fork_broker.py\<close>, \<open>proof_run_fork_broker_children.py\<close>,
  \<open>process_groups.py\<close>, \<open>processes.py\<close>), and talks to its client in frames (\<open>fork_broker_protocol.py\<close>).  Phrases
  appended to the source print one nonce-bound marker for each theorem; the transcript is accounted against these
  markers, and only they are evidence (\<open>vanilla_claims.py\<close>, \<open>foundation_delta.py\<close>,
  \<open>cli/orbstack_criu_vanilla_semantics.py\<close>).

  \<^bold>\<open>Values.\<close>  \<open>Prelude\<close>, \<open>Utf8\<close> and \<open>Json\<close> hold the values of Python: \<open>str\<close> as a list of code points (\<open>ucs\<close>),
  \<open>bytes\<close> as 8-bit words, JSON-like dictionaries as ordered association lists, exceptions as the left side of
  a sum.  The strict and the replacing UTF-8 decoder are defined; Unicode categories and SHA-256 are fields of
  the parameter record \<open>pyenv\<close> (\<open>scanenv\<close> adds \<open>str.isalnum\<close>).

  \<^bold>\<open>Sources.\<close>  \<open>Lexer_Types\<close>, \<open>Lexer_Literals\<close>, \<open>Lexer\<close> and \<open>Tokenizer\<close> are the lexer of
  \<open>proofs/loader_scan.py\<close>, \<open>Loader_Calls\<close> and \<open>Loader_Scan\<close> its classification of loader calls and the public
  scanners, \<open>Loader_Phrases\<close> the \<open>prove\<close> binding scanner.  \<open>Loader_Properties\<close> shows
  that the tokens of an accepted source are ordered and nested, that no supported loader escapes
  classification, and which references to modules that execute files are reported.  \<open>Ocaml_Literal\<close> (\<open>fork_child_ocaml.py\<close>) is the literal emitter with its round trip through that
  lexer.  \<open>Source_Mask\<close>, \<open>Source_Needs\<close> and \<open>Source_Inputs\<close> are \<open>proofs/source.py\<close>; \<open>Theorem_Scan\<close> is
  \<open>proofs/theorem_scan.py\<close>; their \<open>_Props\<close> theories and \<open>Statement_Normal\<close> show that masking leaves no
  delimiter behind, that an extracted claim is the exact quotation at its lines, and that the walk over needed
  files is bounded and stays in its roots.

  \<^bold>\<open>Pools.\<close>  \<open>Pool_Basis\<close> (\<open>pools/basis.py\<close>, \<open>pools/status.py\<close>, the capacity rules of \<open>criu_snapshot_compat.py\<close>),
  \<open>Pool_Leases\<close> (\<open>pools/leases.py\<close>) and \<open>Pool_Seats\<close> (\<open>pools/seat_lifecycle.py\<close>) are the operations on a pool
  document; \<open>Pool_Machine\<close> is their interleaving under the pool lock as the step relation \<open>pool_step\<close> with its
  invariants; \<open>Pool_Contract\<close>, \<open>Pool_Finalize\<close> and \<open>Pool_Reclaim\<close> give the result of checkout, finalization and
  reclamation, the deferred finalization of a pool whose lifecycle owns its seats included; \<open>Pool_Service\<close> states the lease interface as the locale \<open>lease_service\<close>, proves once that no client
  closes a lease twice, and interprets it on the modelled pool.

  \<^bold>\<open>Admission.\<close>  \<open>Shelf_Admission\<close> is the admission of restore routes to the slots of a shelf
  (\<open>criu_shelf_admission.py\<close> with the records of \<open>criu_shelf_demand.py\<close> and \<open>criu_shelf_owner.py\<close>): each
  participant holds the lock files its program has taken, and the steps of any number of participants, one lock
  call or one record at a time, interleave with kills, interrupts and exclusive closures.  \<open>Shelf_Admission_Inv\<close>
  has the invariants by rule induction, \<open>Shelf_Admission_Props\<close> that an admitted route alone holds its slot, that
  its owner record is stored while it is admitted, that whoever leaves holds no lock, and which records can be left
  behind by an exception in front of a \<open>try\<close> statement or out of a \<open>finally\<close> block (\<open>interrupted_entry_keeps_demand\<close>).
  \<open>exclusion_misses_expanded_slot\<close> is a run in which an exclusive closure overlooks a slot of an expanded shelf.

  \<^bold>\<open>Bootstrap run.\<close>  \<open>Hot_Session\<close> is the run of one source in a leased seat (\<open>hot_profile_session.py\<close>, the signal
  guard of \<open>proof_run_warm_pool_interrupt.py\<close> and the response of \<open>proof_run_fork_broker_probe.py\<close>), with a signal
  possible before and after every call it makes, on entering the \<open>try\<close> block and between its end and the \<open>try\<close>
  statement of \<open>_defer_interrupts\<close>, and every call able to fail.  \<open>Attempt_Cleanup\<close> is the wait for an interrupted attempt
  (\<open>pools/fork_attempt_lifecycle.py\<close>), a bounded poll of the broker's registry, which \<open>cleanup_wait_returns\<close> shows
  to end when the clock advances.  \<open>Hot_Session_Props\<close> shows that a stored checkout is finalized once unless its
  clean-up is skipped, which \<open>signal_before_deferral_leaks_lease\<close> shows to happen, that a seat is handed back as reusable only on evidence, and that a run hit by a signal raises.

  \<^bold>\<open>Processes.\<close>  \<open>Process_World\<close> is what a program can see of the operating system: a history of snapshots
  indexed by the number of observations made, of which nothing is assumed but what a lemma names.  \<open>Polling\<close> is the
  deadline loop with its proof rule, \<open>Process_Evidence\<close> the locale \<open>terminator\<close> of every routine that stops a group.
  \<open>Process_Groups\<close> and \<open>Owned_Processes\<close> are \<open>process_groups.py\<close>, \<open>Process_Table\<close> is \<open>processes.py\<close>, \<open>Child_Registry\<close>,
  \<open>Broker_Children\<close> and \<open>Broker_Attempts\<close> are the broker's side of a fork, and \<open>Restored_Tree\<close> is
  \<open>criu_restore_transaction.py\<close>, which captures, validates, continues and stops the processes of a CRIU restore.  The \<open>_Props\<close> theories show that
  signals go only to verified groups, that \<open>quiescent\<close> is an observation, that no child is dropped before it, what a cleanup stopped that an ownership
  file broke off (\<open>failed_unlink_abandons_processes\<close>), and that termination returns when the clock advances.  \<open>Broker_Frames\<close> is the frame codec with its round trip under
  any chunking.

  \<^bold>\<open>Evidence.\<close>  \<open>Claim_Probe\<close>, \<open>Claim_Accounting\<close> and \<open>Claim_Semantics\<close> build the probe, account a transcript
  and reach the verdict.  \<open>Claim_Accounting_Props\<close> shows that markers are distinct, that each claim is credited
  exactly by its own marker and that exit status 0 needs every marker; \<open>Foundation_Props\<close> reads the marker of the axiom
  counts back and shows what the advisory rests on, and \<open>Claim_Pipeline\<close> that every claim extracted from a source is accepted by the probe builder.
  \<open>Claim_Witness\<close> applies them to one probe.

  \<^bold>\<open>Activity.\<close>  \<open>Proof_Activity\<close> has both sides of the activity records of \<open>proof_diagnostics.py\<close>: the OCaml functions
  of the prelude that print a record when a call of \<open>prove\<close> is entered and left, and the accounting of a transcript.
  \<open>Activity_Text\<close> and \<open>Activity_Records\<close> hold the lemmas on lines, fields and single records, \<open>Activity_Reading\<close> the
  simulation of the emitter by its reader and the case of a transcript cut off at any byte, \<open>Proof_Activity_Props\<close>
  the invariant of the accounting of arbitrary bytes.  \<open>Running_Binding\<close> attributes the innermost active call to a
  binding of a captured source; \<open>torn_marker_is_overlooked\<close> is a transcript cut off inside the prefix of a record,
  which is not reported as incomplete.  \<open>Proof_Diagnostics\<close> has the frames printed for failing calls, their accounting
  and the search for the exception after a frame, whose regular expressions are written out as functions;
  \<open>Failed_Binding\<close> shows what must stand in the transcript for a failed run to be attributed to a binding.
  \<open>Diagnostic_Emitter\<close> has the OCaml function that prints the frame of a failing call, and \<open>Diagnostic_Reading\<close> and
  \<open>Diagnostic_Props\<close> show that the accounting reads back the first eight frames among any other output; the tacticals
  that record the steps of a proof are not modelled, their records are an input of the emitter.

  \<^bold>\<open>Bounds and fuel.\<close>  The loops over texts recurse on the remaining length, the loops over tables and
  registries on the list.  Some loops may run on: \<open>poll\<close>, which waits for a deadline, is a partial
  function whose value is \<open>None\<close> when the clock never reaches it, and \<open>termination_returns\<close> shows that an advancing
  clock suffices; the capture of a process tree is a partial function that returns when the children read come from
  a finite set of ids.  The walk over a process table has fuel, the number of seeds and table entries, which
  \<open>descendants_are_reachable\<close> shows to be enough; so has the decimal printer of \<open>Decimal\<close>, the
  number itself.  The source's own bounds (source size, tokens, nesting, traversal depth 5 and 40
  files, frame sizes) are constants of the model.

  \<^bold>\<open>Not modelled.\<close>  The manifest lists every file.  Left out are argument parsing and printing
  (\<open>cli/\<close>), the CRIU controllers, lazy pages, snapshots and their provenance, whose effects are those of external
  programs; the file-system closures (\<open>source_dependency_closure.py\<close>, \<open>profile_satisfied_dependencies.py\<close>,
  \<open>logical_source_roots.py\<close>), bundles and installs, the reports, the fake HOL toplevel of the tests and the development
  scripts.  Constant explanatory texts of receipts and documents are dropped from the modelled values.
\<close>

end
